(* ===== verification/Prelude.thy ===== *)
theory Prelude
  imports Main "HOL-Library.Word"
begin

text \<open>
  Shared vocabulary of the development: the machine integer types of
  \<^verbatim>\<open>include/exchange/types.hpp\<close>, C++ exceptions as values, the ranges of signed
  integers, and the generic lemmas on words, lists and sums that the component theories use.

  Unsigned integers keep their width (\<open>'a word\<close>, so that \<open>+\<close> and \<open>-\<close> wrap as in the code).
  The signed 64-bit type \<^verbatim>\<open>std::int64_t\<close> (prices, positions) is \<open>int\<close>; the range is the
  predicate \<open>is_int64\<close>, and every place where the code computes on such a value is shown to stay
  inside the range.
\<close>

section \<open>Machine integers\<close>

type_synonym u8 = "8 word"
type_synonym u16 = "16 word"
type_synonym u32 = "32 word"
type_synonym u64 = "64 word"

abbreviation int64_min :: int where
  "int64_min \<equiv> - 9223372036854775808"

abbreviation int64_max :: int where
  "int64_max \<equiv> 9223372036854775807"

definition is_int64 :: "int \<Rightarrow> bool" where
  "is_int64 v \<longleftrightarrow> int64_min \<le> v \<and> v \<le> int64_max"

section \<open>Exceptions\<close>

text \<open>
  The standard exceptions the code throws, with their message. \<open>Undefined_Behaviour\<close> marks a
  dereference of an invalid iterator or an access past the end of a buffer: the code has no such
  branch, and the component theories show that it is never the result on a well-formed state.
\<close>

datatype exn =
    Invalid_Argument string
  | Out_Of_Range string
  | Logic_Error string
  | Length_Error string
  | Runtime_Error string
  | Undefined_Behaviour

type_synonym 'a outcome = "exn + 'a"

section \<open>Collections of rewrite rules\<close>

named_theorems level_simps "unfolding rules of the price-level operations"
named_theorems book_simps "unfolding rules of the order-book operations"
named_theorems engine_simps "unfolding rules of the matching-engine operations"
named_theorems risk_simps "unfolding rules of the risk-engine operations"
named_theorems codec_simps "unfolding rules of the wire encoders and decoders"

section \<open>Words\<close>

lemma unat_word_diff:
  fixes a b :: "'a::len word"
  assumes "b \<le> a"
  shows "unat (a - b) = unat a - unat b"
  using assms by (rule unat_sub)

lemma word_sum_list_of_nat:
  fixes f :: "'b \<Rightarrow> 'a::len word"
  shows "sum_list (map f xs) = word_of_nat (\<Sum>x\<leftarrow>xs. unat (f x))"
  by (induction xs) simp_all

lemma unat_sum_list_exact:
  fixes f :: "'b \<Rightarrow> 'a::len word"
  assumes "(\<Sum>x\<leftarrow>xs. unat (f x)) < 2 ^ LENGTH('a)"
  shows "unat (sum_list (map f xs)) = (\<Sum>x\<leftarrow>xs. unat (f x))"
  using assms by (simp add: word_sum_list_of_nat unat_of_nat take_bit_nat_eq_self_iff)

lemma unat_u32_less: "unat (q :: u32) < 2 ^ 32"
  using unsigned_less [of q, where 'a = nat] by simp

lemma unat_ucast_u64: "unat (ucast (q :: u32) :: u64) = unat q"
  using unat_u32_less [of q] by (simp add: unsigned_ucast_eq take_bit_nat_eq_self)

section \<open>Lists\<close>

lemma member_le_sum_list_nat:
  fixes f :: "'b \<Rightarrow> nat"
  assumes "x \<in> set xs"
  shows "f x \<le> (\<Sum>y\<leftarrow>xs. f y)"
  using assms by (induction xs) auto

lemma filter_neq_unique:
  assumes "k \<notin> f ` set xs" "k \<notin> f ` set ys" "f x = k"
  shows "filter (\<lambda>y. f y \<noteq> k) (xs @ x # ys) = xs @ ys"
proof -
  have "filter (\<lambda>y. f y \<noteq> k) xs = xs" using assms(1) by (intro filter_True) auto
  moreover have "filter (\<lambda>y. f y \<noteq> k) ys = ys" using assms(2) by (intro filter_True) auto
  ultimately show ?thesis using assms(3) by simp
qed

lemma map_of_split:
  assumes "distinct (map fst m)" "map_of m k = Some v"
  obtains m1 m2 where "m = m1 @ (k, v) # m2" "k \<notin> fst ` set m1" "k \<notin> fst ` set m2"
proof -
  have "(k, v) \<in> set m" using assms(2) by (rule map_of_SomeD)
  then obtain m1 m2 where m: "m = m1 @ (k, v) # m2" by (auto dest: split_list)
  moreover have "k \<notin> fst ` set m1" "k \<notin> fst ` set m2" using assms(1) m by auto
  ultimately show thesis using that by blast
qed

end
