(* ===== verification/Std_Map.thy ===== *)
theory Std_Map
  imports Prelude
begin

text \<open>
  What the code uses of \<^verbatim>\<open>std::map\<close>: an association list kept in the order of the map's
  comparator, so that \<^verbatim>\<open>begin()\<close> is the head of the list and iteration is list traversal.
  The comparator is a parameter, as in \<^verbatim>\<open>std::map<Price, PriceLevel, std::greater<Price>>\<close>.
  The locale \<open>map_order\<close> states what a comparator has to satisfy and proves the laws of the
  container once; it is interpreted for the two comparators of the code, \<^verbatim>\<open>std::less\<close>
  and \<^verbatim>\<open>std::greater\<close> on prices.
\<close>

type_synonym ('k, 'v) std_map = "('k \<times> 'v) list"

fun map_try_emplace ::
  "('k \<Rightarrow> 'k \<Rightarrow> bool) \<Rightarrow> 'k \<Rightarrow> 'v \<Rightarrow> ('k, 'v) std_map \<Rightarrow> ('k, 'v) std_map" where
  "map_try_emplace lt k v [] = [(k, v)]"
| "map_try_emplace lt k v ((k', v') # m) =
     (if lt k k' then (k, v) # (k', v') # m
      else if lt k' k then (k', v') # map_try_emplace lt k v m
      else (k', v') # m)"

definition map_set :: "'k \<Rightarrow> 'v \<Rightarrow> ('k, 'v) std_map \<Rightarrow> ('k, 'v) std_map" where
  "map_set k v m = map (\<lambda>(k', v'). if k' = k then (k', v) else (k', v')) m"

definition map_erase :: "'k \<Rightarrow> ('k, 'v) std_map \<Rightarrow> ('k, 'v) std_map" where
  "map_erase k m = filter (\<lambda>e. fst e \<noteq> k) m"

section \<open>Laws that do not depend on the order\<close>

lemma map_fst_map_set [simp]: "map fst (map_set k v m) = map fst m"
  by (induction m) (auto simp: map_set_def)

lemma map_set_Nil [simp]: "map_set k v [] = []"
  by (simp add: map_set_def)

lemma map_set_split:
  assumes "k \<notin> fst ` set m1" "k \<notin> fst ` set m2"
  shows "map_set k v' (m1 @ (k, v) # m2) = m1 @ (k, v') # m2"
proof -
  have "map_set k v' m = m" if "k \<notin> fst ` set m" for m :: "('a, 'b) std_map"
    using that by (induction m) (auto simp: map_set_def)
  then show ?thesis using assms by (simp add: map_set_def)
qed

lemma map_erase_split:
  assumes "k \<notin> fst ` set m1" "k \<notin> fst ` set m2"
  shows "map_erase k (m1 @ (k, v) # m2) = m1 @ m2"
  using filter_neq_unique [of k fst m1 m2 "(k, v)"] assms by (simp add: map_erase_def)

lemma map_of_map_set:
  "map_of (map_set k v m) = (if k \<in> fst ` set m then (map_of m)(k \<mapsto> v) else map_of m)"
  by (induction m) (auto simp: map_set_def fun_eq_iff)

lemma map_of_map_erase [simp]: "map_of (map_erase k m) = (map_of m)(k := None)"
  by (induction m) (auto simp: map_erase_def fun_eq_iff)

lemma map_erase_subset: "set (map_erase k m) \<subseteq> set m"
  by (auto simp: map_erase_def)

section \<open>The comparator contract\<close>

locale map_order =
  fixes lt :: "'k \<Rightarrow> 'k \<Rightarrow> bool"
  assumes lt_irrefl: "\<not> lt a a"
    and lt_trans: "lt a b \<Longrightarrow> lt b c \<Longrightarrow> lt a c"
    and lt_total: "lt a b \<or> a = b \<or> lt b a"
begin

lemma lt_asym: "lt a b \<Longrightarrow> \<not> lt b a"
  using lt_irrefl lt_trans by blast

lemma sorted_distinct: "sorted_wrt lt ks \<Longrightarrow> distinct ks"
  by (induction ks) (auto simp: lt_irrefl)

lemma keys_try_emplace:
  "fst ` set (map_try_emplace lt k v m) = insert k (fst ` set m)"
proof (induction m)
  case (Cons e m)
  obtain k' v' where e: "e = (k', v')" by (cases e)
  consider "lt k k'" | "k = k'" | "lt k' k" using lt_total by blast
  then show ?case by cases (use Cons e lt_irrefl lt_asym in \<open>auto simp: insert_commute\<close>)
qed simp

lemma sorted_try_emplace:
  "sorted_wrt lt (map fst m) \<Longrightarrow> sorted_wrt lt (map fst (map_try_emplace lt k v m))"
proof (induction m)
  case Nil
  then show ?case by simp
next
  case (Cons e m)
  have "fst ` set (map_try_emplace lt k v m) = insert k (fst ` set m)"
    by (rule keys_try_emplace)
  with Cons show ?case
    by (cases e) (auto simp flip: set_map intro: lt_trans)
qed

lemma map_of_try_emplace:
  assumes "sorted_wrt lt (map fst m)"
  shows "map_of (map_try_emplace lt k v m) =
    (case map_of m k of None \<Rightarrow> (map_of m)(k \<mapsto> v) | Some _ \<Rightarrow> map_of m)"
  using assms
proof (induction m)
  case Nil
  then show ?case by simp
next
  case (Cons e m)
  obtain k' v' where e: "e = (k', v')" by (cases e)
  have below: "map_of m k = None" if "lt k k'"
  proof -
    have "k \<notin> set (map fst m)"
      using Cons.prems e that lt_trans lt_irrefl by fastforce
    then show ?thesis by (simp add: map_of_eq_None_iff)
  qed
  from Cons have IH: "map_of (map_try_emplace lt k v m) =
    (case map_of m k of None \<Rightarrow> (map_of m)(k \<mapsto> v) | Some _ \<Rightarrow> map_of m)" by simp
  consider "lt k k'" | "k = k'" | "lt k' k" using lt_total by blast
  then show ?case
  proof cases
    case 1
    then have "k \<noteq> k'" using lt_irrefl by blast
    then show ?thesis using 1 below e by (auto simp: fun_eq_iff)
  next
    case 2
    then show ?thesis using e by (simp add: lt_irrefl)
  next
    case 3
    then have "k \<noteq> k'" "\<not> lt k k'" using lt_irrefl lt_asym by blast+
    then show ?thesis using 3 e IH by (auto simp: fun_eq_iff split: option.splits)
  qed
qed

lemma try_emplace_present:
  assumes "sorted_wrt lt (map fst m)" "map_of m k = Some v'"
  shows "map_try_emplace lt k v m = m"
  using assms
proof (induction m)
  case Nil
  then show ?case by simp
next
  case (Cons e m)
  obtain k' v'' where e: "e = (k', v'')" by (cases e)
  show ?case
  proof (cases "k = k'")
    case True
    then show ?thesis using e by (simp add: lt_irrefl)
  next
    case False
    then have m: "map_of m k = Some v'" using Cons.prems e by simp
    then have "k \<in> fst ` set m" by (metis map_of_SomeD fst_conv image_eqI)
    then have "lt k' k" using Cons.prems e by auto
    then show ?thesis using Cons.IH Cons.prems e m lt_asym by auto
  qed
qed

lemma try_emplace_absent:
  assumes "sorted_wrt lt (map fst m)" "k \<notin> fst ` set m"
  shows "map_try_emplace lt k v m =
    takeWhile (\<lambda>e. lt (fst e) k) m @ (k, v) # dropWhile (\<lambda>e. lt (fst e) k) m"
  using assms
proof (induction m)
  case Nil
  then show ?case by simp
next
  case (Cons e m)
  obtain k' v' where e: "e = (k', v')" by (cases e)
  have "k \<noteq> k'" using Cons.prems e by auto
  then consider "lt k k'" | "lt k' k" using lt_total by blast
  then show ?case
    by cases (use Cons e lt_asym in auto)
qed

lemma sorted_erase:
  "sorted_wrt lt (map fst m) \<Longrightarrow> sorted_wrt lt (map fst (map_erase k m))"
  by (induction m) (auto simp: map_erase_def)

lemma sorted_set: "sorted_wrt lt (map fst m) \<Longrightarrow> sorted_wrt lt (map fst (map_set k v m))"
  by simp

end

interpretation asc: map_order "(<) :: int \<Rightarrow> int \<Rightarrow> bool"
  by unfold_locales auto

interpretation desc: map_order "(>) :: int \<Rightarrow> int \<Rightarrow> bool"
  by unfold_locales auto

end
