(* ===== verification/Order_Types.thy ===== *)
theory Order_Types
  imports Prelude
begin

text \<open>
  The value types of the engine: \<^verbatim>\<open>include/exchange/types.hpp\<close>,
  \<^verbatim>\<open>include/exchange/order.hpp\<close> and \<^verbatim>\<open>include/exchange/trade.hpp\<close>.
  A price is a \<^verbatim>\<open>std::int64_t\<close>, here an \<open>int\<close>: the engine only compares prices.
\<close>

type_synonym OrderId = u64
type_synonym Price = int
type_synonym Quantity = u32
type_synonym Timestamp = u64

datatype Side = Buy | Sell

datatype OrderType = Limit | Market

datatype TimeInForce = GoodTillCancel | ImmediateOrCancel | FillOrKill

record Order =
  ord_id :: OrderId
  ord_side :: Side
  ord_type :: OrderType
  ord_tif :: TimeInForce
  ord_price :: Price
  ord_initial :: Quantity
  ord_remaining :: Quantity
  ord_timestamp :: Timestamp

definition is_filled :: "Order \<Rightarrow> bool" where
  "is_filled order \<longleftrightarrow> ord_remaining order = 0"

record Trade =
  tr_buy_order_id :: OrderId
  tr_sell_order_id :: OrderId
  tr_price :: Price
  tr_quantity :: Quantity
  tr_timestamp :: Timestamp

fun opposite :: "Side \<Rightarrow> Side" where
  "opposite Buy = Sell"
| "opposite Sell = Buy"

lemma opposite_opposite [simp]: "opposite (opposite s) = s"
  by (cases s) simp_all

lemma opposite_neq [simp]: "opposite s \<noteq> s" "s \<noteq> opposite s"
  by (cases s, simp_all)+

text \<open>Total open quantity of a list of orders, exact and as the code's 32-bit sum.\<close>

definition open_quantity :: "Order list \<Rightarrow> nat" where
  "open_quantity os = (\<Sum>x\<leftarrow>os. unat (ord_remaining x))"

lemma open_quantity_simps [simp]:
  "open_quantity [] = 0"
  "open_quantity (x # os) = unat (ord_remaining x) + open_quantity os"
  "open_quantity (os @ os') = open_quantity os + open_quantity os'"
  by (simp_all add: open_quantity_def)

lemma member_le_open_quantity: "x \<in> set os \<Longrightarrow> unat (ord_remaining x) \<le> open_quantity os"
  unfolding open_quantity_def by (rule member_le_sum_list_nat)

end
