(* ===== verification/Price_Level.thy ===== *)
theory Price_Level
  imports Order_Types
begin

text \<open>
  \<^verbatim>\<open>class PriceLevel\<close> of \<^verbatim>\<open>include/exchange/price_level.hpp\<close>: the FIFO queue of
  the resting orders at one price, with their total quantity cached in a 32-bit counter.

  The queue is a \<^verbatim>\<open>std::pmr::list\<close>. An iterator of such a list names one node and stays
  valid while other nodes come and go, so a node is a pair of a handle and an order, \<open>Node h\<close> is
  the iterator to the node with handle \<open>h\<close>, and \<open>End\<close> is \<^verbatim>\<open>orders_.end()\<close>. Handles are
  drawn from a counter of the level; which handle a node gets is not observable.
\<close>

datatype order_iterator = Node nat | End

record PriceLevel =
  lvl_price :: Price
  lvl_total :: Quantity
  lvl_nodes :: "(nat \<times> Order) list"
  lvl_next :: nat

definition new_level :: "Price \<Rightarrow> PriceLevel" where
  "new_level p = \<lparr>lvl_price = p, lvl_total = 0, lvl_nodes = [], lvl_next = 0\<rparr>"

definition level_empty :: "PriceLevel \<Rightarrow> bool" where
  "level_empty l \<longleftrightarrow> lvl_nodes l = []"

definition level_order_count :: "PriceLevel \<Rightarrow> nat" where
  "level_order_count l = length (lvl_nodes l)"

definition level_front :: "PriceLevel \<Rightarrow> Order outcome" where
  "level_front l =
     (case lvl_nodes l of
        [] \<Rightarrow> Inl (Out_Of_Range ''Price level is empty'')
      | (h, x) # _ \<Rightarrow> Inr x)"

definition level_add_order :: "Order \<Rightarrow> PriceLevel \<Rightarrow> (order_iterator \<times> PriceLevel) outcome" where
  "level_add_order x l =
     (if ord_remaining x = 0 then Inl (Invalid_Argument ''Order quantity must be positive'')
      else if ord_price x \<noteq> lvl_price l then
        Inl (Invalid_Argument ''Order price does not match price level'')
      else
        Inr (Node (lvl_next l),
             l\<lparr>lvl_total := lvl_total l + ord_remaining x,
               lvl_nodes := lvl_nodes l @ [(lvl_next l, x)],
               lvl_next := Suc (lvl_next l)\<rparr>))"

definition level_erase :: "order_iterator \<Rightarrow> PriceLevel \<Rightarrow> PriceLevel outcome" where
  "level_erase it l =
     (case it of
        End \<Rightarrow> Inl (Invalid_Argument ''Cannot erase end iterator'')
      | Node h \<Rightarrow>
          (case map_of (lvl_nodes l) h of
             None \<Rightarrow> Inl Undefined_Behaviour
           | Some x \<Rightarrow>
               if ord_remaining x > lvl_total l then
                 Inl (Logic_Error ''Price level quantity is inconsistent'')
               else
                 Inr (l\<lparr>lvl_total := lvl_total l - ord_remaining x,
                        lvl_nodes := filter (\<lambda>n. fst n \<noteq> h) (lvl_nodes l)\<rparr>)))"

definition level_fill_front :: "Quantity \<Rightarrow> PriceLevel \<Rightarrow> PriceLevel outcome" where
  "level_fill_front q l =
     (case lvl_nodes l of
        [] \<Rightarrow> Inl (Out_Of_Range ''Cannot fill an empty price level'')
      | (h, x) # rest \<Rightarrow>
          if q = 0 then Inl (Invalid_Argument ''Fill quantity must be positive'')
          else if q > ord_remaining x then
            Inl (Invalid_Argument ''Fill quantity exceeds remaining order quantity'')
          else
            let x' = x\<lparr>ord_remaining := ord_remaining x - q\<rparr>
            in Inr (l\<lparr>lvl_total := lvl_total l - q,
                      lvl_nodes := (if is_filled x' then rest else (h, x') # rest)\<rparr>))"

section \<open>Abstraction and invariant\<close>

definition level_orders :: "PriceLevel \<Rightarrow> Order list" where
  "level_orders l = map snd (lvl_nodes l)"

text \<open>
  The counter is the sum of the open quantities modulo \<open>2 ^ 32\<close>. It is the exact sum as long as
  that sum fits, which is what \<open>level_exact\<close> says; the code does not enforce it.
\<close>

definition level_wf :: "PriceLevel \<Rightarrow> bool" where
  "level_wf l \<longleftrightarrow>
     lvl_total l = sum_list (map ord_remaining (level_orders l)) \<and>
     distinct (map fst (lvl_nodes l)) \<and>
     (\<forall>n\<in>set (lvl_nodes l). fst n < lvl_next l \<and> ord_remaining (snd n) \<noteq> 0 \<and>
        ord_price (snd n) = lvl_price l)"

definition level_exact :: "PriceLevel \<Rightarrow> bool" where
  "level_exact l \<longleftrightarrow> open_quantity (level_orders l) < 2 ^ 32"

lemma level_orders_Nil_iff [simp]: "level_orders l = [] \<longleftrightarrow> lvl_nodes l = []"
  by (simp add: level_orders_def)

lemma level_wf_new [simp]: "level_wf (new_level p)"
  by (simp add: level_wf_def new_level_def level_orders_def)

lemma new_level_simps [simp]:
  "lvl_price (new_level p) = p" "lvl_nodes (new_level p) = []" "lvl_total (new_level p) = 0"
  by (simp_all add: new_level_def)

lemma level_total_exact:
  assumes "level_wf l" "level_exact l"
  shows "unat (lvl_total l) = open_quantity (level_orders l)"
  using assms unat_sum_list_exact [of ord_remaining "level_orders l"]
  by (simp add: level_wf_def level_exact_def open_quantity_def)

lemma level_total_mod:
  assumes "level_wf l"
  shows "unat (lvl_total l) = open_quantity (level_orders l) mod 2 ^ 32"
  using assms
  by (simp add: level_wf_def word_sum_list_of_nat open_quantity_def unat_of_nat take_bit_eq_mod)

section \<open>The operations on a well-formed level\<close>

lemma level_add_order_ok:
  assumes "level_wf l" "ord_remaining x \<noteq> 0" "ord_price x = lvl_price l"
  obtains l' where "level_add_order x l = Inr (Node (lvl_next l), l')" "level_wf l'"
    "lvl_nodes l' = lvl_nodes l @ [(lvl_next l, x)]" "lvl_price l' = lvl_price l"
proof -
  let ?l' = "l\<lparr>lvl_total := lvl_total l + ord_remaining x,
               lvl_nodes := lvl_nodes l @ [(lvl_next l, x)], lvl_next := Suc (lvl_next l)\<rparr>"
  have "level_add_order x l = Inr (Node (lvl_next l), ?l')"
    using assms by (simp add: level_add_order_def)
  moreover have "level_wf ?l'"
    using assms by (fastforce simp: level_wf_def level_orders_def)
  ultimately show thesis using that by simp
qed

lemma sum_list_remove_node:
  fixes f :: "'b \<Rightarrow> 'c::ab_group_add"
  assumes "distinct (map fst ns)" "map_of ns h = Some x"
  shows "sum_list (map (f \<circ> snd) (filter (\<lambda>n. fst n \<noteq> h) ns)) = sum_list (map (f \<circ> snd) ns) - f x"
proof -
  obtain ns1 ns2 where ns: "ns = ns1 @ (h, x) # ns2"
    and "h \<notin> fst ` set ns1" "h \<notin> fst ` set ns2"
    using assms by (rule map_of_split)
  then have "filter (\<lambda>n. fst n \<noteq> h) ns = ns1 @ ns2"
    using filter_neq_unique [of h fst ns1 ns2 "(h, x)"] by simp
  then show ?thesis using ns by simp
qed

lemma level_erase_ok:
  assumes "level_wf l" "map_of (lvl_nodes l) h = Some x" "ord_remaining x \<le> lvl_total l"
  obtains l' where "level_erase (Node h) l = Inr l'" "level_wf l'"
    "lvl_nodes l' = filter (\<lambda>n. fst n \<noteq> h) (lvl_nodes l)" "lvl_price l' = lvl_price l"
proof -
  let ?l' = "l\<lparr>lvl_total := lvl_total l - ord_remaining x,
               lvl_nodes := filter (\<lambda>n. fst n \<noteq> h) (lvl_nodes l)\<rparr>"
  have "level_erase (Node h) l = Inr ?l'"
    using assms by (simp add: level_erase_def)
  moreover have "level_wf ?l'"
    using assms sum_list_remove_node [of "lvl_nodes l" h x ord_remaining]
    by (auto simp: level_wf_def level_orders_def distinct_map inj_on_def)
  ultimately show thesis using that by simp
qed

lemma level_erase_inconsistent:
  assumes "map_of (lvl_nodes l) h = Some x" "lvl_total l < ord_remaining x"
  shows "level_erase (Node h) l = Inl (Logic_Error ''Price level quantity is inconsistent'')"
  using assms by (simp add: level_erase_def)

lemma level_exact_total_ge:
  assumes "level_wf l" "level_exact l" "x \<in> set (level_orders l)"
  shows "ord_remaining x \<le> lvl_total l"
  using assms level_total_exact [of l] member_le_open_quantity [of x "level_orders l"]
  by (simp add: word_le_nat_alt)

lemma level_fill_front_ok:
  assumes "level_wf l" "lvl_nodes l = (h, x) # ns" "0 < q" "q \<le> ord_remaining x"
  obtains l' where "level_fill_front q l = Inr l'" "level_wf l'"
    "lvl_nodes l' =
       (if q = ord_remaining x then ns
        else (h, x\<lparr>ord_remaining := ord_remaining x - q\<rparr>) # ns)"
    "lvl_price l' = lvl_price l"
proof -
  let ?x' = "x\<lparr>ord_remaining := ord_remaining x - q\<rparr>"
  let ?l' = "l\<lparr>lvl_total := lvl_total l - q,
               lvl_nodes := (if is_filled ?x' then ns else (h, ?x') # ns)\<rparr>"
  have filled: "is_filled ?x' \<longleftrightarrow> q = ord_remaining x"
    by (auto simp: is_filled_def)
  have "level_fill_front q l = Inr ?l'"
    using assms by (auto simp: level_fill_front_def Let_def)
  moreover have "level_wf ?l'"
    using assms filled by (auto simp: level_wf_def level_orders_def is_filled_def)
  ultimately show thesis using that filled by simp
qed

end
