(* ===== verification/Order_Book.thy ===== *)
theory Order_Book
  imports Std_Map Price_Level
begin

text \<open>
  \<^verbatim>\<open>class OrderBook\<close> of \<^verbatim>\<open>include/exchange/order_book.hpp\<close>: two ladders of price
  levels (\<^verbatim>\<open>bids\<close> ordered by \<^verbatim>\<open>std::greater\<close>, \<^verbatim>\<open>asks\<close> by
  \<^verbatim>\<open>std::less\<close>) and the index \<^verbatim>\<open>order_locations\<close> from order ids to list
  iterators. The unordered map of the index is a map \<open>OrderId \<rightharpoonup> OrderLocation\<close>; the memory
  pool that stores the nodes is not part of the state.

  An operation that can throw returns the exception or value together with the book it leaves
  behind, since some exceptions leave a changed book.
\<close>

record OrderLocation =
  loc_side :: Side
  loc_price :: Price
  loc_it :: order_iterator

type_synonym Ladder = "(Price, PriceLevel) std_map"

record OrderBook =
  bids :: Ladder
  asks :: Ladder
  order_locations :: "OrderId \<rightharpoonup> OrderLocation"

definition new_book :: OrderBook where
  "new_book = \<lparr>bids = [], asks = [], order_locations = Map.empty\<rparr>"

definition contains :: "OrderBook \<Rightarrow> OrderId \<Rightarrow> bool" where
  "contains b i \<longleftrightarrow> order_locations b i \<noteq> None"

definition book_add_order :: "Order \<Rightarrow> OrderBook \<Rightarrow> unit outcome \<times> OrderBook" where
  "book_add_order x b =
     (if contains b (ord_id x) then (Inl (Invalid_Argument ''Duplicate order ID''), b)
      else if ord_type x \<noteq> Limit then
        (Inl (Invalid_Argument ''Only limit orders may rest on the order book''), b)
      else if ord_remaining x = 0 then
        (Inl (Invalid_Argument ''Order quantity must be positive''), b)
      else
        let i = ord_id x; s = ord_side x; p = ord_price x
        in if s = Buy then
             let levels = map_try_emplace (>) p (new_level p) (bids b)
             in (case map_of levels p of
                   None \<Rightarrow> (Inl Undefined_Behaviour, b\<lparr>bids := levels\<rparr>)
                 | Some lvl \<Rightarrow>
                     (case level_add_order x lvl of
                        Inl e \<Rightarrow> (Inl e, b\<lparr>bids := levels\<rparr>)
                      | Inr (it, lvl') \<Rightarrow>
                          (Inr (), b\<lparr>bids := map_set p lvl' levels,
                             order_locations := (order_locations b)
                               (i \<mapsto> \<lparr>loc_side = s, loc_price = p, loc_it = it\<rparr>)\<rparr>)))
           else
             let levels = map_try_emplace (<) p (new_level p) (asks b)
             in (case map_of levels p of
                   None \<Rightarrow> (Inl Undefined_Behaviour, b\<lparr>asks := levels\<rparr>)
                 | Some lvl \<Rightarrow>
                     (case level_add_order x lvl of
                        Inl e \<Rightarrow> (Inl e, b\<lparr>asks := levels\<rparr>)
                      | Inr (it, lvl') \<Rightarrow>
                          (Inr (), b\<lparr>asks := map_set p lvl' levels,
                             order_locations := (order_locations b)
                               (i \<mapsto> \<lparr>loc_side = s, loc_price = p, loc_it = it\<rparr>)\<rparr>))))"

text \<open>Following an iterator of the index: \<open>None\<close> would be a dangling iterator.\<close>

definition deref_location :: "OrderBook \<Rightarrow> OrderLocation \<Rightarrow> Order option" where
  "deref_location b loc =
     (case map_of (if loc_side loc = Buy then bids b else asks b) (loc_price loc) of
        None \<Rightarrow> None
      | Some lvl \<Rightarrow>
          (case loc_it loc of Node h \<Rightarrow> map_of (lvl_nodes lvl) h | End \<Rightarrow> None))"

definition extract_order :: "OrderId \<Rightarrow> OrderBook \<Rightarrow> Order option outcome \<times> OrderBook" where
  "extract_order i b =
     (case order_locations b i of
        None \<Rightarrow> (Inr None, b)
      | Some loc \<Rightarrow>
          (case deref_location b loc of
             None \<Rightarrow> (Inl Undefined_Behaviour, b)
           | Some x \<Rightarrow>
               if loc_side loc = Buy then
                 (case map_of (bids b) (loc_price loc) of
                    None \<Rightarrow> (Inl (Logic_Error ''Bid order index is inconsistent''), b)
                  | Some lvl \<Rightarrow>
                      (case level_erase (loc_it loc) lvl of
                         Inl e \<Rightarrow> (Inl e, b)
                       | Inr lvl' \<Rightarrow>
                           (Inr (Some x),
                            b\<lparr>bids := (if level_empty lvl' then map_erase (loc_price loc) (bids b)
                                      else map_set (loc_price loc) lvl' (bids b)),
                              order_locations := (order_locations b)(i := None)\<rparr>)))
               else
                 (case map_of (asks b) (loc_price loc) of
                    None \<Rightarrow> (Inl (Logic_Error ''Ask order index is inconsistent''), b)
                  | Some lvl \<Rightarrow>
                      (case level_erase (loc_it loc) lvl of
                         Inl e \<Rightarrow> (Inl e, b)
                       | Inr lvl' \<Rightarrow>
                           (Inr (Some x),
                            b\<lparr>asks := (if level_empty lvl' then map_erase (loc_price loc) (asks b)
                                      else map_set (loc_price loc) lvl' (asks b)),
                              order_locations := (order_locations b)(i := None)\<rparr>)))))"

definition book_cancel_order :: "OrderId \<Rightarrow> OrderBook \<Rightarrow> bool outcome \<times> OrderBook" where
  "book_cancel_order i b =
     (case extract_order i b of
        (Inl e, b') \<Rightarrow> (Inl e, b')
      | (Inr r, b') \<Rightarrow> (Inr (r \<noteq> None), b'))"

definition find_order :: "OrderBook \<Rightarrow> OrderId \<Rightarrow> Order option" where
  "find_order b i =
     (case order_locations b i of None \<Rightarrow> None | Some loc \<Rightarrow> deref_location b loc)"

definition order_count :: "OrderBook \<Rightarrow> nat" where
  "order_count b = card (dom (order_locations b))"

definition swap_books :: "OrderBook \<times> OrderBook \<Rightarrow> OrderBook \<times> OrderBook" where
  "swap_books bb = (snd bb, fst bb)"

definition book_empty :: "OrderBook \<Rightarrow> bool" where
  "book_empty b \<longleftrightarrow> bids b = [] \<and> asks b = []"

definition has_bids :: "OrderBook \<Rightarrow> bool" where
  "has_bids b \<longleftrightarrow> bids b \<noteq> []"

definition has_asks :: "OrderBook \<Rightarrow> bool" where
  "has_asks b \<longleftrightarrow> asks b \<noteq> []"

definition best_bid :: "OrderBook \<Rightarrow> Price outcome" where
  "best_bid b =
     (case bids b of [] \<Rightarrow> Inl (Out_Of_Range ''Order book has no bids'') | (p, l) # _ \<Rightarrow> Inr p)"

definition best_ask :: "OrderBook \<Rightarrow> Price outcome" where
  "best_ask b =
     (case asks b of [] \<Rightarrow> Inl (Out_Of_Range ''Order book has no asks'') | (p, l) # _ \<Rightarrow> Inr p)"

definition best_bid_level :: "OrderBook \<Rightarrow> PriceLevel outcome" where
  "best_bid_level b =
     (case bids b of [] \<Rightarrow> Inl (Out_Of_Range ''Order book has no bids'') | (p, l) # _ \<Rightarrow> Inr l)"

definition best_ask_level :: "OrderBook \<Rightarrow> PriceLevel outcome" where
  "best_ask_level b =
     (case asks b of [] \<Rightarrow> Inl (Out_Of_Range ''Order book has no asks'') | (p, l) # _ \<Rightarrow> Inr l)"

text \<open>Writing through the reference that \<^verbatim>\<open>best_bid_level()\<close> returned.\<close>

definition set_best_bid_level :: "PriceLevel \<Rightarrow> OrderBook \<Rightarrow> OrderBook" where
  "set_best_bid_level l b =
     b\<lparr>bids := (case bids b of [] \<Rightarrow> [] | (p, _) # m \<Rightarrow> (p, l) # m)\<rparr>"

definition set_best_ask_level :: "PriceLevel \<Rightarrow> OrderBook \<Rightarrow> OrderBook" where
  "set_best_ask_level l b =
     b\<lparr>asks := (case asks b of [] \<Rightarrow> [] | (p, _) # m \<Rightarrow> (p, l) # m)\<rparr>"

text \<open>
  The two loops of \<^verbatim>\<open>executable_quantity\<close>, with the running total as an argument.
\<close>

fun executable_asks :: "Order \<Rightarrow> u64 \<Rightarrow> Ladder \<Rightarrow> u64" where
  "executable_asks inc available [] = available"
| "executable_asks inc available ((p, lvl) # m) =
     (if ord_type inc = Limit \<and> p > ord_price inc then available
      else let available' = available + ucast (lvl_total lvl)
           in if available' \<ge> ucast (ord_remaining inc) then available'
              else executable_asks inc available' m)"

fun executable_bids :: "Order \<Rightarrow> u64 \<Rightarrow> Ladder \<Rightarrow> u64" where
  "executable_bids inc available [] = available"
| "executable_bids inc available ((p, lvl) # m) =
     (if ord_type inc = Limit \<and> p < ord_price inc then available
      else let available' = available + ucast (lvl_total lvl)
           in if available' \<ge> ucast (ord_remaining inc) then available'
              else executable_bids inc available' m)"

definition executable_quantity :: "OrderBook \<Rightarrow> Order \<Rightarrow> u64" where
  "executable_quantity b inc =
     (if ord_side inc = Buy then executable_asks inc 0 (asks b)
      else executable_bids inc 0 (bids b))"

definition remove_best_bid_if_empty :: "OrderBook \<Rightarrow> OrderBook" where
  "remove_best_bid_if_empty b =
     (case bids b of
        [] \<Rightarrow> b
      | (p, l) # m \<Rightarrow> if level_empty l then b\<lparr>bids := m\<rparr> else b)"

definition remove_best_ask_if_empty :: "OrderBook \<Rightarrow> OrderBook" where
  "remove_best_ask_if_empty b =
     (case asks b of
        [] \<Rightarrow> b
      | (p, l) # m \<Rightarrow> if level_empty l then b\<lparr>asks := m\<rparr> else b)"

definition remove_from_index :: "OrderId \<Rightarrow> OrderBook \<Rightarrow> OrderBook" where
  "remove_from_index i b = b\<lparr>order_locations := (order_locations b)(i := None)\<rparr>"

section \<open>One side of the book\<close>

text \<open>
  The code writes every operation once for bids and once for asks. The proofs are done once, for
  a side \<open>s\<close> with its ladder and its comparator.
\<close>

fun side_lt :: "Side \<Rightarrow> Price \<Rightarrow> Price \<Rightarrow> bool" where
  "side_lt Buy p q = (p > q)"
| "side_lt Sell p q = (p < q)"

fun ladder :: "Side \<Rightarrow> OrderBook \<Rightarrow> Ladder" where
  "ladder Buy b = bids b"
| "ladder Sell b = asks b"

fun set_ladder :: "Side \<Rightarrow> Ladder \<Rightarrow> OrderBook \<Rightarrow> OrderBook" where
  "set_ladder Buy m b = b\<lparr>bids := m\<rparr>"
| "set_ladder Sell m b = b\<lparr>asks := m\<rparr>"

definition ladder_nodes :: "Ladder \<Rightarrow> (Price \<times> nat \<times> Order) list" where
  "ladder_nodes m = concat (map (\<lambda>e. map (\<lambda>n. (fst e, n)) (lvl_nodes (snd e))) m)"

definition ladder_orders :: "Ladder \<Rightarrow> Order list" where
  "ladder_orders m = map (\<lambda>n. snd (snd n)) (ladder_nodes m)"

definition node_location :: "Side \<Rightarrow> Price \<times> nat \<times> Order \<Rightarrow> OrderId \<times> OrderLocation" where
  "node_location s n =
     (ord_id (snd (snd n)), \<lparr>loc_side = s, loc_price = fst n, loc_it = Node (fst (snd n))\<rparr>)"

definition entry_wf :: "Side \<Rightarrow> Price \<times> PriceLevel \<Rightarrow> bool" where
  "entry_wf s e \<longleftrightarrow>
     level_wf (snd e) \<and> lvl_price (snd e) = fst e \<and> lvl_nodes (snd e) \<noteq> [] \<and>
     (\<forall>n\<in>set (lvl_nodes (snd e)). ord_side (snd n) = s \<and> ord_type (snd n) = Limit)"

definition ladder_wf :: "Side \<Rightarrow> Ladder \<Rightarrow> bool" where
  "ladder_wf s m \<longleftrightarrow> sorted_wrt (side_lt s) (map fst m) \<and> (\<forall>e\<in>set m. entry_wf s e)"

text \<open>
  The invariant of a book: both ladders are well-formed, the index holds exactly the location of
  every resting order, and no id occurs twice.
\<close>

definition book_wf :: "OrderBook \<Rightarrow> bool" where
  "book_wf b \<longleftrightarrow>
     ladder_wf Buy (bids b) \<and> ladder_wf Sell (asks b) \<and>
     Map.graph (order_locations b) =
       node_location Buy ` set (ladder_nodes (bids b)) \<union>
       node_location Sell ` set (ladder_nodes (asks b)) \<and>
     distinct (map ord_id (ladder_orders (bids b) @ ladder_orders (asks b)))"

text \<open>No level's 32-bit counter has wrapped.\<close>

definition book_exact :: "OrderBook \<Rightarrow> bool" where
  "book_exact b \<longleftrightarrow> (\<forall>e\<in>set (bids b) \<union> set (asks b). level_exact (snd e))"

text \<open>
  The abstract book: for each side the resting orders in execution order. \<open>resting s b\<close> reads it
  off the ladder; \<open>queue_insert\<close> is price-time priority.
\<close>

definition resting :: "Side \<Rightarrow> OrderBook \<Rightarrow> Order list" where
  "resting s b = ladder_orders (ladder s b)"

definition queue_insert :: "Side \<Rightarrow> Order \<Rightarrow> Order list \<Rightarrow> Order list" where
  "queue_insert s x q =
     takeWhile (\<lambda>y. \<not> side_lt s (ord_price x) (ord_price y)) q @ x #
     dropWhile (\<lambda>y. \<not> side_lt s (ord_price x) (ord_price y)) q"

definition queue_remove :: "OrderId \<Rightarrow> Order list \<Rightarrow> Order list" where
  "queue_remove i q = filter (\<lambda>y. ord_id y \<noteq> i) q"

interpretation side: map_order "side_lt s" for s
  by unfold_locales (cases s; auto)+

section \<open>Ladders as lists of nodes\<close>

lemma ladder_nodes_simps [simp]:
  "ladder_nodes [] = []"
  "ladder_nodes (e # m) = map (\<lambda>n. (fst e, n)) (lvl_nodes (snd e)) @ ladder_nodes m"
  "ladder_nodes (m @ m') = ladder_nodes m @ ladder_nodes m'"
  by (simp_all add: ladder_nodes_def)

lemma ladder_orders_simps [simp]:
  "ladder_orders [] = []"
  "ladder_orders (e # m) = level_orders (snd e) @ ladder_orders m"
  "ladder_orders (m @ m') = ladder_orders m @ ladder_orders m'"
  by (simp_all add: ladder_orders_def level_orders_def)

lemma in_ladder_nodes:
  "(p, h, x) \<in> set (ladder_nodes m) \<longleftrightarrow> (\<exists>l. (p, l) \<in> set m \<and> (h, x) \<in> set (lvl_nodes l))"
  by (induction m) auto

lemma in_ladder_orders:
  "x \<in> set (ladder_orders m) \<longleftrightarrow> (\<exists>e\<in>set m. x \<in> set (level_orders (snd e)))"
  by (induction m) auto

lemma ladder_wf_simps:
  "ladder_wf s (m1 @ m2) \<longleftrightarrow>
     ladder_wf s m1 \<and> ladder_wf s m2 \<and> (\<forall>e1\<in>set m1. \<forall>e2\<in>set m2. side_lt s (fst e1) (fst e2))"
  "ladder_wf s (e # m) \<longleftrightarrow>
     entry_wf s e \<and> ladder_wf s m \<and> (\<forall>e2\<in>set m. side_lt s (fst e) (fst e2))"
  "ladder_wf s []"
  by (auto simp: ladder_wf_def sorted_wrt_append)

lemma ladder_wf_replace:
  assumes "ladder_wf s (m1 @ (p, l) # m2)" "entry_wf s (p, l')"
  shows "ladder_wf s (m1 @ (p, l') # m2)"
  using assms by (auto simp: ladder_wf_simps)

lemma ladder_wf_drop:
  assumes "ladder_wf s (m1 @ (p, l) # m2)"
  shows "ladder_wf s (m1 @ m2)"
  using assms by (auto simp: ladder_wf_simps)

lemma entry_wf_order:
  assumes "entry_wf s (p, l)" "x \<in> set (level_orders l)"
  shows "ord_price x = p" "ord_side x = s" "ord_type x = Limit" "ord_remaining x \<noteq> 0"
  using assms by (auto simp: entry_wf_def level_wf_def level_orders_def)

lemma ladder_order_wf:
  assumes "ladder_wf s m" "x \<in> set (ladder_orders m)"
  shows "ord_side x = s" "ord_type x = Limit" "ord_remaining x \<noteq> 0"
  using assms entry_wf_order by (fastforce simp: in_ladder_orders ladder_wf_def)+

lemma ladder_order_price:
  assumes "ladder_wf s m" "x \<in> set (ladder_orders m)"
  shows "ord_price x \<in> fst ` set m"
proof -
  obtain p l where "(p, l) \<in> set m" "x \<in> set (level_orders l)"
    using assms(2) by (auto simp: in_ladder_orders)
  moreover from this have "ord_price x = p"
    using assms(1) entry_wf_order(1) by (fastforce simp: ladder_wf_def)
  ultimately show ?thesis by force
qed

text \<open>Zooming in on one level and on one node.\<close>

lemma ladder_split:
  assumes "ladder_wf s m" "map_of m p = Some l"
  obtains m1 m2 where "m = m1 @ (p, l) # m2" "p \<notin> fst ` set m1" "p \<notin> fst ` set m2"
proof -
  have "distinct (map fst m)"
    using assms(1) side.sorted_distinct by (auto simp: ladder_wf_def)
  then show thesis using assms(2) that by (rule map_of_split)
qed

lemma ladder_node_split:
  assumes "ladder_wf s m" "(p, h, x) \<in> set (ladder_nodes m)"
  obtains m1 l m2 ns1 ns2 where "m = m1 @ (p, l) # m2" "p \<notin> fst ` set m1" "p \<notin> fst ` set m2"
    "map_of m p = Some l" "map_of (lvl_nodes l) h = Some x"
    "lvl_nodes l = ns1 @ (h, x) # ns2" "filter (\<lambda>n. fst n \<noteq> h) (lvl_nodes l) = ns1 @ ns2"
proof -
  obtain l where l: "(p, l) \<in> set m" "(h, x) \<in> set (lvl_nodes l)"
    using assms(2) by (auto simp: in_ladder_nodes)
  have d: "distinct (map fst m)" using assms(1) side.sorted_distinct by (auto simp: ladder_wf_def)
  then have pl: "map_of m p = Some l" using l(1) by simp
  obtain m1 m2 where m: "m = m1 @ (p, l) # m2" "p \<notin> fst ` set m1" "p \<notin> fst ` set m2"
    using assms(1) pl by (rule ladder_split)
  have dn: "distinct (map fst (lvl_nodes l))"
    using assms(1) l(1) by (auto simp: ladder_wf_def entry_wf_def level_wf_def)
  then have hx: "map_of (lvl_nodes l) h = Some x" using l(2) by simp
  obtain ns1 ns2 where ns: "lvl_nodes l = ns1 @ (h, x) # ns2" "h \<notin> fst ` set ns1" "h \<notin> fst ` set ns2"
    using dn hx by (rule map_of_split)
  have "filter (\<lambda>n. fst n \<noteq> h) (lvl_nodes l) = ns1 @ ns2"
    using filter_neq_unique [of h fst ns1 ns2 "(h, x)"] ns by simp
  then show thesis using that m pl hx ns(1) by blast
qed

section \<open>The book invariant seen from one side\<close>

lemma ladder_set_ladder [simp]:
  "ladder s (set_ladder s m b) = m"
  "ladder (opposite s) (set_ladder s m b) = ladder (opposite s) b"
  "ladder s (set_ladder (opposite s) m b) = ladder s b"
  "order_locations (set_ladder s m b) = order_locations b"
  "ladder s (b\<lparr>order_locations := locs\<rparr>) = ladder s b"
  by (cases s; simp)+

lemma book_wf_side:
  "book_wf b \<longleftrightarrow>
     ladder_wf s (ladder s b) \<and> ladder_wf (opposite s) (ladder (opposite s) b) \<and>
     Map.graph (order_locations b) =
       node_location s ` set (ladder_nodes (ladder s b)) \<union>
       node_location (opposite s) ` set (ladder_nodes (ladder (opposite s) b)) \<and>
     distinct (map ord_id (ladder_orders (ladder s b) @ ladder_orders (ladder (opposite s) b)))"
  by (cases s) (auto simp: book_wf_def Un_commute)

lemma book_wf_ladder: "book_wf b \<Longrightarrow> ladder_wf s (ladder s b)"
  by (simp add: book_wf_side [of b s])

lemma book_exact_side:
  "book_exact b \<longleftrightarrow> (\<forall>e\<in>set (ladder s b). level_exact (snd e)) \<and>
     (\<forall>e\<in>set (ladder (opposite s) b). level_exact (snd e))"
  by (cases s) (auto simp: book_exact_def)

lemma book_wf_new [simp]: "book_wf new_book"
  by (auto simp: book_wf_def new_book_def ladder_wf_def Map.graph_def)

lemma dom_order_locations:
  assumes "book_wf b"
  shows "dom (order_locations b) = ord_id ` (set (resting Buy b) \<union> set (resting Sell b))"
proof -
  have "dom (order_locations b) = fst ` Map.graph (order_locations b)"
    by (force simp: Map.graph_def dom_def image_iff)
  also have "\<dots> = ord_id ` (set (resting Buy b) \<union> set (resting Sell b))"
    using assms by (simp add: book_wf_def image_Un image_image node_location_def resting_def
        ladder_orders_def)
  finally show ?thesis .
qed

lemma contains_iff:
  assumes "book_wf b"
  shows "contains b i \<longleftrightarrow> i \<in> ord_id ` (set (resting s b) \<union> set (resting (opposite s) b))"
  using dom_order_locations [OF assms] by (cases s) (auto simp: contains_def)

lemma resting_distinct:
  "book_wf b \<Longrightarrow> distinct (map ord_id (resting s b @ resting (opposite s) b))"
  by (simp add: book_wf_side [of b s] resting_def)

lemma order_count_eq:
  assumes "book_wf b"
  shows "order_count b = length (resting Buy b) + length (resting Sell b)"
proof -
  have "order_count b = card (set (map ord_id (resting Buy b @ resting Sell b)))"
    by (simp add: order_count_def dom_order_locations [OF assms] image_Un)
  then show ?thesis
    using distinct_card [OF resting_distinct [OF assms, of Buy]] by simp
qed

text \<open>Three ways in which an operation changes one ladder and the index, keeping the invariant.\<close>

lemma book_wf_insert_node:
  assumes wf: "book_wf b" and m: "ladder_nodes (ladder s b) = ns1 @ ns2"
    and m': "ladder_wf s m'" "ladder_nodes m' = ns1 @ (p, h, x) # ns2"
    and fresh: "\<not> contains b (ord_id x)"
  shows "book_wf (set_ladder s m' b\<lparr>order_locations := (order_locations b)
    (ord_id x \<mapsto> \<lparr>loc_side = s, loc_price = p, loc_it = Node h\<rparr>)\<rparr>)"
proof -
  have new: "ord_id x \<notin> ord_id ` (set (resting s b) \<union> set (resting (opposite s) b))"
    using fresh contains_iff [OF wf] by blast
  have same: "(order_locations b)(ord_id x := None) = order_locations b"
    using fresh by (simp add: contains_def fun_upd_idem)
  show ?thesis
    using wf m m' new
    by (auto simp: book_wf_side [of _ s] same node_location_def resting_def ladder_orders_def)
qed

lemma book_wf_remove_node:
  assumes wf: "book_wf b" and m: "ladder_nodes (ladder s b) = ns1 @ (p, h, x) # ns2"
    and m': "ladder_wf s m'" "ladder_nodes m' = ns1 @ ns2"
  shows "book_wf (set_ladder s m' b\<lparr>order_locations := (order_locations b)(ord_id x := None)\<rparr>)"
proof -
  have d: "distinct (map ord_id (resting s b @ resting (opposite s) b))"
    using wf by (rule resting_distinct)
  have "Map.graph ((order_locations b)(ord_id x := None)) =
      {g \<in> Map.graph (order_locations b). fst g \<noteq> ord_id x}"
    by (auto simp: Map.graph_def split: if_splits)
  also have "\<dots> = node_location s ` set (ns1 @ ns2) \<union>
      node_location (opposite s) ` set (ladder_nodes (ladder (opposite s) b))"
    using wf m d
    by (auto simp: book_wf_side [of b s] node_location_def resting_def ladder_orders_def image_iff)
  finally show ?thesis
    using wf m m' d by (auto simp: book_wf_side [of _ s] resting_def ladder_orders_def)
qed

lemma book_wf_replace_node:
  assumes wf: "book_wf b" and m: "ladder_nodes (ladder s b) = ns1 @ (p, h, x) # ns2"
    and m': "ladder_wf s m'" "ladder_nodes m' = ns1 @ (p, h, x') # ns2" "ord_id x' = ord_id x"
  shows "book_wf (set_ladder s m' b)"
  using assms by (auto simp: book_wf_side [of _ s] node_location_def ladder_orders_def)

section \<open>Adding an order\<close>

lemma side_lt_fun: "side_lt Buy = (\<lambda>p q. p > q)" "side_lt Sell = (\<lambda>p q. p < q)"
  by (simp_all add: fun_eq_iff)

lemma book_add_order_side:
  assumes "\<not> contains b (ord_id x)" "ord_type x = Limit" "ord_remaining x \<noteq> 0"
    and "map_try_emplace (side_lt (ord_side x)) (ord_price x) (new_level (ord_price x))
           (ladder (ord_side x) b) = levels"
    and "map_of levels (ord_price x) = Some lvl" "level_add_order x lvl = Inr (it, lvl')"
  shows "book_add_order x b =
    (Inr (), set_ladder (ord_side x) (map_set (ord_price x) lvl' levels) b
       \<lparr>order_locations := (order_locations b)
          (ord_id x \<mapsto> \<lparr>loc_side = ord_side x, loc_price = ord_price x, loc_it = it\<rparr>)\<rparr>)"
  using assms by (cases "ord_side x") (simp_all add: book_add_order_def side_lt_fun Let_def)

lemma try_emplace_focus:
  assumes "ladder_wf s m"
  obtains m1 l m2 where "map_try_emplace (side_lt s) p (new_level p) m = m1 @ (p, l) # m2"
    "\<forall>e\<in>set m1. side_lt s (fst e) p" "\<forall>e\<in>set m2. side_lt s p (fst e)"
    "ladder_nodes m = ladder_nodes m1 @ map (\<lambda>n. (p, n)) (lvl_nodes l) @ ladder_nodes m2"
    "ladder_wf s m1" "ladder_wf s m2" "level_wf l" "lvl_price l = p"
    "\<forall>n\<in>set (lvl_nodes l). ord_side (snd n) = s \<and> ord_type (snd n) = Limit"
proof (cases "map_of m p")
  case (Some l)
  obtain m1 m2 where m: "m = m1 @ (p, l) # m2" "p \<notin> fst ` set m1" "p \<notin> fst ` set m2"
    using assms Some by (rule ladder_split)
  have "map_try_emplace (side_lt s) p (new_level p) m = m"
    using assms Some by (auto simp: ladder_wf_def intro: side.try_emplace_present)
  then show thesis
    using assms m that [of m1 l m2] by (auto simp: ladder_wf_simps entry_wf_def)
next
  case None
  let ?m1 = "takeWhile (\<lambda>e. side_lt s (fst e) p) m"
  let ?m2 = "dropWhile (\<lambda>e. side_lt s (fst e) p) m"
  have sorted: "sorted_wrt (side_lt s) (map fst m)" using assms by (simp add: ladder_wf_def)
  have notin: "p \<notin> fst ` set m" using None by (simp add: map_of_eq_None_iff)
  have m: "m = ?m1 @ ?m2" by simp
  then have wf: "ladder_wf s ?m1" "ladder_wf s ?m2"
    using assms by (metis ladder_wf_simps(1))+
  have below: "\<forall>e\<in>set ?m1. side_lt s (fst e) p" by (auto dest: set_takeWhileD)
  have above: "side_lt s p (fst e)" if e: "e \<in> set ?m2" for e
  proof -
    obtain k l' rest where rest: "?m2 = (k, l') # rest" using e by (cases ?m2) auto
    then have "\<not> side_lt s k p" using hd_dropWhile [of "\<lambda>e. side_lt s (fst e) p" m] by force
    moreover have "k \<noteq> p" using rest notin m by (metis fst_conv image_eqI in_set_conv_decomp set_append Un_iff)
    ultimately have "side_lt s p k" using side.lt_total by blast
    moreover have "fst e = k \<or> side_lt s k (fst e)"
      using wf(2) e rest by (auto simp: ladder_wf_simps)
    ultimately show ?thesis using side.lt_trans by blast
  qed
  show thesis
    using that [of ?m1 "new_level p" ?m2] side.try_emplace_absent [OF sorted notin] below above wf m
    by (simp add: ladder_nodes_simps(3) [symmetric] del: ladder_nodes_simps(3))
qed

lemma takeWhile_dropWhile_split:
  assumes "\<forall>x\<in>set xs. P x" "\<forall>y\<in>set ys. \<not> P y"
  shows "takeWhile P (xs @ ys) = xs" "dropWhile P (xs @ ys) = ys"
proof -
  have "takeWhile P ys = []" "dropWhile P ys = ys"
    using assms(2) by (cases ys; simp)+
  then show "takeWhile P (xs @ ys) = xs" "dropWhile P (xs @ ys) = ys"
    using assms(1) by auto
qed

lemma book_add_order_ok:
  assumes wf: "book_wf b" and new: "\<not> contains b (ord_id x)"
    and x: "ord_type x = Limit" "ord_remaining x \<noteq> 0"
  obtains b' where "book_add_order x b = (Inr (), b')" "book_wf b'"
    "resting (ord_side x) b' = queue_insert (ord_side x) x (resting (ord_side x) b)"
    "resting (opposite (ord_side x)) b' = resting (opposite (ord_side x)) b"
proof -
  let ?s = "ord_side x" and ?p = "ord_price x"
  obtain m1 l m2 where m: "map_try_emplace (side_lt ?s) ?p (new_level ?p) (ladder ?s b) = m1 @ (?p, l) # m2"
    and lo: "\<forall>e\<in>set m1. side_lt ?s (fst e) ?p" and hi: "\<forall>e\<in>set m2. side_lt ?s ?p (fst e)"
    and nodes: "ladder_nodes (ladder ?s b) =
      ladder_nodes m1 @ map (\<lambda>n. (?p, n)) (lvl_nodes l) @ ladder_nodes m2"
    and wf12: "ladder_wf ?s m1" "ladder_wf ?s m2" and l: "level_wf l" "lvl_price l = ?p"
    and ls: "\<forall>n\<in>set (lvl_nodes l). ord_side (snd n) = ?s \<and> ord_type (snd n) = Limit"
    using book_wf_ladder [OF wf] by (rule try_emplace_focus)
  obtain l' where l': "level_add_order x l = Inr (Node (lvl_next l), l')" "level_wf l'"
    "lvl_nodes l' = lvl_nodes l @ [(lvl_next l, x)]" "lvl_price l' = lvl_price l"
    using l x by (metis level_add_order_ok)
  have notin: "?p \<notin> fst ` set m1" "?p \<notin> fst ` set m2"
    using lo hi side.lt_irrefl by (metis imageE)+
  let ?m' = "m1 @ (?p, l') # m2"
  let ?b' = "set_ladder ?s ?m' b\<lparr>order_locations := (order_locations b)
    (ord_id x \<mapsto> \<lparr>loc_side = ?s, loc_price = ?p, loc_it = Node (lvl_next l)\<rparr>)\<rparr>"
  have eq: "book_add_order x b = (Inr (), ?b')"
    using book_add_order_side [OF new x m _ l'(1)] notin
    by (simp add: map_set_split map_add_Some_iff map_of_eq_None_iff)
  have wf': "ladder_wf ?s ?m'"
    using wf12 lo hi l' l ls x by (auto simp: ladder_wf_simps entry_wf_def intro: side.lt_trans)
  have nodes': "ladder_nodes ?m' = (ladder_nodes m1 @ map (\<lambda>n. (?p, n)) (lvl_nodes l)) @
      (?p, lvl_next l, x) # ladder_nodes m2" using l' by simp
  have "book_wf ?b'"
    using book_wf_insert_node [OF wf _ wf' nodes' new] nodes by simp
  moreover have "resting ?s ?b' = queue_insert ?s x (resting ?s b)"
  proof -
    have a: "resting ?s b = (ladder_orders m1 @ level_orders l) @ ladder_orders m2"
      using nodes by (simp add: resting_def ladder_orders_def level_orders_def)
    have lo': "\<not> side_lt ?s ?p (ord_price y)" if "y \<in> set (ladder_orders m1 @ level_orders l)" for y
    proof -
      have "ord_price y \<in> fst ` set m1 \<or> ord_price y = ?p"
        using that ladder_order_price [OF wf12(1)] l by (auto simp: level_wf_def level_orders_def)
      then show ?thesis using lo side.lt_asym side.lt_irrefl by auto
    qed
    have hi': "side_lt ?s ?p (ord_price y)" if "y \<in> set (ladder_orders m2)" for y
      using ladder_order_price [OF wf12(2) that] hi by auto
    have "queue_insert ?s x (resting ?s b) = (ladder_orders m1 @ level_orders l) @ x # ladder_orders m2"
      unfolding queue_insert_def a
      using takeWhile_dropWhile_split [of "ladder_orders m1 @ level_orders l"
          "\<lambda>y. \<not> side_lt ?s ?p (ord_price y)" "ladder_orders m2"] lo' hi' by simp
    then show ?thesis using l' by (simp add: resting_def level_orders_def)
  qed
  moreover have "resting (opposite ?s) ?b' = resting (opposite ?s) b"
    by (simp add: resting_def)
  ultimately show thesis using that eq by blast
qed


section \<open>Looking up and extracting an order\<close>

lemma location_of_node:
  assumes "book_wf b" "(p, h, x) \<in> set (ladder_nodes (ladder s b))"
  shows "order_locations b (ord_id x) = Some \<lparr>loc_side = s, loc_price = p, loc_it = Node h\<rparr>"
proof -
  have "node_location s (p, h, x) \<in> Map.graph (order_locations b)"
    using assms by (auto simp: book_wf_side [of b s])
  then show ?thesis by (simp add: node_location_def Map.graph_def)
qed

lemma deref_node:
  assumes "book_wf b" "(p, h, x) \<in> set (ladder_nodes (ladder s b))"
  shows "deref_location b \<lparr>loc_side = s, loc_price = p, loc_it = Node h\<rparr> = Some x"
proof -
  obtain m1 l m2 ns1 ns2 where "map_of (ladder s b) p = Some l" "map_of (lvl_nodes l) h = Some x"
    using book_wf_ladder [OF assms(1)] assms(2) by (rule ladder_node_split)
  then show ?thesis by (cases s) (simp_all add: deref_location_def)
qed

lemma resting_node:
  assumes "x \<in> set (resting s b)"
  obtains p h where "(p, h, x) \<in> set (ladder_nodes (ladder s b))"
  using assms by (auto simp: resting_def ladder_orders_def)

lemma find_order_resting:
  assumes "book_wf b" "x \<in> set (resting s b)"
  shows "find_order b (ord_id x) = Some x"
proof -
  obtain p h where n: "(p, h, x) \<in> set (ladder_nodes (ladder s b))"
    using assms(2) by (rule resting_node)
  show ?thesis
    using location_of_node [OF assms(1) n] deref_node [OF assms(1) n] by (simp add: find_order_def)
qed

lemma find_order_iff:
  assumes "book_wf b"
  shows "find_order b i = Some x \<longleftrightarrow> ord_id x = i \<and> x \<in> set (resting Buy b) \<union> set (resting Sell b)"
proof
  assume found: "find_order b i = Some x"
  then have "i \<in> dom (order_locations b)" by (auto simp: find_order_def split: option.splits)
  then obtain y where y: "ord_id y = i" "y \<in> set (resting Buy b) \<union> set (resting Sell b)"
    using dom_order_locations [OF assms] by auto
  then have "find_order b i = Some y" using find_order_resting [OF assms] by blast
  then show "ord_id x = i \<and> x \<in> set (resting Buy b) \<union> set (resting Sell b)"
    using y found by simp
next
  assume "ord_id x = i \<and> x \<in> set (resting Buy b) \<union> set (resting Sell b)"
  then show "find_order b i = Some x" using find_order_resting [OF assms] by blast
qed

lemma find_order_None_iff:
  assumes "book_wf b"
  shows "find_order b i = None \<longleftrightarrow> \<not> contains b i"
proof -
  have "contains b i \<longleftrightarrow> (\<exists>x. find_order b i = Some x)"
    using contains_iff [OF assms, of i Buy] find_order_iff [OF assms, of i] by auto
  then show ?thesis by auto
qed

lemma queue_remove_absent: "i \<notin> ord_id ` set q \<Longrightarrow> queue_remove i q = q"
  unfolding queue_remove_def by (rule filter_True) auto

lemma queue_remove_mid:
  assumes "distinct (map ord_id (q1 @ x # q2))"
  shows "queue_remove (ord_id x) (q1 @ x # q2) = q1 @ q2"
  unfolding queue_remove_def using assms by (intro filter_neq_unique) auto

lemma extract_order_side:
  assumes "order_locations b i = Some \<lparr>loc_side = s, loc_price = p, loc_it = it\<rparr>"
    and "deref_location b \<lparr>loc_side = s, loc_price = p, loc_it = it\<rparr> = Some x"
    and "map_of (ladder s b) p = Some l"
  shows "extract_order i b =
    (case level_erase it l of
       Inl e \<Rightarrow> (Inl e, b)
     | Inr l' \<Rightarrow>
         (Inr (Some x),
          set_ladder s (if level_empty l' then map_erase p (ladder s b) else map_set p l' (ladder s b)) b
            \<lparr>order_locations := (order_locations b)(i := None)\<rparr>))"
  using assms by (cases s) (simp_all add: extract_order_def split: sum.splits)

text \<open>The quantity counter of the level at a price, as the resting orders determine it.\<close>

definition level_sum :: "Side \<Rightarrow> Price \<Rightarrow> OrderBook \<Rightarrow> Quantity" where
  "level_sum s p b = sum_list (map ord_remaining (filter (\<lambda>y. ord_price y = p) (resting s b)))"

lemma ladder_orders_at_price:
  assumes "ladder_wf s m" "(p, l) \<in> set m"
  shows "filter (\<lambda>y. ord_price y = p) (ladder_orders m) = level_orders l"
proof -
  have d: "distinct (map fst m)" using assms(1) side.sorted_distinct by (auto simp: ladder_wf_def)
  obtain m1 m2 where m: "m = m1 @ (p, l) # m2" "p \<notin> fst ` set m1" "p \<notin> fst ` set m2"
    using ladder_split [OF assms(1)] d assms(2) by (metis map_of_is_SomeI)
  have wf: "ladder_wf s m1" "ladder_wf s m2" "entry_wf s (p, l)"
    using assms(1) m by (auto simp: ladder_wf_simps)
  have none: "filter (\<lambda>y. ord_price y = p) (ladder_orders m') = []"
    if "ladder_wf s m'" "p \<notin> fst ` set m'" for m'
    using ladder_order_price [OF that(1)] that(2) by (auto simp: filter_empty_conv)
  have "filter (\<lambda>y. ord_price y = p) (level_orders l) = level_orders l"
    using entry_wf_order(1) [OF wf(3)] by (auto intro: filter_True)
  then show ?thesis using m none wf by simp
qed

lemma level_total_sum:
  assumes "book_wf b" "(p, l) \<in> set (ladder s b)"
  shows "lvl_total l = level_sum s p b"
  using ladder_orders_at_price [OF book_wf_ladder [OF assms(1)] assms(2)]
    book_wf_ladder [OF assms(1), of s] assms(2)
  by (auto simp: level_sum_def resting_def ladder_wf_def entry_wf_def level_wf_def)

lemma extract_order_ok:
  assumes wf: "book_wf b" and x: "x \<in> set (resting s b)"
    and fits: "ord_remaining x \<le> level_sum s (ord_price x) b"
  obtains b' where "extract_order (ord_id x) b = (Inr (Some x), b')" "book_wf b'"
    "resting s b' = queue_remove (ord_id x) (resting s b)"
    "resting (opposite s) b' = resting (opposite s) b" "\<not> contains b' (ord_id x)"
proof -
  obtain p h where n: "(p, h, x) \<in> set (ladder_nodes (ladder s b))" using x by (rule resting_node)
  obtain m1 l m2 ns1 ns2 where m: "ladder s b = m1 @ (p, l) # m2" "p \<notin> fst ` set m1" "p \<notin> fst ` set m2"
    and pl: "map_of (ladder s b) p = Some l" and hx: "map_of (lvl_nodes l) h = Some x"
    and ns: "lvl_nodes l = ns1 @ (h, x) # ns2" "filter (\<lambda>n. fst n \<noteq> h) (lvl_nodes l) = ns1 @ ns2"
    using book_wf_ladder [OF wf] n by (rule ladder_node_split)
  have ent: "entry_wf s (p, l)" and lw: "ladder_wf s (m1 @ (p, l) # m2)"
    using book_wf_ladder [OF wf, of s] m by (auto simp: ladder_wf_simps)
  have price: "ord_price x = p" using entry_wf_order(1) [OF ent] ns by (auto simp: level_orders_def)
  have "lvl_total l = level_sum s p b" using level_total_sum [OF wf, of p l s] m by simp
  then have "ord_remaining x \<le> lvl_total l" using fits price by simp
  then obtain l' where l': "level_erase (Node h) l = Inr l'" "level_wf l'"
    "lvl_nodes l' = ns1 @ ns2" "lvl_price l' = p"
    using level_erase_ok [of l h x] ent hx ns(2) by (metis entry_wf_def fst_conv snd_conv)
  let ?m' = "if level_empty l' then map_erase p (ladder s b) else map_set p l' (ladder s b)"
  let ?b' = "set_ladder s ?m' b\<lparr>order_locations := (order_locations b)(ord_id x := None)\<rparr>"
  have m': "?m' = (if level_empty l' then m1 @ m2 else m1 @ (p, l') # m2)"
    using m by (simp add: map_erase_split map_set_split)
  have eq: "extract_order (ord_id x) b = (Inr (Some x), ?b')"
    using extract_order_side [OF location_of_node [OF wf n] deref_node [OF wf n] pl] l'(1) by simp
  have wf': "ladder_wf s ?m'"
  proof (cases "level_empty l'")
    case True
    then show ?thesis using m' ladder_wf_drop [OF lw] by simp
  next
    case False
    then have "entry_wf s (p, l')"
      using ent l' ns by (auto simp: entry_wf_def level_empty_def)
    then show ?thesis using m' False ladder_wf_replace [OF lw] by simp
  qed
  let ?N1 = "ladder_nodes m1 @ map (\<lambda>n. (p, n)) ns1"
  let ?N2 = "map (\<lambda>n. (p, n)) ns2 @ ladder_nodes m2"
  have N: "ladder_nodes (ladder s b) = ?N1 @ (p, h, x) # ?N2" using m ns by simp
  have N': "ladder_nodes ?m' = ?N1 @ ?N2"
    using m' l'(3) by (auto simp: level_empty_def)
  have "book_wf ?b'" by (rule book_wf_remove_node [OF wf N wf' N'])
  moreover have "resting s ?b' = queue_remove (ord_id x) (resting s b)"
  proof -
    let ?f = "map (\<lambda>n. snd (snd n)) :: (Price \<times> nat \<times> Order) list \<Rightarrow> Order list"
    have r: "resting s b = ?f ?N1 @ x # ?f ?N2"
      using N by (simp only: resting_def ladder_orders_def map_append list.map snd_conv)
    have "distinct (map ord_id (resting s b))"
      using resting_distinct [OF wf, of s] by simp
    then have "queue_remove (ord_id x) (resting s b) = ?f ?N1 @ ?f ?N2"
      unfolding r by (rule queue_remove_mid)
    moreover have "resting s ?b' = ?f ?N1 @ ?f ?N2"
      using N' by (simp only: resting_def ladder_orders_def map_append ladder_set_ladder)
    ultimately show ?thesis by simp
  qed
  moreover have "resting (opposite s) ?b' = resting (opposite s) b" by (simp add: resting_def)
  moreover have "\<not> contains ?b' (ord_id x)" by (simp add: contains_def)
  ultimately show thesis using that eq by blast
qed

lemma extract_order_throws:
  assumes wf: "book_wf b" and x: "x \<in> set (resting s b)"
    and wrapped: "level_sum s (ord_price x) b < ord_remaining x"
  shows "extract_order (ord_id x) b =
    (Inl (Logic_Error ''Price level quantity is inconsistent''), b)"
proof -
  obtain p h where n: "(p, h, x) \<in> set (ladder_nodes (ladder s b))" using x by (rule resting_node)
  obtain m1 l m2 ns1 ns2 where m: "ladder s b = m1 @ (p, l) # m2"
    and pl: "map_of (ladder s b) p = Some l" and hx: "map_of (lvl_nodes l) h = Some x"
    and ns: "lvl_nodes l = ns1 @ (h, x) # ns2"
    using book_wf_ladder [OF wf] n by (rule ladder_node_split)
  have ent: "entry_wf s (p, l)"
    using book_wf_ladder [OF wf, of s] m by (auto simp: ladder_wf_simps)
  have price: "ord_price x = p" using entry_wf_order(1) [OF ent] ns by (auto simp: level_orders_def)
  have "lvl_total l = level_sum s p b" using level_total_sum [OF wf, of p l s] m by simp
  then show ?thesis
    using extract_order_side [OF location_of_node [OF wf n] deref_node [OF wf n] pl]
      level_erase_inconsistent [OF hx] wrapped price by simp
qed

lemma extract_order_absent: "\<not> contains b i \<Longrightarrow> extract_order i b = (Inr None, b)"
  by (simp add: extract_order_def contains_def)

section \<open>Exactness of the level counters\<close>

lemma all_Side: "(\<forall>s. Q s) \<longleftrightarrow> Q Buy \<and> Q Sell"
  by (metis Side.exhaust)

lemma book_exact_iff:
  assumes "book_wf b"
  shows "book_exact b \<longleftrightarrow>
    (\<forall>s p. open_quantity (filter (\<lambda>y. ord_price y = p) (resting s b)) < 2 ^ 32)"
proof -
  have "(\<forall>e\<in>set (ladder s b). level_exact (snd e)) \<longleftrightarrow>
    (\<forall>p. open_quantity (filter (\<lambda>y. ord_price y = p) (resting s b)) < 2 ^ 32)" for s
  proof (intro iffI allI ballI)
    fix p assume exact: "\<forall>e\<in>set (ladder s b). level_exact (snd e)"
    show "open_quantity (filter (\<lambda>y. ord_price y = p) (resting s b)) < 2 ^ 32"
    proof (cases "\<exists>l. (p, l) \<in> set (ladder s b)")
      case True
      then show ?thesis
        using exact ladder_orders_at_price [OF book_wf_ladder [OF assms]]
        by (auto simp: level_exact_def resting_def)
    next
      case False
      then have "filter (\<lambda>y. ord_price y = p) (resting s b) = []"
        using ladder_order_price [OF book_wf_ladder [OF assms], of _ s]
        by (fastforce simp: filter_empty_conv resting_def)
      then show ?thesis by (metis open_quantity_simps(1) zero_less_numeral zero_less_power)
    qed
  next
    fix e assume all: "\<forall>p. open_quantity (filter (\<lambda>y. ord_price y = p) (resting s b)) < 2 ^ 32"
      and "e \<in> set (ladder s b)"
    then show "level_exact (snd e)"
      using ladder_orders_at_price [OF book_wf_ladder [OF assms], of "fst e" "snd e" s]
      by (metis level_exact_def prod.collapse resting_def)
  qed
  from this [of Buy] this [of Sell] show ?thesis
    by (simp add: book_exact_side [of b Buy] all_Side)
qed

lemma exact_level_sum:
  assumes "book_wf b" "book_exact b" "x \<in> set (resting s b)"
  shows "ord_remaining x \<le> level_sum s (ord_price x) b"
proof -
  let ?q = "filter (\<lambda>y. ord_price y = ord_price x) (resting s b)"
  have "open_quantity ?q < 2 ^ 32" using assms book_exact_iff by blast
  then have "unat (level_sum s (ord_price x) b) = open_quantity ?q"
    using unat_sum_list_exact [of ord_remaining ?q] by (simp add: level_sum_def open_quantity_def)
  moreover have "unat (ord_remaining x) \<le> open_quantity ?q"
    using assms(3) by (intro member_le_open_quantity) simp
  ultimately show ?thesis by (simp add: word_le_nat_alt)
qed

section \<open>Best prices and executable quantity\<close>

lemma resting_sorted:
  assumes "book_wf b"
  shows "sorted_wrt (\<lambda>x y. \<not> side_lt s (ord_price y) (ord_price x)) (resting s b)"
proof -
  have "sorted_wrt (\<lambda>x y. \<not> side_lt s (ord_price y) (ord_price x)) (ladder_orders m)"
    if "ladder_wf s m" for m
    using that
  proof (induction m)
    case (Cons e m)
    obtain p l where e: "e = (p, l)" by (cases e)
    have ent: "entry_wf s (p, l)" and wf: "ladder_wf s m" and lt: "\<forall>e2\<in>set m. side_lt s p (fst e2)"
      using Cons.prems e by (auto simp: ladder_wf_simps)
    have "sorted_wrt (\<lambda>x y. \<not> side_lt s (ord_price y) (ord_price x)) (level_orders l)"
      using entry_wf_order(1) [OF ent] side.lt_irrefl by (auto simp: sorted_wrt_iff_nth_less)
    moreover have "\<not> side_lt s (ord_price y) (ord_price x)"
      if "x \<in> set (level_orders l)" "y \<in> set (ladder_orders m)" for x y
      using entry_wf_order(1) [OF ent that(1)] ladder_order_price [OF wf that(2)] lt side.lt_asym
      by auto
    ultimately show ?case using Cons.IH [OF wf] e by (simp add: sorted_wrt_append)
  qed simp
  then show ?thesis using book_wf_ladder [OF assms] by (simp add: resting_def)
qed

lemma resting_Nil_iff: "book_wf b \<Longrightarrow> resting s b = [] \<longleftrightarrow> ladder s b = []"
  using book_wf_ladder [of b s]
  by (cases "ladder s b") (auto simp: resting_def ladder_wf_simps entry_wf_def)

lemma best_bid_resting:
  assumes "book_wf b"
  shows "best_bid b = (case resting Buy b of [] \<Rightarrow> Inl (Out_Of_Range ''Order book has no bids'')
    | x # _ \<Rightarrow> Inr (ord_price x))"
proof (cases "bids b")
  case Nil
  then show ?thesis by (simp add: best_bid_def resting_def)
next
  case (Cons e m)
  obtain p l where e: "e = (p, l)" by (cases e)
  have ent: "entry_wf Buy (p, l)" using book_wf_ladder [OF assms, of Buy] Cons e
    by (simp add: ladder_wf_simps)
  then obtain x xs where "level_orders l = x # xs"
    by (cases "level_orders l") (auto simp: entry_wf_def)
  then show ?thesis
    using Cons e entry_wf_order(1) [OF ent, of x] by (simp add: best_bid_def resting_def)
qed

lemma best_ask_resting:
  assumes "book_wf b"
  shows "best_ask b = (case resting Sell b of [] \<Rightarrow> Inl (Out_Of_Range ''Order book has no asks'')
    | x # _ \<Rightarrow> Inr (ord_price x))"
proof (cases "asks b")
  case Nil
  then show ?thesis by (simp add: best_ask_def resting_def)
next
  case (Cons e m)
  obtain p l where e: "e = (p, l)" by (cases e)
  have ent: "entry_wf Sell (p, l)" using book_wf_ladder [OF assms, of Sell] Cons e
    by (simp add: ladder_wf_simps)
  then obtain x xs where "level_orders l = x # xs"
    by (cases "level_orders l") (auto simp: entry_wf_def)
  then show ?thesis
    using Cons e entry_wf_order(1) [OF ent, of x] by (simp add: best_ask_def resting_def)
qed

text \<open>Whether an incoming order may trade at a resting price.\<close>

definition acceptable :: "Order \<Rightarrow> Price \<Rightarrow> bool" where
  "acceptable inc p \<longleftrightarrow>
     ord_type inc = Market \<or> \<not> side_lt (opposite (ord_side inc)) (ord_price inc) p"

fun executable_side :: "Order \<Rightarrow> u64 \<Rightarrow> Ladder \<Rightarrow> u64" where
  "executable_side inc available [] = available"
| "executable_side inc available ((p, lvl) # m) =
     (if \<not> acceptable inc p then available
      else let available' = available + ucast (lvl_total lvl)
           in if available' \<ge> ucast (ord_remaining inc) then available'
              else executable_side inc available' m)"

lemma executable_asks_side: "ord_side inc = Buy \<Longrightarrow> executable_asks inc av m = executable_side inc av m"
  by (induction inc av m rule: executable_side.induct)
    (auto simp: acceptable_def Let_def not_less intro: OrderType.exhaust)

lemma executable_bids_side: "ord_side inc = Sell \<Longrightarrow> executable_bids inc av m = executable_side inc av m"
  by (induction inc av m rule: executable_side.induct)
    (auto simp: acceptable_def Let_def not_less intro: OrderType.exhaust)

lemma unat_add_u64_small:
  fixes a :: u64 and q :: u32
  assumes "unat a < 2 ^ 32"
  shows "unat (a + ucast q) = unat a + unat q"
  using assms unat_u32_less [of q] by (simp add: unat_word_ariths unat_ucast_u64)

lemma executable_side_correct:
  assumes "ladder_wf (opposite (ord_side inc)) m" "\<forall>e\<in>set m. level_exact (snd e)"
    and "unat av < unat (ord_remaining inc)"
  shows "unat (ord_remaining inc) \<le> unat (executable_side inc av m) \<longleftrightarrow>
    unat (ord_remaining inc) \<le>
      unat av + open_quantity (filter (\<lambda>y. acceptable inc (ord_price y)) (ladder_orders m))"
  using assms
proof (induction m arbitrary: av)
  case Nil
  then show ?case by simp
next
  case (Cons e m)
  obtain p l where e: "e = (p, l)" by (cases e)
  have ent: "entry_wf (opposite (ord_side inc)) (p, l)" and wf: "ladder_wf (opposite (ord_side inc)) m"
    and lt: "\<forall>e2\<in>set m. side_lt (opposite (ord_side inc)) p (fst e2)"
    using Cons.prems e by (auto simp: ladder_wf_simps)
  have small: "unat av < 2 ^ 32"
    using Cons.prems(3) unat_u32_less [of "ord_remaining inc"] by simp
  have level: "filter (\<lambda>y. acceptable inc (ord_price y)) (level_orders l) =
      (if acceptable inc p then level_orders l else [])"
    using entry_wf_order(1) [OF ent] by (auto simp: filter_empty_conv intro: filter_True)
  show ?case
  proof (cases "acceptable inc p")
    case False
    have "\<not> acceptable inc (ord_price y)" if "y \<in> set (ladder_orders m)" for y
    proof -
      have "side_lt (opposite (ord_side inc)) p (ord_price y)"
        using ladder_order_price [OF wf that] lt by auto
      then show ?thesis using False by (auto simp: acceptable_def intro: side.lt_trans)
    qed
    then have "filter (\<lambda>y. acceptable inc (ord_price y)) (ladder_orders m) = []"
      by (simp add: filter_empty_conv)
    then show ?thesis using False e level Cons.prems(3) by simp
  next
    case True
    let ?av = "av + ucast (lvl_total l)"
    have sum: "unat ?av = unat av + open_quantity (level_orders l)"
      using unat_add_u64_small [OF small] level_total_exact [of l] ent Cons.prems(2) e
      by (simp add: entry_wf_def)
    show ?thesis
    proof (cases "unat (ord_remaining inc) \<le> unat ?av")
      case reached: True
      then show ?thesis using True e level sum
        by (simp add: word_le_nat_alt unat_ucast_u64 Let_def)
    next
      case False
      then have "unat ?av < unat (ord_remaining inc)" by simp
      from Cons.IH [OF wf _ this] show ?thesis
        using Cons.prems(2) True False e level sum
        by (simp add: word_le_nat_alt unat_ucast_u64 Let_def add.assoc)
    qed
  qed
qed

text \<open>Level totals that have wrapped make the liquidity check too small, never too large.\<close>

lemma executable_side_bound:
  assumes "ladder_wf (opposite (ord_side inc)) m" "unat av < unat (ord_remaining inc)"
    and "unat (ord_remaining inc) \<le> unat (executable_side inc av m)"
  shows "unat (ord_remaining inc) \<le>
    unat av + open_quantity (filter (\<lambda>y. acceptable inc (ord_price y)) (ladder_orders m))"
  using assms
proof (induction m arbitrary: av)
  case (Cons e m)
  obtain p l where e: "e = (p, l)" by (cases e)
  have ent: "entry_wf (opposite (ord_side inc)) (p, l)" and wf: "ladder_wf (opposite (ord_side inc)) m"
    using Cons.prems(1) e by (auto simp: ladder_wf_simps)
  let ?av = "av + ucast (lvl_total l)"
  have p: "acceptable inc p" using Cons.prems(2,3) e by (auto split: if_splits)
  have small: "unat av < 2 ^ 32" using Cons.prems(2) unat_u32_less [of "ord_remaining inc"] by simp
  have level: "filter (\<lambda>y. acceptable inc (ord_price y)) (level_orders l) = level_orders l"
    using entry_wf_order(1) [OF ent] p by (auto intro: filter_True)
  have "unat ?av \<le> unat av + open_quantity (level_orders l)"
    using unat_add_u64_small [OF small] level_total_mod [of l] ent mod_less_eq_dividend [of "open_quantity (level_orders l)" "2 ^ 32"]
    by (simp add: entry_wf_def)
  then show ?case
    using Cons.IH [OF wf, of ?av] Cons.prems(3) e p level
    by (cases "unat (ord_remaining inc) \<le> unat ?av") (auto simp: word_le_nat_alt unat_ucast_u64 Let_def)
qed simp

lemma executable_quantity_bound:
  assumes "book_wf b" "ord_remaining inc \<noteq> 0" "\<not> executable_quantity b inc < ucast (ord_remaining inc)"
  shows "unat (ord_remaining inc) \<le>
    open_quantity (filter (\<lambda>y. acceptable inc (ord_price y)) (resting (opposite (ord_side inc)) b))"
proof -
  have "executable_quantity b inc = executable_side inc 0 (ladder (opposite (ord_side inc)) b)"
    by (cases "ord_side inc")
      (simp_all add: executable_quantity_def executable_asks_side executable_bids_side)
  then show ?thesis
    using executable_side_bound [where inc = inc and av = 0, OF book_wf_ladder [OF assms(1)]] assms(2,3)
    by (simp add: resting_def word_less_nat_alt unat_ucast_u64 unat_gt_0 not_less)
qed

lemma executable_quantity_correct:
  assumes "book_wf b" "book_exact b" "ord_remaining inc \<noteq> 0"
  shows "executable_quantity b inc < ucast (ord_remaining inc) \<longleftrightarrow>
    open_quantity (filter (\<lambda>y. acceptable inc (ord_price y)) (resting (opposite (ord_side inc)) b))
      < unat (ord_remaining inc)"
proof -
  have "executable_quantity b inc = executable_side inc 0 (ladder (opposite (ord_side inc)) b)"
    by (cases "ord_side inc")
      (simp_all add: executable_quantity_def executable_asks_side executable_bids_side)
  moreover have "unat (0 :: u64) < unat (ord_remaining inc)"
    using assms(3) by (simp add: unat_gt_0)
  moreover have "\<forall>e\<in>set (ladder (opposite (ord_side inc)) b). level_exact (snd e)"
    using assms(2) by (simp add: book_exact_side [of b "ord_side inc"])
  ultimately have "unat (ord_remaining inc) \<le> unat (executable_quantity b inc) \<longleftrightarrow>
    unat (ord_remaining inc) \<le> open_quantity
      (filter (\<lambda>y. acceptable inc (ord_price y)) (resting (opposite (ord_side inc)) b))"
    using executable_side_correct [OF book_wf_ladder [OF assms(1)], of inc 0]
    by (simp add: resting_def)
  then show ?thesis unfolding word_less_nat_alt unat_ucast_u64 by linarith
qed


end
