(* ===== verification/Trade_Buffer.thy ===== *)
theory Trade_Buffer
  imports Order_Types
begin

text \<open>
  \<^verbatim>\<open>class TradeBuffer\<close> of \<^verbatim>\<open>include/exchange/trade_buffer.hpp\<close>: a sequence of
  trades kept in a fixed inline array until it is full, then in a heap-allocated vector. The
  template argument \<^verbatim>\<open>InlineCapacity\<close> is the length of the inline array;
  \<^verbatim>\<open>DefaultTradeBuffer\<close> has eight slots. The capacity that the vector reserves is an
  allocation matter and is left out.

  The locale \<open>trade_log\<close> is what the matching engine relies on: a log that can be cleared and
  appended to.
\<close>

record TradeBuffer =
  tb_inline :: "Trade list"
  tb_inline_size :: nat
  tb_overflow :: "Trade list"
  tb_using_overflow :: bool

definition zero_trade :: Trade where
  "zero_trade = \<lparr>tr_buy_order_id = 0, tr_sell_order_id = 0, tr_price = 0, tr_quantity = 0,
     tr_timestamp = 0\<rparr>"

definition new_trade_buffer :: "nat \<Rightarrow> TradeBuffer" where
  "new_trade_buffer inline_capacity =
     \<lparr>tb_inline = replicate inline_capacity zero_trade, tb_inline_size = 0, tb_overflow = [],
      tb_using_overflow = False\<rparr>"

definition default_trade_buffer :: TradeBuffer where
  "default_trade_buffer = new_trade_buffer 8"

definition tb_inline_capacity :: "TradeBuffer \<Rightarrow> nat" where
  "tb_inline_capacity t = length (tb_inline t)"

definition tb_size :: "TradeBuffer \<Rightarrow> nat" where
  "tb_size t = (if tb_using_overflow t then length (tb_overflow t) else tb_inline_size t)"

definition tb_empty :: "TradeBuffer \<Rightarrow> bool" where
  "tb_empty t \<longleftrightarrow> tb_size t = 0"

definition tb_clear :: "TradeBuffer \<Rightarrow> TradeBuffer" where
  "tb_clear t =
     (let t' = t\<lparr>tb_inline_size := 0\<rparr>
      in if tb_using_overflow t' then t'\<lparr>tb_overflow := []\<rparr> else t')"

definition tb_move_inline_to_overflow :: "TradeBuffer \<Rightarrow> TradeBuffer" where
  "tb_move_inline_to_overflow t =
     (if tb_using_overflow t then t
      else t\<lparr>tb_overflow := tb_overflow t @ take (tb_inline_size t) (tb_inline t),
             tb_inline_size := 0, tb_using_overflow := True\<rparr>)"

definition tb_reserve :: "nat \<Rightarrow> TradeBuffer \<Rightarrow> TradeBuffer" where
  "tb_reserve capacity t =
     (if capacity \<le> tb_inline_capacity t then t else tb_move_inline_to_overflow t)"

definition tb_push_back :: "Trade \<Rightarrow> TradeBuffer \<Rightarrow> TradeBuffer" where
  "tb_push_back trade t =
     (if \<not> tb_using_overflow t \<and> tb_inline_size t < tb_inline_capacity t then
        t\<lparr>tb_inline := (tb_inline t)[tb_inline_size t := trade],
          tb_inline_size := Suc (tb_inline_size t)\<rparr>
      else
        let t' = (if \<not> tb_using_overflow t then tb_move_inline_to_overflow t else t)
        in t'\<lparr>tb_overflow := tb_overflow t' @ [trade]\<rparr>)"

text \<open>\<^verbatim>\<open>operator[]\<close> does not check its index; \<^verbatim>\<open>at\<close> does.\<close>

definition tb_index :: "TradeBuffer \<Rightarrow> nat \<Rightarrow> Trade" where
  "tb_index t i = (if tb_using_overflow t then tb_overflow t ! i else tb_inline t ! i)"

definition tb_at :: "TradeBuffer \<Rightarrow> nat \<Rightarrow> Trade outcome" where
  "tb_at t i =
     (if i \<ge> tb_size t then Inl (Out_Of_Range ''TradeBuffer index is out of range'')
      else Inr (tb_index t i))"

text \<open>\<^verbatim>\<open>to_vector\<close> iterates from \<^verbatim>\<open>begin()\<close> to \<^verbatim>\<open>end()\<close>.\<close>

definition tb_to_vector :: "TradeBuffer \<Rightarrow> Trade list" where
  "tb_to_vector t = map (tb_index t) [0..<tb_size t]"

section \<open>The log contract\<close>

locale trade_log =
  fixes clear :: "'b \<Rightarrow> 'b" and push :: "Trade \<Rightarrow> 'b \<Rightarrow> 'b"
    and contents :: "'b \<Rightarrow> Trade list" and inv :: "'b \<Rightarrow> bool"
  assumes inv_clear: "inv t \<Longrightarrow> inv (clear t)"
    and inv_push: "inv t \<Longrightarrow> inv (push x t)"
    and contents_clear: "inv t \<Longrightarrow> contents (clear t) = []"
    and contents_push: "inv t \<Longrightarrow> contents (push x t) = contents t @ [x]"
begin

lemma push_all:
  assumes "inv t"
  shows "inv (fold push xs t) \<and> contents (fold push xs t) = contents t @ xs"
  using assms by (induction xs arbitrary: t) (auto simp: inv_push contents_push)

lemma clear_push_all:
  assumes "inv t"
  shows "contents (fold push xs (clear t)) = xs"
  using push_all [OF inv_clear [OF assms]] by (simp add: contents_clear [OF assms])

end

section \<open>The buffer implements the contract\<close>

definition tb_wf :: "TradeBuffer \<Rightarrow> bool" where
  "tb_wf t \<longleftrightarrow>
     tb_inline_size t \<le> length (tb_inline t) \<and>
     (tb_using_overflow t \<longrightarrow> tb_inline_size t = 0) \<and>
     (\<not> tb_using_overflow t \<longrightarrow> tb_overflow t = [])"

lemma tb_to_vector_eq:
  assumes "tb_wf t"
  shows "tb_to_vector t =
    (if tb_using_overflow t then tb_overflow t else take (tb_inline_size t) (tb_inline t))"
  using assms
  by (auto simp: tb_to_vector_def tb_size_def tb_index_def tb_wf_def map_nth intro!: nth_equalityI)

lemma tb_wf_new [simp]: "tb_wf (new_trade_buffer n)"
  by (simp add: tb_wf_def new_trade_buffer_def)

lemma tb_to_vector_new [simp]: "tb_to_vector (new_trade_buffer n) = []"
  by (simp add: tb_to_vector_def tb_size_def new_trade_buffer_def)

lemma tb_wf_push_back: "tb_wf t \<Longrightarrow> tb_wf (tb_push_back x t)"
  by (auto simp: tb_wf_def tb_push_back_def tb_move_inline_to_overflow_def Let_def
      tb_inline_capacity_def)

lemma tb_wf_clear: "tb_wf t \<Longrightarrow> tb_wf (tb_clear t)"
  by (auto simp: tb_wf_def tb_clear_def Let_def)

lemma tb_to_vector_push_back:
  assumes "tb_wf t"
  shows "tb_to_vector (tb_push_back x t) = tb_to_vector t @ [x]"
  unfolding tb_to_vector_eq [OF assms] tb_to_vector_eq [OF tb_wf_push_back [OF assms]]
  using assms
  by (auto simp: tb_push_back_def tb_move_inline_to_overflow_def Let_def tb_inline_capacity_def
      tb_wf_def take_Suc_conv_app_nth)

lemma tb_to_vector_clear:
  assumes "tb_wf t"
  shows "tb_to_vector (tb_clear t) = []"
  using assms by (auto simp: tb_to_vector_def tb_clear_def Let_def tb_size_def tb_wf_def)

interpretation buf: trade_log tb_clear tb_push_back tb_to_vector tb_wf
  by unfold_locales
    (simp_all add: tb_wf_clear tb_wf_push_back tb_to_vector_clear tb_to_vector_push_back)

lemma tb_size_to_vector: "tb_size t = length (tb_to_vector t)"
  by (simp add: tb_to_vector_def)

lemma tb_at_to_vector: "i < tb_size t \<Longrightarrow> tb_at t i = Inr (tb_to_vector t ! i)"
  by (simp add: tb_at_def tb_to_vector_def)

lemma tb_wf_reserve: "tb_wf t \<Longrightarrow> tb_wf (tb_reserve n t)"
  by (auto simp: tb_wf_def tb_reserve_def tb_move_inline_to_overflow_def)

lemma tb_to_vector_reserve:
  assumes "tb_wf t"
  shows "tb_to_vector (tb_reserve n t) = tb_to_vector t"
  unfolding tb_to_vector_eq [OF assms] tb_to_vector_eq [OF tb_wf_reserve [OF assms]]
  using assms by (auto simp: tb_reserve_def tb_move_inline_to_overflow_def tb_wf_def)

end
