(* ===== verification/Matching_Engine.thy ===== *)
theory Matching_Engine
  imports Order_Book Trade_Buffer
begin

text \<open>
  \<^verbatim>\<open>class MatchingEngine\<close> of \<^verbatim>\<open>include/exchange/matching_engine.hpp\<close>. Each
  operation takes the book and the trade buffer and returns the exception or value with both, so
  that what a throwing call has already done is visible. The two \<^verbatim>\<open>while\<close> loops are
  recursive functions; they terminate on every input because a fill of quantity zero throws and
  any other fill lowers the incoming order's remaining quantity.
\<close>

definition validate_incoming :: "Order \<Rightarrow> unit outcome" where
  "validate_incoming inc =
     (if ord_remaining inc = 0 then
        Inl (Invalid_Argument ''Incoming order quantity must be positive'')
      else Inr ())"

definition buy_can_match :: "Order \<Rightarrow> OrderBook \<Rightarrow> bool outcome" where
  "buy_can_match inc b =
     (if \<not> has_asks b then Inr False
      else if ord_type inc = Market then Inr True
      else (case best_ask b of Inl e \<Rightarrow> Inl e | Inr p \<Rightarrow> Inr (ord_price inc \<ge> p)))"

definition sell_can_match :: "Order \<Rightarrow> OrderBook \<Rightarrow> bool outcome" where
  "sell_can_match inc b =
     (if \<not> has_bids b then Inr False
      else if ord_type inc = Market then Inr True
      else (case best_bid b of Inl e \<Rightarrow> Inl e | Inr p \<Rightarrow> Inr (ord_price inc \<le> p)))"

definition may_rest :: "Order \<Rightarrow> bool" where
  "may_rest inc \<longleftrightarrow> ord_type inc = Limit \<and> ord_tif inc = GoodTillCancel"

lemma level_fill_front_pos: "level_fill_front q l = Inr l' \<Longrightarrow> q \<noteq> 0"
  by (auto simp: level_fill_front_def split: list.splits if_splits)

lemma remaining_decreases:
  assumes "0 < r" "min r q \<noteq> 0"
  shows "unat (r - min r q :: Quantity) < unat r"
proof -
  have "unat (r - min r q) = unat r - unat (min r q)" by (simp add: unat_word_diff)
  moreover have "0 < unat (min r q)" using assms(2) by (simp add: unat_gt_0)
  moreover have "0 < unat r" using assms(1) by (simp add: word_less_nat_alt)
  ultimately show ?thesis by linarith
qed

function match_buy_loop ::
  "OrderBook \<Rightarrow> Order \<Rightarrow> TradeBuffer \<Rightarrow> unit outcome \<times> OrderBook \<times> Order \<times> TradeBuffer" where
  "match_buy_loop b inc trades =
     (if ord_remaining inc > 0 then
        (case buy_can_match inc b of
           Inl e \<Rightarrow> (Inl e, b, inc, trades)
         | Inr can \<Rightarrow>
             if \<not> can then (Inr (), b, inc, trades)
             else
               (case best_ask_level b of
                  Inl e \<Rightarrow> (Inl e, b, inc, trades)
                | Inr ask_level \<Rightarrow>
                    (case level_front ask_level of
                       Inl e \<Rightarrow> (Inl e, b, inc, trades)
                     | Inr resting_sell \<Rightarrow>
                         let resting_order_id = ord_id resting_sell;
                             resting_quantity = ord_remaining resting_sell;
                             trade_quantity = min (ord_remaining inc) resting_quantity;
                             trades' = tb_push_back
                               \<lparr>tr_buy_order_id = ord_id inc, tr_sell_order_id = resting_order_id,
                                tr_price = lvl_price ask_level, tr_quantity = trade_quantity,
                                tr_timestamp = ord_timestamp inc\<rparr> trades;
                             inc' = inc\<lparr>ord_remaining := ord_remaining inc - trade_quantity\<rparr>
                         in (case level_fill_front trade_quantity ask_level of
                               Inl e \<Rightarrow> (Inl e, b, inc', trades')
                             | Inr ask_level' \<Rightarrow>
                                 let b1 = set_best_ask_level ask_level' b;
                                     b2 = (if trade_quantity = resting_quantity
                                           then remove_from_index resting_order_id b1 else b1);
                                     b3 = remove_best_ask_if_empty b2
                                 in match_buy_loop b3 inc' trades'))))
      else (Inr (), b, inc, trades))"
  by pat_completeness auto
termination
  by (relation "measure (\<lambda>(b, inc, trades). unat (ord_remaining inc))")
    (auto dest!: level_fill_front_pos intro!: remaining_decreases)

function match_sell_loop ::
  "OrderBook \<Rightarrow> Order \<Rightarrow> TradeBuffer \<Rightarrow> unit outcome \<times> OrderBook \<times> Order \<times> TradeBuffer" where
  "match_sell_loop b inc trades =
     (if ord_remaining inc > 0 then
        (case sell_can_match inc b of
           Inl e \<Rightarrow> (Inl e, b, inc, trades)
         | Inr can \<Rightarrow>
             if \<not> can then (Inr (), b, inc, trades)
             else
               (case best_bid_level b of
                  Inl e \<Rightarrow> (Inl e, b, inc, trades)
                | Inr bid_level \<Rightarrow>
                    (case level_front bid_level of
                       Inl e \<Rightarrow> (Inl e, b, inc, trades)
                     | Inr resting_buy \<Rightarrow>
                         let resting_order_id = ord_id resting_buy;
                             resting_quantity = ord_remaining resting_buy;
                             trade_quantity = min (ord_remaining inc) resting_quantity;
                             trades' = tb_push_back
                               \<lparr>tr_buy_order_id = resting_order_id, tr_sell_order_id = ord_id inc,
                                tr_price = lvl_price bid_level, tr_quantity = trade_quantity,
                                tr_timestamp = ord_timestamp inc\<rparr> trades;
                             inc' = inc\<lparr>ord_remaining := ord_remaining inc - trade_quantity\<rparr>
                         in (case level_fill_front trade_quantity bid_level of
                               Inl e \<Rightarrow> (Inl e, b, inc', trades')
                             | Inr bid_level' \<Rightarrow>
                                 let b1 = set_best_bid_level bid_level' b;
                                     b2 = (if trade_quantity = resting_quantity
                                           then remove_from_index resting_order_id b1 else b1);
                                     b3 = remove_best_bid_if_empty b2
                                 in match_sell_loop b3 inc' trades'))))
      else (Inr (), b, inc, trades))"
  by pat_completeness auto
termination
  by (relation "measure (\<lambda>(b, inc, trades). unat (ord_remaining inc))")
    (auto dest!: level_fill_front_pos intro!: remaining_decreases)

declare match_buy_loop.simps [simp del] match_sell_loop.simps [simp del]

definition match_buy ::
  "OrderBook \<Rightarrow> Order \<Rightarrow> TradeBuffer \<Rightarrow> unit outcome \<times> OrderBook \<times> TradeBuffer" where
  "match_buy b inc trades =
     (case match_buy_loop b inc trades of
        (Inl e, b', inc', trades') \<Rightarrow> (Inl e, b', trades')
      | (Inr _, b', inc', trades') \<Rightarrow>
          if ord_remaining inc' > 0 \<and> may_rest inc' then
            (case book_add_order inc' b' of (r, b'') \<Rightarrow> (r, b'', trades'))
          else (Inr (), b', trades'))"

definition match_sell ::
  "OrderBook \<Rightarrow> Order \<Rightarrow> TradeBuffer \<Rightarrow> unit outcome \<times> OrderBook \<times> TradeBuffer" where
  "match_sell b inc trades =
     (case match_sell_loop b inc trades of
        (Inl e, b', inc', trades') \<Rightarrow> (Inl e, b', trades')
      | (Inr _, b', inc', trades') \<Rightarrow>
          if ord_remaining inc' > 0 \<and> may_rest inc' then
            (case book_add_order inc' b' of (r, b'') \<Rightarrow> (r, b'', trades'))
          else (Inr (), b', trades'))"

definition process_order_into ::
  "OrderBook \<Rightarrow> Order \<Rightarrow> TradeBuffer \<Rightarrow> unit outcome \<times> OrderBook \<times> TradeBuffer" where
  "process_order_into b incoming trades =
     (let inc = (if ord_type incoming = Market \<and> ord_tif incoming = GoodTillCancel
                 then incoming\<lparr>ord_tif := ImmediateOrCancel\<rparr> else incoming)
      in (case validate_incoming inc of
            Inl e \<Rightarrow> (Inl e, b, trades)
          | Inr _ \<Rightarrow>
              let trades' = tb_clear trades
              in if ord_tif inc = FillOrKill \<and>
                    executable_quantity b inc < ucast (ord_remaining inc) then
                   (Inr (), b, trades')
                 else if ord_side inc = Buy then match_buy b inc trades'
                 else match_sell b inc trades'))"

definition process_order :: "OrderBook \<Rightarrow> Order \<Rightarrow> Trade list outcome \<times> OrderBook" where
  "process_order b incoming =
     (case process_order_into b incoming default_trade_buffer of
        (Inl e, b', trades) \<Rightarrow> (Inl e, b')
      | (Inr _, b', trades) \<Rightarrow> (Inr (tb_to_vector trades), b'))"

definition engine_cancel_order :: "OrderBook \<Rightarrow> OrderId \<Rightarrow> bool outcome \<times> OrderBook" where
  "engine_cancel_order b i = book_cancel_order i b"

definition replace_order_into ::
  "OrderBook \<Rightarrow> OrderId \<Rightarrow> Price \<Rightarrow> Quantity \<Rightarrow> Timestamp \<Rightarrow> TradeBuffer \<Rightarrow>
    bool outcome \<times> OrderBook \<times> TradeBuffer" where
  "replace_order_into b i new_price new_quantity new_timestamp trades =
     (if new_quantity = 0 then
        (Inl (Invalid_Argument ''Replacement quantity must be positive''), b, trades)
      else
        let trades' = tb_clear trades
        in (case extract_order i b of
              (Inl e, b') \<Rightarrow> (Inl e, b', trades')
            | (Inr None, b') \<Rightarrow> (Inr False, b', trades')
            | (Inr (Some existing), b') \<Rightarrow>
                let replacement = existing\<lparr>ord_price := new_price, ord_initial := new_quantity,
                      ord_remaining := new_quantity, ord_timestamp := new_timestamp\<rparr>
                in (case process_order_into b' replacement trades' of
                      (Inl e, b'', trades'') \<Rightarrow> (Inl e, b'', trades'')
                    | (Inr _, b'', trades'') \<Rightarrow> (Inr True, b'', trades''))))"

record ReplaceResult =
  replaced :: bool
  replace_trades :: "Trade list"

definition replace_order ::
  "OrderBook \<Rightarrow> OrderId \<Rightarrow> Price \<Rightarrow> Quantity \<Rightarrow> Timestamp \<Rightarrow> ReplaceResult outcome \<times> OrderBook" where
  "replace_order b i new_price new_quantity new_timestamp =
     (case replace_order_into b i new_price new_quantity new_timestamp default_trade_buffer of
        (Inl e, b', trades) \<Rightarrow> (Inl e, b')
      | (Inr r, b', trades) \<Rightarrow>
          (Inr \<lparr>replaced = r, replace_trades = tb_to_vector trades\<rparr>, b'))"

section \<open>Price-time priority as a function on queues\<close>

text \<open>
  What matching has to do, stated on the queue of opposite orders: from the front, fill each
  order completely, or the last one partly, while the incoming order has quantity left and the
  price is acceptable. The result is the list of fills, the quantity left and the new queue.
\<close>

fun queue_sweep :: "Order \<Rightarrow> Order list \<Rightarrow> (Order \<times> Quantity) list \<times> Quantity \<times> Order list" where
  "queue_sweep inc [] = ([], ord_remaining inc, [])"
| "queue_sweep inc (x # q) =
     (if ord_remaining inc = 0 \<or> \<not> acceptable inc (ord_price x) then
        ([], ord_remaining inc, x # q)
      else if ord_remaining inc < ord_remaining x then
        ([(x, ord_remaining inc)], 0, x\<lparr>ord_remaining := ord_remaining x - ord_remaining inc\<rparr> # q)
      else
        (case queue_sweep (inc\<lparr>ord_remaining := ord_remaining inc - ord_remaining x\<rparr>) q of
           (fills, r, q') \<Rightarrow> ((x, ord_remaining x) # fills, r, q')))"

definition fill_trade :: "Order \<Rightarrow> Order \<times> Quantity \<Rightarrow> Trade" where
  "fill_trade inc f =
     \<lparr>tr_buy_order_id = (if ord_side inc = Buy then ord_id inc else ord_id (fst f)),
      tr_sell_order_id = (if ord_side inc = Buy then ord_id (fst f) else ord_id inc),
      tr_price = ord_price (fst f), tr_quantity = snd f, tr_timestamp = ord_timestamp inc\<rparr>"

section \<open>The matching loop\<close>

text \<open>
  The contract of the two loops, \<open>match_buy_loop\<close> on the asks and \<open>match_sell_loop\<close> on the
  bids: when a loop stops and what one iteration does.
\<close>

locale matching_loop =
  fixes s :: Side
    and loop :: "OrderBook \<Rightarrow> Order \<Rightarrow> TradeBuffer \<Rightarrow> unit outcome \<times> OrderBook \<times> Order \<times> TradeBuffer"
  assumes loop_done: "ord_remaining inc = 0 \<Longrightarrow> loop b inc t = (Inr (), b, inc, t)"
    and loop_no_liquidity: "ladder (opposite s) b = [] \<Longrightarrow> loop b inc t = (Inr (), b, inc, t)"
    and loop_price: "ord_side inc = s \<Longrightarrow> ladder (opposite s) b = (p, l) # m \<Longrightarrow>
      \<not> acceptable inc p \<Longrightarrow> loop b inc t = (Inr (), b, inc, t)"
    and loop_step: "ord_side inc = s \<Longrightarrow> ord_remaining inc \<noteq> 0 \<Longrightarrow>
      ladder (opposite s) b = (p, l) # m \<Longrightarrow> acceptable inc p \<Longrightarrow>
      lvl_nodes l = (h, x) # ns \<Longrightarrow> lvl_price l = ord_price x \<Longrightarrow>
      level_fill_front (min (ord_remaining inc) (ord_remaining x)) l = Inr l' \<Longrightarrow>
      loop b inc t = loop
        (set_ladder (opposite s) (if level_empty l' then m else (p, l') # m) b
          \<lparr>order_locations :=
             if min (ord_remaining inc) (ord_remaining x) = ord_remaining x
             then (order_locations b)(ord_id x := None) else order_locations b\<rparr>)
        (inc\<lparr>ord_remaining := ord_remaining inc - min (ord_remaining inc) (ord_remaining x)\<rparr>)
        (tb_push_back (fill_trade inc (x, min (ord_remaining inc) (ord_remaining x))) t)"
begin

text \<open>One iteration, seen on the queue of the opposite side.\<close>

lemma step_on_queue:
  assumes wf: "book_wf b" and inc: "ord_side inc = s" "ord_remaining inc \<noteq> 0"
    and q: "resting (opposite s) b = x # q" and acc: "acceptable inc (ord_price x)"
  defines "n \<equiv> min (ord_remaining inc) (ord_remaining x)"
  obtains b' where "book_wf b'" "resting s b' = resting s b"
    "resting (opposite s) b' =
       (if n = ord_remaining x then q else x\<lparr>ord_remaining := ord_remaining x - n\<rparr> # q)"
    "\<And>t. loop b inc t =
       loop b' (inc\<lparr>ord_remaining := ord_remaining inc - n\<rparr>) (tb_push_back (fill_trade inc (x, n)) t)"
proof -
  obtain p l m where lad: "ladder (opposite s) b = (p, l) # m"
    using q resting_Nil_iff [OF wf, of "opposite s"] by (cases "ladder (opposite s) b") auto
  have ent: "entry_wf (opposite s) (p, l)" and wfm: "ladder_wf (opposite s) m"
    and lt: "\<forall>e2\<in>set m. side_lt (opposite s) p (fst e2)"
    using book_wf_ladder [OF wf, of "opposite s"] lad by (auto simp: ladder_wf_simps)
  obtain h ns where ns: "lvl_nodes l = (h, x) # ns" and qs: "q = map snd ns @ ladder_orders m"
    using q lad ent by (cases "lvl_nodes l") (auto simp: resting_def level_orders_def entry_wf_def)
  have price: "ord_price x = p" "lvl_price l = p" and pos: "ord_remaining x \<noteq> 0"
    using ent ns by (auto simp: entry_wf_def level_wf_def)
  have n: "0 < n" "n \<le> ord_remaining x"
    using inc(2) pos by (auto simp: n_def word_gt_0 min_def)
  obtain l' where l': "level_fill_front n l = Inr l'" "level_wf l'" "lvl_price l' = p"
    and ns': "lvl_nodes l' = (if n = ord_remaining x then ns
      else (h, x\<lparr>ord_remaining := ord_remaining x - n\<rparr>) # ns)"
    using level_fill_front_ok [of l h x ns n] ent ns n price by (auto simp: entry_wf_def)
  define m' where "m' = (if level_empty l' then m else (p, l') # m)"
  define b' where "b' = set_ladder (opposite s) m' b\<lparr>order_locations :=
    if n = ord_remaining x then (order_locations b)(ord_id x := None) else order_locations b\<rparr>"
  have wfm': "ladder_wf (opposite s) m'"
    using wfm lt ent l' ns ns' by (auto simp: m'_def ladder_wf_simps entry_wf_def level_empty_def)
  have N: "ladder_nodes (ladder (opposite s) b) = [] @ (p, h, x) # map (Pair p) ns @ ladder_nodes m"
    using lad ns by simp
  have N': "ladder_nodes m' = map (Pair p) (lvl_nodes l') @ ladder_nodes m"
    by (auto simp: m'_def level_empty_def)
  have "book_wf b'"
  proof (cases "n = ord_remaining x")
    case True
    then show ?thesis
      using book_wf_remove_node [OF wf N wfm'] N' ns' by (simp add: b'_def)
  next
    case False
    then show ?thesis
      using book_wf_replace_node [OF wf N wfm', of "x\<lparr>ord_remaining := ord_remaining x - n\<rparr>"] N' ns'
      by (cases s) (simp_all add: b'_def)
  qed
  moreover have "resting s b' = resting s b"
    by (cases s) (simp_all add: resting_def b'_def)
  moreover have "resting (opposite s) b' =
      (if n = ord_remaining x then q else x\<lparr>ord_remaining := ord_remaining x - n\<rparr> # q)"
    using N' ns' qs by (simp add: resting_def b'_def ladder_orders_def)
  moreover have "loop b inc t = loop b' (inc\<lparr>ord_remaining := ord_remaining inc - n\<rparr>)
      (tb_push_back (fill_trade inc (x, n)) t)" for t
    using loop_step [OF inc lad _ ns _ , of l' t] acc price l'(1)
    by (simp add: n_def b'_def m'_def)
  ultimately show thesis using that by blast
qed

lemma stop_on_queue:
  assumes wf: "book_wf b" and inc: "ord_side inc = s"
    and stop: "ord_remaining inc = 0 \<or> (case resting (opposite s) b of [] \<Rightarrow> True
      | x # _ \<Rightarrow> \<not> acceptable inc (ord_price x))"
  shows "loop b inc t = (Inr (), b, inc, t)"
proof (cases "ladder (opposite s) b")
  case Nil
  then show ?thesis by (rule loop_no_liquidity)
next
  case (Cons e m)
  obtain p l where e: "e = (p, l)" by (cases e)
  have ent: "entry_wf (opposite s) (p, l)"
    using book_wf_ladder [OF wf, of "opposite s"] Cons e by (simp add: ladder_wf_simps)
  then obtain x xs where x: "level_orders l = x # xs"
    by (cases "level_orders l") (auto simp: entry_wf_def)
  then have "ord_price x = p" using entry_wf_order(1) [OF ent] by simp
  moreover have "\<exists>q. resting (opposite s) b = x # q" using Cons e x by (simp add: resting_def)
  ultimately show ?thesis
    using stop loop_done loop_price [OF inc] Cons e by auto
qed

text \<open>The whole loop is a sweep of the opposite queue.\<close>

lemma loop_sweeps:
  assumes "book_wf b" "ord_side inc = s" "tb_wf t"
    and "queue_sweep inc (resting (opposite s) b) = (fills, r, q')"
  shows "\<exists>b' t'. loop b inc t = (Inr (), b', inc\<lparr>ord_remaining := r\<rparr>, t') \<and> book_wf b' \<and> tb_wf t' \<and>
    resting s b' = resting s b \<and> resting (opposite s) b' = q' \<and>
    tb_to_vector t' = tb_to_vector t @ map (fill_trade inc) fills"
  using assms
proof (induction "length (resting (opposite s) b)" arbitrary: b inc t fills)
  case 0
  then show ?case using stop_on_queue [of b inc t] by auto
next
  case (Suc k)
  then obtain x q where q: "resting (opposite s) b = x # q" by (metis Suc_length_conv)
  show ?case
  proof (cases "ord_remaining inc = 0 \<or> \<not> acceptable inc (ord_price x)")
    case True
    then have "loop b inc t = (Inr (), b, inc, t)"
      using stop_on_queue [OF Suc.prems(1,2)] q by auto
    then show ?thesis using Suc.prems True q by auto
  next
    case False
    let ?n = "min (ord_remaining inc) (ord_remaining x)"
    let ?inc = "inc\<lparr>ord_remaining := ord_remaining inc - ?n\<rparr>"
    let ?t = "tb_push_back (fill_trade inc (x, ?n)) t"
    obtain b' where b': "book_wf b'" "resting s b' = resting s b"
      "resting (opposite s) b' = (if ?n = ord_remaining x then q
         else x\<lparr>ord_remaining := ord_remaining x - ?n\<rparr> # q)"
      "loop b inc t = loop b' ?inc ?t"
      using step_on_queue [OF Suc.prems(1,2)] q False by metis
    have t: "tb_wf ?t" "tb_to_vector ?t = tb_to_vector t @ [fill_trade inc (x, ?n)]"
      using Suc.prems(3) by (simp_all add: buf.inv_push buf.contents_push)
    have ft: "fill_trade (inc\<lparr>ord_remaining := v\<rparr>) = fill_trade inc" for v
      by (simp add: fun_eq_iff fill_trade_def)
    show ?thesis
    proof (cases "ord_remaining inc < ord_remaining x")
      case True
      then have n: "?n = ord_remaining inc" by (simp add: min_absorb1)
      then have "loop b' ?inc ?t = (Inr (), b', ?inc, ?t)"
        using stop_on_queue [of b' ?inc] b'(1) Suc.prems(2) by simp
      then show ?thesis using b' t n True False Suc.prems(4) q by auto
    next
      case no: False
      then have n: "?n = ord_remaining x" by (simp add: min_def)
      obtain fills' where rec: "queue_sweep ?inc q = (fills', r, q')"
        and fills: "fills = (x, ord_remaining x) # fills'"
        using Suc.prems(4) q False no n by (auto split: prod.splits)
      have "queue_sweep ?inc (resting (opposite s) b') = (fills', r, q')" using b'(3) n rec by simp
      moreover have "k = length (resting (opposite s) b')" using Suc.hyps(2) q b'(3) n by simp
      ultimately obtain b'' t'' where "loop b' ?inc ?t = (Inr (), b'', ?inc\<lparr>ord_remaining := r\<rparr>, t'')"
        "book_wf b''" "tb_wf t''" "resting s b'' = resting s b'" "resting (opposite s) b'' = q'"
        "tb_to_vector t'' = tb_to_vector ?t @ map (fill_trade ?inc) fills'"
        using Suc.hyps(1) [of b' ?inc ?t fills'] b'(1) t(1) Suc.prems(2) by auto
      then show ?thesis using b' t n fills ft by simp
    qed
  qed
qed

end

lemma acceptable_limit:
  "ord_side inc = Buy \<Longrightarrow> acceptable inc p \<longleftrightarrow> ord_type inc = Market \<or> ord_price inc \<ge> p"
  "ord_side inc = Sell \<Longrightarrow> acceptable inc p \<longleftrightarrow> ord_type inc = Market \<or> ord_price inc \<le> p"
  by (auto simp: acceptable_def)

lemma buy_can_match_side:
  "ord_side inc = Buy \<Longrightarrow> asks b = [] \<Longrightarrow> buy_can_match inc b = Inr False"
  "ord_side inc = Buy \<Longrightarrow> asks b = (p, l) # m \<Longrightarrow> buy_can_match inc b = Inr (acceptable inc p)"
  by (auto simp: buy_can_match_def has_asks_def best_ask_def acceptable_limit)

lemma sell_can_match_side:
  "ord_side inc = Sell \<Longrightarrow> bids b = [] \<Longrightarrow> sell_can_match inc b = Inr False"
  "ord_side inc = Sell \<Longrightarrow> bids b = (p, l) # m \<Longrightarrow> sell_can_match inc b = Inr (acceptable inc p)"
  by (auto simp: sell_can_match_def has_bids_def best_bid_def acceptable_limit)

lemma fill_best_ask:
  assumes "asks b = (p, l) # m"
  shows "remove_best_ask_if_empty
      (if c then remove_from_index i (set_best_ask_level l' b) else set_best_ask_level l' b) =
    set_ladder Sell (if level_empty l' then m else (p, l') # m) b
      \<lparr>order_locations := if c then (order_locations b)(i := None) else order_locations b\<rparr>"
  using assms
  by (cases c)
    (simp_all add: remove_best_ask_if_empty_def remove_from_index_def set_best_ask_level_def)

lemma fill_best_bid:
  assumes "bids b = (p, l) # m"
  shows "remove_best_bid_if_empty
      (if c then remove_from_index i (set_best_bid_level l' b) else set_best_bid_level l' b) =
    set_ladder Buy (if level_empty l' then m else (p, l') # m) b
      \<lparr>order_locations := if c then (order_locations b)(i := None) else order_locations b\<rparr>"
  using assms
  by (cases c)
    (simp_all add: remove_best_bid_if_empty_def remove_from_index_def set_best_bid_level_def)

interpretation buy: matching_loop Buy match_buy_loop
proof (unfold_locales, goal_cases)
  case (1 inc b t)
  then show ?case by (subst match_buy_loop.simps) simp
next
  case (2 b inc t)
  then show ?case by (subst match_buy_loop.simps) (simp add: buy_can_match_def has_asks_def)
next
  case (3 inc b p l m t)
  then show ?case by (subst match_buy_loop.simps) (simp add: buy_can_match_side)
next
  case (4 inc b p l m h x ns l' t)
  then have "asks b = (p, l) # m" by simp
  note fill = fill_best_ask [OF this]
  from 4 show ?case
    by (subst match_buy_loop.simps)
      (simp add: buy_can_match_side best_ask_level_def level_front_def fill fill_trade_def Let_def
        word_gt_0)
qed

interpretation sell: matching_loop Sell match_sell_loop
proof (unfold_locales, goal_cases)
  case (1 inc b t)
  then show ?case by (subst match_sell_loop.simps) simp
next
  case (2 b inc t)
  then show ?case by (subst match_sell_loop.simps) (simp add: sell_can_match_def has_bids_def)
next
  case (3 inc b p l m t)
  then show ?case by (subst match_sell_loop.simps) (simp add: sell_can_match_side)
next
  case (4 inc b p l m h x ns l' t)
  then have "bids b = (p, l) # m" by simp
  note fill = fill_best_bid [OF this]
  from 4 show ?case
    by (subst match_sell_loop.simps)
      (simp add: sell_can_match_side best_bid_level_def level_front_def fill fill_trade_def Let_def
        word_gt_0)
qed

section \<open>Properties of a sweep\<close>

definition filled_quantity :: "(Order \<times> Quantity) list \<Rightarrow> nat" where
  "filled_quantity fills = (\<Sum>f\<leftarrow>fills. unat (snd f))"

lemma filled_quantity_simps [simp]:
  "filled_quantity [] = 0"
  "filled_quantity (f # fs) = unat (snd f) + filled_quantity fs"
  by (simp_all add: filled_quantity_def)

lemma acceptable_remaining [simp]: "acceptable (inc\<lparr>ord_remaining := v\<rparr>) = acceptable inc"
  by (simp add: fun_eq_iff acceptable_def)

lemma sweep_conserves_incoming:
  "queue_sweep inc q = (fills, r, q') \<Longrightarrow> filled_quantity fills + unat r = unat (ord_remaining inc)"
proof (induction inc q arbitrary: fills rule: queue_sweep.induct)
  case (2 inc x q)
  show ?case
  proof (cases "ord_remaining inc = 0 \<or> \<not> acceptable inc (ord_price x) \<or> ord_remaining inc < ord_remaining x")
    case True
    then show ?thesis using "2.prems" by (auto split: if_splits)
  next
    case False
    let ?inc = "inc\<lparr>ord_remaining := ord_remaining inc - ord_remaining x\<rparr>"
    obtain fs where fs: "queue_sweep ?inc q = (fs, r, q')" "fills = (x, ord_remaining x) # fs"
      using "2.prems" False by (auto split: prod.splits)
    have le: "ord_remaining x \<le> ord_remaining inc" using False by (simp add: not_less)
    then have "unat (ord_remaining ?inc) = unat (ord_remaining inc) - unat (ord_remaining x)"
      by (simp add: unat_word_diff)
    moreover have "filled_quantity fs + unat r = unat (ord_remaining ?inc)"
      using "2.IH" False fs(1) by (simp add: not_less)
    ultimately show ?thesis using fs(2) le by (simp add: word_le_nat_alt)
  qed
qed simp

lemma sweep_conserves_queue:
  "queue_sweep inc q = (fills, r, q') \<Longrightarrow> filled_quantity fills + open_quantity q' = open_quantity q"
proof (induction inc q arbitrary: fills rule: queue_sweep.induct)
  case (2 inc x q)
  consider "ord_remaining inc = 0 \<or> \<not> acceptable inc (ord_price x)"
    | "ord_remaining inc \<noteq> 0" "acceptable inc (ord_price x)" "ord_remaining inc < ord_remaining x"
    | "ord_remaining inc \<noteq> 0" "acceptable inc (ord_price x)" "\<not> ord_remaining inc < ord_remaining x"
    by blast
  then show ?case
  proof cases
    case 1
    then show ?thesis using "2.prems" by auto
  next
    case 2
    then show ?thesis using "2.prems"
      by (auto simp: unat_word_diff order_less_imp_le word_less_nat_alt)
  next
    case 3
    then show ?thesis using "2.prems" "2.IH" by (auto split: prod.splits)
  qed
qed simp

lemma sweep_fills_from_front:
  "queue_sweep inc q = (fills, r, q') \<Longrightarrow> map fst fills = take (length fills) q"
  by (induction inc q arbitrary: fills rule: queue_sweep.induct) (auto split: if_splits prod.splits)

lemma sweep_leaves:
  assumes "queue_sweep inc q = (fills, r, q')"
  obtains (untouched) "q' = drop (length fills) q" "\<forall>f\<in>set fills. snd f = ord_remaining (fst f)"
  | (partial) x n fs where "fills = fs @ [(x, n)]" "0 < n" "n < ord_remaining x" "r = 0"
      "\<forall>f\<in>set fs. snd f = ord_remaining (fst f)"
      "q' = x\<lparr>ord_remaining := ord_remaining x - n\<rparr> # drop (length fills) q"
proof -
  have "(q' = drop (length fills) q \<and> (\<forall>f\<in>set fills. snd f = ord_remaining (fst f))) \<or>
    (\<exists>x n fs. fills = fs @ [(x, n)] \<and> 0 < n \<and> n < ord_remaining x \<and> r = 0 \<and>
      (\<forall>f\<in>set fs. snd f = ord_remaining (fst f)) \<and>
      q' = x\<lparr>ord_remaining := ord_remaining x - n\<rparr> # drop (length fills) q)"
    using assms
  proof (induction inc q arbitrary: fills rule: queue_sweep.induct)
    case (2 inc x q)
    consider "ord_remaining inc = 0 \<or> \<not> acceptable inc (ord_price x)"
      | "ord_remaining inc \<noteq> 0" "acceptable inc (ord_price x)" "ord_remaining inc < ord_remaining x"
      | "ord_remaining inc \<noteq> 0" "acceptable inc (ord_price x)" "\<not> ord_remaining inc < ord_remaining x"
      by blast
    then show ?case
    proof cases
      case 3
      then obtain fs where fs: "queue_sweep (inc\<lparr>ord_remaining := ord_remaining inc - ord_remaining x\<rparr>) q = (fs, r, q')"
        "fills = (x, ord_remaining x) # fs"
        using "2.prems" by (auto split: prod.splits)
      from "2.IH" 3 fs(1) consider
          "q' = drop (length fs) q \<and> (\<forall>f\<in>set fs. snd f = ord_remaining (fst f))"
        | y n fs' where "fs = fs' @ [(y, n)]" "0 < n" "n < ord_remaining y" "r = 0"
          "\<forall>f\<in>set fs'. snd f = ord_remaining (fst f)"
          "q' = y\<lparr>ord_remaining := ord_remaining y - n\<rparr> # drop (length fs) q"
        by blast
      then show ?thesis
      proof cases
        case 1
        then show ?thesis using fs(2) by auto
      next
        case (2 y n fs')
        then have "fills = ((x, ord_remaining x) # fs') @ [(y, n)]" using fs(2) by simp
        moreover have "\<forall>f\<in>set ((x, ord_remaining x) # fs'). snd f = ord_remaining (fst f)"
          using 2 by auto
        ultimately show ?thesis using 2 fs(2) by (metis drop_Suc_Cons length_Cons)
      qed
    qed (use "2.prems" in \<open>auto simp: word_gt_0\<close>)
  qed simp
  then show thesis using that by blast
qed

lemma sweep_acceptable:
  "queue_sweep inc q = (fills, r, q') \<Longrightarrow> f \<in> set fills \<Longrightarrow> acceptable inc (ord_price (fst f))"
  by (induction inc q arbitrary: fills rule: queue_sweep.induct) (auto split: if_splits prod.splits)

lemma sweep_exhausts:
  "queue_sweep inc q = (fills, r, q') \<Longrightarrow> r \<noteq> 0 \<Longrightarrow>
    (case q' of [] \<Rightarrow> True | y # _ \<Rightarrow> \<not> acceptable inc (ord_price y))"
  by (induction inc q arbitrary: fills rule: queue_sweep.induct)
    (auto split: if_splits prod.splits list.splits)

lemma sweep_positive:
  "queue_sweep inc q = (fills, r, q') \<Longrightarrow> \<forall>x\<in>set q. ord_remaining x \<noteq> 0 \<Longrightarrow>
    f \<in> set fills \<Longrightarrow> snd f \<noteq> 0"
  by (induction inc q arbitrary: fills rule: queue_sweep.induct) (auto split: if_splits prod.splits)

text \<open>What stays in the queue is what was there, with smaller or equal remaining quantities.\<close>

lemma sweep_remaining_orders:
  "queue_sweep inc q = (fills, r, q') \<Longrightarrow> y \<in> set q' \<Longrightarrow>
    \<exists>x\<in>set q. y = x \<or> (\<exists>n. y = x\<lparr>ord_remaining := n\<rparr>)"
  by (induction inc q arbitrary: fills rule: queue_sweep.induct) (auto split: if_splits prod.splits)


lemma acceptable_better:
  assumes "acceptable inc p" "\<not> side_lt (opposite (ord_side inc)) p q"
  shows "acceptable inc q"
  using assms by (cases "ord_side inc") (auto simp: acceptable_def)

lemma sweep_enough_liquidity:
  assumes "queue_sweep inc q = (fills, r, q')"
    and "sorted_wrt (\<lambda>x y. \<not> side_lt (opposite (ord_side inc)) (ord_price y) (ord_price x)) q"
    and "unat (ord_remaining inc) \<le> open_quantity (filter (\<lambda>y. acceptable inc (ord_price y)) q)"
  shows "r = 0"
proof (rule ccontr)
  assume r: "r \<noteq> 0"
  have "filter (\<lambda>y. acceptable inc (ord_price y)) q' = []"
  proof (cases q')
    case (Cons y ys)
    have "\<not> acceptable inc (ord_price y)" using sweep_exhausts [OF assms(1) r] Cons by simp
    have "q' = drop (length fills) q" using assms(1) r by (auto elim!: sweep_leaves)
    then have "drop (length fills) q = y # ys" using Cons by simp
    then have "sorted_wrt (\<lambda>x y. \<not> side_lt (opposite (ord_side inc)) (ord_price y) (ord_price x)) (y # ys)"
      using assms(2) sorted_wrt_drop by metis
    then have "\<not> acceptable inc (ord_price z)" if "z \<in> set ys" for z
      using that acceptable_better \<open>\<not> acceptable inc (ord_price y)\<close> by auto
    then show ?thesis
      using \<open>\<not> acceptable inc (ord_price y)\<close> Cons by (simp add: filter_empty_conv)
  qed simp
  moreover have "q' = drop (length fills) q"
    using assms(1) r by (auto elim!: sweep_leaves)
  ultimately have "open_quantity (filter (\<lambda>y. acceptable inc (ord_price y)) q) =
      open_quantity (filter (\<lambda>y. acceptable inc (ord_price y)) (take (length fills) q))"
    using filter_append [of _ "take (length fills) q" "drop (length fills) q"] by simp
  also have "\<dots> = open_quantity (take (length fills) q)"
  proof -
    have "set (take (length fills) q) = fst ` set fills"
      using sweep_fills_from_front [OF assms(1)] by (metis list.set_map)
    then have "\<forall>y\<in>set (take (length fills) q). acceptable inc (ord_price y)"
      using sweep_acceptable [OF assms(1)] by auto
    then show ?thesis by (simp add: filter_True)
  qed
  also have "\<dots> = filled_quantity fills"
    using sweep_conserves_queue [OF assms(1)] \<open>q' = drop (length fills) q\<close>
      open_quantity_simps(3) [of "take (length fills) q" "drop (length fills) q"] by simp
  finally have "unat (ord_remaining inc) \<le> filled_quantity fills" using assms(3) by simp
  then have "unat r = 0" using sweep_conserves_incoming [OF assms(1)] by linarith
  then show False using r by (simp add: unat_eq_0)
qed

section \<open>The engine refines its specification\<close>

text \<open>
  The abstract book maps each side to its queue. \<open>spec_process\<close> is the whole of order entry on
  it: the outcome, the trades and the queues after the call.
\<close>

definition book_abs :: "OrderBook \<Rightarrow> Side \<Rightarrow> Order list" where
  "book_abs b s = resting s b"

definition spec_process ::
  "Order \<Rightarrow> (Side \<Rightarrow> Order list) \<Rightarrow> unit outcome \<times> Trade list \<times> (Side \<Rightarrow> Order list)" where
  "spec_process inc A =
     (let s = ord_side inc; q = A (opposite s)
      in if ord_tif inc = FillOrKill \<and>
            open_quantity (filter (\<lambda>y. acceptable inc (ord_price y)) q) < unat (ord_remaining inc)
         then (Inr (), [], A)
         else
           (case queue_sweep inc q of
              (fills, r, q') \<Rightarrow>
                let ts = map (fill_trade inc) fills; A' = A(opposite s := q')
                in if r = 0 \<or> \<not> may_rest inc then (Inr (), ts, A')
                   else if ord_id inc \<in> ord_id ` (set (A s) \<union> set q') then
                     (Inl (Invalid_Argument ''Duplicate order ID''), ts, A')
                   else (Inr (), ts, A'(s := queue_insert s (inc\<lparr>ord_remaining := r\<rparr>) (A s)))))"

lemma match_buy_spec:
  assumes "book_wf b" "ord_side inc = Buy" "tb_wf t" "tb_to_vector t = []"
    and "queue_sweep inc (resting Sell b) = (fills, r, q')"
  obtains b1 t1 where "book_wf b1" "tb_wf t1" "tb_to_vector t1 = map (fill_trade inc) fills"
    "resting Buy b1 = resting Buy b" "resting Sell b1 = q'"
    "match_buy b inc t =
       (if r \<noteq> 0 \<and> may_rest inc then
          (case book_add_order (inc\<lparr>ord_remaining := r\<rparr>) b1 of (e, b2) \<Rightarrow> (e, b2, t1))
        else (Inr (), b1, t1))"
proof -
  have "queue_sweep inc (resting (opposite Buy) b) = (fills, r, q')" using assms(5) by simp
  from buy.loop_sweeps [OF assms(1-3) this] obtain b1 t1 where
    "match_buy_loop b inc t = (Inr (), b1, inc\<lparr>ord_remaining := r\<rparr>, t1)" "book_wf b1" "tb_wf t1"
    "resting Buy b1 = resting Buy b" "resting Sell b1 = q'"
    "tb_to_vector t1 = map (fill_trade inc) fills" using assms(4) by auto
  then show thesis using that by (auto simp: match_buy_def may_rest_def word_gt_0)
qed

lemma match_sell_spec:
  assumes "book_wf b" "ord_side inc = Sell" "tb_wf t" "tb_to_vector t = []"
    and "queue_sweep inc (resting Buy b) = (fills, r, q')"
  obtains b1 t1 where "book_wf b1" "tb_wf t1" "tb_to_vector t1 = map (fill_trade inc) fills"
    "resting Sell b1 = resting Sell b" "resting Buy b1 = q'"
    "match_sell b inc t =
       (if r \<noteq> 0 \<and> may_rest inc then
          (case book_add_order (inc\<lparr>ord_remaining := r\<rparr>) b1 of (e, b2) \<Rightarrow> (e, b2, t1))
        else (Inr (), b1, t1))"
proof -
  have "queue_sweep inc (resting (opposite Sell) b) = (fills, r, q')" using assms(5) by simp
  from sell.loop_sweeps [OF assms(1-3) this] obtain b1 t1 where
    "match_sell_loop b inc t = (Inr (), b1, inc\<lparr>ord_remaining := r\<rparr>, t1)" "book_wf b1" "tb_wf t1"
    "resting Sell b1 = resting Sell b" "resting Buy b1 = q'"
    "tb_to_vector t1 = map (fill_trade inc) fills" using assms(4) by auto
  then show thesis using that by (auto simp: match_sell_def may_rest_def word_gt_0)
qed

text \<open>Resting the residual after a sweep, including the case of an id that is already in use.\<close>

lemma rest_residual:
  assumes wf: "book_wf b1" and inc: "ord_side inc = s" "ord_type inc = Limit" and r: "r \<noteq> 0"
  shows "\<exists>b2. book_add_order (inc\<lparr>ord_remaining := r\<rparr>) b1 =
      (if ord_id inc \<in> ord_id ` (set (resting s b1) \<union> set (resting (opposite s) b1))
       then Inl (Invalid_Argument ''Duplicate order ID'') else Inr (), b2) \<and> book_wf b2 \<and>
    resting (opposite s) b2 = resting (opposite s) b1 \<and>
    resting s b2 =
      (if ord_id inc \<in> ord_id ` (set (resting s b1) \<union> set (resting (opposite s) b1))
       then resting s b1 else queue_insert s (inc\<lparr>ord_remaining := r\<rparr>) (resting s b1))"
proof (cases "contains b1 (ord_id inc)")
  case True
  then show ?thesis
    using contains_iff [OF wf, of "ord_id inc" s] wf by (auto simp: book_add_order_def)
next
  case False
  then have "ord_id inc \<notin> ord_id ` (set (resting s b1) \<union> set (resting (opposite s) b1))"
    using contains_iff [OF wf] by blast
  moreover obtain b2 where "book_add_order (inc\<lparr>ord_remaining := r\<rparr>) b1 = (Inr (), b2)" "book_wf b2"
    "resting s b2 = queue_insert s (inc\<lparr>ord_remaining := r\<rparr>) (resting s b1)"
    "resting (opposite s) b2 = resting (opposite s) b1"
    using book_add_order_ok [OF wf, of "inc\<lparr>ord_remaining := r\<rparr>"] False inc r by auto
  ultimately show ?thesis by auto
qed


lemma queue_sweep_tif [simp]: "queue_sweep (inc\<lparr>ord_tif := v\<rparr>) q = queue_sweep inc q"
proof (induction inc q rule: queue_sweep.induct)
  case (2 inc x q)
  have acc: "acceptable (inc\<lparr>ord_tif := v\<rparr>) = acceptable inc"
    by (simp add: fun_eq_iff acceptable_def)
  show ?case
  proof (cases "ord_remaining inc = 0 \<or> \<not> acceptable inc (ord_price x) \<or> ord_remaining inc < ord_remaining x")
    case False
    with "2.IH" have "queue_sweep (inc\<lparr>ord_remaining := ord_remaining inc - ord_remaining x, ord_tif := v\<rparr>) q =
        queue_sweep (inc\<lparr>ord_remaining := ord_remaining inc - ord_remaining x\<rparr>) q" by simp
    moreover have "inc\<lparr>ord_tif := v, ord_remaining := n\<rparr> = inc\<lparr>ord_remaining := n, ord_tif := v\<rparr>" for n
      by simp
    ultimately have "queue_sweep (inc\<lparr>ord_tif := v, ord_remaining := ord_remaining inc - ord_remaining x\<rparr>) q =
        queue_sweep (inc\<lparr>ord_remaining := ord_remaining inc - ord_remaining x\<rparr>) q" by metis
    then show ?thesis using False by (simp add: acc)
  qed (auto simp: acc)
qed simp

lemma match_spec:
  assumes wf: "book_wf b" and inc: "ord_side inc = s" and t: "tb_wf t" "tb_to_vector t = []"
    and sweep: "queue_sweep inc (resting (opposite s) b) = (fills, r, q')"
  shows "\<exists>b' t'. (if s = Buy then match_buy b inc t else match_sell b inc t) =
      (if r \<noteq> 0 \<and> may_rest inc \<and> ord_id inc \<in> ord_id ` (set (resting s b) \<union> set q')
       then Inl (Invalid_Argument ''Duplicate order ID'') else Inr (), b', t') \<and>
    book_wf b' \<and> tb_wf t' \<and> tb_to_vector t' = map (fill_trade inc) fills \<and>
    resting (opposite s) b' = q' \<and>
    resting s b' =
      (if r \<noteq> 0 \<and> may_rest inc \<and> ord_id inc \<notin> ord_id ` (set (resting s b) \<union> set q')
       then queue_insert s (inc\<lparr>ord_remaining := r\<rparr>) (resting s b) else resting s b)"
proof -
  obtain b1 t1 where b1: "book_wf b1" "tb_wf t1" "tb_to_vector t1 = map (fill_trade inc) fills"
    "resting s b1 = resting s b" "resting (opposite s) b1 = q'"
    and eq: "(if s = Buy then match_buy b inc t else match_sell b inc t) =
       (if r \<noteq> 0 \<and> may_rest inc then
          (case book_add_order (inc\<lparr>ord_remaining := r\<rparr>) b1 of (e, b2) \<Rightarrow> (e, b2, t1))
        else (Inr (), b1, t1))"
  proof (cases s)
    case Buy
    then show thesis using match_buy_spec [OF wf _ t, of inc fills r q'] that inc sweep by auto
  next
    case Sell
    then show thesis using match_sell_spec [OF wf _ t, of inc fills r q'] that inc sweep by auto
  qed
  show ?thesis
  proof (cases "r \<noteq> 0 \<and> may_rest inc")
    case True
    then have "ord_type inc = Limit" "r \<noteq> 0" by (auto simp: may_rest_def)
    from rest_residual [OF b1(1) inc this] show ?thesis using b1 eq True by auto
  next
    case False
    then show ?thesis using b1 eq by auto
  qed
qed

text \<open>The three ways a call can go: rejected, killed, or run.\<close>

lemma process_order_into_rejects:
  assumes "ord_remaining inc = 0"
  shows "process_order_into b inc t =
    (Inl (Invalid_Argument ''Incoming order quantity must be positive''), b, t)"
  using assms by (simp add: process_order_into_def validate_incoming_def Let_def)

lemma process_order_into_kills:
  assumes "ord_remaining inc \<noteq> 0" "ord_tif inc = FillOrKill"
    and "executable_quantity b inc < ucast (ord_remaining inc)"
  shows "process_order_into b inc t = (Inr (), b, tb_clear t)"
  using assms by (simp add: process_order_into_def validate_incoming_def Let_def)

lemma process_order_into_runs:
  assumes wf: "book_wf b" and t: "tb_wf t" and q: "ord_remaining inc \<noteq> 0"
    and live: "\<not> (ord_tif inc = FillOrKill \<and> executable_quantity b inc < ucast (ord_remaining inc))"
    and s: "ord_side inc = s"
    and sweep: "queue_sweep inc (resting (opposite s) b) = (fills, r, q')"
  shows "\<exists>b' t'. process_order_into b inc t =
      (if r \<noteq> 0 \<and> may_rest inc \<and> ord_id inc \<in> ord_id ` (set (resting s b) \<union> set q')
       then Inl (Invalid_Argument ''Duplicate order ID'') else Inr (), b', t') \<and>
    book_wf b' \<and> tb_wf t' \<and> tb_to_vector t' = map (fill_trade inc) fills \<and>
    resting (opposite s) b' = q' \<and>
    resting s b' =
      (if r \<noteq> 0 \<and> may_rest inc \<and> ord_id inc \<notin> ord_id ` (set (resting s b) \<union> set q')
       then queue_insert s (inc\<lparr>ord_remaining := r\<rparr>) (resting s b) else resting s b)"
proof -
  define inc1 where "inc1 = (if ord_type inc = Market \<and> ord_tif inc = GoodTillCancel
    then inc\<lparr>ord_tif := ImmediateOrCancel\<rparr> else inc)"
  have inc1: "ord_remaining inc1 = ord_remaining inc" "ord_side inc1 = s" "ord_id inc1 = ord_id inc"
    "queue_sweep inc1 = queue_sweep inc" "fill_trade inc1 = fill_trade inc" "may_rest inc1 = may_rest inc"
    "ord_tif inc1 = FillOrKill \<longleftrightarrow> ord_tif inc = FillOrKill" "may_rest inc \<Longrightarrow> inc1 = inc"
    "ord_tif inc = FillOrKill \<Longrightarrow> inc1 = inc"
    using s by (auto simp: inc1_def fill_trade_def may_rest_def fun_eq_iff)
  have t': "tb_wf (tb_clear t)" "tb_to_vector (tb_clear t) = []"
    using t by (simp_all add: buf.inv_clear buf.contents_clear)
  have eq: "process_order_into b inc t =
      (if s = Buy then match_buy b inc1 (tb_clear t) else match_sell b inc1 (tb_clear t))"
    using q inc1 live
    by (auto simp: process_order_into_def validate_incoming_def Let_def inc1_def [symmetric])
  have "queue_sweep inc1 (resting (opposite s) b) = (fills, r, q')" using sweep inc1(4) by simp
  from match_spec [OF wf inc1(2) t' this] show ?thesis
    unfolding eq [symmetric] inc1(3,5,6) using inc1(8) by (cases "may_rest inc") auto
qed

text \<open>Order entry is the specification whenever the two liquidity checks of fill-or-kill orders agree.\<close>

lemma process_order_into_spec_when:
  assumes wf: "book_wf b" and t: "tb_wf t" and q: "ord_remaining inc \<noteq> 0"
    and agree: "ord_tif inc = FillOrKill \<Longrightarrow> executable_quantity b inc < ucast (ord_remaining inc) \<longleftrightarrow>
      open_quantity (filter (\<lambda>y. acceptable inc (ord_price y)) (resting (opposite (ord_side inc)) b))
        < unat (ord_remaining inc)"
  shows "\<exists>r b' t'. process_order_into b inc t = (r, b', t') \<and> book_wf b' \<and> tb_wf t' \<and>
    spec_process inc (book_abs b) = (r, tb_to_vector t', book_abs b')"
proof (cases "ord_tif inc = FillOrKill \<and> executable_quantity b inc < ucast (ord_remaining inc)")
  case True
  then have "open_quantity (filter (\<lambda>y. acceptable inc (ord_price y)) (resting (opposite (ord_side inc)) b))
      < unat (ord_remaining inc)"
    using agree by blast
  then show ?thesis
    using True process_order_into_kills [OF q] wf t
    by (auto simp: spec_process_def Let_def book_abs_def buf.inv_clear buf.contents_clear)
next
  case False
  let ?s = "ord_side inc"
  have live: "(ord_tif inc = FillOrKill \<and> open_quantity (filter (\<lambda>y. acceptable inc (ord_price y))
      (resting (opposite ?s) b)) < unat (ord_remaining inc)) = False"
    using False agree by blast
  obtain fills r q' where sweep: "queue_sweep inc (resting (opposite ?s) b) = (fills, r, q')"
    by (metis prod_cases3)
  obtain b' t2 where res: "process_order_into b inc t =
      (if r \<noteq> 0 \<and> may_rest inc \<and> ord_id inc \<in> ord_id ` (set (resting ?s b) \<union> set q')
       then Inl (Invalid_Argument ''Duplicate order ID'') else Inr (), b', t2)"
    "book_wf b'" "tb_wf t2" "tb_to_vector t2 = map (fill_trade inc) fills"
    "resting (opposite ?s) b' = q'"
    "resting ?s b' = (if r \<noteq> 0 \<and> may_rest inc \<and> ord_id inc \<notin> ord_id ` (set (resting ?s b) \<union> set q')
       then queue_insert ?s (inc\<lparr>ord_remaining := r\<rparr>) (resting ?s b) else resting ?s b)"
    using process_order_into_runs [OF wf t q False refl sweep] by blast
  have abs: "book_abs b' = (book_abs b)(opposite ?s := q', ?s := resting ?s b')"
  proof
    fix x
    show "book_abs b' x = ((book_abs b)(opposite ?s := q', ?s := resting ?s b')) x"
      using res(5) by (cases x; cases ?s) (auto simp: book_abs_def)
  qed
  have spec: "spec_process inc (book_abs b) =
      (if r = 0 \<or> \<not> may_rest inc
       then (Inr (), map (fill_trade inc) fills, (book_abs b)(opposite ?s := q'))
       else if ord_id inc \<in> ord_id ` (set (resting ?s b) \<union> set q')
       then (Inl (Invalid_Argument ''Duplicate order ID''), map (fill_trade inc) fills,
             (book_abs b)(opposite ?s := q'))
       else (Inr (), map (fill_trade inc) fills, (book_abs b)(opposite ?s := q',
             ?s := queue_insert ?s (inc\<lparr>ord_remaining := r\<rparr>) (resting ?s b))))"
    by (simp only: spec_process_def Let_def book_abs_def live if_False sweep prod.case)
  have same: "(book_abs b)(opposite ?s := q', ?s := resting ?s b) = (book_abs b)(opposite ?s := q')"
    by (simp add: fun_eq_iff book_abs_def)
  show ?thesis using res spec abs same by auto
qed

lemma process_order_into_spec:
  assumes wf: "book_wf b" and t: "tb_wf t" and q: "ord_remaining inc \<noteq> 0"
    and exact: "ord_tif inc = FillOrKill \<longrightarrow> book_exact b"
  shows "\<exists>r b' t'. process_order_into b inc t = (r, b', t') \<and> book_wf b' \<and> tb_wf t' \<and>
    spec_process inc (book_abs b) = (r, tb_to_vector t', book_abs b')"
  by (rule process_order_into_spec_when [OF wf t q], rule executable_quantity_correct [OF wf _ q]) (use exact in simp)

lemma process_order_into_wf:
  assumes wf: "book_wf b" and t: "tb_wf t" and res: "process_order_into b inc t = (r, b', t')"
  shows "book_wf b' \<and> tb_wf t'"
proof (cases "ord_remaining inc = 0")
  case True
  then show ?thesis using res wf t by (simp add: process_order_into_rejects)
next
  case q: False
  show ?thesis
  proof (cases "ord_tif inc = FillOrKill \<and> executable_quantity b inc < ucast (ord_remaining inc)")
    case True
    then show ?thesis using res wf t process_order_into_kills [OF q] by (auto simp: buf.inv_clear)
  next
    case False
    obtain fills r q' where "queue_sweep inc (resting (opposite (ord_side inc)) b) = (fills, r, q')"
      by (metis prod_cases3)
    from process_order_into_runs [OF wf t q False refl this] show ?thesis using res by auto
  qed
qed


end
