(* ===== verification/Engine_Invariants.thy ===== *)
theory Engine_Invariants
  imports Matching_Engine
begin

text \<open>
  The invariant of a book that is only changed through the matching engine: it is well-formed,
  it is not crossed (every bid is below every ask), and every resting order is good-till-cancel.
  Every call of the engine keeps it, also a call that throws, so it holds in every state that
  order entry, cancellation and replacement can reach from the empty book.
\<close>

definition book_uncrossed :: "OrderBook \<Rightarrow> bool" where
  "book_uncrossed b \<longleftrightarrow>
     (\<forall>x\<in>set (resting Buy b). \<forall>y\<in>set (resting Sell b). ord_price x < ord_price y)"

definition book_gtc :: "OrderBook \<Rightarrow> bool" where
  "book_gtc b \<longleftrightarrow> (\<forall>s. \<forall>x\<in>set (resting s b). ord_tif x = GoodTillCancel)"

definition engine_inv :: "OrderBook \<Rightarrow> bool" where
  "engine_inv b \<longleftrightarrow> book_wf b \<and> book_uncrossed b \<and> book_gtc b"

inductive reachable_book :: "OrderBook \<Rightarrow> bool" where
  reach_new: "reachable_book new_book"
| reach_process: "reachable_book b \<Longrightarrow> process_order b inc = (r, b') \<Longrightarrow> reachable_book b'"
| reach_cancel: "reachable_book b \<Longrightarrow> engine_cancel_order b i = (r, b') \<Longrightarrow> reachable_book b'"
| reach_replace: "reachable_book b \<Longrightarrow> replace_order b i p q ts = (r, b') \<Longrightarrow> reachable_book b'"

inductive_cases reachable_bookE: "reachable_book b"

section \<open>Order entry\<close>

lemma book_uncrossed_side:
  "book_uncrossed b \<longleftrightarrow>
     (\<forall>x\<in>set (resting s b). \<forall>y\<in>set (resting (opposite s) b).
        side_lt (opposite s) (ord_price x) (ord_price y))"
  by (cases s) (auto simp: book_uncrossed_def)

lemma book_gtc_side:
  "book_gtc b \<longleftrightarrow> (\<forall>x\<in>set (resting s b) \<union> set (resting (opposite s) b). ord_tif x = GoodTillCancel)"
  by (cases s) (auto simp: book_gtc_def all_Side)

lemma set_queue_insert [simp]: "set (queue_insert s x q) = insert x (set q)"
  unfolding queue_insert_def
  by (metis Un_insert_right list.simps(15) set_append takeWhile_dropWhile_id)

lemma open_quantity_queue_insert [simp]:
  "open_quantity (queue_insert s x q) = unat (ord_remaining x) + open_quantity q"
  unfolding queue_insert_def
  by (metis (no_types, lifting) add.left_commute open_quantity_simps(2,3) takeWhile_dropWhile_id)

lemma sweep_ids: "queue_sweep inc q = (fills, r, q') \<Longrightarrow> ord_id ` set q' \<subseteq> ord_id ` set q"
  using sweep_remaining_orders by fastforce

lemma sweep_unacceptable:
  assumes sweep: "queue_sweep inc (resting (opposite (ord_side inc)) b) = (fills, r, q')"
    and wf: "book_wf b" and r: "r \<noteq> 0" and y: "y \<in> set q'"
  shows "\<not> acceptable inc (ord_price y)"
proof -
  let ?q = "resting (opposite (ord_side inc)) b"
  have q': "q' = drop (length fills) ?q" using sweep r by (auto elim!: sweep_leaves)
  obtain z zs where z: "q' = z # zs" using y by (cases q') auto
  have "sorted_wrt (\<lambda>x y. \<not> side_lt (opposite (ord_side inc)) (ord_price y) (ord_price x)) q'"
    unfolding q' using resting_sorted [OF wf] by (rule sorted_wrt_drop)
  then have "\<not> side_lt (opposite (ord_side inc)) (ord_price y) (ord_price z)"
    using y z side.lt_irrefl by auto
  moreover have "\<not> acceptable inc (ord_price z)" using sweep_exhausts [OF sweep r] z by simp
  ultimately show ?thesis using acceptable_better by blast
qed

lemma process_order_into_inv:
  assumes inv: "engine_inv b" and t: "tb_wf t" and res: "process_order_into b inc t = (r, b', t')"
  shows "engine_inv b'"
proof -
  have wf: "book_wf b" and un: "book_uncrossed b" and gtc: "book_gtc b"
    using inv by (auto simp: engine_inv_def)
  have wf': "book_wf b'" using process_order_into_wf [OF wf t res] by simp
  consider "b' = b"
    | "ord_remaining inc \<noteq> 0"
      "\<not> (ord_tif inc = FillOrKill \<and> executable_quantity b inc < ucast (ord_remaining inc))"
    using res process_order_into_rejects [of inc b t] process_order_into_kills [of inc b t] by auto
  then show ?thesis
  proof cases
    case 1
    then show ?thesis using inv by simp
  next
    case 2
    let ?s = "ord_side inc"
    obtain fills n q' where sweep: "queue_sweep inc (resting (opposite ?s) b) = (fills, n, q')"
      by (metis prod_cases3)
    let ?rests = "n \<noteq> 0 \<and> may_rest inc \<and> ord_id inc \<notin> ord_id ` (set (resting ?s b) \<union> set q')"
    have opp: "resting (opposite ?s) b' = q'"
      and own: "resting ?s b' = (if ?rests then queue_insert ?s (inc\<lparr>ord_remaining := n\<rparr>) (resting ?s b)
        else resting ?s b)"
      using process_order_into_runs [OF wf t 2 refl sweep] res by auto
    have own_set: "x \<in> set (resting ?s b) \<or> (?rests \<and> x = inc\<lparr>ord_remaining := n\<rparr>)"
      if "x \<in> set (resting ?s b')" for x
      using that own by (auto split: if_splits)
    have from_q: "\<exists>z\<in>set (resting (opposite ?s) b). ord_price y = ord_price z \<and> ord_tif y = ord_tif z"
      if "y \<in> set q'" for y
      using sweep_remaining_orders [OF sweep that] by auto
    have "book_uncrossed b'"
      unfolding book_uncrossed_side [of b' ?s] opp
    proof (intro ballI)
      fix x y assume x: "x \<in> set (resting ?s b')" and y: "y \<in> set q'"
      obtain z where z: "z \<in> set (resting (opposite ?s) b)" "ord_price y = ord_price z"
        using from_q [OF y] by blast
      consider "x \<in> set (resting ?s b)" | "?rests" "x = inc\<lparr>ord_remaining := n\<rparr>"
        using own_set [OF x] by blast
      then show "side_lt (opposite ?s) (ord_price x) (ord_price y)"
      proof cases
        case 1
        then show ?thesis using un z by (simp add: book_uncrossed_side [of b ?s])
      next
        case 2
        then show ?thesis
          using sweep_unacceptable [OF sweep wf _ y] by (auto simp: acceptable_def may_rest_def)
      qed
    qed
    moreover have "book_gtc b'"
      unfolding book_gtc_side [of b' ?s] opp
      using own_set from_q gtc by (fastforce simp: book_gtc_side [of b ?s] may_rest_def)
    ultimately show ?thesis using wf' by (simp add: engine_inv_def)
  qed
qed

lemma tb_wf_default [simp]: "tb_wf default_trade_buffer"
  by (simp add: default_trade_buffer_def)

lemma process_order_inv:
  assumes "engine_inv b" "process_order b inc = (r, b')"
  shows "engine_inv b'"
proof -
  obtain e b1 t1 where run: "process_order_into b inc default_trade_buffer = (e, b1, t1)"
    by (metis prod_cases3)
  then have "b' = b1" using assms(2) by (auto simp: process_order_def split: sum.splits)
  then show ?thesis using process_order_into_inv [OF assms(1) _ run] by simp
qed

section \<open>Cancellation and replacement\<close>

lemma contains_resting:
  assumes "book_wf b" "contains b i"
  obtains x s where "x \<in> set (resting s b)" "ord_id x = i"
proof -
  have "i \<in> ord_id ` (set (resting Buy b) \<union> set (resting (opposite Buy) b))"
    using contains_iff [OF assms(1), of i Buy] assms(2) by blast
  then show thesis using that by auto
qed

lemma extract_order_cases:
  assumes wf: "book_wf b" and res: "extract_order i b = (r, b')"
  obtains (absent) "r = Inr None" "b' = b" "\<not> contains b i"
  | (removed) x s where "r = Inr (Some x)" "x \<in> set (resting s b)" "ord_id x = i" "book_wf b'"
      "resting s b' = queue_remove i (resting s b)"
      "resting (opposite s) b' = resting (opposite s) b" "\<not> contains b' i"
  | (inconsistent) x s where "r = Inl (Logic_Error ''Price level quantity is inconsistent'')"
      "b' = b" "x \<in> set (resting s b)" "ord_id x = i" "level_sum s (ord_price x) b < ord_remaining x"
proof (cases "contains b i")
  case False
  then show thesis using absent extract_order_absent res by auto
next
  case True
  then obtain x s where x: "x \<in> set (resting s b)" "ord_id x = i"
    using contains_resting [OF wf] by blast
  show thesis
  proof (cases "ord_remaining x \<le> level_sum s (ord_price x) b")
    case True
    then show thesis using extract_order_ok [OF wf x(1)] removed x res by auto
  next
    case False
    then show thesis
      using extract_order_throws [OF wf x(1)] inconsistent x res by (auto simp: not_le)
  qed
qed

lemma engine_inv_subset:
  assumes "engine_inv b" "book_wf b'" "\<And>s. set (resting s b') \<subseteq> set (resting s b)"
  shows "engine_inv b'"
  using assms unfolding engine_inv_def book_uncrossed_def book_gtc_def by blast

lemma extract_order_inv:
  assumes inv: "engine_inv b" and res: "extract_order i b = (r, b')"
  shows "engine_inv b'"
proof -
  have "book_wf b" using inv by (simp add: engine_inv_def)
  from this res show ?thesis
  proof (cases rule: extract_order_cases)
    case (removed x s)
    then have "set (resting s' b') \<subseteq> set (resting s' b)" for s'
      by (cases s; cases s') (auto simp: queue_remove_def)
    then show ?thesis using engine_inv_subset [OF inv removed(4)] by blast
  qed (use inv in auto)
qed

lemma engine_cancel_order_inv:
  assumes "engine_inv b" "engine_cancel_order b i = (r, b')"
  shows "engine_inv b'"
proof -
  obtain e b1 where "extract_order i b = (e, b1)" by (metis surj_pair)
  then show ?thesis
    using extract_order_inv [OF assms(1)] assms(2)
    by (auto simp: engine_cancel_order_def book_cancel_order_def split: sum.splits)
qed

lemma replace_order_into_inv:
  assumes inv: "engine_inv b" and t: "tb_wf t"
    and res: "replace_order_into b i p q ts t = (r, b', t')"
  shows "engine_inv b' \<and> tb_wf t'"
proof -
  obtain e b1 where ext: "extract_order i b = (e, b1)" by (metis surj_pair)
  have inv1: "engine_inv b1" using extract_order_inv [OF inv ext] .
  have t1: "tb_wf (tb_clear t)" using t by (rule buf.inv_clear)
  consider "b' = b" "t' = t" | "b' = b1" "t' = tb_clear t"
    | x r' where "process_order_into b1 x (tb_clear t) = (r', b', t')"
    using res ext
    by (auto simp: replace_order_into_def Let_def
        split: if_splits sum.splits option.splits prod.splits)
  then show ?thesis
  proof cases
    case 3
    then show ?thesis
      using process_order_into_inv [OF inv1 t1] process_order_into_wf [OF _ t1] inv1
      by (auto simp: engine_inv_def)
  qed (use inv inv1 t t1 in auto)
qed

lemma replace_order_inv:
  assumes "engine_inv b" "replace_order b i p q ts = (r, b')"
  shows "engine_inv b'"
proof -
  obtain e b1 t1 where run: "replace_order_into b i p q ts default_trade_buffer = (e, b1, t1)"
    by (metis prod_cases3)
  then have "b' = b1" using assms(2) by (auto simp: replace_order_def split: sum.splits)
  then show ?thesis using replace_order_into_inv [OF assms(1) _ run] by simp
qed

lemma engine_inv_new [simp]: "engine_inv new_book"
  by (simp add: engine_inv_def book_uncrossed_def book_gtc_def all_Side)
    (simp add: resting_def new_book_def)

lemma reachable_engine_inv: "reachable_book b \<Longrightarrow> engine_inv b"
proof (induction rule: reachable_book.induct)
  case reach_new
  show ?case by simp
next
  case (reach_process b inc r b')
  then show ?case using process_order_inv by blast
next
  case (reach_cancel b i r b')
  then show ?case using engine_cancel_order_inv by blast
next
  case (reach_replace b i p q ts r b')
  then show ?case using replace_order_inv by blast
qed

end
