(* ===== verification/Engine_Properties.thy ===== *)
theory Engine_Properties
  imports Engine_Invariants
begin

text \<open>
  The properties of order book and matching engine, each for the operations as the code has them,
  with a witness on concrete orders.
\<close>

section \<open>What a call of the engine did\<close>

definition traded_quantity :: "Trade list \<Rightarrow> nat" where
  "traded_quantity ts = (\<Sum>t\<leftarrow>ts. unat (tr_quantity t))"

lemma traded_fills [simp]: "traded_quantity (map (fill_trade inc) fills) = filled_quantity fills"
  by (simp add: traded_quantity_def filled_quantity_def fill_trade_def comp_def)

lemma traded_Nil [simp]: "traded_quantity [] = 0"
  by (simp add: traded_quantity_def)

lemma process_order_cases:
  assumes wf: "book_wf b" and q: "ord_remaining inc \<noteq> 0" and res: "process_order b inc = (r, b')"
  obtains (killed) "ord_tif inc = FillOrKill" "executable_quantity b inc < ucast (ord_remaining inc)"
      "r = Inr []" "b' = b"
  | (run) fills n q' where
      "\<not> (ord_tif inc = FillOrKill \<and> executable_quantity b inc < ucast (ord_remaining inc))"
      "queue_sweep inc (resting (opposite (ord_side inc)) b) = (fills, n, q')" "book_wf b'"
      "r = (if n \<noteq> 0 \<and> may_rest inc \<and> ord_id inc \<in> ord_id ` (set (resting (ord_side inc) b) \<union> set q')
            then Inl (Invalid_Argument ''Duplicate order ID'') else Inr (map (fill_trade inc) fills))"
      "resting (opposite (ord_side inc)) b' = q'"
      "resting (ord_side inc) b' =
        (if n \<noteq> 0 \<and> may_rest inc \<and> ord_id inc \<notin> ord_id ` (set (resting (ord_side inc) b) \<union> set q')
         then queue_insert (ord_side inc) (inc\<lparr>ord_remaining := n\<rparr>) (resting (ord_side inc) b)
         else resting (ord_side inc) b)"
proof (cases "ord_tif inc = FillOrKill \<and> executable_quantity b inc < ucast (ord_remaining inc)")
  case True
  then show thesis
    using killed res process_order_into_kills [OF q, of b default_trade_buffer]
    by (auto simp: process_order_def buf.contents_clear)
next
  case False
  obtain fills n q' where sweep: "queue_sweep inc (resting (opposite (ord_side inc)) b) = (fills, n, q')"
    by (metis prod_cases3)
  obtain e b1 t1 where p: "process_order_into b inc default_trade_buffer = (e, b1, t1)"
    by (metis prod_cases3)
  note runs = process_order_into_runs [OF wf tb_wf_default q False refl sweep]
  have "b' = b1" using res p by (auto simp: process_order_def split: sum.splits)
  moreover have "r = (case e of Inl x \<Rightarrow> Inl x | Inr _ \<Rightarrow> Inr (tb_to_vector t1))"
    using res p by (auto simp: process_order_def split: sum.splits)
  ultimately show thesis using run [OF False sweep] runs p by (auto split: if_splits)
qed

section \<open>Sample orders for the witnesses\<close>

definition sample_order :: "OrderId \<Rightarrow> Side \<Rightarrow> TimeInForce \<Rightarrow> Price \<Rightarrow> Quantity \<Rightarrow> Order" where
  "sample_order i s tif p q =
     \<lparr>ord_id = i, ord_side = s, ord_type = Limit, ord_tif = tif, ord_price = p,
      ord_initial = q, ord_remaining = q, ord_timestamp = i\<rparr>"

definition sample_book :: OrderBook where
  "sample_book =
     snd (process_order (snd (process_order new_book (sample_order 1 Sell GoodTillCancel 101 5)))
       (sample_order 2 Sell GoodTillCancel 100 7))"

lemma sample_order_simps [simp]:
  "ord_id (sample_order i s tif p q) = i" "ord_side (sample_order i s tif p q) = s"
  "ord_type (sample_order i s tif p q) = Limit" "ord_tif (sample_order i s tif p q) = tif"
  "ord_price (sample_order i s tif p q) = p" "ord_remaining (sample_order i s tif p q) = q"
  by (simp_all add: sample_order_def)

lemma sample_book_reachable: "reachable_book sample_book"
  unfolding sample_book_def
  by (metis reach_new reach_process prod.collapse)

lemma sample_book_wf: "book_wf sample_book"
  using reachable_engine_inv [OF sample_book_reachable] by (simp add: engine_inv_def)

lemma sample_book_resting:
  "resting Sell sample_book =
     [sample_order 2 Sell GoodTillCancel 100 7, sample_order 1 Sell GoodTillCancel 101 5]"
  "resting Buy sample_book = []"
  "bids sample_book = []" "map (\<lambda>e. (fst e, lvl_total (snd e))) (asks sample_book) = [(100, 7), (101, 5)]"
  by code_simp+

lemma open_quantity_filter_le: "open_quantity (filter P q) \<le> open_quantity q"
  by (induction q) auto

lemma sample_book_exact: "book_exact sample_book"
proof -
  have "open_quantity (resting s sample_book) < 2 ^ 32" for s
    by (cases s) (simp_all add: sample_book_resting)
  then have "open_quantity (filter P (resting s sample_book)) < 2 ^ 32" for P s
    using open_quantity_filter_le order_le_less_trans by blast
  then show ?thesis by (simp add: book_exact_iff [OF sample_book_wf])
qed

section \<open>Properties of order entry\<close>

text \<open>
  C1. Order entry refines price-time priority. On every well-formed book a call of \<^verbatim>\<open>process_order\<close> with quantity zero
  throws and changes nothing. With a positive quantity the book stays well formed, and the outcome (return or exception),
  the trades and the queues left are exactly those of the specification \<open>spec_process\<close>, with one exception: on a book in
  which the 32-bit total of a price level has wrapped, a fill-or-kill order may be killed, without a trade and
  with the book unchanged, whatever rests.
\<close>

theorem process_order_refines:
  assumes "book_wf b"
  shows "if ord_remaining inc = 0
    then process_order b inc = (Inl (Invalid_Argument ''Incoming order quantity must be positive''), b)
    else \<exists>r ts b'. process_order b inc = (case r of Inl e \<Rightarrow> Inl e | Inr _ \<Rightarrow> Inr ts, b') \<and> book_wf b' \<and>
      (spec_process inc (book_abs b) = (r, ts, book_abs b') \<or>
       ord_tif inc = FillOrKill \<and> \<not> book_exact b \<and> r = Inr () \<and> ts = [] \<and> b' = b)"
proof (cases "ord_remaining inc = 0")
  case True
  then show ?thesis by (simp add: process_order_def process_order_into_rejects)
next
  case q: False
  let ?t = default_trade_buffer
  show ?thesis
  proof (cases "ord_tif inc = FillOrKill \<and> \<not> book_exact b \<and> executable_quantity b inc < ucast (ord_remaining inc)")
    case True
    then have "process_order b inc = (Inr [], b)"
      using process_order_into_kills [OF q, of b ?t] by (simp add: process_order_def buf.contents_clear)
    then show ?thesis using True q assms by (auto intro!: exI [of _ "Inr ()"])
  next
    case False
    have "\<exists>r b' t'. process_order_into b inc ?t = (r, b', t') \<and> book_wf b' \<and> tb_wf t' \<and>
        spec_process inc (book_abs b) = (r, tb_to_vector t', book_abs b')"
    proof (rule process_order_into_spec_when [OF assms tb_wf_default q])
      assume "ord_tif inc = FillOrKill"
      then show "executable_quantity b inc < ucast (ord_remaining inc) \<longleftrightarrow>
          open_quantity (filter (\<lambda>y. acceptable inc (ord_price y)) (resting (opposite (ord_side inc)) b))
            < unat (ord_remaining inc)"
        using False executable_quantity_correct [OF assms _ q] executable_quantity_bound [OF assms q]
        by (cases "book_exact b") auto
    qed
    then obtain r b' t' where "process_order_into b inc ?t = (r, b', t')" "book_wf b'"
      "spec_process inc (book_abs b) = (r, tb_to_vector t', book_abs b')"
      by blast
    then have "process_order b inc = (case r of Inl e \<Rightarrow> Inl e | Inr _ \<Rightarrow> Inr (tb_to_vector t'), b') \<and> book_wf b' \<and>
        spec_process inc (book_abs b) = (r, tb_to_vector t', book_abs b')"
      by (cases r) (simp_all add: process_order_def)
    then show ?thesis using q by auto
  qed
qed

theorem process_order_refines_witness:
  "\<exists>r ts b'. process_order sample_book (sample_order 3 Buy FillOrKill 100 6) =
      (case r of Inl e \<Rightarrow> Inl e | Inr _ \<Rightarrow> Inr ts, b') \<and> book_wf b' \<and>
    spec_process (sample_order 3 Buy FillOrKill 100 6) (book_abs sample_book) = (r, ts, book_abs b')"
  using process_order_refines [OF sample_book_wf, of "sample_order 3 Buy FillOrKill 100 6"] sample_book_exact by auto

text \<open>
  C13. Order entry returns. A limit or market order with positive quantity whose id is not in the
  book is processed without an exception: the loops end and no check inside the book fires.
\<close>

theorem process_order_returns:
  assumes "book_wf b" "ord_remaining inc \<noteq> 0" "\<not> contains b (ord_id inc)"
  shows "\<exists>ts b'. process_order b inc = (Inr ts, b')"
proof -
  obtain r b' where res: "process_order b inc = (r, b')" by (metis surj_pair)
  from assms(1,2) res show ?thesis
  proof (cases rule: process_order_cases)
    case (run fills n q')
    have "ord_id inc \<notin> ord_id ` (set (resting (ord_side inc) b) \<union> set q')"
      using contains_iff [OF assms(1), of "ord_id inc" "ord_side inc"] assms(3) sweep_ids [OF run(2)]
      by auto
    then show ?thesis using run(4) res by auto
  qed (use res in auto)
qed

theorem process_order_returns_witness:
  "\<exists>ts b'. process_order sample_book (sample_order 3 Buy ImmediateOrCancel 101 20) = (Inr ts, b')"
proof -
  have "\<not> contains sample_book 3" by code_simp
  then show ?thesis by (intro process_order_returns) (simp_all add: sample_book_wf)
qed

text \<open>
  C2. The trades of an order follow price-time priority: they fill the opposite queue from its
  front, in order, each at the resting order's price, which the incoming order accepts; all but
  the last resting order are filled completely.
\<close>

theorem price_time_priority:
  assumes "book_wf b" "ord_remaining inc \<noteq> 0" "process_order b inc = (Inr ts, b')"
  shows "\<exists>fills. ts = map (fill_trade inc) fills \<and>
    map fst fills = take (length fills) (resting (opposite (ord_side inc)) b) \<and>
    (\<forall>f\<in>set fills. acceptable inc (ord_price (fst f)) \<and> 0 < snd f \<and> snd f \<le> ord_remaining (fst f)) \<and>
    (\<forall>f\<in>set (butlast fills). snd f = ord_remaining (fst f))"
  using assms
proof (cases rule: process_order_cases)
  case killed
  then show ?thesis by (intro exI [of _ "[]"]) simp
next
  case (run fills n q')
  have ts: "ts = map (fill_trade inc) fills" using run(4) by (simp split: if_splits)
  have pos: "snd f \<noteq> 0" if "f \<in> set fills" for f
    using sweep_positive [OF run(2) _ that] ladder_order_wf(3) [OF book_wf_ladder [OF assms(1)]]
    by (auto simp: resting_def)
  have "(\<forall>f\<in>set fills. snd f \<le> ord_remaining (fst f)) \<and>
      (\<forall>f\<in>set (butlast fills). snd f = ord_remaining (fst f))"
    using run(2) by (rule sweep_leaves) (auto dest: in_set_butlastD)
  then show ?thesis
    using ts pos sweep_fills_from_front [OF run(2)] sweep_acceptable [OF run(2)]
    by (intro exI [of _ fills]) (auto simp: word_gt_0)
qed

theorem price_time_priority_witness:
  "\<exists>fills. fst (process_order sample_book (sample_order 3 Buy GoodTillCancel 101 9)) =
      Inr (map (fill_trade (sample_order 3 Buy GoodTillCancel 101 9)) fills) \<and>
    map fst fills = [sample_order 2 Sell GoodTillCancel 100 7, sample_order 1 Sell GoodTillCancel 101 5]"
proof -
  let ?inc = "sample_order 3 Buy GoodTillCancel 101 9"
  obtain ts where ts: "fst (process_order sample_book ?inc) = Inr ts" "length ts = 2"
    by (rule that [of "[\<lparr>tr_buy_order_id = 3, tr_sell_order_id = 2, tr_price = 100, tr_quantity = 7,
      tr_timestamp = 3\<rparr>, \<lparr>tr_buy_order_id = 3, tr_sell_order_id = 1, tr_price = 101, tr_quantity = 2,
      tr_timestamp = 3\<rparr>]"]) code_simp+
  then have "process_order sample_book ?inc = (Inr ts, snd (process_order sample_book ?inc))"
    by (metis prod.collapse)
  from price_time_priority [OF sample_book_wf _ this] obtain fills
    where "ts = map (fill_trade ?inc) fills" "map fst fills = take (length fills) (resting Sell sample_book)"
    by auto
  then show ?thesis using ts sample_book_resting(1) by (intro exI [of _ fills]) auto
qed

text \<open>
  C8. Quantity is conserved: what the trades report is what the opposite side lost, and for an
  order that may rest it is also what the incoming order does not bring to the book; an order that
  may not rest leaves its own side unchanged and trades at most its quantity.
\<close>

theorem quantity_conserved:
  assumes "book_wf b" "ord_remaining inc \<noteq> 0" "process_order b inc = (Inr ts, b')"
  shows "traded_quantity ts + open_quantity (resting (opposite (ord_side inc)) b') =
      open_quantity (resting (opposite (ord_side inc)) b) \<and>
    (if may_rest inc then
       traded_quantity ts + open_quantity (resting (ord_side inc) b') =
         unat (ord_remaining inc) + open_quantity (resting (ord_side inc) b)
     else resting (ord_side inc) b' = resting (ord_side inc) b \<and>
       traded_quantity ts \<le> unat (ord_remaining inc))"
  using assms
proof (cases rule: process_order_cases)
  case killed
  then show ?thesis by (simp add: may_rest_def)
next
  case (run fills n q')
  have ts: "ts = map (fill_trade inc) fills" using run(4) by (simp split: if_splits)
  show ?thesis
    using sweep_conserves_queue [OF run(2)] sweep_conserves_incoming [OF run(2)] run(4-6) ts
    by (auto split: if_splits)
qed

theorem quantity_conserved_witness:
  "\<exists>ts b'. process_order sample_book (sample_order 3 Buy GoodTillCancel 100 9) = (Inr ts, b') \<and>
    traded_quantity ts + open_quantity (resting Sell b') = 12 \<and>
    traded_quantity ts + open_quantity (resting Buy b') = 9"
proof -
  let ?inc = "sample_order 3 Buy GoodTillCancel 100 9"
  have "isl (fst (process_order sample_book ?inc)) = False" by code_simp
  then obtain ts b' where res: "process_order sample_book ?inc = (Inr ts, b')"
    by (metis isl_def obj_sumE prod.collapse)
  from quantity_conserved [OF sample_book_wf _ this] show ?thesis
    using res by (auto simp: sample_book_resting may_rest_def)
qed

text \<open>
  C10. Fill-or-kill is all or nothing. On every well-formed book a fill-or-kill order with positive quantity returns; it never
  rests. Either it trades its full quantity, and then at least that much rested at acceptable prices; or nothing
  trades and the book is unchanged, and then less rested, or the 32-bit total of a price level has wrapped.
  So while no total has wrapped it is filled exactly when enough rests.
\<close>

theorem fill_or_kill:
  assumes "book_wf b" "ord_remaining inc \<noteq> 0" "ord_tif inc = FillOrKill" "process_order b inc = (r, b')"
  defines "enough \<equiv> unat (ord_remaining inc) \<le>
    open_quantity (filter (\<lambda>y. acceptable inc (ord_price y)) (resting (opposite (ord_side inc)) b))"
  shows "\<exists>ts. r = Inr ts \<and> resting (ord_side inc) b' = resting (ord_side inc) b \<and>
    (traded_quantity ts = unat (ord_remaining inc) \<and> enough \<or>
     ts = [] \<and> b' = b \<and> (enough \<longrightarrow> \<not> book_exact b))"
  using assms(1,2,4)
proof (cases rule: process_order_cases)
  case killed
  then show ?thesis using executable_quantity_correct [OF assms(1) _ assms(2)] by (auto simp: enough_def)
next
  case (run fills n q')
  then have enough using executable_quantity_bound [OF assms(1,2)] assms(3) by (simp add: enough_def)
  moreover have "n = 0"
    using sweep_enough_liquidity [OF run(2) resting_sorted [OF assms(1)]] calculation by (simp add: enough_def)
  ultimately show ?thesis
    using run sweep_conserves_incoming [OF run(2)] assms(3) by (auto simp: may_rest_def)
qed

theorem fill_or_kill_witness:
  "\<exists>ts b'. process_order sample_book (sample_order 3 Buy FillOrKill 101 12) = (Inr ts, b') \<and>
    traded_quantity ts = 12 \<and> resting Buy b' = []"
proof -
  let ?inc = "sample_order 3 Buy FillOrKill 101 12"
  obtain r b' where res: "process_order sample_book ?inc = (r, b')" by (metis surj_pair)
  have "acceptable ?inc 100" "acceptable ?inc 101" by (simp_all add: acceptable_def)
  with fill_or_kill [OF sample_book_wf _ _ res] sample_book_exact show ?thesis
    using res by (auto simp: sample_book_resting)
qed

text \<open>
  Orders that may not rest never rest: after a market order, an immediate-or-cancel order or a
  fill-or-kill order the own side of the book is what it was, and the order's id is in the book
  only if it was there before.
\<close>

theorem non_resting_orders_never_rest:
  assumes "book_wf b" "ord_type inc = Market \<or> ord_tif inc \<noteq> GoodTillCancel"
    and "process_order b inc = (r, b')"
  shows "resting (ord_side inc) b' = resting (ord_side inc) b \<and>
    (contains b' (ord_id inc) \<longrightarrow> contains b (ord_id inc))"
proof (cases "ord_remaining inc = 0")
  case True
  then show ?thesis using assms(3) by (simp add: process_order_def process_order_into_rejects)
next
  case False
  from assms(1) False assms(3) show ?thesis
  proof (cases rule: process_order_cases)
    case (run fills n q')
    then have own: "resting (ord_side inc) b' = resting (ord_side inc) b"
      using assms(2) by (auto simp: may_rest_def)
    then show ?thesis
      using run sweep_ids [OF run(2)] contains_iff [OF assms(1), of _ "ord_side inc"]
        contains_iff [OF run(3), of _ "ord_side inc"] by auto
  qed simp
qed

theorem non_resting_orders_never_rest_witness:
  "resting Buy (snd (process_order sample_book (sample_order 3 Buy ImmediateOrCancel 101 50))) = []"
  using non_resting_orders_never_rest [OF sample_book_wf, of "sample_order 3 Buy ImmediateOrCancel 101 50"]
  by (metis TimeInForce.distinct(1) prod.collapse sample_book_resting(2) sample_order_simps(2,4))

section \<open>Properties of cancellation and replacement\<close>

lemma queue_remove_both_sides:
  assumes "book_wf b" "x \<in> set (resting s b)" "ord_id x = i"
    and "resting s b' = queue_remove i (resting s b)"
    and "resting (opposite s) b' = resting (opposite s) b"
  shows "resting s' b' = queue_remove i (resting s' b)"
proof -
  have "i \<notin> ord_id ` set (resting (opposite s) b)"
    using resting_distinct [OF assms(1), of s] assms(2,3) by auto
  then have "resting (opposite s) b' = queue_remove i (resting (opposite s) b)"
    using assms(5) by (simp add: queue_remove_absent)
  then show ?thesis using assms(4) by (cases s; cases s') auto
qed

lemma resting_side:
  assumes "book_wf b" "x \<in> set (resting s b)"
  shows "ord_side x = s"
  using ladder_order_wf(1) [OF book_wf_ladder [OF assms(1)]] assms(2) by (auto simp: resting_def)

text \<open>
  Whether the 32-bit total of an order's price level has wrapped below the order: then the order cannot be taken off
  its level. It cannot happen while the totals are exact.
\<close>

definition wrapped_below :: "OrderBook \<Rightarrow> Order \<Rightarrow> bool" where
  "wrapped_below b x \<longleftrightarrow> level_sum (ord_side x) (ord_price x) b < ord_remaining x"

lemma wrapped_below_exact: "book_wf b \<Longrightarrow> book_exact b \<Longrightarrow> find_order b i = Some x \<Longrightarrow> \<not> wrapped_below b x"
  using exact_level_sum [of b x "ord_side x"] find_order_iff [of b i x] resting_side [of b x Buy] resting_side [of b x Sell]
  by (auto simp: wrapped_below_def not_less)

lemma extract_order_exactly:
  assumes wf: "book_wf b"
  obtains (absent) "find_order b i = None" "extract_order i b = (Inr None, b)"
  | (wrapped) x where "find_order b i = Some x" "wrapped_below b x"
      "extract_order i b = (Inl (Logic_Error ''Price level quantity is inconsistent''), b)"
  | (removed) x b' where "find_order b i = Some x" "\<not> wrapped_below b x" "extract_order i b = (Inr (Some x), b')"
      "book_wf b'" "\<And>s. resting s b' = queue_remove i (resting s b)" "find_order b' i = None"
proof -
  obtain r b' where res: "extract_order i b = (r, b')" by (metis surj_pair)
  from wf this show thesis
  proof (cases rule: extract_order_cases)
    case absent
    then show thesis using that(1) res find_order_None_iff [OF wf] by simp
  next
    case (removed x s)
    have x: "find_order b i = Some x" "ord_side x = s"
      using removed find_order_resting [OF wf] resting_side [OF wf] by auto
    moreover have "\<not> wrapped_below b x"
      using extract_order_throws [OF wf removed(2)] removed(1,3) res x(2) by (auto simp: wrapped_below_def)
    moreover have "resting s' b' = queue_remove i (resting s' b)" for s'
      using queue_remove_both_sides [OF wf removed(2,3,5,6)] .
    ultimately show thesis
      using that(3) [of x b'] res removed find_order_None_iff [OF removed(4), of i] by simp
  next
    case (inconsistent x s)
    then show thesis
      using that(2) [of x] res find_order_resting [OF wf inconsistent(3)] resting_side [OF wf inconsistent(3)]
      by (simp add: wrapped_below_def)
  qed
qed

text \<open>
  C11. Cancelling, on every well-formed book: an unknown id is reported as such and changes nothing. An order whose price
  level has a 32-bit total that wrapped below the order's own quantity makes the call throw, with the book unchanged.
  Every other order, so every order while no total has wrapped, is removed: exactly this order leaves its queue,
  everything else keeps its place, and the id is free afterwards.
\<close>

theorem cancel_order_correct:
  assumes "book_wf b"
  shows "case find_order b i of
      None \<Rightarrow> engine_cancel_order b i = (Inr False, b)
    | Some x \<Rightarrow>
        if wrapped_below b x
        then \<not> book_exact b \<and>
          engine_cancel_order b i = (Inl (Logic_Error ''Price level quantity is inconsistent''), b)
        else \<exists>b'. engine_cancel_order b i = (Inr True, b') \<and> book_wf b' \<and>
          (\<forall>s. resting s b' = queue_remove i (resting s b)) \<and> find_order b' i = None"
  by (cases rule: extract_order_exactly [OF assms, of i])
    (use wrapped_below_exact [OF assms] in \<open>auto simp: engine_cancel_order_def book_cancel_order_def\<close>)

theorem cancel_order_correct_witness:
  "\<exists>b'. engine_cancel_order sample_book 2 = (Inr True, b') \<and>
    resting Sell b' = [sample_order 1 Sell GoodTillCancel 101 5]"
proof -
  have "find_order sample_book 2 = Some (sample_order 2 Sell GoodTillCancel 100 7)" by code_simp
  with cancel_order_correct [OF sample_book_wf, of 2] show ?thesis
    by (auto simp: sample_book_resting queue_remove_def sample_book_exact split: if_splits)
qed

lemma process_order_into_fresh:
  assumes wf: "book_wf b" and t: "tb_wf t" and q: "ord_remaining inc \<noteq> 0"
    and fresh: "\<not> contains b (ord_id inc)" and gtc: "ord_tif inc \<noteq> FillOrKill"
  shows "\<exists>b' t'. process_order_into b inc t = (Inr (), b', t') \<and> book_wf b' \<and>
    spec_process inc (book_abs b) = (Inr (), tb_to_vector t', book_abs b')"
proof -
  obtain r b' t' where res: "process_order_into b inc t = (r, b', t')" "book_wf b'"
    "spec_process inc (book_abs b) = (r, tb_to_vector t', book_abs b')"
    using process_order_into_spec [OF wf t q] gtc by blast
  obtain fills n q' where sweep: "queue_sweep inc (resting (opposite (ord_side inc)) b) = (fills, n, q')"
    by (metis prod_cases3)
  have "ord_id inc \<notin> ord_id ` (set (resting (ord_side inc) b) \<union> set q')"
    using contains_iff [OF wf, of "ord_id inc" "ord_side inc"] fresh sweep_ids [OF sweep] by auto
  then have "r = Inr ()"
    using process_order_into_runs [OF wf t q _ refl sweep] res(1) gtc by auto
  then show ?thesis using res by blast
qed

text \<open>
  C12. Replacing an order of a reachable book. A zero quantity throws, an unknown id is reported, and both change nothing; an
  order whose level total has wrapped below its quantity makes the call throw with the book unchanged. Every other
  order is cancelled and entered again under the same id with the new price, quantity and time stamp, as the
  specification enters it: it may trade at once, and what is left queues behind every order at its new price, so it loses time priority.
\<close>

theorem replace_order_correct:
  assumes "reachable_book b"
  shows "if q = 0 then replace_order b i p q time = (Inl (Invalid_Argument ''Replacement quantity must be positive''), b)
    else case find_order b i of
      None \<Rightarrow> replace_order b i p q time = (Inr \<lparr>replaced = False, replace_trades = []\<rparr>, b)
    | Some x \<Rightarrow>
        if wrapped_below b x
        then \<not> book_exact b \<and>
          replace_order b i p q time = (Inl (Logic_Error ''Price level quantity is inconsistent''), b)
        else \<exists>ts b'. replace_order b i p q time = (Inr \<lparr>replaced = True, replace_trades = ts\<rparr>, b') \<and>
          book_wf b' \<and>
          spec_process (x\<lparr>ord_price := p, ord_initial := q, ord_remaining := q, ord_timestamp := time\<rparr>)
            (\<lambda>s. queue_remove i (book_abs b s)) = (Inr (), ts, book_abs b')"
proof (cases "q = 0")
  case True
  then show ?thesis by (simp add: replace_order_def replace_order_into_def)
next
  case q: False
  have wf: "book_wf b" and gtc: "book_gtc b"
    using reachable_engine_inv [OF assms] by (auto simp: engine_inv_def)
  have t: "tb_wf (tb_clear default_trade_buffer)" by (rule buf.inv_clear) simp
  from wf show ?thesis
  proof (cases rule: extract_order_exactly [where i = i])
    case absent
    then show ?thesis using q by (simp add: replace_order_def replace_order_into_def Let_def buf.contents_clear)
  next
    case (wrapped x)
    then show ?thesis
      using q wrapped_below_exact [OF wf] by (auto simp: replace_order_def replace_order_into_def Let_def)
  next
    case (removed x b1)
    let ?x = "x\<lparr>ord_price := p, ord_initial := q, ord_remaining := q, ord_timestamp := time\<rparr>"
    have x: "ord_id x = i" "ord_tif x = GoodTillCancel"
      using find_order_iff [OF wf, of i x] removed(1) gtc by (auto simp: book_gtc_def)
    have "\<not> contains b1 i" using find_order_None_iff [OF removed(4)] removed(6) by simp
    then obtain b' t' where "process_order_into b1 ?x (tb_clear default_trade_buffer) = (Inr (), b', t')"
      "book_wf b'" "spec_process ?x (book_abs b1) = (Inr (), tb_to_vector t', book_abs b')"
      using process_order_into_fresh [OF removed(4) t, of ?x] q x by auto
    moreover have "book_abs b1 = (\<lambda>s. queue_remove i (book_abs b s))"
      using removed(5) by (simp add: fun_eq_iff book_abs_def)
    ultimately show ?thesis
      using removed(1,2,3) q by (simp add: replace_order_def replace_order_into_def Let_def)
  qed
qed

theorem replace_order_correct_witness:
  "\<exists>ts b'. replace_order sample_book 2 101 4 9 = (Inr \<lparr>replaced = True, replace_trades = ts\<rparr>, b') \<and>
    map ord_id (resting Sell b') = [1, 2]"
proof -
  have find: "find_order sample_book 2 = Some (sample_order 2 Sell GoodTillCancel 100 7)" by code_simp
  obtain ts b' where res: "replace_order sample_book 2 101 4 9 =
      (Inr \<lparr>replaced = True, replace_trades = ts\<rparr>, b')"
    using replace_order_correct [OF sample_book_reachable, of 4 2 101 9] find sample_book_exact
    by (auto split: if_splits)
  have "map ord_id (resting Sell (snd (replace_order sample_book 2 101 4 9))) = [1, 2]" by code_simp
  then show ?thesis using res by auto
qed

section \<open>The index, the best prices and the reachable books\<close>

text \<open>
  C9. Every book the engine can produce is well-formed (sorted ladders without empty levels,
  counters equal to the sum of their orders modulo \<open>2 ^ 32\<close>, an index that points at every order),
  is not crossed, and holds only limit orders with good-till-cancel. This includes the books left
  behind by calls that throw.
\<close>

theorem reachable_books_sound:
  assumes "reachable_book b"
  shows "book_wf b \<and> book_uncrossed b \<and> book_gtc b"
  using reachable_engine_inv [OF assms] by (simp add: engine_inv_def)

theorem reachable_books_sound_witness:
  "book_wf sample_book \<and> book_uncrossed sample_book \<and> book_gtc sample_book"
  using reachable_books_sound [OF sample_book_reachable] .

text \<open>
  In every reachable book with both sides the best bid is below the best ask, as
  \<^verbatim>\<open>best_bid()\<close> and \<^verbatim>\<open>best_ask()\<close> report them.
\<close>

theorem best_bid_below_best_ask:
  assumes "reachable_book b" "best_bid b = Inr p" "best_ask b = Inr p'"
  shows "p < p'"
  using reachable_engine_inv [OF assms(1)] assms(2,3)
  by (auto simp: engine_inv_def best_bid_resting best_ask_resting book_uncrossed_def
      split: list.splits)

theorem best_bid_below_best_ask_witness:
  "best_bid (snd (process_order sample_book (sample_order 3 Buy GoodTillCancel 99 4))) = Inr 99 \<and>
   best_ask (snd (process_order sample_book (sample_order 3 Buy GoodTillCancel 99 4))) = Inr 100 \<and>
   (99 :: Price) < 100"
proof -
  let ?b = "snd (process_order sample_book (sample_order 3 Buy GoodTillCancel 99 4))"
  have "reachable_book ?b" using sample_book_reachable reach_process by (metis prod.collapse)
  moreover have "best_bid ?b = Inr 99" "best_ask ?b = Inr 100" by code_simp+
  ultimately show ?thesis using best_bid_below_best_ask by blast
qed

text \<open>
  The index agrees with the queues: \<^verbatim>\<open>find_order\<close> returns an order exactly when an
  order with that id rests on one of the sides, and then returns it in its current state;
  \<^verbatim>\<open>order_count\<close> is the number of resting orders.
\<close>

theorem find_order_correct:
  assumes "reachable_book b"
  shows "(find_order b i = Some x \<longleftrightarrow> ord_id x = i \<and> x \<in> set (resting Buy b) \<union> set (resting Sell b)) \<and>
    (find_order b i = None \<longleftrightarrow> \<not> contains b i) \<and>
    order_count b = length (resting Buy b) + length (resting Sell b)"
proof -
  have "book_wf b" using reachable_engine_inv [OF assms] by (simp add: engine_inv_def)
  then show ?thesis by (simp add: find_order_iff find_order_None_iff order_count_eq)
qed

theorem find_order_correct_witness:
  "order_count sample_book = 2 \<and>
   find_order sample_book 1 = Some (sample_order 1 Sell GoodTillCancel 101 5)"
  using find_order_correct [OF sample_book_reachable, of 1 "sample_order 1 Sell GoodTillCancel 101 5"]
  by (simp add: sample_book_resting)

section \<open>The level counter\<close>

text \<open>
  The 32-bit counter of a level can wrap, and then cancelling and replacing fail: if the sum
  of the level's orders modulo \<open>2 ^ 32\<close> is below the order's own quantity, both throw
  \<^verbatim>\<open>std::logic_error\<close> and the order stays in the book.
\<close>

theorem wrapped_level_blocks_cancel:
  assumes "reachable_book b" "find_order b i = Some x"
    and "level_sum (ord_side x) (ord_price x) b < ord_remaining x"
  shows "engine_cancel_order b i = (Inl (Logic_Error ''Price level quantity is inconsistent''), b) \<and>
    replace_order b i p 1 time = (Inl (Logic_Error ''Price level quantity is inconsistent''), b)"
proof -
  have wf: "book_wf b" using reachable_engine_inv [OF assms(1)] by (simp add: engine_inv_def)
  obtain s where x: "x \<in> set (resting s b)" "ord_id x = i"
    using find_order_iff [OF wf, of i x] assms(2) by blast
  then have "ord_side x = s" using ladder_order_wf(1) [OF book_wf_ladder [OF wf]] by (auto simp: resting_def)
  then have "extract_order i b = (Inl (Logic_Error ''Price level quantity is inconsistent''), b)"
    using extract_order_throws [OF wf x(1)] x(2) assms(3) by simp
  then show ?thesis
    by (simp add: engine_cancel_order_def book_cancel_order_def replace_order_def
        replace_order_into_def Let_def)
qed

definition wrapped_book :: OrderBook where
  "wrapped_book =
     snd (process_order (snd (process_order new_book (sample_order 1 Sell GoodTillCancel 100 2147483648)))
       (sample_order 2 Sell GoodTillCancel 100 2147483648))"

lemma wrapped_book_reachable: "reachable_book wrapped_book"
  unfolding wrapped_book_def by (metis reach_new reach_process prod.collapse)

theorem wrapped_level_blocks_cancel_witness:
  "engine_cancel_order wrapped_book 1 =
    (Inl (Logic_Error ''Price level quantity is inconsistent''), wrapped_book)"
proof -
  have "find_order wrapped_book 1 = Some (sample_order 1 Sell GoodTillCancel 100 2147483648)"
    by code_simp
  moreover have "level_sum Sell 100 wrapped_book < 2147483648" by code_simp
  ultimately show ?thesis
    using wrapped_level_blocks_cancel [OF wrapped_book_reachable, of 1] by auto
qed

text \<open>
  A wrapped counter also misleads the fill-or-kill check: two resting sell orders of
  \<open>2 ^ 31\<close> at one price wrap its counter to zero, and a fill-or-kill order to buy ten at that price
  is killed although the matchable quantity is \<open>2 ^ 32\<close>.
\<close>

theorem wrapped_level_kills_fill_or_kill:
  "reachable_book wrapped_book \<and>
   fst (process_order wrapped_book (sample_order 3 Buy FillOrKill 100 10)) = Inr [] \<and>
   open_quantity (filter (\<lambda>y. acceptable (sample_order 3 Buy FillOrKill 100 10) (ord_price y))
     (resting Sell wrapped_book)) = 2 ^ 32"
proof -
  have "fst (process_order wrapped_book (sample_order 3 Buy FillOrKill 100 10)) = Inr []" by code_simp
  moreover have "resting Sell wrapped_book = [sample_order 1 Sell GoodTillCancel 100 2147483648,
      sample_order 2 Sell GoodTillCancel 100 2147483648]" by code_simp
  ultimately show ?thesis by (simp add: wrapped_book_reachable acceptable_def)
qed


end
