(* ===== verification/Risk_Engine.thy ===== *)
theory Risk_Engine
  imports Order_Types
begin

text \<open>
  The pre-trade risk engine: \<^verbatim>\<open>include/exchange/risk_engine.hpp\<close> and \<^verbatim>\<open>src/risk_engine.cpp\<close>.

  The hash maps are partial maps; the key hash has no influence on their contents and is not
  modelled. Open quantities and the order count are 64-bit words with the clamping and saturating
  arithmetic of the code, positions are \<open>int\<close>. A reference into a map (\<^verbatim>\<open>client_for(id)\<close>,
  \<^verbatim>\<open>symbols.try_emplace(...)\<close>) that is written through is an update of that map.
\<close>

section \<open>Data\<close>

type_synonym RiskClientId = u64

definition invalid_risk_client_id :: RiskClientId where
  "invalid_risk_client_id = 0"

datatype RiskRejectReason =
    RR_None | GlobalKillSwitch | ClientKillSwitch | MaxOrderQuantity | MaxOrderNotional
  | MaxOpenOrders | MaxOpenQuantity | MaxPosition | UnknownWorkingOrder

fun reason_to_string :: "RiskRejectReason \<Rightarrow> string" where
  "reason_to_string RR_None = ''none''"
| "reason_to_string GlobalKillSwitch = ''global kill switch''"
| "reason_to_string ClientKillSwitch = ''client kill switch''"
| "reason_to_string MaxOrderQuantity = ''max order quantity''"
| "reason_to_string MaxOrderNotional = ''max order notional''"
| "reason_to_string MaxOpenOrders = ''max open orders''"
| "reason_to_string MaxOpenQuantity = ''max open quantity''"
| "reason_to_string MaxPosition = ''max position''"
| "reason_to_string UnknownWorkingOrder = ''unknown working order''"

record RiskLimits =
  max_order_quantity :: Quantity
  max_order_notional :: u64
  max_open_orders :: u64
  max_open_quantity :: u64
  max_position_per_symbol :: u64

definition default_limits :: RiskLimits where
  "default_limits = \<lparr>max_order_quantity = 100000, max_order_notional = 10000000000,
     max_open_orders = 10000, max_open_quantity = 1000000, max_position_per_symbol = 1000000\<rparr>"

record RiskOrderRequest =
  rq_client_id :: RiskClientId
  rq_symbol :: string
  rq_order_id :: OrderId
  rq_side :: Side
  rq_order_type :: OrderType
  rq_time_in_force :: TimeInForce
  rq_price :: Price
  rq_quantity :: Quantity
  rq_reference_price :: "Price option"

record RiskDecision =
  accepted :: bool
  reason :: RiskRejectReason

record ClientRiskSnapshot =
  snap_global_kill_switch :: bool
  snap_client_kill_switch :: bool
  snap_position :: int
  snap_open_buy_quantity :: u64
  snap_open_sell_quantity :: u64
  snap_open_orders :: u64
  snap_gross_open_quantity :: u64

record SymbolState =
  ss_position :: int
  ss_open_buy_quantity :: u64
  ss_open_sell_quantity :: u64

record ClientState =
  cs_kill_switch :: bool
  cs_open_orders :: u64
  cs_gross_open_quantity :: u64
  cs_symbols :: "string \<rightharpoonup> SymbolState"

record WorkingOrderKey =
  wk_client_id :: RiskClientId
  wk_symbol :: string
  wk_order_id :: OrderId

record WorkingOrder =
  wo_side :: Side
  wo_price :: Price
  wo_remaining_quantity :: Quantity

record RiskEngine =
  re_limits :: RiskLimits
  re_global_kill_switch :: bool
  re_clients :: "RiskClientId \<rightharpoonup> ClientState"
  re_working_orders :: "WorkingOrderKey \<rightharpoonup> WorkingOrder"

definition new_risk_engine :: "RiskLimits \<Rightarrow> RiskEngine" where
  "new_risk_engine limits =
     \<lparr>re_limits = limits, re_global_kill_switch = False, re_clients = Map.empty, re_working_orders = Map.empty\<rparr>"

definition new_symbol_state :: SymbolState where
  "new_symbol_state = \<lparr>ss_position = 0, ss_open_buy_quantity = 0, ss_open_sell_quantity = 0\<rparr>"

definition new_client_state :: ClientState where
  "new_client_state =
     \<lparr>cs_kill_switch = False, cs_open_orders = 0, cs_gross_open_quantity = 0, cs_symbols = Map.empty\<rparr>"

definition accept :: RiskDecision where
  "accept = \<lparr>accepted = True, reason = RR_None\<rparr>"

definition reject :: "RiskRejectReason \<Rightarrow> RiskDecision" where
  "reject r = \<lparr>accepted = False, reason = r\<rparr>"

section \<open>Arithmetic\<close>

definition saturating_add :: "u64 \<Rightarrow> u64 \<Rightarrow> u64" where
  "saturating_add left right = (if right > - 1 - left then - 1 else left + right)"

text \<open>The pattern \<^verbatim>\<open>x >= y ? x - y : 0\<close> of the open-quantity updates.\<close>

definition clamped_sub :: "u64 \<Rightarrow> u64 \<Rightarrow> u64" where
  "clamped_sub x y = (if x \<ge> y then x - y else 0)"

definition absolute_position :: "int \<Rightarrow> u64" where
  "absolute_position v =
     (if v \<ge> 0 then word_of_int v
      else if v = int64_min then push_bit 63 1
      else word_of_int (- v))"

definition absolute_price :: "Price \<Rightarrow> u64" where
  "absolute_price v =
     (if v \<ge> 0 then word_of_int v
      else if v = int64_min then push_bit 63 1
      else word_of_int (- v))"

definition risk_may_rest :: "OrderType \<Rightarrow> TimeInForce \<Rightarrow> bool" where
  "risk_may_rest order_type time_in_force \<longleftrightarrow> order_type = Limit \<and> time_in_force = GoodTillCancel"

definition apply_position_delta :: "Side \<Rightarrow> Quantity \<Rightarrow> SymbolState \<Rightarrow> SymbolState" where
  "apply_position_delta side quantity state =
     (let quantity64 = uint quantity in
      if side = Buy then
        state\<lparr>ss_position := if ss_position state > int64_max - quantity64 then int64_max
                            else ss_position state + quantity64\<rparr>
      else
        state\<lparr>ss_position := if ss_position state < int64_min + quantity64 then int64_min
                            else ss_position state - quantity64\<rparr>)"

section \<open>Lookups\<close>

definition find_client :: "RiskEngine \<Rightarrow> RiskClientId \<Rightarrow> ClientState option" where
  "find_client re c = re_clients re c"

definition client_for :: "RiskEngine \<Rightarrow> RiskClientId \<Rightarrow> ClientState" where
  "client_for re c = (case re_clients re c of None \<Rightarrow> new_client_state | Some client \<Rightarrow> client)"

definition set_client :: "RiskClientId \<Rightarrow> ClientState \<Rightarrow> RiskEngine \<Rightarrow> RiskEngine" where
  "set_client c client re = re\<lparr>re_clients := (re_clients re)(c \<mapsto> client)\<rparr>"

definition find_symbol_state :: "ClientState \<Rightarrow> string \<Rightarrow> SymbolState option" where
  "find_symbol_state client symb = cs_symbols client symb"

definition symbol_for :: "ClientState \<Rightarrow> string \<Rightarrow> SymbolState" where
  "symbol_for client symb = (case cs_symbols client symb of None \<Rightarrow> new_symbol_state | Some s \<Rightarrow> s)"

definition set_symbol :: "string \<Rightarrow> SymbolState \<Rightarrow> ClientState \<Rightarrow> ClientState" where
  "set_symbol symb s client = client\<lparr>cs_symbols := (cs_symbols client)(symb \<mapsto> s)\<rparr>"

definition reduce_open :: "Side \<Rightarrow> Quantity \<Rightarrow> SymbolState \<Rightarrow> SymbolState" where
  "reduce_open side q state =
     (if side = Buy then state\<lparr>ss_open_buy_quantity := clamped_sub (ss_open_buy_quantity state) (ucast q)\<rparr>
      else state\<lparr>ss_open_sell_quantity := clamped_sub (ss_open_sell_quantity state) (ucast q)\<rparr>)"

definition increase_open :: "Side \<Rightarrow> Quantity \<Rightarrow> SymbolState \<Rightarrow> SymbolState" where
  "increase_open side q state =
     (if side = Buy then state\<lparr>ss_open_buy_quantity := saturating_add (ss_open_buy_quantity state) (ucast q)\<rparr>
      else state\<lparr>ss_open_sell_quantity := saturating_add (ss_open_sell_quantity state) (ucast q)\<rparr>)"

text \<open>The pattern \<^verbatim>\<open>if (client.open_orders > 0) --client.open_orders;\<close>.\<close>

definition decrement_open_orders :: "ClientState \<Rightarrow> ClientState" where
  "decrement_open_orders client =
     (if cs_open_orders client > 0 then client\<lparr>cs_open_orders := cs_open_orders client - 1\<rparr> else client)"

section \<open>Checks\<close>

definition check_common_order_limits ::
    "RiskEngine \<Rightarrow> Price \<Rightarrow> Quantity \<Rightarrow> Price option \<Rightarrow> RiskDecision" where
  "check_common_order_limits re price quantity reference_price =
     (if quantity > max_order_quantity (re_limits re) then reject MaxOrderQuantity
      else
        let notional_price = (case reference_price of None \<Rightarrow> price | Some p \<Rightarrow> p);
            price_magnitude = absolute_price notional_price
        in if price_magnitude \<noteq> 0 \<and>
              ucast quantity > max_order_notional (re_limits re) div price_magnitude
           then reject MaxOrderNotional else accept)"

definition projected_long :: "int \<Rightarrow> u64 \<Rightarrow> u64" where
  "projected_long position buy_exposure =
     (if position \<ge> 0 then saturating_add (word_of_int position) buy_exposure
      else let short_position = absolute_position position in
        if buy_exposure > short_position then buy_exposure - short_position else 0)"

definition projected_short :: "int \<Rightarrow> u64 \<Rightarrow> u64" where
  "projected_short position sell_exposure =
     (if position \<le> 0 then saturating_add (absolute_position position) sell_exposure
      else let long_position = word_of_int position in
        if sell_exposure > long_position then sell_exposure - long_position else 0)"

definition position_limit_exceeded ::
    "RiskEngine \<Rightarrow> SymbolState option \<Rightarrow> Side \<Rightarrow> Quantity \<Rightarrow> u64 \<Rightarrow> u64 \<Rightarrow> bool" where
  "position_limit_exceeded re symbol_state side additional_quantity open_buy_quantity open_sell_quantity =
     (let position = (case symbol_state of None \<Rightarrow> 0 | Some s \<Rightarrow> ss_position s) in
      if side = Buy then
        let buy_exposure = saturating_add open_buy_quantity (ucast additional_quantity)
        in projected_long position buy_exposure > max_position_per_symbol (re_limits re)
      else
        let sell_exposure = saturating_add open_sell_quantity (ucast additional_quantity)
        in projected_short position sell_exposure > max_position_per_symbol (re_limits re))"

definition check_new_order :: "RiskEngine \<Rightarrow> RiskOrderRequest \<Rightarrow> RiskDecision" where
  "check_new_order re request =
     (if re_global_kill_switch re then reject GlobalKillSwitch
      else
        let client = find_client re (rq_client_id request) in
        if client \<noteq> None \<and> cs_kill_switch (the client) then reject ClientKillSwitch
        else
          let common = check_common_order_limits re (rq_price request) (rq_quantity request)
                (rq_reference_price request) in
          if \<not> accepted common then common
          else
            let symbol_state = (case client of None \<Rightarrow> None
                  | Some cl \<Rightarrow> find_symbol_state cl (rq_symbol request));
                current_open_buy = (case symbol_state of None \<Rightarrow> 0 | Some s \<Rightarrow> ss_open_buy_quantity s);
                current_open_sell = (case symbol_state of None \<Rightarrow> 0 | Some s \<Rightarrow> ss_open_sell_quantity s)
            in
            if position_limit_exceeded re symbol_state (rq_side request) (rq_quantity request)
                 current_open_buy current_open_sell
            then reject MaxPosition
            else if risk_may_rest (rq_order_type request) (rq_time_in_force request) then
              let open_orders = (case client of None \<Rightarrow> 0 | Some cl \<Rightarrow> cs_open_orders cl) in
              if open_orders \<ge> max_open_orders (re_limits re) then reject MaxOpenOrders
              else
                let gross = (case client of None \<Rightarrow> 0 | Some cl \<Rightarrow> cs_gross_open_quantity cl) in
                if saturating_add gross (ucast (rq_quantity request)) > max_open_quantity (re_limits re)
                then reject MaxOpenQuantity else accept
            else accept)"

definition check_replace ::
    "RiskEngine \<Rightarrow> RiskClientId \<Rightarrow> string \<Rightarrow> OrderId \<Rightarrow> Price \<Rightarrow> Quantity \<Rightarrow> RiskDecision" where
  "check_replace re client_id symb order_id new_price new_quantity =
     (if re_global_kill_switch re then reject GlobalKillSwitch
      else
        let client = find_client re client_id in
        if client \<noteq> None \<and> cs_kill_switch (the client) then reject ClientKillSwitch
        else
          case re_working_orders re
              \<lparr>wk_client_id = client_id, wk_symbol = symb, wk_order_id = order_id\<rparr> of
            None \<Rightarrow> reject UnknownWorkingOrder
          | Some existing \<Rightarrow>
              let common = check_common_order_limits re new_price new_quantity None in
              if \<not> accepted common then common
              else case client of
                None \<Rightarrow> reject UnknownWorkingOrder
              | Some cl \<Rightarrow>
                  if cs_open_orders cl > max_open_orders (re_limits re) then reject MaxOpenOrders
                  else
                    let old = ucast (wo_remaining_quantity existing);
                        projected_gross = clamped_sub (cs_gross_open_quantity cl) old;
                        projected_gross = saturating_add projected_gross (ucast new_quantity)
                    in
                    if projected_gross > max_open_quantity (re_limits re) then reject MaxOpenQuantity
                    else case find_symbol_state cl symb of
                      None \<Rightarrow> reject UnknownWorkingOrder
                    | Some s \<Rightarrow>
                        let adjusted_open_buy = (if wo_side existing = Buy
                              then clamped_sub (ss_open_buy_quantity s) old else ss_open_buy_quantity s);
                            adjusted_open_sell = (if wo_side existing = Buy
                              then ss_open_sell_quantity s else clamped_sub (ss_open_sell_quantity s) old)
                        in
                        if position_limit_exceeded re (Some s) (wo_side existing) new_quantity
                             adjusted_open_buy adjusted_open_sell
                        then reject MaxPosition else accept)"

section \<open>Updates\<close>

definition erase_working_order :: "WorkingOrderKey \<Rightarrow> RiskEngine \<Rightarrow> RiskEngine" where
  "erase_working_order key re =
     (case re_working_orders re key of
        None \<Rightarrow> re
      | Some order \<Rightarrow>
          let q = wo_remaining_quantity order;
              re = (case re_clients re (wk_client_id key) of
                  None \<Rightarrow> re
                | Some client \<Rightarrow>
                    let client = decrement_open_orders client;
                        client = client\<lparr>cs_gross_open_quantity :=
                            clamped_sub (cs_gross_open_quantity client) (ucast q)\<rparr>;
                        client = (case cs_symbols client (wk_symbol key) of
                            None \<Rightarrow> client
                          | Some state \<Rightarrow>
                              set_symbol (wk_symbol key) (reduce_open (wo_side order) q state) client)
                    in set_client (wk_client_id key) client re)
          in re\<lparr>re_working_orders := (re_working_orders re)(key := None)\<rparr>)"

definition reduce_working_order ::
    "RiskClientId \<Rightarrow> string \<Rightarrow> OrderId \<Rightarrow> Quantity \<Rightarrow> RiskEngine \<Rightarrow> RiskEngine" where
  "reduce_working_order client_id symb order_id executed_quantity re =
     (let key = \<lparr>wk_client_id = client_id, wk_symbol = symb, wk_order_id = order_id\<rparr> in
      case re_working_orders re key of
        None \<Rightarrow> re
      | Some order \<Rightarrow>
          let reduction = min (wo_remaining_quantity order) executed_quantity;
              client = client_for re client_id;
              state = symbol_for client symb;
              client = client\<lparr>cs_gross_open_quantity :=
                clamped_sub (cs_gross_open_quantity client) (ucast reduction)\<rparr>;
              client = set_symbol symb (reduce_open (wo_side order) reduction state) client;
              order = order\<lparr>wo_remaining_quantity := wo_remaining_quantity order - reduction\<rparr>
          in
          if wo_remaining_quantity order = 0 then
            (set_client client_id (decrement_open_orders client) re)
            \<lparr>re_working_orders := (re_working_orders re)(key := None)\<rparr>
          else
            (set_client client_id client re)
            \<lparr>re_working_orders := (re_working_orders re)(key \<mapsto> order)\<rparr>)"

definition on_order_resting ::
    "RiskClientId \<Rightarrow> string \<Rightarrow> OrderId \<Rightarrow> Side \<Rightarrow> Price \<Rightarrow> Quantity \<Rightarrow> RiskEngine \<Rightarrow> RiskEngine" where
  "on_order_resting client_id symb order_id side price remaining_quantity re =
     (if client_id = invalid_risk_client_id \<or> remaining_quantity = 0 then re
      else
        let key = \<lparr>wk_client_id = client_id, wk_symbol = symb, wk_order_id = order_id\<rparr>;
            re = erase_working_order key re;
            client = client_for re client_id;
            state = symbol_for client symb;
            client = client\<lparr>cs_open_orders := cs_open_orders client + 1\<rparr>;
            client = client\<lparr>cs_gross_open_quantity :=
              saturating_add (cs_gross_open_quantity client) (ucast remaining_quantity)\<rparr>;
            state = increase_open side remaining_quantity state
        in (set_client client_id (set_symbol symb state client) re)
           \<lparr>re_working_orders := (re_working_orders re)
             (key \<mapsto> \<lparr>wo_side = side, wo_price = price, wo_remaining_quantity = remaining_quantity\<rparr>)\<rparr>)"

definition on_order_cancelled :: "RiskClientId \<Rightarrow> string \<Rightarrow> OrderId \<Rightarrow> RiskEngine \<Rightarrow> RiskEngine" where
  "on_order_cancelled client_id symb order_id re =
     (if client_id = invalid_risk_client_id then re
      else erase_working_order \<lparr>wk_client_id = client_id, wk_symbol = symb, wk_order_id = order_id\<rparr> re)"

definition on_trade_side ::
    "Side \<Rightarrow> string \<Rightarrow> RiskClientId \<Rightarrow> OrderId \<Rightarrow> Quantity \<Rightarrow> RiskEngine \<Rightarrow> RiskEngine" where
  "on_trade_side side symb client_id order_id quantity re =
     (if client_id \<noteq> invalid_risk_client_id then
        let client = client_for re client_id;
            state = apply_position_delta side quantity (symbol_for client symb);
            re = set_client client_id (set_symbol symb state client) re
        in reduce_working_order client_id symb order_id quantity re
      else re)"

definition on_trade ::
    "string \<Rightarrow> RiskClientId \<Rightarrow> RiskClientId \<Rightarrow> OrderId \<Rightarrow> OrderId \<Rightarrow> Quantity \<Rightarrow> RiskEngine \<Rightarrow> RiskEngine" where
  "on_trade symb buyer_client_id seller_client_id buy_order_id sell_order_id quantity re =
     (if quantity = 0 then re
      else
        let re = on_trade_side Buy symb buyer_client_id buy_order_id quantity re
        in on_trade_side Sell symb seller_client_id sell_order_id quantity re)"

definition set_global_kill_switch :: "bool \<Rightarrow> RiskEngine \<Rightarrow> RiskEngine" where
  "set_global_kill_switch enabled re = re\<lparr>re_global_kill_switch := enabled\<rparr>"

definition set_client_kill_switch :: "RiskClientId \<Rightarrow> bool \<Rightarrow> RiskEngine \<Rightarrow> RiskEngine" where
  "set_client_kill_switch client_id enabled re =
     (if client_id = invalid_risk_client_id then re
      else set_client client_id ((client_for re client_id)\<lparr>cs_kill_switch := enabled\<rparr>) re)"

definition risk_snapshot :: "RiskEngine \<Rightarrow> RiskClientId \<Rightarrow> string \<Rightarrow> ClientRiskSnapshot" where
  "risk_snapshot re client_id symb =
     (let snapshot = \<lparr>snap_global_kill_switch = re_global_kill_switch re, snap_client_kill_switch = False,
            snap_position = 0, snap_open_buy_quantity = 0, snap_open_sell_quantity = 0,
            snap_open_orders = 0, snap_gross_open_quantity = 0\<rparr> in
      case find_client re client_id of
        None \<Rightarrow> snapshot
      | Some client \<Rightarrow>
          let snapshot = snapshot\<lparr>snap_client_kill_switch := cs_kill_switch client,
                snap_open_orders := cs_open_orders client,
                snap_gross_open_quantity := cs_gross_open_quantity client\<rparr> in
          case find_symbol_state client symb of
            None \<Rightarrow> snapshot
          | Some s \<Rightarrow> snapshot\<lparr>snap_position := ss_position s,
                snap_open_buy_quantity := ss_open_buy_quantity s,
                snap_open_sell_quantity := ss_open_sell_quantity s\<rparr>)"

end
