(* ===== verification/Risk_Accounting.thy ===== *)
theory Risk_Accounting
  imports Risk_Engine
begin

text \<open>
  The accounting of the risk engine: the counters the checks read (open orders, gross open
  quantity, open quantity per symbol and side) against the ledger of working orders. A counter is
  exact when it is the tally of the working orders it stands for; the updates of the code keep it
  exact, so that its clamping subtractions never clamp and, below \<open>max_working\<close> orders, its
  saturating additions never saturate.
\<close>

section \<open>Arithmetic on exact counters\<close>

lemma unat_room: "unat (- 1 - x :: u64) = 2 ^ 64 - 1 - unat x"
  using unat_sub [of x "- 1"] by (simp add: unsigned_minus_1_eq_mask mask_eq_exp_minus_1)

lemma unat_saturating_add: "unat (saturating_add x y) = min (unat x + unat y) (2 ^ 64 - 1)"
proof (cases "y > - 1 - x")
  case True
  then have "unat y > 2 ^ 64 - 1 - unat x" by (simp only: word_less_nat_alt unat_room)
  then show ?thesis using True
    by (simp add: saturating_add_def unsigned_minus_1_eq_mask mask_eq_exp_minus_1)
next
  case False
  then have "unat y \<le> 2 ^ 64 - 1 - unat x" by (simp only: word_less_nat_alt unat_room not_less)
  moreover have "unat x < 2 ^ 64" using unsigned_less [of x, where 'a = nat] by simp
  ultimately have "unat x + unat y < 2 ^ 64" by simp
  then show ?thesis using False unat_add_lem [of x y] by (simp add: saturating_add_def)
qed

lemma unat_clamped_sub: "unat (clamped_sub x y) = unat x - unat y"
  by (auto simp: clamped_sub_def unat_sub word_le_nat_alt)

declare unat_ucast_u64 [simp]

lemma unat_word_of_int64: "0 \<le> v \<Longrightarrow> v < 2 ^ 64 \<Longrightarrow> int (unat (word_of_int v :: u64)) = v"
  by (simp only: of_nat_unat uint_word_of_int_eq take_bit_int_eq_self_iff) simp

lemma unat_absolute_position:
  assumes "is_int64 v"
  shows "int (unat (absolute_position v)) = \<bar>v\<bar>"
proof -
  consider "0 \<le> v" | "v = int64_min" | "v < 0" "v \<noteq> int64_min" by linarith
  then show ?thesis
  proof cases
    case 1
    then show ?thesis
      using assms unat_word_of_int64 [of v] by (simp add: absolute_position_def is_int64_def)
  next
    case 3
    then show ?thesis
      using assms unat_word_of_int64 [of "- v"] by (simp add: absolute_position_def is_int64_def)
  next
    case 2
    have "unat (push_bit 63 1 :: u64) = 2 ^ 63" by (simp add: push_bit_eq_mult)
    then show ?thesis using 2 by (simp add: absolute_position_def)
  qed
qed

lemma absolute_price_position: "absolute_price v = absolute_position v"
  by (simp add: absolute_price_def absolute_position_def)

section \<open>Tallies of working orders\<close>

definition tally :: "(WorkingOrderKey \<Rightarrow> WorkingOrder \<Rightarrow> nat) \<Rightarrow> (WorkingOrderKey \<rightharpoonup> WorkingOrder) \<Rightarrow> nat" where
  "tally g W = (\<Sum>k\<in>dom W. g k (the (W k)))"

lemma tally_empty [simp]: "tally g Map.empty = 0"
  by (simp add: tally_def)

lemma tally_insert:
  assumes "finite (dom W)" "W k = None"
  shows "tally g (W(k \<mapsto> w)) = tally g W + g k w"
proof -
  have "(\<Sum>j\<in>dom W. g j (the ((W(k \<mapsto> w)) j))) = (\<Sum>j\<in>dom W. g j (the (W j)))"
    using assms(2) by (intro sum.cong) auto
  moreover have "k \<notin> dom W" using assms(2) by auto
  ultimately show ?thesis using assms(1) by (simp add: tally_def)
qed

lemma tally_remove:
  assumes "finite (dom W)" "W k = Some w"
  shows "tally g W = tally g (W(k := None)) + g k w"
proof -
  have "W = (W(k := None))(k \<mapsto> w)" using assms(2) by auto
  then have "tally g W = tally g ((W(k := None))(k \<mapsto> w))" by (rule arg_cong)
  also have "\<dots> = tally g (W(k := None)) + g k w"
    using assms(1) by (intro tally_insert) auto
  finally show ?thesis .
qed

lemma tally_change:
  assumes "finite (dom W)" "W k = Some w"
  shows "tally g (W(k \<mapsto> w')) + g k w = tally g W + g k w'"
proof -
  have "tally g (W(k \<mapsto> w')) = tally g (W(k := None)) + g k w'"
    using tally_insert [of "W(k := None)" k g w'] assms(1) by (simp add: fun_upd_upd)
  then show ?thesis using tally_remove [OF assms, of g] by simp
qed

lemma tally_member: "finite (dom W) \<Longrightarrow> W k = Some w \<Longrightarrow> g k w \<le> tally g W"
  using tally_remove [of W k w g] by simp

lemma tally_bound:
  assumes "\<And>k w. g k w \<le> n"
  shows "tally g W \<le> card (dom W) * n"
  unfolding tally_def using assms sum_bounded_above [of "dom W" "\<lambda>k. g k (the (W k))" n] by simp

text \<open>What each counter of the engine stands for.\<close>

definition count_of :: "RiskClientId \<Rightarrow> WorkingOrderKey \<Rightarrow> WorkingOrder \<Rightarrow> nat" where
  "count_of c k w = (if wk_client_id k = c then 1 else 0)"

definition gross_of :: "RiskClientId \<Rightarrow> WorkingOrderKey \<Rightarrow> WorkingOrder \<Rightarrow> nat" where
  "gross_of c k w = (if wk_client_id k = c then unat (wo_remaining_quantity w) else 0)"

definition open_of :: "RiskClientId \<Rightarrow> string \<Rightarrow> Side \<Rightarrow> WorkingOrderKey \<Rightarrow> WorkingOrder \<Rightarrow> nat" where
  "open_of c y s k w =
     (if wk_client_id k = c \<and> wk_symbol k = y \<and> wo_side w = s then unat (wo_remaining_quantity w) else 0)"

definition open_orders :: "RiskEngine \<Rightarrow> RiskClientId \<Rightarrow> nat" where
  "open_orders re c = tally (count_of c) (re_working_orders re)"

definition gross_open :: "RiskEngine \<Rightarrow> RiskClientId \<Rightarrow> nat" where
  "gross_open re c = tally (gross_of c) (re_working_orders re)"

definition open_quantity_of :: "RiskEngine \<Rightarrow> RiskClientId \<Rightarrow> string \<Rightarrow> Side \<Rightarrow> nat" where
  "open_quantity_of re c y s = tally (open_of c y s) (re_working_orders re)"

definition position_of :: "RiskEngine \<Rightarrow> RiskClientId \<Rightarrow> string \<Rightarrow> int" where
  "position_of re c y = ss_position (symbol_for (client_for re c) y)"

definition side_open :: "Side \<Rightarrow> SymbolState \<Rightarrow> u64" where
  "side_open s st = (if s = Buy then ss_open_buy_quantity st else ss_open_sell_quantity st)"

definition risk_inv :: "RiskEngine \<Rightarrow> bool" where
  "risk_inv re \<longleftrightarrow>
     finite (dom (re_working_orders re)) \<and>
     (\<forall>k w. re_working_orders re k = Some w \<longrightarrow> wk_client_id k \<noteq> 0 \<and> wo_remaining_quantity w \<noteq> 0) \<and>
     (\<forall>c. unat (cs_open_orders (client_for re c)) = open_orders re c) \<and>
     (\<forall>c. unat (cs_gross_open_quantity (client_for re c)) = gross_open re c) \<and>
     (\<forall>c y s. unat (side_open s (symbol_for (client_for re c) y)) = open_quantity_of re c y s) \<and>
     (\<forall>c y. is_int64 (position_of re c y))"
section \<open>Reading the state after an update\<close>

lemma client_for_set_client [simp, risk_simps]:
  "client_for (set_client c cl re) c' = (if c' = c then cl else client_for re c')"
  by (simp add: client_for_def set_client_def)

lemma symbol_for_set_symbol [simp, risk_simps]:
  "symbol_for (set_symbol y st cl) y' = (if y' = y then st else symbol_for cl y')"
  by (simp add: symbol_for_def set_symbol_def)

lemma set_symbol_counters [simp, risk_simps]:
  "cs_open_orders (set_symbol y st cl) = cs_open_orders cl"
  "cs_gross_open_quantity (set_symbol y st cl) = cs_gross_open_quantity cl"
  "cs_kill_switch (set_symbol y st cl) = cs_kill_switch cl"
  by (simp_all add: set_symbol_def)

lemma client_for_irrelevant [simp, risk_simps]:
  "client_for (re\<lparr>re_working_orders := W\<rparr>) c = client_for re c"
  "client_for (re\<lparr>re_global_kill_switch := b\<rparr>) c = client_for re c"
  by (simp_all add: client_for_def)

lemma symbol_for_irrelevant [simp, risk_simps]:
  "symbol_for (cl\<lparr>cs_open_orders := n\<rparr>) y = symbol_for cl y"
  "symbol_for (cl\<lparr>cs_gross_open_quantity := n\<rparr>) y = symbol_for cl y"
  "symbol_for (cl\<lparr>cs_kill_switch := b\<rparr>) y = symbol_for cl y"
  by (simp_all add: symbol_for_def)

lemma set_client_others [simp, risk_simps]:
  "re_working_orders (set_client c cl re) = re_working_orders re"
  "re_limits (set_client c cl re) = re_limits re"
  "re_global_kill_switch (set_client c cl re) = re_global_kill_switch re"
  by (simp_all add: set_client_def)

lemma side_open_reduce_open [simp]:
  "unat (side_open s (reduce_open s' q st)) = unat (side_open s st) - (if s = s' then unat q else 0)"
  by (cases s; cases s') (simp_all add: side_open_def reduce_open_def unat_clamped_sub)

lemma side_open_increase_open [simp]:
  "unat (side_open s (increase_open s' q st)) =
     (if s = s' then min (unat (side_open s st) + unat q) (2 ^ 64 - 1) else unat (side_open s st))"
  by (cases s; cases s') (simp_all add: side_open_def increase_open_def unat_saturating_add)

lemma ss_position_open [simp]:
  "ss_position (reduce_open s q st) = ss_position st" "ss_position (increase_open s q st) = ss_position st"
  by (simp_all add: reduce_open_def increase_open_def)

lemma side_open_apply_position_delta [simp]:
  "side_open s (apply_position_delta s' q st) = side_open s st"
  by (simp add: apply_position_delta_def side_open_def Let_def)

lemma new_state_reads [simp]:
  "cs_open_orders new_client_state = 0" "cs_gross_open_quantity new_client_state = 0"
  "symbol_for new_client_state y = new_symbol_state" "side_open s new_symbol_state = 0"
  "ss_position new_symbol_state = 0"
  by (simp_all add: new_client_state_def new_symbol_state_def symbol_for_def side_open_def)

lemma decrement_open_orders_reads [simp]:
  "unat (cs_open_orders (decrement_open_orders cl)) = unat (cs_open_orders cl) - 1"
  "cs_gross_open_quantity (decrement_open_orders cl) = cs_gross_open_quantity cl"
  "cs_symbols (decrement_open_orders cl) = cs_symbols cl"
  "cs_kill_switch (decrement_open_orders cl) = cs_kill_switch cl"
  "symbol_for (decrement_open_orders cl) y = symbol_for cl y"
  using unat_sub [of 1 "cs_open_orders cl"]
  by (auto simp: decrement_open_orders_def word_gt_0 word_le_nat_alt unat_gt_0 Suc_le_eq symbol_for_def)

lemma working_orders_after [risk_simps]:
  "re_working_orders (erase_working_order k re) = (re_working_orders re)(k := None)"
  "re_working_orders (on_order_resting c y i s p q re) =
     (if c = 0 \<or> q = 0 then re_working_orders re
      else (re_working_orders re)(\<lparr>wk_client_id = c, wk_symbol = y, wk_order_id = i\<rparr> \<mapsto>
        \<lparr>wo_side = s, wo_price = p, wo_remaining_quantity = q\<rparr>))"
  by (auto simp: erase_working_order_def on_order_resting_def Let_def invalid_risk_client_id_def
      split: option.splits)

lemma working_orders_reduce [risk_simps]:
  "re_working_orders (reduce_working_order c y i q re) =
     (let k = \<lparr>wk_client_id = c, wk_symbol = y, wk_order_id = i\<rparr> in
      case re_working_orders re k of
        None \<Rightarrow> re_working_orders re
      | Some w \<Rightarrow>
          if wo_remaining_quantity w \<le> q then (re_working_orders re)(k := None)
          else (re_working_orders re)
            (k \<mapsto> w\<lparr>wo_remaining_quantity := wo_remaining_quantity w - q\<rparr>))"
  by (auto simp: reduce_working_order_def Let_def min_def split: option.splits)

lemma working_orders_trade_side [risk_simps]:
  "re_working_orders (on_trade_side s y c i q re) =
     (if c = 0 then re_working_orders re else re_working_orders (reduce_working_order c y i q re))"
  by (simp add: on_trade_side_def Let_def invalid_risk_client_id_def working_orders_reduce
      split: option.split)

section \<open>Counters\<close>

text \<open>
  A counter of the engine and the working orders it counts. The assumptions say what one update
  of the engine does to the counter, as long as it covers the order the update touches.
\<close>

locale risk_counter =
  fixes read :: "RiskEngine \<Rightarrow> nat" and g :: "WorkingOrderKey \<Rightarrow> WorkingOrder \<Rightarrow> nat"
  assumes read_new: "read (new_risk_engine limits) = 0"
    and read_erase: "re_working_orders re k = Some w \<Longrightarrow> g k w \<le> read re \<Longrightarrow>
      read (erase_working_order k re) = read re - g k w"
    and read_resting: "c \<noteq> 0 \<Longrightarrow> q \<noteq> 0 \<Longrightarrow> k = \<lparr>wk_client_id = c, wk_symbol = y, wk_order_id = i\<rparr> \<Longrightarrow>
      w = \<lparr>wo_side = s, wo_price = p, wo_remaining_quantity = q\<rparr> \<Longrightarrow>
      read (erase_working_order k re) + g k w < 2 ^ 64 \<Longrightarrow>
      read (on_order_resting c y i s p q re) = read (erase_working_order k re) + g k w"
    and read_reduce: "k = \<lparr>wk_client_id = c, wk_symbol = y, wk_order_id = i\<rparr> \<Longrightarrow>
      re_working_orders re k = Some w \<Longrightarrow> g k w \<le> read re \<Longrightarrow>
      read (reduce_working_order c y i q re) =
        (if wo_remaining_quantity w \<le> q then read re - g k w
         else read re - g k w + g k (w\<lparr>wo_remaining_quantity := wo_remaining_quantity w - q\<rparr>))"
    and read_trade_side: "c \<noteq> 0 \<Longrightarrow> read (on_trade_side s y c i q re) = read (reduce_working_order c y i q re)"
    and read_switches: "read (set_global_kill_switch b re) = read re"
      "read (set_client_kill_switch c b re) = read re"
    and g_bound: "g k w \<le> 2 ^ 32 - 1"
begin

definition exact :: "RiskEngine \<Rightarrow> bool" where
  "exact re \<longleftrightarrow> finite (dom (re_working_orders re)) \<and> read re = tally g (re_working_orders re)"

lemma exact_new: "exact (new_risk_engine limits)"
  by (simp add: exact_def read_new) (simp add: new_risk_engine_def)

lemma exact_erase:
  assumes "exact re"
  shows "exact (erase_working_order k re)"
proof (cases "re_working_orders re k")
  case None
  then show ?thesis using assms by (simp add: erase_working_order_def)
next
  case (Some w)
  have fin: "finite (dom (re_working_orders re))" using assms by (simp add: exact_def)
  show ?thesis
    using assms read_erase [OF Some] tally_member [OF fin Some, of g] tally_remove [OF fin Some, of g]
    by (simp add: exact_def working_orders_after)
qed

lemma exact_room:
  assumes "exact re" "card (dom (re_working_orders re)) \<le> 2 ^ 32"
  shows "read re + g k w < 2 ^ 64"
proof -
  have "tally g (re_working_orders re) \<le> 2 ^ 32 * (2 ^ 32 - 1)"
    using tally_bound [of g "2 ^ 32 - 1" "re_working_orders re"] g_bound assms(2)
    by (meson le_trans mult_le_mono1)
  then show ?thesis using assms(1) g_bound [of k w] by (simp add: exact_def)
qed

lemma exact_resting:
  assumes "exact re" "card (dom (re_working_orders re)) \<le> 2 ^ 32"
  shows "exact (on_order_resting c y i s p q re)"
proof (cases "c = 0 \<or> q = 0")
  case True
  then show ?thesis using assms(1) by (simp add: on_order_resting_def invalid_risk_client_id_def)
next
  case False
  define k where "k = \<lparr>wk_client_id = c, wk_symbol = y, wk_order_id = i\<rparr>"
  define w where "w = \<lparr>wo_side = s, wo_price = p, wo_remaining_quantity = q\<rparr>"
  let ?re = "erase_working_order k re"
  have ex: "exact ?re" using exact_erase [OF assms(1)] .
  have fin: "finite (dom (re_working_orders re))" using assms(1) by (simp add: exact_def)
  then have "card (dom (re_working_orders ?re)) \<le> card (dom (re_working_orders re))"
    by (intro card_mono) (auto simp: working_orders_after)
  then have "read ?re + g k w < 2 ^ 64" using exact_room [OF ex] assms(2) by simp
  then have "read (on_order_resting c y i s p q re) = read ?re + g k w"
    using False by (intro read_resting) (simp_all add: k_def w_def)
  moreover have "re_working_orders (on_order_resting c y i s p q re) = (re_working_orders ?re)(k \<mapsto> w)"
    using False by (simp add: working_orders_after k_def w_def)
  moreover have "tally g ((re_working_orders ?re)(k \<mapsto> w)) = tally g (re_working_orders ?re) + g k w"
    using ex by (intro tally_insert) (simp_all add: exact_def working_orders_after)
  ultimately show ?thesis using ex by (simp add: exact_def)
qed

lemma exact_reduce:
  assumes "exact re"
  shows "exact (reduce_working_order c y i q re)"
proof -
  define k where "k = \<lparr>wk_client_id = c, wk_symbol = y, wk_order_id = i\<rparr>"
  have fin: "finite (dom (re_working_orders re))" using assms by (simp add: exact_def)
  show ?thesis
  proof (cases "re_working_orders re k")
    case None
    then show ?thesis using assms by (simp add: reduce_working_order_def k_def)
  next
    case (Some w)
    let ?w = "w\<lparr>wo_remaining_quantity := wo_remaining_quantity w - q\<rparr>"
    have "g k w \<le> read re" using assms tally_member [OF fin Some, of g] by (simp add: exact_def)
    note read = read_reduce [OF k_def Some this]
    show ?thesis
      using assms read fin Some tally_remove [OF fin Some, of g] tally_change [OF fin Some, of g ?w]
      by (simp add: exact_def working_orders_reduce k_def [symmetric] Let_def)
  qed
qed

lemma exact_trade_side:
  assumes "exact re"
  shows "exact (on_trade_side s y c i q re)"
proof (cases "c = 0")
  case True
  then show ?thesis using assms by (simp add: on_trade_side_def invalid_risk_client_id_def)
next
  case False
  then show ?thesis using exact_reduce [OF assms, of c y i q]
    by (simp add: exact_def working_orders_trade_side read_trade_side)
qed

lemma exact_trade: "exact re \<Longrightarrow> exact (on_trade y b c i j q re)"
  by (simp add: on_trade_def Let_def exact_trade_side)

lemma exact_cancelled: "exact re \<Longrightarrow> exact (on_order_cancelled c y i re)"
  by (simp add: on_order_cancelled_def exact_erase)

lemma exact_switches:
  "exact re \<Longrightarrow> exact (set_global_kill_switch b re)" "exact re \<Longrightarrow> exact (set_client_kill_switch c b re)"
  by (simp_all add: exact_def read_switches)
    (simp_all add: set_global_kill_switch_def set_client_kill_switch_def)

end

section \<open>The engine's counters satisfy the contract\<close>

lemmas update_defs = erase_working_order_def reduce_working_order_def on_order_resting_def
  on_trade_side_def set_global_kill_switch_def set_client_kill_switch_def
  invalid_risk_client_id_def new_risk_engine_def Let_def

lemma unat_quantity_bound: "unat (q :: Quantity) \<le> 2 ^ 32 - 1"
  using unat_u32_less [of q] by simp

lemma unat_increment: "unat (n :: u64) + 1 < 2 ^ 64 \<Longrightarrow> unat (n + 1) = unat n + 1"
  by (simp add: unat_word_ariths)

lemma client_absent: "re_clients re c = None \<Longrightarrow> client_for re c = new_client_state"
  by (simp add: client_for_def)

lemma client_present: "re_clients re c = Some cl \<Longrightarrow> client_for re c = cl"
  by (simp add: client_for_def)

lemma client_for_erase:
  assumes "re_working_orders re k = Some w" "re_clients re (wk_client_id k) = Some cl"
  shows "client_for (erase_working_order k re) c =
    (if c = wk_client_id k then
       (case cs_symbols cl (wk_symbol k) of
          None \<Rightarrow> id
        | Some st \<Rightarrow> set_symbol (wk_symbol k) (reduce_open (wo_side w) (wo_remaining_quantity w) st))
       ((decrement_open_orders cl)\<lparr>cs_gross_open_quantity :=
             clamped_sub (cs_gross_open_quantity cl) (ucast (wo_remaining_quantity w))\<rparr>)
     else client_for re c)"
  using assms by (auto simp: update_defs split: option.split)

lemma client_for_erase_absent:
  assumes "re_working_orders re k = None \<or> re_clients re (wk_client_id k) = None"
  shows "client_for (erase_working_order k re) c = client_for re c"
  using assms by (auto simp: update_defs split: option.split)

lemma client_for_resting:
  assumes "c \<noteq> 0" "q \<noteq> 0" "k = \<lparr>wk_client_id = c, wk_symbol = y, wk_order_id = i\<rparr>"
  shows "client_for (on_order_resting c y i s p q re) c' =
    (let cl = client_for (erase_working_order k re) c; st = symbol_for cl y in
     if c' = c then
       set_symbol y (increase_open s q st)
         (cl\<lparr>cs_open_orders := cs_open_orders cl + 1,
             cs_gross_open_quantity := saturating_add (cs_gross_open_quantity cl) (ucast q)\<rparr>)
     else client_for (erase_working_order k re) c')"
  using assms by (simp add: on_order_resting_def invalid_risk_client_id_def Let_def)

lemma client_for_reduce:
  assumes "k = \<lparr>wk_client_id = c, wk_symbol = y, wk_order_id = i\<rparr>" "re_working_orders re k = Some w"
  shows "client_for (reduce_working_order c y i q re) c' =
    (let cl = client_for re c; r = min (wo_remaining_quantity w) q in
     if c' = c then
       (if wo_remaining_quantity w \<le> q then decrement_open_orders else id)
       (set_symbol y (reduce_open (wo_side w) r (symbol_for cl y))
         (cl\<lparr>cs_gross_open_quantity := clamped_sub (cs_gross_open_quantity cl) (ucast r)\<rparr>))
     else client_for re c')"
  using assms
  by (auto simp: reduce_working_order_def Let_def min_def set_symbol_def)

lemma unat_reduced:
  fixes r q :: Quantity
  assumes "\<not> r \<le> q" "unat r \<le> n"
  shows "n + unat (r - q) - unat r = n - unat q"
  using assms unat_word_diff [of q r] by (auto simp: word_le_nat_alt)

lemma client_for_reduce_absent:
  assumes "re_working_orders re \<lparr>wk_client_id = c, wk_symbol = y, wk_order_id = i\<rparr> = None"
  shows "reduce_working_order c y i q re = re"
  using assms by (simp add: reduce_working_order_def)

lemma client_for_new [simp]: "client_for (new_risk_engine limits) c = new_client_state"
  by (simp add: client_for_def new_risk_engine_def)

lemma client_for_switches [simp]:
  "client_for (set_global_kill_switch b re) c = client_for re c"
  "client_for (set_client_kill_switch c' b re) c =
     (if c = c' \<and> c \<noteq> 0 then (client_for re c)\<lparr>cs_kill_switch := b\<rparr> else client_for re c)"
  by (simp_all add: set_global_kill_switch_def set_client_kill_switch_def invalid_risk_client_id_def)

lemma on_trade_side_eq:
  "c \<noteq> 0 \<Longrightarrow> on_trade_side s y c i q re =
     reduce_working_order c y i q
       (set_client c (set_symbol y (apply_position_delta s q (symbol_for (client_for re c) y))
         (client_for re c)) re)"
  by (simp add: on_trade_side_def invalid_risk_client_id_def Let_def)

lemma reads_trade_side:
  assumes "c \<noteq> 0"
  shows "cs_open_orders (client_for (on_trade_side s y c i q re) c') =
      cs_open_orders (client_for (reduce_working_order c y i q re) c')"
    and "cs_gross_open_quantity (client_for (on_trade_side s y c i q re) c') =
      cs_gross_open_quantity (client_for (reduce_working_order c y i q re) c')"
    and "unat (side_open s' (symbol_for (client_for (on_trade_side s y c i q re) c') y')) =
      unat (side_open s' (symbol_for (client_for (reduce_working_order c y i q re) c') y'))"
  using assms
  by (cases "re_working_orders re \<lparr>wk_client_id = c, wk_symbol = y, wk_order_id = i\<rparr>";
      simp add: on_trade_side_eq client_for_reduce client_for_reduce_absent Let_def
        decrement_open_orders_def)+

lemma absent_state_reads:
  "re_clients re c = None \<Longrightarrow> unat (cs_open_orders (client_for re c)) = 0"
  "re_clients re c = None \<Longrightarrow> unat (cs_gross_open_quantity (client_for re c)) = 0"
  "cs_symbols cl y = None \<Longrightarrow> symbol_for cl y = new_symbol_state"
  "cs_symbols cl y = Some st \<Longrightarrow> symbol_for cl y = st"
  by (simp_all add: client_for_def symbol_for_def)

interpretation count: risk_counter "\<lambda>re. unat (cs_open_orders (client_for re c))" "count_of c" for c
proof
  show "unat (cs_open_orders (client_for (erase_working_order k re) c)) =
      unat (cs_open_orders (client_for re c)) - count_of c k w"
    if "re_working_orders re k = Some w" "count_of c k w \<le> unat (cs_open_orders (client_for re c))" for re k w
    using that
    by (cases "re_clients re (wk_client_id k)")
      (auto simp: client_for_erase client_for_erase_absent client_absent client_present count_of_def
        split: option.split)
qed (auto simp: client_for_resting client_for_reduce reads_trade_side unat_increment count_of_def Let_def)

interpretation gross: risk_counter "\<lambda>re. unat (cs_gross_open_quantity (client_for re c))" "gross_of c" for c
proof
  show "unat (cs_gross_open_quantity (client_for (erase_working_order k re) c)) =
      unat (cs_gross_open_quantity (client_for re c)) - gross_of c k w"
    if "re_working_orders re k = Some w" "gross_of c k w \<le> unat (cs_gross_open_quantity (client_for re c))"
    for re k w
    using that
    by (cases "re_clients re (wk_client_id k)")
      (auto simp: client_for_erase client_for_erase_absent client_absent client_present gross_of_def
        unat_clamped_sub split: option.split)
qed (use unat_quantity_bound in \<open>auto simp: client_for_resting client_for_reduce reads_trade_side unat_clamped_sub
      unat_saturating_add unat_reduced gross_of_def min_def Let_def\<close>)

interpretation opened: risk_counter
  "\<lambda>re. unat (side_open s (symbol_for (client_for re c) y))" "open_of c y s" for c y s
proof
  show "unat (side_open s (symbol_for (client_for (erase_working_order k re) c) y)) =
      unat (side_open s (symbol_for (client_for re c) y)) - open_of c y s k w"
    if "re_working_orders re k = Some w" "open_of c y s k w \<le> unat (side_open s (symbol_for (client_for re c) y))"
    for re k w
    using that
    by (cases "re_clients re (wk_client_id k)")
      (auto simp: client_for_erase client_for_erase_absent client_absent client_present open_of_def
        absent_state_reads split: option.split)
qed (use unat_quantity_bound in \<open>auto simp: client_for_resting client_for_reduce reads_trade_side
      unat_saturating_add unat_reduced open_of_def min_def Let_def\<close>)

section \<open>Positions\<close>

lemma position_irrelevant [simp]:
  "position_of (new_risk_engine limits) c y = 0"
  "position_of (erase_working_order k re) c y = position_of re c y"
  "position_of (on_order_cancelled c' y' i re) c y = position_of re c y"
  "position_of (set_global_kill_switch b re) c y = position_of re c y"
  "position_of (set_client_kill_switch c' b re) c y = position_of re c y"
proof -
  show erase: "position_of (erase_working_order k re) c y = position_of re c y" for k
  proof (cases "re_working_orders re k")
    case None
    then show ?thesis by (simp add: position_of_def client_for_erase_absent)
  next
    case (Some w)
    then show ?thesis
      by (cases "re_clients re (wk_client_id k)")
        (auto simp: position_of_def client_for_erase client_for_erase_absent client_present
          absent_state_reads split: option.split)
  qed
  show "position_of (on_order_cancelled c' y' i re) c y = position_of re c y"
    using erase by (simp add: on_order_cancelled_def)
qed (simp_all add: position_of_def)

lemma position_resting [simp]:
  "position_of (on_order_resting c' y' i s p q re) c y = position_of re c y"
proof (cases "c' = 0 \<or> q = 0")
  case True
  then show ?thesis by (simp add: on_order_resting_def invalid_risk_client_id_def)
next
  case False
  then have "position_of (on_order_resting c' y' i s p q re) c y =
      position_of (erase_working_order \<lparr>wk_client_id = c', wk_symbol = y', wk_order_id = i\<rparr> re) c y"
    by (simp add: position_of_def client_for_resting Let_def)
  then show ?thesis by simp
qed

lemma position_reduce [simp]: "position_of (reduce_working_order c' y' i q re) c y = position_of re c y"
  by (cases "re_working_orders re \<lparr>wk_client_id = c', wk_symbol = y', wk_order_id = i\<rparr>")
    (simp_all add: position_of_def client_for_reduce client_for_reduce_absent Let_def)

definition moved_position :: "Side \<Rightarrow> Quantity \<Rightarrow> int \<Rightarrow> int" where
  "moved_position s q v = (if s = Buy then min int64_max (v + uint q) else max int64_min (v - uint q))"

lemma position_trade_side:
  assumes "c' \<noteq> 0"
  shows "position_of (on_trade_side s y' c' i q re) c y =
    (if c = c' \<and> y = y' then moved_position s q (position_of re c y) else position_of re c y)"
proof -
  have "position_of (on_trade_side s y' c' i q re) c y =
      position_of (set_client c' (set_symbol y'
        (apply_position_delta s q (symbol_for (client_for re c') y')) (client_for re c')) re) c y"
    unfolding on_trade_side_eq [OF assms] by simp
  then show ?thesis
    by (auto simp: position_of_def apply_position_delta_def moved_position_def Let_def)
qed

lemma moved_position_int64:
  assumes "is_int64 v"
  shows "is_int64 (moved_position s q v)"
proof -
  define n where "n = uint q"
  have "0 \<le> n" by (simp add: n_def)
  then show ?thesis using assms by (auto simp: moved_position_def is_int64_def n_def [symmetric])
qed

section \<open>The accounting invariant\<close>

lemma exact_counters:
  "count.exact c re \<longleftrightarrow> finite (dom (re_working_orders re)) \<and>
     unat (cs_open_orders (client_for re c)) = open_orders re c"
  "gross.exact c re \<longleftrightarrow> finite (dom (re_working_orders re)) \<and>
     unat (cs_gross_open_quantity (client_for re c)) = gross_open re c"
  "opened.exact s c y re \<longleftrightarrow> finite (dom (re_working_orders re)) \<and>
     unat (side_open s (symbol_for (client_for re c) y)) = open_quantity_of re c y s"
  by (auto simp: count.exact_def gross.exact_def opened.exact_def open_orders_def gross_open_def
      open_quantity_of_def)

definition orders_wf :: "(WorkingOrderKey \<rightharpoonup> WorkingOrder) \<Rightarrow> bool" where
  "orders_wf W \<longleftrightarrow> (\<forall>k w. W k = Some w \<longrightarrow> wk_client_id k \<noteq> 0 \<and> wo_remaining_quantity w \<noteq> 0)"

lemma risk_inv_iff:
  "risk_inv re \<longleftrightarrow> orders_wf (re_working_orders re) \<and> (\<forall>c. count.exact c re) \<and> (\<forall>c. gross.exact c re) \<and>
     (\<forall>c y s. opened.exact s c y re) \<and> (\<forall>c y. is_int64 (position_of re c y))"
  by (auto simp: risk_inv_def exact_counters orders_wf_def)

lemma risk_inv_new: "risk_inv (new_risk_engine limits)"
  unfolding risk_inv_iff
  by (simp add: count.exact_new gross.exact_new opened.exact_new orders_wf_def is_int64_def)
     (simp add: new_risk_engine_def)

lemma risk_inv_cancelled:
  assumes "risk_inv re"
  shows "risk_inv (on_order_cancelled c y i re)"
proof -
  have "orders_wf (re_working_orders (on_order_cancelled c y i re))"
    using assms by (auto simp: risk_inv_iff orders_wf_def on_order_cancelled_def working_orders_after split: if_splits)
  then show ?thesis
    using assms unfolding risk_inv_iff
    by (simp add: count.exact_cancelled gross.exact_cancelled opened.exact_cancelled)
qed

lemma risk_inv_resting:
  assumes "risk_inv re" "card (dom (re_working_orders re)) \<le> 2 ^ 32"
  shows "risk_inv (on_order_resting c y i s p q re)"
proof -
  have "orders_wf (re_working_orders (on_order_resting c y i s p q re))"
    using assms by (auto simp: risk_inv_iff orders_wf_def working_orders_after)
  then show ?thesis
    using assms unfolding risk_inv_iff
    by (simp add: count.exact_resting gross.exact_resting opened.exact_resting)
qed

lemma risk_inv_trade_side:
  assumes "risk_inv re"
  shows "risk_inv (on_trade_side s y c i q re)"
proof (cases "c = 0")
  case True
  then show ?thesis using assms by (simp add: on_trade_side_def invalid_risk_client_id_def)
next
  case False
  have "orders_wf (re_working_orders (on_trade_side s y c i q re))"
    using assms
    by (auto simp: risk_inv_iff orders_wf_def working_orders_trade_side working_orders_reduce Let_def
        split: option.splits if_splits)
  then show ?thesis
    using assms False unfolding risk_inv_iff
    by (auto simp: count.exact_trade_side gross.exact_trade_side opened.exact_trade_side
        position_trade_side moved_position_int64)
qed

lemma risk_inv_trade: "risk_inv re \<Longrightarrow> risk_inv (on_trade y b c i j q re)"
  by (simp add: on_trade_def Let_def risk_inv_trade_side)

lemma risk_inv_switches:
  assumes "risk_inv re"
  shows "risk_inv (set_global_kill_switch b re)" "risk_inv (set_client_kill_switch c b re)"
proof -
  have "re_working_orders (set_global_kill_switch b re) = re_working_orders re"
    "re_working_orders (set_client_kill_switch c b re) = re_working_orders re"
    by (simp_all add: set_global_kill_switch_def set_client_kill_switch_def)
  then show "risk_inv (set_global_kill_switch b re)" "risk_inv (set_client_kill_switch c b re)"
    using assms unfolding risk_inv_iff
    by (simp_all add: count.exact_switches gross.exact_switches opened.exact_switches)
qed

text \<open>
  The states of a running engine: any sequence of the public operations, in any order, as long as
  no more than \<open>2 ^ 32\<close> orders work at a time when another comes to rest.
\<close>

inductive risk_reachable :: "RiskLimits \<Rightarrow> RiskEngine \<Rightarrow> bool" for limits where
  risk_new: "risk_reachable limits (new_risk_engine limits)"
| risk_resting: "risk_reachable limits re \<Longrightarrow> card (dom (re_working_orders re)) \<le> 2 ^ 32 \<Longrightarrow>
    risk_reachable limits (on_order_resting c y i s p q re)"
| risk_cancelled: "risk_reachable limits re \<Longrightarrow> risk_reachable limits (on_order_cancelled c y i re)"
| risk_trade: "risk_reachable limits re \<Longrightarrow> risk_reachable limits (on_trade y b c i j q re)"
| risk_global_switch: "risk_reachable limits re \<Longrightarrow> risk_reachable limits (set_global_kill_switch v re)"
| risk_client_switch: "risk_reachable limits re \<Longrightarrow> risk_reachable limits (set_client_kill_switch c v re)"

lemma risk_reachable_inv: "risk_reachable limits re \<Longrightarrow> risk_inv re"
  by (induction rule: risk_reachable.induct)
    (simp_all add: risk_inv_new risk_inv_resting risk_inv_cancelled risk_inv_trade risk_inv_switches)

lemma risk_inv_reads:
  assumes "risk_inv re"
  shows "unat (cs_open_orders (client_for re c)) = open_orders re c"
    and "unat (cs_gross_open_quantity (client_for re c)) = gross_open re c"
    and "unat (side_open s (symbol_for (client_for re c) y)) = open_quantity_of re c y s"
    and "is_int64 (position_of re c y)"
  using assms by (auto simp: risk_inv_def)


end
