(* ===== verification/Risk_Properties.thy ===== *)
theory Risk_Properties
  imports Risk_Accounting
begin

text \<open>
  What the checks of the risk engine decide, stated in exact integers over the ledger of working
  orders, and that accepted orders keep the limits.

  The ledger may hold up to \<open>max_working - 1\<close> working orders: then no sum the checks form exceeds
  64 bits, so the saturating arithmetic of the code is exact.
\<close>

definition max_working :: nat where "max_working = 2 ^ 31"

abbreviation two63 :: "'a::numeral" where "two63 \<equiv> 9223372036854775808"
abbreviation two64 :: "'a::numeral" where "two64 \<equiv> 18446744073709551616"

declare of_nat_unat [simp del]

section \<open>Exposure\<close>

text \<open>
  The exposure of a client on one side of a symbol: the signed position the client would have on
  that side if all its open orders of that side were filled.
\<close>

definition signed_position :: "Side \<Rightarrow> int \<Rightarrow> int" where
  "signed_position s v = (if s = Buy then v else - v)"

definition exposure :: "RiskEngine \<Rightarrow> RiskClientId \<Rightarrow> string \<Rightarrow> Side \<Rightarrow> int" where
  "exposure re c y s = signed_position s (position_of re c y) + int (open_quantity_of re c y s)"

lemma open_of_bound: "open_of c y s k w \<le> 2 ^ 32 - 1"
  using unat_quantity_bound [of "wo_remaining_quantity w"] by (simp add: open_of_def)

lemma gross_of_bound: "gross_of c k w \<le> 2 ^ 32 - 1"
  using unat_quantity_bound [of "wo_remaining_quantity w"] by (simp add: gross_of_def)

lemma small_ledger:
  assumes "card (dom (re_working_orders re)) < max_working"
  shows "open_quantity_of re c y s + unat (q :: Quantity) < two63"
    and "gross_open re c + unat q < two63"
proof -
  have "card (dom (re_working_orders re)) * (2 ^ 32 - 1) \<le> (2 ^ 31 - 1) * (2 ^ 32 - 1)"
    using assms by (intro mult_le_mono1) (simp add: max_working_def)
  moreover note tally_bound [of "open_of c y s" "2 ^ 32 - 1" "re_working_orders re", OF open_of_bound]
    tally_bound [of "gross_of c" "2 ^ 32 - 1" "re_working_orders re", OF gross_of_bound]
    unat_quantity_bound [of q]
  ultimately show "open_quantity_of re c y s + unat q < two63" "gross_open re c + unat q < two63"
    by (simp_all add: open_quantity_of_def gross_open_def)
qed

section \<open>The position check\<close>

lemma exceeds_long:
  fixes E L :: u64
  assumes "is_int64 v" "v + int (unat E) < two64"
  shows "projected_long v E > L \<longleftrightarrow> v + int (unat E) > int (unat L)"
proof (cases "v \<ge> 0")
  case True
  then have "int (unat (word_of_int v :: u64)) = v"
    using assms(1) by (intro unat_word_of_int64) (simp_all add: is_int64_def)
  then have "unat (word_of_int v :: u64) + unat E < two64" using assms(2) by linarith
  then show ?thesis using True \<open>int (unat (word_of_int v :: u64)) = v\<close>
    by (simp add: projected_long_def word_less_nat_alt unat_saturating_add) linarith
next
  case False
  have abs: "int (unat (absolute_position v)) = - v"
    using unat_absolute_position [OF assms(1)] False by simp
  show ?thesis
  proof (cases "E > absolute_position v")
    case True
    then have "unat (E - absolute_position v) = unat E - unat (absolute_position v)"
      "unat (absolute_position v) < unat E"
      by (simp_all add: unat_word_diff [OF less_imp_le] word_less_nat_alt)
    then show ?thesis using True False abs by (simp add: projected_long_def word_less_nat_alt) linarith
  next
    case below: False
    then have "unat E \<le> unat (absolute_position v)" by (simp add: word_less_nat_alt)
    then show ?thesis using below False abs by (simp add: projected_long_def)
  qed
qed

lemma exceeds_short:
  fixes E L :: u64
  assumes "is_int64 v" "- v + int (unat E) < two64"
  shows "projected_short v E > L \<longleftrightarrow> - v + int (unat E) > int (unat L)"
proof (cases "v \<le> 0")
  case True
  then have abs: "int (unat (absolute_position v)) = - v"
    using unat_absolute_position [OF assms(1)] by simp
  then have "unat (absolute_position v) + unat E < two64" using assms(2) by linarith
  then show ?thesis using True abs by (simp add: projected_short_def word_less_nat_alt unat_saturating_add) linarith
next
  case False
  then have long: "int (unat (word_of_int v :: u64)) = v"
    using assms(1) by (intro unat_word_of_int64) (simp_all add: is_int64_def)
  show ?thesis
  proof (cases "E > word_of_int v")
    case True
    then have "unat (E - word_of_int v) = unat E - unat (word_of_int v :: u64)"
      "unat (word_of_int v :: u64) < unat E"
      by (simp_all add: unat_word_diff [OF less_imp_le] word_less_nat_alt)
    then show ?thesis using True False long by (simp add: projected_short_def word_less_nat_alt) linarith
  next
    case below: False
    then have "unat E \<le> unat (word_of_int v :: u64)" by (simp add: word_less_nat_alt)
    then show ?thesis using below False long by (simp add: projected_short_def)
  qed
qed

lemma position_limit_exceeded_iff:
  assumes "is_int64 v" "v = (case st of None \<Rightarrow> 0 | Some x \<Rightarrow> ss_position x)"
    and "unat (if s = Buy then ob else os) + unat q < two63"
  shows "position_limit_exceeded re st s q ob os \<longleftrightarrow>
    signed_position s v + int (unat (if s = Buy then ob else os) + unat q) >
      int (unat (max_position_per_symbol (re_limits re)))"
proof -
  let ?E = "saturating_add (if s = Buy then ob else os) (ucast q)"
  have E: "unat ?E = unat (if s = Buy then ob else os) + unat q"
    using assms(3) by (simp add: unat_saturating_add)
  show ?thesis
  proof (cases s)
    case Buy
    have "v + int (unat ?E) < two64" using E assms(1,3) Buy by (simp add: is_int64_def)
    from exceeds_long [OF assms(1) this] show ?thesis
      using E Buy assms(2) by (simp add: position_limit_exceeded_def Let_def signed_position_def)
  next
    case Sell
    have "- v + int (unat ?E) < two64" using E assms(1,3) Sell by (simp add: is_int64_def)
    from exceeds_short [OF assms(1) this] show ?thesis
      using E Sell assms(2) by (simp add: position_limit_exceeded_def Let_def signed_position_def)
  qed
qed
section \<open>What the checks decide\<close>

definition decision_of :: "RiskRejectReason \<Rightarrow> RiskDecision" where
  "decision_of r = (if r = RR_None then accept else reject r)"

definition notional_price :: "Price option \<Rightarrow> Price \<Rightarrow> Price" where
  "notional_price ref p = (case ref of None \<Rightarrow> p | Some p' \<Rightarrow> p')"

definition spec_new_order :: "RiskEngine \<Rightarrow> RiskOrderRequest \<Rightarrow> RiskRejectReason" where
  "spec_new_order re rq =
     (let limits = re_limits re; c = rq_client_id rq; q = unat (rq_quantity rq);
          rests = rq_order_type rq = Limit \<and> rq_time_in_force rq = GoodTillCancel in
      if re_global_kill_switch re then GlobalKillSwitch
      else if cs_kill_switch (client_for re c) then ClientKillSwitch
      else if q > unat (max_order_quantity limits) then MaxOrderQuantity
      else if \<bar>notional_price (rq_reference_price rq) (rq_price rq)\<bar> * int q > int (unat (max_order_notional limits))
        then MaxOrderNotional
      else if exposure re c (rq_symbol rq) (rq_side rq) + int q > int (unat (max_position_per_symbol limits))
        then MaxPosition
      else if rests \<and> open_orders re c \<ge> unat (max_open_orders limits) then MaxOpenOrders
      else if rests \<and> gross_open re c + q > unat (max_open_quantity limits) then MaxOpenQuantity
      else RR_None)"

definition spec_replace ::
    "RiskEngine \<Rightarrow> RiskClientId \<Rightarrow> string \<Rightarrow> OrderId \<Rightarrow> Price \<Rightarrow> nat \<Rightarrow> RiskRejectReason" where
  "spec_replace re c y i p q =
     (let limits = re_limits re in
      if re_global_kill_switch re then GlobalKillSwitch
      else if cs_kill_switch (client_for re c) then ClientKillSwitch
      else case re_working_orders re \<lparr>wk_client_id = c, wk_symbol = y, wk_order_id = i\<rparr> of
        None \<Rightarrow> UnknownWorkingOrder
      | Some w \<Rightarrow>
          let old = unat (wo_remaining_quantity w) in
          if q > unat (max_order_quantity limits) then MaxOrderQuantity
          else if \<bar>p\<bar> * int q > int (unat (max_order_notional limits)) then MaxOrderNotional
          else if open_orders re c > unat (max_open_orders limits) then MaxOpenOrders
          else if gross_open re c - old + q > unat (max_open_quantity limits) then MaxOpenQuantity
          else if exposure re c y (wo_side w) - int old + int q > int (unat (max_position_per_symbol limits))
            then MaxPosition
          else RR_None)"

lemma accept_reject_simps [simp]:
  "accepted accept" "\<not> accepted (reject r)" "reason accept = RR_None" "reason (reject r) = r"
  by (simp_all add: accept_def reject_def)

lemma notional_exceeds:
  fixes N m :: u64
  assumes "int (unat m) = \<bar>p\<bar>"
  shows "m \<noteq> 0 \<and> ucast (q :: Quantity) > N div m \<longleftrightarrow> \<bar>p\<bar> * int (unat q) > int (unat N)"
proof -
  have eq: "\<bar>p\<bar> * int (unat q) = int (unat q * unat m)"
    unfolding assms [symmetric] by (simp add: mult.commute)
  have "\<bar>p\<bar> * int (unat q) > int (unat N) \<longleftrightarrow> unat N < unat q * unat m"
    unfolding eq of_nat_less_iff ..
  moreover have "ucast q > N div m \<longleftrightarrow> unat N div unat m < unat q"
    by (simp add: word_less_nat_alt unat_div)
  ultimately show ?thesis
    using div_less_iff_less_mult [of "unat m" "unat N" "unat q"]
    by (cases "m = 0") (simp_all add: unat_gt_0)
qed

lemma check_common_order_limits_eq:
  assumes "is_int64 (notional_price ref p)"
  shows "check_common_order_limits re p q ref =
    (if unat q > unat (max_order_quantity (re_limits re)) then reject MaxOrderQuantity
     else if \<bar>notional_price ref p\<bar> * int (unat q) > int (unat (max_order_notional (re_limits re)))
       then reject MaxOrderNotional else accept)"
proof -
  let ?m = "absolute_price (notional_price ref p)"
  have "int (unat ?m) = \<bar>notional_price ref p\<bar>"
    using unat_absolute_position [OF assms] by (simp add: absolute_price_position)
  from notional_exceeds [OF this, where q = q and N = "max_order_notional (re_limits re)"] show ?thesis
    by (simp add: check_common_order_limits_def notional_price_def [symmetric] Let_def word_less_nat_alt)
qed

text \<open>The lookups of the checks, in terms of the state's reads.\<close>

lemma found_client:
  "(find_client re c \<noteq> None \<and> cs_kill_switch (the (find_client re c))) = cs_kill_switch (client_for re c)"
  "(case find_client re c of None \<Rightarrow> 0 | Some cl \<Rightarrow> cs_open_orders cl) = cs_open_orders (client_for re c)"
  "(case find_client re c of None \<Rightarrow> 0 | Some cl \<Rightarrow> cs_gross_open_quantity cl) =
     cs_gross_open_quantity (client_for re c)"
  by (auto simp: find_client_def client_for_def new_client_state_def split: option.split)

definition found_symbol :: "RiskEngine \<Rightarrow> RiskClientId \<Rightarrow> string \<Rightarrow> SymbolState option" where
  "found_symbol re c y = (case find_client re c of None \<Rightarrow> None | Some cl \<Rightarrow> find_symbol_state cl y)"

lemma found_symbol_reads:
  "(case found_symbol re c y of None \<Rightarrow> 0 | Some st \<Rightarrow> ss_position st) = position_of re c y"
  "(case found_symbol re c y of None \<Rightarrow> 0 | Some st \<Rightarrow> ss_open_buy_quantity st) =
     side_open Buy (symbol_for (client_for re c) y)"
  "(case found_symbol re c y of None \<Rightarrow> 0 | Some st \<Rightarrow> ss_open_sell_quantity st) =
     side_open Sell (symbol_for (client_for re c) y)"
  by (auto simp: found_symbol_def find_client_def find_symbol_state_def client_for_def symbol_for_def
      position_of_def side_open_def new_client_state_def new_symbol_state_def split: option.split)

lemma side_open_if: "(if s = Buy then side_open Buy st else side_open Sell st) = side_open s st"
  by (cases s) simp_all

lemma check_new_order_spec:
  assumes inv: "risk_inv re" and small: "card (dom (re_working_orders re)) < max_working"
    and price: "is_int64 (notional_price (rq_reference_price rq) (rq_price rq))"
  shows "check_new_order re rq = decision_of (spec_new_order re rq)"
proof -
  let ?c = "rq_client_id rq" and ?y = "rq_symbol rq" and ?q = "rq_quantity rq"
  let ?ob = "side_open Buy (symbol_for (client_for re ?c) ?y)"
    and ?os = "side_open Sell (symbol_for (client_for re ?c) ?y)"
  note reads = risk_inv_reads [OF inv]
  have pos: "position_limit_exceeded re (found_symbol re ?c ?y) (rq_side rq) ?q ?ob ?os \<longleftrightarrow>
      exposure re ?c ?y (rq_side rq) + int (unat ?q) > int (unat (max_position_per_symbol (re_limits re)))"
    using position_limit_exceeded_iff [OF reads(4) found_symbol_reads(1) [symmetric], of "rq_side rq" ?ob ?os ?q]
      small_ledger(1) [OF small, of ?c ?y "rq_side rq" ?q]
    unfolding side_open_if reads(3) exposure_def of_nat_add by (simp only: add.assoc)
  have gross: "saturating_add (cs_gross_open_quantity (client_for re ?c)) (ucast ?q) > max_open_quantity (re_limits re)
      \<longleftrightarrow> gross_open re ?c + unat ?q > unat (max_open_quantity (re_limits re))"
    using small_ledger(2) [OF small, of ?c ?q] by (simp add: word_less_nat_alt unat_saturating_add reads)
  have orders: "cs_open_orders (client_for re ?c) \<ge> max_open_orders (re_limits re) \<longleftrightarrow>
      open_orders re ?c \<ge> unat (max_open_orders (re_limits re))"
    by (simp add: word_le_nat_alt reads)
  show ?thesis
    unfolding check_new_order_def spec_new_order_def Let_def found_symbol_def [symmetric]
      found_client found_symbol_reads pos gross orders check_common_order_limits_eq [OF price]
    by (simp add: decision_of_def risk_may_rest_def)
qed

lemma working_order_client:
  assumes inv: "risk_inv re" and w: "re_working_orders re \<lparr>wk_client_id = c, wk_symbol = y, wk_order_id = i\<rparr> = Some w"
  shows "\<exists>cl. find_client re c = Some cl \<and> client_for re c = cl \<and>
    find_symbol_state cl y = Some (symbol_for cl y)"
    and "unat (wo_remaining_quantity w) \<le> open_quantity_of re c y (wo_side w)"
    and "unat (wo_remaining_quantity w) \<le> gross_open re c"
proof -
  let ?k = "\<lparr>wk_client_id = c, wk_symbol = y, wk_order_id = i\<rparr>"
  have fin: "finite (dom (re_working_orders re))" and pos: "unat (wo_remaining_quantity w) > 0"
    using inv w by (auto simp: risk_inv_def unat_gt_0)
  show le: "unat (wo_remaining_quantity w) \<le> open_quantity_of re c y (wo_side w)"
    using tally_member [OF fin w, of "open_of c y (wo_side w)"] by (simp add: open_quantity_of_def open_of_def)
  show "unat (wo_remaining_quantity w) \<le> gross_open re c"
    using tally_member [OF fin w, of "gross_of c"] by (simp add: gross_open_def gross_of_def)
  have "unat (side_open (wo_side w) (symbol_for (client_for re c) y)) > 0"
    using le pos risk_inv_reads(3) [OF inv, of "wo_side w" c y] by simp
  then show "\<exists>cl. find_client re c = Some cl \<and> client_for re c = cl \<and> find_symbol_state cl y = Some (symbol_for cl y)"
    by (cases "re_clients re c"; cases "cs_symbols (client_for re c) y")
      (auto simp: find_client_def find_symbol_state_def client_absent client_present absent_state_reads)
qed

lemma check_replace_spec:
  assumes inv: "risk_inv re" and small: "card (dom (re_working_orders re)) < max_working" and price: "is_int64 p"
  shows "check_replace re c y i p q = decision_of (spec_replace re c y i p (unat q))"
proof (cases "re_working_orders re \<lparr>wk_client_id = c, wk_symbol = y, wk_order_id = i\<rparr>")
  case None
  then show ?thesis
    unfolding check_replace_def spec_replace_def Let_def found_client by (simp add: decision_of_def)
next
  case (Some w)
  obtain cl where cl: "find_client re c = Some cl" "client_for re c = cl"
    "find_symbol_state cl y = Some (symbol_for cl y)"
    using working_order_client(1) [OF inv Some] by blast
  note le = working_order_client(2,3) [OF inv Some]
  note reads = risk_inv_reads [OF inv, where c = c, unfolded cl(2)]
  let ?old = "ucast (wo_remaining_quantity w) :: u64" and ?st = "symbol_for cl y"
  have common: "is_int64 (notional_price None p)" using price by (simp add: notional_price_def)
  let ?ob = "if wo_side w = Buy then clamped_sub (ss_open_buy_quantity ?st) ?old else ss_open_buy_quantity ?st"
  let ?os = "if wo_side w = Buy then ss_open_sell_quantity ?st else clamped_sub (ss_open_sell_quantity ?st) ?old"
  have adjusted: "unat (if wo_side w = Buy then ?ob else ?os) =
      open_quantity_of re c y (wo_side w) - unat (wo_remaining_quantity w)"
    unfolding reads(3) [symmetric]
    by (cases "wo_side w") (simp_all add: side_open_def unat_clamped_sub)
  have v: "position_of re c y = (case Some ?st of None \<Rightarrow> 0 | Some x \<Rightarrow> ss_position x)"
    by (simp add: position_of_def cl(2))
  have room: "unat (if wo_side w = Buy then ?ob else ?os) + unat q < two63"
    using small_ledger(1) [OF small, of c y "wo_side w" q] unfolding adjusted by simp
  have pos: "position_limit_exceeded re (Some ?st) (wo_side w) q ?ob ?os \<longleftrightarrow>
      exposure re c y (wo_side w) - int (unat (wo_remaining_quantity w)) + int (unat q) >
        int (unat (max_position_per_symbol (re_limits re)))"
    using position_limit_exceeded_iff [OF reads(4) v room, of re] le(1)
    unfolding adjusted exposure_def by (simp add: of_nat_diff algebra_simps)
  have gross: "saturating_add (clamped_sub (cs_gross_open_quantity cl) ?old) (ucast q) > max_open_quantity (re_limits re)
      \<longleftrightarrow> gross_open re c - unat (wo_remaining_quantity w) + unat q > unat (max_open_quantity (re_limits re))"
    using small_ledger(2) [OF small, of c q]
    by (simp add: word_less_nat_alt unat_saturating_add unat_clamped_sub reads)
  have orders: "cs_open_orders cl > max_open_orders (re_limits re) \<longleftrightarrow>
      open_orders re c > unat (max_open_orders (re_limits re))"
    by (simp add: word_less_nat_alt reads)
  show ?thesis
    unfolding check_replace_def spec_replace_def Let_def Some cl option.case pos gross orders
      check_common_order_limits_eq [OF common]
    by (simp add: decision_of_def notional_price_def)
qed
section \<open>Accepted orders keep the limits\<close>

lemma tally_mono:
  assumes "finite (dom W)" "\<And>w'. W' k = Some w' \<Longrightarrow> \<exists>w. W k = Some w \<and> g k w' \<le> g k w"
    and "\<And>j. j \<noteq> k \<Longrightarrow> W' j = W j"
  shows "tally g W' \<le> tally g W"
proof -
  have sub: "dom W' \<subseteq> dom W"
  proof
    fix j assume "j \<in> dom W'"
    then show "j \<in> dom W" using assms(2,3) by (cases "j = k") fastforce+
  qed
  have "tally g W' \<le> (\<Sum>j\<in>dom W'. g j (the (W j)))"
    unfolding tally_def
  proof (rule sum_mono)
    fix j assume j: "j \<in> dom W'"
    show "g j (the (W' j)) \<le> g j (the (W j))"
      using j assms(2,3) by (cases "j = k") fastforce+
  qed
  also have "\<dots> \<le> tally g W"
    unfolding tally_def by (rule sum_mono2 [OF assms(1) sub]) simp
  finally show ?thesis .
qed

lemma unat_reduced_le: "\<not> r \<le> (q :: Quantity) \<Longrightarrow> unat (r - q) \<le> unat r"
  by (simp add: unat_word_diff)

lemma tally_trade_side:
  assumes "finite (dom (re_working_orders re))"
    and "\<And>k w q. \<not> wo_remaining_quantity w \<le> q \<Longrightarrow>
      g k (w\<lparr>wo_remaining_quantity := wo_remaining_quantity w - q\<rparr>) \<le> g k w"
  shows "tally g (re_working_orders (on_trade_side s y c i q re)) \<le> tally g (re_working_orders re)"
  using assms
  by (intro tally_mono [where k = "\<lparr>wk_client_id = c, wk_symbol = y, wk_order_id = i\<rparr>"])
    (auto simp: working_orders_trade_side working_orders_reduce Let_def split: option.splits if_splits)

lemma ledger_trade_side:
  assumes "risk_inv re"
  shows "open_quantity_of (on_trade_side s y c i q re) c' y' s' \<le> open_quantity_of re c' y' s'"
    and "gross_open (on_trade_side s y c i q re) c' \<le> gross_open re c'"
    and "open_orders (on_trade_side s y c i q re) c' \<le> open_orders re c'"
    and "card (dom (re_working_orders (on_trade_side s y c i q re))) \<le> card (dom (re_working_orders re))"
proof -
  have fin: "finite (dom (re_working_orders re))" using assms by (simp add: risk_inv_def)
  show "open_quantity_of (on_trade_side s y c i q re) c' y' s' \<le> open_quantity_of re c' y' s'"
    unfolding open_quantity_of_def by (rule tally_trade_side [OF fin]) (simp add: open_of_def unat_reduced_le)
  show "gross_open (on_trade_side s y c i q re) c' \<le> gross_open re c'"
    unfolding gross_open_def by (rule tally_trade_side [OF fin]) (simp add: gross_of_def unat_reduced_le)
  show "open_orders (on_trade_side s y c i q re) c' \<le> open_orders re c'"
    unfolding open_orders_def by (rule tally_trade_side [OF fin]) (simp add: count_of_def)
  show "card (dom (re_working_orders (on_trade_side s y c i q re))) \<le> card (dom (re_working_orders re))"
    using tally_trade_side [OF fin, of "\<lambda>k w. 1" s y c i q] by (simp add: tally_def)
qed

lemma signed_position_moved:
  assumes "is_int64 v"
  shows "signed_position s (moved_position s' q v) \<le>
    signed_position s v + (if s' = s then int (unat q) else 0)"
proof -
  define n where "n = uint q"
  have n: "int (unat q) = n" "0 \<le> n" by (simp_all add: n_def of_nat_unat)
  show ?thesis
    unfolding n(1)
    using assms n(2)
    by (cases s; cases s')
      (auto simp: signed_position_def moved_position_def is_int64_def n_def [symmetric] min_def max_def)
qed

lemma exposure_trade_side:
  assumes "risk_inv re"
  shows "exposure (on_trade_side s' y c' i q re) c y s \<le>
    exposure re c y s + (if s' = s \<and> c' = c then int (unat q) else 0)"
proof (cases "c' = 0")
  case True
  then show ?thesis by (simp add: on_trade_side_def invalid_risk_client_id_def)
next
  case False
  have "signed_position s (position_of (on_trade_side s' y c' i q re) c y) \<le>
      signed_position s (position_of re c y) + (if s' = s \<and> c' = c then int (unat q) else 0)"
    using signed_position_moved [OF risk_inv_reads(4) [OF assms], of s s' q c y]
    by (auto simp: position_trade_side [OF False])
  moreover have "int (open_quantity_of (on_trade_side s' y c' i q re) c y s) \<le> int (open_quantity_of re c y s)"
    using ledger_trade_side(1) [OF assms] by simp
  ultimately show ?thesis unfolding exposure_def by linarith
qed

text \<open>
  The fills of one incoming order of a client, as the server reports them: each is a trade with a
  counterparty's resting order.
\<close>

definition on_fill ::
    "Side \<Rightarrow> string \<Rightarrow> RiskClientId \<Rightarrow> OrderId \<Rightarrow> RiskClientId \<times> OrderId \<times> Quantity \<Rightarrow> RiskEngine \<Rightarrow> RiskEngine" where
  "on_fill s y c i f re =
     (case f of (c', j, q) \<Rightarrow>
        if s = Buy then on_trade y c c' i j q re else on_trade y c' c j i q re)"

definition fills_total :: "(RiskClientId \<times> OrderId \<times> Quantity) list \<Rightarrow> nat" where
  "fills_total fs = (\<Sum>f\<leftarrow>fs. unat (snd (snd f)))"

lemma on_fill_limits:
  assumes inv: "risk_inv re"
  shows "risk_inv (on_fill s y c i f re) \<and>
    exposure (on_fill s y c i f re) c y s \<le> exposure re c y s + int (unat (snd (snd f))) \<and>
    gross_open (on_fill s y c i f re) c \<le> gross_open re c \<and>
    open_orders (on_fill s y c i f re) c \<le> open_orders re c \<and>
    card (dom (re_working_orders (on_fill s y c i f re))) \<le> card (dom (re_working_orders re)) \<and>
    re_limits (on_fill s y c i f re) = re_limits re"
proof -
  obtain c' j q where f: "f = (c', j, q)" by (metis prod_cases3)
  define b where "b = (if s = Buy then (c, i) else (c', j))"
  define a where "a = (if s = Buy then (c', j) else (c, i))"
  let ?re1 = "on_trade_side Buy y (fst b) (snd b) q re"
  let ?re2 = "on_trade_side Sell y (fst a) (snd a) q ?re1"
  have lim: "re_limits (on_trade_side s' y' c1 i' q' re') = re_limits re'" for s' y' c1 i' q' re'
    by (auto simp: on_trade_side_def reduce_working_order_def Let_def split: option.split)
  have inv1: "risk_inv ?re1" by (rule risk_inv_trade_side [OF inv])
  have inv2: "risk_inv ?re2" by (rule risk_inv_trade_side [OF inv1])
  have own: "fst b = c \<or> s = Sell" "fst a = c \<or> s = Buy" by (cases s; simp add: a_def b_def)+
  have "on_fill s y c i f re = (if q = 0 then re else ?re2)"
    by (cases s) (simp_all add: on_fill_def f on_trade_def Let_def a_def b_def)
  moreover have "exposure ?re2 c y s \<le> exposure re c y s + int (unat q)"
    using exposure_trade_side [OF inv, of Buy y "fst b" "snd b" q c s]
      exposure_trade_side [OF inv1, of Sell y "fst a" "snd a" q c s]
    by (cases s) (auto split: if_splits)
  moreover have "gross_open ?re2 c \<le> gross_open re c" "open_orders ?re2 c \<le> open_orders re c"
    "card (dom (re_working_orders ?re2)) \<le> card (dom (re_working_orders re))"
    by (rule le_trans [OF ledger_trade_side(2) [OF inv1] ledger_trade_side(2) [OF inv]]
        le_trans [OF ledger_trade_side(3) [OF inv1] ledger_trade_side(3) [OF inv]]
        le_trans [OF ledger_trade_side(4) [OF inv1] ledger_trade_side(4) [OF inv]])+
  ultimately show ?thesis using inv inv2 by (simp add: f lim)
qed

lemma on_fills_limits:
  assumes "risk_inv re"
  shows "risk_inv (fold (on_fill s y c i) fs re) \<and>
    exposure (fold (on_fill s y c i) fs re) c y s \<le> exposure re c y s + int (fills_total fs) \<and>
    gross_open (fold (on_fill s y c i) fs re) c \<le> gross_open re c \<and>
    open_orders (fold (on_fill s y c i) fs re) c \<le> open_orders re c \<and>
    card (dom (re_working_orders (fold (on_fill s y c i) fs re))) \<le> card (dom (re_working_orders re)) \<and>
    re_limits (fold (on_fill s y c i) fs re) = re_limits re"
  using assms
proof (induction fs arbitrary: re)
  case (Cons f fs)
  note step = on_fill_limits [OF Cons.prems, of s y c i f]
  have inv: "risk_inv (on_fill s y c i f re)" using step by blast
  show ?case
    using Cons.IH [OF inv] step by (auto simp: fills_total_def intro: order_trans)
qed (simp add: fills_total_def)

lemma resting_limits:
  assumes inv: "risk_inv re" and small: "card (dom (re_working_orders re)) \<le> 2 ^ 32"
  shows "exposure (on_order_resting c y i s p q re) c y s \<le> exposure re c y s + int (unat q)"
    and "gross_open (on_order_resting c y i s p q re) c \<le> gross_open re c + unat q"
    and "open_orders (on_order_resting c y i s p q re) c \<le> open_orders re c + 1"
proof -
  have fin: "finite (dom (re_working_orders re))" using inv by (simp add: risk_inv_def)
  have grow: "tally g (W(k \<mapsto> w)) \<le> tally g W + g k w" if "finite (dom W)" for g W k w
    using that tally_insert [OF that, of k g w] tally_change [OF that, of k _ g w]
    by (cases "W k") force+
  note grow = grow [OF fin]
  show "gross_open (on_order_resting c y i s p q re) c \<le> gross_open re c + unat q"
    using grow [of "gross_of c" "\<lparr>wk_client_id = c, wk_symbol = y, wk_order_id = i\<rparr>"
        "\<lparr>wo_side = s, wo_price = p, wo_remaining_quantity = q\<rparr>"]
    by (simp add: gross_open_def working_orders_after gross_of_def)
  show "open_orders (on_order_resting c y i s p q re) c \<le> open_orders re c + 1"
    using grow [of "count_of c" "\<lparr>wk_client_id = c, wk_symbol = y, wk_order_id = i\<rparr>"
        "\<lparr>wo_side = s, wo_price = p, wo_remaining_quantity = q\<rparr>"]
    by (simp add: open_orders_def working_orders_after count_of_def)
  have "open_quantity_of (on_order_resting c y i s p q re) c y s \<le> open_quantity_of re c y s + unat q"
    using grow [of "open_of c y s" "\<lparr>wk_client_id = c, wk_symbol = y, wk_order_id = i\<rparr>"
        "\<lparr>wo_side = s, wo_price = p, wo_remaining_quantity = q\<rparr>"]
    by (simp add: open_quantity_of_def working_orders_after open_of_def)
  then show "exposure (on_order_resting c y i s p q re) c y s \<le> exposure re c y s + int (unat q)"
    by (simp add: exposure_def)
qed
lemma accepted_decision [simp]: "accepted (decision_of r) \<longleftrightarrow> r = RR_None"
  by (simp add: decision_of_def)

lemma spec_new_order_accepts:
  assumes "spec_new_order re rq = RR_None"
  shows "exposure re (rq_client_id rq) (rq_symbol rq) (rq_side rq) + int (unat (rq_quantity rq)) \<le>
      int (unat (max_position_per_symbol (re_limits re)))"
    and "rq_order_type rq = Limit \<Longrightarrow> rq_time_in_force rq = GoodTillCancel \<Longrightarrow>
      open_orders re (rq_client_id rq) + 1 \<le> unat (max_open_orders (re_limits re)) \<and>
      gross_open re (rq_client_id rq) + unat (rq_quantity rq) \<le> unat (max_open_quantity (re_limits re))"
  using assms by (auto simp: spec_new_order_def Let_def split: if_splits)

lemma ledger_cancelled:
  assumes inv: "risk_inv re" and c: "c \<noteq> 0"
    and w: "re_working_orders re \<lparr>wk_client_id = c, wk_symbol = y, wk_order_id = i\<rparr> = Some w"
  shows "exposure (on_order_cancelled c y i re) c y (wo_side w) =
      exposure re c y (wo_side w) - int (unat (wo_remaining_quantity w))"
    and "gross_open (on_order_cancelled c y i re) c = gross_open re c - unat (wo_remaining_quantity w)"
    and "open_orders (on_order_cancelled c y i re) c + 1 = open_orders re c"
    and "card (dom (re_working_orders (on_order_cancelled c y i re))) \<le> card (dom (re_working_orders re))"
    and "re_limits (on_order_cancelled c y i re) = re_limits re"
proof -
  let ?k = "\<lparr>wk_client_id = c, wk_symbol = y, wk_order_id = i\<rparr>"
  have fin: "finite (dom (re_working_orders re))" using inv by (simp add: risk_inv_def)
  have W: "re_working_orders (on_order_cancelled c y i re) = (re_working_orders re)(?k := None)"
    using c by (simp add: on_order_cancelled_def working_orders_after invalid_risk_client_id_def)
  show "exposure (on_order_cancelled c y i re) c y (wo_side w) =
      exposure re c y (wo_side w) - int (unat (wo_remaining_quantity w))"
    using tally_remove [OF fin w, of "open_of c y (wo_side w)"]
    by (simp add: exposure_def open_quantity_of_def W open_of_def)
  show "gross_open (on_order_cancelled c y i re) c = gross_open re c - unat (wo_remaining_quantity w)"
    using tally_remove [OF fin w, of "gross_of c"] by (simp add: gross_open_def W gross_of_def)
  show "open_orders (on_order_cancelled c y i re) c + 1 = open_orders re c"
    using tally_remove [OF fin w, of "count_of c"] by (simp add: open_orders_def W count_of_def)
  show "card (dom (re_working_orders (on_order_cancelled c y i re))) \<le> card (dom (re_working_orders re))"
    using fin by (intro card_mono) (auto simp: W)
  show "re_limits (on_order_cancelled c y i re) = re_limits re"
    by (auto simp: on_order_cancelled_def erase_working_order_def Let_def split: option.split)
qed

section \<open>A sample engine\<close>

definition sample_risk :: RiskEngine where
  "sample_risk =
     on_trade ''ABC'' 1 2 10 20 30
       (on_order_resting 2 ''ABC'' 20 Sell 100 50
         (on_order_resting 1 ''ABC'' 11 Buy 99 40 (new_risk_engine default_limits)))"

definition sample_request :: "Quantity \<Rightarrow> RiskOrderRequest" where
  "sample_request q = \<lparr>rq_client_id = 1, rq_symbol = ''ABC'', rq_order_id = 12, rq_side = Buy,
     rq_order_type = Limit, rq_time_in_force = GoodTillCancel, rq_price = 99, rq_quantity = q,
     rq_reference_price = None\<rparr>"

lemma sample_risk_reachable: "risk_reachable default_limits sample_risk"
  unfolding sample_risk_def
  by (intro risk_reachable.intros)
    (simp_all add: working_orders_after new_risk_engine_def)

lemma sample_risk_small: "card (dom (re_working_orders sample_risk)) < max_working"
proof -
  let ?W = "re_working_orders (on_order_resting 2 ''ABC'' 20 Sell 100 50
         (on_order_resting 1 ''ABC'' 11 Buy 99 40 (new_risk_engine default_limits)))"
  have "dom (re_working_orders sample_risk) \<subseteq> dom ?W"
    by (auto simp: sample_risk_def on_trade_def working_orders_trade_side working_orders_reduce Let_def
        split: option.splits if_splits)
  moreover have dom: "dom ?W = {\<lparr>wk_client_id = 2, wk_symbol = ''ABC'', wk_order_id = 20\<rparr>,
      \<lparr>wk_client_id = 1, wk_symbol = ''ABC'', wk_order_id = 11\<rparr>}"
    by (simp add: working_orders_after new_risk_engine_def)
  ultimately have "card (dom (re_working_orders sample_risk)) \<le> card (dom ?W)"
    by (intro card_mono) simp_all
  also have "card (dom ?W) = 2" unfolding dom by simp
  finally show ?thesis by (simp add: max_working_def)
qed
section \<open>Properties\<close>

text \<open>
  C26. Exact accounting. In every state the engine can reach, what \<^verbatim>\<open>snapshot\<close> reports for a client
  and a symbol is exact: the number of open orders, the gross open quantity and the open quantity
  per side are the sums over the client's working orders, and the position is a 64-bit integer.
  So the clamped subtractions and saturating additions of the updates lose nothing.
\<close>

theorem risk_accounting:
  assumes "risk_reachable limits re"
  shows "unat (snap_open_orders (risk_snapshot re c y)) = open_orders re c \<and>
    unat (snap_gross_open_quantity (risk_snapshot re c y)) = gross_open re c \<and>
    unat (snap_open_buy_quantity (risk_snapshot re c y)) = open_quantity_of re c y Buy \<and>
    unat (snap_open_sell_quantity (risk_snapshot re c y)) = open_quantity_of re c y Sell \<and>
    snap_position (risk_snapshot re c y) = position_of re c y \<and> is_int64 (position_of re c y)"
proof -
  note reads = risk_inv_reads [OF risk_reachable_inv [OF assms]]
  have "snap_open_orders (risk_snapshot re c y) = cs_open_orders (client_for re c)"
    "snap_gross_open_quantity (risk_snapshot re c y) = cs_gross_open_quantity (client_for re c)"
    "snap_open_buy_quantity (risk_snapshot re c y) = side_open Buy (symbol_for (client_for re c) y)"
    "snap_open_sell_quantity (risk_snapshot re c y) = side_open Sell (symbol_for (client_for re c) y)"
    "snap_position (risk_snapshot re c y) = position_of re c y"
    by (auto simp: risk_snapshot_def find_client_def find_symbol_state_def client_for_def symbol_for_def
        position_of_def side_open_def new_client_state_def new_symbol_state_def Let_def split: option.split)
  then show ?thesis by (simp add: reads)
qed

theorem risk_accounting_witness:
  "unat (snap_open_sell_quantity (risk_snapshot sample_risk 2 ''ABC'')) = open_quantity_of sample_risk 2 ''ABC'' Sell \<and>
   snap_open_sell_quantity (risk_snapshot sample_risk 2 ''ABC'') = 20"
proof -
  have "snap_open_sell_quantity (risk_snapshot sample_risk 2 ''ABC'') = 20" by code_simp
  then show ?thesis using risk_accounting [OF sample_risk_reachable, of 2 "''ABC''"] by simp
qed

text \<open>
  C24. New orders are checked exactly. The decision of \<^verbatim>\<open>check_new_order\<close> is the first violated limit
  in the order kill switches, order quantity, notional, position, open orders, open quantity, each
  stated in exact integers over the working orders: the notional is the product of price and
  quantity, although the code divides, and the position limit bounds the exposure on the order's
  side, although the code works in unsigned words. No violated limit means acceptance.
\<close>

theorem check_new_order_exact:
  assumes "risk_reachable limits re" "card (dom (re_working_orders re)) < max_working"
    and "is_int64 (notional_price (rq_reference_price rq) (rq_price rq))"
  shows "check_new_order re rq = decision_of (spec_new_order re rq)"
  using risk_reachable_inv [OF assms(1)] assms(2,3) by (rule check_new_order_spec)

theorem check_new_order_exact_witness:
  "check_new_order sample_risk (sample_request 5) = decision_of (spec_new_order sample_risk (sample_request 5)) \<and>
   spec_new_order sample_risk (sample_request 5) = RR_None"
proof -
  have "check_new_order sample_risk (sample_request 5) = accept" by code_simp
  moreover have "check_new_order sample_risk (sample_request 5) =
      decision_of (spec_new_order sample_risk (sample_request 5))"
    by (rule check_new_order_exact [OF sample_risk_reachable sample_risk_small])
      (simp add: sample_request_def notional_price_def is_int64_def)
  ultimately show ?thesis using accepted_decision accept_reject_simps(1) by metis
qed

text \<open>
  Replacements are checked exactly: likewise for \<^verbatim>\<open>check_replace\<close>, where the replaced order's
  remaining quantity is taken out of the open quantity and of the exposure first, and an order
  that is not working is refused.
\<close>

theorem check_replace_exact:
  assumes "risk_reachable limits re" "card (dom (re_working_orders re)) < max_working" "is_int64 p"
  shows "check_replace re c y i p q = decision_of (spec_replace re c y i p (unat q))"
  using risk_reachable_inv [OF assms(1)] assms(2,3) by (rule check_replace_spec)

theorem check_replace_exact_witness:
  "check_replace sample_risk 1 ''ABC'' 11 98 45 = decision_of (spec_replace sample_risk 1 ''ABC'' 11 98 45) \<and>
   spec_replace sample_risk 1 ''ABC'' 11 98 45 = RR_None"
proof -
  have "check_replace sample_risk 1 ''ABC'' 11 98 45 = accept" by code_simp
  moreover have "check_replace sample_risk 1 ''ABC'' 11 98 45 =
      decision_of (spec_replace sample_risk 1 ''ABC'' 11 98 (unat (45 :: Quantity)))"
    by (rule check_replace_exact [OF sample_risk_reachable sample_risk_small]) (simp add: is_int64_def)
  ultimately show ?thesis
    using accepted_decision [of "spec_replace sample_risk 1 ''ABC'' 11 98 45"] accept_reject_simps(1) by simp
qed

text \<open>
  C25. Accepted orders keep the limits. After an accepted new order, any fills and any resting
  remainder that together do not exceed its quantity leave the client's exposure on that side
  within the position limit; if the order was allowed to rest, the number of open orders and the
  gross open quantity are within their limits too. The fills may be against any counterparties,
  the client itself included.
\<close>

theorem accepted_order_keeps_limits:
  assumes "risk_reachable limits re" "card (dom (re_working_orders re)) < max_working"
    and "is_int64 (notional_price (rq_reference_price rq) (rq_price rq))"
    and "accepted (check_new_order re rq)"
    and "fills_total fs + unat r \<le> unat (rq_quantity rq)"
    and "re' = on_order_resting (rq_client_id rq) (rq_symbol rq) (rq_order_id rq) (rq_side rq) (rq_price rq) r
      (fold (on_fill (rq_side rq) (rq_symbol rq) (rq_client_id rq) (rq_order_id rq)) fs re)"
  shows "exposure re' (rq_client_id rq) (rq_symbol rq) (rq_side rq) \<le>
      int (unat (max_position_per_symbol (re_limits re))) \<and>
    (rq_order_type rq = Limit \<and> rq_time_in_force rq = GoodTillCancel \<longrightarrow>
      open_orders re' (rq_client_id rq) \<le> unat (max_open_orders (re_limits re)) \<and>
      gross_open re' (rq_client_id rq) \<le> unat (max_open_quantity (re_limits re)))"
proof -
  let ?c = "rq_client_id rq" and ?y = "rq_symbol rq" and ?s = "rq_side rq" and ?i = "rq_order_id rq"
  let ?re1 = "fold (on_fill ?s ?y ?c ?i) fs re"
  have inv: "risk_inv re" by (rule risk_reachable_inv [OF assms(1)])
  have "spec_new_order re rq = RR_None"
    using assms(4) check_new_order_spec [OF inv assms(2,3)] by simp
  note acc = spec_new_order_accepts [OF this]
  note fills = on_fills_limits [OF inv, of ?s ?y ?c ?i fs]
  have small: "card (dom (re_working_orders ?re1)) \<le> 2 ^ 32"
    using fills assms(2) by (simp add: max_working_def)
  have inv1: "risk_inv ?re1" using fills by blast
  note rest = resting_limits [OF inv1 small, of ?c ?y ?i ?s "rq_price rq" r]
  have "exposure re' ?c ?y ?s \<le> int (unat (max_position_per_symbol (re_limits re)))"
    using fills rest(1) acc(1) assms(5,6) by simp
  moreover have "open_orders re' ?c \<le> unat (max_open_orders (re_limits re)) \<and>
      gross_open re' ?c \<le> unat (max_open_quantity (re_limits re))"
    if "rq_order_type rq = Limit" "rq_time_in_force rq = GoodTillCancel"
    using fills rest(2,3) acc(2) [OF that] assms(5,6) by simp
  ultimately show ?thesis by blast
qed

theorem accepted_order_keeps_limits_witness:
  "exposure (on_order_resting 1 ''ABC'' 12 Buy 99 3 (fold (on_fill Buy ''ABC'' 1 12) [(2, 20, 2)] sample_risk))
     1 ''ABC'' Buy \<le> 1000000"
proof -
  have acc: "accepted (check_new_order sample_risk (sample_request 5))" by code_simp
  have lim: "max_position_per_symbol (re_limits sample_risk) = 1000000" by code_simp
  show ?thesis
    using accepted_order_keeps_limits [OF sample_risk_reachable sample_risk_small _ acc _ refl, of "[(2, 20, 2)]" 3]
    by (simp add: sample_request_def notional_price_def is_int64_def fills_total_def lim)
qed

text \<open>
  Accepted replacements keep the limits. After an accepted replacement, the bookkeeping of a
  replacement (the old order is taken out, fills are reported, the remainder rests under the same
  id) leaves the exposure, the number of open orders and the gross open quantity within the limits.
\<close>

theorem accepted_replace_keeps_limits:
  assumes "risk_reachable limits re" "card (dom (re_working_orders re)) < max_working" "is_int64 p"
    and "re_working_orders re \<lparr>wk_client_id = c, wk_symbol = y, wk_order_id = i\<rparr> = Some w"
    and "accepted (check_replace re c y i p q)"
    and "fills_total fs + unat r \<le> unat q"
    and "re' = on_order_resting c y i (wo_side w) p r
      (fold (on_fill (wo_side w) y c i) fs (on_order_cancelled c y i re))"
  shows "exposure re' c y (wo_side w) \<le> int (unat (max_position_per_symbol (re_limits re))) \<and>
    open_orders re' c \<le> unat (max_open_orders (re_limits re)) \<and>
    gross_open re' c \<le> unat (max_open_quantity (re_limits re))"
proof -
  have inv: "risk_inv re" by (rule risk_reachable_inv [OF assms(1)])
  then have "wk_client_id \<lparr>wk_client_id = c, wk_symbol = y, wk_order_id = i\<rparr> \<noteq> 0"
    using assms(4) unfolding risk_inv_def by blast
  then have "c \<noteq> 0" by simp
  note old = ledger_cancelled [OF inv this assms(4)]
  have "spec_replace re c y i p (unat q) = RR_None"
    using assms(5) check_replace_spec [OF inv assms(2,3)] by simp
  then have acc: "open_orders re c \<le> unat (max_open_orders (re_limits re))"
    "gross_open re c - unat (wo_remaining_quantity w) + unat q \<le> unat (max_open_quantity (re_limits re))"
    "exposure re c y (wo_side w) - int (unat (wo_remaining_quantity w)) + int (unat q) \<le>
      int (unat (max_position_per_symbol (re_limits re)))"
    using assms(4) by (auto simp: spec_replace_def Let_def split: if_splits)
  let ?re0 = "on_order_cancelled c y i re"
  let ?re1 = "fold (on_fill (wo_side w) y c i) fs ?re0"
  note fills = on_fills_limits [OF risk_inv_cancelled [OF inv, of c y i], of "wo_side w" y c i fs]
  have small: "card (dom (re_working_orders ?re1)) \<le> 2 ^ 32"
    using fills old(4) assms(2) by (simp add: max_working_def)
  have inv1: "risk_inv ?re1" using fills by blast
  note rest = resting_limits [OF inv1 small, of c y i "wo_side w" p r]
  show ?thesis using fills rest old acc assms(6,7) by simp
qed

theorem accepted_replace_keeps_limits_witness:
  "open_orders (on_order_resting 1 ''ABC'' 11 Buy 98 45 (fold (on_fill Buy ''ABC'' 1 11) []
     (on_order_cancelled 1 ''ABC'' 11 sample_risk))) 1 \<le> 10000"
proof -
  have acc: "accepted (check_replace sample_risk 1 ''ABC'' 11 98 45)" by code_simp
  have w: "re_working_orders sample_risk \<lparr>wk_client_id = 1, wk_symbol = ''ABC'', wk_order_id = 11\<rparr> =
      Some \<lparr>wo_side = Buy, wo_price = 99, wo_remaining_quantity = 40\<rparr>" by code_simp
  have lim: "max_open_orders (re_limits sample_risk) = 10000" by code_simp
  show ?thesis
    using accepted_replace_keeps_limits [OF sample_risk_reachable sample_risk_small _ w acc _ refl, of "[]" 45]
    by (simp add: is_int64_def fills_total_def lim)
qed

text \<open>
  A trade moves quantity from the seller's position to the buyer's. Inside the 64-bit range
  the buyer's position grows and the seller's shrinks by exactly the traded quantity, and no other
  position changes, so that the positions of a symbol keep their sum.
\<close>

theorem trade_moves_positions:
  assumes "b \<noteq> 0" "c \<noteq> 0" "b \<noteq> c" "q \<noteq> 0"
    and "position_of re b y + uint q \<le> int64_max" "int64_min \<le> position_of re c y - uint q"
    and "re' = on_trade y b c i j q re"
  shows "position_of re' b y = position_of re b y + uint q \<and>
    position_of re' c y = position_of re c y - uint q \<and>
    (\<forall>c' y'. (c', y') \<noteq> (b, y) \<and> (c', y') \<noteq> (c, y) \<longrightarrow> position_of re' c' y' = position_of re c' y')"
  using assms by (auto simp: on_trade_def Let_def position_trade_side moved_position_def)

theorem trade_moves_positions_witness:
  "position_of (on_trade ''ABC'' 1 2 11 20 5 sample_risk) 1 ''ABC'' = 35"
proof -
  have pos: "position_of sample_risk 1 ''ABC'' = 30" "position_of sample_risk 2 ''ABC'' = - 30" by code_simp+
  show ?thesis
    using trade_moves_positions [of 1 2 5 sample_risk "''ABC''" "on_trade ''ABC'' 1 2 11 20 5 sample_risk" 11 20] pos
    by simp
qed


end
