(* ===== verification/Buffer_Independence.thy ===== *)
theory Buffer_Independence
  imports Engine_Invariants
begin

text \<open>
  Order entry writes the trade buffer and never reads it: what it does to the book, its outcome and
  the trades it reports do not depend on the buffer the caller passes. The replayer and the server
  pass a buffer they keep between orders, the public \<^verbatim>\<open>process_order\<close> a fresh one.
\<close>

definition same_trades :: "TradeBuffer \<Rightarrow> TradeBuffer \<Rightarrow> bool" where
  "same_trades t1 t2 \<longleftrightarrow> tb_wf t1 \<and> tb_wf t2 \<and> tb_to_vector t1 = tb_to_vector t2"

lemma same_trades_push [simp]: "same_trades t1 t2 \<Longrightarrow> same_trades (tb_push_back x t1) (tb_push_back x t2)"
  by (simp add: same_trades_def tb_wf_push_back tb_to_vector_push_back)

lemma same_trades_clear [simp]: "tb_wf t1 \<Longrightarrow> tb_wf t2 \<Longrightarrow> same_trades (tb_clear t1) (tb_clear t2)"
  by (simp add: same_trades_def tb_wf_clear tb_to_vector_clear)

definition same_loop_result ::
    "unit outcome \<times> OrderBook \<times> Order \<times> TradeBuffer \<Rightarrow> unit outcome \<times> OrderBook \<times> Order \<times> TradeBuffer \<Rightarrow> bool" where
  "same_loop_result x y \<longleftrightarrow> fst x = fst y \<and> fst (snd x) = fst (snd y) \<and>
     fst (snd (snd x)) = fst (snd (snd y)) \<and> same_trades (snd (snd (snd x))) (snd (snd (snd y)))"

lemma same_loop_result_simps [simp]:
  "same_loop_result (r, b, inc, t1) (r, b, inc, t2) \<longleftrightarrow> same_trades t1 t2"
  by (simp add: same_loop_result_def)

lemma match_buy_loop_same:
  "same_trades t1 t2 \<Longrightarrow> same_loop_result (match_buy_loop b inc t1) (match_buy_loop b inc t2)"
proof (induction b inc t1 arbitrary: t2 rule: match_buy_loop.induct)
  case (1 b inc t1)
  then show ?case
    by (subst (1 2) match_buy_loop.simps)
      (auto simp: Let_def split: sum.split if_splits)
qed

lemma match_sell_loop_same:
  "same_trades t1 t2 \<Longrightarrow> same_loop_result (match_sell_loop b inc t1) (match_sell_loop b inc t2)"
proof (induction b inc t1 arbitrary: t2 rule: match_sell_loop.induct)
  case (1 b inc t1)
  then show ?case
    by (subst (1 2) match_sell_loop.simps)
      (auto simp: Let_def split: sum.split if_splits)
qed

lemma match_same:
  assumes "same_trades t1 t2"
  shows "\<exists>r b' u1 u2. match_buy b inc t1 = (r, b', u1) \<and> match_buy b inc t2 = (r, b', u2) \<and> same_trades u1 u2"
    and "\<exists>r b' u1 u2. match_sell b inc t1 = (r, b', u1) \<and> match_sell b inc t2 = (r, b', u2) \<and> same_trades u1 u2"
  using match_buy_loop_same [OF assms, of b inc] match_sell_loop_same [OF assms, of b inc]
  by (auto simp: match_buy_def match_sell_def same_loop_result_def split: prod.split sum.split)

lemma process_order_into_same:
  assumes "tb_wf t1" "tb_wf t2" "ord_remaining inc \<noteq> 0"
  shows "\<exists>r b' u1 u2. process_order_into b inc t1 = (r, b', u1) \<and> process_order_into b inc t2 = (r, b', u2) \<and>
    same_trades u1 u2"
  using assms match_same [OF same_trades_clear [OF assms(1,2)]]
  by (auto simp: process_order_into_def validate_incoming_def Let_def)

lemma process_order_into_process_order:
  assumes "tb_wf t" "process_order_into b inc t = (r, b', t')"
  shows "process_order b inc = (case r of Inl e \<Rightarrow> Inl e | Inr _ \<Rightarrow> Inr (tb_to_vector t'), b')" "tb_wf t'"
proof -
  have "process_order b inc = (case r of Inl e \<Rightarrow> Inl e | Inr _ \<Rightarrow> Inr (tb_to_vector t'), b') \<and> tb_wf t'"
  proof (cases "ord_remaining inc = 0")
    case True
    then show ?thesis using assms by (auto simp: process_order_def process_order_into_rejects)
  next
    case False
    then obtain r0 b0 u1 u2 where "process_order_into b inc t = (r0, b0, u1)"
      "process_order_into b inc default_trade_buffer = (r0, b0, u2)" "same_trades u1 u2"
      using process_order_into_same [OF assms(1) tb_wf_default False, of b] by blast
    then show ?thesis using assms(2) by (auto simp: process_order_def same_trades_def split: sum.split)
  qed
  then show "process_order b inc = (case r of Inl e \<Rightarrow> Inl e | Inr _ \<Rightarrow> Inr (tb_to_vector t'), b')" "tb_wf t'"
    by blast+
qed

end
