(* ===== verification/Wire.thy ===== *)
theory Wire
  imports Prelude "HOL-Library.Char_ord"
begin

unbundle bit_operations_syntax

text \<open>
  Fixed-width little-endian fields: \<^verbatim>\<open>detail::write_integer\<close> and
  \<^verbatim>\<open>detail::read_integer\<close> of \<^verbatim>\<open>include/exchange/protocol.hpp\<close>, for every
  integer width, with the lemmas that the encoders and decoders of the protocol and the journal
  share. A buffer is a list of bytes, and the \<^verbatim>\<open>offset\<close> the code passes by reference is
  returned with the result.

  An encoder of the code writes its fields one after the other into a zeroed array of the
  message's size; \<open>encode_fields\<close> runs such a list of writes.
\<close>

definition int_bytes :: "'a::len word \<Rightarrow> u8 list" where
  "int_bytes v = map (\<lambda>i. ucast (drop_bit (i * 8) v AND 0xFF)) [0..<LENGTH('a) div 8]"

fun write_bytes :: "u8 list \<Rightarrow> u8 list \<times> nat \<Rightarrow> u8 list \<times> nat" where
  "write_bytes [] w = w"
| "write_bytes (c # cs) w = write_bytes cs ((fst w)[snd w := c], Suc (snd w))"

definition write_integer :: "'a::len word \<Rightarrow> u8 list \<times> nat \<Rightarrow> u8 list \<times> nat" where
  "write_integer v = write_bytes (int_bytes v)"

fun or_bytes :: "nat \<Rightarrow> u8 list \<Rightarrow> 'a::len word \<Rightarrow> 'a word" where
  "or_bytes i [] v = v"
| "or_bytes i (c # cs) v = or_bytes (Suc i) cs (v OR push_bit (i * 8) (ucast c))"

definition bytes_int :: "u8 list \<Rightarrow> 'a::len word" where
  "bytes_int cs = or_bytes 0 cs 0"

definition read_integer :: "u8 list \<Rightarrow> nat \<Rightarrow> 'a::len word option \<times> nat" where
  "read_integer input offset =
     (if offset + LENGTH('a) div 8 > length input then (None, offset)
      else (Some (bytes_int (take (LENGTH('a) div 8) (drop offset input))),
            offset + LENGTH('a) div 8))"

definition encode_fields :: "nat \<Rightarrow> (u8 list \<times> nat \<Rightarrow> u8 list \<times> nat) list \<Rightarrow> u8 list" where
  "encode_fields n writes = fst (fold (\<lambda>write. write) writes (replicate n 0, 0))"

text \<open>A \<^verbatim>\<open>char\<close> and the byte that holds it.\<close>

definition byte_of_char :: "char \<Rightarrow> u8" where
  "byte_of_char c = word_of_nat (of_char c)"

definition char_of_byte :: "u8 \<Rightarrow> char" where
  "char_of_byte w = char_of (unat w)"

section \<open>Writing\<close>

lemma length_int_bytes [simp]: "length (int_bytes (v :: 'a::len word)) = LENGTH('a) div 8"
  by (simp add: int_bytes_def)

lemma write_bytes_at:
  assumes "length pre = n" "length old = length cs"
  shows "write_bytes cs (pre @ old @ post, n) = (pre @ cs @ post, n + length cs)"
  using assms
proof (induction cs arbitrary: pre n old)
  case (Cons c cs)
  then obtain o1 os where old: "old = o1 # os" by (cases old) auto
  show ?case using Cons.IH [of "pre @ [c]" "Suc n" os] Cons.prems old
    by (simp add: list_update_append)
qed simp

lemma write_fields:
  assumes "length (concat fs) = n"
  shows "fold write_bytes fs (replicate n 0, 0) = (concat fs, n)"
proof -
  have "fold write_bytes fs (pre @ old, length pre) = (pre @ concat fs, length pre + length old)"
    if "length (concat fs) = length old" for pre old
    using that
  proof (induction fs arbitrary: pre old)
    case (Cons f fs)
    let ?o1 = "take (length f) old" and ?o2 = "drop (length f) old"
    have len: "length ?o1 = length f" "length (concat fs) = length ?o2" using Cons.prems by auto
    have "write_bytes f (pre @ ?o1 @ ?o2, length pre) = (pre @ f @ ?o2, length pre + length f)"
      using write_bytes_at [of pre "length pre" ?o1 f ?o2] len by simp
    then show ?case using Cons.IH [OF len(2), of "pre @ f"] len by simp
  qed simp
  from this [of "replicate n 0" "[]"] show ?thesis using assms by simp
qed

lemma encode_fields_bytes:
  assumes "length (concat fs) = n"
  shows "encode_fields n (map write_bytes fs) = concat fs"
  using write_fields [OF assms] by (simp add: encode_fields_def fold_map comp_def)

section \<open>Reading back what was written\<close>

lemma bit_or_bytes:
  fixes v :: "'a::len word"
  assumes "k < LENGTH('a)"
  shows "bit (or_bytes i cs v) k \<longleftrightarrow>
    bit v k \<or> (\<exists>j<length cs. (i + j) * 8 \<le> k \<and> bit (cs ! j) (k - (i + j) * 8))"
proof (induction cs arbitrary: i v)
  case (Cons c cs)
  have c: "bit (push_bit (i * 8) (ucast c) :: 'a word) k \<longleftrightarrow> i * 8 \<le> k \<and> bit c (k - i * 8)"
    using assms by (auto simp: bit_push_bit_iff bit_ucast_iff)
  have "(\<exists>j<length (c # cs). (i + j) * 8 \<le> k \<and> bit ((c # cs) ! j) (k - (i + j) * 8)) \<longleftrightarrow>
      (i * 8 \<le> k \<and> bit c (k - i * 8)) \<or>
      (\<exists>j<length cs. (Suc i + j) * 8 \<le> k \<and> bit (cs ! j) (k - (Suc i + j) * 8))"
    by (simp add: Ex_less_Suc2 algebra_simps)
  then show ?case using Cons.IH [of "Suc i"] c by (auto simp: bit_or_iff)
qed simp

lemma bit_bytes_int:
  "k < LENGTH('a) \<Longrightarrow> bit (bytes_int cs :: 'a::len word) k \<longleftrightarrow>
    (\<exists>j<length cs. j * 8 \<le> k \<and> bit (cs ! j) (k - j * 8))"
  by (simp add: bytes_int_def bit_or_bytes)

lemma bit_mask_255: "bit (0xFF :: 'a::len word) m \<longleftrightarrow> m < 8 \<and> m < LENGTH('a)"
proof -
  have "(0xFF :: 'a word) = mask 8" by (simp add: mask_eq_exp_minus_1)
  then show ?thesis by (simp only: bit_mask_iff) (auto simp: possible_bit_def)
qed

lemma bit_int_bytes:
  fixes v :: "'a::len word"
  assumes "j < LENGTH('a) div 8"
  shows "bit (int_bytes v ! j) m \<longleftrightarrow> m < 8 \<and> bit v (j * 8 + m)"
proof -
  have room: "j * 8 + 8 \<le> LENGTH('a)" using assms by presburger
  have "int_bytes v ! j = ucast (drop_bit (j * 8) v AND 0xFF)" using assms by (simp add: int_bytes_def)
  then have "bit (int_bytes v ! j) m \<longleftrightarrow> m < 8 \<and> bit v (j * 8 + m) \<and> bit (0xFF :: 'a word) m"
    by (simp only: bit_ucast_iff bit_and_iff bit_drop_bit_eq) auto
  then show ?thesis using room bit_mask_255 [where 'a = 'a, of m] by linarith
qed

lemma bit_u8_less: "bit (c :: u8) m \<Longrightarrow> m < 8"
  using bit_imp_le_length [of c m] by simp

lemma bytes_int_int_bytes [simp]:
  fixes v :: "'a::len word"
  assumes "LENGTH('a) mod 8 = 0"
  shows "bytes_int (int_bytes v) = v"
proof (rule bit_word_eqI)
  fix k assume k: "k < LENGTH('a)"
  have in_range: "k div 8 < LENGTH('a) div 8" using k assms by (simp add: div_less_iff_less_mult dvd_div_mult_self mod_0_imp_dvd)
  have rest: "k div 8 * 8 \<le> k" "k - k div 8 * 8 = k mod 8"
    by (simp_all add: minus_div_mult_eq_mod)
  have byte: "j * 8 \<le> k \<and> bit (int_bytes v ! j) (k - j * 8) \<longleftrightarrow> j * 8 \<le> k \<and> k - j * 8 < 8 \<and> bit v k"
    if "j < LENGTH('a) div 8" for j
    using that by (auto simp: bit_int_bytes)
  show "bit (bytes_int (int_bytes v) :: 'a word) k = bit v k"
  proof
    assume "bit (bytes_int (int_bytes v) :: 'a word) k"
    then obtain j where "j < LENGTH('a) div 8" "j * 8 \<le> k" "bit (int_bytes v ! j) (k - j * 8)"
      using k by (auto simp: bit_bytes_int)
    then show "bit v k" using byte by blast
  next
    assume "bit v k"
    then have "bit (int_bytes v ! (k div 8)) (k - k div 8 * 8)"
      using byte [OF in_range] rest by simp
    then show "bit (bytes_int (int_bytes v) :: 'a word) k"
      using k in_range rest(1) by (auto simp: bit_bytes_int)
  qed
qed

lemma int_bytes_bytes_int [simp]:
  assumes "LENGTH('a) mod 8 = 0" "length cs = LENGTH('a) div 8"
  shows "int_bytes (bytes_int cs :: 'a::len word) = cs"
proof (rule nth_equalityI)
  fix j assume "j < length (int_bytes (bytes_int cs :: 'a word))"
  then have j: "j < LENGTH('a) div 8" by simp
  show "int_bytes (bytes_int cs :: 'a word) ! j = cs ! j"
  proof (rule bit_word_eqI)
    fix m :: nat assume m: "m < LENGTH(8)"
    have small: "j * 8 + m < LENGTH('a)" using j m by simp
    have uniq: "i = j" if "i * 8 \<le> j * 8 + m" "bit (cs ! i) (j * 8 + m - i * 8)" for i
      using bit_u8_less [OF that(2)] that(1) m by simp
    have "bit (int_bytes (bytes_int cs :: 'a word) ! j) m \<longleftrightarrow>
        (\<exists>i<length cs. i * 8 \<le> j * 8 + m \<and> bit (cs ! i) (j * 8 + m - i * 8))"
      using m small by (simp add: bit_int_bytes [OF j] bit_bytes_int)
    also have "\<dots> \<longleftrightarrow> bit (cs ! j) m"
      using uniq j assms(2) by (metis add_diff_cancel_left' le_add1)
    finally show "bit (int_bytes (bytes_int cs :: 'a word) ! j) m = bit (cs ! j) m" .
  qed
qed (use assms in simp)

lemma char_of_byte_of_char [simp]: "char_of_byte (byte_of_char c) = c"
  by (simp add: char_of_byte_def byte_of_char_def unat_of_nat)

lemma byte_of_char_of_byte [simp]: "byte_of_char (char_of_byte w) = w"
proof -
  have "unat w < 256" using unsigned_less [of w, where 'a = nat] by simp
  then show ?thesis by (simp add: char_of_byte_def byte_of_char_def)
qed

section \<open>Cutting a message into fields\<close>

fun slices :: "nat list \<Rightarrow> 'b list \<Rightarrow> 'b list list" where
  "slices [] xs = []"
| "slices (n # ns) xs = take n xs # slices ns (drop n xs)"

lemma concat_slices: "sum_list ns = length xs \<Longrightarrow> concat (slices ns xs) = xs"
  by (induction ns arbitrary: xs) auto

section \<open>Wire formats\<close>

text \<open>
  The contract between an encoder and its decoder: the encoding has a fixed size, a valid message
  is decoded to itself, and whatever the decoder accepts is the encoding of a valid message.
\<close>

locale wire_format =
  fixes enc :: "'m \<Rightarrow> u8 list" and dec :: "u8 list \<Rightarrow> 'm option" and valid :: "'m \<Rightarrow> bool"
    and size :: nat
  assumes enc_size: "valid m \<Longrightarrow> length (enc m) = size"
    and dec_enc: "valid m \<Longrightarrow> dec (enc m) = Some m"
    and dec_valid: "dec input = Some m \<Longrightarrow> valid m"
    and enc_dec: "dec input = Some m \<Longrightarrow> enc m = input"
begin

lemma dec_iff: "dec input = Some m \<longleftrightarrow> valid m \<and> enc m = input"
  using dec_enc dec_valid enc_dec by blast

lemma dec_wrong_size: "length input \<noteq> size \<Longrightarrow> dec input = None"
  using dec_iff enc_size by (metis option.exhaust)

lemma enc_inj: "valid m \<Longrightarrow> valid m' \<Longrightarrow> enc m = enc m' \<Longrightarrow> m = m'"
  using dec_enc by (metis option.inject)

lemma dec_inj: "dec input = Some m \<Longrightarrow> dec input' = Some m \<Longrightarrow> input = input'"
  using enc_dec by metis

end

end
