(* ===== verification/Protocol.thy ===== *)
theory Protocol
  imports Wire
begin

text \<open>
  The binary protocol of \<^verbatim>\<open>include/exchange/protocol.hpp\<close>: symbols, the message header and the
  nine message bodies, each with its encoder and its decoder, field by field as in the code.

  The wire enumerations are the datatypes \<open>PSide\<close>, \<open>POrderType\<close>, \<open>PTimeInForce\<close>;
  \<open>MessageType\<close> has one more constructor, because \<^verbatim>\<open>decode_header\<close> casts any 16-bit code to it.
  A \<^verbatim>\<open>std::int64_t\<close> field is an \<open>int\<close>, written through its 64-bit two's complement.
  A \<^verbatim>\<open>Symbol\<close> is a list of \<open>symbol_size\<close> characters.

  The second half shows that each encoder and decoder pair is a \<open>wire_format\<close>: what is valid
  round-trips, and a decoder accepts nothing but encodings of valid messages.
\<close>

section \<open>Constants and enumerations\<close>

definition protocol_magic :: u32 where "protocol_magic = 0x45584C42"
definition protocol_version :: u16 where "protocol_version = 3"

datatype MessageType =
    MT_NewOrder | MT_CancelOrder | MT_ReplaceOrder
  | MT_OrderAccepted | MT_OrderRejected | MT_OrderCancelled | MT_OrderReplaced
  | MT_TradeExecution | MT_BookUpdate
  | MT_Level3AddOrder | MT_Level3OrderExecuted | MT_Level3OrderDeleted
  | MT_Unnamed u16

fun message_type_code :: "MessageType \<Rightarrow> u16" where
  "message_type_code MT_NewOrder = 1"
| "message_type_code MT_CancelOrder = 2"
| "message_type_code MT_ReplaceOrder = 3"
| "message_type_code MT_OrderAccepted = 100"
| "message_type_code MT_OrderRejected = 101"
| "message_type_code MT_OrderCancelled = 102"
| "message_type_code MT_OrderReplaced = 103"
| "message_type_code MT_TradeExecution = 104"
| "message_type_code MT_BookUpdate = 105"
| "message_type_code MT_Level3AddOrder = 200"
| "message_type_code MT_Level3OrderExecuted = 201"
| "message_type_code MT_Level3OrderDeleted = 202"
| "message_type_code (MT_Unnamed code) = code"

definition named_types :: "MessageType list" where
  "named_types = [MT_NewOrder, MT_CancelOrder, MT_ReplaceOrder, MT_OrderAccepted, MT_OrderRejected,
     MT_OrderCancelled, MT_OrderReplaced, MT_TradeExecution, MT_BookUpdate, MT_Level3AddOrder,
     MT_Level3OrderExecuted, MT_Level3OrderDeleted]"

definition message_type_of :: "u16 \<Rightarrow> MessageType" where
  "message_type_of code =
     (case find (\<lambda>t. message_type_code t = code) named_types of
        Some t \<Rightarrow> t | None \<Rightarrow> MT_Unnamed code)"

datatype PSide = PBuy | PSell
datatype POrderType = PLimit | PMarket
datatype PTimeInForce = PGoodTillCancel | PImmediateOrCancel | PFillOrKill

fun side_code :: "PSide \<Rightarrow> u8" where
  "side_code PBuy = 1"
| "side_code PSell = 2"

fun order_type_code :: "POrderType \<Rightarrow> u8" where
  "order_type_code PLimit = 1"
| "order_type_code PMarket = 2"

fun tif_code :: "PTimeInForce \<Rightarrow> u8" where
  "tif_code PGoodTillCancel = 0"
| "tif_code PImmediateOrCancel = 1"
| "tif_code PFillOrKill = 2"

text \<open>The casts back, applied by the decoders after they checked the code.\<close>

definition side_of :: "u8 \<Rightarrow> PSide" where
  "side_of code = (if code = side_code PBuy then PBuy else PSell)"

definition order_type_of :: "u8 \<Rightarrow> POrderType" where
  "order_type_of code = (if code = order_type_code PLimit then PLimit else PMarket)"

definition tif_of :: "u8 \<Rightarrow> PTimeInForce" where
  "tif_of code =
     (if code = tif_code PGoodTillCancel then PGoodTillCancel
      else if code = tif_code PImmediateOrCancel then PImmediateOrCancel else PFillOrKill)"

section \<open>Symbols\<close>

type_synonym Symbol = "char list"

definition symbol_size :: nat where "symbol_size = 8"

definition NUL :: char where "NUL = CHR 0x00"

definition default_symbol :: Symbol where
  "default_symbol = ''TEST'' @ replicate 4 NUL"

definition char_between :: "char \<Rightarrow> char \<Rightarrow> char \<Rightarrow> bool" where
  "char_between low high c \<longleftrightarrow> low \<le> c \<and> c \<le> high"

definition is_valid_symbol_character :: "char \<Rightarrow> bool" where
  "is_valid_symbol_character c \<longleftrightarrow>
     char_between (CHR ''A'') (CHR ''Z'') c \<or> char_between (CHR ''0'') (CHR ''9'') c \<or>
     c \<in> {CHR ''.'', CHR ''-''}"

fun is_valid_symbol_loop :: "bool \<Rightarrow> bool \<Rightarrow> char list \<Rightarrow> bool" where
  "is_valid_symbol_loop saw_character saw_terminator [] = saw_character"
| "is_valid_symbol_loop saw_character saw_terminator (c # cs) =
     (if c = NUL then is_valid_symbol_loop saw_character True cs
      else if saw_terminator then False
      else if \<not> is_valid_symbol_character c then False
      else is_valid_symbol_loop True saw_terminator cs)"

definition is_valid_symbol :: "Symbol \<Rightarrow> bool" where
  "is_valid_symbol s = is_valid_symbol_loop False False s"

fun make_symbol_loop :: "nat \<Rightarrow> char list \<Rightarrow> Symbol \<Rightarrow> Symbol" where
  "make_symbol_loop i [] s = s"
| "make_symbol_loop i (c # cs) s =
     (if \<not> is_valid_symbol_character c then replicate symbol_size NUL
      else make_symbol_loop (Suc i) cs (s[i := c]))"

definition make_symbol :: "string \<Rightarrow> Symbol" where
  "make_symbol t =
     (if t = [] \<or> length t > symbol_size then replicate symbol_size NUL
      else make_symbol_loop 0 t (replicate symbol_size NUL))"

definition symbol_to_string :: "Symbol \<Rightarrow> string" where
  "symbol_to_string s = (if \<not> is_valid_symbol s then [] else takeWhile (\<lambda>c. c \<noteq> NUL) s)"

definition write_symbol :: "Symbol \<Rightarrow> u8 list \<times> nat \<Rightarrow> u8 list \<times> nat" where
  "write_symbol s = write_bytes (map byte_of_char s)"

definition read_symbol :: "u8 list \<Rightarrow> nat \<Rightarrow> Symbol option \<times> nat" where
  "read_symbol input offset =
     (if offset + symbol_size > length input then (None, offset)
      else let s = map char_of_byte (take symbol_size (drop offset input));
               offset = offset + symbol_size
           in (if \<not> is_valid_symbol s then None else Some s, offset))"

definition write_int64 :: "int \<Rightarrow> u8 list \<times> nat \<Rightarrow> u8 list \<times> nat" where
  "write_int64 v = write_integer (word_of_int v :: u64)"

definition read_int64 :: "u8 list \<Rightarrow> nat \<Rightarrow> int option \<times> nat" where
  "read_int64 input offset =
     (let (v, offset) = read_integer input offset in (map_option (sint :: u64 \<Rightarrow> int) v, offset))"

section \<open>Messages\<close>

record MessageHeader =
  hdr_magic :: u32
  hdr_version :: u16
  hdr_type :: MessageType
  hdr_body_size :: u32
  hdr_sequence_number :: u64

record NewOrderRequest =
  nor_order_id :: u64
  nor_timestamp :: u64
  nor_price :: int
  nor_quantity :: u64
  nor_side :: PSide
  nor_order_type :: POrderType
  nor_time_in_force :: PTimeInForce
  nor_symbol :: Symbol

record CancelOrderRequest =
  cor_order_id :: u64
  cor_timestamp :: u64
  cor_symbol :: Symbol

record ReplaceOrderRequest =
  ror_order_id :: u64
  ror_timestamp :: u64
  ror_new_price :: int
  ror_new_quantity :: u64
  ror_symbol :: Symbol

record OrderResponse =
  rsp_order_id :: u64
  rsp_sequence_number :: u64
  rsp_success :: u8

record TradeExecution =
  tex_buy_order_id :: u64
  tex_sell_order_id :: u64
  tex_price :: int
  tex_quantity :: u64
  tex_sequence_number :: u64
  tex_symbol :: Symbol

record BookUpdate =
  bku_has_bid :: u8
  bku_best_bid :: int
  bku_bid_quantity :: u64
  bku_has_ask :: u8
  bku_best_ask :: int
  bku_ask_quantity :: u64
  bku_sequence_number :: u64
  bku_symbol :: Symbol

record Level3AddOrder =
  l3a_order_id :: u64
  l3a_timestamp :: u64
  l3a_price :: int
  l3a_quantity :: u64
  l3a_side :: PSide
  l3a_sequence_number :: u64
  l3a_symbol :: Symbol

record Level3OrderExecuted =
  l3e_buy_order_id :: u64
  l3e_sell_order_id :: u64
  l3e_price :: int
  l3e_quantity :: u64
  l3e_sequence_number :: u64
  l3e_symbol :: Symbol

record Level3OrderDeleted =
  l3d_order_id :: u64
  l3d_sequence_number :: u64
  l3d_symbol :: Symbol

section \<open>Encoders and decoders\<close>

definition header_size :: nat where "header_size = 20"

definition encode_header :: "MessageHeader \<Rightarrow> u8 list" where
  "encode_header m = encode_fields header_size
     [write_integer (hdr_magic m),
      write_integer (hdr_version m),
      write_integer (message_type_code (hdr_type m)),
      write_integer (hdr_body_size m),
      write_integer (hdr_sequence_number m)]"

definition decode_header :: "u8 list \<Rightarrow> MessageHeader option" where
  "decode_header input =
     (if length input \<noteq> header_size then None
      else
        let (magic, offset) = read_integer input 0;
            (version, offset) = read_integer input offset;
            (type, offset) = read_integer input offset;
            (body_size, offset) = read_integer input offset;
            (sequence_number, offset) = read_integer input offset
        in case (magic, version, type, body_size, sequence_number) of
          (Some magic, Some version, Some type, Some body_size, Some sequence_number) \<Rightarrow>
            if magic \<noteq> protocol_magic \<or> version \<noteq> protocol_version then None
            else Some \<lparr>hdr_magic = magic,
              hdr_version = version,
              hdr_type = message_type_of type,
              hdr_body_size = body_size,
              hdr_sequence_number = sequence_number\<rparr>
        | _ \<Rightarrow> None)"

definition new_order_body_size :: nat where "new_order_body_size = 43"

definition encode_new_order :: "NewOrderRequest \<Rightarrow> u8 list" where
  "encode_new_order m = encode_fields new_order_body_size
     [write_integer (nor_order_id m),
      write_integer (nor_timestamp m),
      write_int64 (nor_price m),
      write_integer (nor_quantity m),
      write_integer (side_code (nor_side m)),
      write_integer (order_type_code (nor_order_type m)),
      write_integer (tif_code (nor_time_in_force m)),
      write_symbol (nor_symbol m)]"

definition decode_new_order :: "u8 list \<Rightarrow> NewOrderRequest option" where
  "decode_new_order input =
     (if length input \<noteq> new_order_body_size then None
      else
        let (order_id, offset) = read_integer input 0;
            (timestamp, offset) = read_integer input offset;
            (price, offset) = read_int64 input offset;
            (quantity, offset) = read_integer input offset;
            (side, offset) = read_integer input offset;
            (order_type, offset) = read_integer input offset;
            (time_in_force, offset) = read_integer input offset;
            (symbol, offset) = read_symbol input offset
        in case (order_id, timestamp, price, quantity, side, order_type, time_in_force, symbol) of
          (Some order_id, Some timestamp, Some price, Some quantity, Some side, Some order_type, Some time_in_force, Some symbol) \<Rightarrow>
            if side \<noteq> side_code PBuy \<and> side \<noteq> side_code PSell then None
            else if order_type \<noteq> order_type_code PLimit \<and> order_type \<noteq> order_type_code PMarket then None
            else if time_in_force \<noteq> tif_code PGoodTillCancel \<and> time_in_force \<noteq> tif_code PImmediateOrCancel \<and>
         time_in_force \<noteq> tif_code PFillOrKill then None
            else if quantity = 0 then None
            else Some \<lparr>nor_order_id = order_id,
              nor_timestamp = timestamp,
              nor_price = price,
              nor_quantity = quantity,
              nor_side = side_of side,
              nor_order_type = order_type_of order_type,
              nor_time_in_force = tif_of time_in_force,
              nor_symbol = symbol\<rparr>
        | _ \<Rightarrow> None)"

definition cancel_order_body_size :: nat where "cancel_order_body_size = 24"

definition encode_cancel_order :: "CancelOrderRequest \<Rightarrow> u8 list" where
  "encode_cancel_order m = encode_fields cancel_order_body_size
     [write_integer (cor_order_id m),
      write_integer (cor_timestamp m),
      write_symbol (cor_symbol m)]"

definition decode_cancel_order :: "u8 list \<Rightarrow> CancelOrderRequest option" where
  "decode_cancel_order input =
     (if length input \<noteq> cancel_order_body_size then None
      else
        let (order_id, offset) = read_integer input 0;
            (timestamp, offset) = read_integer input offset;
            (symbol, offset) = read_symbol input offset
        in case (order_id, timestamp, symbol) of
          (Some order_id, Some timestamp, Some symbol) \<Rightarrow>
            Some \<lparr>cor_order_id = order_id,
              cor_timestamp = timestamp,
              cor_symbol = symbol\<rparr>
        | _ \<Rightarrow> None)"

definition replace_order_body_size :: nat where "replace_order_body_size = 40"

definition encode_replace_order :: "ReplaceOrderRequest \<Rightarrow> u8 list" where
  "encode_replace_order m = encode_fields replace_order_body_size
     [write_integer (ror_order_id m),
      write_integer (ror_timestamp m),
      write_int64 (ror_new_price m),
      write_integer (ror_new_quantity m),
      write_symbol (ror_symbol m)]"

definition decode_replace_order :: "u8 list \<Rightarrow> ReplaceOrderRequest option" where
  "decode_replace_order input =
     (if length input \<noteq> replace_order_body_size then None
      else
        let (order_id, offset) = read_integer input 0;
            (timestamp, offset) = read_integer input offset;
            (new_price, offset) = read_int64 input offset;
            (new_quantity, offset) = read_integer input offset;
            (symbol, offset) = read_symbol input offset
        in case (order_id, timestamp, new_price, new_quantity, symbol) of
          (Some order_id, Some timestamp, Some new_price, Some new_quantity, Some symbol) \<Rightarrow>
            if new_quantity = 0 then None
            else Some \<lparr>ror_order_id = order_id,
              ror_timestamp = timestamp,
              ror_new_price = new_price,
              ror_new_quantity = new_quantity,
              ror_symbol = symbol\<rparr>
        | _ \<Rightarrow> None)"

definition order_response_body_size :: nat where "order_response_body_size = 17"

definition encode_order_response :: "OrderResponse \<Rightarrow> u8 list" where
  "encode_order_response m = encode_fields order_response_body_size
     [write_integer (rsp_order_id m),
      write_integer (rsp_sequence_number m),
      write_integer (rsp_success m)]"

definition decode_order_response :: "u8 list \<Rightarrow> OrderResponse option" where
  "decode_order_response input =
     (if length input \<noteq> order_response_body_size then None
      else
        let (order_id, offset) = read_integer input 0;
            (sequence_number, offset) = read_integer input offset;
            (success, offset) = read_integer input offset
        in case (order_id, sequence_number, success) of
          (Some order_id, Some sequence_number, Some success) \<Rightarrow>
            if success \<noteq> 0 \<and> success \<noteq> 1 then None
            else Some \<lparr>rsp_order_id = order_id,
              rsp_sequence_number = sequence_number,
              rsp_success = success\<rparr>
        | _ \<Rightarrow> None)"

definition trade_execution_body_size :: nat where "trade_execution_body_size = 48"

definition encode_trade_execution :: "TradeExecution \<Rightarrow> u8 list" where
  "encode_trade_execution m = encode_fields trade_execution_body_size
     [write_integer (tex_buy_order_id m),
      write_integer (tex_sell_order_id m),
      write_int64 (tex_price m),
      write_integer (tex_quantity m),
      write_integer (tex_sequence_number m),
      write_symbol (tex_symbol m)]"

definition decode_trade_execution :: "u8 list \<Rightarrow> TradeExecution option" where
  "decode_trade_execution input =
     (if length input \<noteq> trade_execution_body_size then None
      else
        let (buy_order_id, offset) = read_integer input 0;
            (sell_order_id, offset) = read_integer input offset;
            (price, offset) = read_int64 input offset;
            (quantity, offset) = read_integer input offset;
            (sequence_number, offset) = read_integer input offset;
            (symbol, offset) = read_symbol input offset
        in case (buy_order_id, sell_order_id, price, quantity, sequence_number, symbol) of
          (Some buy_order_id, Some sell_order_id, Some price, Some quantity, Some sequence_number, Some symbol) \<Rightarrow>
            if quantity = 0 then None
            else Some \<lparr>tex_buy_order_id = buy_order_id,
              tex_sell_order_id = sell_order_id,
              tex_price = price,
              tex_quantity = quantity,
              tex_sequence_number = sequence_number,
              tex_symbol = symbol\<rparr>
        | _ \<Rightarrow> None)"

definition book_update_body_size :: nat where "book_update_body_size = 50"

definition encode_book_update :: "BookUpdate \<Rightarrow> u8 list" where
  "encode_book_update m = encode_fields book_update_body_size
     [write_integer (bku_has_bid m),
      write_int64 (bku_best_bid m),
      write_integer (bku_bid_quantity m),
      write_integer (bku_has_ask m),
      write_int64 (bku_best_ask m),
      write_integer (bku_ask_quantity m),
      write_integer (bku_sequence_number m),
      write_symbol (bku_symbol m)]"

definition decode_book_update :: "u8 list \<Rightarrow> BookUpdate option" where
  "decode_book_update input =
     (if length input \<noteq> book_update_body_size then None
      else
        let (has_bid, offset) = read_integer input 0;
            (best_bid, offset) = read_int64 input offset;
            (bid_quantity, offset) = read_integer input offset;
            (has_ask, offset) = read_integer input offset;
            (best_ask, offset) = read_int64 input offset;
            (ask_quantity, offset) = read_integer input offset;
            (sequence_number, offset) = read_integer input offset;
            (symbol, offset) = read_symbol input offset
        in case (has_bid, best_bid, bid_quantity, has_ask, best_ask, ask_quantity, sequence_number, symbol) of
          (Some has_bid, Some best_bid, Some bid_quantity, Some has_ask, Some best_ask, Some ask_quantity, Some sequence_number, Some symbol) \<Rightarrow>
            if has_bid \<noteq> 0 \<and> has_bid \<noteq> 1 \<or> has_ask \<noteq> 0 \<and> has_ask \<noteq> 1 then None
            else if has_bid = 0 \<and> (best_bid \<noteq> 0 \<or> bid_quantity \<noteq> 0) then None
            else if has_ask = 0 \<and> (best_ask \<noteq> 0 \<or> ask_quantity \<noteq> 0) then None
            else Some \<lparr>bku_has_bid = has_bid,
              bku_best_bid = best_bid,
              bku_bid_quantity = bid_quantity,
              bku_has_ask = has_ask,
              bku_best_ask = best_ask,
              bku_ask_quantity = ask_quantity,
              bku_sequence_number = sequence_number,
              bku_symbol = symbol\<rparr>
        | _ \<Rightarrow> None)"

definition level3_add_order_body_size :: nat where "level3_add_order_body_size = 49"

definition encode_level3_add_order :: "Level3AddOrder \<Rightarrow> u8 list" where
  "encode_level3_add_order m = encode_fields level3_add_order_body_size
     [write_integer (l3a_order_id m),
      write_integer (l3a_timestamp m),
      write_int64 (l3a_price m),
      write_integer (l3a_quantity m),
      write_integer (side_code (l3a_side m)),
      write_integer (l3a_sequence_number m),
      write_symbol (l3a_symbol m)]"

definition decode_level3_add_order :: "u8 list \<Rightarrow> Level3AddOrder option" where
  "decode_level3_add_order input =
     (if length input \<noteq> level3_add_order_body_size then None
      else
        let (order_id, offset) = read_integer input 0;
            (timestamp, offset) = read_integer input offset;
            (price, offset) = read_int64 input offset;
            (quantity, offset) = read_integer input offset;
            (side, offset) = read_integer input offset;
            (sequence_number, offset) = read_integer input offset;
            (symbol, offset) = read_symbol input offset
        in case (order_id, timestamp, price, quantity, side, sequence_number, symbol) of
          (Some order_id, Some timestamp, Some price, Some quantity, Some side, Some sequence_number, Some symbol) \<Rightarrow>
            if quantity = 0 then None
            else if side \<noteq> side_code PBuy \<and> side \<noteq> side_code PSell then None
            else Some \<lparr>l3a_order_id = order_id,
              l3a_timestamp = timestamp,
              l3a_price = price,
              l3a_quantity = quantity,
              l3a_side = side_of side,
              l3a_sequence_number = sequence_number,
              l3a_symbol = symbol\<rparr>
        | _ \<Rightarrow> None)"

definition level3_order_executed_body_size :: nat where "level3_order_executed_body_size = 48"

definition encode_level3_order_executed :: "Level3OrderExecuted \<Rightarrow> u8 list" where
  "encode_level3_order_executed m = encode_fields level3_order_executed_body_size
     [write_integer (l3e_buy_order_id m),
      write_integer (l3e_sell_order_id m),
      write_int64 (l3e_price m),
      write_integer (l3e_quantity m),
      write_integer (l3e_sequence_number m),
      write_symbol (l3e_symbol m)]"

definition decode_level3_order_executed :: "u8 list \<Rightarrow> Level3OrderExecuted option" where
  "decode_level3_order_executed input =
     (if length input \<noteq> level3_order_executed_body_size then None
      else
        let (buy_order_id, offset) = read_integer input 0;
            (sell_order_id, offset) = read_integer input offset;
            (price, offset) = read_int64 input offset;
            (quantity, offset) = read_integer input offset;
            (sequence_number, offset) = read_integer input offset;
            (symbol, offset) = read_symbol input offset
        in case (buy_order_id, sell_order_id, price, quantity, sequence_number, symbol) of
          (Some buy_order_id, Some sell_order_id, Some price, Some quantity, Some sequence_number, Some symbol) \<Rightarrow>
            if quantity = 0 then None
            else Some \<lparr>l3e_buy_order_id = buy_order_id,
              l3e_sell_order_id = sell_order_id,
              l3e_price = price,
              l3e_quantity = quantity,
              l3e_sequence_number = sequence_number,
              l3e_symbol = symbol\<rparr>
        | _ \<Rightarrow> None)"

definition level3_order_deleted_body_size :: nat where "level3_order_deleted_body_size = 24"

definition encode_level3_order_deleted :: "Level3OrderDeleted \<Rightarrow> u8 list" where
  "encode_level3_order_deleted m = encode_fields level3_order_deleted_body_size
     [write_integer (l3d_order_id m),
      write_integer (l3d_sequence_number m),
      write_symbol (l3d_symbol m)]"

definition decode_level3_order_deleted :: "u8 list \<Rightarrow> Level3OrderDeleted option" where
  "decode_level3_order_deleted input =
     (if length input \<noteq> level3_order_deleted_body_size then None
      else
        let (order_id, offset) = read_integer input 0;
            (sequence_number, offset) = read_integer input offset;
            (symbol, offset) = read_symbol input offset
        in case (order_id, sequence_number, symbol) of
          (Some order_id, Some sequence_number, Some symbol) \<Rightarrow>
            Some \<lparr>l3d_order_id = order_id,
              l3d_sequence_number = sequence_number,
              l3d_symbol = symbol\<rparr>
        | _ \<Rightarrow> None)"
section \<open>Symbols round-trip\<close>

definition symbol_text :: "string \<Rightarrow> bool" where
  "symbol_text t \<longleftrightarrow> t \<noteq> [] \<and> length t \<le> symbol_size \<and> list_all is_valid_symbol_character t"

lemma NUL_not_valid [simp]: "\<not> is_valid_symbol_character NUL"
  by (simp add: is_valid_symbol_character_def char_between_def NUL_def less_eq_char_def)

lemma valid_symbol_loop_terminated:
  "is_valid_symbol_loop seen True cs \<longleftrightarrow> seen \<and> cs = replicate (length cs) NUL"
  by (induction cs) auto

lemma valid_symbol_loop_text:
  "list_all is_valid_symbol_character t \<Longrightarrow>
   is_valid_symbol_loop seen False (t @ cs) = is_valid_symbol_loop (seen \<or> t \<noteq> []) False cs"
  by (induction t arbitrary: seen) auto

lemma valid_symbol_loop_split:
  "is_valid_symbol_loop seen False cs \<Longrightarrow>
   \<exists>t k. cs = t @ replicate k NUL \<and> list_all is_valid_symbol_character t \<and> (seen \<or> t \<noteq> [])"
proof (induction cs arbitrary: seen)
  case (Cons c cs)
  show ?case
  proof (cases "c = NUL")
    case True
    with Cons.prems have "seen" "c # cs = [] @ replicate (Suc (length cs)) NUL"
      by (simp_all add: valid_symbol_loop_terminated)
    then show ?thesis by (metis list.pred_inject(1))
  next
    case False
    with Cons.prems have "is_valid_symbol_character c" "is_valid_symbol_loop True False cs"
      by (auto split: if_splits)
    with Cons.IH obtain t k where "cs = t @ replicate k NUL" "list_all is_valid_symbol_character t"
      by blast
    then have "c # cs = (c # t) @ replicate k NUL" "list_all is_valid_symbol_character (c # t)"
      using \<open>is_valid_symbol_character c\<close> by simp_all
    then show ?thesis by blast
  qed
qed simp

lemma is_valid_symbol_iff:
  "is_valid_symbol s \<longleftrightarrow>
   (\<exists>t k. s = t @ replicate k NUL \<and> t \<noteq> [] \<and> list_all is_valid_symbol_character t)"
proof
  assume "is_valid_symbol s"
  then show "\<exists>t k. s = t @ replicate k NUL \<and> t \<noteq> [] \<and> list_all is_valid_symbol_character t"
    using valid_symbol_loop_split [of False s] by (auto simp: is_valid_symbol_def)
next
  assume "\<exists>t k. s = t @ replicate k NUL \<and> t \<noteq> [] \<and> list_all is_valid_symbol_character t"
  then obtain t k where s: "s = t @ replicate k NUL" "t \<noteq> []" "list_all is_valid_symbol_character t"
    by blast
  have "is_valid_symbol_loop True False (replicate k NUL)"
    by (cases k) (simp_all add: valid_symbol_loop_terminated)
  then show "is_valid_symbol s" using s by (simp add: is_valid_symbol_def valid_symbol_loop_text)
qed

lemma make_symbol_loop_valid:
  assumes "list_all is_valid_symbol_character t" "length pre = i" "length t \<le> k"
  shows "make_symbol_loop i t (pre @ replicate k NUL) = pre @ t @ replicate (k - length t) NUL"
  using assms
proof (induction t arbitrary: pre i k)
  case (Cons c t)
  then obtain k' where k: "k = Suc k'" by (cases k) auto
  show ?case using Cons.IH [of "pre @ [c]" "Suc i" k'] Cons.prems k by (simp add: list_update_append)
qed simp

lemma make_symbol_loop_invalid:
  "\<not> list_all is_valid_symbol_character t \<Longrightarrow> make_symbol_loop i t s = replicate symbol_size NUL"
  by (induction t arbitrary: i s) auto

lemma make_symbol_eq:
  "make_symbol t = (if symbol_text t then t @ replicate (symbol_size - length t) NUL
                    else replicate symbol_size NUL)"
  using make_symbol_loop_valid [of t "[]" 0 symbol_size] make_symbol_loop_invalid [of t]
  by (auto simp: make_symbol_def symbol_text_def)

lemma length_make_symbol [simp]: "length (make_symbol t) = symbol_size"
  by (simp add: make_symbol_eq symbol_text_def)

lemma blank_symbol_invalid [simp]: "\<not> is_valid_symbol (replicate k NUL)"
  unfolding is_valid_symbol_def by (cases k) (simp_all add: valid_symbol_loop_terminated)

lemma is_valid_make_symbol: "is_valid_symbol (make_symbol t) \<longleftrightarrow> symbol_text t"
  by (auto simp: make_symbol_eq is_valid_symbol_iff [of "t @ _"] symbol_text_def)

lemma takeWhile_symbol:
  "list_all is_valid_symbol_character t \<Longrightarrow> takeWhile (\<lambda>c. c \<noteq> NUL) (t @ replicate k NUL) = t"
  by (induction t) (auto simp: takeWhile_replicate)

lemma symbol_to_string_make: "symbol_text t \<Longrightarrow> symbol_to_string (make_symbol t) = t"
  using is_valid_make_symbol [of t]
  by (simp add: symbol_to_string_def make_symbol_eq takeWhile_symbol symbol_text_def)

lemma make_symbol_to_string:
  assumes "is_valid_symbol s" "length s = symbol_size"
  shows "make_symbol (symbol_to_string s) = s" "symbol_text (symbol_to_string s)"
proof -
  obtain t k where s: "s = t @ replicate k NUL" "t \<noteq> []" "list_all is_valid_symbol_character t"
    using assms(1) by (auto simp: is_valid_symbol_iff)
  then have "symbol_to_string s = t" using assms(1) by (simp add: symbol_to_string_def takeWhile_symbol)
  moreover have t: "symbol_text t" using s assms(2) by (simp add: symbol_text_def)
  ultimately show "make_symbol (symbol_to_string s) = s" "symbol_text (symbol_to_string s)"
    using s assms(2) by (simp_all add: make_symbol_eq)
qed

section \<open>Fields\<close>

lemma message_type_of_code:
  assumes "\<forall>x\<in>set named_types. t \<noteq> MT_Unnamed (message_type_code x)"
  shows "message_type_of (message_type_code t) = t"
proof (cases t)
  case (MT_Unnamed c)
  then have "find (\<lambda>t. message_type_code t = c) named_types = None"
    using assms by (auto simp: find_None_iff)
  then show ?thesis using MT_Unnamed by (simp add: message_type_of_def)
qed (simp_all add: message_type_of_def named_types_def)

lemma message_type_code_of [simp]: "message_type_code (message_type_of c) = c"
  by (auto simp: message_type_of_def find_Some_iff split: option.split)

lemma message_type_of_named:
  assumes "t \<in> set named_types"
  shows "message_type_of c \<noteq> MT_Unnamed (message_type_code t)"
proof
  assume eq: "message_type_of c = MT_Unnamed (message_type_code t)"
  have "MT_Unnamed (message_type_code t) \<notin> set named_types" by (simp add: named_types_def)
  with eq have "find (\<lambda>t. message_type_code t = c) named_types = None" "c = message_type_code t"
    by (auto simp: message_type_of_def find_Some_iff split: option.splits)
  then show False using assms by (auto simp: find_None_iff)
qed

text \<open>A decoder's check of an enumeration code says that the cast and its inverse agree.\<close>

declare side_code.simps [simp del] order_type_code.simps [simp del] tif_code.simps [simp del]

lemma side_of_code [simp]: "side_of (side_code s) = s"
  by (cases s) (simp_all add: side_of_def side_code.simps)

lemma side_check [codec_simps]:
  "c \<noteq> side_code PBuy \<and> c \<noteq> side_code PSell \<longleftrightarrow> side_code (side_of c) \<noteq> c"
  by (auto simp: side_of_def)

lemma order_type_of_code [simp]: "order_type_of (order_type_code s) = s"
  by (cases s) (simp_all add: order_type_of_def order_type_code.simps)

lemma order_type_check [codec_simps]:
  "c \<noteq> order_type_code PLimit \<and> c \<noteq> order_type_code PMarket \<longleftrightarrow>
   order_type_code (order_type_of c) \<noteq> c"
  by (auto simp: order_type_of_def)

lemma tif_of_code [simp]: "tif_of (tif_code s) = s"
  by (cases s) (simp_all add: tif_of_def tif_code.simps)

lemma tif_check [codec_simps]:
  "c \<noteq> tif_code PGoodTillCancel \<and> c \<noteq> tif_code PImmediateOrCancel \<and> c \<noteq> tif_code PFillOrKill \<longleftrightarrow>
   tif_code (tif_of c) \<noteq> c"
  by (auto simp: tif_of_def)

lemma sint_of_int64 [codec_simps]: "is_int64 v \<Longrightarrow> sint (word_of_int v :: u64) = v"
  by (simp add: is_int64_def signed_take_bit_int_eq_self_iff signed_of_int)

lemma is_int64_sint [simp]: "is_int64 (sint (w :: u64))"
  using sint_range_size [of w] by (simp add: is_int64_def word_size)

lemma map_byte_char [simp]:
  "map (char_of_byte \<circ> byte_of_char) s = s" "map (byte_of_char \<circ> char_of_byte) w = w"
  by (simp_all add: map_idI)

section \<open>Every message is a wire format\<close>

lemma read_integer_Some [codec_simps]:
  "offset + LENGTH('a) div 8 \<le> length input \<Longrightarrow>
   read_integer input offset =
     (Some (bytes_int (take (LENGTH('a) div 8) (drop offset input)) :: 'a::len word),
      offset + LENGTH('a) div 8)"
  by (simp add: read_integer_def)

lemma read_int64_Some [codec_simps]:
  "offset + 8 \<le> length input \<Longrightarrow>
   read_int64 input offset =
     (Some (sint (bytes_int (take 8 (drop offset input)) :: u64)), offset + 8)"
  by (simp add: read_int64_def read_integer_def)

lemma read_symbol_Some [codec_simps]:
  "offset + 8 \<le> length input \<Longrightarrow>
   read_symbol input offset =
     (let s = map char_of_byte (take 8 (drop offset input))
      in (if is_valid_symbol s then Some s else None, offset + 8))"
  by (simp add: read_symbol_def symbol_size_def Let_def)

lemma int_bytes_slice:
  assumes "bytes_int cs = (v :: 'a::len word)" "LENGTH('a) mod 8 = 0" "length cs = LENGTH('a) div 8"
  shows "int_bytes v = cs"
  unfolding assms(1) [symmetric] using assms(2,3) by (rule int_bytes_bytes_int)

lemmas write_defs = write_integer_def write_int64_def write_symbol_def

lemmas [codec_simps] = symbol_size_def header_size_def new_order_body_size_def
  cancel_order_body_size_def
  replace_order_body_size_def
  order_response_body_size_def
  trade_execution_body_size_def
  book_update_body_size_def
  level3_add_order_body_size_def
  level3_order_executed_body_size_def
  level3_order_deleted_body_size_def Let_def

definition header_valid :: "MessageHeader \<Rightarrow> bool" where
  "header_valid m \<longleftrightarrow>
     hdr_magic m = protocol_magic \<and> hdr_version m = protocol_version \<and>
     (\<forall>t\<in>set named_types. hdr_type m \<noteq> MT_Unnamed (message_type_code t))"

lemma encode_header_bytes:
  "encode_header m = concat
     [int_bytes (hdr_magic m), int_bytes (hdr_version m),
      int_bytes (message_type_code (hdr_type m)), int_bytes (hdr_body_size m),
      int_bytes (hdr_sequence_number m)]"
    (is "_ = concat ?fs")
  using encode_fields_bytes [of ?fs header_size]
  by (simp add: encode_header_def write_defs codec_simps)

interpretation header: wire_format encode_header decode_header header_valid header_size
proof
  fix m assume "header_valid m"
  then show "length (encode_header m) = header_size" "decode_header (encode_header m) = Some m"
    by (simp_all add: header_valid_def encode_header_bytes decode_header_def codec_simps message_type_of_code)
next
  fix input m assume dec: "decode_header input = Some m"
  then have len: "length input = header_size" by (simp add: decode_header_def split: if_splits)
  show valid: "header_valid m"
    using dec len
    by (auto simp: decode_header_def header_valid_def codec_simps split: if_splits dest: message_type_of_named)
  show "encode_header m = input"
    using dec len valid concat_slices [of "[4, 2, 2, 4, 8]" input]
    by (auto simp: encode_header_bytes header_valid_def decode_header_def codec_simps split: if_splits
        dest!: int_bytes_slice)
qed

definition new_order_valid :: "NewOrderRequest \<Rightarrow> bool" where
  "new_order_valid m \<longleftrightarrow>
     is_int64 (nor_price m) \<and> nor_quantity m \<noteq> 0 \<and>
     length (nor_symbol m) = symbol_size \<and> is_valid_symbol (nor_symbol m)"

lemma encode_new_order_bytes:
  assumes "length (nor_symbol m) = symbol_size"
  shows "encode_new_order m = concat
     [int_bytes (nor_order_id m), int_bytes (nor_timestamp m),
      int_bytes (word_of_int (nor_price m) :: u64), int_bytes (nor_quantity m),
      int_bytes (side_code (nor_side m)), int_bytes (order_type_code (nor_order_type m)),
      int_bytes (tif_code (nor_time_in_force m)), map byte_of_char (nor_symbol m)]"
    (is "_ = concat ?fs")
  using encode_fields_bytes [of ?fs new_order_body_size] assms
  by (simp add: encode_new_order_def write_defs codec_simps)

interpretation new_order: wire_format encode_new_order decode_new_order new_order_valid new_order_body_size
proof
  fix m assume "new_order_valid m"
  then show "length (encode_new_order m) = new_order_body_size" "decode_new_order (encode_new_order m) = Some m"
    by (simp_all add: new_order_valid_def encode_new_order_bytes decode_new_order_def codec_simps)
next
  fix input m assume dec: "decode_new_order input = Some m"
  then have len: "length input = new_order_body_size" by (simp add: decode_new_order_def split: if_splits)
  show valid: "new_order_valid m"
    using dec len
    by (auto simp: decode_new_order_def new_order_valid_def codec_simps split: if_splits)
  show "encode_new_order m = input"
    using dec len valid concat_slices [of "[8, 8, 8, 8, 1, 1, 1, 8]" input]
    by (auto simp: encode_new_order_bytes new_order_valid_def decode_new_order_def codec_simps split: if_splits)
qed

definition cancel_order_valid :: "CancelOrderRequest \<Rightarrow> bool" where
  "cancel_order_valid m \<longleftrightarrow>
     length (cor_symbol m) = symbol_size \<and> is_valid_symbol (cor_symbol m)"

lemma encode_cancel_order_bytes:
  assumes "length (cor_symbol m) = symbol_size"
  shows "encode_cancel_order m = concat
     [int_bytes (cor_order_id m), int_bytes (cor_timestamp m), map byte_of_char (cor_symbol m)]"
    (is "_ = concat ?fs")
  using encode_fields_bytes [of ?fs cancel_order_body_size] assms
  by (simp add: encode_cancel_order_def write_defs codec_simps)

interpretation cancel_order: wire_format encode_cancel_order decode_cancel_order cancel_order_valid cancel_order_body_size
proof
  fix m assume "cancel_order_valid m"
  then show "length (encode_cancel_order m) = cancel_order_body_size" "decode_cancel_order (encode_cancel_order m) = Some m"
    by (simp_all add: cancel_order_valid_def encode_cancel_order_bytes decode_cancel_order_def codec_simps)
next
  fix input m assume dec: "decode_cancel_order input = Some m"
  then have len: "length input = cancel_order_body_size" by (simp add: decode_cancel_order_def split: if_splits)
  show valid: "cancel_order_valid m"
    using dec len
    by (auto simp: decode_cancel_order_def cancel_order_valid_def codec_simps split: if_splits)
  show "encode_cancel_order m = input"
    using dec len valid concat_slices [of "[8, 8, 8]" input]
    by (auto simp: encode_cancel_order_bytes cancel_order_valid_def decode_cancel_order_def codec_simps split: if_splits)
qed

definition replace_order_valid :: "ReplaceOrderRequest \<Rightarrow> bool" where
  "replace_order_valid m \<longleftrightarrow>
     is_int64 (ror_new_price m) \<and> ror_new_quantity m \<noteq> 0 \<and>
     length (ror_symbol m) = symbol_size \<and> is_valid_symbol (ror_symbol m)"

lemma encode_replace_order_bytes:
  assumes "length (ror_symbol m) = symbol_size"
  shows "encode_replace_order m = concat
     [int_bytes (ror_order_id m), int_bytes (ror_timestamp m),
      int_bytes (word_of_int (ror_new_price m) :: u64), int_bytes (ror_new_quantity m),
      map byte_of_char (ror_symbol m)]"
    (is "_ = concat ?fs")
  using encode_fields_bytes [of ?fs replace_order_body_size] assms
  by (simp add: encode_replace_order_def write_defs codec_simps)

interpretation replace_order: wire_format encode_replace_order decode_replace_order replace_order_valid replace_order_body_size
proof
  fix m assume "replace_order_valid m"
  then show "length (encode_replace_order m) = replace_order_body_size" "decode_replace_order (encode_replace_order m) = Some m"
    by (simp_all add: replace_order_valid_def encode_replace_order_bytes decode_replace_order_def codec_simps)
next
  fix input m assume dec: "decode_replace_order input = Some m"
  then have len: "length input = replace_order_body_size" by (simp add: decode_replace_order_def split: if_splits)
  show valid: "replace_order_valid m"
    using dec len
    by (auto simp: decode_replace_order_def replace_order_valid_def codec_simps split: if_splits)
  show "encode_replace_order m = input"
    using dec len valid concat_slices [of "[8, 8, 8, 8, 8]" input]
    by (auto simp: encode_replace_order_bytes replace_order_valid_def decode_replace_order_def codec_simps split: if_splits)
qed

definition order_response_valid :: "OrderResponse \<Rightarrow> bool" where
  "order_response_valid m \<longleftrightarrow>
     (rsp_success m = 0 \<or> rsp_success m = 1)"

lemma encode_order_response_bytes:
  "encode_order_response m = concat
     [int_bytes (rsp_order_id m), int_bytes (rsp_sequence_number m), int_bytes (rsp_success m)]"
    (is "_ = concat ?fs")
  using encode_fields_bytes [of ?fs order_response_body_size]
  by (simp add: encode_order_response_def write_defs codec_simps)

interpretation order_response: wire_format encode_order_response decode_order_response order_response_valid order_response_body_size
proof
  fix m assume "order_response_valid m"
  then show "length (encode_order_response m) = order_response_body_size" "decode_order_response (encode_order_response m) = Some m"
    by (simp_all add: order_response_valid_def encode_order_response_bytes decode_order_response_def codec_simps)
next
  fix input m assume dec: "decode_order_response input = Some m"
  then have len: "length input = order_response_body_size" by (simp add: decode_order_response_def split: if_splits)
  show valid: "order_response_valid m"
    using dec len
    by (auto simp: decode_order_response_def order_response_valid_def codec_simps split: if_splits)
  show "encode_order_response m = input"
    using dec len valid concat_slices [of "[8, 8, 1]" input]
    by (auto simp: encode_order_response_bytes order_response_valid_def decode_order_response_def codec_simps split: if_splits
        dest!: int_bytes_slice)
qed

definition trade_execution_valid :: "TradeExecution \<Rightarrow> bool" where
  "trade_execution_valid m \<longleftrightarrow>
     is_int64 (tex_price m) \<and> tex_quantity m \<noteq> 0 \<and>
     length (tex_symbol m) = symbol_size \<and> is_valid_symbol (tex_symbol m)"

lemma encode_trade_execution_bytes:
  assumes "length (tex_symbol m) = symbol_size"
  shows "encode_trade_execution m = concat
     [int_bytes (tex_buy_order_id m), int_bytes (tex_sell_order_id m),
      int_bytes (word_of_int (tex_price m) :: u64), int_bytes (tex_quantity m),
      int_bytes (tex_sequence_number m), map byte_of_char (tex_symbol m)]"
    (is "_ = concat ?fs")
  using encode_fields_bytes [of ?fs trade_execution_body_size] assms
  by (simp add: encode_trade_execution_def write_defs codec_simps)

interpretation trade_execution: wire_format encode_trade_execution decode_trade_execution trade_execution_valid trade_execution_body_size
proof
  fix m assume "trade_execution_valid m"
  then show "length (encode_trade_execution m) = trade_execution_body_size" "decode_trade_execution (encode_trade_execution m) = Some m"
    by (simp_all add: trade_execution_valid_def encode_trade_execution_bytes decode_trade_execution_def codec_simps)
next
  fix input m assume dec: "decode_trade_execution input = Some m"
  then have len: "length input = trade_execution_body_size" by (simp add: decode_trade_execution_def split: if_splits)
  show valid: "trade_execution_valid m"
    using dec len
    by (auto simp: decode_trade_execution_def trade_execution_valid_def codec_simps split: if_splits)
  show "encode_trade_execution m = input"
    using dec len valid concat_slices [of "[8, 8, 8, 8, 8, 8]" input]
    by (auto simp: encode_trade_execution_bytes trade_execution_valid_def decode_trade_execution_def codec_simps split: if_splits)
qed

definition book_update_valid :: "BookUpdate \<Rightarrow> bool" where
  "book_update_valid m \<longleftrightarrow>
     is_int64 (bku_best_bid m) \<and> is_int64 (bku_best_ask m) \<and>
     bku_has_bid m \<in> {0, 1} \<and> bku_has_ask m \<in> {0, 1} \<and>
     (bku_has_bid m = 0 \<longrightarrow> bku_best_bid m = 0 \<and> bku_bid_quantity m = 0) \<and>
     (bku_has_ask m = 0 \<longrightarrow> bku_best_ask m = 0 \<and> bku_ask_quantity m = 0) \<and>
     length (bku_symbol m) = symbol_size \<and> is_valid_symbol (bku_symbol m)"

lemma encode_book_update_bytes:
  assumes "length (bku_symbol m) = symbol_size"
  shows "encode_book_update m = concat
     [int_bytes (bku_has_bid m), int_bytes (word_of_int (bku_best_bid m) :: u64),
      int_bytes (bku_bid_quantity m), int_bytes (bku_has_ask m),
      int_bytes (word_of_int (bku_best_ask m) :: u64), int_bytes (bku_ask_quantity m),
      int_bytes (bku_sequence_number m), map byte_of_char (bku_symbol m)]"
    (is "_ = concat ?fs")
  using encode_fields_bytes [of ?fs book_update_body_size] assms
  by (simp add: encode_book_update_def write_defs codec_simps)

lemma decode_book_update_eq:
  assumes "length input = book_update_body_size"
  shows "decode_book_update input =
    (let m = \<lparr>bku_has_bid = bytes_int (take 1 input),
              bku_best_bid = sint (bytes_int (take 8 (drop 1 input)) :: u64),
              bku_bid_quantity = bytes_int (take 8 (drop 9 input)),
              bku_has_ask = bytes_int (take 1 (drop 17 input)),
              bku_best_ask = sint (bytes_int (take 8 (drop 18 input)) :: u64),
              bku_ask_quantity = bytes_int (take 8 (drop 26 input)),
              bku_sequence_number = bytes_int (take 8 (drop 34 input)),
              bku_symbol = map char_of_byte (drop 42 input)\<rparr>
     in if book_update_valid m then Some m else None)"
  using assms by (simp add: decode_book_update_def book_update_valid_def codec_simps) blast

interpretation book_update: wire_format encode_book_update decode_book_update book_update_valid
  book_update_body_size
proof
  fix m assume valid: "book_update_valid m"
  then have len: "length (bku_symbol m) = symbol_size" and price: "is_int64 (bku_best_bid m)" "is_int64 (bku_best_ask m)"
    by (simp_all add: book_update_valid_def)
  from len show size: "length (encode_book_update m) = book_update_body_size"
    by (simp add: encode_book_update_bytes codec_simps)
  from len price valid show "decode_book_update (encode_book_update m) = Some m"
    unfolding decode_book_update_eq [OF size]
    by (cases m) (simp add: encode_book_update_bytes codec_simps)
next
  fix input m assume dec: "decode_book_update input = Some m"
  then have len: "length input = book_update_body_size"
    by (simp add: decode_book_update_def split: if_splits)
  show valid: "book_update_valid m"
    using dec by (auto simp: decode_book_update_eq [OF len] Let_def split: if_splits)
  show "encode_book_update m = input"
    using dec concat_slices [of "[1, 8, 8, 1, 8, 8, 8, 8]" input] len
    by (auto simp: decode_book_update_eq [OF len] encode_book_update_bytes codec_simps split: if_splits)
qed

definition level3_add_order_valid :: "Level3AddOrder \<Rightarrow> bool" where
  "level3_add_order_valid m \<longleftrightarrow>
     is_int64 (l3a_price m) \<and> l3a_quantity m \<noteq> 0 \<and>
     length (l3a_symbol m) = symbol_size \<and> is_valid_symbol (l3a_symbol m)"

lemma encode_level3_add_order_bytes:
  assumes "length (l3a_symbol m) = symbol_size"
  shows "encode_level3_add_order m = concat
     [int_bytes (l3a_order_id m), int_bytes (l3a_timestamp m),
      int_bytes (word_of_int (l3a_price m) :: u64), int_bytes (l3a_quantity m),
      int_bytes (side_code (l3a_side m)), int_bytes (l3a_sequence_number m),
      map byte_of_char (l3a_symbol m)]"
    (is "_ = concat ?fs")
  using encode_fields_bytes [of ?fs level3_add_order_body_size] assms
  by (simp add: encode_level3_add_order_def write_defs codec_simps)

interpretation level3_add_order: wire_format encode_level3_add_order decode_level3_add_order level3_add_order_valid level3_add_order_body_size
proof
  fix m assume "level3_add_order_valid m"
  then show "length (encode_level3_add_order m) = level3_add_order_body_size" "decode_level3_add_order (encode_level3_add_order m) = Some m"
    by (simp_all add: level3_add_order_valid_def encode_level3_add_order_bytes decode_level3_add_order_def codec_simps)
next
  fix input m assume dec: "decode_level3_add_order input = Some m"
  then have len: "length input = level3_add_order_body_size" by (simp add: decode_level3_add_order_def split: if_splits)
  show valid: "level3_add_order_valid m"
    using dec len
    by (auto simp: decode_level3_add_order_def level3_add_order_valid_def codec_simps split: if_splits)
  show "encode_level3_add_order m = input"
    using dec len valid concat_slices [of "[8, 8, 8, 8, 1, 8, 8]" input]
    by (auto simp: encode_level3_add_order_bytes level3_add_order_valid_def decode_level3_add_order_def codec_simps split: if_splits)
qed

definition level3_order_executed_valid :: "Level3OrderExecuted \<Rightarrow> bool" where
  "level3_order_executed_valid m \<longleftrightarrow>
     is_int64 (l3e_price m) \<and> l3e_quantity m \<noteq> 0 \<and>
     length (l3e_symbol m) = symbol_size \<and> is_valid_symbol (l3e_symbol m)"

lemma encode_level3_order_executed_bytes:
  assumes "length (l3e_symbol m) = symbol_size"
  shows "encode_level3_order_executed m = concat
     [int_bytes (l3e_buy_order_id m), int_bytes (l3e_sell_order_id m),
      int_bytes (word_of_int (l3e_price m) :: u64), int_bytes (l3e_quantity m),
      int_bytes (l3e_sequence_number m), map byte_of_char (l3e_symbol m)]"
    (is "_ = concat ?fs")
  using encode_fields_bytes [of ?fs level3_order_executed_body_size] assms
  by (simp add: encode_level3_order_executed_def write_defs codec_simps)

interpretation level3_order_executed: wire_format encode_level3_order_executed decode_level3_order_executed level3_order_executed_valid level3_order_executed_body_size
proof
  fix m assume "level3_order_executed_valid m"
  then show "length (encode_level3_order_executed m) = level3_order_executed_body_size" "decode_level3_order_executed (encode_level3_order_executed m) = Some m"
    by (simp_all add: level3_order_executed_valid_def encode_level3_order_executed_bytes decode_level3_order_executed_def codec_simps)
next
  fix input m assume dec: "decode_level3_order_executed input = Some m"
  then have len: "length input = level3_order_executed_body_size" by (simp add: decode_level3_order_executed_def split: if_splits)
  show valid: "level3_order_executed_valid m"
    using dec len
    by (auto simp: decode_level3_order_executed_def level3_order_executed_valid_def codec_simps split: if_splits)
  show "encode_level3_order_executed m = input"
    using dec len valid concat_slices [of "[8, 8, 8, 8, 8, 8]" input]
    by (auto simp: encode_level3_order_executed_bytes level3_order_executed_valid_def decode_level3_order_executed_def codec_simps split: if_splits)
qed

definition level3_order_deleted_valid :: "Level3OrderDeleted \<Rightarrow> bool" where
  "level3_order_deleted_valid m \<longleftrightarrow>
     length (l3d_symbol m) = symbol_size \<and> is_valid_symbol (l3d_symbol m)"

lemma encode_level3_order_deleted_bytes:
  assumes "length (l3d_symbol m) = symbol_size"
  shows "encode_level3_order_deleted m = concat
     [int_bytes (l3d_order_id m), int_bytes (l3d_sequence_number m),
      map byte_of_char (l3d_symbol m)]"
    (is "_ = concat ?fs")
  using encode_fields_bytes [of ?fs level3_order_deleted_body_size] assms
  by (simp add: encode_level3_order_deleted_def write_defs codec_simps)

interpretation level3_order_deleted: wire_format encode_level3_order_deleted decode_level3_order_deleted level3_order_deleted_valid level3_order_deleted_body_size
proof
  fix m assume "level3_order_deleted_valid m"
  then show "length (encode_level3_order_deleted m) = level3_order_deleted_body_size" "decode_level3_order_deleted (encode_level3_order_deleted m) = Some m"
    by (simp_all add: level3_order_deleted_valid_def encode_level3_order_deleted_bytes decode_level3_order_deleted_def codec_simps)
next
  fix input m assume dec: "decode_level3_order_deleted input = Some m"
  then have len: "length input = level3_order_deleted_body_size" by (simp add: decode_level3_order_deleted_def split: if_splits)
  show valid: "level3_order_deleted_valid m"
    using dec len
    by (auto simp: decode_level3_order_deleted_def level3_order_deleted_valid_def codec_simps split: if_splits)
  show "encode_level3_order_deleted m = input"
    using dec len valid concat_slices [of "[8, 8, 8]" input]
    by (auto simp: encode_level3_order_deleted_bytes level3_order_deleted_valid_def decode_level3_order_deleted_def codec_simps split: if_splits)
qed

section \<open>Properties\<close>

text \<open>
  Header round trip: \<^verbatim>\<open>decode_header\<close> accepts an input exactly when it is the 20-byte encoding of
  a header with the protocol's magic number and version, and then returns that header. In
  particular no input is accepted with another length, magic number or version, every sequence
  number and body size survives the trip, and two accepted inputs with the same header are equal.
\<close>

theorem header_roundtrip:
  "decode_header input = Some m \<longleftrightarrow> header_valid m \<and> encode_header m = input"
  by (rule header.dec_iff)

text \<open>
  C33. Order entry round trip: the decoders of the three client requests (new order, cancel,
  replace) accept an input exactly when it is the encoding of a valid request, and return that
  request: signed prices survive their two's complement form, a zero quantity, an unknown side,
  order type or time in force, an ill-formed symbol and every wrong length are refused.
\<close>

theorem order_entry_roundtrip:
  "(decode_new_order input = Some n \<longleftrightarrow> new_order_valid n \<and> encode_new_order n = input) \<and>
   (decode_cancel_order input = Some c \<longleftrightarrow> cancel_order_valid c \<and> encode_cancel_order c = input) \<and>
   (decode_replace_order input = Some r \<longleftrightarrow> replace_order_valid r \<and> encode_replace_order r = input)"
  by (intro conjI new_order.dec_iff cancel_order.dec_iff replace_order.dec_iff)

text \<open>
  Market data round trip: the same for the response and the five messages the exchange
  publishes (trade execution, top-of-book update, and the three order-by-order events): what the
  server encodes is what a subscriber decodes, and a subscriber accepts nothing else.
\<close>

theorem market_data_roundtrip:
  "(decode_order_response input = Some rsp \<longleftrightarrow> order_response_valid rsp \<and> encode_order_response rsp = input) \<and>
   (decode_trade_execution input = Some tex \<longleftrightarrow> trade_execution_valid tex \<and> encode_trade_execution tex = input) \<and>
   (decode_book_update input = Some bku \<longleftrightarrow> book_update_valid bku \<and> encode_book_update bku = input) \<and>
   (decode_level3_add_order input = Some l3a \<longleftrightarrow>
     level3_add_order_valid l3a \<and> encode_level3_add_order l3a = input) \<and>
   (decode_level3_order_executed input = Some l3e \<longleftrightarrow>
     level3_order_executed_valid l3e \<and> encode_level3_order_executed l3e = input) \<and>
   (decode_level3_order_deleted input = Some l3d \<longleftrightarrow>
     level3_order_deleted_valid l3d \<and> encode_level3_order_deleted l3d = input)"
  by (intro conjI order_response.dec_iff trade_execution.dec_iff book_update.dec_iff
      level3_add_order.dec_iff level3_order_executed.dec_iff level3_order_deleted.dec_iff)

text \<open>
  Symbols: \<^verbatim>\<open>make_symbol\<close> yields a valid symbol exactly for a text of one to eight allowed
  characters, \<^verbatim>\<open>symbol_to_string\<close> returns that text again (and the empty string for a rejected
  text), and an eight-character array is a valid symbol exactly when it is the symbol of its own
  text, so the two functions are inverse to each other.
\<close>

theorem symbol_roundtrip:
  "(is_valid_symbol (make_symbol t) \<longleftrightarrow> symbol_text t) \<and>
   symbol_to_string (make_symbol t) = (if symbol_text t then t else []) \<and>
   (is_valid_symbol s \<and> length s = symbol_size \<longleftrightarrow>
     symbol_text (symbol_to_string s) \<and> make_symbol (symbol_to_string s) = s)"
proof (intro conjI)
  show "is_valid_symbol (make_symbol t) \<longleftrightarrow> symbol_text t" by (rule is_valid_make_symbol)
  show "symbol_to_string (make_symbol t) = (if symbol_text t then t else [])"
    using symbol_to_string_make [of t] is_valid_make_symbol [of t] by (simp add: symbol_to_string_def)
  show "is_valid_symbol s \<and> length s = symbol_size \<longleftrightarrow>
      symbol_text (symbol_to_string s) \<and> make_symbol (symbol_to_string s) = s"
    using make_symbol_to_string [of s] is_valid_make_symbol [of "symbol_to_string s"]
      length_make_symbol [of "symbol_to_string s"] by metis
qed


end
