(* ===== verification/Journal.thy ===== *)
theory Journal
  imports Wire
begin

text \<open>
  The append-only journal: \<^verbatim>\<open>include/exchange/journal.hpp\<close> and \<^verbatim>\<open>src/journal.cpp\<close>. A record is
  the length of a message in four little-endian bytes followed by the message.

  The file is the list of bytes that reached it. What the file system does is an argument of the
  operations: whether the file opened, and how many bytes of a write reached the file before the
  stream failed (\<open>None\<close> when all of them did). A failed stream stays failed, as an
  \<^verbatim>\<open>std::ofstream\<close> does. The mutex makes each operation atomic and has no other effect.
\<close>

record ExchangeJournal =
  jr_open :: bool
  jr_failed :: bool
  jr_file :: "u8 list"

definition record_length_size :: nat where "record_length_size = 4"

definition encode_record_length :: "u32 \<Rightarrow> u8 list" where
  "encode_record_length len =
     map (\<lambda>index. ucast (drop_bit (index * 8) len AND 0xFF)) [0..<record_length_size]"

definition open_journal :: "bool \<Rightarrow> bool \<Rightarrow> u8 list \<Rightarrow> ExchangeJournal outcome" where
  "open_journal opened trunc existing =
     (if \<not> opened then Inl (Runtime_Error ''Could not open exchange journal'')
      else Inr \<lparr>jr_open = True, jr_failed = False, jr_file = (if trunc then [] else existing)\<rparr>)"

definition journal_is_open :: "ExchangeJournal \<Rightarrow> bool" where
  "journal_is_open j = jr_open j"

text \<open>\<^verbatim>\<open>output_.write\<close>: nothing is written by a stream that failed before.\<close>

definition stream_write :: "u8 list \<Rightarrow> nat option \<Rightarrow> ExchangeJournal \<Rightarrow> ExchangeJournal" where
  "stream_write bytes fault j =
     (if jr_failed j then j
      else case fault of
        None \<Rightarrow> j\<lparr>jr_file := jr_file j @ bytes\<rparr>
      | Some n \<Rightarrow> j\<lparr>jr_file := jr_file j @ take n bytes, jr_failed := True\<rparr>)"

definition journal_append ::
    "u8 list \<Rightarrow> nat option \<Rightarrow> nat option \<Rightarrow> ExchangeJournal \<Rightarrow> unit outcome \<times> ExchangeJournal" where
  "journal_append message length_fault message_fault j =
     (if length message > 2 ^ 32 - 1 then (Inl (Length_Error ''Journal message is too large''), j)
      else
        let encoded_length = encode_record_length (word_of_nat (length message));
            j = stream_write encoded_length length_fault j;
            j = (if message \<noteq> [] then stream_write message message_fault j else j)
        in if jr_failed j then (Inl (Runtime_Error ''Failed to write and flush journal record''), j)
           else (Inr (), j))"

definition journal_flush :: "bool \<Rightarrow> ExchangeJournal \<Rightarrow> unit outcome \<times> ExchangeJournal" where
  "journal_flush fault j =
     (if \<not> jr_open j then (Inr (), j)
      else
        let j = j\<lparr>jr_failed := jr_failed j \<or> fault\<rparr>
        in if jr_failed j then (Inl (Runtime_Error ''Failed to flush exchange journal''), j)
           else (Inr (), j))"

section \<open>Frames\<close>

definition frame :: "u8 list \<Rightarrow> u8 list" where
  "frame message = encode_record_length (word_of_nat (length message)) @ message"

lemma encode_record_length_bytes: "encode_record_length len = int_bytes len"
  by (simp add: encode_record_length_def int_bytes_def record_length_size_def)

lemma length_encode_record_length [simp]: "length (encode_record_length len) = 4"
  by (simp add: encode_record_length_def record_length_size_def)

lemma length_frame [simp]: "length (frame m) = 4 + length m"
  by (simp add: frame_def)

lemma stream_write_simps [simp]:
  "jr_failed j \<Longrightarrow> stream_write bs f j = j"
  "\<not> jr_failed j \<Longrightarrow> jr_file (stream_write bs f j) = jr_file j @ (case f of None \<Rightarrow> bs | Some n \<Rightarrow> take n bs)"
  "\<not> jr_failed j \<Longrightarrow> jr_failed (stream_write bs f j) \<longleftrightarrow> f \<noteq> None"
  "jr_open (stream_write bs f j) = jr_open j"
  by (auto simp: stream_write_def split: option.split)

lemma journal_append_ok:
  assumes "journal_append m f g j = (Inr (), j')"
  shows "jr_file j' = jr_file j @ frame m \<and> jr_failed j' = jr_failed j \<and> \<not> jr_failed j \<and> length m < 2 ^ 32"
  using assms
  by (cases "jr_failed j"; cases f; cases g; cases m)
    (auto simp: journal_append_def frame_def Let_def split: if_splits)

text \<open>Appending the messages one after the other, until one fails.\<close>

fun append_all :: "(u8 list \<times> nat option \<times> nat option) list \<Rightarrow> ExchangeJournal \<Rightarrow> unit outcome \<times> ExchangeJournal" where
  "append_all [] j = (Inr (), j)"
| "append_all ((m, f, g) # ms) j =
     (case journal_append m f g j of
        (Inl e, j') \<Rightarrow> (Inl e, j')
      | (Inr _, j') \<Rightarrow> append_all ms j')"

text \<open>How many of the messages that run appends.\<close>

fun appended :: "(u8 list \<times> nat option \<times> nat option) list \<Rightarrow> ExchangeJournal \<Rightarrow> nat" where
  "appended [] j = 0"
| "appended ((m, f, g) # ms) j =
     (case journal_append m f g j of
        (Inl e, j') \<Rightarrow> 0
      | (Inr _, j') \<Rightarrow> Suc (appended ms j'))"

lemma appended_le: "appended ms j \<le> length ms"
  by (induction ms j rule: appended.induct) (auto split: prod.split sum.split)

text \<open>Whatever fails, the file holds the frames of the appended messages and a part of one more.\<close>

lemma journal_append_prefix:
  assumes "\<not> jr_failed j" "journal_append m f g j = (r, j')"
  shows "\<exists>n. jr_file j' = jr_file j @ take n (frame m) \<and> (r = Inr () \<longrightarrow> length (frame m) \<le> n)"
proof -
  have part: "take n (frame m) = take n (encode_record_length (word_of_nat (length m))) @ take (n - 4) m" for n
    by (simp add: frame_def)
  consider "length m > 2 ^ 32 - 1" | n where "length m \<le> 2 ^ 32 - 1" "f = Some n"
    | "length m \<le> 2 ^ 32 - 1" "f = None" "g = None \<or> m = []"
    | n where "length m \<le> 2 ^ 32 - 1" "f = None" "g = Some n" "m \<noteq> []"
    by (metis not_less option.exhaust)
  then show ?thesis
  proof cases
    case 1
    then show ?thesis using assms by (intro exI [of _ 0]) (auto simp: journal_append_def)
  next
    case (2 n)
    then show ?thesis using assms
      by (intro exI [of _ "min n 4"]) (auto simp: min_def journal_append_def part Let_def split: if_splits)
  next
    case 3
    then show ?thesis using assms
      by (intro exI [of _ "4 + length m"]) (auto simp: journal_append_def part Let_def split: if_splits)
  next
    case (4 n)
    then show ?thesis using assms
      by (intro exI [of _ "4 + n"]) (auto simp: journal_append_def part Let_def split: if_splits)
  qed
qed

lemma append_all_prefix:
  assumes "\<not> jr_failed j" "append_all ms j = (r, j')"
  shows "\<exists>n. jr_file j' = jr_file j @ concat (map (frame \<circ> fst) (take (appended ms j) ms)) @
      (if appended ms j < length ms then take n (frame (fst (ms ! appended ms j))) else []) \<and>
      (r = Inr () \<longrightarrow> appended ms j = length ms)"
  using assms
proof (induction ms arbitrary: j)
  case (Cons x ms)
  obtain m f g where x: "x = (m, f, g)" by (cases x) auto
  obtain r1 j1 where step: "journal_append m f g j = (r1, j1)" by (metis surj_pair)
  show ?case
  proof (cases r1)
    case (Inl e)
    then obtain n where "jr_file j1 = jr_file j @ take n (frame m)"
      using journal_append_prefix [OF Cons.prems(1) step] by blast
    then show ?thesis using Cons.prems(2) step Inl x by - (rule exI [of _ n], auto)
  next
    case (Inr u)
    then have ok: "journal_append m f g j = (Inr (), j1)" using step by simp
    note ok_file = journal_append_ok [OF ok]
    have "append_all ms j1 = (r, j')" using Cons.prems(2) step Inr x by simp
    moreover have "\<not> jr_failed j1" using ok_file by simp
    ultimately obtain n where
      "jr_file j' = jr_file j1 @ concat (map (frame \<circ> fst) (take (appended ms j1) ms)) @
        (if appended ms j1 < length ms then take n (frame (fst (ms ! appended ms j1))) else [])"
      "r = Inr () \<longrightarrow> appended ms j1 = length ms"
      using Cons.IH by blast
    then show ?thesis using ok_file ok x by - (rule exI [of _ n], auto simp: comp_def)
  qed
qed simp

end
