(* ===== verification/Replay.thy ===== *)
theory Replay
  imports Buffer_Independence Protocol Journal "HOL-Library.AList" "HOL-Library.List_Lexorder"
begin

text \<open>
  Crash recovery: \<^verbatim>\<open>include/exchange/replay.hpp\<close> and \<^verbatim>\<open>src/replay.cpp\<close>. The replayer reads the
  journal record by record, decodes each message and runs it on the matching engine, one order
  book per symbol.

  The hash map of books is an association list, its owning pointers are the books (no branch of
  the code leaves a null pointer in the map). The journal file is its bytes, or \<open>None\<close> when it
  cannot be opened. An exception of the engine is a value, which the handler \<^verbatim>\<open>catch (...)\<close> counts as
  a rejected message: what the engine did to the book before it threw stays.
\<close>

section \<open>State\<close>

record ReplaySummary =
  sum_journal_records :: u64
  sum_new_orders :: u64
  sum_trades :: u64
  sum_rejected_messages :: u64
  sum_unsupported_messages :: u64
  sum_symbols :: u64

type_synonym RecoveredBooks = "(string \<times> OrderBook) list"

record ExchangeReplayer =
  rp_trade_buffer :: TradeBuffer
  rp_books :: RecoveredBooks
  rp_summary :: ReplaySummary

definition new_summary :: ReplaySummary where
  "new_summary = \<lparr>sum_journal_records = 0, sum_new_orders = 0, sum_trades = 0,
     sum_rejected_messages = 0, sum_unsupported_messages = 0, sum_symbols = 0\<rparr>"

definition replay_reset :: "ExchangeReplayer \<Rightarrow> ExchangeReplayer" where
  "replay_reset rp = rp\<lparr>rp_books := [], rp_trade_buffer := tb_clear (rp_trade_buffer rp), rp_summary := new_summary\<rparr>"

definition new_replayer :: ExchangeReplayer where
  "new_replayer = replay_reset
     \<lparr>rp_trade_buffer = default_trade_buffer, rp_books = [], rp_summary = new_summary\<rparr>"

section \<open>Conversions\<close>

definition maximum_record_size :: nat where "maximum_record_size = 1024 * 1024"
definition default_symbol_text :: string where "default_symbol_text = ''TEST''"

definition decode_record_length :: "u8 list \<Rightarrow> u32" where
  "decode_record_length bytes = or_bytes 0 bytes 0"

definition convert_side :: "PSide \<Rightarrow> Side" where
  "convert_side side = (if side = PBuy then Buy else Sell)"

definition convert_order_type :: "POrderType \<Rightarrow> OrderType" where
  "convert_order_type t = (if t = PLimit then Limit else Market)"

fun convert_time_in_force :: "PTimeInForce \<Rightarrow> TimeInForce" where
  "convert_time_in_force PGoodTillCancel = GoodTillCancel"
| "convert_time_in_force PImmediateOrCancel = ImmediateOrCancel"
| "convert_time_in_force PFillOrKill = FillOrKill"

definition order_of_request :: "NewOrderRequest \<Rightarrow> Order" where
  "order_of_request rq =
     (let quantity = ucast (nor_quantity rq) in
      \<lparr>ord_id = nor_order_id rq, ord_side = convert_side (nor_side rq),
       ord_type = convert_order_type (nor_order_type rq),
       ord_tif = convert_time_in_force (nor_time_in_force rq), ord_price = nor_price rq,
       ord_initial = quantity, ord_remaining = quantity, ord_timestamp = nor_timestamp rq\<rparr>)"

definition maximum_quantity :: u64 where "maximum_quantity = 0xFFFFFFFF"

section \<open>Replaying one message\<close>

definition count_rejected :: "ExchangeReplayer \<Rightarrow> ExchangeReplayer" where
  "count_rejected rp =
     rp\<lparr>rp_summary := (rp_summary rp)\<lparr>sum_rejected_messages := sum_rejected_messages (rp_summary rp) + 1\<rparr>\<rparr>"

definition count_trades :: "nat \<Rightarrow> ExchangeReplayer \<Rightarrow> ExchangeReplayer" where
  "count_trades n rp =
     rp\<lparr>rp_summary := (rp_summary rp)\<lparr>sum_trades := sum_trades (rp_summary rp) + word_of_nat n\<rparr>\<rparr>"

definition count_new_order :: "ExchangeReplayer \<Rightarrow> ExchangeReplayer" where
  "count_new_order rp =
     rp\<lparr>rp_summary := (rp_summary rp)\<lparr>sum_new_orders := sum_new_orders (rp_summary rp) + 1\<rparr>\<rparr>"

definition set_book :: "string \<Rightarrow> OrderBook \<Rightarrow> ExchangeReplayer \<Rightarrow> ExchangeReplayer" where
  "set_book symb book rp = rp\<lparr>rp_books := AList.update symb book (rp_books rp)\<rparr>"

definition book_for :: "string \<Rightarrow> ExchangeReplayer \<Rightarrow> OrderBook \<times> ExchangeReplayer" where
  "book_for symb rp =
     (case map_of (rp_books rp) symb of
        None \<Rightarrow> (new_book, set_book symb new_book rp)
      | Some book \<Rightarrow> (book, rp))"

definition replay_new_order :: "u8 list \<Rightarrow> ExchangeReplayer \<Rightarrow> ExchangeReplayer" where
  "replay_new_order body rp =
     (case decode_new_order body of
        None \<Rightarrow> count_rejected rp
      | Some request \<Rightarrow>
          if nor_quantity request > maximum_quantity then count_rejected rp
          else
            let symb = symbol_to_string (nor_symbol request) in
            if symb = [] then count_rejected rp
            else
              case book_for symb rp of (book, rp) \<Rightarrow>
              (case process_order_into book (order_of_request request) (rp_trade_buffer rp) of
                 (res, book, trades) \<Rightarrow>
                   let rp = (set_book symb book rp)\<lparr>rp_trade_buffer := trades\<rparr> in
                   case res of
                     Inl e \<Rightarrow> count_rejected rp
                   | Inr _ \<Rightarrow> count_trades (tb_size trades) (count_new_order rp)))"

definition replay_cancel_order :: "u8 list \<Rightarrow> ExchangeReplayer \<Rightarrow> ExchangeReplayer" where
  "replay_cancel_order body rp =
     (case decode_cancel_order body of
        None \<Rightarrow> count_rejected rp
      | Some request \<Rightarrow>
          let symb = symbol_to_string (cor_symbol request) in
          case map_of (rp_books rp) symb of
            None \<Rightarrow> count_rejected rp
          | Some book \<Rightarrow>
              if symb = [] then count_rejected rp
              else
                (case engine_cancel_order book (cor_order_id request) of
                   (res, book) \<Rightarrow>
                     let rp = set_book symb book rp in
                     case res of
                       Inl e \<Rightarrow> count_rejected rp
                     | Inr cancelled \<Rightarrow> if \<not> cancelled then count_rejected rp else rp))"

definition replay_replace_order :: "u8 list \<Rightarrow> ExchangeReplayer \<Rightarrow> ExchangeReplayer" where
  "replay_replace_order body rp =
     (case decode_replace_order body of
        None \<Rightarrow> count_rejected rp
      | Some request \<Rightarrow>
          if ror_new_quantity request > maximum_quantity then count_rejected rp
          else
            let symb = symbol_to_string (ror_symbol request) in
            case map_of (rp_books rp) symb of
              None \<Rightarrow> count_rejected rp
            | Some book \<Rightarrow>
                if symb = [] then count_rejected rp
                else
                  (case replace_order book (ror_order_id request) (ror_new_price request)
                      (ucast (ror_new_quantity request)) (ror_timestamp request) of
                     (res, book) \<Rightarrow>
                       let rp = set_book symb book rp in
                       case res of
                         Inl e \<Rightarrow> count_rejected rp
                       | Inr result \<Rightarrow>
                           if \<not> replaced result then count_rejected rp
                           else count_trades (length (replace_trades result)) rp))"

definition replay_record :: "u8 list \<Rightarrow> ExchangeReplayer \<Rightarrow> ExchangeReplayer" where
  "replay_record bytes rp =
     (let rp = rp\<lparr>rp_summary := (rp_summary rp)\<lparr>sum_journal_records := sum_journal_records (rp_summary rp) + 1\<rparr>\<rparr>
      in case decode_header (take header_size bytes) of
        None \<Rightarrow> count_rejected rp
      | Some header \<Rightarrow>
          let expected_size = header_size + unat (hdr_body_size header) in
          if length bytes \<noteq> expected_size then count_rejected rp
          else
            let body = take (unat (hdr_body_size header)) (drop header_size bytes) in
            case hdr_type header of
              MT_NewOrder \<Rightarrow> replay_new_order body rp
            | MT_CancelOrder \<Rightarrow> replay_cancel_order body rp
            | MT_ReplaceOrder \<Rightarrow> replay_replace_order body rp
            | _ \<Rightarrow> rp\<lparr>rp_summary := (rp_summary rp)
                \<lparr>sum_unsupported_messages := sum_unsupported_messages (rp_summary rp) + 1\<rparr>\<rparr>)"

section \<open>Replaying a file\<close>

definition count_symbols :: "ExchangeReplayer \<Rightarrow> ExchangeReplayer" where
  "count_symbols rp =
     rp\<lparr>rp_summary := (rp_summary rp)\<lparr>sum_symbols := word_of_nat (length (rp_books rp))\<rparr>\<rparr>"

function replay_loop :: "u8 list \<Rightarrow> ExchangeReplayer \<Rightarrow> bool \<times> ExchangeReplayer" where
  "replay_loop input rp =
     (if length input < record_length_size then (True, count_symbols rp)
      else
        let record_size = unat (decode_record_length (take record_length_size input));
            rest = drop record_length_size input
        in if record_size < header_size \<or> record_size > maximum_record_size then (False, count_rejected rp)
           else if length rest < record_size then (False, count_rejected rp)
           else replay_loop (drop record_size rest) (replay_record (take record_size rest) rp))"
  by pat_completeness auto
termination
  by (relation "measure (\<lambda>(input, rp). length input)") (auto simp: record_length_size_def)

declare replay_loop.simps [simp del]

definition replay :: "u8 list option \<Rightarrow> ExchangeReplayer \<Rightarrow> bool \<times> ExchangeReplayer" where
  "replay journal rp =
     (let rp = replay_reset rp in
      case journal of None \<Rightarrow> (False, rp) | Some input \<Rightarrow> replay_loop input rp)"

section \<open>Accessors\<close>

definition replayed_book :: "ExchangeReplayer \<Rightarrow> string \<Rightarrow> OrderBook" where
  "replayed_book rp symb =
     (case map_of (rp_books rp) symb of Some book \<Rightarrow> book | None \<Rightarrow> new_book)"

definition replayed_default_book :: "ExchangeReplayer \<Rightarrow> OrderBook" where
  "replayed_default_book rp = replayed_book rp default_symbol_text"

definition has_symbol :: "ExchangeReplayer \<Rightarrow> string \<Rightarrow> bool" where
  "has_symbol rp symb \<longleftrightarrow> map_of (rp_books rp) symb \<noteq> None"

definition replayed_symbols :: "ExchangeReplayer \<Rightarrow> string list" where
  "replayed_symbols rp = sort (map fst (rp_books rp))"

definition release_order_book :: "ExchangeReplayer \<Rightarrow> OrderBook \<times> ExchangeReplayer" where
  "release_order_book rp =
     (case map_of (rp_books rp) default_symbol_text of
        None \<Rightarrow> (new_book, rp)
      | Some recovered \<Rightarrow>
          (recovered, count_symbols (rp\<lparr>rp_books := AList.delete default_symbol_text (rp_books rp)\<rparr>)))"

definition release_order_books :: "ExchangeReplayer \<Rightarrow> RecoveredBooks \<times> ExchangeReplayer" where
  "release_order_books rp =
     (rp_books rp,
      rp\<lparr>rp_books := [], rp_summary := (rp_summary rp)\<lparr>sum_symbols := 0\<rparr>,
         rp_trade_buffer := tb_clear (rp_trade_buffer rp)\<rparr>)"

end
