(* ===== verification/Replay_Properties.thy ===== *)
theory Replay_Properties
  imports Replay
begin

text \<open>
  What recovery gives back: a journal of complete records replays them in order; a journal cut at
  any byte, as a crash in the middle of a write leaves it, replays its complete records; a journal
  of the requests the server accepted rebuilds the books of the direct run of the matching engine;
  and no byte sequence at all makes the replayer produce an unsound book.
\<close>

section \<open>Reading frames\<close>

lemma decode_frame_length:
  assumes "length m < 2 ^ 32"
  shows "decode_record_length (take record_length_size (frame m @ rest)) = word_of_nat (length m)"
  unfolding decode_record_length_def
  by (simp add: frame_def record_length_size_def encode_record_length_bytes bytes_int_def [symmetric])

lemma unat_length: "length m < 2 ^ 32 \<Longrightarrow> unat (word_of_nat (length m) :: u32) = length m"
  by (simp add: unat_of_nat take_bit_nat_eq_self_iff)

definition message_size_ok :: "u8 list \<Rightarrow> bool" where
  "message_size_ok m \<longleftrightarrow> header_size \<le> length m \<and> length m \<le> maximum_record_size"

lemma message_size_ok_less: "message_size_ok m \<Longrightarrow> length m < 2 ^ 32"
  by (simp add: message_size_ok_def maximum_record_size_def)

lemma replay_loop_frame:
  assumes "message_size_ok m"
  shows "replay_loop (frame m @ rest) rp = replay_loop rest (replay_record m rp)"
  using assms decode_frame_length [OF message_size_ok_less [OF assms], of rest]
    unat_length [OF message_size_ok_less [OF assms]]
  by (subst replay_loop.simps)
    (simp add: message_size_ok_def record_length_size_def Let_def, simp add: frame_def)

lemma replay_loop_frames:
  assumes "\<forall>m\<in>set ms. message_size_ok m"
  shows "replay_loop (concat (map frame ms) @ rest) rp = replay_loop rest (fold replay_record ms rp)"
  using assms by (induction ms arbitrary: rp) (simp_all add: replay_loop_frame)

lemma replay_loop_torn:
  assumes "length m < 2 ^ 32" "n < length (frame m)"
  shows "replay_loop (take n (frame m)) rp = (if n < 4 then (True, count_symbols rp) else (False, count_rejected rp))"
proof (cases "n < 4")
  case True
  then show ?thesis by (subst replay_loop.simps) (simp add: record_length_size_def)
next
  case False
  have torn: "take n (frame m) = encode_record_length (word_of_nat (length m)) @ take (n - 4) m"
    using False by (simp add: frame_def)
  have "unat (decode_record_length (take record_length_size (take n (frame m)))) = length m"
    unfolding torn using assms(1)
    by (simp add: decode_record_length_def record_length_size_def encode_record_length_bytes
        bytes_int_def [symmetric] unat_length)
  moreover have "length (drop record_length_size (take n (frame m))) < length m"
    using assms(2) False by (simp add: record_length_size_def)
  ultimately show ?thesis
    using False assms(2) by (subst replay_loop.simps) (simp add: record_length_size_def Let_def)
qed

section \<open>Requests\<close>

datatype request = NewReq NewOrderRequest | CancelReq CancelOrderRequest | ReplaceReq ReplaceOrderRequest

fun request_ok :: "request \<Rightarrow> bool" where
  "request_ok (NewReq n) \<longleftrightarrow> new_order_valid n \<and> nor_quantity n \<le> maximum_quantity"
| "request_ok (CancelReq c) \<longleftrightarrow> cancel_order_valid c"
| "request_ok (ReplaceReq r) \<longleftrightarrow> replace_order_valid r \<and> ror_new_quantity r \<le> maximum_quantity"

definition header_for :: "MessageType \<Rightarrow> nat \<Rightarrow> u64 \<Rightarrow> MessageHeader" where
  "header_for t n seq = \<lparr>hdr_magic = protocol_magic, hdr_version = protocol_version, hdr_type = t,
     hdr_body_size = word_of_nat n, hdr_sequence_number = seq\<rparr>"

fun message_of :: "u64 \<Rightarrow> request \<Rightarrow> u8 list" where
  "message_of seq (NewReq n) = encode_header (header_for MT_NewOrder new_order_body_size seq) @ encode_new_order n"
| "message_of seq (CancelReq c) =
     encode_header (header_for MT_CancelOrder cancel_order_body_size seq) @ encode_cancel_order c"
| "message_of seq (ReplaceReq r) =
     encode_header (header_for MT_ReplaceOrder replace_order_body_size seq) @ encode_replace_order r"

text \<open>The same request, run directly on the books.\<close>

fun apply_request :: "request \<Rightarrow> (string \<rightharpoonup> OrderBook) \<Rightarrow> (string \<rightharpoonup> OrderBook)" where
  "apply_request (NewReq n) B =
     (let y = symbol_to_string (nor_symbol n); b = (case B y of None \<Rightarrow> new_book | Some b \<Rightarrow> b)
      in B(y \<mapsto> snd (process_order b (order_of_request n))))"
| "apply_request (CancelReq c) B =
     (let y = symbol_to_string (cor_symbol c) in
      case B y of None \<Rightarrow> B | Some b \<Rightarrow> B(y \<mapsto> snd (engine_cancel_order b (cor_order_id c))))"
| "apply_request (ReplaceReq r) B =
     (let y = symbol_to_string (ror_symbol r) in
      case B y of None \<Rightarrow> B
      | Some b \<Rightarrow> B(y \<mapsto> snd (replace_order b (ror_order_id r) (ror_new_price r)
          (ucast (ror_new_quantity r)) (ror_timestamp r))))"

definition books_of :: "ExchangeReplayer \<Rightarrow> string \<rightharpoonup> OrderBook" where
  "books_of rp = map_of (rp_books rp)"

lemma books_of_simps [simp]:
  "books_of (count_rejected rp) = books_of rp" "books_of (count_trades k rp) = books_of rp"
  "books_of (count_new_order rp) = books_of rp" "books_of (count_symbols rp) = books_of rp"
  "books_of (rp\<lparr>rp_summary := s\<rparr>) = books_of rp" "books_of (rp\<lparr>rp_trade_buffer := t\<rparr>) = books_of rp"
  "books_of (set_book y b rp) = (books_of rp)(y \<mapsto> b)"
  by (simp_all add: books_of_def count_rejected_def count_trades_def count_new_order_def
      count_symbols_def set_book_def update_conv')

lemma trade_buffer_simps [simp]:
  "rp_trade_buffer (count_rejected rp) = rp_trade_buffer rp" "rp_trade_buffer (count_trades k rp) = rp_trade_buffer rp"
  "rp_trade_buffer (count_new_order rp) = rp_trade_buffer rp" "rp_trade_buffer (count_symbols rp) = rp_trade_buffer rp"
  "rp_trade_buffer (set_book y b rp) = rp_trade_buffer rp"
  by (simp_all add: count_rejected_def count_trades_def count_new_order_def count_symbols_def set_book_def)

lemma book_for_eq:
  "book_for y rp = (b, rp') \<Longrightarrow>
     b = (case books_of rp y of None \<Rightarrow> new_book | Some b \<Rightarrow> b) \<and>
     rp_trade_buffer rp' = rp_trade_buffer rp \<and> books_of rp' = (books_of rp)(y \<mapsto> b)"
  by (auto simp: book_for_def books_of_def set_book_def update_conv' map_upd_triv split: option.splits)

lemma encode_valid_header:
  assumes "t \<in> set named_types"
  shows "decode_header (encode_header (header_for t n seq)) = Some (header_for t n seq)"
    and "length (encode_header (header_for t n seq)) = header_size"
proof -
  have "header_valid (header_for t n seq)"
    using assms by (auto simp: header_valid_def header_for_def named_types_def)
  then show "decode_header (encode_header (header_for t n seq)) = Some (header_for t n seq)"
    "length (encode_header (header_for t n seq)) = header_size"
    by (simp_all add: header.dec_enc header.enc_size)
qed

lemma message_of_size_ok: "request_ok q \<Longrightarrow> message_size_ok (message_of seq q)"
  by (cases q)
    (auto simp: message_size_ok_def encode_valid_header named_types_def header_size_def maximum_record_size_def
      new_order.enc_size new_order_body_size_def cancel_order.enc_size cancel_order_body_size_def
      replace_order.enc_size replace_order_body_size_def)

definition replayer_ok :: "ExchangeReplayer \<Rightarrow> bool" where
  "replayer_ok rp \<longleftrightarrow> tb_wf (rp_trade_buffer rp)"

lemma symbol_not_empty: "is_valid_symbol s \<Longrightarrow> length s = symbol_size \<Longrightarrow> symbol_to_string s \<noteq> []"
  using make_symbol_to_string(2) [of s] by (simp add: symbol_text_def)
section \<open>One message\<close>

lemma replay_new_order_cases:
  assumes buf: "replayer_ok rp"
  shows "replayer_ok (replay_new_order body rp) \<and>
    (case decode_new_order body of
       None \<Rightarrow> books_of (replay_new_order body rp) = books_of rp
     | Some n \<Rightarrow>
         books_of (replay_new_order body rp) =
           (if nor_quantity n > maximum_quantity \<or> symbol_to_string (nor_symbol n) = [] then books_of rp
            else apply_request (NewReq n) (books_of rp)))"
proof (cases "decode_new_order body")
  case None
  then show ?thesis using buf by (simp add: replay_new_order_def replayer_ok_def)
next
  case (Some n)
  let ?y = "symbol_to_string (nor_symbol n)"
  show ?thesis
  proof (cases "nor_quantity n > maximum_quantity \<or> ?y = []")
    case True
    then show ?thesis using buf Some by (auto simp: replay_new_order_def replayer_ok_def Let_def)
  next
    case False
    obtain b rp1 where b: "book_for ?y rp = (b, rp1)" by (metis surj_pair)
    obtain res b' t' where p: "process_order_into b (order_of_request n) (rp_trade_buffer rp1) = (res, b', t')"
      by (metis prod_cases3)
    note eq = book_for_eq [OF b]
    have "tb_wf (rp_trade_buffer rp1)" using buf eq by (simp add: replayer_ok_def)
    note run = process_order_into_process_order [OF this p]
    have "books_of (replay_new_order body rp) = (books_of rp)(?y \<mapsto> b') \<and>
        rp_trade_buffer (replay_new_order body rp) = t'"
      using Some False b p eq
      by (cases res) (auto simp: replay_new_order_def Let_def)
    then show ?thesis using Some False run eq by (simp add: replayer_ok_def Let_def)
  qed
qed

lemma replay_cancel_order_cases:
  assumes buf: "replayer_ok rp"
  shows "replayer_ok (replay_cancel_order body rp) \<and>
    (case decode_cancel_order body of
       None \<Rightarrow> books_of (replay_cancel_order body rp) = books_of rp
     | Some c \<Rightarrow>
         books_of (replay_cancel_order body rp) =
           (if symbol_to_string (cor_symbol c) = [] then books_of rp
            else apply_request (CancelReq c) (books_of rp)))"
  using buf
  by (auto simp: replay_cancel_order_def replayer_ok_def Let_def books_of_def [symmetric]
      split: option.split prod.split sum.split)

lemma replay_replace_order_cases:
  assumes buf: "replayer_ok rp"
  shows "replayer_ok (replay_replace_order body rp) \<and>
    (case decode_replace_order body of
       None \<Rightarrow> books_of (replay_replace_order body rp) = books_of rp
     | Some r \<Rightarrow>
         books_of (replay_replace_order body rp) =
           (if ror_new_quantity r > maximum_quantity \<or> symbol_to_string (ror_symbol r) = [] then books_of rp
            else apply_request (ReplaceReq r) (books_of rp)))"
  using buf
  by (auto simp: replay_replace_order_def replayer_ok_def Let_def books_of_def [symmetric]
      split: option.split prod.split sum.split)

lemma replay_record_message:
  assumes "t \<in> set named_types" "length body = n" "n < 2 ^ 32"
  shows "replay_record (encode_header (header_for t n seq) @ body) rp =
    (let rp = rp\<lparr>rp_summary := (rp_summary rp)\<lparr>sum_journal_records := sum_journal_records (rp_summary rp) + 1\<rparr>\<rparr>
     in case t of
       MT_NewOrder \<Rightarrow> replay_new_order body rp
     | MT_CancelOrder \<Rightarrow> replay_cancel_order body rp
     | MT_ReplaceOrder \<Rightarrow> replay_replace_order body rp
     | _ \<Rightarrow> rp\<lparr>rp_summary := (rp_summary rp)
         \<lparr>sum_unsupported_messages := sum_unsupported_messages (rp_summary rp) + 1\<rparr>\<rparr>)"
proof -
  have n: "unat (word_of_nat n :: u32) = n" using assms(3) by (simp add: unat_of_nat take_bit_nat_eq_self_iff)
  note h = encode_valid_header [OF assms(1), of n seq]
  have fields: "hdr_type (header_for t n seq) = t" "hdr_body_size (header_for t n seq) = word_of_nat n"
    by (simp_all add: header_for_def)
  show ?thesis
    using h assms(2) by (simp add: replay_record_def fields n Let_def)
qed

lemma replay_message:
  assumes ok: "request_ok q" and buf: "replayer_ok rp"
  shows "books_of (replay_record (message_of seq q) rp) = apply_request q (books_of rp) \<and>
    replayer_ok (replay_record (message_of seq q) rp)"
proof -
  let ?rp = "rp\<lparr>rp_summary := (rp_summary rp)\<lparr>sum_journal_records := sum_journal_records (rp_summary rp) + 1\<rparr>\<rparr>"
  have buf': "replayer_ok ?rp" using buf by (simp add: replayer_ok_def)
  show ?thesis
  proof (cases q)
    case (NewReq n)
    have dec: "decode_new_order (encode_new_order n) = Some n" and size: "length (encode_new_order n) = new_order_body_size"
      and sym: "symbol_to_string (nor_symbol n) \<noteq> []" and q: "\<not> nor_quantity n > maximum_quantity"
      using ok NewReq symbol_not_empty [of "nor_symbol n"]
      by (auto simp: new_order.dec_enc new_order.enc_size) (auto simp: new_order_valid_def)
    have "replay_record (message_of seq q) rp = replay_new_order (encode_new_order n) ?rp"
      using replay_record_message [of MT_NewOrder "encode_new_order n" new_order_body_size seq rp] size NewReq
      by (simp add: named_types_def new_order_body_size_def Let_def)
    then show ?thesis using replay_new_order_cases [OF buf', of "encode_new_order n"] dec sym q NewReq by simp
  next
    case (CancelReq c)
    have dec: "decode_cancel_order (encode_cancel_order c) = Some c"
      and size: "length (encode_cancel_order c) = cancel_order_body_size"
      and sym: "symbol_to_string (cor_symbol c) \<noteq> []"
      using ok CancelReq symbol_not_empty [of "cor_symbol c"]
      by (auto simp: cancel_order.dec_enc cancel_order.enc_size) (auto simp: cancel_order_valid_def)
    have "replay_record (message_of seq q) rp = replay_cancel_order (encode_cancel_order c) ?rp"
      using replay_record_message [of MT_CancelOrder "encode_cancel_order c" cancel_order_body_size seq rp] size CancelReq
      by (simp add: named_types_def cancel_order_body_size_def Let_def)
    then show ?thesis using replay_cancel_order_cases [OF buf', of "encode_cancel_order c"] dec sym CancelReq by simp
  next
    case (ReplaceReq r)
    have dec: "decode_replace_order (encode_replace_order r) = Some r"
      and size: "length (encode_replace_order r) = replace_order_body_size"
      and sym: "symbol_to_string (ror_symbol r) \<noteq> []" and q: "\<not> ror_new_quantity r > maximum_quantity"
      using ok ReplaceReq symbol_not_empty [of "ror_symbol r"]
      by (auto simp: replace_order.dec_enc replace_order.enc_size) (auto simp: replace_order_valid_def)
    have "replay_record (message_of seq q) rp = replay_replace_order (encode_replace_order r) ?rp"
      using replay_record_message [of MT_ReplaceOrder "encode_replace_order r" replace_order_body_size seq rp] size ReplaceReq
      by (simp add: named_types_def replace_order_body_size_def Let_def)
    then show ?thesis using replay_replace_order_cases [OF buf', of "encode_replace_order r"] dec sym q ReplaceReq by simp
  qed
qed

lemma replay_messages:
  assumes "\<forall>x\<in>set log. request_ok (snd x)" "replayer_ok rp"
  shows "books_of (fold replay_record (map (\<lambda>(seq, q). message_of seq q) log) rp) =
      fold apply_request (map snd log) (books_of rp) \<and>
    replayer_ok (fold replay_record (map (\<lambda>(seq, q). message_of seq q) log) rp)"
  using assms
proof (induction log arbitrary: rp)
  case (Cons x log)
  obtain seq q where x: "x = (seq, q)" by (cases x) auto
  then show ?case using Cons.IH replay_message [of q rp seq] Cons.prems by auto
qed simp

section \<open>Any file\<close>

definition books_reachable :: "(string \<rightharpoonup> OrderBook) \<Rightarrow> bool" where
  "books_reachable B \<longleftrightarrow> (\<forall>y b. B y = Some b \<longrightarrow> reachable_book b)"

lemma apply_request_reachable:
  assumes "books_reachable B"
  shows "books_reachable (apply_request q B)"
proof -
  have upd: "books_reachable (B(y \<mapsto> b))" if "reachable_book b" for y b
    using assms that by (simp add: books_reachable_def)
  have known: "reachable_book (case B y of None \<Rightarrow> new_book | Some b \<Rightarrow> b)" for y
    using assms reach_new by (auto simp: books_reachable_def split: option.split)
  show ?thesis
  proof (cases q)
    case (NewReq n)
    then show ?thesis
      using upd reach_process [OF known [of "symbol_to_string (nor_symbol n)"]]
      by (simp add: Let_def) (metis surj_pair snd_conv)
  next
    case (CancelReq c)
    have "reachable_book (snd (engine_cancel_order b i))" if "reachable_book b" for b i
      using reach_cancel [OF that] by (metis prod.collapse)
    then show ?thesis
      using assms upd CancelReq by (auto simp: Let_def books_reachable_def split: option.split)
  next
    case (ReplaceReq r)
    have "reachable_book (snd (replace_order b i p v ts))" if "reachable_book b" for b i p v ts
      using reach_replace [OF that] by (metis prod.collapse)
    then show ?thesis
      using assms upd ReplaceReq by (auto simp: Let_def books_reachable_def split: option.split)
  qed
qed

definition replay_sound :: "ExchangeReplayer \<Rightarrow> bool" where
  "replay_sound rp \<longleftrightarrow> replayer_ok rp \<and> books_reachable (books_of rp)"

lemma replay_record_sound:
  assumes "replay_sound rp"
  shows "replay_sound (replay_record bytes rp)"
proof -
  have sound: "replay_sound (replay_new_order body rp')" "replay_sound (replay_cancel_order body rp')"
    "replay_sound (replay_replace_order body rp')" if "replay_sound rp'" for body rp'
    using that replay_new_order_cases [of rp' body] replay_cancel_order_cases [of rp' body]
      replay_replace_order_cases [of rp' body] apply_request_reachable [of "books_of rp'"]
    by (cases "decode_new_order body"; cases "decode_cancel_order body"; cases "decode_replace_order body";
        simp add: replay_sound_def del: apply_request.simps)+
  have irrelevant: "replay_sound (rp'\<lparr>rp_summary := s\<rparr>) = replay_sound rp'"
    "replay_sound (count_rejected rp') = replay_sound rp'" for rp' s
    by (simp_all add: replay_sound_def replayer_ok_def)
  show ?thesis
    using assms
    by (auto simp: replay_record_def Let_def irrelevant sound split: option.split MessageType.split)
qed

lemma replay_loop_sound: "replay_sound rp \<Longrightarrow> replay_sound (snd (replay_loop input rp))"
proof (induction input rp rule: replay_loop.induct)
  case (1 input rp)
  have irrelevant: "replay_sound (count_rejected rp) = replay_sound rp" "replay_sound (count_symbols rp) = replay_sound rp"
    by (simp_all add: replay_sound_def replayer_ok_def)
  show ?case
    using 1 by (subst replay_loop.simps) (auto simp: Let_def irrelevant replay_record_sound)
qed

lemma replay_reset_sound: "replayer_ok rp \<Longrightarrow> replay_sound (replay_reset rp)"
  by (simp add: replay_sound_def replayer_ok_def replay_reset_def tb_wf_clear books_reachable_def books_of_def)

lemma new_replayer_ok: "replayer_ok new_replayer"
  by (simp add: replayer_ok_def new_replayer_def replay_reset_def tb_wf_clear)

lemma reset_books [simp]: "books_of (replay_reset rp) = Map.empty"
  by (simp add: books_of_def replay_reset_def)

section \<open>Sample requests\<close>

definition sample_new :: "OrderId \<Rightarrow> PSide \<Rightarrow> Price \<Rightarrow> u64 \<Rightarrow> request" where
  "sample_new i s p q = NewReq \<lparr>nor_order_id = i, nor_timestamp = i, nor_price = p, nor_quantity = q,
     nor_side = s, nor_order_type = PLimit, nor_time_in_force = PGoodTillCancel, nor_symbol = default_symbol\<rparr>"

definition sample_log :: "(u64 \<times> request) list" where
  "sample_log =
     [(1, sample_new 1 PBuy 100 5), (2, sample_new 2 PSell 99 3),
      (3, CancelReq \<lparr>cor_order_id = 1, cor_timestamp = 3, cor_symbol = default_symbol\<rparr>)]"

lemma default_symbol_valid [simp]:
  "is_valid_symbol default_symbol" "length default_symbol = symbol_size"
  by code_simp+

lemma sample_log_ok: "\<forall>x\<in>set sample_log. request_ok (snd x)"
  by (auto simp: sample_log_def sample_new_def new_order_valid_def cancel_order_valid_def is_int64_def maximum_quantity_def)

section \<open>Properties\<close>

text \<open>
  C23. Recovery rebuilds the books. Replaying a journal of valid requests, each framed and encoded
  as the server writes it, succeeds and leaves for every symbol exactly the book that running the
  requests directly on the matching engine gives, whatever the state of the replayer before.
\<close>

theorem replay_rebuilds_books:
  assumes "\<forall>x\<in>set log. request_ok (snd x)" "replayer_ok rp"
  shows "\<exists>rp'. replay (Some (concat (map frame (map (\<lambda>(seq, q). message_of seq q) log)))) rp = (True, rp') \<and>
    books_of rp' = fold apply_request (map snd log) Map.empty"
proof -
  let ?ms = "map (\<lambda>(seq, q). message_of seq q) log"
  have "\<forall>m\<in>set ?ms. message_size_ok m" using assms(1) message_of_size_ok by fastforce
  from replay_loop_frames [OF this, of "[]" "replay_reset rp"]
  have "replay (Some (concat (map frame ?ms))) rp =
      replay_loop [] (fold replay_record ?ms (replay_reset rp))"
    by (simp add: replay_def Let_def)
  moreover have "replay_loop [] rp' = (True, count_symbols rp')" for rp'
    by (subst replay_loop.simps) (simp add: record_length_size_def)
  moreover have "replayer_ok (replay_reset rp)" using replay_reset_sound [OF assms(2)] by (simp add: replay_sound_def)
  ultimately show ?thesis using replay_messages [OF assms(1), of "replay_reset rp"] by simp
qed

theorem replay_rebuilds_books_witness:
  "\<exists>rp'. replay (Some (concat (map frame (map (\<lambda>(seq, q). message_of seq q) sample_log)))) new_replayer = (True, rp') \<and>
    books_of rp' = fold apply_request (map snd sample_log) Map.empty"
  by (rule replay_rebuilds_books [OF sample_log_ok new_replayer_ok])

lemma replay_prefix:
  assumes "\<forall>m\<in>set ms. message_size_ok m" "length m < 2 ^ 32" "n < length (frame m)"
  shows "fst (replay (Some (concat (map frame ms) @ take n (frame m))) rp) \<longleftrightarrow> n < 4"
    and "books_of (snd (replay (Some (concat (map frame ms) @ take n (frame m))) rp)) =
      books_of (fold replay_record ms (replay_reset rp))"
  using replay_loop_frames [OF assms(1), of "take n (frame m)" "replay_reset rp"]
    replay_loop_torn [OF assms(2,3), of "fold replay_record ms (replay_reset rp)"]
  by (simp_all add: replay_def Let_def)

lemma replay_complete:
  assumes "\<forall>m\<in>set ms. message_size_ok m"
  shows "fst (replay (Some (concat (map frame ms))) rp)"
    and "books_of (snd (replay (Some (concat (map frame ms))) rp)) = books_of (fold replay_record ms (replay_reset rp))"
  using replay_prefix [OF assms, of "[]" 0 rp] by simp_all

text \<open>The journal file after some of the writes, as messages and as requests.\<close>

abbreviation written_messages :: "((u64 \<times> request) \<times> 'f \<times> 'g) list \<Rightarrow> u8 list list" where
  "written_messages writes \<equiv> map (\<lambda>(seq, q). message_of seq q) (map fst writes)"

lemma written_messages_ok:
  assumes "\<forall>((seq, q), f, g)\<in>set writes. request_ok q"
  shows "\<forall>m\<in>set (written_messages (take k writes)). message_size_ok m"
  using assms message_of_size_ok by (fastforce dest: in_set_takeD)

lemma written_messages_books:
  assumes "\<forall>((seq, q), f, g)\<in>set writes. request_ok q" "replayer_ok rp"
  shows "books_of (fold replay_record (written_messages (take k writes)) (replay_reset rp)) =
    fold apply_request (map (snd \<circ> fst) (take k writes)) Map.empty"
proof -
  have "\<forall>x\<in>set (map fst (take k writes)). request_ok (snd x)"
    using assms(1) by (fastforce dest: in_set_takeD)
  moreover have "replayer_ok (replay_reset rp)"
    using replay_reset_sound [OF assms(2)] by (simp add: replay_sound_def)
  ultimately show ?thesis
    using replay_messages [of "map fst (take k writes)" "replay_reset rp"] by (simp add: comp_def)
qed

text \<open>The record that follows the first \<open>k\<close> ones, and nothing behind the last.\<close>

definition record_at :: "((u64 \<times> request) \<times> 'f \<times> 'g) list \<Rightarrow> nat \<Rightarrow> u8 list" where
  "record_at writes k = (if k < length writes then frame ((\<lambda>((seq, q), _). message_of seq q) (writes ! k)) else [])"

lemma record_at_Suc:
  "concat (map frame (written_messages (take k writes))) @ record_at writes k =
     concat (map frame (written_messages (take (Suc k) writes)))"
  by (cases "k < length writes") (auto simp: record_at_def take_Suc_conv_app_nth split: prod.split)

text \<open>
  C22. A crash in the middle of a write. Requests that decode are appended to an empty journal, and each write may stop
  after any number of bytes; nothing is appended after a failure. The file then holds the records of the requests whose
  appends succeeded, all of them when no append failed, and behind them a part of the next record. Replaying the file
  succeeds exactly when that part is the whole record or shorter than the four bytes of its length, and otherwise
  reports failure, on which the server does not start. In every case the books replayed are exactly those of the
  requests whose records are complete in the file.
\<close>

theorem crash_recovery:
  assumes "\<forall>((seq, q), f, g)\<in>set writes. request_ok q" "replayer_ok rp"
    and "append_all (map (\<lambda>((seq, q), f, g). (message_of seq q, f, g)) writes)
      \<lparr>jr_open = True, jr_failed = False, jr_file = []\<rparr> = (res, j)"
    and "k = appended (map (\<lambda>((seq, q), f, g). (message_of seq q, f, g)) writes)
      \<lparr>jr_open = True, jr_failed = False, jr_file = []\<rparr>"
  shows "\<exists>part rest. record_at writes k = part @ rest \<and> (res = Inr () \<longrightarrow> k = length writes) \<and>
    jr_file j = concat (map frame (written_messages (take k writes))) @ part \<and>
    (fst (replay (Some (jr_file j)) rp) \<longleftrightarrow> part = record_at writes k \<or> length part < 4) \<and>
    books_of (snd (replay (Some (jr_file j)) rp)) =
      fold apply_request (map (snd \<circ> fst) (take (if part = record_at writes k then Suc k else k) writes)) Map.empty"
proof -
  let ?ws = "map (\<lambda>((seq, q), f, g). (message_of seq q, f, g)) writes"
  let ?ms = "\<lambda>k. written_messages (take k writes)"
  have msgs: "map (frame \<circ> fst) (take k ?ws) = map frame (?ms k)" for k
    by (simp add: take_map [symmetric] comp_def case_prod_beta)
  note ok = written_messages_ok [OF assms(1)] and books = written_messages_books [OF assms(1,2)]
  have "\<not> jr_failed \<lparr>jr_open = True, jr_failed = False, jr_file = []\<rparr>" by simp
  from append_all_prefix [OF this assms(3), folded assms(4), unfolded msgs] obtain n
    where k: "res = Inr () \<longrightarrow> k = length ?ws"
      and jf: "jr_file j = jr_file \<lparr>jr_open = True, jr_failed = False, jr_file = []\<rparr> @ concat (map frame (?ms k)) @
        (if k < length ?ws then take n (frame (fst (?ws ! k))) else [])"
    by blast
  define part where "part = take n (record_at writes k)"
  have jf: "jr_file j = concat (map frame (?ms k)) @ part"
    using jf by (auto simp: part_def record_at_def split: prod.split)
  have "fst (replay (Some (jr_file j)) rp) \<longleftrightarrow> part = record_at writes k \<or> length part < 4" (is ?reports)
    and "books_of (snd (replay (Some (jr_file j)) rp)) =
      fold apply_request (map (snd \<circ> fst) (take (if part = record_at writes k then Suc k else k) writes)) Map.empty" (is ?books)
  proof -
    have "?reports \<and> ?books"
    proof (cases "part = record_at writes k")
      case True
      then have "jr_file j = concat (map frame (?ms (Suc k)))" using jf record_at_Suc by simp
      then show ?thesis using True replay_complete [OF ok, of "Suc k" rp] books by (simp del: map_map)
    next
      case False
      then obtain m where m: "record_at writes k = frame m" "m \<in> set (?ms (Suc k))"
        by (fastforce simp: part_def record_at_def take_Suc_conv_app_nth split: if_splits prod.splits)
      have "length m < 2 ^ 32" using ok m(2) message_size_ok_less by blast
      moreover have n: "n < length (frame m)" using False m(1) by (simp add: part_def)
      ultimately show ?thesis
        using False n replay_prefix [OF ok, of m n k rp] books [of k] unfolding jf part_def m(1) by (simp del: map_map)
    qed
    then show ?reports ?books by simp_all
  qed
  moreover have "record_at writes k = part @ drop n (record_at writes k)" by (simp add: part_def)
  ultimately show ?thesis using k jf by (intro exI [of _ part] exI [of _ "drop n (record_at writes k)"]) simp
qed

text \<open>
  A run whose second append stops in the middle of its message.
\<close>

theorem crash_recovery_witness:
  "\<exists>j. snd (append_all (map (\<lambda>((seq, q), f, g). (message_of seq q, f, g))
       [((1, sample_new 1 PBuy 100 5), None, None), ((2, sample_new 2 PSell 99 3), None, Some 7)])
       \<lparr>jr_open = True, jr_failed = False, jr_file = []\<rparr>) = j \<and>
     \<not> fst (replay (Some (jr_file j)) new_replayer) \<and>
     books_of (snd (replay (Some (jr_file j)) new_replayer)) = apply_request (sample_new 1 PBuy 100 5) Map.empty"
proof -
  let ?ws = "[((1, sample_new 1 PBuy 100 5), None, None), ((2, sample_new 2 PSell 99 3), None, Some 7)]
    :: ((u64 \<times> request) \<times> nat option \<times> nat option) list"
  let ?j = "\<lparr>jr_open = True, jr_failed = False, jr_file = []\<rparr>" and ?m = "message_of 2 (sample_new 2 PSell 99 3)"
  have ok: "\<forall>((seq, q), f, g)\<in>set ?ws. request_ok q"
    by (simp add: sample_new_def new_order_valid_def is_int64_def maximum_quantity_def)
  have len: "length (message_of s q) \<le> 2 ^ 32 - 1 \<and> 7 < length (message_of s q)" if "request_ok q" for s q
    using message_of_size_ok [OF that, of s] by (auto simp: message_size_ok_def header_size_def maximum_record_size_def)
  have l: "message_of s q \<noteq> []" if "request_ok q" for s q using len [OF that, of s] by auto
  have k: "appended (map (\<lambda>((seq, q), f, g). (message_of seq q, f, g)) ?ws) ?j = 1"
    and size: "length (jr_file (snd (append_all (map (\<lambda>((seq, q), f, g). (message_of seq q, f, g)) ?ws) ?j))) =
      length (frame (message_of 1 (sample_new 1 PBuy 100 5))) + 11"
    using ok len [of "sample_new 1 PBuy 100 5" 1] len [of "sample_new 2 PSell 99 3" 2]
      l [of "sample_new 1 PBuy 100 5" 1] l [of "sample_new 2 PSell 99 3" 2]
    by (simp_all add: journal_append_def stream_write_def frame_def Let_def del: message_of.simps)
  obtain part where part: "jr_file (snd (append_all (map (\<lambda>((seq, q), f, g). (message_of seq q, f, g)) ?ws) ?j)) =
      concat (map frame (written_messages (take 1 ?ws))) @ part"
    "fst (replay (Some (jr_file (snd (append_all (map (\<lambda>((seq, q), f, g). (message_of seq q, f, g)) ?ws) ?j)))) new_replayer)
      \<longleftrightarrow> part = record_at ?ws 1 \<or> length part < 4"
    "books_of (snd (replay (Some (jr_file (snd (append_all (map (\<lambda>((seq, q), f, g). (message_of seq q, f, g)) ?ws) ?j)))) new_replayer)) =
      fold apply_request (map (snd \<circ> fst) (take (if part = record_at ?ws 1 then Suc 1 else 1) ?ws)) Map.empty"
    using crash_recovery [OF ok new_replayer_ok prod.collapse [symmetric] k [symmetric]] by blast
  have "length part = 11" using arg_cong [OF part(1), of length] size by (simp del: message_of.simps append_all.simps)
  moreover have "11 < length (record_at ?ws 1)"
    using ok len [of "sample_new 2 PSell 99 3" 2] by (simp add: record_at_def del: message_of.simps)
  ultimately show ?thesis using part(2,3) by auto
qed

text \<open>
  No file makes recovery unsound. For every byte sequence, corrupted or truncated in any way,
  every book the replayer holds afterwards is well formed, uncrossed and holds only
  good-till-cancel orders.
\<close>

theorem replay_any_file_sound:
  assumes "replayer_ok rp" "books_of (snd (replay file rp)) y = Some b"
  shows "book_wf b \<and> book_uncrossed b \<and> book_gtc b"
proof -
  have "replay_sound (snd (replay file rp))"
    using replay_loop_sound [OF replay_reset_sound [OF assms(1)]] replay_reset_sound [OF assms(1)]
    by (auto simp: replay_def Let_def split: option.split)
  then have "reachable_book b" using assms(2) by (auto simp: replay_sound_def books_reachable_def)
  from reachable_engine_inv [OF this] show ?thesis by (simp add: engine_inv_def)
qed

theorem replay_any_file_sound_witness:
  "\<exists>b. books_of (snd (replay (Some (frame (message_of 1 (sample_new 1 PBuy 100 5)) @ [1, 2, 3, 4, 5])) new_replayer))
       ''TEST'' = Some b \<and> book_wf b \<and> book_uncrossed b \<and> book_gtc b"
proof -
  let ?q = "sample_new 1 PBuy 100 5" and ?tail = "[1, 2, 3, 4, 5] :: u8 list"
  have ok: "request_ok ?q" by (simp add: sample_new_def new_order_valid_def is_int64_def maximum_quantity_def)
  have "books_of (snd (replay_loop ?tail rp)) = books_of rp" for rp
    by (subst replay_loop.simps) (auto simp: record_length_size_def header_size_def Let_def)
  then have "books_of (snd (replay (Some (frame (message_of 1 ?q) @ ?tail)) new_replayer)) =
      apply_request ?q Map.empty"
    using replay_message [OF ok, of "replay_reset new_replayer" 1] replay_reset_sound [OF new_replayer_ok]
      replay_loop_frame [OF message_of_size_ok [OF ok, of 1]]
    by (simp add: replay_def Let_def replay_sound_def)
  moreover have "symbol_to_string default_symbol = ''TEST''" by code_simp
  ultimately have "\<exists>b. books_of (snd (replay (Some (frame (message_of 1 ?q) @ ?tail)) new_replayer)) ''TEST'' = Some b"
    by (simp add: sample_new_def Let_def)
  then show ?thesis using replay_any_file_sound [OF new_replayer_ok] by blast
qed


end
