(* ===== verification/Spsc_Ring.thy ===== *)
theory Spsc_Ring
  imports Prelude
begin

unbundle bit_operations_syntax

text \<open>
  The single-producer single-consumer ring of \<^verbatim>\<open>include/exchange/lock_free_ring.hpp\<close>.

  Positions are 64-bit words that wrap; the capacity is the number of slots, a power of two. The
  operations are given twice: as functions of one thread running alone (\<open>ring_try_push\<close>,
  \<open>ring_try_pop\<close>), and as the atomic steps of a producer and a consumer that interleave in any
  order (\<open>ring_step\<close>), one step per access to shared memory. The acquire and release orders of the
  code make these accesses take effect in program order for the other side, which is the order the
  steps use; each side's cached position is private to it.

  The histories of what was pushed and popped are ghost state: the steps never read them.
\<close>

section \<open>State and operations\<close>

record 'a SpscRing =
  rg_slots :: "'a list"
  rg_write_position :: u64
  rg_cached_read_position :: u64
  rg_read_position :: u64
  rg_cached_write_position :: u64

definition ring_capacity :: "'a SpscRing \<Rightarrow> nat" where
  "ring_capacity r = length (rg_slots r)"

definition ring_mask :: "'a SpscRing \<Rightarrow> u64" where
  "ring_mask r = word_of_nat (ring_capacity r) - 1"

definition new_ring :: "nat \<Rightarrow> 'a \<Rightarrow> 'a SpscRing" where
  "new_ring capacity d = \<lparr>rg_slots = replicate capacity d, rg_write_position = 0,
     rg_cached_read_position = 0, rg_read_position = 0, rg_cached_write_position = 0\<rparr>"

definition ring_reset :: "'a SpscRing \<Rightarrow> 'a SpscRing" where
  "ring_reset r = r\<lparr>rg_write_position := 0, rg_read_position := 0,
     rg_cached_read_position := 0, rg_cached_write_position := 0\<rparr>"

definition ring_full :: "u64 \<Rightarrow> 'a SpscRing \<Rightarrow> bool" where
  "ring_full write r \<longleftrightarrow> write - rg_cached_read_position r \<ge> word_of_nat (ring_capacity r)"

definition ring_reload_read :: "'a SpscRing \<Rightarrow> 'a SpscRing" where
  "ring_reload_read r = r\<lparr>rg_cached_read_position := rg_read_position r\<rparr>"

definition ring_fill :: "u64 \<Rightarrow> 'a \<Rightarrow> 'a SpscRing \<Rightarrow> 'a SpscRing" where
  "ring_fill write x r = r\<lparr>rg_slots := (rg_slots r)[unat (write AND ring_mask r) := x]\<rparr>"

definition ring_publish :: "u64 \<Rightarrow> 'a SpscRing \<Rightarrow> 'a SpscRing" where
  "ring_publish write r = r\<lparr>rg_write_position := write + 1\<rparr>"

definition ring_try_push :: "'a \<Rightarrow> 'a SpscRing \<Rightarrow> bool \<times> 'a SpscRing" where
  "ring_try_push x r =
     (let write = rg_write_position r in
      if ring_full write r then
        let r = ring_reload_read r in
        if ring_full write r then (False, r)
        else (True, ring_publish write (ring_fill write x r))
      else (True, ring_publish write (ring_fill write x r)))"

definition ring_reload_write :: "'a SpscRing \<Rightarrow> 'a SpscRing" where
  "ring_reload_write r = r\<lparr>rg_cached_write_position := rg_write_position r\<rparr>"

definition ring_slot :: "u64 \<Rightarrow> 'a SpscRing \<Rightarrow> 'a" where
  "ring_slot read r = rg_slots r ! unat (read AND ring_mask r)"

definition ring_release :: "u64 \<Rightarrow> 'a SpscRing \<Rightarrow> 'a SpscRing" where
  "ring_release read r = r\<lparr>rg_read_position := read + 1\<rparr>"

definition ring_try_pop :: "'a SpscRing \<Rightarrow> 'a option \<times> 'a SpscRing" where
  "ring_try_pop r =
     (let read = rg_read_position r in
      if read = rg_cached_write_position r then
        let r = ring_reload_write r in
        if read = rg_cached_write_position r then (None, r)
        else (Some (ring_slot read r), ring_release read r)
      else (Some (ring_slot read r), ring_release read r))"

definition ring_size_approx :: "'a SpscRing \<Rightarrow> u64" where
  "ring_size_approx r =
     (let difference = rg_write_position r - rg_read_position r in
      if difference > word_of_nat (ring_capacity r) then word_of_nat (ring_capacity r) else difference)"

definition ring_empty_approx :: "'a SpscRing \<Rightarrow> bool" where
  "ring_empty_approx r \<longleftrightarrow> ring_size_approx r = 0"

section \<open>The two threads\<close>

datatype 'a producer = P_Idle | P_Reload 'a u64 | P_Fill 'a u64 | P_Publish 'a u64
datatype 'a consumer = C_Idle | C_Reload u64 | C_Take u64 | C_Release u64 'a

record 'a ring_world =
  wd_ring :: "'a SpscRing"
  wd_producer :: "'a producer"
  wd_consumer :: "'a consumer"
  wd_pushed :: "'a list"
  wd_popped :: "'a list"

inductive ring_step :: "'a ring_world \<Rightarrow> 'a ring_world \<Rightarrow> bool" where
  push_start: "wd_producer w = P_Idle \<Longrightarrow> write = rg_write_position (wd_ring w) \<Longrightarrow>
    ring_step w (w\<lparr>wd_producer := if ring_full write (wd_ring w) then P_Reload x write else P_Fill x write\<rparr>)"
| push_reload: "wd_producer w = P_Reload x write \<Longrightarrow> r = ring_reload_read (wd_ring w) \<Longrightarrow>
    ring_step w (w\<lparr>wd_ring := r, wd_producer := if ring_full write r then P_Idle else P_Fill x write\<rparr>)"
| push_fill: "wd_producer w = P_Fill x write \<Longrightarrow>
    ring_step w (w\<lparr>wd_ring := ring_fill write x (wd_ring w), wd_producer := P_Publish x write\<rparr>)"
| push_publish: "wd_producer w = P_Publish x write \<Longrightarrow>
    ring_step w (w\<lparr>wd_ring := ring_publish write (wd_ring w), wd_producer := P_Idle,
      wd_pushed := wd_pushed w @ [x]\<rparr>)"
| pop_start: "wd_consumer w = C_Idle \<Longrightarrow> read = rg_read_position (wd_ring w) \<Longrightarrow>
    ring_step w (w\<lparr>wd_consumer :=
      if read = rg_cached_write_position (wd_ring w) then C_Reload read else C_Take read\<rparr>)"
| pop_reload: "wd_consumer w = C_Reload read \<Longrightarrow> r = ring_reload_write (wd_ring w) \<Longrightarrow>
    ring_step w (w\<lparr>wd_ring := r, wd_consumer :=
      if read = rg_cached_write_position r then C_Idle else C_Take read\<rparr>)"
| pop_take: "wd_consumer w = C_Take read \<Longrightarrow>
    ring_step w (w\<lparr>wd_consumer := C_Release read (ring_slot read (wd_ring w))\<rparr>)"
| pop_release: "wd_consumer w = C_Release read x \<Longrightarrow>
    ring_step w (w\<lparr>wd_ring := ring_release read (wd_ring w), wd_consumer := C_Idle,
      wd_popped := wd_popped w @ [x]\<rparr>)"

inductive_cases ring_stepE: "ring_step w w'"

definition ring_start :: "nat \<Rightarrow> 'a \<Rightarrow> 'a ring_world" where
  "ring_start capacity d = \<lparr>wd_ring = new_ring capacity d, wd_producer = P_Idle, wd_consumer = C_Idle,
     wd_pushed = [], wd_popped = []\<rparr>"

definition ring_reachable :: "nat \<Rightarrow> 'a \<Rightarrow> 'a ring_world \<Rightarrow> bool" where
  "ring_reachable capacity d w \<longleftrightarrow> ring_step\<^sup>*\<^sup>* (ring_start capacity d) w"

section \<open>Positions\<close>

lemma position_difference:
  assumes "b \<le> a" "a - b < 2 ^ 64"
  shows "unat (word_of_nat a - word_of_nat b :: u64) = a - b"
proof -
  have "(word_of_nat a - word_of_nat b :: u64) = word_of_nat (a - b)" using assms(1) by (simp add: of_nat_diff)
  then show ?thesis using assms(2) by (simp add: unat_of_nat take_bit_nat_eq_self_iff)
qed

lemma position_eq:
  assumes "b \<le> a" "a - b < 2 ^ 64"
  shows "(word_of_nat b :: u64) = word_of_nat a \<longleftrightarrow> a = b"
  using position_difference [OF assms] assms(1) by auto

lemma position_slot:
  assumes "k \<le> 63"
  shows "unat (word_of_nat n AND (word_of_nat (2 ^ k) - 1) :: u64) = n mod 2 ^ k"
proof -
  have "(word_of_nat (2 ^ k) - 1 :: u64) = mask k" by (simp add: mask_eq_exp_minus_1)
  then have "word_of_nat n AND (word_of_nat (2 ^ k) - 1 :: u64) = take_bit k (word_of_nat n)"
    by (simp add: take_bit_eq_mask)
  then have "unat (word_of_nat n AND (word_of_nat (2 ^ k) - 1) :: u64) = take_bit k (unat (word_of_nat n :: u64))"
    by (simp add: unsigned_take_bit_eq)
  also have "\<dots> = take_bit k (take_bit 64 n)" by (simp add: unsigned_of_nat)
  also have "\<dots> = n mod 2 ^ k" using assms by (simp only: take_bit_take_bit) (simp add: min_def take_bit_eq_mod)
  finally show ?thesis .
qed

lemma slot_distinct:
  fixes i j c :: nat
  assumes "i mod c = j mod c" "i \<le> j" "j < i + c"
  shows "i = j"
proof -
  have "(j - i) mod c = 0" using assms(1,2) by (metis mod_eq_dvd_iff_nat dvd_imp_mod_0)
  moreover have "j - i < c" using assms(2,3) by simp
  ultimately show ?thesis using assms(2) by simp
qed
section \<open>What a ring holds\<close>

text \<open>
  \<open>ring_rep k cr cw nr p r\<close>: the ring of \<open>2 ^ k\<close> slots has published \<open>p\<close>, of which \<open>nr\<close> are
  consumed; the producer last saw \<open>cr\<close> consumed and the consumer last saw \<open>cw\<close> published.
\<close>

definition ring_rep :: "nat \<Rightarrow> nat \<Rightarrow> nat \<Rightarrow> nat \<Rightarrow> 'a list \<Rightarrow> 'a SpscRing \<Rightarrow> bool" where
  "ring_rep k cr cw nr p r \<longleftrightarrow>
     1 \<le> k \<and> k \<le> 63 \<and> length (rg_slots r) = 2 ^ k \<and>
     rg_write_position r = word_of_nat (length p) \<and> rg_read_position r = word_of_nat nr \<and>
     rg_cached_read_position r = word_of_nat cr \<and> rg_cached_write_position r = word_of_nat cw \<and>
     cr \<le> nr \<and> nr \<le> cw \<and> cw \<le> length p \<and> length p \<le> cr + 2 ^ k \<and>
     (\<forall>i. nr \<le> i \<and> i < length p \<longrightarrow> rg_slots r ! (i mod 2 ^ k) = p ! i)"

lemma capacity_bound: "k \<le> 63 \<Longrightarrow> (2 :: nat) ^ k < 2 ^ 64"
  by (rule power_strict_increasing) simp_all

lemma capacity_word: "k \<le> 63 \<Longrightarrow> unat (word_of_nat (2 ^ k) :: u64) = 2 ^ k"
  using capacity_bound [of k] by (simp only: unat_of_nat take_bit_nat_eq_self_iff) simp

lemma ring_rep_bounds:
  assumes "ring_rep k cr cw nr p r"
  shows "k \<le> 63" "cr \<le> nr" "nr \<le> cw" "cw \<le> length p" "length p \<le> cr + 2 ^ k"
  using assms by (simp_all add: ring_rep_def)

lemma ring_rep_new:
  assumes "1 \<le> k" "k \<le> 63"
  shows "ring_rep k 0 0 0 [] (new_ring (2 ^ k) d)"
  using assms by (simp add: ring_rep_def new_ring_def)

lemma ring_rep_reset: "ring_rep k cr cw nr p r \<Longrightarrow> ring_rep k 0 0 0 [] (ring_reset r)"
  by (simp add: ring_rep_def ring_reset_def)

lemma ring_full_iff:
  assumes "ring_rep k cr cw nr p r"
  shows "ring_full (rg_write_position r) r \<longleftrightarrow> \<not> length p < cr + 2 ^ k"
proof -
  note b = ring_rep_bounds [OF assms]
  have k: "k \<le> 63" and le: "cr \<le> length p" "length p - cr \<le> 2 ^ k" using b by linarith+
  have "length p - cr < 2 ^ 64" using le(2) capacity_bound [OF k] by linarith
  then have "unat (word_of_nat (length p) - word_of_nat cr :: u64) = length p - cr"
    using le(1) by (rule position_difference [rotated])
  then show ?thesis
    using assms le capacity_word [OF k]
    by (auto simp: ring_full_def ring_capacity_def ring_rep_def word_le_nat_alt)
qed

lemma ring_empty_iff:
  assumes "ring_rep k cr cw nr p r"
  shows "rg_read_position r = rg_cached_write_position r \<longleftrightarrow> nr = cw"
proof -
  note b = ring_rep_bounds [OF assms]
  have k: "k \<le> 63" and le: "nr \<le> cw" "cw - nr \<le> 2 ^ k" using b by linarith+
  have "cw - nr < 2 ^ 64" using le(2) capacity_bound [OF k] by linarith
  then show ?thesis using position_eq [OF le(1)] assms by (auto simp: ring_rep_def)
qed

lemma ring_rep_reload_read: "ring_rep k cr cw nr p r \<Longrightarrow> ring_rep k nr cw nr p (ring_reload_read r)"
  by (simp add: ring_rep_def ring_reload_read_def)

lemma ring_rep_reload_write: "ring_rep k cr cw nr p r \<Longrightarrow> ring_rep k cr (length p) nr p (ring_reload_write r)"
  by (simp add: ring_rep_def ring_reload_write_def)

lemma ring_mask_slot:
  assumes "ring_rep k cr cw nr p r"
  shows "unat (word_of_nat n AND ring_mask r) = n mod 2 ^ k"
  using assms position_slot [of k n] by (simp add: ring_rep_def ring_mask_def ring_capacity_def)

lemma ring_rep_fill:
  assumes rep: "ring_rep k cr cw nr p r" and room: "length p < cr + 2 ^ k"
  shows "ring_rep k cr cw nr p (ring_fill (rg_write_position r) x r)"
    and "rg_slots (ring_fill (rg_write_position r) x r) ! (length p mod 2 ^ k) = x"
proof -
  have slots: "rg_slots (ring_fill (rg_write_position r) x r) = (rg_slots r)[length p mod 2 ^ k := x]"
    using rep ring_mask_slot [OF rep] by (simp add: ring_fill_def ring_rep_def)
  have "length p mod 2 ^ k \<noteq> i mod 2 ^ k" if "nr \<le> i" "i < length p" for i
    using slot_distinct [of i "2 ^ k" "length p"] that room ring_rep_bounds(2) [OF rep] by force
  then show "ring_rep k cr cw nr p (ring_fill (rg_write_position r) x r)"
    using rep slots by (simp add: ring_rep_def, simp add: ring_fill_def)
  show "rg_slots (ring_fill (rg_write_position r) x r) ! (length p mod 2 ^ k) = x"
    using rep slots by (simp add: ring_rep_def)
qed

lemma ring_rep_publish:
  assumes "ring_rep k cr cw nr p r" "length p < cr + 2 ^ k" "rg_slots r ! (length p mod 2 ^ k) = x"
  shows "ring_rep k cr cw nr (p @ [x]) (ring_publish (rg_write_position r) r)"
  using assms by (auto simp: ring_rep_def ring_publish_def nth_append less_Suc_eq add.commute)

lemma ring_rep_slot:
  assumes "ring_rep k cr cw nr p r" "nr < cw"
  shows "ring_slot (rg_read_position r) r = p ! nr"
  using assms ring_mask_slot [OF assms(1), of nr] by (simp add: ring_rep_def ring_slot_def)

lemma ring_rep_release:
  assumes "ring_rep k cr cw nr p r" "nr < cw"
  shows "ring_rep k cr cw (Suc nr) p (ring_release (rg_read_position r) r)"
  using assms by (auto simp: ring_rep_def ring_release_def add.commute)

lemma ring_positions_kept [simp]:
  "rg_write_position (ring_fill w x r) = rg_write_position r" "rg_read_position (ring_fill w x r) = rg_read_position r"
  "rg_write_position (ring_reload_read r) = rg_write_position r" "rg_read_position (ring_reload_read r) = rg_read_position r"
  "rg_write_position (ring_reload_write r) = rg_write_position r" "rg_read_position (ring_reload_write r) = rg_read_position r"
  "rg_write_position (ring_release w r) = rg_write_position r" "rg_read_position (ring_publish w r) = rg_read_position r"
  "rg_slots (ring_reload_read r) = rg_slots r" "rg_slots (ring_reload_write r) = rg_slots r"
  "rg_slots (ring_release w r) = rg_slots r"
  by (simp_all add: ring_fill_def ring_reload_read_def ring_reload_write_def ring_release_def ring_publish_def)

section \<open>One thread at a time\<close>

text \<open>
  The contract of a bounded first-in first-out queue, which the users of the ring rely on, with the
  queue a representation stands for.
\<close>

locale bounded_queue =
  fixes push :: "'a \<Rightarrow> 's \<Rightarrow> bool \<times> 's" and pop :: "'s \<Rightarrow> 'a option \<times> 's"
    and rep :: "'s \<Rightarrow> 'a list \<Rightarrow> bool" and capacity :: nat
  assumes push_rep: "rep s q \<Longrightarrow> push x s = (ok, s') \<Longrightarrow>
      ok = (length q < capacity) \<and> rep s' (if ok then q @ [x] else q)"
    and pop_rep: "rep s q \<Longrightarrow> pop s = (y, s') \<Longrightarrow>
      (case q of [] \<Rightarrow> y = None \<and> rep s' [] | x # xs \<Rightarrow> y = Some x \<and> rep s' xs)"
begin

fun drain :: "nat \<Rightarrow> 's \<Rightarrow> 'a option list" where
  "drain 0 s = []"
| "drain (Suc n) s = fst (pop s) # drain n (snd (pop s))"

lemma pushes_rep:
  "rep s q \<Longrightarrow> length q + length xs \<le> capacity \<Longrightarrow> rep (fold (\<lambda>x s. snd (push x s)) xs s) (q @ xs)"
proof (induction xs arbitrary: s q)
  case (Cons x xs)
  have "rep (snd (push x s)) (q @ [x])"
    using push_rep [OF Cons.prems(1) prod.collapse [symmetric], of x] Cons.prems(2)
    by (cases "fst (push x s)") simp_all
  then show ?case using Cons.IH [of "snd (push x s)" "q @ [x]"] Cons.prems(2) by simp
qed simp

lemma drain_rep: "rep s q \<Longrightarrow> drain (length q) s = map Some q"
proof (induction q arbitrary: s)
  case (Cons x q)
  show ?case using pop_rep [OF Cons.prems prod.collapse [symmetric]] Cons.IH by simp
qed simp

lemma fifo:
  assumes "rep s []" "length xs \<le> capacity"
  shows "drain (length xs) (fold (\<lambda>x s. snd (push x s)) xs s) = map Some xs"
  using drain_rep [OF pushes_rep [OF assms(1), of xs]] assms(2) by simp

end

definition ring_holds :: "nat \<Rightarrow> 'a SpscRing \<Rightarrow> 'a list \<Rightarrow> bool" where
  "ring_holds k r q \<longleftrightarrow> (\<exists>cr cw nr p. ring_rep k cr cw nr p r \<and> q = drop nr p)"

lemma ring_push_ok:
  assumes rep: "ring_rep k cr cw nr p r" and room: "length p < cr + 2 ^ k"
  shows "ring_rep k cr cw nr (p @ [x]) (ring_publish (rg_write_position r) (ring_fill (rg_write_position r) x r))"
  using ring_rep_publish [OF ring_rep_fill(1) [OF rep room] room ring_rep_fill(2) [OF rep room]] by simp

text \<open>A push moves nothing but the producer's side of the representation.\<close>

lemma ring_try_push_positions:
  assumes rep: "ring_rep k cr cw nr p r"
  shows "fst (ring_try_push x r) = (length p < nr + 2 ^ k)"
    and "\<exists>cr'. ring_rep k cr' cw nr (if length p < nr + 2 ^ k then p @ [x] else p) (snd (ring_try_push x r))"
proof -
  note rep' = ring_rep_reload_read [OF rep] and le = ring_rep_bounds [OF rep]
  have full: "ring_full (rg_write_position r) r \<longleftrightarrow> \<not> length p < cr + 2 ^ k"
    "ring_full (rg_write_position r) (ring_reload_read r) \<longleftrightarrow> \<not> length p < nr + 2 ^ k"
    using ring_full_iff [OF rep] ring_full_iff [OF rep'] by simp_all
  consider "length p < cr + 2 ^ k" "length p < nr + 2 ^ k"
    | "\<not> length p < cr + 2 ^ k" "length p < nr + 2 ^ k"
    | "\<not> length p < nr + 2 ^ k" "\<not> length p < cr + 2 ^ k"
    using le(2) by linarith
  then have "fst (ring_try_push x r) = (length p < nr + 2 ^ k) \<and>
    (\<exists>cr'. ring_rep k cr' cw nr (if length p < nr + 2 ^ k then p @ [x] else p) (snd (ring_try_push x r)))"
  proof cases
    case 1
    then show ?thesis using ring_push_ok [OF rep 1(1), of x] full by (auto simp: ring_try_push_def Let_def)
  next
    case 2
    then show ?thesis using ring_push_ok [OF rep' 2(2), of x] full by (auto simp: ring_try_push_def Let_def)
  next
    case 3
    then show ?thesis using rep' full by (auto simp: ring_try_push_def Let_def)
  qed
  then show "fst (ring_try_push x r) = (length p < nr + 2 ^ k)"
    "\<exists>cr'. ring_rep k cr' cw nr (if length p < nr + 2 ^ k then p @ [x] else p) (snd (ring_try_push x r))" by blast+
qed

lemma ring_try_push_rep:
  assumes "ring_holds k r q" "ring_try_push x r = (ok, r')"
  shows "ok = (length q < 2 ^ k) \<and> ring_holds k r' (if ok then q @ [x] else q)"
proof -
  obtain cr cw nr p where rep: "ring_rep k cr cw nr p r" and q: "q = drop nr p"
    using assms(1) by (auto simp: ring_holds_def)
  have "nr \<le> length p" using rep by (simp add: ring_rep_def)
  then show ?thesis
    using ring_try_push_positions [OF rep, of x] assms(2) q by (auto simp: ring_holds_def intro!: exI split: if_splits)
qed

lemma ring_size_approx_rep:
  assumes rep: "ring_rep k cr cw nr p r"
  shows "unat (ring_size_approx r) = length p - nr"
proof -
  note b = ring_rep_bounds [OF rep]
  have le: "nr \<le> length p" "length p - nr \<le> 2 ^ k" using b by linarith+
  have "length p - nr < 2 ^ 64" using le(2) capacity_bound [OF b(1)] by linarith
  then have diff: "unat (word_of_nat (length p) - word_of_nat nr :: u64) = length p - nr"
    by (rule position_difference [OF le(1)])
  then have "\<not> (word_of_nat (length p) - word_of_nat nr :: u64) > word_of_nat (ring_capacity r)"
    using rep le(2) capacity_word [OF b(1)] by (simp add: ring_rep_def ring_capacity_def word_less_nat_alt)
  then show ?thesis using rep diff by (simp add: ring_size_approx_def ring_rep_def Let_def)
qed

lemma ring_empty_approx_rep:
  assumes rep: "ring_rep k cr cw nr p r"
  shows "ring_empty_approx r \<longleftrightarrow> nr = length p"
proof -
  have "ring_empty_approx r \<longleftrightarrow> length p - nr = 0"
    unfolding ring_empty_approx_def ring_size_approx_rep [OF rep, symmetric] by (simp add: unat_eq_0)
  then show ?thesis using ring_rep_bounds [OF rep] by linarith
qed

lemma ring_try_pop_rep:
  assumes "ring_holds k r q" "ring_try_pop r = (y, r')"
  shows "case q of [] \<Rightarrow> y = None \<and> ring_holds k r' [] | x # xs \<Rightarrow> y = Some x \<and> ring_holds k r' xs"
proof -
  obtain cr cw nr p where rep: "ring_rep k cr cw nr p r" and q: "q = drop nr p"
    using assms(1) by (auto simp: ring_holds_def)
  have le: "nr \<le> cw" "cw \<le> length p" using rep by (simp_all add: ring_rep_def)
  note rep' = ring_rep_reload_write [OF rep]
  have same: "rg_read_position r = rg_cached_write_position r \<longleftrightarrow> nr = cw"
    "rg_read_position r = rg_cached_write_position (ring_reload_write r) \<longleftrightarrow> nr = length p"
    using ring_empty_iff [OF rep] ring_empty_iff [OF rep'] by simp_all
  have take: "drop nr p = p ! nr # drop (Suc nr) p" if "nr < length p"
    using that by (simp add: Cons_nth_drop_Suc)
  consider "nr < cw" | "nr = cw" "nr < length p" | "nr = length p" using le by linarith
  then show ?thesis
  proof cases
    case 1
    then have "y = Some (p ! nr)" "ring_rep k cr cw (Suc nr) p r'"
      using ring_rep_slot [OF rep] ring_rep_release [OF rep] assms(2) same by (auto simp: ring_try_pop_def Let_def)
    then show ?thesis using q take 1 le by (auto simp: ring_holds_def intro!: exI)
  next
    case 2
    then have "y = Some (p ! nr)" "ring_rep k cr (length p) (Suc nr) p r'"
      using ring_rep_slot [OF rep'] ring_rep_release [OF rep'] assms(2) same by (auto simp: ring_try_pop_def Let_def)
    then show ?thesis using q take 2 by (auto simp: ring_holds_def intro!: exI)
  next
    case 3
    then have "y = None" "ring_rep k cr (length p) nr p r'"
      using rep' assms(2) same le by (auto simp: ring_try_pop_def Let_def)
    then show ?thesis using q 3 by (auto simp: ring_holds_def intro!: exI)
  qed
qed

interpretation ring: bounded_queue ring_try_push ring_try_pop "ring_holds k" "2 ^ k" for k
  by unfold_locales (fact ring_try_push_rep ring_try_pop_rep)+

section \<open>Two threads\<close>

fun producer_ok :: "nat \<Rightarrow> nat \<Rightarrow> nat \<Rightarrow> 'a SpscRing \<Rightarrow> 'a producer \<Rightarrow> bool" where
  "producer_ok k cr n r P_Idle = True"
| "producer_ok k cr n r (P_Reload x v) = (v = rg_write_position r)"
| "producer_ok k cr n r (P_Fill x v) = (v = rg_write_position r \<and> n < cr + 2 ^ k)"
| "producer_ok k cr n r (P_Publish x v) =
     (v = rg_write_position r \<and> n < cr + 2 ^ k \<and> rg_slots r ! (n mod 2 ^ k) = x)"

fun consumer_ok :: "nat \<Rightarrow> nat \<Rightarrow> 'a list \<Rightarrow> 'a SpscRing \<Rightarrow> 'a consumer \<Rightarrow> bool" where
  "consumer_ok cw n p r C_Idle = True"
| "consumer_ok cw n p r (C_Reload v) = (v = rg_read_position r)"
| "consumer_ok cw n p r (C_Take v) = (v = rg_read_position r \<and> n < cw)"
| "consumer_ok cw n p r (C_Release v x) = (v = rg_read_position r \<and> n < cw \<and> x = p ! n)"

lemma producer_ok_consumer_step [simp]:
  "producer_ok k cr n (ring_reload_write r) c = producer_ok k cr n r c"
  "producer_ok k cr n (ring_release v r) c = producer_ok k cr n r c"
  by (cases c; simp add: ring_release_def)+

lemma consumer_ok_producer_step [simp]:
  "consumer_ok cw n p (ring_reload_read r) c = consumer_ok cw n p r c"
  "consumer_ok cw n p (ring_fill v x r) c = consumer_ok cw n p r c"
  "consumer_ok cw n p (ring_publish v r) c = consumer_ok cw n p r c"
  by (cases c; simp)+

lemma consumer_ok_append: "cw \<le> length p \<Longrightarrow> consumer_ok cw n p r c \<Longrightarrow> consumer_ok cw n (p @ [x]) r c"
  by (cases c) (simp_all add: nth_append)

definition ring_inv_at :: "nat \<Rightarrow> nat \<Rightarrow> nat \<Rightarrow> 'a ring_world \<Rightarrow> bool" where
  "ring_inv_at k cr cw w \<longleftrightarrow>
     ring_rep k cr cw (length (wd_popped w)) (wd_pushed w) (wd_ring w) \<and>
     wd_popped w = take (length (wd_popped w)) (wd_pushed w) \<and>
     producer_ok k cr (length (wd_pushed w)) (wd_ring w) (wd_producer w) \<and>
     consumer_ok cw (length (wd_popped w)) (wd_pushed w) (wd_ring w) (wd_consumer w)"

lemma ring_inv_start: "1 \<le> k \<Longrightarrow> k \<le> 63 \<Longrightarrow> ring_inv_at k 0 0 (ring_start (2 ^ k) d)"
  by (simp add: ring_inv_at_def ring_start_def ring_rep_new)

lemma ring_inv_step:
  assumes "ring_step w w'" "ring_inv_at k cr cw w"
  shows "\<exists>cr' cw'. ring_inv_at k cr' cw' w'"
proof -
  let ?n = "length (wd_popped w)" and ?p = "wd_pushed w" and ?r = "wd_ring w"
  have rep: "ring_rep k cr cw ?n ?p ?r" and prefix: "wd_popped w = take ?n ?p"
    and prod: "producer_ok k cr (length ?p) ?r (wd_producer w)" and cons: "consumer_ok cw ?n ?p ?r (wd_consumer w)"
    using assms(2) by (simp_all add: ring_inv_at_def)
  note b = ring_rep_bounds [OF rep]
  from assms(1) show ?thesis
  proof (cases rule: ring_step.cases)
    case (push_start v x)
    then have "ring_inv_at k cr cw w'"
      using rep prefix cons ring_full_iff [OF rep] by (simp add: ring_inv_at_def)
    then show ?thesis by blast
  next
    case (push_reload x v r)
    then have rep': "ring_rep k ?n cw ?n ?p r" using rep by (simp add: ring_rep_reload_read)
    have "v = rg_write_position r" "rg_read_position r = rg_read_position ?r" using push_reload prod by simp_all
    then have "ring_inv_at k ?n cw w'"
      using push_reload prefix cons ring_full_iff [OF rep'] rep'
      by (simp add: ring_inv_at_def)
    then show ?thesis by blast
  next
    case (push_fill x v)
    then have v: "v = rg_write_position ?r" and room: "length ?p < cr + 2 ^ k" using prod by simp_all
    have "ring_inv_at k cr cw w'"
      using push_fill v room prefix cons ring_rep_fill [OF rep room, of x]
      by (simp add: ring_inv_at_def)
    then show ?thesis by blast
  next
    case (push_publish x v)
    then have v: "v = rg_write_position ?r" and room: "length ?p < cr + 2 ^ k"
      and x: "rg_slots ?r ! (length ?p mod 2 ^ k) = x" using prod by simp_all
    have "ring_inv_at k cr cw w'"
      using push_publish v prefix b consumer_ok_append [OF b(4) cons, of x] ring_rep_publish [OF rep room x]
      by (simp add: ring_inv_at_def)
    then show ?thesis by blast
  next
    case (pop_start v)
    then have "ring_inv_at k cr cw w'"
      using rep prefix prod ring_empty_iff [OF rep] b by (simp add: ring_inv_at_def)
    then show ?thesis by blast
  next
    case (pop_reload v r)
    then have rep': "ring_rep k cr (length ?p) ?n ?p r" using rep by (simp add: ring_rep_reload_write)
    have "v = rg_read_position r" "rg_write_position r = rg_write_position ?r" "rg_slots r = rg_slots ?r"
      using pop_reload cons by simp_all
    then have "ring_inv_at k cr (length ?p) w'"
      using pop_reload prefix prod ring_empty_iff [OF rep'] ring_rep_bounds [OF rep'] rep'
      by (simp add: ring_inv_at_def)
    then show ?thesis by blast
  next
    case (pop_take v)
    then have "ring_inv_at k cr cw w'"
      using rep prefix prod cons ring_rep_slot [OF rep] by (simp add: ring_inv_at_def)
    then show ?thesis by blast
  next
    case (pop_release v x)
    then have v: "v = rg_read_position ?r" and lt: "?n < cw" and x: "x = ?p ! ?n" using cons by simp_all
    have "wd_popped w @ [x] = take (Suc ?n) ?p"
      using prefix x lt b(4) by (simp add: take_Suc_conv_app_nth)
    moreover have "min (length ?p) (Suc ?n) = Suc ?n" using lt b(4) by simp
    ultimately have "ring_inv_at k cr cw w'"
      using pop_release v prod ring_rep_release [OF rep lt]
      by (simp add: ring_inv_at_def)
    then show ?thesis by blast
  qed
qed

lemma ring_reachable_inv:
  assumes "ring_reachable (2 ^ k) d w" "1 \<le> k" "k \<le> 63"
  obtains cr cw where "ring_inv_at k cr cw w"
proof -
  have "ring_step\<^sup>*\<^sup>* (ring_start (2 ^ k) d) w" using assms(1) by (simp add: ring_reachable_def)
  then have "\<exists>cr cw. ring_inv_at k cr cw w"
  proof (induction rule: rtranclp_induct)
    case base
    show ?case by (intro exI) (rule ring_inv_start [OF assms(2,3)])
  next
    case (step w' w'')
    then show ?case using ring_inv_step [OF step.hyps(2)] by blast
  qed
  then show thesis using that by blast
qed

section \<open>Properties\<close>

text \<open>
  The ring alone is a bounded first-in first-out queue: while it holds \<open>q\<close>, a push succeeds
  exactly when \<open>q\<close> is shorter than the capacity and then appends, a pop returns the oldest element
  exactly when there is one and removes it, for positions that wrap around 64 bits any number of
  times and whatever the cached positions are.
\<close>

theorem ring_bounded_fifo:
  assumes "ring_holds k r q"
  shows "fst (ring_try_push x r) = (length q < 2 ^ k) \<and>
    ring_holds k (snd (ring_try_push x r)) (if length q < 2 ^ k then q @ [x] else q) \<and>
    fst (ring_try_pop r) = (case q of [] \<Rightarrow> None | y # _ \<Rightarrow> Some y) \<and>
    ring_holds k (snd (ring_try_pop r)) (tl q)"
  using ring.push_rep [OF assms prod.collapse [symmetric], of x]
    ring.pop_rep [OF assms prod.collapse [symmetric]]
  by (auto split: list.splits)

theorem ring_bounded_fifo_witness:
  "ring_holds 1 (snd (ring_try_push (7 :: nat) (new_ring 2 0))) [7]"
proof -
  have "ring_holds 1 (new_ring 2 (0 :: nat)) []"
    using ring_rep_new [of 1 "0 :: nat"] by (auto simp: ring_holds_def intro!: exI)
  from ring_bounded_fifo [OF this, of 7] show ?thesis by simp
qed

text \<open>
  C27. Under any interleaving of the producer's and the consumer's memory accesses, what the
  consumer has read is a prefix of what the producer has published: nothing is lost, duplicated,
  reordered or overwritten before it is read. The ring never holds more than its capacity, and the
  producer never writes the slot the consumer is reading.
\<close>

theorem ring_concurrent_fifo:
  assumes "ring_reachable (2 ^ k) d w" "1 \<le> k" "k \<le> 63"
  shows "wd_popped w = take (length (wd_popped w)) (wd_pushed w) \<and>
    length (wd_pushed w) \<le> length (wd_popped w) + 2 ^ k \<and>
    (\<forall>x v v'. wd_producer w = P_Fill x v \<and> wd_consumer w = C_Take v' \<longrightarrow>
      unat (v AND ring_mask (wd_ring w)) \<noteq> unat (v' AND ring_mask (wd_ring w)))"
proof -
  obtain cr cw where inv: "ring_inv_at k cr cw w" using assms by (rule ring_reachable_inv)
  then have rep: "ring_rep k cr cw (length (wd_popped w)) (wd_pushed w) (wd_ring w)"
    by (simp add: ring_inv_at_def)
  note b = ring_rep_bounds [OF rep]
  have "unat (v AND ring_mask (wd_ring w)) \<noteq> unat (v' AND ring_mask (wd_ring w))"
    if "wd_producer w = P_Fill x v" "wd_consumer w = C_Take v'" for x v v'
  proof -
    have "v = word_of_nat (length (wd_pushed w))" "v' = word_of_nat (length (wd_popped w))"
      "length (wd_pushed w) < cr + 2 ^ k" "length (wd_popped w) < cw"
      using that inv by (simp_all add: ring_inv_at_def ring_rep_def)
    then show ?thesis
      using b slot_distinct [of "length (wd_popped w)" "2 ^ k" "length (wd_pushed w)"]
      by (auto simp: ring_mask_slot [OF rep])
  qed
  moreover have "length (wd_pushed w) \<le> length (wd_popped w) + 2 ^ k" using b by linarith
  ultimately show ?thesis using inv by (auto simp: ring_inv_at_def)
qed

text \<open>
  A push that has been published while the consumer is reloading the write position.
\<close>

theorem ring_concurrent_fifo_witness:
  "\<exists>w. ring_reachable 2 (0 :: nat) w \<and> wd_pushed w = [7] \<and> wd_consumer w = C_Reload 0 \<and>
     length (wd_pushed w) \<le> length (wd_popped w) + 2"
proof -
  define w0 where "w0 = ring_start 2 (0 :: nat)"
  define w1 where "w1 = w0\<lparr>wd_producer := P_Fill 7 0\<rparr>"
  define w2 where "w2 = w1\<lparr>wd_ring := ring_fill 0 7 (wd_ring w1), wd_producer := P_Publish 7 0\<rparr>"
  define w3 where "w3 = w2\<lparr>wd_consumer := C_Reload 0\<rparr>"
  define w4 where "w4 = w3\<lparr>wd_ring := ring_publish 0 (wd_ring w3), wd_producer := P_Idle, wd_pushed := wd_pushed w3 @ [7]\<rparr>"
  note defs = w4_def w3_def w2_def w1_def w0_def ring_start_def new_ring_def ring_fill_def ring_publish_def
  have "ring_step w0 w1" using push_start [of w0 0 7] by (simp add: defs ring_full_def ring_capacity_def)
  moreover have "ring_step w1 w2" unfolding w2_def by (rule push_fill) (simp add: defs)
  moreover have "ring_step w2 w3" using pop_start [of w2 0] by (simp add: defs)
  moreover have "ring_step w3 w4" unfolding w4_def by (rule push_publish) (simp add: defs)
  ultimately have "ring_step\<^sup>*\<^sup>* w0 w4" by (meson converse_rtranclp_into_rtranclp rtranclp.rtrancl_refl)
  then have reach: "ring_reachable (2 ^ 1) 0 w4" by (simp add: ring_reachable_def w0_def)
  have "wd_pushed w4 = [7]" "wd_consumer w4 = C_Reload 0" by (simp_all add: defs)
  then show ?thesis using ring_concurrent_fifo [OF reach] reach by auto
qed


end
