(* ===== verification/Exchange_Server.thy ===== *)
theory Exchange_Server
  imports Replay Risk_Engine
begin

text \<open>
  The exchange server: \<^verbatim>\<open>include/exchange/exchange_server.hpp\<close> and \<^verbatim>\<open>src/exchange_server.cpp\<close>:
  sessions, the handlers of the three requests, responses, broadcasts and recovery.

  One state holds what the object's members hold. Each handler is one function on it: with a
  journal the code serialises whole messages under one mutex, without a journal it serialises the
  part that touches books and risk. What leaves the server is logged: \<open>sv_sent\<close> is every send to a
  socket, \<open>sv_datagrams\<close> every message handed to the multicast publisher. What the environment
  decides is an input: \<open>sv_faults\<close> says what happens to the coming journal writes (an empty list:
  they succeed), \<open>hash_order\<close> in which order a hash set of ids is iterated. An exception is a value;
  the code does not catch it in the session thread, so it ends the process.

  Latency measurement, console output and the telemetry publisher are left out.
\<close>

section \<open>State\<close>

record OrderOwner =
  ow_socket :: int
  ow_risk_client_id :: RiskClientId

definition no_owner :: OrderOwner where
  "no_owner = \<lparr>ow_socket = - 1, ow_risk_client_id = invalid_risk_client_id\<rparr>"

record InstrumentState =
  in_book :: OrderBook
  in_order_owners :: "OrderId \<rightharpoonup> OrderOwner"

definition new_instrument :: InstrumentState where
  "new_instrument = \<lparr>in_book = new_book, in_order_owners = Map.empty\<rparr>"

record ExecutionDelivery =
  dl_trade :: Trade
  dl_symbol :: Symbol
  dl_buyer_socket :: int
  dl_seller_socket :: int
  dl_buyer_risk_client_id :: RiskClientId
  dl_seller_risk_client_id :: RiskClientId

record BookSnapshot =
  bs_symbol :: Symbol
  bs_has_bid :: bool
  bs_best_bid :: Price
  bs_bid_quantity :: Quantity
  bs_has_ask :: bool
  bs_best_ask :: Price
  bs_ask_quantity :: Quantity

record RecoveryState =
  rs_attempted :: bool
  rs_successful :: bool
  rs_journal_records :: u64
  rs_new_orders :: u64
  rs_trades :: u64
  rs_rejected_messages :: u64
  rs_unsupported_messages :: u64
  rs_remaining_orders :: nat
  rs_instruments :: nat

definition new_recovery_state :: RecoveryState where
  "new_recovery_state = \<lparr>rs_attempted = False, rs_successful = False, rs_journal_records = 0,
     rs_new_orders = 0, rs_trades = 0, rs_rejected_messages = 0, rs_unsupported_messages = 0,
     rs_remaining_orders = 0, rs_instruments = 0\<rparr>"

record ExchangeServer =
  sv_risk_engine :: RiskEngine
  sv_instruments :: "(string \<times> InstrumentState) list"
  sv_client_sockets :: "int list"
  sv_client_risk_ids :: "int \<rightharpoonup> RiskClientId"
  sv_journal :: "ExchangeJournal option"
  sv_multicast :: bool
  sv_recovery_state :: RecoveryState
  sv_recovery_completed :: bool
  sv_running :: bool
  sv_next_sequence_number :: u64
  sv_next_risk_client_id :: RiskClientId
  sv_faults :: "(nat option \<times> nat option) list"
  sv_sent :: "(int \<times> u8 list) list"
  sv_datagrams :: "u8 list list"

definition new_server :: "RiskLimits \<Rightarrow> ExchangeServer" where
  "new_server limits = \<lparr>sv_risk_engine = new_risk_engine limits, sv_instruments = [],
     sv_client_sockets = [], sv_client_risk_ids = Map.empty, sv_journal = None, sv_multicast = False,
     sv_recovery_state = new_recovery_state, sv_recovery_completed = False, sv_running = False,
     sv_next_sequence_number = 1, sv_next_risk_client_id = 1, sv_faults = [], sv_sent = [],
     sv_datagrams = []\<rparr>"

section \<open>Instruments and sessions\<close>

definition find_instrument :: "ExchangeServer \<Rightarrow> string \<Rightarrow> InstrumentState option" where
  "find_instrument sv symb = map_of (sv_instruments sv) symb"

definition set_instrument :: "string \<Rightarrow> InstrumentState \<Rightarrow> ExchangeServer \<Rightarrow> ExchangeServer" where
  "set_instrument symb instrument sv = sv\<lparr>sv_instruments := AList.update symb instrument (sv_instruments sv)\<rparr>"

definition instrument_for :: "string \<Rightarrow> ExchangeServer \<Rightarrow> InstrumentState \<times> ExchangeServer" where
  "instrument_for symb sv =
     (case find_instrument sv symb of
        None \<Rightarrow> (new_instrument, set_instrument symb new_instrument sv)
      | Some instrument \<Rightarrow> (instrument, sv))"

definition market_reference_price :: "Side \<Rightarrow> OrderBook \<Rightarrow> Price option outcome" where
  "market_reference_price side book =
     (if side = Buy then
        (if \<not> has_asks book then Inr None
         else case best_ask book of Inl e \<Rightarrow> Inl e | Inr p \<Rightarrow> Inr (Some p))
      else
        (if \<not> has_bids book then Inr None
         else case best_bid book of Inl e \<Rightarrow> Inl e | Inr p \<Rightarrow> Inr (Some p)))"

definition register_client :: "int \<Rightarrow> ExchangeServer \<Rightarrow> RiskClientId \<times> ExchangeServer" where
  "register_client socket sv =
     (let c = sv_next_risk_client_id sv in
      (c, sv\<lparr>sv_next_risk_client_id := c + 1, sv_client_sockets := sv_client_sockets sv @ [socket],
             sv_client_risk_ids := (sv_client_risk_ids sv)(socket \<mapsto> c)\<rparr>))"

definition unregister_client :: "int \<Rightarrow> ExchangeServer \<Rightarrow> ExchangeServer" where
  "unregister_client socket sv =
     sv\<lparr>sv_client_sockets := remove1 socket (sv_client_sockets sv),
        sv_client_risk_ids := (sv_client_risk_ids sv)(socket := None)\<rparr>"

definition risk_client_id_for_socket :: "ExchangeServer \<Rightarrow> int \<Rightarrow> RiskClientId" where
  "risk_client_id_for_socket sv socket =
     (case sv_client_risk_ids sv socket of None \<Rightarrow> invalid_risk_client_id | Some c \<Rightarrow> c)"

definition server_set_global_kill_switch :: "bool \<Rightarrow> ExchangeServer \<Rightarrow> ExchangeServer" where
  "server_set_global_kill_switch enabled sv =
     sv\<lparr>sv_risk_engine := set_global_kill_switch enabled (sv_risk_engine sv)\<rparr>"

section \<open>Sending\<close>

definition fetch_sequence_number :: "ExchangeServer \<Rightarrow> u64 \<times> ExchangeServer" where
  "fetch_sequence_number sv =
     (sv_next_sequence_number sv, sv\<lparr>sv_next_sequence_number := sv_next_sequence_number sv + 1\<rparr>)"

definition outgoing_message :: "MessageType \<Rightarrow> u64 \<Rightarrow> u8 list \<Rightarrow> u8 list" where
  "outgoing_message t sequence_number body =
     encode_header \<lparr>hdr_magic = protocol_magic, hdr_version = protocol_version, hdr_type = t,
       hdr_body_size = word_of_nat (length body), hdr_sequence_number = sequence_number\<rparr> @ body"

definition send_to :: "int \<Rightarrow> u8 list \<Rightarrow> ExchangeServer \<Rightarrow> ExchangeServer" where
  "send_to socket message sv = sv\<lparr>sv_sent := sv_sent sv @ [(socket, message)]\<rparr>"

definition send_order_response :: "int \<Rightarrow> u64 \<Rightarrow> bool \<Rightarrow> MessageType \<Rightarrow> ExchangeServer \<Rightarrow> ExchangeServer" where
  "send_order_response socket order_id success success_type sv =
     (let (sequence_number, sv) = fetch_sequence_number sv;
          body = encode_order_response \<lparr>rsp_order_id = order_id,
            rsp_sequence_number = sequence_number, rsp_success = (if success then 1 else 0)\<rparr>
      in send_to socket
           (outgoing_message (if success then success_type else MT_OrderRejected) sequence_number body) sv)"

definition send_trade_execution :: "int \<Rightarrow> Symbol \<Rightarrow> Trade \<Rightarrow> ExchangeServer \<Rightarrow> ExchangeServer" where
  "send_trade_execution socket symb trade sv =
     (if socket < 0 then sv
      else
        let (sequence_number, sv) = fetch_sequence_number sv;
            body = encode_trade_execution \<lparr>tex_buy_order_id = tr_buy_order_id trade,
              tex_sell_order_id = tr_sell_order_id trade, tex_price = tr_price trade,
              tex_quantity = ucast (tr_quantity trade), tex_sequence_number = sequence_number,
              tex_symbol = symb\<rparr>
        in send_to socket (outgoing_message MT_TradeExecution sequence_number body) sv)"

definition send_execution_deliveries :: "ExecutionDelivery list \<Rightarrow> ExchangeServer \<Rightarrow> ExchangeServer" where
  "send_execution_deliveries deliveries sv =
     fold (\<lambda>d sv. send_trade_execution (dl_seller_socket d) (dl_symbol d) (dl_trade d)
       (send_trade_execution (dl_buyer_socket d) (dl_symbol d) (dl_trade d) sv)) deliveries sv"

definition broadcast :: "u8 list \<Rightarrow> ExchangeServer \<Rightarrow> ExchangeServer" where
  "broadcast message sv =
     (let sv = (if sv_multicast sv then sv\<lparr>sv_datagrams := sv_datagrams sv @ [message]\<rparr> else sv);
          clients = sv_client_sockets sv
      in fold (\<lambda>socket. send_to socket message) clients sv)"

definition broadcast_book_update :: "BookSnapshot \<Rightarrow> ExchangeServer \<Rightarrow> ExchangeServer" where
  "broadcast_book_update snapshot sv =
     (let (sequence_number, sv) = fetch_sequence_number sv;
          update = \<lparr>bku_has_bid = (if bs_has_bid snapshot then 1 else 0),
            bku_best_bid = (if bs_has_bid snapshot then bs_best_bid snapshot else 0),
            bku_bid_quantity = (if bs_has_bid snapshot then ucast (bs_bid_quantity snapshot) else 0),
            bku_has_ask = (if bs_has_ask snapshot then 1 else 0),
            bku_best_ask = (if bs_has_ask snapshot then bs_best_ask snapshot else 0),
            bku_ask_quantity = (if bs_has_ask snapshot then ucast (bs_ask_quantity snapshot) else 0),
            bku_sequence_number = sequence_number, bku_symbol = bs_symbol snapshot\<rparr>
      in broadcast (outgoing_message MT_BookUpdate sequence_number (encode_book_update update)) sv)"

definition broadcast_level3_add_order :: "Level3AddOrder \<Rightarrow> ExchangeServer \<Rightarrow> ExchangeServer" where
  "broadcast_level3_add_order event sv =
     (let (sequence_number, sv) = fetch_sequence_number sv;
          event = event\<lparr>l3a_sequence_number := sequence_number\<rparr>
      in broadcast (outgoing_message MT_Level3AddOrder sequence_number (encode_level3_add_order event)) sv)"

definition broadcast_level3_order_executed :: "Level3OrderExecuted \<Rightarrow> ExchangeServer \<Rightarrow> ExchangeServer" where
  "broadcast_level3_order_executed event sv =
     (let (sequence_number, sv) = fetch_sequence_number sv;
          event = event\<lparr>l3e_sequence_number := sequence_number\<rparr>
      in broadcast (outgoing_message MT_Level3OrderExecuted sequence_number
           (encode_level3_order_executed event)) sv)"

definition broadcast_level3_order_deleted :: "Level3OrderDeleted \<Rightarrow> ExchangeServer \<Rightarrow> ExchangeServer" where
  "broadcast_level3_order_deleted event sv =
     (let (sequence_number, sv) = fetch_sequence_number sv;
          event = event\<lparr>l3d_sequence_number := sequence_number\<rparr>
      in broadcast (outgoing_message MT_Level3OrderDeleted sequence_number
           (encode_level3_order_deleted event)) sv)"
section \<open>Conversions and journaling\<close>

definition maximum_body_size :: nat where "maximum_body_size = 1024 * 1024"

fun server_convert_side :: "PSide \<Rightarrow> Side" where
  "server_convert_side PBuy = Buy"
| "server_convert_side PSell = Sell"

fun server_convert_order_type :: "POrderType \<Rightarrow> OrderType" where
  "server_convert_order_type PLimit = Limit"
| "server_convert_order_type PMarket = Market"

fun server_convert_time_in_force :: "PTimeInForce \<Rightarrow> TimeInForce" where
  "server_convert_time_in_force PGoodTillCancel = GoodTillCancel"
| "server_convert_time_in_force PImmediateOrCancel = ImmediateOrCancel"
| "server_convert_time_in_force PFillOrKill = FillOrKill"

definition server_order :: "NewOrderRequest \<Rightarrow> Order" where
  "server_order request =
     \<lparr>ord_id = nor_order_id request, ord_side = server_convert_side (nor_side request),
      ord_type = server_convert_order_type (nor_order_type request),
      ord_tif = server_convert_time_in_force (nor_time_in_force request),
      ord_price = nor_price request, ord_initial = ucast (nor_quantity request),
      ord_remaining = ucast (nor_quantity request), ord_timestamp = nor_timestamp request\<rparr>"

definition append_journal_record ::
    "MessageHeader \<Rightarrow> u8 list \<Rightarrow> ExchangeServer \<Rightarrow> unit outcome \<times> ExchangeServer" where
  "append_journal_record header body sv =
     (case sv_journal sv of
        None \<Rightarrow> (Inr (), sv)
      | Some journal \<Rightarrow>
          let (length_fault, message_fault) = (case sv_faults sv of [] \<Rightarrow> (None, None) | f # _ \<Rightarrow> f);
              (result, journal) = journal_append (encode_header header @ body) length_fault message_fault journal
          in (result, sv\<lparr>sv_journal := Some journal, sv_faults := tl (sv_faults sv)\<rparr>))"

section \<open>Reporting fills\<close>

definition find_order_owner ::
    "InstrumentState \<Rightarrow> OrderId \<Rightarrow> OrderId \<Rightarrow> int \<Rightarrow> RiskClientId \<Rightarrow> OrderOwner" where
  "find_order_owner instrument order_id incoming_order_id incoming_socket incoming_risk_client_id =
     (if order_id = incoming_order_id then
        \<lparr>ow_socket = incoming_socket, ow_risk_client_id = incoming_risk_client_id\<rparr>
      else case in_order_owners instrument order_id of None \<Rightarrow> no_owner | Some owner \<Rightarrow> owner)"

definition set_insert :: "'b \<Rightarrow> 'b list \<Rightarrow> 'b list" where
  "set_insert x xs = (if x \<in> set xs then xs else xs @ [x])"

record FillReport =
  fr_risk_engine :: RiskEngine
  fr_deliveries :: "ExecutionDelivery list"
  fr_executions :: "Level3OrderExecuted list"
  fr_deleted_order_ids :: "OrderId list"

definition filled_away :: "InstrumentState \<Rightarrow> OrderId \<Rightarrow> OrderId \<Rightarrow> bool" where
  "filled_away instrument order_id incoming_order_id \<longleftrightarrow>
     order_id \<noteq> incoming_order_id \<and> find_order (in_book instrument) order_id = None"

definition report_trade ::
    "InstrumentState \<Rightarrow> Symbol \<Rightarrow> OrderId \<Rightarrow> int \<Rightarrow> RiskClientId \<Rightarrow> Trade \<Rightarrow> FillReport \<Rightarrow> FillReport" where
  "report_trade instrument wire_symbol incoming_id socket client trade report =
     (let buyer = find_order_owner instrument (tr_buy_order_id trade) incoming_id socket client;
          seller = find_order_owner instrument (tr_sell_order_id trade) incoming_id socket client;
          deleted = fr_deleted_order_ids report;
          deleted = (if filled_away instrument (tr_buy_order_id trade) incoming_id
                     then set_insert (tr_buy_order_id trade) deleted else deleted);
          deleted = (if filled_away instrument (tr_sell_order_id trade) incoming_id
                     then set_insert (tr_sell_order_id trade) deleted else deleted)
      in \<lparr>fr_risk_engine = on_trade (symbol_to_string wire_symbol) (ow_risk_client_id buyer)
            (ow_risk_client_id seller) (tr_buy_order_id trade) (tr_sell_order_id trade)
            (tr_quantity trade) (fr_risk_engine report),
          fr_deliveries = fr_deliveries report @
            [\<lparr>dl_trade = trade, dl_symbol = wire_symbol, dl_buyer_socket = ow_socket buyer,
              dl_seller_socket = ow_socket seller, dl_buyer_risk_client_id = ow_risk_client_id buyer,
              dl_seller_risk_client_id = ow_risk_client_id seller\<rparr>],
          fr_executions = fr_executions report @
            [\<lparr>l3e_buy_order_id = tr_buy_order_id trade, l3e_sell_order_id = tr_sell_order_id trade,
              l3e_price = tr_price trade, l3e_quantity = ucast (tr_quantity trade),
              l3e_sequence_number = 0, l3e_symbol = wire_symbol\<rparr>],
          fr_deleted_order_ids = deleted\<rparr>)"

definition report_fills ::
    "InstrumentState \<Rightarrow> Symbol \<Rightarrow> OrderId \<Rightarrow> int \<Rightarrow> RiskClientId \<Rightarrow> Trade list \<Rightarrow> RiskEngine \<Rightarrow> FillReport" where
  "report_fills instrument wire_symbol incoming_id socket client trades risk =
     fold (report_trade instrument wire_symbol incoming_id socket client) trades
       \<lparr>fr_risk_engine = risk, fr_deliveries = [], fr_executions = [], fr_deleted_order_ids = []\<rparr>"

definition remove_filled_order_owners :: "Trade list \<Rightarrow> OrderId \<Rightarrow> InstrumentState \<Rightarrow> InstrumentState" where
  "remove_filled_order_owners trades incoming_id instrument =
     fold (\<lambda>trade instrument.
       let instrument = (if filled_away instrument (tr_buy_order_id trade) incoming_id
             then instrument\<lparr>in_order_owners := (in_order_owners instrument)(tr_buy_order_id trade := None)\<rparr>
             else instrument)
       in if filled_away instrument (tr_sell_order_id trade) incoming_id
          then instrument\<lparr>in_order_owners := (in_order_owners instrument)(tr_sell_order_id trade := None)\<rparr>
          else instrument) trades instrument"

definition capture_book_snapshot :: "Symbol \<Rightarrow> OrderBook \<Rightarrow> BookSnapshot outcome" where
  "capture_book_snapshot wire_symbol book =
     (let snapshot = \<lparr>bs_symbol = wire_symbol, bs_has_bid = has_bids book, bs_best_bid = 0,
            bs_bid_quantity = 0, bs_has_ask = has_asks book, bs_best_ask = 0, bs_ask_quantity = 0\<rparr>;
          with_bid = (if has_bids book then
              (case best_bid book of
                 Inl e \<Rightarrow> Inl e
               | Inr p \<Rightarrow> (case best_bid_level book of
                     Inl e \<Rightarrow> Inl e
                   | Inr lvl \<Rightarrow> Inr (snapshot\<lparr>bs_best_bid := p, bs_bid_quantity := lvl_total lvl\<rparr>)))
              else Inr snapshot)
      in case with_bid of
        Inl e \<Rightarrow> Inl e
      | Inr snapshot \<Rightarrow>
          (if has_asks book then
             (case best_ask book of
                Inl e \<Rightarrow> Inl e
              | Inr p \<Rightarrow> (case best_ask_level book of
                    Inl e \<Rightarrow> Inl e
                  | Inr lvl \<Rightarrow> Inr (snapshot\<lparr>bs_best_ask := p, bs_ask_quantity := lvl_total lvl\<rparr>)))
           else Inr snapshot))"

definition level3_add_of :: "Symbol \<Rightarrow> Order \<Rightarrow> Level3AddOrder" where
  "level3_add_of wire_symbol x =
     \<lparr>l3a_order_id = ord_id x, l3a_timestamp = ord_timestamp x, l3a_price = ord_price x,
      l3a_quantity = ucast (ord_remaining x), l3a_side = (if ord_side x = Buy then PBuy else PSell),
      l3a_sequence_number = 0, l3a_symbol = wire_symbol\<rparr>"

definition level3_deleted_of :: "Symbol \<Rightarrow> OrderId \<Rightarrow> Level3OrderDeleted" where
  "level3_deleted_of wire_symbol i = \<lparr>l3d_order_id = i, l3d_sequence_number = 0, l3d_symbol = wire_symbol\<rparr>"

section \<open>What an order did\<close>

text \<open>
  Both handlers run the same steps on the trades of the incoming order: report them, remove the
  owners of the orders they filled, and record the incoming order when it rests.
\<close>

record Settlement =
  st_report :: FillReport
  st_deletions :: "Level3OrderDeleted list"
  st_add :: "Level3AddOrder option"
  st_instrument :: InstrumentState
  st_risk_engine :: RiskEngine

definition settle_fills ::
    "(OrderId list \<Rightarrow> OrderId list) \<Rightarrow> Symbol \<Rightarrow> OrderId \<Rightarrow> int \<Rightarrow> RiskClientId \<Rightarrow> Trade list \<Rightarrow>
      InstrumentState \<Rightarrow> RiskEngine \<Rightarrow> Settlement" where
  "settle_fills hash_order wire_symbol order_id socket client trades instrument risk =
     (let report = report_fills instrument wire_symbol order_id socket client trades risk;
          deletions = map (level3_deleted_of wire_symbol) (hash_order (fr_deleted_order_ids report));
          instrument = remove_filled_order_owners trades order_id instrument
      in case find_order (in_book instrument) order_id of
           None \<Rightarrow>
             \<lparr>st_report = report, st_deletions = deletions, st_add = None,
              st_instrument = instrument, st_risk_engine = fr_risk_engine report\<rparr>
         | Some resting_order \<Rightarrow>
             \<lparr>st_report = report, st_deletions = deletions,
              st_add = Some (level3_add_of wire_symbol resting_order),
              st_instrument = instrument\<lparr>in_order_owners := (in_order_owners instrument)
                (order_id \<mapsto> \<lparr>ow_socket = socket, ow_risk_client_id = client\<rparr>)\<rparr>,
              st_risk_engine = on_order_resting client (symbol_to_string wire_symbol)
                (ord_id resting_order) (ord_side resting_order) (ord_price resting_order)
                (ord_remaining resting_order) (fr_risk_engine report)\<rparr>)"

definition broadcast_executions :: "Settlement \<Rightarrow> ExchangeServer \<Rightarrow> ExchangeServer" where
  "broadcast_executions settlement sv =
     (let sv = fold broadcast_level3_order_executed (fr_executions (st_report settlement)) sv;
          sv = fold broadcast_level3_order_deleted (st_deletions settlement) sv
      in case st_add settlement of None \<Rightarrow> sv | Some event \<Rightarrow> broadcast_level3_add_order event sv)"

section \<open>Handlers\<close>

type_synonym handled = "unit outcome \<times> TradeBuffer \<times> ExchangeServer"

definition enter_new_order ::
    "(OrderId list \<Rightarrow> OrderId list) \<Rightarrow> int \<Rightarrow> MessageHeader \<Rightarrow> u8 list \<Rightarrow> NewOrderRequest \<Rightarrow>
      TradeBuffer \<Rightarrow> ExchangeServer \<Rightarrow> handled" where
  "enter_new_order hash_order socket header body request trades sv =
     (let wire_symbol = nor_symbol request; symb = symbol_to_string wire_symbol;
          order_id = nor_order_id request; x = server_order request;
          client = risk_client_id_for_socket sv socket;
          (instrument, sv) = instrument_for symb sv;
          book = in_book instrument
      in if find_order book order_id \<noteq> None \<or> in_order_owners instrument order_id \<noteq> None then
           (Inr (), tb_clear trades, send_order_response socket order_id False MT_OrderAccepted sv)
         else
           (case (if ord_type x = Market then market_reference_price (ord_side x) book else Inr None) of
              Inl e \<Rightarrow> (Inl e, trades, sv)
            | Inr reference_price \<Rightarrow>
                if \<not> accepted (check_new_order (sv_risk_engine sv)
                     \<lparr>rq_client_id = client, rq_symbol = symb, rq_order_id = order_id,
                      rq_side = ord_side x, rq_order_type = ord_type x, rq_time_in_force = ord_tif x,
                      rq_price = nor_price request, rq_quantity = ord_remaining x,
                      rq_reference_price = reference_price\<rparr>) then
                  (Inr (), tb_clear trades, send_order_response socket order_id False MT_OrderAccepted sv)
                else
                  (case append_journal_record header body sv of
                     (Inl e, sv) \<Rightarrow> (Inl e, trades, sv)
                   | (Inr _, sv) \<Rightarrow>
                       (case process_order_into book x trades of
                          (Inl e, book, trades) \<Rightarrow>
                            (Inl e, trades, set_instrument symb (instrument\<lparr>in_book := book\<rparr>) sv)
                        | (Inr _, book, trades) \<Rightarrow>
                            let settlement = settle_fills hash_order wire_symbol order_id socket client
                                  (tb_to_vector trades) (instrument\<lparr>in_book := book\<rparr>) (sv_risk_engine sv);
                                sv = set_instrument symb (st_instrument settlement)
                                  (sv\<lparr>sv_risk_engine := st_risk_engine settlement\<rparr>)
                            in (case capture_book_snapshot wire_symbol book of
                                  Inl e \<Rightarrow> (Inl e, trades, sv)
                                | Inr snapshot \<Rightarrow>
                                    let sv = send_order_response socket order_id True MT_OrderAccepted sv;
                                        sv = send_execution_deliveries (fr_deliveries (st_report settlement)) sv;
                                        sv = broadcast_book_update snapshot sv
                                    in (Inr (), trades, broadcast_executions settlement sv))))))"

definition handle_new_order ::
    "(OrderId list \<Rightarrow> OrderId list) \<Rightarrow> int \<Rightarrow> MessageHeader \<Rightarrow> u8 list \<Rightarrow>
      TradeBuffer \<Rightarrow> ExchangeServer \<Rightarrow> handled" where
  "handle_new_order hash_order socket header body trades sv =
     (if unat (hdr_body_size header) \<noteq> new_order_body_size then
        (Inr (), trades, send_order_response socket 0 False MT_OrderAccepted sv)
      else
        (case decode_new_order body of
           None \<Rightarrow> (Inr (), trades, send_order_response socket 0 False MT_OrderAccepted sv)
         | Some request \<Rightarrow>
             if nor_quantity request > maximum_quantity then
               (Inr (), trades, send_order_response socket (nor_order_id request) False MT_OrderAccepted sv)
             else if symbol_to_string (nor_symbol request) = [] then
               (Inr (), trades, send_order_response socket (nor_order_id request) False MT_OrderAccepted sv)
             else enter_new_order hash_order socket header body request trades sv))"

text \<open>The guard that a request on an order comes from its owner and the order rests.\<close>

definition owns_resting_order :: "InstrumentState \<Rightarrow> OrderId \<Rightarrow> int \<Rightarrow> RiskClientId \<Rightarrow> bool" where
  "owns_resting_order instrument order_id socket client \<longleftrightarrow>
     (case in_order_owners instrument order_id of
        None \<Rightarrow> False
      | Some owner \<Rightarrow> ow_socket owner = socket \<and> ow_risk_client_id owner = client \<and>
          find_order (in_book instrument) order_id \<noteq> None)"

definition cancel_resting_order ::
    "int \<Rightarrow> MessageHeader \<Rightarrow> u8 list \<Rightarrow> CancelOrderRequest \<Rightarrow> InstrumentState \<Rightarrow>
      ExchangeServer \<Rightarrow> unit outcome \<times> ExchangeServer" where
  "cancel_resting_order socket header body request instrument sv =
     (let wire_symbol = cor_symbol request; symb = symbol_to_string wire_symbol;
          order_id = cor_order_id request; client = risk_client_id_for_socket sv socket
      in case append_journal_record header body sv of
           (Inl e, sv) \<Rightarrow> (Inl e, sv)
         | (Inr _, sv) \<Rightarrow>
             (case engine_cancel_order (in_book instrument) order_id of
                (Inl e, book) \<Rightarrow> (Inl e, set_instrument symb (instrument\<lparr>in_book := book\<rparr>) sv)
              | (Inr cancelled, book) \<Rightarrow>
                  if \<not> cancelled then
                    (Inr (), send_order_response socket order_id False MT_OrderCancelled
                       (set_instrument symb (instrument\<lparr>in_book := book\<rparr>) sv))
                  else
                    let instrument = \<lparr>in_book = book,
                          in_order_owners = (in_order_owners instrument)(order_id := None)\<rparr>;
                        sv = set_instrument symb instrument (sv\<lparr>sv_risk_engine :=
                          on_order_cancelled client symb order_id (sv_risk_engine sv)\<rparr>)
                    in (case capture_book_snapshot wire_symbol book of
                          Inl e \<Rightarrow> (Inl e, sv)
                        | Inr snapshot \<Rightarrow>
                            (Inr (), broadcast_level3_order_deleted (level3_deleted_of wire_symbol order_id)
                               (broadcast_book_update snapshot
                                  (send_order_response socket order_id True MT_OrderCancelled sv))))))"

definition handle_cancel_order ::
    "int \<Rightarrow> MessageHeader \<Rightarrow> u8 list \<Rightarrow> ExchangeServer \<Rightarrow> unit outcome \<times> ExchangeServer" where
  "handle_cancel_order socket header body sv =
     (if unat (hdr_body_size header) \<noteq> cancel_order_body_size then
        (Inr (), send_order_response socket 0 False MT_OrderAccepted sv)
      else
        (case decode_cancel_order body of
           None \<Rightarrow> (Inr (), send_order_response socket 0 False MT_OrderAccepted sv)
         | Some request \<Rightarrow>
             (case find_instrument sv (symbol_to_string (cor_symbol request)) of
                None \<Rightarrow> (Inr (), send_order_response socket (cor_order_id request) False MT_OrderCancelled sv)
              | Some instrument \<Rightarrow>
                  if owns_resting_order instrument (cor_order_id request) socket
                       (risk_client_id_for_socket sv socket)
                  then cancel_resting_order socket header body request instrument sv
                  else (Inr (), send_order_response socket (cor_order_id request) False
                          MT_OrderCancelled sv))))"

definition replace_resting_order ::
    "(OrderId list \<Rightarrow> OrderId list) \<Rightarrow> int \<Rightarrow> MessageHeader \<Rightarrow> u8 list \<Rightarrow> ReplaceOrderRequest \<Rightarrow>
      InstrumentState \<Rightarrow> Order \<Rightarrow> TradeBuffer \<Rightarrow> ExchangeServer \<Rightarrow> handled" where
  "replace_resting_order hash_order socket header body request instrument original_order trades sv =
     (let wire_symbol = ror_symbol request; symb = symbol_to_string wire_symbol;
          order_id = ror_order_id request; client = risk_client_id_for_socket sv socket
      in if \<not> accepted (check_replace (sv_risk_engine sv) client symb order_id
              (ror_new_price request) (ucast (ror_new_quantity request))) then
           (Inr (), tb_clear trades, send_order_response socket order_id False MT_OrderReplaced sv)
         else
           (case append_journal_record header body sv of
              (Inl e, sv) \<Rightarrow> (Inl e, trades, sv)
            | (Inr _, sv) \<Rightarrow>
                let sv = sv\<lparr>sv_risk_engine := on_order_cancelled client symb order_id (sv_risk_engine sv)\<rparr>
                in (case replace_order_into (in_book instrument) order_id (ror_new_price request)
                       (ucast (ror_new_quantity request)) (ror_timestamp request) trades of
                      (Inl e, book, trades) \<Rightarrow>
                        (Inl e, trades, set_instrument symb (instrument\<lparr>in_book := book\<rparr>) sv)
                    | (Inr was_replaced, book, trades) \<Rightarrow>
                        if \<not> was_replaced then
                          (Inr (), trades, send_order_response socket order_id False MT_OrderReplaced
                             (set_instrument symb (instrument\<lparr>in_book := book\<rparr>)
                               (sv\<lparr>sv_risk_engine := on_order_resting client symb (ord_id original_order)
                                  (ord_side original_order) (ord_price original_order)
                                  (ord_remaining original_order) (sv_risk_engine sv)\<rparr>)))
                        else
                          let settlement = settle_fills hash_order wire_symbol order_id socket client
                                (tb_to_vector trades) (instrument\<lparr>in_book := book\<rparr>) (sv_risk_engine sv);
                              instrument = st_instrument settlement;
                              instrument = (if find_order book order_id = None
                                then instrument\<lparr>in_order_owners := (in_order_owners instrument)(order_id := None)\<rparr>
                                else instrument);
                              sv = set_instrument symb instrument
                                (sv\<lparr>sv_risk_engine := st_risk_engine settlement\<rparr>)
                          in (case capture_book_snapshot wire_symbol book of
                                Inl e \<Rightarrow> (Inl e, trades, sv)
                              | Inr snapshot \<Rightarrow>
                                  let sv = send_order_response socket order_id True MT_OrderReplaced sv;
                                      sv = send_execution_deliveries (fr_deliveries (st_report settlement)) sv;
                                      sv = broadcast_book_update snapshot sv;
                                      sv = broadcast_level3_order_deleted
                                        (level3_deleted_of wire_symbol order_id) sv
                                  in (Inr (), trades, broadcast_executions settlement sv)))))"

definition handle_replace_order ::
    "(OrderId list \<Rightarrow> OrderId list) \<Rightarrow> int \<Rightarrow> MessageHeader \<Rightarrow> u8 list \<Rightarrow>
      TradeBuffer \<Rightarrow> ExchangeServer \<Rightarrow> handled" where
  "handle_replace_order hash_order socket header body trades sv =
     (if unat (hdr_body_size header) \<noteq> replace_order_body_size then
        (Inr (), trades, send_order_response socket 0 False MT_OrderAccepted sv)
      else
        (case decode_replace_order body of
           None \<Rightarrow> (Inr (), trades, send_order_response socket 0 False MT_OrderAccepted sv)
         | Some request \<Rightarrow>
             if ror_new_quantity request > maximum_quantity then
               (Inr (), trades, send_order_response socket (ror_order_id request) False MT_OrderAccepted sv)
             else
               (case find_instrument sv (symbol_to_string (ror_symbol request)) of
                  None \<Rightarrow> (Inr (), trades,
                    send_order_response socket (ror_order_id request) False MT_OrderReplaced sv)
                | Some instrument \<Rightarrow>
                    (case find_order (in_book instrument) (ror_order_id request) of
                       Some existing_order \<Rightarrow>
                         if owns_resting_order instrument (ror_order_id request) socket
                              (risk_client_id_for_socket sv socket)
                         then replace_resting_order hash_order socket header body request instrument
                                existing_order trades sv
                         else (Inr (), trades,
                           send_order_response socket (ror_order_id request) False MT_OrderReplaced sv)
                     | None \<Rightarrow> (Inr (), trades,
                         send_order_response socket (ror_order_id request) False MT_OrderReplaced sv)))))"

definition handle_message ::
    "(OrderId list \<Rightarrow> OrderId list) \<Rightarrow> int \<Rightarrow> MessageHeader \<Rightarrow> u8 list \<Rightarrow>
      TradeBuffer \<Rightarrow> ExchangeServer \<Rightarrow> handled" where
  "handle_message hash_order socket header body trades sv =
     (case hdr_type header of
        MT_NewOrder \<Rightarrow> handle_new_order hash_order socket header body trades sv
      | MT_CancelOrder \<Rightarrow>
          (case handle_cancel_order socket header body sv of (res, sv) \<Rightarrow> (res, trades, sv))
      | MT_ReplaceOrder \<Rightarrow> handle_replace_order hash_order socket header body trades sv
      | _ \<Rightarrow> (Inr (), trades, sv))"

section \<open>Sessions\<close>

text \<open>
  The framing loop. It returns what is left of the receive buffer. Where the code clears the
  buffer, an invalid header or an oversized body, the session goes on with an empty buffer.
\<close>

function process_receive_buffer ::
    "(OrderId list \<Rightarrow> OrderId list) \<Rightarrow> int \<Rightarrow> u8 list \<Rightarrow> TradeBuffer \<Rightarrow> ExchangeServer \<Rightarrow>
      unit outcome \<times> u8 list \<times> TradeBuffer \<times> ExchangeServer" where
  "process_receive_buffer hash_order socket receive_buffer trades sv =
     (if length receive_buffer < header_size then (Inr (), receive_buffer, trades, sv)
      else
        (case decode_header (take header_size receive_buffer) of
           None \<Rightarrow> (Inr (), [], trades, sv)
         | Some header \<Rightarrow>
             if unat (hdr_body_size header) > maximum_body_size then (Inr (), [], trades, sv)
             else
               let body_size = unat (hdr_body_size header); full_message_size = header_size + body_size
               in if length receive_buffer < full_message_size then (Inr (), receive_buffer, trades, sv)
                  else
                    (case handle_message hash_order socket header
                         (take body_size (drop header_size receive_buffer)) trades sv of
                       (Inl e, trades, sv) \<Rightarrow> (Inl e, receive_buffer, trades, sv)
                     | (Inr _, trades, sv) \<Rightarrow>
                         process_receive_buffer hash_order socket (drop full_message_size receive_buffer)
                           trades sv)))"
  by pat_completeness auto
termination
  by (relation "measure (\<lambda>(_, _, receive_buffer, _, _). length receive_buffer)")
    (auto simp: header_size_def)

declare process_receive_buffer.simps [simp del]

text \<open>
  The loop of \<^verbatim>\<open>handle_client\<close> on the chunks that \<^verbatim>\<open>receive_from\<close> returns: an empty one, or the end
  of the list, is the disconnect.
\<close>

fun receive_loop ::
    "(OrderId list \<Rightarrow> OrderId list) \<Rightarrow> int \<Rightarrow> u8 list list \<Rightarrow> u8 list \<Rightarrow> TradeBuffer \<Rightarrow> ExchangeServer \<Rightarrow>
      unit outcome \<times> u8 list \<times> TradeBuffer \<times> ExchangeServer" where
  "receive_loop hash_order socket [] receive_buffer trades sv = (Inr (), receive_buffer, trades, sv)"
| "receive_loop hash_order socket (bytes # chunks) receive_buffer trades sv =
     (if \<not> sv_running sv \<or> bytes = [] then (Inr (), receive_buffer, trades, sv)
      else
        (case process_receive_buffer hash_order socket (receive_buffer @ bytes) trades sv of
           (Inl e, receive_buffer, trades, sv) \<Rightarrow> (Inl e, receive_buffer, trades, sv)
         | (Inr _, receive_buffer, trades, sv) \<Rightarrow>
             receive_loop hash_order socket chunks receive_buffer trades sv))"

definition handle_client ::
    "(OrderId list \<Rightarrow> OrderId list) \<Rightarrow> int \<Rightarrow> u8 list list \<Rightarrow> ExchangeServer \<Rightarrow>
      unit outcome \<times> ExchangeServer" where
  "handle_client hash_order socket chunks sv =
     (case receive_loop hash_order socket chunks [] default_trade_buffer sv of
        (Inl e, _, _, sv) \<Rightarrow> (Inl e, sv)
      | (Inr _, _, _, sv) \<Rightarrow> (Inr (), unregister_client socket sv))"

section \<open>Recovery and start\<close>

text \<open>
  What \<^verbatim>\<open>recover_from_journal\<close> finds at the configured path.
\<close>

datatype JournalFile =
    Not_Configured
  | Not_Inspectable
  | Missing
  | Size_Unknown
  | Unreadable
  | Contents "u8 list"

fun file_contents :: "JournalFile \<Rightarrow> u8 list" where
  "file_contents (Contents bytes) = bytes"
| "file_contents _ = []"

definition adopt_book :: "string \<times> OrderBook \<Rightarrow> nat \<times> ExchangeServer \<Rightarrow> nat \<times> ExchangeServer" where
  "adopt_book recovered state =
     (case (recovered, state) of ((symb, recovered_book), (remaining_orders, sv)) \<Rightarrow>
        let (instrument, sv) = instrument_for symb sv;
            (book, _) = swap_books (in_book instrument, recovered_book)
        in (remaining_orders + order_count book,
            set_instrument symb (instrument\<lparr>in_book := book\<rparr>) sv))"

definition recover_from_journal :: "JournalFile \<Rightarrow> ExchangeServer \<Rightarrow> bool \<times> ExchangeServer" where
  "recover_from_journal file sv =
     (let idle = new_recovery_state; attempted = idle\<lparr>rs_attempted := True\<rparr>;
          replay_file = (\<lambda>bytes.
            let (ok, replayer) = replay bytes new_replayer in
            if \<not> ok then (False, sv\<lparr>sv_recovery_state := attempted\<rparr>)
            else
              let replay_summary = rp_summary replayer;
                  (recovered_books, _) = release_order_books replayer;
                  (remaining_orders, sv) = fold adopt_book recovered_books
                    (0, sv\<lparr>sv_recovery_state := attempted\<rparr>)
              in (True, sv\<lparr>sv_recovery_state :=
                    \<lparr>rs_attempted = True, rs_successful = True,
                     rs_journal_records = sum_journal_records replay_summary,
                     rs_new_orders = sum_new_orders replay_summary,
                     rs_trades = sum_trades replay_summary,
                     rs_rejected_messages = sum_rejected_messages replay_summary,
                     rs_unsupported_messages = sum_unsupported_messages replay_summary,
                     rs_remaining_orders = remaining_orders,
                     rs_instruments = length (sv_instruments sv)\<rparr>\<rparr>))
      in case file of
           Not_Configured \<Rightarrow> (True, sv\<lparr>sv_recovery_state := idle\<lparr>rs_successful := True\<rparr>\<rparr>)
         | Not_Inspectable \<Rightarrow> (False, sv\<lparr>sv_recovery_state := attempted\<rparr>)
         | Missing \<Rightarrow> (True, sv\<lparr>sv_recovery_state := attempted\<lparr>rs_successful := True\<rparr>\<rparr>)
         | Size_Unknown \<Rightarrow> (False, sv\<lparr>sv_recovery_state := attempted\<rparr>)
         | Unreadable \<Rightarrow> replay_file None
         | Contents bytes \<Rightarrow>
             if bytes = [] then (True, sv\<lparr>sv_recovery_state := attempted\<lparr>rs_successful := True\<rparr>\<rparr>)
             else replay_file (Some bytes))"

text \<open>
  What the environment decides about a start: whether the journal opens for appending, whether a
  multicast publisher is configured and starts, whether the listening socket opens.
\<close>

record StartEnvironment =
  se_file :: JournalFile
  se_journal_opens :: bool
  se_multicast_configured :: bool
  se_multicast_starts :: bool
  se_listens :: bool

definition open_server_journal :: "StartEnvironment \<Rightarrow> ExchangeServer \<Rightarrow> bool \<times> ExchangeServer" where
  "open_server_journal env sv =
     (if se_file env \<noteq> Not_Configured \<and> sv_journal sv = None then
        (case open_journal (se_journal_opens env) False (file_contents (se_file env)) of
           Inl e \<Rightarrow> (False, sv)
         | Inr journal \<Rightarrow> (True, sv\<lparr>sv_journal := Some journal\<rparr>))
      else (True, sv))"

definition start_server :: "StartEnvironment \<Rightarrow> ExchangeServer \<Rightarrow> bool \<times> ExchangeServer" where
  "start_server env sv =
     (let (recovered, sv) = (if sv_recovery_completed sv then (True, sv)
            else let (ok, sv) = recover_from_journal (se_file env) sv
                 in (ok, if ok then sv\<lparr>sv_recovery_completed := True\<rparr> else sv))
      in if \<not> recovered then (False, sv)
      else
        let (opened, sv) = open_server_journal env sv in
        if \<not> opened then (False, sv)
        else
          let starts_multicast = (se_multicast_configured env \<and> \<not> sv_multicast sv) in
          if starts_multicast \<and> \<not> se_multicast_starts env then (False, sv)
          else
            let sv = (if starts_multicast then sv\<lparr>sv_multicast := True\<rparr> else sv) in
            if \<not> se_listens env then (False, sv\<lparr>sv_multicast := False\<rparr>)
            else (True, sv\<lparr>sv_running := True\<rparr>))"
definition stop_server :: "bool \<Rightarrow> ExchangeServer \<Rightarrow> unit outcome \<times> ExchangeServer" where
  "stop_server flush_fault sv =
     (let sv = sv\<lparr>sv_running := False, sv_multicast := False\<rparr>
      in case sv_journal sv of
           None \<Rightarrow> (Inr (), sv)
         | Some journal \<Rightarrow>
             (case journal_flush flush_fault journal of
                (res, journal) \<Rightarrow> (res, sv\<lparr>sv_journal := Some journal\<rparr>)))"


end
