(* ===== verification/Server_Invariants.thy ===== *)
theory Server_Invariants
  imports Exchange_Server Replay_Properties
begin

text \<open>
  Shared facts on the server: what the sending functions leave alone, what each handler does to the
  books, the owners, the risk engine and the journal, and the invariants of the instruments.
\<close>

section \<open>Sending changes only what was sent\<close>

definition quiet :: "ExchangeServer \<Rightarrow> ExchangeServer \<Rightarrow> bool" where
  "quiet sv sv' \<longleftrightarrow> (\<exists>n s d. sv' = sv\<lparr>sv_next_sequence_number := n, sv_sent := sv_sent sv @ s,
     sv_datagrams := sv_datagrams sv @ d\<rparr>)"

lemma quiet_refl [simp, intro]: "quiet sv sv"
  unfolding quiet_def by (rule exI [of _ "sv_next_sequence_number sv"], rule exI [of _ "[]"], rule exI [of _ "[]"]) simp

lemma quiet_trans: "quiet a b \<Longrightarrow> quiet b c \<Longrightarrow> quiet a c"
  unfolding quiet_def by force

lemma quietI: "sv' = sv\<lparr>sv_next_sequence_number := n, sv_sent := sv_sent sv @ s,
    sv_datagrams := sv_datagrams sv @ d\<rparr> \<Longrightarrow> quiet sv sv'"
  unfolding quiet_def by blast

lemma quiet_fields:
  assumes "quiet sv sv'"
  shows "sv_instruments sv' = sv_instruments sv" "sv_risk_engine sv' = sv_risk_engine sv"
    "sv_journal sv' = sv_journal sv" "sv_faults sv' = sv_faults sv" "sv_running sv' = sv_running sv"
    "sv_client_risk_ids sv' = sv_client_risk_ids sv" "sv_client_sockets sv' = sv_client_sockets sv"
    "sv_multicast sv' = sv_multicast sv"
  using assms by (auto simp: quiet_def)

lemma quiet_fetch: "quiet sv (snd (fetch_sequence_number sv))"
  by (rule quietI [where s = "[]" and d = "[]"]) (simp add: fetch_sequence_number_def)

lemma quiet_send_to: "quiet sv (send_to socket m sv)"
  by (rule quietI [where n = "sv_next_sequence_number sv" and s = "[(socket, m)]" and d = "[]"]) (simp add: send_to_def)

lemma quiet_fold: "(\<And>x sv. quiet sv (f x sv)) \<Longrightarrow> quiet sv (fold f xs sv)"
  by (induction xs arbitrary: sv) (auto intro: quiet_trans)

lemma quiet_multicast: "quiet sv (sv\<lparr>sv_datagrams := sv_datagrams sv @ [m]\<rparr>)"
  by (rule quietI [where n = "sv_next_sequence_number sv" and s = "[]" and d = "[m]"]) simp

lemma quiet_broadcast: "quiet sv (broadcast m sv)"
  unfolding broadcast_def Let_def
  by (cases "sv_multicast sv") (auto intro!: quiet_fold quiet_send_to intro: quiet_trans [OF quiet_multicast])

lemma quiet_after_fetch: "(\<And>n sv. quiet sv (f n sv)) \<Longrightarrow> quiet sv (case fetch_sequence_number sv of (n, sv) \<Rightarrow> f n sv)"
  using quiet_fetch [of sv] by (auto split: prod.split intro: quiet_trans)

lemma quiet_response: "quiet sv (send_order_response socket i ok t sv)"
  unfolding send_order_response_def Let_def by (intro quiet_after_fetch quiet_send_to)

lemma quiet_trade: "quiet sv (send_trade_execution socket y x sv)"
  unfolding send_trade_execution_def Let_def by (auto intro: quiet_after_fetch quiet_send_to)

lemma quiet_deliveries: "quiet sv (send_execution_deliveries ds sv)"
  unfolding send_execution_deliveries_def by (rule quiet_fold) (blast intro: quiet_trans quiet_trade)

lemma quiet_book_update: "quiet sv (broadcast_book_update s sv)"
  unfolding broadcast_book_update_def Let_def by (intro quiet_after_fetch quiet_broadcast)

lemma quiet_level3:
  "quiet sv (broadcast_level3_add_order a sv)" "quiet sv (broadcast_level3_order_executed x sv)"
  "quiet sv (broadcast_level3_order_deleted d sv)"
  unfolding broadcast_level3_add_order_def broadcast_level3_order_executed_def
    broadcast_level3_order_deleted_def Let_def
  by (intro quiet_after_fetch quiet_broadcast)+

lemma quiet_executions: "quiet sv (broadcast_executions settlement sv)"
  unfolding broadcast_executions_def Let_def
  by (auto split: option.split intro!: quiet_fold quiet_level3 intro: quiet_trans quiet_level3
      quiet_trans [OF quiet_fold quiet_fold] quiet_trans [OF quiet_trans [OF quiet_fold quiet_fold]])

lemmas quiet_sends = quiet_response quiet_trade quiet_deliveries quiet_book_update quiet_level3 quiet_executions

lemmas send_fields [simp] =
  quiet_response [THEN quiet_fields(1)] quiet_response [THEN quiet_fields(2)]
  quiet_response [THEN quiet_fields(3)] quiet_response [THEN quiet_fields(4)]
  quiet_response [THEN quiet_fields(5)] quiet_response [THEN quiet_fields(6)]
  quiet_deliveries [THEN quiet_fields(1)] quiet_deliveries [THEN quiet_fields(2)]
  quiet_deliveries [THEN quiet_fields(3)] quiet_deliveries [THEN quiet_fields(4)]
  quiet_deliveries [THEN quiet_fields(5)] quiet_deliveries [THEN quiet_fields(6)]
  quiet_book_update [THEN quiet_fields(1)] quiet_book_update [THEN quiet_fields(2)]
  quiet_book_update [THEN quiet_fields(3)] quiet_book_update [THEN quiet_fields(4)]
  quiet_book_update [THEN quiet_fields(5)] quiet_book_update [THEN quiet_fields(6)]
  quiet_level3 [THEN quiet_fields(1)] quiet_level3 [THEN quiet_fields(2)]
  quiet_level3 [THEN quiet_fields(3)] quiet_level3 [THEN quiet_fields(4)]
  quiet_level3 [THEN quiet_fields(5)] quiet_level3 [THEN quiet_fields(6)]
  quiet_executions [THEN quiet_fields(1)] quiet_executions [THEN quiet_fields(2)]
  quiet_executions [THEN quiet_fields(3)] quiet_executions [THEN quiet_fields(4)]
  quiet_executions [THEN quiet_fields(5)] quiet_executions [THEN quiet_fields(6)]

section \<open>Instruments\<close>

lemma find_instrument_cong: "sv_instruments sv' = sv_instruments sv \<Longrightarrow> find_instrument sv' y = find_instrument sv y"
  by (simp add: find_instrument_def)

lemma set_instrument_fields [simp]:
  "find_instrument (set_instrument y inst sv) = (find_instrument sv)(y \<mapsto> inst)"
  "sv_risk_engine (set_instrument y inst sv) = sv_risk_engine sv"
  "sv_journal (set_instrument y inst sv) = sv_journal sv" "sv_faults (set_instrument y inst sv) = sv_faults sv"
  "sv_running (set_instrument y inst sv) = sv_running sv"
  "sv_client_risk_ids (set_instrument y inst sv) = sv_client_risk_ids sv"
  "sv_sent (set_instrument y inst sv) = sv_sent sv" "sv_datagrams (set_instrument y inst sv) = sv_datagrams sv"
  "sv_next_sequence_number (set_instrument y inst sv) = sv_next_sequence_number sv"
  by (auto simp: set_instrument_def find_instrument_def update_conv')

lemma instrument_for_eq:
  "instrument_for y sv = (inst, sv') \<Longrightarrow>
     inst = (case find_instrument sv y of None \<Rightarrow> new_instrument | Some i \<Rightarrow> i) \<and>
     find_instrument sv' = (find_instrument sv)(y \<mapsto> inst) \<and>
     sv_risk_engine sv' = sv_risk_engine sv \<and> sv_journal sv' = sv_journal sv \<and> sv_faults sv' = sv_faults sv \<and>
     sv_running sv' = sv_running sv \<and> sv_client_risk_ids sv' = sv_client_risk_ids sv \<and>
     sv_sent sv' = sv_sent sv \<and> sv_next_sequence_number sv' = sv_next_sequence_number sv \<and>
     sv_datagrams sv' = sv_datagrams sv"
  by (auto simp: instrument_for_def map_upd_triv split: option.splits)

definition live_book :: "ExchangeServer \<Rightarrow> string \<Rightarrow> OrderBook" where
  "live_book sv y = (case find_instrument sv y of None \<Rightarrow> new_book | Some inst \<Rightarrow> in_book inst)"

definition owner_of :: "ExchangeServer \<Rightarrow> string \<Rightarrow> OrderId \<Rightarrow> OrderOwner option" where
  "owner_of sv y i = (case find_instrument sv y of None \<Rightarrow> None | Some inst \<Rightarrow> in_order_owners inst i)"


lemma live_book_set [simp]: "live_book (set_instrument y inst sv) = (live_book sv)(y := in_book inst)"
  by (auto simp: live_book_def fun_eq_iff)

lemma owner_of_set [simp]: "owner_of (set_instrument y inst sv) = (owner_of sv)(y := in_order_owners inst)"
  by (auto simp: owner_of_def fun_eq_iff)

lemma views_cong:
  assumes "sv_instruments sv' = sv_instruments sv"
  shows "live_book sv' = live_book sv" "owner_of sv' = owner_of sv"
  by (simp_all add: live_book_def owner_of_def find_instrument_cong [OF assms] fun_eq_iff)

lemmas send_views [simp] =
  quiet_sends [THEN quiet_fields(1), THEN views_cong(1)] quiet_sends [THEN quiet_fields(1), THEN views_cong(2)]

lemma views_update [simp]:
  "live_book (sv\<lparr>sv_risk_engine := re\<rparr>) = live_book sv" "owner_of (sv\<lparr>sv_risk_engine := re\<rparr>) = owner_of sv"
  by (rule views_cong; simp)+

lemma find_instrument_views:
  assumes "find_instrument sv y = Some inst"
  shows "in_book inst = live_book sv y" "in_order_owners inst = owner_of sv y"
  using assms by (simp_all add: live_book_def owner_of_def fun_eq_iff)

lemma instrument_for_views:
  assumes "instrument_for y sv = (inst, sv')"
  shows "inst = \<lparr>in_book = live_book sv y, in_order_owners = owner_of sv y\<rparr>"
    "live_book sv' = live_book sv" "owner_of sv' = owner_of sv"
  using instrument_for_eq [OF assms]
  by (auto simp: live_book_def owner_of_def new_instrument_def fun_eq_iff split: option.split)

section \<open>Journaling\<close>

definition journal_step ::
    "MessageHeader \<Rightarrow> u8 list \<Rightarrow> ExchangeJournal option \<Rightarrow> unit outcome \<Rightarrow> ExchangeJournal option \<Rightarrow> bool" where
  "journal_step header body j r j' \<longleftrightarrow>
     (case j of None \<Rightarrow> r = Inr () \<and> j' = None
      | Some jr \<Rightarrow> (\<exists>f g jr'. journal_append (encode_header header @ body) f g jr = (r, jr') \<and> j' = Some jr'))"

lemma append_journal_record_eq:
  assumes "append_journal_record header body sv = (r, sv')"
  shows "journal_step header body (sv_journal sv) r (sv_journal sv')"
    "sv_instruments sv' = sv_instruments sv" "sv_risk_engine sv' = sv_risk_engine sv"
    "sv_running sv' = sv_running sv" "sv_client_risk_ids sv' = sv_client_risk_ids sv"
    "sv_sent sv' = sv_sent sv" "sv_next_sequence_number sv' = sv_next_sequence_number sv"
  using assms
  by (auto simp: append_journal_record_def journal_step_def Let_def split: option.splits prod.splits list.splits; blast)+

lemma request_sizes:
  "new_order_body_size \<le> 1000" "cancel_order_body_size \<le> 1000" "replace_order_body_size \<le> 1000"
  by (simp_all add: new_order_body_size_def cancel_order_body_size_def replace_order_body_size_def)

text \<open>Nothing stands in the way of the next journal write.\<close>

definition journal_healthy :: "ExchangeServer \<Rightarrow> bool" where
  "journal_healthy sv \<longleftrightarrow> sv_faults sv = [] \<and> (\<forall>j. sv_journal sv = Some j \<longrightarrow> \<not> jr_failed j)"

lemma length_encode_header: "length (encode_header h) = header_size"
  by (simp add: encode_header_bytes header_size_def)

lemma append_journal_record_healthy:
  assumes "append_journal_record header body sv = (Inl e, sv')" "length body \<le> 1000"
  shows "\<not> journal_healthy sv"
proof
  assume healthy: "journal_healthy sv"
  then obtain j where j: "sv_journal sv = Some j" "\<not> jr_failed j" "sv_faults sv = []"
    using assms(1) by (auto simp: append_journal_record_def journal_healthy_def split: option.splits)
  have "length (encode_header header @ body) \<le> 2 ^ 32 - 1"
    using assms(2) by (simp add: length_encode_header header_size_def)
  then have "fst (journal_append (encode_header header @ body) None None j) = Inr ()"
    using j(2) by (simp add: journal_append_def Let_def)
  then show False using assms(1) j by (auto simp: append_journal_record_def Let_def split: prod.splits)
qed

lemma journal_healthy_cong:
  "sv_journal sv' = sv_journal sv \<Longrightarrow> sv_faults sv' = sv_faults sv \<Longrightarrow> journal_healthy sv' = journal_healthy sv"
  by (simp add: journal_healthy_def)

section \<open>Responses\<close>

definition response_message :: "MessageType \<Rightarrow> u64 \<Rightarrow> u64 \<Rightarrow> bool \<Rightarrow> u8 list" where
  "response_message t sequence_number order_id success =
     outgoing_message t sequence_number (encode_order_response \<lparr>rsp_order_id = order_id,
       rsp_sequence_number = sequence_number, rsp_success = (if success then 1 else 0)\<rparr>)"

text \<open>One rejection and nothing else was sent; or a confirmation was sent first.\<close>

definition rejects :: "int \<Rightarrow> ExchangeServer \<Rightarrow> ExchangeServer \<Rightarrow> bool" where
  "rejects socket sv sv' \<longleftrightarrow> sv_datagrams sv' = sv_datagrams sv \<and>
     sv_next_sequence_number sv' = sv_next_sequence_number sv + 1 \<and>
     (\<exists>i. sv_sent sv' = sv_sent sv @
       [(socket, response_message MT_OrderRejected (sv_next_sequence_number sv) i False)])"

definition confirms :: "MessageType \<Rightarrow> u64 \<Rightarrow> int \<Rightarrow> ExchangeServer \<Rightarrow> ExchangeServer \<Rightarrow> bool" where
  "confirms t i socket sv sv' \<longleftrightarrow> (\<exists>rest. sv_sent sv' = sv_sent sv @
     (socket, response_message t (sv_next_sequence_number sv) i True) # rest)"

lemma send_order_response_sent:
  "sv_sent (send_order_response socket i ok t sv) = sv_sent sv @
     [(socket, response_message (if ok then t else MT_OrderRejected) (sv_next_sequence_number sv) i ok)]"
  "sv_datagrams (send_order_response socket i ok t sv) = sv_datagrams sv"
  "sv_next_sequence_number (send_order_response socket i ok t sv) = sv_next_sequence_number sv + 1"
  by (simp_all add: send_order_response_def response_message_def fetch_sequence_number_def send_to_def Let_def)

lemma rejectsI:
  "sv_sent sv0 = sv_sent sv \<Longrightarrow> sv_next_sequence_number sv0 = sv_next_sequence_number sv \<Longrightarrow>
   sv_datagrams sv0 = sv_datagrams sv \<Longrightarrow> rejects socket sv (send_order_response socket i False t sv0)"
  by (auto simp: rejects_def send_order_response_sent)

lemma confirmsI:
  assumes "quiet (send_order_response socket i True t sv0) sv'"
    and "sv_sent sv0 = sv_sent sv" "sv_next_sequence_number sv0 = sv_next_sequence_number sv"
  shows "confirms t i socket sv sv'"
proof -
  obtain s where "sv_sent sv' = sv_sent (send_order_response socket i True t sv0) @ s"
    using assms(1) by (auto simp: quiet_def)
  then show ?thesis using assms(2,3) by (simp add: confirms_def send_order_response_sent)
qed

section \<open>Cases of the handlers\<close>

text \<open>When a new order enters the book: the conditions of the handler, in its order.\<close>

definition reference_price_of :: "ExchangeServer \<Rightarrow> NewOrderRequest \<Rightarrow> Price option outcome" where
  "reference_price_of sv request =
     (if ord_type (server_order request) = Market
      then market_reference_price (ord_side (server_order request))
        (live_book sv (symbol_to_string (nor_symbol request)))
      else Inr None)"

definition risk_request_of :: "ExchangeServer \<Rightarrow> int \<Rightarrow> NewOrderRequest \<Rightarrow> Price option \<Rightarrow> RiskOrderRequest" where
  "risk_request_of sv socket request price =
     \<lparr>rq_client_id = risk_client_id_for_socket sv socket, rq_symbol = symbol_to_string (nor_symbol request),
      rq_order_id = nor_order_id request, rq_side = ord_side (server_order request),
      rq_order_type = ord_type (server_order request), rq_time_in_force = ord_tif (server_order request),
      rq_price = nor_price request, rq_quantity = ord_remaining (server_order request),
      rq_reference_price = price\<rparr>"

definition new_order_admitted :: "ExchangeServer \<Rightarrow> int \<Rightarrow> MessageHeader \<Rightarrow> u8 list \<Rightarrow> NewOrderRequest \<Rightarrow> bool" where
  "new_order_admitted sv socket header body request \<longleftrightarrow>
     unat (hdr_body_size header) = new_order_body_size \<and> decode_new_order body = Some request \<and>
     nor_quantity request \<le> maximum_quantity \<and> symbol_to_string (nor_symbol request) \<noteq> [] \<and>
     find_order (live_book sv (symbol_to_string (nor_symbol request))) (nor_order_id request) = None \<and>
     owner_of sv (symbol_to_string (nor_symbol request)) (nor_order_id request) = None \<and>
     (\<exists>price. reference_price_of sv request = Inr price \<and>
        accepted (check_new_order (sv_risk_engine sv) (risk_request_of sv socket request price)))"

lemma remove_filled_order_owners_Cons:
  "remove_filled_order_owners (t # ts) i instrument =
     remove_filled_order_owners ts i (remove_filled_order_owners [t] i instrument)"
  by (simp add: remove_filled_order_owners_def)

lemma remove_filled_order_owners_book [simp]:
  "in_book (remove_filled_order_owners ts i instrument) = in_book instrument"
proof (induction ts arbitrary: instrument)
  case (Cons t ts)
  have "in_book (remove_filled_order_owners [t] i instrument) = in_book instrument"
    by (simp add: remove_filled_order_owners_def Let_def)
  then show ?case using Cons.IH by (subst remove_filled_order_owners_Cons) simp
qed (simp add: remove_filled_order_owners_def)

lemma settle_fills_book [simp]:
  "in_book (st_instrument (settle_fills h y i socket client ts instrument risk)) = in_book instrument"
  by (auto simp: settle_fills_def Let_def split: option.split)

definition undisturbed :: "ExchangeServer \<Rightarrow> ExchangeServer \<Rightarrow> bool" where
  "undisturbed sv sv' \<longleftrightarrow> live_book sv' = live_book sv \<and> owner_of sv' = owner_of sv \<and>
     sv_risk_engine sv' = sv_risk_engine sv \<and> sv_running sv' = sv_running sv \<and>
     sv_client_risk_ids sv' = sv_client_risk_ids sv"

lemma handle_new_order_cases:
  assumes res: "handle_new_order hash_order socket header body trades sv = (r, trades', sv')"
  obtains
    (rejected) "r = Inr ()" "undisturbed sv sv'" "sv_journal sv' = sv_journal sv"
      "trades' = trades \<or> trades' = tb_clear trades" "rejects socket sv sv'"
      "\<forall>request. \<not> new_order_admitted sv socket header body request"
  | (no_reference_price) side y e where "r = Inl e" "market_reference_price side (live_book sv y) = Inl e"
      "undisturbed sv sv'" "sv_journal sv' = sv_journal sv" "trades' = trades"
  | (journal_failed) e request where "r = Inl e" "undisturbed sv sv'" "trades' = trades"
      "journal_step header body (sv_journal sv) (Inl e) (sv_journal sv')" "\<not> journal_healthy sv"
      "new_order_admitted sv socket header body request" "sv_sent sv' = sv_sent sv"
  | (entered) request book res where
      "unat (hdr_body_size header) = new_order_body_size" "decode_new_order body = Some request"
      "nor_quantity request \<le> maximum_quantity" "symbol_to_string (nor_symbol request) \<noteq> []"
      "find_order (live_book sv (symbol_to_string (nor_symbol request))) (nor_order_id request) = None"
      "owner_of sv (symbol_to_string (nor_symbol request)) (nor_order_id request) = None"
      "journal_step header body (sv_journal sv) (Inr ()) (sv_journal sv')"
      "process_order_into (live_book sv (symbol_to_string (nor_symbol request))) (server_order request) trades =
         (res, book, trades')"
      "live_book sv' = (live_book sv)(symbol_to_string (nor_symbol request) := book)"
      "sv_running sv' = sv_running sv" "sv_client_risk_ids sv' = sv_client_risk_ids sv"
      "res = Inr () \<Longrightarrow>
         (let settlement = settle_fills hash_order (nor_symbol request) (nor_order_id request) socket
                (risk_client_id_for_socket sv socket) (tb_to_vector trades')
                \<lparr>in_book = book, in_order_owners = owner_of sv (symbol_to_string (nor_symbol request))\<rparr>
                (sv_risk_engine sv)
          in owner_of sv' = (owner_of sv)(symbol_to_string (nor_symbol request) :=
                in_order_owners (st_instrument settlement)) \<and>
             sv_risk_engine sv' = st_risk_engine settlement)"
      "(\<exists>e. res = Inl e \<and> r = Inl e) \<or>
         res = Inr () \<and> r = map_sum id (\<lambda>_. ()) (capture_book_snapshot (nor_symbol request) book)"
      "new_order_admitted sv socket header body request"
      "r = Inr () \<Longrightarrow> confirms MT_OrderAccepted (nor_order_id request) socket sv sv'"
proof -
  consider (early) "r = Inr ()" "trades' = trades" "undisturbed sv sv'" "sv_journal sv' = sv_journal sv"
      "rejects socket sv sv'" "\<forall>request. \<not> new_order_admitted sv socket header body request"
    | (enter) request where "unat (hdr_body_size header) = new_order_body_size"
      "decode_new_order body = Some request" "nor_quantity request \<le> maximum_quantity"
      "symbol_to_string (nor_symbol request) \<noteq> []"
      "enter_new_order hash_order socket header body request trades sv = (r, trades', sv')"
    using res
    by (auto simp: handle_new_order_def undisturbed_def new_order_admitted_def not_less [symmetric] rejectsI
        split: if_splits option.splits)
  then show thesis
  proof cases
    case early
    then show thesis using rejected by blast
  next
    case (enter request)
    let ?y = "symbol_to_string (nor_symbol request)" and ?i = "nor_order_id request"
    obtain inst sv1 where i: "instrument_for ?y sv = (inst, sv1)" by (metis surj_pair)
    note eq = instrument_for_eq [OF i] and views = instrument_for_views [OF i]
    have same: "undisturbed sv sv1" "sv_journal sv1 = sv_journal sv"
      using eq views by (simp_all add: undisturbed_def)
    define reference where "reference = reference_price_of sv request"
    define risk_ok where "risk_ok price = accepted (check_new_order (sv_risk_engine sv)
      (risk_request_of sv socket request price))" for price
    have risk1: "sv_risk_engine sv1 = sv_risk_engine sv" using eq by blast
    note unfold_enter = enter(5) [unfolded enter_new_order_def Let_def i prod.case views(1) InstrumentState.select_convs
        reference_price_of_def [symmetric] reference_def [symmetric] risk1 risk_request_of_def [symmetric]
        risk_ok_def [symmetric]]
    have admitted: "new_order_admitted sv socket header body request \<longleftrightarrow>
        find_order (live_book sv ?y) ?i = None \<and> owner_of sv ?y ?i = None \<and>
        (\<exists>price. reference = Inr price \<and> risk_ok price)"
      using enter by (simp add: new_order_admitted_def reference_def risk_ok_def)
    have only: "new_order_admitted sv socket header body q \<Longrightarrow> q = request" for q
      using enter(2) by (simp add: new_order_admitted_def)
    have sent1: "sv_sent sv1 = sv_sent sv" "sv_next_sequence_number sv1 = sv_next_sequence_number sv"
      "sv_datagrams sv1 = sv_datagrams sv"
      using eq by blast+
    consider (taken) "find_order (live_book sv ?y) ?i \<noteq> None \<or> owner_of sv ?y ?i \<noteq> None"
      | (no_price) e where "find_order (live_book sv ?y) ?i = None" "owner_of sv ?y ?i = None" "reference = Inl e"
      | (risky) price where "find_order (live_book sv ?y) ?i = None" "owner_of sv ?y ?i = None"
          "reference = Inr price" "\<not> risk_ok price"
      | (go) price where "find_order (live_book sv ?y) ?i = None" "owner_of sv ?y ?i = None"
          "reference = Inr price" "risk_ok price"
      by (cases reference) auto
    then show thesis
    proof cases
      case taken
      have sv': "r = Inr ()" "trades' = tb_clear trades" "sv' = send_order_response socket ?i False MT_OrderAccepted sv1"
        using unfold_enter taken by auto
      moreover have "\<forall>q. \<not> new_order_admitted sv socket header body q" using taken only admitted by auto
      ultimately show thesis using same rejectsI [OF sent1] by (intro rejected) (simp_all add: undisturbed_def)
    next
      case (no_price e)
      then show thesis using unfold_enter same
        by (intro no_reference_price [of e "ord_side (server_order request)" ?y])
          (auto simp: undisturbed_def reference_def reference_price_of_def split: if_splits)
    next
      case (risky price)
      have sv': "r = Inr ()" "trades' = tb_clear trades" "sv' = send_order_response socket ?i False MT_OrderAccepted sv1"
        using unfold_enter risky by auto
      moreover have "\<forall>q. \<not> new_order_admitted sv socket header body q" using risky only admitted by auto
      ultimately show thesis using same rejectsI [OF sent1] by (intro rejected) (simp_all add: undisturbed_def)
    next
      case (go price)
      obtain rj sv2 where j: "append_journal_record header body sv1 = (rj, sv2)" by (metis surj_pair)
      note appended = append_journal_record_eq [OF j, unfolded same(2)]
      have same2: "undisturbed sv sv2"
        using same(1) appended views_cong [OF appended(2)] by (simp add: undisturbed_def)
      show thesis
      proof (cases rj)
        case (Inl e)
        have "length body \<le> 1000"
          using new_order.dec_iff new_order.enc_size enter(2) by (metis request_sizes(1))
        then have "\<not> journal_healthy sv1" using append_journal_record_healthy j Inl by blast
        moreover have "journal_healthy sv1 = journal_healthy sv" using eq by (intro journal_healthy_cong) simp_all
        ultimately show thesis using unfold_enter go j same2 appended(1,6) sent1(1) Inl admitted
          by (intro journal_failed [of e request]) auto
      next
        case (Inr u)
        obtain rp book t where p: "process_order_into (live_book sv ?y) (server_order request) trades = (rp, book, t)"
          by (metis prod_cases3)
        have confirmed: "confirms MT_OrderAccepted ?i socket sv sv'" if "r = Inr ()"
          using unfold_enter go j Inr p that appended sent1
          by (auto simp: Let_def split: sum.splits
              intro!: confirmsI [OF quiet_trans [OF quiet_trans [OF quiet_deliveries quiet_book_update] quiet_executions]])
        have "new_order_admitted sv socket header body request" using admitted go by blast
        then show thesis
          using unfold_enter go j Inr p same2 appended enter confirmed
          by (intro entered [of request rp book])
            (auto simp: undisturbed_def Let_def split: sum.splits)
      qed
    qed
  qed
qed
lemma owns_resting_order_eq:
  "owns_resting_order \<lparr>in_book = b, in_order_owners = w\<rparr> i socket client \<longleftrightarrow>
     w i = Some \<lparr>ow_socket = socket, ow_risk_client_id = client\<rparr> \<and> find_order b i \<noteq> None"
  by (auto simp: owns_resting_order_def split: option.split)

lemma find_instrument_some:
  assumes "find_instrument sv y = Some inst"
  shows "inst = \<lparr>in_book = live_book sv y, in_order_owners = owner_of sv y\<rparr>"
  using find_instrument_views [OF assms] by simp

definition cancel_admitted :: "ExchangeServer \<Rightarrow> int \<Rightarrow> MessageHeader \<Rightarrow> u8 list \<Rightarrow> CancelOrderRequest \<Rightarrow> bool" where
  "cancel_admitted sv socket header body request \<longleftrightarrow>
     unat (hdr_body_size header) = cancel_order_body_size \<and> decode_cancel_order body = Some request \<and>
     owner_of sv (symbol_to_string (cor_symbol request)) (cor_order_id request) =
       Some \<lparr>ow_socket = socket, ow_risk_client_id = risk_client_id_for_socket sv socket\<rparr> \<and>
     find_order (live_book sv (symbol_to_string (cor_symbol request))) (cor_order_id request) \<noteq> None"

definition replace_admitted :: "ExchangeServer \<Rightarrow> int \<Rightarrow> MessageHeader \<Rightarrow> u8 list \<Rightarrow> ReplaceOrderRequest \<Rightarrow> bool" where
  "replace_admitted sv socket header body request \<longleftrightarrow>
     unat (hdr_body_size header) = replace_order_body_size \<and> decode_replace_order body = Some request \<and>
     ror_new_quantity request \<le> maximum_quantity \<and>
     owner_of sv (symbol_to_string (ror_symbol request)) (ror_order_id request) =
       Some \<lparr>ow_socket = socket, ow_risk_client_id = risk_client_id_for_socket sv socket\<rparr> \<and>
     find_order (live_book sv (symbol_to_string (ror_symbol request))) (ror_order_id request) \<noteq> None \<and>
     accepted (check_replace (sv_risk_engine sv) (risk_client_id_for_socket sv socket)
       (symbol_to_string (ror_symbol request)) (ror_order_id request) (ror_new_price request)
       (ucast (ror_new_quantity request)))"

text \<open>The guard of the handlers in terms of the views.\<close>

lemma owned_instrument:
  "owner_of sv y i = Some owner \<and> find_order (live_book sv y) i \<noteq> None \<longleftrightarrow>
     (\<exists>inst. find_instrument sv y = Some inst \<and> in_order_owners inst i = Some owner \<and>
        find_order (in_book inst) i \<noteq> None)"
  by (auto simp: owner_of_def live_book_def split: option.split)

lemma owns_resting_order_views:
  "find_instrument sv y = Some inst \<Longrightarrow> owns_resting_order inst i socket client \<longleftrightarrow>
     owner_of sv y i = Some \<lparr>ow_socket = socket, ow_risk_client_id = client\<rparr> \<and>
     find_order (live_book sv y) i \<noteq> None"
  using find_instrument_some [of sv y inst] owns_resting_order_eq by metis

lemma handle_cancel_order_cases:
  assumes res: "handle_cancel_order socket header body sv = (r, sv')"
  obtains
    (rejected) "r = Inr ()" "undisturbed sv sv'" "sv_journal sv' = sv_journal sv" "rejects socket sv sv'"
      "\<forall>request. \<not> cancel_admitted sv socket header body request"
  | (journal_failed) e request where "r = Inl e" "undisturbed sv sv'"
      "journal_step header body (sv_journal sv) (Inl e) (sv_journal sv')" "\<not> journal_healthy sv"
      "cancel_admitted sv socket header body request" "sv_sent sv' = sv_sent sv"
  | (entered) request book res where
      "unat (hdr_body_size header) = cancel_order_body_size" "decode_cancel_order body = Some request"
      "owner_of sv (symbol_to_string (cor_symbol request)) (cor_order_id request) =
         Some \<lparr>ow_socket = socket, ow_risk_client_id = risk_client_id_for_socket sv socket\<rparr>"
      "find_order (live_book sv (symbol_to_string (cor_symbol request))) (cor_order_id request) \<noteq> None"
      "journal_step header body (sv_journal sv) (Inr ()) (sv_journal sv')"
      "engine_cancel_order (live_book sv (symbol_to_string (cor_symbol request))) (cor_order_id request) =
         (res, book)"
      "live_book sv' = (live_book sv)(symbol_to_string (cor_symbol request) := book)"
      "sv_running sv' = sv_running sv" "sv_client_risk_ids sv' = sv_client_risk_ids sv"
      "res = Inr True \<Longrightarrow>
         owner_of sv' = (owner_of sv)(symbol_to_string (cor_symbol request) :=
           (owner_of sv (symbol_to_string (cor_symbol request)))(cor_order_id request := None)) \<and>
         sv_risk_engine sv' = on_order_cancelled (risk_client_id_for_socket sv socket)
           (symbol_to_string (cor_symbol request)) (cor_order_id request) (sv_risk_engine sv) \<and>
         r = map_sum id (\<lambda>_. ()) (capture_book_snapshot (cor_symbol request) book) \<and>
         (r = Inr () \<longrightarrow> confirms MT_OrderCancelled (cor_order_id request) socket sv sv')"
      "res \<noteq> Inr True \<Longrightarrow> owner_of sv' = owner_of sv \<and> sv_risk_engine sv' = sv_risk_engine sv \<and>
         r = map_sum id (\<lambda>_. ()) res"
proof -
  have absent: "owner_of sv y i = None" if "find_instrument sv y = None" for y i
    using that by (simp add: owner_of_def)
  consider (early) "r = Inr ()" "undisturbed sv sv'" "sv_journal sv' = sv_journal sv" "rejects socket sv sv'"
      "\<forall>request. \<not> cancel_admitted sv socket header body request"
    | (enter) request inst where "unat (hdr_body_size header) = cancel_order_body_size"
      "decode_cancel_order body = Some request"
      "find_instrument sv (symbol_to_string (cor_symbol request)) = Some inst"
      "owns_resting_order inst (cor_order_id request) socket (risk_client_id_for_socket sv socket)"
      "cancel_resting_order socket header body request inst sv = (r, sv')"
    using res
    by (fastforce simp: handle_cancel_order_def undisturbed_def rejectsI cancel_admitted_def absent
        owns_resting_order_views split: if_splits option.splits)
  then show thesis
  proof cases
    case early
    then show thesis using rejected by blast
  next
    case (enter request inst)
    let ?y = "symbol_to_string (cor_symbol request)" and ?i = "cor_order_id request"
    note inst = find_instrument_some [OF enter(3)]
    note owned = enter(4) [unfolded inst owns_resting_order_eq]
    obtain rj sv1 where j: "append_journal_record header body sv = (rj, sv1)" by (metis surj_pair)
    note appended = append_journal_record_eq [OF j]
    have same: "undisturbed sv sv1"
      using appended views_cong [OF appended(2)] by (simp add: undisturbed_def)
    note run = enter(5) [unfolded cancel_resting_order_def Let_def j prod.case inst InstrumentState.select_convs]
    show thesis
    proof (cases rj)
      case (Inl e)
      have "length body \<le> 1000"
        using cancel_order.dec_iff cancel_order.enc_size enter(2) by (metis request_sizes(2))
      then show thesis
        using run same appended(1,6) append_journal_record_healthy j Inl enter(1,2) owned
        by (intro journal_failed [of e request]) (auto simp: cancel_admitted_def)
    next
      case (Inr u)
      obtain rc book where c: "engine_cancel_order (live_book sv ?y) ?i = (rc, book)" by (metis surj_pair)
      have confirmed: "confirms MT_OrderCancelled ?i socket sv sv'" if "r = Inr ()" "rc = Inr True"
        using run Inr c that appended
        by (auto split: sum.splits intro!: confirmsI [OF quiet_trans [OF quiet_book_update quiet_level3(3)]])
      show thesis
        using run Inr c same appended enter owned confirmed
        by (intro entered [of request rc book]) (auto simp: undisturbed_def split: sum.splits if_splits)
    qed
  qed
qed

lemma handle_replace_order_cases:
  assumes res: "handle_replace_order hash_order socket header body trades sv = (r, trades', sv')"
  obtains
    (rejected) "r = Inr ()" "undisturbed sv sv'" "sv_journal sv' = sv_journal sv"
      "trades' = trades \<or> trades' = tb_clear trades" "rejects socket sv sv'"
      "\<forall>request. \<not> replace_admitted sv socket header body request"
  | (journal_failed) e request where "r = Inl e" "undisturbed sv sv'" "trades' = trades"
      "journal_step header body (sv_journal sv) (Inl e) (sv_journal sv')" "\<not> journal_healthy sv"
      "replace_admitted sv socket header body request"
  | (entered) request existing book res where
      "unat (hdr_body_size header) = replace_order_body_size" "decode_replace_order body = Some request"
      "ror_new_quantity request \<le> maximum_quantity"
      "owner_of sv (symbol_to_string (ror_symbol request)) (ror_order_id request) =
         Some \<lparr>ow_socket = socket, ow_risk_client_id = risk_client_id_for_socket sv socket\<rparr>"
      "find_order (live_book sv (symbol_to_string (ror_symbol request))) (ror_order_id request) = Some existing"
      "accepted (check_replace (sv_risk_engine sv) (risk_client_id_for_socket sv socket)
         (symbol_to_string (ror_symbol request)) (ror_order_id request) (ror_new_price request)
         (ucast (ror_new_quantity request)))"
      "journal_step header body (sv_journal sv) (Inr ()) (sv_journal sv')"
      "replace_order_into (live_book sv (symbol_to_string (ror_symbol request))) (ror_order_id request)
         (ror_new_price request) (ucast (ror_new_quantity request)) (ror_timestamp request) trades =
         (res, book, trades')"
      "live_book sv' = (live_book sv)(symbol_to_string (ror_symbol request) := book)"
      "sv_running sv' = sv_running sv" "sv_client_risk_ids sv' = sv_client_risk_ids sv"
      "res = Inr True \<Longrightarrow>
         (let settlement = settle_fills hash_order (ror_symbol request) (ror_order_id request) socket
                (risk_client_id_for_socket sv socket) (tb_to_vector trades')
                \<lparr>in_book = book, in_order_owners = owner_of sv (symbol_to_string (ror_symbol request))\<rparr>
                (on_order_cancelled (risk_client_id_for_socket sv socket)
                  (symbol_to_string (ror_symbol request)) (ror_order_id request) (sv_risk_engine sv));
              owners = in_order_owners (st_instrument settlement)
          in owner_of sv' = (owner_of sv)(symbol_to_string (ror_symbol request) :=
                (if find_order book (ror_order_id request) = None
                 then owners(ror_order_id request := None) else owners)) \<and>
             sv_risk_engine sv' = st_risk_engine settlement) \<and>
          r = map_sum id (\<lambda>_. ()) (capture_book_snapshot (ror_symbol request) book) \<and>
          (r = Inr () \<longrightarrow> confirms MT_OrderReplaced (ror_order_id request) socket sv sv')"
      "res \<noteq> Inr True \<Longrightarrow> owner_of sv' = owner_of sv \<and> r = map_sum id (\<lambda>_. ()) res"
proof -
  have absent: "owner_of sv y i = None" if "find_instrument sv y = None" for y i
    using that by (simp add: owner_of_def)
  have found: "live_book sv y = in_book inst" if "find_instrument sv y = Some inst" for y inst
    using that by (simp add: live_book_def)
  consider (early) "r = Inr ()" "undisturbed sv sv'" "sv_journal sv' = sv_journal sv" "trades' = trades"
      "rejects socket sv sv'" "\<forall>request. \<not> replace_admitted sv socket header body request"
    | (enter) request inst existing where "unat (hdr_body_size header) = replace_order_body_size"
      "decode_replace_order body = Some request" "ror_new_quantity request \<le> maximum_quantity"
      "find_instrument sv (symbol_to_string (ror_symbol request)) = Some inst"
      "find_order (in_book inst) (ror_order_id request) = Some existing"
      "owns_resting_order inst (ror_order_id request) socket (risk_client_id_for_socket sv socket)"
      "replace_resting_order hash_order socket header body request inst existing trades sv = (r, trades', sv')"
    using res
    by (fastforce simp: handle_replace_order_def undisturbed_def not_less [symmetric] rejectsI replace_admitted_def
        absent found owns_resting_order_views split: if_splits option.splits)
  then show thesis
  proof cases
    case early
    then show thesis using rejected by blast
  next
    case (enter request inst existing)
    let ?y = "symbol_to_string (ror_symbol request)" and ?i = "ror_order_id request"
    note inst = find_instrument_some [OF enter(4)]
    note owned = enter(6) [unfolded inst owns_resting_order_eq]
      and existing = enter(5) [unfolded inst InstrumentState.select_convs]
    define risk_ok where "risk_ok = accepted (check_replace (sv_risk_engine sv)
      (risk_client_id_for_socket sv socket) ?y ?i (ror_new_price request) (ucast (ror_new_quantity request)))"
    obtain rj sv1 where j: "append_journal_record header body sv = (rj, sv1)" by (metis surj_pair)
    note appended = append_journal_record_eq [OF j]
    have same: "undisturbed sv sv1"
      using appended views_cong [OF appended(2)] by (simp add: undisturbed_def)
    note run = enter(7) [unfolded replace_resting_order_def Let_def risk_ok_def [symmetric] j prod.case inst
        InstrumentState.select_convs]
    consider (risky) "\<not> risk_ok" | (failed) e where "risk_ok" "rj = Inl e" | (go) u where "risk_ok" "rj = Inr u"
      by (cases rj) auto
    then show thesis
    proof cases
      case risky
      have "\<forall>q. \<not> replace_admitted sv socket header body q"
        using risky enter(2) by (auto simp: replace_admitted_def risk_ok_def)
      then show thesis using run risky by (intro rejected) (auto simp: undisturbed_def rejectsI)
    next
      case (failed e)
      have "length body \<le> 1000"
        using replace_order.dec_iff replace_order.enc_size enter(2) by (metis request_sizes(3))
      moreover have "replace_admitted sv socket header body request"
        using failed enter(1,2,3) owned by (simp add: replace_admitted_def risk_ok_def)
      ultimately show thesis
        using failed run same appended(1) append_journal_record_healthy j by (intro journal_failed [of e request]) auto
    next
      case (go u)
      obtain rp book t where p: "replace_order_into (live_book sv ?y) ?i (ror_new_price request)
          (ucast (ror_new_quantity request)) (ror_timestamp request) trades = (rp, book, t)"
        by (metis prod_cases3)
      have risk1: "sv_risk_engine sv1 = sv_risk_engine sv" using appended by simp
      have confirmed: "confirms MT_OrderReplaced ?i socket sv sv'" if "r = Inr ()" "rp = Inr True"
        using run go p that appended
        by (auto simp: Let_def split: sum.splits intro!: confirmsI [OF quiet_trans [OF quiet_trans [OF quiet_trans
              [OF quiet_deliveries quiet_book_update] quiet_level3(3)] quiet_executions]])
      show thesis
        using run go p same appended enter owned existing risk_ok_def confirmed
        by (intro entered [of request existing rp book])
          (auto simp: undisturbed_def Let_def risk1 split: sum.splits if_splits)
    qed
  qed
qed


end
