(* ===== verification/Book_Lookup.thy ===== *)
theory Book_Lookup
  imports Engine_Properties Buffer_Independence
begin

text \<open>
  The book as a map from order ids to resting orders, which is how the server and the risk engine
  see it: what order entry, cancellation and replacement do to \<open>find_order\<close>.
\<close>

definition lookup :: "Order list \<Rightarrow> OrderId \<Rightarrow> Order option" where
  "lookup q = map_of (map (\<lambda>x. (ord_id x, x)) q)"

lemma lookup_simps [simp]:
  "lookup [] i = None" "lookup (x # q) i = (if ord_id x = i then Some x else lookup q i)"
  by (auto simp: lookup_def)

lemma lookup_append: "lookup (p @ q) i = (case lookup p i of None \<Rightarrow> lookup q i | Some x \<Rightarrow> Some x)"
  by (induction p) auto

lemma lookup_iff: "distinct (map ord_id q) \<Longrightarrow> lookup q i = Some x \<longleftrightarrow> ord_id x = i \<and> x \<in> set q"
  by (induction q) (auto simp: image_iff)

lemma lookup_None: "lookup q i = None \<longleftrightarrow> i \<notin> ord_id ` set q"
  by (induction q) auto

lemma lookup_SomeD: "lookup q i = Some x \<Longrightarrow> x \<in> set q \<and> ord_id x = i"
  by (induction q) (auto split: if_splits)

lemma find_order_lookup:
  assumes "book_wf b"
  shows "find_order b i = lookup (resting s b @ resting (opposite s) b) i"
proof -
  have "find_order b i = Some x \<longleftrightarrow> lookup (resting s b @ resting (opposite s) b) i = Some x" for x
    using find_order_iff [OF assms, of i x] lookup_iff [OF resting_distinct [OF assms, of s], of i x]
    by (cases s) auto
  then show ?thesis by (metis option.exhaust)
qed

lemma lookup_queue_insert:
  "ord_id x \<notin> ord_id ` set q \<Longrightarrow> lookup (queue_insert s x q) i = (if i = ord_id x then Some x else lookup q i)"
proof -
  assume new: "ord_id x \<notin> ord_id ` set q"
  let ?P = "\<lambda>y. \<not> side_lt s (ord_price x) (ord_price y)"
  have "lookup q i = (case lookup (takeWhile ?P q) i of None \<Rightarrow> lookup (dropWhile ?P q) i | Some y \<Rightarrow> Some y)"
    by (simp add: lookup_append [symmetric])
  moreover have "lookup (takeWhile ?P q) (ord_id x) = None"
    using new by (auto simp: lookup_None dest: set_takeWhileD)
  ultimately show ?thesis
    by (auto simp: queue_insert_def lookup_append split: option.split)
qed

lemma lookup_queue_remove: "lookup (queue_remove i q) j = (if j = i then None else lookup q j)"
  by (induction q) (auto simp: queue_remove_def)

section \<open>Fills\<close>

definition fill_at :: "(Order \<times> Quantity) list \<Rightarrow> OrderId \<Rightarrow> (Order \<times> Quantity) option" where
  "fill_at fills = map_of (map (\<lambda>f. (ord_id (fst f), f)) fills)"

definition after_fill :: "Order \<times> Quantity \<Rightarrow> Order option" where
  "after_fill f = (if snd f = ord_remaining (fst f) then None
     else Some ((fst f)\<lparr>ord_remaining := ord_remaining (fst f) - snd f\<rparr>))"

lemma fill_at_simps [simp]:
  "fill_at [] i = None" "fill_at (f # fs) i = (if ord_id (fst f) = i then Some f else fill_at fs i)"
  by (auto simp: fill_at_def)

lemma fill_at_SomeD: "fill_at fills i = Some f \<Longrightarrow> f \<in> set fills \<and> ord_id (fst f) = i"
  by (induction fills) (auto split: if_splits)

lemma fill_at_None: "fill_at fills i = None \<longleftrightarrow> i \<notin> (\<lambda>f. ord_id (fst f)) ` set fills"
  by (induction fills) auto

lemma sweep_lookup:
  assumes "queue_sweep inc q = (fills, r, q')" "distinct (map ord_id q)"
  shows "lookup q' i = (case fill_at fills i of None \<Rightarrow> lookup q i | Some f \<Rightarrow> after_fill f)"
  using assms
proof (induction inc q arbitrary: fills rule: queue_sweep.induct)
  case (2 inc x q)
  consider "ord_remaining inc = 0 \<or> \<not> acceptable inc (ord_price x)"
    | "ord_remaining inc \<noteq> 0" "acceptable inc (ord_price x)" "ord_remaining inc < ord_remaining x"
    | "ord_remaining inc \<noteq> 0" "acceptable inc (ord_price x)" "\<not> ord_remaining inc < ord_remaining x"
    by blast
  then show ?case
  proof cases
    case 3
    then obtain fs where fs: "queue_sweep (inc\<lparr>ord_remaining := ord_remaining inc - ord_remaining x\<rparr>) q = (fs, r, q')"
      "fills = (x, ord_remaining x) # fs"
      using "2.prems"(1) by (auto split: prod.splits)
    have new: "lookup q' (ord_id x) = None" using "2.prems"(2) sweep_ids [OF fs(1)] by (auto simp: lookup_None)
    have IH: "lookup q' i = (case fill_at fs i of None \<Rightarrow> lookup q i | Some f \<Rightarrow> after_fill f)"
      using "2.IH" 3 fs(1) "2.prems"(2) by auto
    show ?thesis
      using new IH fs(2) by (cases "i = ord_id x") (auto simp: after_fill_def split: option.splits)
  qed (use "2.prems" in \<open>auto simp: after_fill_def\<close>)
qed simp

lemma sweep_fill_bounds:
  assumes "queue_sweep inc q = (fills, r, q')" "f \<in> set fills"
  shows "fst f \<in> set q" "snd f \<le> ord_remaining (fst f)"
proof -
  have "fst f \<in> set q \<and> snd f \<le> ord_remaining (fst f)"
    using assms
  proof (induction inc q arbitrary: fills rule: queue_sweep.induct)
    case (2 inc x q)
    then show ?case by (auto split: if_splits prod.splits)
  qed simp
  then show "fst f \<in> set q" "snd f \<le> ord_remaining (fst f)" by auto
qed

text \<open>
  The result of entering an order with a fresh id: it does not throw, its fills are of distinct
  resting orders of the other side, and these are the only orders of the book that change.
\<close>

definition filled_book :: "OrderBook \<Rightarrow> Order \<Rightarrow> (Order \<times> Quantity) list \<Rightarrow> OrderBook \<Rightarrow> bool" where
  "filled_book b inc fills b' \<longleftrightarrow>
     distinct (map (\<lambda>f. ord_id (fst f)) fills) \<and>
     (\<forall>f\<in>set fills. find_order b (ord_id (fst f)) = Some (fst f) \<and> ord_id (fst f) \<noteq> ord_id inc \<and>
        snd f \<noteq> 0 \<and> snd f \<le> ord_remaining (fst f)) \<and>
     (\<forall>i. i \<noteq> ord_id inc \<longrightarrow>
        find_order b' i = (case fill_at fills i of None \<Rightarrow> find_order b i | Some f \<Rightarrow> after_fill f)) \<and>
     (\<forall>x. find_order b' (ord_id inc) = Some x \<longrightarrow> ord_id x = ord_id inc)"

lemma resting_positive:
  assumes "book_wf b" "x \<in> set (resting s b)"
  shows "ord_remaining x \<noteq> 0"
  using assms by (auto simp: resting_def dest: ladder_order_wf [OF book_wf_ladder])

lemma sweep_filled_book:
  fixes s b b'
  defines "own_queue \<equiv> resting s b" and "opp_queue \<equiv> resting (opposite s) b"
  assumes wf: "book_wf b" "book_wf b'" and fresh: "find_order b (ord_id inc) = None"
    and sweep: "queue_sweep inc opp_queue = (fills, n, q')"
    and after: "resting (opposite s) b' = q'"
      "resting s b' = (if n \<noteq> 0 \<and> may_rest inc then queue_insert s (inc\<lparr>ord_remaining := n\<rparr>) own_queue else own_queue)"
  shows "filled_book b inc fills b'"
proof -
  have ids: "ord_id inc \<notin> ord_id ` set own_queue" "ord_id inc \<notin> ord_id ` set opp_queue"
    using fresh by (auto simp: find_order_lookup [OF wf(1), of _ s] lookup_None own_queue_def opp_queue_def)
  have dist: "distinct (map ord_id opp_queue)" "ord_id ` set own_queue \<inter> ord_id ` set opp_queue = {}"
    using resting_distinct [OF wf(1), of s] by (auto simp: own_queue_def opp_queue_def)
  have "map (\<lambda>f. ord_id (fst f)) fills = take (length fills) (map ord_id opp_queue)"
    using arg_cong [OF sweep_fills_from_front [OF sweep], of "map ord_id"] by (simp add: take_map comp_def)
  then have distinct: "distinct (map (\<lambda>f. ord_id (fst f)) fills)" using dist(1) by simp
  have fill: "find_order b (ord_id (fst f)) = Some (fst f) \<and> ord_id (fst f) \<noteq> ord_id inc \<and>
      snd f \<noteq> 0 \<and> snd f \<le> ord_remaining (fst f)" if "f \<in> set fills" for f
  proof -
    have "fst f \<in> set opp_queue" using sweep_fill_bounds(1) [OF sweep that] .
    moreover have "ord_id (fst f) \<noteq> ord_id inc" using calculation ids(2) by (metis imageI)
    moreover have "\<forall>x\<in>set opp_queue. ord_remaining x \<noteq> 0"
      using resting_positive [OF wf(1)] unfolding opp_queue_def by blast
    ultimately show ?thesis
      using find_order_resting [OF wf(1), of "fst f"] sweep_fill_bounds(2) [OF sweep that] sweep_positive [OF sweep _ that]
      unfolding opp_queue_def by blast
  qed
  have find': "find_order b' i = lookup (resting s b' @ q') i" for i
    using find_order_lookup [OF wf(2), of i s] after(1) by simp
  have find: "find_order b i = lookup (own_queue @ opp_queue) i" for i
    using find_order_lookup [OF wf(1), of i s] by (simp add: own_queue_def opp_queue_def)
  have others: "find_order b' i = (case fill_at fills i of None \<Rightarrow> find_order b i | Some f \<Rightarrow> after_fill f)"
    if i: "i \<noteq> ord_id inc" for i
  proof -
    have own': "lookup (resting s b') i = lookup own_queue i"
      using after(2) i ids(1) by (simp add: lookup_queue_insert)
    have "fill_at fills i = None" if "lookup own_queue i = Some x" for x
      using that dist(2) sweep_fill_bounds(1) [OF sweep] by (fastforce simp: fill_at_None dest: lookup_SomeD)
    then show ?thesis
      using find' [of i] own' sweep_lookup [OF sweep dist(1), of i]
      by (cases "lookup own_queue i"; cases "fill_at fills i") (simp_all add: lookup_append find)
  qed
  have "ord_id x = ord_id inc" if "find_order b' (ord_id inc) = Some x" for x
    using that find_order_iff [OF wf(2)] by blast
  then show ?thesis
    unfolding filled_book_def using distinct fill others by (intro conjI; blast)
qed

lemma process_order_into_fills:
  assumes wf: "book_wf b" and t: "tb_wf t" and q: "ord_remaining inc \<noteq> 0"
    and fresh: "find_order b (ord_id inc) = None"
  shows "\<exists>fills b' t'. process_order_into b inc t = (Inr (), b', t') \<and> tb_wf t' \<and> book_wf b' \<and>
    tb_to_vector t' = map (fill_trade inc) fills \<and> filled_book b inc fills b'"
proof (cases "ord_tif inc = FillOrKill \<and> executable_quantity b inc < ucast (ord_remaining inc)")
  case True
  then have "process_order_into b inc t = (Inr (), b, tb_clear t)"
    using process_order_into_kills q by blast
  moreover have "filled_book b inc [] b" using fresh by (simp add: filled_book_def)
  ultimately show ?thesis
    using wf t by (intro exI [of _ "[]"]) (simp add: buf.inv_clear buf.contents_clear)
next
  case False
  let ?s = "ord_side inc"
  let ?own = "resting ?s b" and ?opp = "resting (opposite ?s) b"
  obtain fills n q' where sweep: "queue_sweep inc ?opp = (fills, n, q')" by (metis prod_cases3)
  have ids: "ord_id inc \<notin> ord_id ` set ?own" "ord_id inc \<notin> ord_id ` set ?opp"
    using fresh by (auto simp: find_order_lookup [OF wf, of _ ?s] lookup_None)
  have q': "ord_id inc \<notin> ord_id ` set q'" using ids sweep_ids [OF sweep] by blast
  obtain b' t' where run: "process_order_into b inc t = (Inr (), b', t')" "book_wf b'" "tb_wf t'"
    "tb_to_vector t' = map (fill_trade inc) fills" "resting (opposite ?s) b' = q'"
    "resting ?s b' = (if n \<noteq> 0 \<and> may_rest inc then queue_insert ?s (inc\<lparr>ord_remaining := n\<rparr>) ?own else ?own)"
    using process_order_into_runs [OF wf t q False refl sweep] ids q' by (auto split: if_splits)
  have "filled_book b inc fills b'"
    using sweep_filled_book [OF wf run(2) fresh sweep run(5,6)] .
  then show ?thesis using run by blast
qed
section \<open>Removal and replacement\<close>

lemma find_order_removed:
  assumes "book_wf b" "book_wf b'" "\<And>s. resting s b' = queue_remove i (resting s b)"
  shows "find_order b' = (find_order b)(i := None)"
proof
  fix j
  show "find_order b' j = ((find_order b)(i := None)) j"
    using find_order_lookup [OF assms(2), of j Buy] find_order_lookup [OF assms(1), of j Buy] assms(3)
    by (simp add: lookup_append lookup_queue_remove split: option.split)
qed

lemma extract_order_lookup:
  assumes wf: "book_wf b" and found: "find_order b i = Some x" and res: "extract_order i b = (r, b')"
  shows "(r = Inl (Logic_Error ''Price level quantity is inconsistent'') \<and> b' = b \<and> \<not> book_exact b) \<or>
    (r = Inr (Some x) \<and> book_wf b' \<and> find_order b' = (find_order b)(i := None))"
  using wf res
proof (cases rule: extract_order_cases)
  case absent
  then show ?thesis using found find_order_None_iff [OF wf, of i] by simp
next
  case (removed y s)
  then have "y = x" using found find_order_resting [OF wf removed(2)] by simp
  moreover have "find_order b' = (find_order b)(i := None)"
    by (rule find_order_removed [OF wf removed(4)])
      (rule queue_remove_both_sides [OF wf removed(2,3,5,6)])
  ultimately show ?thesis using removed by simp
next
  case (inconsistent y s)
  then show ?thesis using exact_level_sum [OF wf _ inconsistent(3)] by (auto simp: not_le [symmetric])
qed

lemma engine_cancel_lookup:
  assumes "book_wf b" "find_order b i = Some x" "engine_cancel_order b i = (r, b')"
  shows "(r = Inl (Logic_Error ''Price level quantity is inconsistent'') \<and> b' = b \<and> \<not> book_exact b) \<or>
    (r = Inr True \<and> book_wf b' \<and> find_order b' = (find_order b)(i := None))"
proof -
  obtain e b1 where ext: "extract_order i b = (e, b1)" by (metis surj_pair)
  show ?thesis
    using extract_order_lookup [OF assms(1,2) ext] ext assms(3)
    by (auto simp: engine_cancel_order_def book_cancel_order_def)
qed

definition replacement_of :: "Order \<Rightarrow> Price \<Rightarrow> Quantity \<Rightarrow> Timestamp \<Rightarrow> Order" where
  "replacement_of x p q time = x\<lparr>ord_price := p, ord_initial := q, ord_remaining := q, ord_timestamp := time\<rparr>"

lemma replacement_of_simps [simp]:
  "ord_id (replacement_of x p q time) = ord_id x" "ord_side (replacement_of x p q time) = ord_side x"
  "ord_remaining (replacement_of x p q time) = q"
  by (simp_all add: replacement_of_def)

lemma replace_order_into_fills:
  assumes wf: "book_wf b" and t: "tb_wf t" and q: "q \<noteq> 0" and found: "find_order b i = Some x"
    and res: "replace_order_into b i p q time t = (r, b', t')"
  shows "(r = Inl (Logic_Error ''Price level quantity is inconsistent'') \<and> b' = b \<and> tb_wf t' \<and> \<not> book_exact b) \<or>
    (r = Inr True \<and> tb_wf t' \<and> book_wf b' \<and>
      (\<exists>fills b1. find_order b1 = (find_order b)(i := None) \<and>
        tb_to_vector t' = map (fill_trade (replacement_of x p q time)) fills \<and>
        filled_book b1 (replacement_of x p q time) fills b'))"
proof -
  obtain e b1 where ext: "extract_order i b = (e, b1)" by (metis surj_pair)
  have t1: "tb_wf (tb_clear t)" using t by (rule buf.inv_clear)
  have id: "ord_id x = i" using found find_order_iff [OF wf] by blast
  from extract_order_lookup [OF wf found ext] show ?thesis
  proof (elim disjE conjE)
    assume "e = Inl (Logic_Error ''Price level quantity is inconsistent'')" "b1 = b" "\<not> book_exact b"
    then show ?thesis using res ext q t1 by (auto simp: replace_order_into_def Let_def)
  next
    assume e: "e = Inr (Some x)" and wf1: "book_wf b1" and find1: "find_order b1 = (find_order b)(i := None)"
    have "find_order b1 (ord_id (replacement_of x p q time)) = None" using find1 id by simp
    from process_order_into_fills [OF wf1 t1 _ this] obtain fills b2 t2 where
      "process_order_into b1 (replacement_of x p q time) (tb_clear t) = (Inr (), b2, t2)"
      "tb_wf t2" "book_wf b2" "tb_to_vector t2 = map (fill_trade (replacement_of x p q time)) fills"
      "filled_book b1 (replacement_of x p q time) fills b2"
      using q by auto
    then show ?thesis
      using res ext e q find1 by (auto simp: replace_order_into_def Let_def replacement_of_def)
  qed
qed

section \<open>Trade buffers\<close>

lemma replace_order_into_replace_order:
  assumes "tb_wf t" "replace_order_into b i p q time t = (r, b', t')"
  shows "snd (replace_order b i p q time) = b'" "tb_wf t'"
proof -
  have clear: "tb_wf (tb_clear t)" "tb_wf (tb_clear default_trade_buffer)"
    using assms(1) by (auto intro: buf.inv_clear)
  have "snd (replace_order b i p q time) = b' \<and> tb_wf t'"
  proof (cases "q = 0")
    case True
    then show ?thesis using assms by (auto simp: replace_order_def replace_order_into_def)
  next
    case False
    obtain e b1 where ext: "extract_order i b = (e, b1)" by (metis surj_pair)
    show ?thesis
    proof (cases "\<exists>x. e = Inr (Some x)")
      case True
      then obtain x where x: "e = Inr (Some x)" by blast
      let ?x = "x\<lparr>ord_price := p, ord_initial := q, ord_remaining := q, ord_timestamp := time\<rparr>"
      obtain r0 b0 u1 u2 where "process_order_into b1 ?x (tb_clear t) = (r0, b0, u1)"
        "process_order_into b1 ?x (tb_clear default_trade_buffer) = (r0, b0, u2)" "same_trades u1 u2"
        using process_order_into_same [OF clear, of ?x b1] False by auto
      then show ?thesis
        using assms(2) False ext x
        by (auto simp: replace_order_def replace_order_into_def Let_def same_trades_def split: sum.splits)
    next
      case False
      then show ?thesis
        using assms(2) \<open>q \<noteq> 0\<close> ext clear
        by (auto simp: replace_order_def replace_order_into_def Let_def split: sum.splits option.splits)
    qed
  qed
  then show "snd (replace_order b i p q time) = b'" "tb_wf t'" by auto
qed


end
