(* ===== verification/Server_Ledger.thy ===== *)
theory Server_Ledger
  imports Server_Invariants Book_Lookup Risk_Properties
begin

text \<open>
  The ledger of the risk engine against the books of the server: the working orders the risk
  engine holds are exactly the resting orders that have an owner with a risk session. The abstraction is \<open>mirror\<close>,
  and reporting the trades of an order, removing the owners of filled orders and recording the
  remainder commute with it.
\<close>

definition working_of :: "Order \<Rightarrow> WorkingOrder" where
  "working_of x = \<lparr>wo_side = ord_side x, wo_price = ord_price x, wo_remaining_quantity = ord_remaining x\<rparr>"

definition mirror ::
    "(OrderId \<rightharpoonup> OrderOwner) \<Rightarrow> (OrderId \<rightharpoonup> Order) \<Rightarrow> RiskClientId \<Rightarrow> OrderId \<Rightarrow> WorkingOrder option" where
  "mirror owners orders c i =
     (case owners i of
        None \<Rightarrow> None
      | Some owner \<Rightarrow>
          if ow_risk_client_id owner = c \<and> c \<noteq> invalid_risk_client_id
          then map_option working_of (orders i) else None)"

abbreviation working_key :: "RiskClientId \<Rightarrow> string \<Rightarrow> OrderId \<Rightarrow> WorkingOrderKey" where
  "working_key c y i \<equiv> \<lparr>wk_client_id = c, wk_symbol = y, wk_order_id = i\<rparr>"

definition mirrors :: "RiskEngine \<Rightarrow> string \<Rightarrow> (OrderId \<rightharpoonup> OrderOwner) \<Rightarrow> (OrderId \<rightharpoonup> Order) \<Rightarrow> bool" where
  "mirrors re y owners orders \<longleftrightarrow>
     (\<forall>c i. re_working_orders re (working_key c y i) = mirror owners orders c i)"

lemma mirrorsD: "mirrors re y owners orders \<Longrightarrow> re_working_orders re (working_key c y i) = mirror owners orders c i"
  by (simp add: mirrors_def)

text \<open>An update of the risk engine that touches only one symbol.\<close>

definition only_symbol :: "string \<Rightarrow> RiskEngine \<Rightarrow> RiskEngine \<Rightarrow> bool" where
  "only_symbol y re re' \<longleftrightarrow>
     (\<forall>k. wk_symbol k \<noteq> y \<longrightarrow> re_working_orders re' k = re_working_orders re k)"

lemma only_symbol_trans: "only_symbol y a b \<Longrightarrow> only_symbol y b c \<Longrightarrow> only_symbol y a c"
  by (simp add: only_symbol_def)

lemma only_symbol_updates:
  "only_symbol y re (on_order_resting c y i s p q re)" "only_symbol y re (on_order_cancelled c y i re)"
  "only_symbol y re (on_trade_side s y c i q re)"
  by (auto simp: only_symbol_def risk_simps Let_def on_order_cancelled_def split: option.split)

lemma only_symbol_trade: "only_symbol y re (on_trade y b c i j q re)"
  unfolding on_trade_def Let_def
  by (auto simp: only_symbol_def intro: only_symbol_trans [OF only_symbol_updates(3) only_symbol_updates(3),
      unfolded only_symbol_def, rule_format])

lemma mirrors_other: "mirrors re z owners orders \<Longrightarrow> only_symbol y re re' \<Longrightarrow> z \<noteq> y \<Longrightarrow> mirrors re' z owners orders"
  by (simp add: mirrors_def only_symbol_def)

section \<open>One trade\<close>

text \<open>
  During the reports the incoming order has no working order, since it does not rest.
\<close>

lemma trade_side_incoming:
  assumes "re_working_orders re (working_key c y i) = None"
  shows "re_working_orders (on_trade_side s y c i q re) = re_working_orders re"
  using assms by (simp add: risk_simps Let_def)

lemma trade_side_resting:
  assumes m: "mirrors re y owners orders" and x: "orders (ord_id x) = Some x"
    and n: "n \<noteq> 0" "n \<le> ord_remaining x"
    and c: "c = ow_risk_client_id (case owners (ord_id x) of None \<Rightarrow> no_owner | Some w \<Rightarrow> w)"
  shows "mirrors (on_trade_side s y c (ord_id x) n re) y owners (orders(ord_id x := after_fill (x, n)))"
proof (cases "owners (ord_id x)")
  case None
  then show ?thesis using m c
    by (auto simp: mirrors_def mirror_def no_owner_def risk_simps invalid_risk_client_id_def split: option.split)
next
  case (Some w)
  have W: "re_working_orders re (working_key c' y i) = mirror owners orders c' i" for c' i
    using m by (rule mirrorsD)
  have eq: "ord_remaining x \<le> n \<longleftrightarrow> n = ord_remaining x" using n(2) by auto
  show ?thesis
    using Some c x n unfolding mirrors_def
    by (auto simp: risk_simps Let_def W mirror_def after_fill_def working_of_def eq invalid_risk_client_id_def
        split: option.split)
qed

lemma trade_fill:
  assumes m: "mirrors re y owners orders" and fresh: "orders (ord_id inc) = None"
    and x: "orders (ord_id x) = Some x" "ord_id x \<noteq> ord_id inc"
    and n: "n \<noteq> 0" "n \<le> ord_remaining x"
    and c: "c = ow_risk_client_id (case owners (ord_id x) of None \<Rightarrow> no_owner | Some w \<Rightarrow> w)"
  shows "mirrors (on_trade y (if ord_side inc = Buy then c0 else c) (if ord_side inc = Buy then c else c0)
      (tr_buy_order_id (fill_trade inc (x, n))) (tr_sell_order_id (fill_trade inc (x, n))) n re)
    y owners (orders(ord_id x := after_fill (x, n)))"
proof -
  have same: "mirrors (on_trade_side s y c0 (ord_id inc) n re') y owners orders'"
    if m': "mirrors re' y owners orders'" and o: "orders' (ord_id inc) = None" for re' orders' s
  proof -
    have "re_working_orders re' (working_key c0 y (ord_id inc)) = None"
      using mirrorsD [OF m'] o by (simp add: mirror_def split: option.split)
    then show ?thesis using m' trade_side_incoming by (simp add: mirrors_def)
  qed
  have step: "mirrors (on_trade_side s y c (ord_id x) n re') y owners (orders(ord_id x := after_fill (x, n)))"
    if "mirrors re' y owners orders" for s re'
    using that x(1) n c by (rule trade_side_resting)
  show ?thesis
    using n(1) same [OF step [OF m]] step [OF same [OF m fresh]] fresh x(2) by (simp add: on_trade_def fill_trade_def Let_def)
qed

section \<open>All trades of an order\<close>

definition report_risk ::
    "InstrumentState \<Rightarrow> string \<Rightarrow> OrderId \<Rightarrow> int \<Rightarrow> RiskClientId \<Rightarrow> Trade list \<Rightarrow> RiskEngine \<Rightarrow> RiskEngine" where
  "report_risk instrument y incoming_id socket client trades re =
     fold (\<lambda>t re. on_trade y
         (ow_risk_client_id (find_order_owner instrument (tr_buy_order_id t) incoming_id socket client))
         (ow_risk_client_id (find_order_owner instrument (tr_sell_order_id t) incoming_id socket client))
         (tr_buy_order_id t) (tr_sell_order_id t) (tr_quantity t) re) trades re"

lemma report_fills_risk:
  "fr_risk_engine (report_fills instrument wire i socket client trades re) =
     report_risk instrument (symbol_to_string wire) i socket client trades re"
proof -
  have "fr_risk_engine (fold (report_trade instrument wire i socket client) trades report) =
      report_risk instrument (symbol_to_string wire) i socket client trades (fr_risk_engine report)" for report
    by (induction trades arbitrary: report) (simp_all add: report_risk_def report_trade_def Let_def)
  then show ?thesis by (simp add: report_fills_def)
qed

definition filled_orders ::
    "(OrderId \<rightharpoonup> Order) \<Rightarrow> (Order \<times> Quantity) list \<Rightarrow> (OrderId \<rightharpoonup> Order)" where
  "filled_orders orders fills i = (case fill_at fills i of None \<Rightarrow> orders i | Some f \<Rightarrow> after_fill f)"

lemma filled_orders_Cons:
  assumes "ord_id (fst f) \<notin> (\<lambda>f. ord_id (fst f)) ` set fs"
  shows "filled_orders orders (f # fs) = filled_orders (orders(ord_id (fst f) := after_fill f)) fs"
proof -
  have "fill_at fs (ord_id (fst f)) = None" using assms by (simp add: fill_at_None)
  then show ?thesis by (auto simp: filled_orders_def fun_eq_iff split: option.split)
qed

lemma report_risk_mirrors:
  assumes "mirrors re y (in_order_owners instrument) orders" "orders (ord_id inc) = None"
    and "distinct (map (\<lambda>f. ord_id (fst f)) fills)"
    and "\<forall>f\<in>set fills. orders (ord_id (fst f)) = Some (fst f) \<and> ord_id (fst f) \<noteq> ord_id inc \<and>
      snd f \<noteq> 0 \<and> snd f \<le> ord_remaining (fst f)"
  shows "mirrors (report_risk instrument y (ord_id inc) socket client (map (fill_trade inc) fills) re) y
      (in_order_owners instrument) (filled_orders orders fills) \<and>
    only_symbol y re (report_risk instrument y (ord_id inc) socket client (map (fill_trade inc) fills) re)"
  using assms
proof (induction fills arbitrary: re orders)
  case Nil
  then show ?case by (simp add: report_risk_def filled_orders_def only_symbol_def mirrors_def mirror_def)
next
  case (Cons f fs)
  obtain x n where f: "f = (x, n)" by (cases f)
  let ?c = "ow_risk_client_id (case in_order_owners instrument (ord_id x) of None \<Rightarrow> no_owner | Some w \<Rightarrow> w)"
  let ?orders = "orders(ord_id x := after_fill (x, n))"
  define re1 where "re1 = on_trade y (if ord_side inc = Buy then client else ?c)
    (if ord_side inc = Buy then ?c else client)
    (tr_buy_order_id (fill_trade inc f)) (tr_sell_order_id (fill_trade inc f)) n re"
  have m1: "mirrors re1 y (in_order_owners instrument) ?orders"
    unfolding re1_def f by (rule trade_fill) (use Cons.prems f in auto)
  have fresh: "ord_id x \<notin> (\<lambda>f. ord_id (fst f)) ` set fs" using Cons.prems(3) f by auto
  have rest: "\<forall>f\<in>set fs. ?orders (ord_id (fst f)) = Some (fst f) \<and> ord_id (fst f) \<noteq> ord_id inc \<and>
      snd f \<noteq> 0 \<and> snd f \<le> ord_remaining (fst f)"
    using Cons.prems(4) fresh by (auto simp: image_iff)
  have fresh': "?orders (ord_id inc) = None" using Cons.prems(2,4) f by auto
  have dist: "distinct (map (\<lambda>f. ord_id (fst f)) fs)" using Cons.prems(3) by simp
  have owners: "find_order_owner instrument (tr_buy_order_id (fill_trade inc f)) (ord_id inc) socket client =
      (if ord_side inc = Buy then \<lparr>ow_socket = socket, ow_risk_client_id = client\<rparr>
       else case in_order_owners instrument (ord_id x) of None \<Rightarrow> no_owner | Some w \<Rightarrow> w)"
    "find_order_owner instrument (tr_sell_order_id (fill_trade inc f)) (ord_id inc) socket client =
      (if ord_side inc = Buy then case in_order_owners instrument (ord_id x) of None \<Rightarrow> no_owner | Some w \<Rightarrow> w
       else \<lparr>ow_socket = socket, ow_risk_client_id = client\<rparr>)"
    using Cons.prems(4) f by (auto simp: find_order_owner_def fill_trade_def)
  have step: "report_risk instrument y (ord_id inc) socket client (map (fill_trade inc) (f # fs)) re =
      report_risk instrument y (ord_id inc) socket client (map (fill_trade inc) fs) re1"
    unfolding report_risk_def re1_def list.map fold_simps comp_def owners
    by (cases "ord_side inc") (simp_all add: f fill_trade_def)
  have only: "only_symbol y re re1" unfolding re1_def by (rule only_symbol_trade)
  have "filled_orders orders (f # fs) = filled_orders ?orders fs"
    using filled_orders_Cons [of f fs orders] fresh f by simp
  then show ?case
    unfolding step using Cons.IH [OF m1 fresh' dist rest] only_symbol_trans [OF only] by metis
qed


section \<open>After the trades\<close>

lemma remove_filled_owner:
  "in_order_owners (remove_filled_order_owners ts incoming_id instrument) i =
     (if (\<exists>t\<in>set ts. i = tr_buy_order_id t \<or> i = tr_sell_order_id t) \<and> filled_away instrument i incoming_id
      then None else in_order_owners instrument i)"
proof (induction ts arbitrary: instrument)
  case (Cons t ts)
  let ?one = "remove_filled_order_owners [t] incoming_id instrument"
  have away: "filled_away ?one i incoming_id = filled_away instrument i incoming_id"
    by (simp add: filled_away_def)
  have "in_order_owners ?one i =
      (if (i = tr_buy_order_id t \<or> i = tr_sell_order_id t) \<and> filled_away instrument i incoming_id
       then None else in_order_owners instrument i)"
    by (auto simp: remove_filled_order_owners_def Let_def filled_away_def)
  then show ?case
    by (subst remove_filled_order_owners_Cons) (auto simp: Cons.IH away)
qed (simp add: remove_filled_order_owners_def)

lemma fill_trade_ids:
  "i = tr_buy_order_id (fill_trade inc f) \<or> i = tr_sell_order_id (fill_trade inc f) \<longleftrightarrow>
     i = ord_id inc \<or> i = ord_id (fst f)"
  by (auto simp: fill_trade_def)

text \<open>
  The state after an order \<open>inc\<close> with the fills \<open>fills\<close>: its remainder rests or is gone, and the
  working orders mirror the new book and the new owners.
\<close>

lemma settle_mirrors:
  assumes m: "mirrors re y w (find_order b)" and fresh: "find_order b (ord_id inc) = None"
    and fb: "filled_book b inc fills b'" and wf: "book_wf b'" and y: "y = symbol_to_string wire"
    and w: "\<forall>i. w i \<noteq> None \<longrightarrow> i = ord_id inc \<or> find_order b i \<noteq> None"
    and st: "settlement = settle_fills h wire (ord_id inc) socket client (map (fill_trade inc) fills)
        \<lparr>in_book = b', in_order_owners = w\<rparr> re"
    and w': "w' = (if find_order b' (ord_id inc) = None
        then (in_order_owners (st_instrument settlement))(ord_id inc := None)
        else in_order_owners (st_instrument settlement))"
  shows "mirrors (st_risk_engine settlement) y w' (find_order b')"
    and "only_symbol y re (st_risk_engine settlement)"
    and "\<forall>i. w' i \<noteq> None \<longrightarrow> find_order b' i \<noteq> None"
proof -
  let ?inst = "\<lparr>in_book = b', in_order_owners = w\<rparr>" and ?ts = "map (fill_trade inc) fills"
  define re1 where "re1 = report_risk ?inst y (ord_id inc) socket client ?ts re"
  define w1 where "w1 = in_order_owners (remove_filled_order_owners ?ts (ord_id inc) ?inst)"
  have fills: "\<forall>f\<in>set fills. find_order b (ord_id (fst f)) = Some (fst f) \<and> ord_id (fst f) \<noteq> ord_id inc \<and>
      snd f \<noteq> 0 \<and> snd f \<le> ord_remaining (fst f)" and dist: "distinct (map (\<lambda>f. ord_id (fst f)) fills)"
    and others: "\<And>i. i \<noteq> ord_id inc \<Longrightarrow> find_order b' i = filled_orders (find_order b) fills i"
    and own: "\<And>x. find_order b' (ord_id inc) = Some x \<Longrightarrow> ord_id x = ord_id inc"
    using fb unfolding filled_book_def filled_orders_def by blast+
  have reported: "mirrors re1 y w (filled_orders (find_order b) fills)" "only_symbol y re re1"
    using report_risk_mirrors [of re y ?inst "find_order b" inc fills socket client] m fresh dist fills
    unfolding re1_def by simp_all
  have gone: "filled_orders (find_order b) fills (ord_id inc) = None"
    using fresh fills by (auto simp: filled_orders_def fill_at_None image_iff split: option.split
        dest!: fill_at_SomeD)
  have w1: "w1 i = (if i \<in> (\<lambda>f. ord_id (fst f)) ` set fills \<and> i \<noteq> ord_id inc \<and> find_order b' i = None
      then None else w i)" for i
    unfolding w1_def remove_filled_owner
    by (auto simp: filled_away_def fill_trade_def image_iff)
  have mirror1: "mirror w (filled_orders (find_order b) fills) c i = mirror w1 (find_order b') c i"
    if "i \<noteq> ord_id inc" for c i
    using that w1 others [OF that] by (auto simp: mirror_def split: option.split)
  have kept: "find_order b' i \<noteq> None" if i: "w1 i \<noteq> None" "i \<noteq> ord_id inc" for i
  proof
    assume none: "find_order b' i = None"
    then have "fill_at fills i = None" "w i \<noteq> None" using w1 [of i] i by (auto simp: fill_at_None split: if_splits)
    then show False using others [OF i(2)] none w i(2) by (auto simp: filled_orders_def)
  qed
  have risk1: "fr_risk_engine (report_fills ?inst wire (ord_id inc) socket client ?ts re) = re1"
    by (simp add: report_fills_risk re1_def y)
  have W1: "re_working_orders re1 (working_key c y i) =
      (if i = ord_id inc then None else mirror w1 (find_order b') c i)" for c i
    using mirrorsD [OF reported(1), of c i] mirror1 [of i c] gone by (auto simp: mirror_def split: option.split)
  have "mirrors (st_risk_engine settlement) y w' (find_order b') \<and>
    only_symbol y re (st_risk_engine settlement) \<and> (\<forall>i. w' i \<noteq> None \<longrightarrow> find_order b' i \<noteq> None)"
  proof (cases "find_order b' (ord_id inc)")
    case None
    have "st_risk_engine settlement = re1" "w' = w1(ord_id inc := None)"
      using None st w' risk1 by (simp_all add: settle_fills_def w1_def Let_def)
    then show ?thesis
      using W1 reported(2) kept by (auto simp: mirrors_def mirror_def)
  next
    case (Some x)
    have x: "ord_id x = ord_id inc" "ord_remaining x \<noteq> 0"
      using own [OF Some] find_order_iff [OF wf] resting_positive [OF wf] Some by blast+
    have re': "st_risk_engine settlement =
        on_order_resting client y (ord_id inc) (ord_side x) (ord_price x) (ord_remaining x) re1"
      and owners: "w' = w1(ord_id inc \<mapsto> \<lparr>ow_socket = socket, ow_risk_client_id = client\<rparr>)"
      using Some st w' risk1 x by (simp_all add: settle_fills_def w1_def Let_def y)
    have "mirrors (st_risk_engine settlement) y w' (find_order b')"
      unfolding re' owners mirrors_def
      using W1 x(2) Some by (auto simp: risk_simps Let_def mirror_def working_of_def invalid_risk_client_id_def)
    moreover have "only_symbol y re (st_risk_engine settlement)"
      unfolding re' using reported(2) only_symbol_updates(1) by (rule only_symbol_trans)
    ultimately show ?thesis using kept Some owners by auto
  qed
  then show "mirrors (st_risk_engine settlement) y w' (find_order b')"
    "only_symbol y re (st_risk_engine settlement)"
    "\<forall>i. w' i \<noteq> None \<longrightarrow> find_order b' i \<noteq> None"
    by blast+
qed

end
