(* ===== verification/Server_Runs.thy ===== *)
theory Server_Runs
  imports Server_Ledger
begin

text \<open>
  The invariant of the server and its runs. The invariant joins three components: every book is one
  the matching engine can reach, every owner belongs to a resting order, and the working orders of
  the risk engine mirror the owned resting orders. Every handler that returns keeps it, and a handler that does not
  return failed to write the journal or met a price level whose 32-bit counter had wrapped.
\<close>

definition server_inv :: "ExchangeServer \<Rightarrow> bool" where
  "server_inv sv \<longleftrightarrow>
     (\<forall>y. reachable_book (live_book sv y)) \<and>
     (\<forall>y i. owner_of sv y i \<noteq> None \<longrightarrow> find_order (live_book sv y) i \<noteq> None) \<and>
     (\<forall>y. mirrors (sv_risk_engine sv) y (owner_of sv y) (find_order (live_book sv y)))"

lemma server_invD:
  assumes "server_inv sv"
  shows "reachable_book (live_book sv y)" "book_wf (live_book sv y)"
    "owner_of sv y i \<noteq> None \<Longrightarrow> find_order (live_book sv y) i \<noteq> None"
    "mirrors (sv_risk_engine sv) y (owner_of sv y) (find_order (live_book sv y))"
  using assms reachable_engine_inv [of "live_book sv y"] by (auto simp: server_inv_def engine_inv_def)

lemma server_inv_cong: "undisturbed sv sv' \<Longrightarrow> server_inv sv' = server_inv sv"
  by (simp add: undisturbed_def server_inv_def)

section \<open>What cannot be thrown\<close>

lemma has_side_level:
  "has_bids b \<Longrightarrow> \<exists>p l. best_bid b = Inr p \<and> best_bid_level b = Inr l"
  "has_asks b \<Longrightarrow> \<exists>p l. best_ask b = Inr p \<and> best_ask_level b = Inr l"
  by (auto simp: has_bids_def has_asks_def best_bid_def best_ask_def best_bid_level_def best_ask_level_def
      split: list.split)

lemma market_reference_price_ok: "\<exists>p. market_reference_price side b = Inr p"
  using has_side_level [of b] by (auto simp: market_reference_price_def)

lemma capture_book_snapshot_ok: "\<exists>s. capture_book_snapshot y b = Inr s"
  using has_side_level [of b] by (auto simp: capture_book_snapshot_def Let_def)

lemma server_order_eq: "server_order request = order_of_request request"
  by (cases "nor_side request"; cases "nor_order_type request"; cases "nor_time_in_force request")
    (simp_all add: server_order_def order_of_request_def convert_side_def convert_order_type_def Let_def)

lemma ucast_quantity_nonzero:
  assumes "(q :: u64) \<noteq> 0" "q \<le> maximum_quantity"
  shows "(ucast q :: Quantity) \<noteq> 0"
proof
  assume "(ucast q :: Quantity) = 0"
  then have "unat (ucast q :: Quantity) = 0" by simp
  then have "unat q mod 2 ^ 32 = 0" by (simp add: unsigned_ucast_eq take_bit_eq_mod)
  moreover have "unat q < 2 ^ 32"
    using assms(2) by (simp add: word_le_nat_alt maximum_quantity_def)
  ultimately show False using assms(1) by (simp add: unat_eq_zero)
qed

lemma server_order_simps [simp]:
  "ord_id (server_order request) = nor_order_id request"
  "ord_remaining (server_order request) = ucast (nor_quantity request)"
  by (simp_all add: server_order_def)

section \<open>Handlers keep the invariant\<close>

lemma mirrors_others:
  assumes inv: "server_inv sv" and only: "only_symbol y (sv_risk_engine sv) re"
    and books: "live_book sv' = (live_book sv)(y := b)" and owners: "owner_of sv' = (owner_of sv)(y := w)"
    and re: "sv_risk_engine sv' = re" and reach: "reachable_book b"
    and own: "\<forall>i. w i \<noteq> None \<longrightarrow> find_order b i \<noteq> None" and m: "mirrors re y w (find_order b)"
  shows "server_inv sv'"
proof -
  have "mirrors re z (owner_of sv z) (find_order (live_book sv z))" if "z \<noteq> y" for z
    using mirrors_other [OF server_invD(4) [OF inv] only that] .
  then show ?thesis
    using inv books owners re reach own m by (auto simp: server_inv_def)
qed

text \<open>How a handler may end: normally, without its journal record, or on a wrapped price level.\<close>

definition handler_end :: "MessageHeader \<Rightarrow> u8 list \<Rightarrow> ExchangeServer \<Rightarrow> unit outcome \<Rightarrow> ExchangeServer \<Rightarrow> bool" where
  "handler_end header body sv r sv' \<longleftrightarrow>
     (r = Inr () \<and> server_inv sv') \<or>
     (\<exists>e. r = Inl e \<and> journal_step header body (sv_journal sv) (Inl e) (sv_journal sv') \<and> undisturbed sv sv' \<and>
        \<not> journal_healthy sv) \<or>
     (r = Inl (Logic_Error ''Price level quantity is inconsistent'') \<and>
        hdr_type header \<in> {MT_CancelOrder, MT_ReplaceOrder} \<and> live_book sv' = live_book sv \<and>
        (\<exists>y. \<not> book_exact (live_book sv y)))"

lemma handle_new_order_inv:
  assumes inv: "server_inv sv" and t: "tb_wf trades"
    and res: "handle_new_order hash_order socket header body trades sv = (r, trades', sv')"
  shows "handler_end header body sv r sv' \<and> tb_wf trades'"
  using res
proof (cases rule: handle_new_order_cases)
  case rejected
  then show ?thesis using inv t server_inv_cong by (auto simp: handler_end_def intro: buf.inv_clear)
next
  case (no_reference_price side y e)
  then show ?thesis using market_reference_price_ok [of side "live_book sv y"] by simp
next
  case (journal_failed e)
  then show ?thesis using t by (auto simp: handler_end_def)
next
  case (entered request book res)
  let ?y = "symbol_to_string (nor_symbol request)" and ?x = "server_order request"
  let ?b = "live_book sv ?y"
  have q: "ord_remaining ?x \<noteq> 0"
    using entered(2,3) new_order.dec_valid [of body request]
    by (simp add: ucast_quantity_nonzero new_order_valid_def)
  have fresh: "find_order ?b (ord_id ?x) = None" using entered(5) by simp
  obtain fills where run: "res = Inr ()" "tb_wf trades'" "book_wf book"
    "tb_to_vector trades' = map (fill_trade ?x) fills" "filled_book ?b ?x fills book"
    using process_order_into_fills [OF server_invD(2) [OF inv] t q fresh] entered(8) by auto
  define settlement where "settlement = settle_fills hash_order (nor_symbol request) (ord_id ?x) socket
    (risk_client_id_for_socket sv socket) (map (fill_trade ?x) fills)
    \<lparr>in_book = book, in_order_owners = owner_of sv ?y\<rparr> (sv_risk_engine sv)"
  have result: "owner_of sv' = (owner_of sv)(?y := in_order_owners (st_instrument settlement))"
    "sv_risk_engine sv' = st_risk_engine settlement"
    using entered(12) [OF run(1)] run(4) by (simp_all add: settlement_def Let_def)
  have "reachable_book book"
    using reach_process [OF server_invD(1) [OF inv] process_order_into_process_order(1) [OF t entered(8)]] .
  moreover have "r = Inr ()"
    using entered(13) run(1) capture_book_snapshot_ok [of "nor_symbol request" book] by auto
  moreover have absent: "in_order_owners (st_instrument settlement) (ord_id ?x) = None"
    if "find_order book (ord_id ?x) = None"
    using that entered(6) by (simp add: settlement_def settle_fills_def Let_def remove_filled_owner)
  moreover note settled = settle_mirrors [OF server_invD(4) [OF inv] fresh run(5,3) refl _ settlement_def refl]
  have "\<forall>i. owner_of sv ?y i \<noteq> None \<longrightarrow> i = ord_id ?x \<or> find_order ?b i \<noteq> None"
    using server_invD(3) [OF inv] by blast
  note settled = settled [OF this]
  have w: "(if find_order book (ord_id ?x) = None
      then (in_order_owners (st_instrument settlement))(ord_id ?x := None)
      else in_order_owners (st_instrument settlement)) = in_order_owners (st_instrument settlement)"
    using absent by (simp add: fun_upd_idem)
  ultimately show ?thesis
    using mirrors_others [OF inv settled(2) entered(9) result] settled(1,3) [unfolded w] run(2)
    by (simp add: handler_end_def)
qed
lemma cancelled_mirrors:
  assumes m: "mirrors re y w f" and owner: "w i = Some \<lparr>ow_socket = socket, ow_risk_client_id = c\<rparr>"
  shows "mirrors (on_order_cancelled c y i re) y (w(i := None)) (f(i := None))"
    "mirrors (on_order_cancelled c y i re) y w (f(i := None))"
  using mirrorsD [OF m] owner
  by (auto simp: mirrors_def on_order_cancelled_def risk_simps mirror_def invalid_risk_client_id_def
      split: option.split)

lemma handle_cancel_order_inv:
  assumes inv: "server_inv sv"
    and type: "hdr_type header = MT_CancelOrder"
    and res: "handle_cancel_order socket header body sv = (r, sv')"
  shows "handler_end header body sv r sv'"
  using res
proof (cases rule: handle_cancel_order_cases)
  case rejected
  then show ?thesis using inv server_inv_cong by (auto simp: handler_end_def)
next
  case (journal_failed e)
  then show ?thesis by (auto simp: handler_end_def)
next
  case (entered request book res)
  let ?y = "symbol_to_string (cor_symbol request)" and ?i = "cor_order_id request"
  let ?c = "risk_client_id_for_socket sv socket"
  obtain x where x: "find_order (live_book sv ?y) ?i = Some x" using entered(4) by auto
  from engine_cancel_lookup [OF server_invD(2) [OF inv] x entered(6)] show ?thesis
  proof (elim disjE conjE)
    assume thrown: "res = Inl (Logic_Error ''Price level quantity is inconsistent'')"
      and same: "book = live_book sv ?y" "\<not> book_exact (live_book sv ?y)"
    have "res \<noteq> Inr True" using thrown by simp
    then have "r = map_sum id (\<lambda>_. ()) res" using entered(11) by blast
    then show ?thesis using thrown same entered(7) type by (auto simp: handler_end_def)
  next
    assume ran: "res = Inr True" and wf: "book_wf book"
      and find: "find_order book = (find_order (live_book sv ?y))(?i := None)"
    note result = entered(10) [OF ran]
    have "r = Inr ()" using result capture_book_snapshot_ok [of "cor_symbol request" book] by auto
    moreover have "reachable_book book"
      using reach_cancel [OF server_invD(1) [OF inv] entered(6)] .
    moreover note cancelled = cancelled_mirrors(1) [OF server_invD(4) [OF inv] entered(3), folded find]
    moreover have "\<forall>j. ((owner_of sv ?y)(?i := None)) j \<noteq> None \<longrightarrow> find_order book j \<noteq> None"
      using server_invD(3) [OF inv, of ?y] by (auto simp: find)
    ultimately have "server_inv sv'"
      using mirrors_others [OF inv only_symbol_updates(2) entered(7)] result by blast
    then show ?thesis using \<open>r = Inr ()\<close> by (simp add: handler_end_def)
  qed
qed

lemma handle_replace_order_inv:
  assumes inv: "server_inv sv" and t: "tb_wf trades"
    and type: "hdr_type header = MT_ReplaceOrder"
    and res: "handle_replace_order hash_order socket header body trades sv = (r, trades', sv')"
  shows "handler_end header body sv r sv' \<and> tb_wf trades'"
  using res
proof (cases rule: handle_replace_order_cases)
  case rejected
  then show ?thesis using inv t server_inv_cong by (auto simp: handler_end_def intro: buf.inv_clear)
next
  case (journal_failed e)
  then show ?thesis using t by (auto simp: handler_end_def)
next
  case (entered request existing book res)
  let ?y = "symbol_to_string (ror_symbol request)" and ?i = "ror_order_id request"
  let ?c = "risk_client_id_for_socket sv socket" and ?b = "live_book sv (symbol_to_string (ror_symbol request))"
  let ?x = "replacement_of existing (ror_new_price request) (ucast (ror_new_quantity request)) (ror_timestamp request)"
  have q: "(ucast (ror_new_quantity request) :: Quantity) \<noteq> 0"
    using entered(2,3) replace_order.dec_valid [of body request]
    by (simp add: ucast_quantity_nonzero replace_order_valid_def)
  have id: "ord_id ?x = ?i"
    using find_order_iff [OF server_invD(2) [OF inv]] entered(5) by simp
  from replace_order_into_fills [OF server_invD(2) [OF inv] t q entered(5,8)] show ?thesis
  proof (elim disjE conjE exE)
    assume thrown: "res = Inl (Logic_Error ''Price level quantity is inconsistent'')"
      and same: "book = ?b" and t': "tb_wf trades'" and wrapped: "\<not> book_exact ?b"
    have "res \<noteq> Inr True" using thrown by simp
    then have "r = map_sum id (\<lambda>_. ()) res" using entered(13) by blast
    then show ?thesis using thrown same wrapped entered(9) t' type by (auto simp: handler_end_def)
  next
    fix fills b1
    assume ran: "res = Inr True" and t': "tb_wf trades'" and wf: "book_wf book"
      and find: "find_order b1 = (find_order ?b)(?i := None)"
      and ts: "tb_to_vector trades' = map (fill_trade ?x) fills" and fb: "filled_book b1 ?x fills book"
    define re where "re = on_order_cancelled ?c ?y ?i (sv_risk_engine sv)"
    define settlement where "settlement = settle_fills hash_order (ror_symbol request) (ord_id ?x) socket ?c
      (map (fill_trade ?x) fills) \<lparr>in_book = book, in_order_owners = owner_of sv ?y\<rparr> re"
    define w where "w = (if find_order book (ord_id ?x) = None
      then (in_order_owners (st_instrument settlement))(ord_id ?x := None)
      else in_order_owners (st_instrument settlement))"
    have result: "owner_of sv' = (owner_of sv)(?y := w)" "sv_risk_engine sv' = st_risk_engine settlement"
      "r = map_sum id (\<lambda>_. ()) (capture_book_snapshot (ror_symbol request) book)"
      using entered(12) [OF ran] ts by (simp_all add: settlement_def w_def re_def Let_def id [simplified])
    have "mirrors re ?y (owner_of sv ?y) (find_order b1)"
      unfolding find re_def by (rule cancelled_mirrors(2) [OF server_invD(4) [OF inv] entered(4)])
    moreover have "find_order b1 (ord_id ?x) = None" using find id by simp
    moreover have "\<forall>i. owner_of sv ?y i \<noteq> None \<longrightarrow> i = ord_id ?x \<or> find_order b1 i \<noteq> None"
      using server_invD(3) [OF inv, of ?y] find id by auto
    ultimately have settled: "mirrors (st_risk_engine settlement) ?y w (find_order book)"
      "only_symbol ?y re (st_risk_engine settlement)" "\<forall>i. w i \<noteq> None \<longrightarrow> find_order book i \<noteq> None"
      using settle_mirrors [OF _ _ fb wf refl _ settlement_def w_def] by blast+
    have "reachable_book book"
      using reach_replace [OF server_invD(1) [OF inv]] replace_order_into_replace_order(1) [OF t entered(8)]
      by (metis prod.collapse)
    moreover have "r = Inr ()" using result(3) capture_book_snapshot_ok [of "ror_symbol request" book] by auto
    moreover have "only_symbol ?y (sv_risk_engine sv) (st_risk_engine settlement)"
      using only_symbol_updates(2) settled(2) unfolding re_def by (rule only_symbol_trans)
    ultimately show ?thesis
      using mirrors_others [OF inv _ entered(9) result(1,2)] settled(1,3) t' by (simp add: handler_end_def)
  qed
qed

lemma handle_message_inv:
  assumes inv: "server_inv sv" and t: "tb_wf trades"
    and res: "handle_message hash_order socket header body trades sv = (r, trades', sv')"
  shows "handler_end header body sv r sv' \<and> tb_wf trades'"
proof (cases "hdr_type header \<in> {MT_NewOrder, MT_CancelOrder, MT_ReplaceOrder}")
  case False
  then show ?thesis using assms by (cases "hdr_type header") (auto simp: handle_message_def handler_end_def)
next
  case True
  then show ?thesis
    using res handle_new_order_inv [OF inv t] handle_replace_order_inv [OF inv t] handle_cancel_order_inv [OF inv] t
    by (auto simp: handle_message_def split: prod.splits)
qed
section \<open>Runs\<close>

text \<open>
  A run of the server: sessions come and go, the kill switch is set and reset, and complete
  messages are handled, one after the other. A message is a header the decoder accepted with a body of the size it
  announces. An exception ends the process, so a run goes on only after a handler returned.
\<close>

inductive server_run :: "ExchangeServer \<Rightarrow> ExchangeServer \<Rightarrow> bool" for start where
  run_start: "server_run start start"
| run_connect: "server_run start sv \<Longrightarrow> register_client socket sv = (c, sv') \<Longrightarrow> server_run start sv'"
| run_disconnect: "server_run start sv \<Longrightarrow> server_run start (unregister_client socket sv)"
| run_kill_switch: "server_run start sv \<Longrightarrow> server_run start (server_set_global_kill_switch v sv)"
| run_message: "server_run start sv \<Longrightarrow> decode_header bytes = Some header \<Longrightarrow>
    length body = unat (hdr_body_size header) \<Longrightarrow> tb_wf trades \<Longrightarrow>
    handle_message hash_order socket header body trades sv = (Inr (), trades', sv') \<Longrightarrow> server_run start sv'"

inductive_cases server_runE: "server_run start sv"

lemma session_steps_undisturbed:
  "register_client socket sv = (c, sv') \<Longrightarrow> live_book sv' = live_book sv \<and> owner_of sv' = owner_of sv \<and>
     sv_risk_engine sv' = sv_risk_engine sv \<and> sv_journal sv' = sv_journal sv"
  "live_book (unregister_client socket sv) = live_book sv" "owner_of (unregister_client socket sv) = owner_of sv"
  "sv_risk_engine (unregister_client socket sv) = sv_risk_engine sv"
  "sv_journal (unregister_client socket sv) = sv_journal sv"
  "live_book (server_set_global_kill_switch v sv) = live_book sv"
  "owner_of (server_set_global_kill_switch v sv) = owner_of sv"
  "sv_journal (server_set_global_kill_switch v sv) = sv_journal sv"
  by (auto simp: register_client_def unregister_client_def server_set_global_kill_switch_def Let_def
      intro!: views_cong)

lemma mirrors_kill_switch [simp]: "mirrors (set_global_kill_switch v re) y w f = mirrors re y w f"
  by (simp add: mirrors_def set_global_kill_switch_def)

lemma server_run_inv:
  assumes "server_run start sv" "server_inv start"
  shows "server_inv sv"
  using assms(1)
proof induction
  case run_start
  show ?case by (rule assms(2))
next
  case (run_connect sv socket c sv')
  then show ?case using session_steps_undisturbed(1) by (simp add: server_inv_def)
next
  case (run_disconnect sv socket)
  then show ?case by (simp add: server_inv_def session_steps_undisturbed)
next
  case (run_kill_switch sv v)
  have "sv_risk_engine (server_set_global_kill_switch v sv) = set_global_kill_switch v (sv_risk_engine sv)"
    by (simp add: server_set_global_kill_switch_def)
  then show ?case using run_kill_switch by (simp add: server_inv_def session_steps_undisturbed)
next
  case (run_message sv bytes header body trades hash_order socket trades' sv')
  then show ?case using handle_message_inv by (fastforce simp: handler_end_def)
qed

section \<open>The journal of a run\<close>

definition book_at :: "(string \<rightharpoonup> OrderBook) \<Rightarrow> string \<Rightarrow> OrderBook" where
  "book_at B y = (case B y of None \<Rightarrow> new_book | Some b \<Rightarrow> b)"

lemma book_at_upd [simp]: "book_at (B(y \<mapsto> b)) = (book_at B)(y := b)"
  by (auto simp: book_at_def fun_eq_iff)

definition replay_messages_from_scratch :: "u8 list list \<Rightarrow> ExchangeReplayer" where
  "replay_messages_from_scratch ms = fold replay_record ms (replay_reset new_replayer)"

lemma replay_from_scratch_ok: "replayer_ok (replay_messages_from_scratch ms)"
proof -
  have "replay_sound (replay_messages_from_scratch ms)"
    unfolding replay_messages_from_scratch_def
    by (induction ms rule: rev_induct) (simp_all add: replay_reset_sound new_replayer_ok replay_record_sound)
  then show ?thesis by (simp add: replay_sound_def)
qed

definition journaled :: "ExchangeServer \<Rightarrow> bool" where
  "journaled sv \<longleftrightarrow>
     (\<forall>j. sv_journal sv = Some j \<longrightarrow> \<not> jr_failed j \<and>
        (\<exists>ms. (\<forall>m\<in>set ms. message_size_ok m) \<and> jr_file j = concat (map frame ms) \<and>
          book_at (books_of (replay_messages_from_scratch ms)) = live_book sv))"

lemma journaled_cong:
  "live_book sv' = live_book sv \<Longrightarrow> sv_journal sv' = sv_journal sv \<Longrightarrow> journaled sv' = journaled sv"
  by (simp add: journaled_def)

text \<open>A message that was journaled and then changed one book as the replayer will.\<close>

lemma journaled_step:
  assumes old: "journaled sv" and size: "message_size_ok (encode_header header @ body)"
    and step: "journal_step header body (sv_journal sv) (Inr ()) (sv_journal sv')"
    and same: "\<And>rp. replayer_ok rp \<Longrightarrow> book_at (books_of rp) = live_book sv \<Longrightarrow>
      book_at (books_of (replay_record (encode_header header @ body) rp)) = live_book sv'"
  shows "journaled sv'"
proof (cases "sv_journal sv")
  case None
  then show ?thesis using step by (simp add: journal_step_def journaled_def)
next
  case (Some j)
  then obtain f g j' where j': "sv_journal sv' = Some j'"
    and app: "journal_append (encode_header header @ body) f g j = (Inr (), j')"
    using step by (auto simp: journal_step_def)
  obtain ms where ms: "\<forall>m\<in>set ms. message_size_ok m" "jr_file j = concat (map frame ms)"
    "book_at (books_of (replay_messages_from_scratch ms)) = live_book sv"
    using old Some by (auto simp: journaled_def)
  let ?ms = "ms @ [encode_header header @ body]"
  have "replay_messages_from_scratch ?ms =
      replay_record (encode_header header @ body) (replay_messages_from_scratch ms)"
    by (simp add: replay_messages_from_scratch_def)
  then have "book_at (books_of (replay_messages_from_scratch ?ms)) = live_book sv'"
    using same [OF replay_from_scratch_ok ms(3)] by simp
  moreover have "jr_file j' = concat (map frame ?ms)" "\<not> jr_failed j'"
    using journal_append_ok [OF app] ms(2) by auto
  moreover have "\<forall>m\<in>set ?ms. message_size_ok m" using ms(1) size by simp
  ultimately show ?thesis using j' unfolding journaled_def by (intro allI impI) (metis option.inject)
qed

lemma wire_header:
  assumes "decode_header bytes = Some header" "length body = unat (hdr_body_size header)"
  shows "header = header_for (hdr_type header) (length body) (hdr_sequence_number header)"
  using assms header.dec_valid [OF assms(1)] by (simp add: header_for_def header_valid_def)

lemma replay_wire_record:
  assumes "decode_header bytes = Some header" "length body = unat (hdr_body_size header)"
    and "hdr_type header \<in> set named_types" "length body \<le> 1000"
  shows "message_size_ok (encode_header header @ body) \<and>
    replay_record (encode_header header @ body) rp =
     (let rp = rp\<lparr>rp_summary := (rp_summary rp)\<lparr>sum_journal_records := sum_journal_records (rp_summary rp) + 1\<rparr>\<rparr>
     in case hdr_type header of
       MT_NewOrder \<Rightarrow> replay_new_order body rp
     | MT_CancelOrder \<Rightarrow> replay_cancel_order body rp
     | MT_ReplaceOrder \<Rightarrow> replay_replace_order body rp
     | _ \<Rightarrow> rp\<lparr>rp_summary := (rp_summary rp)
         \<lparr>sum_unsupported_messages := sum_unsupported_messages (rp_summary rp) + 1\<rparr>\<rparr>)"
  using wire_header [OF assms(1,2)] encode_valid_header(2) [OF assms(3), of "length body" "hdr_sequence_number header"]
    replay_record_message [OF assms(3) refl, of body "hdr_sequence_number header" rp] assms(4)
  by (simp add: message_size_ok_def maximum_record_size_def header_size_def)

lemma find_order_new_book [simp]: "find_order new_book i = None"
  by (simp add: find_order_def new_book_def)

lemma books_some:
  assumes "book_at B = live_book sv" "find_order (live_book sv y) i \<noteq> None"
  shows "B y = Some (live_book sv y)"
proof -
  have "book_at B y = live_book sv y" using assms(1) by simp
  then show ?thesis using assms(2) by (cases "B y") (auto simp: book_at_def)
qed

lemma undisturbed_journaled:
  "undisturbed sv sv' \<Longrightarrow> sv_journal sv' = sv_journal sv \<Longrightarrow> journaled sv \<Longrightarrow> journaled sv'"
  by (simp add: undisturbed_def journaled_def)

definition count_record :: "ExchangeReplayer \<Rightarrow> ExchangeReplayer" where
  "count_record rp = rp\<lparr>rp_summary := (rp_summary rp)
    \<lparr>sum_journal_records := sum_journal_records (rp_summary rp) + 1\<rparr>\<rparr>"

lemma count_record_ok:
  shows "replayer_ok rp \<Longrightarrow> replayer_ok (count_record rp)" and "books_of (count_record rp) = books_of rp"
  by (simp_all add: count_record_def replayer_ok_def)

lemmas replay_wire_counted = replay_wire_record [unfolded count_record_def [symmetric] Let_def]

text \<open>Each handler keeps the journal in step with the books: what it appended replays to what it did.\<close>

lemma new_order_journaled:
  assumes old: "journaled sv" and t: "tb_wf trades"
    and dec: "decode_header bytes = Some header" and len: "length body = unat (hdr_body_size header)"
    and kind: "hdr_type header = MT_NewOrder"
    and res: "handle_new_order hash_order socket header body trades sv = (Inr (), trades', sv')"
  shows "journaled sv'"
  using res
proof (cases rule: handle_new_order_cases)
  case rejected
  then show ?thesis using old undisturbed_journaled by blast
next
  case (entered request book res)
  let ?y = "symbol_to_string (nor_symbol request)"
  have "length body \<le> 1000" using entered(1) len by (simp add: new_order_body_size_def)
  note replayed = replay_wire_counted [OF dec len, unfolded kind, simplified, OF _ this]
  show ?thesis
  proof (rule journaled_step [OF old _ entered(7)])
    show "message_size_ok (encode_header header @ body)"
      using replayed by (simp add: named_types_def)
  next
    fix rp assume rp: "replayer_ok rp" "book_at (books_of rp) = live_book sv"
    have "books_of (replay_record (encode_header header @ body) rp) = apply_request (NewReq request) (books_of rp)"
      using replayed [of rp] replay_new_order_cases [OF count_record_ok(1) [OF rp(1)], of body] entered(2,3,4)
        count_record_ok(2)
      by (simp add: named_types_def not_less [symmetric])
    moreover have "(case books_of rp ?y of None \<Rightarrow> new_book | Some b \<Rightarrow> b) = live_book sv ?y"
      using rp(2) by (metis book_at_def)
    moreover have "snd (process_order (live_book sv ?y) (order_of_request request)) = book"
      using process_order_into_process_order(1) [OF t entered(8)] by (simp add: server_order_eq)
    ultimately show "book_at (books_of (replay_record (encode_header header @ body) rp)) = live_book sv'"
      using rp(2) entered(9) by (simp add: Let_def)
  qed
qed simp_all

lemma cancel_order_journaled:
  assumes old: "journaled sv"
    and dec: "decode_header bytes = Some header" and len: "length body = unat (hdr_body_size header)"
    and kind: "hdr_type header = MT_CancelOrder"
    and res: "handle_cancel_order socket header body sv = (Inr (), sv')"
  shows "journaled sv'"
  using res
proof (cases rule: handle_cancel_order_cases)
  case rejected
  then show ?thesis using old undisturbed_journaled by blast
next
  case (entered request book res)
  let ?y = "symbol_to_string (cor_symbol request)"
  have "length body \<le> 1000" using entered(1) len by (simp add: cancel_order_body_size_def)
  note replayed = replay_wire_counted [OF dec len, unfolded kind, simplified, OF _ this]
  have "?y \<noteq> []"
    using cancel_order.dec_valid [OF entered(2)] symbol_not_empty by (simp add: cancel_order_valid_def)
  show ?thesis
  proof (rule journaled_step [OF old _ entered(5)])
    show "message_size_ok (encode_header header @ body)"
      using replayed by (simp add: named_types_def)
  next
    fix rp assume rp: "replayer_ok rp" "book_at (books_of rp) = live_book sv"
    have "books_of (replay_record (encode_header header @ body) rp) = apply_request (CancelReq request) (books_of rp)"
      using replayed [of rp] replay_cancel_order_cases [OF count_record_ok(1) [OF rp(1)], of body] entered(2)
        count_record_ok(2) \<open>?y \<noteq> []\<close>
      by (simp add: named_types_def)
    then show "book_at (books_of (replay_record (encode_header header @ body) rp)) = live_book sv'"
      using rp(2) entered(6,7) books_some [OF rp(2) entered(4)] by (simp add: Let_def)
  qed
qed simp_all

lemma replace_order_journaled:
  assumes old: "journaled sv" and t: "tb_wf trades"
    and dec: "decode_header bytes = Some header" and len: "length body = unat (hdr_body_size header)"
    and kind: "hdr_type header = MT_ReplaceOrder"
    and res: "handle_replace_order hash_order socket header body trades sv = (Inr (), trades', sv')"
  shows "journaled sv'"
  using res
proof (cases rule: handle_replace_order_cases)
  case rejected
  then show ?thesis using old undisturbed_journaled by blast
next
  case (entered request existing book res)
  let ?y = "symbol_to_string (ror_symbol request)"
  have "length body \<le> 1000" using entered(1) len by (simp add: replace_order_body_size_def)
  note replayed = replay_wire_counted [OF dec len, unfolded kind, simplified, OF _ this]
  have "?y \<noteq> []"
    using replace_order.dec_valid [OF entered(2)] symbol_not_empty by (simp add: replace_order_valid_def)
  show ?thesis
  proof (rule journaled_step [OF old _ entered(7)])
    show "message_size_ok (encode_header header @ body)"
      using replayed by (simp add: named_types_def)
  next
    fix rp assume rp: "replayer_ok rp" "book_at (books_of rp) = live_book sv"
    have "books_of (replay_record (encode_header header @ body) rp) = apply_request (ReplaceReq request) (books_of rp)"
      using replayed [of rp] replay_replace_order_cases [OF count_record_ok(1) [OF rp(1)], of body] entered(2,3)
        count_record_ok(2) \<open>?y \<noteq> []\<close>
      by (simp add: named_types_def not_less [symmetric])
    moreover have "find_order (live_book sv ?y) (ror_order_id request) \<noteq> None" using entered(5) by simp
    ultimately show "book_at (books_of (replay_record (encode_header header @ body) rp)) = live_book sv'"
      using rp(2) entered(9) books_some [OF rp(2)] replace_order_into_replace_order(1) [OF t entered(8)]
      by (simp add: Let_def)
  qed
qed simp_all

lemma handle_message_journaled:
  assumes old: "journaled sv" and inv: "server_inv sv" and t: "tb_wf trades"
    and dec: "decode_header bytes = Some header" and len: "length body = unat (hdr_body_size header)"
    and res: "handle_message hash_order socket header body trades sv = (Inr (), trades', sv')"
  shows "journaled sv'"
proof (cases "hdr_type header")
  case MT_NewOrder
  then show ?thesis
    using res new_order_journaled [OF old t dec len] by (auto simp: handle_message_def)
next
  case MT_CancelOrder
  then show ?thesis
    using res cancel_order_journaled [OF old dec len] by (auto simp: handle_message_def split: prod.splits)
next
  case MT_ReplaceOrder
  then show ?thesis
    using res replace_order_journaled [OF old t dec len] by (auto simp: handle_message_def)
qed (use res old in \<open>simp_all add: handle_message_def\<close>)

lemma server_run_journaled:
  assumes "server_run start sv" "server_inv start" "journaled start"
  shows "journaled sv"
  using assms(1)
proof induction
  case run_start
  show ?case by (rule assms(3))
next
  case (run_connect sv socket c sv')
  then show ?case using session_steps_undisturbed(1) journaled_cong by blast
next
  case (run_message sv bytes header body trades hash_order socket trades' sv')
  then show ?case using handle_message_journaled server_run_inv assms(2) by blast
qed (simp_all add: journaled_def session_steps_undisturbed)


end
