(* ===== verification/Server_Recovery.thy ===== *)
theory Server_Recovery
  imports Server_Runs
begin

text \<open>
  Start and recovery of the server: a started server satisfies the invariant whatever the journal
  file holds, and a server that was started on a journal of complete records is rebuilt from the
  journal it leaves behind.
\<close>

section \<open>The books a replay leaves\<close>

lemma rp_books_simps [simp]:
  "rp_books (count_rejected rp) = rp_books rp" "rp_books (count_trades k rp) = rp_books rp"
  "rp_books (count_new_order rp) = rp_books rp" "rp_books (count_symbols rp) = rp_books rp"
  "rp_books (set_book y b rp) = AList.update y b (rp_books rp)" "rp_books (replay_reset rp) = []"
  by (simp_all add: count_rejected_def count_trades_def count_new_order_def count_symbols_def set_book_def
      replay_reset_def)

definition books_distinct :: "ExchangeReplayer \<Rightarrow> bool" where
  "books_distinct rp \<longleftrightarrow> distinct (map fst (rp_books rp))"

lemma books_distinct_simps [simp]:
  "books_distinct (count_rejected rp) = books_distinct rp" "books_distinct (count_trades k rp) = books_distinct rp"
  "books_distinct (count_new_order rp) = books_distinct rp" "books_distinct (count_symbols rp) = books_distinct rp"
  "books_distinct (rp\<lparr>rp_summary := s\<rparr>) = books_distinct rp"
  "books_distinct (rp\<lparr>rp_trade_buffer := t\<rparr>) = books_distinct rp" "books_distinct (replay_reset rp)"
  by (simp_all add: books_distinct_def)

lemma books_distinct_set_book: "books_distinct rp \<Longrightarrow> books_distinct (set_book y b rp)"
  by (simp add: books_distinct_def distinct_update)

lemma books_distinct_book_for: "books_distinct rp \<Longrightarrow> book_for y rp = (b, rp') \<Longrightarrow> books_distinct rp'"
  by (auto simp: book_for_def intro: books_distinct_set_book split: option.splits)

lemma replay_record_distinct:
  assumes "books_distinct rp"
  shows "books_distinct (replay_record bytes rp)"
proof -
  have "books_distinct (replay_new_order body rp')" "books_distinct (replay_cancel_order body rp')"
    "books_distinct (replay_replace_order body rp')" if "books_distinct rp'" for body rp'
    using that
    by (auto simp: replay_new_order_def replay_cancel_order_def replay_replace_order_def Let_def
        intro: books_distinct_set_book books_distinct_book_for split: option.split prod.split sum.split)
  then show ?thesis
    using assms by (auto simp: replay_record_def Let_def split: option.split MessageType.split)
qed

lemma replay_loop_distinct: "books_distinct rp \<Longrightarrow> books_distinct (snd (replay_loop input rp))"
proof (induction input rp rule: replay_loop.induct)
  case (1 input rp)
  then show ?case by (subst replay_loop.simps) (auto simp: Let_def replay_record_distinct)
qed

lemma replay_result:
  assumes "replay file new_replayer = (ok, rp)"
  shows "books_distinct rp" "books_reachable (books_of rp)"
proof -
  have "replay_sound (snd (replay file new_replayer))" "books_distinct (snd (replay file new_replayer))"
    using replay_loop_sound [OF replay_reset_sound [OF new_replayer_ok]] replay_reset_sound [OF new_replayer_ok]
      replay_loop_distinct by (auto simp: replay_def Let_def split: option.split)
  then show "books_distinct rp" "books_reachable (books_of rp)" using assms by (simp_all add: replay_sound_def)
qed

section \<open>Adopting the books\<close>

definition fresh_server :: "RiskLimits \<Rightarrow> (nat option \<times> nat option) list \<Rightarrow> ExchangeServer" where
  "fresh_server limits faults = (new_server limits)\<lparr>sv_faults := faults\<rparr>"

lemma adopt_books:
  assumes "distinct (map fst books)" "\<forall>y\<in>fst ` set books. find_instrument sv y = None"
    and "fold adopt_book books (n, sv) = (n', sv')"
  shows "live_book sv' y = (case map_of books y of None \<Rightarrow> live_book sv y | Some b \<Rightarrow> b) \<and>
    owner_of sv' = owner_of sv \<and> sv_risk_engine sv' = sv_risk_engine sv \<and> sv_journal sv' = sv_journal sv"
  using assms
proof (induction books arbitrary: n sv)
  case (Cons p books)
  obtain z b where p: "p = (z, b)" by (cases p)
  obtain n1 sv1 where step: "adopt_book p (n, sv) = (n1, sv1)" by (metis surj_pair)
  have fresh: "find_instrument sv z = None" using Cons.prems(2) p by simp
  have sv1: "sv1 = set_instrument z \<lparr>in_book = b, in_order_owners = Map.empty\<rparr> (set_instrument z new_instrument sv)"
    using step fresh p by (auto simp: adopt_book_def instrument_for_def swap_books_def new_instrument_def)
  have none: "owner_of sv z = Map.empty" using fresh by (simp add: owner_of_def fun_eq_iff)
  have views: "live_book sv1 = (live_book sv)(z := b)" "owner_of sv1 = owner_of sv"
    "sv_risk_engine sv1 = sv_risk_engine sv" "sv_journal sv1 = sv_journal sv"
    using none by (auto simp: sv1 new_instrument_def fun_eq_iff)
  have "\<forall>y\<in>fst ` set books. find_instrument sv1 y = None"
    using Cons.prems(1,2) p by (auto simp: sv1)
  moreover have "distinct (map fst books)" "fold adopt_book books (n1, sv1) = (n', sv')"
    using Cons.prems(1,3) step by simp_all
  ultimately have IH: "live_book sv' y = (case map_of books y of None \<Rightarrow> live_book sv1 y | Some b \<Rightarrow> b) \<and>
    owner_of sv' = owner_of sv1 \<and> sv_risk_engine sv' = sv_risk_engine sv1 \<and> sv_journal sv' = sv_journal sv1"
    using Cons.IH by blast
  have "map_of books z = None" using Cons.prems(1) p by (simp add: map_of_eq_None_iff)
  then show ?case using IH views p by (cases "y = z") (simp_all split: option.split)
qed simp


lemma recover_from_journal_views:
  assumes "recover_from_journal file (fresh_server limits faults) = (True, sv)"
  shows "live_book sv = book_at (books_of (snd (replay (Some (file_contents file)) new_replayer)))"
    "owner_of sv = (\<lambda>_. Map.empty)" "sv_risk_engine sv = new_risk_engine limits" "sv_journal sv = None"
proof -
  let ?sv = "fresh_server limits faults"
  have new: "live_book ?sv = (\<lambda>_. new_book)" "owner_of ?sv = (\<lambda>_. Map.empty)"
    "sv_risk_engine ?sv = new_risk_engine limits" "sv_journal ?sv = None" "find_instrument ?sv = Map.empty"
    by (simp_all add: fresh_server_def new_server_def live_book_def owner_of_def find_instrument_def fun_eq_iff)
  have state: "live_book (s\<lparr>sv_recovery_state := x\<rparr>) = live_book s" "owner_of (s\<lparr>sv_recovery_state := x\<rparr>) = owner_of s"
    "find_instrument (s\<lparr>sv_recovery_state := x\<rparr>) = find_instrument s" for s x
    by (rule views_cong, simp)+ (rule ext, rule find_instrument_cong, simp)
  have empty: "book_at (books_of (snd (replay (Some []) new_replayer))) = (\<lambda>_. new_book)"
    by (simp add: replay_def replay_loop.simps record_length_size_def Let_def book_at_def fun_eq_iff)
  have "live_book sv = book_at (books_of (snd (replay (Some (file_contents file)) new_replayer))) \<and>
    owner_of sv = (\<lambda>_. Map.empty) \<and> sv_risk_engine sv = new_risk_engine limits \<and> sv_journal sv = None"
  proof (cases "\<exists>bytes. file = Contents bytes \<and> bytes \<noteq> []")
    case False
    then show ?thesis
      using assms empty new by (auto split: JournalFile.splits if_splits simp: recover_from_journal_def Let_def state replay_def)
  next
    case True
    then obtain bytes where bytes: "file = Contents bytes" "bytes \<noteq> []" by blast
    obtain ok rp where rp: "replay (Some bytes) new_replayer = (ok, rp)" by (metis surj_pair)
    let ?start = "(0, ?sv\<lparr>sv_recovery_state := new_recovery_state\<lparr>rs_attempted := True\<rparr>\<rparr>)"
    obtain n s where adopted: "fold adopt_book (rp_books rp) ?start = (n, s)" by (metis surj_pair)
    obtain x where sv: "sv = s\<lparr>sv_recovery_state := x\<rparr>"
      using assms bytes rp adopted
      by (auto simp: recover_from_journal_def Let_def release_order_books_def split: if_splits)
    have dist: "distinct (map fst (rp_books rp))"
      using replay_result(1) [OF rp] by (simp add: books_distinct_def)
    have absent: "\<forall>y\<in>fst ` set (rp_books rp).
        find_instrument (?sv\<lparr>sv_recovery_state := new_recovery_state\<lparr>rs_attempted := True\<rparr>\<rparr>) y = None"
      by (simp add: state new)
    show ?thesis
      using adopt_books [OF dist absent adopted] bytes rp
      by (auto simp: sv state new book_at_def books_of_def fun_eq_iff split: option.split)
  qed
  then show "live_book sv = book_at (books_of (snd (replay (Some (file_contents file)) new_replayer)))"
    "owner_of sv = (\<lambda>_. Map.empty)" "sv_risk_engine sv = new_risk_engine limits" "sv_journal sv = None"
    by blast+
qed

lemma start_server_views:
  assumes "start_server env (fresh_server limits faults) = (True, sv)"
  shows "live_book sv = book_at (books_of (snd (replay (Some (file_contents (se_file env))) new_replayer)))"
    "owner_of sv = (\<lambda>_. Map.empty)" "sv_risk_engine sv = new_risk_engine limits"
    "sv_journal sv = (if se_file env = Not_Configured then None
      else Some \<lparr>jr_open = True, jr_failed = False, jr_file = file_contents (se_file env)\<rparr>)"
proof -
  obtain ok s where rec: "recover_from_journal (se_file env) (fresh_server limits faults) = (ok, s)"
    by (metis surj_pair)
  have "\<not> sv_recovery_completed (fresh_server limits faults)" by (simp add: fresh_server_def new_server_def)
  note run = assms [unfolded start_server_def Let_def, simplified this rec if_False prod.case]
  have ok: ok using run by (auto split: if_splits)
  note views = recover_from_journal_views [OF rec [unfolded eqTrueI [OF ok]]]
  have same: "sv_instruments sv = sv_instruments s \<and> sv_risk_engine sv = sv_risk_engine s \<and>
    sv_journal sv = (if se_file env = Not_Configured then None
      else Some \<lparr>jr_open = True, jr_failed = False, jr_file = file_contents (se_file env)\<rparr>)"
    using run ok views(4)
    by (auto simp: open_server_journal_def open_journal_def split: if_splits sum.splits prod.splits)
  show "live_book sv = book_at (books_of (snd (replay (Some (file_contents (se_file env))) new_replayer)))"
    "owner_of sv = (\<lambda>_. Map.empty)" "sv_risk_engine sv = new_risk_engine limits"
    "sv_journal sv = (if se_file env = Not_Configured then None
      else Some \<lparr>jr_open = True, jr_failed = False, jr_file = file_contents (se_file env)\<rparr>)"
    using same views views_cong [of sv s] by auto
qed

lemma start_server_inv:
  assumes "start_server env (fresh_server limits faults) = (True, sv)"
  shows "server_inv sv"
proof -
  note views = start_server_views [OF assms]
  obtain ok rp where rp: "replay (Some (file_contents (se_file env))) new_replayer = (ok, rp)" by (metis surj_pair)
  have "reachable_book (live_book sv y)" for y
    using replay_result(2) [OF rp] reach_new
    by (auto simp: views(1) rp book_at_def books_reachable_def split: option.split)
  then show ?thesis
    by (simp add: server_inv_def views(2,3) mirrors_def mirror_def new_risk_engine_def)
qed

definition complete_journal :: "u8 list \<Rightarrow> bool" where
  "complete_journal bytes \<longleftrightarrow> (\<exists>ms. (\<forall>m\<in>set ms. message_size_ok m) \<and> bytes = concat (map frame ms))"

lemma replay_complete_file:
  assumes "\<forall>m\<in>set ms. message_size_ok m"
  shows "replay (Some (concat (map frame ms))) new_replayer = (True, count_symbols (replay_messages_from_scratch ms))"
proof -
  have "replay_loop [] rp = (True, count_symbols rp)" for rp
    by (subst replay_loop.simps) (simp add: record_length_size_def)
  then show ?thesis
    using replay_loop_frames [OF assms, of "[]" "replay_reset new_replayer"]
    by (simp add: replay_def replay_messages_from_scratch_def Let_def)
qed

lemma start_server_journaled:
  assumes "start_server env (fresh_server limits faults) = (True, sv)"
    and "complete_journal (file_contents (se_file env))"
  shows "journaled sv"
proof -
  obtain ms where ms: "\<forall>m\<in>set ms. message_size_ok m" "file_contents (se_file env) = concat (map frame ms)"
    using assms(2) by (auto simp: complete_journal_def)
  have "live_book sv = book_at (books_of (replay_messages_from_scratch ms))"
    using start_server_views(1) [OF assms(1)] replay_complete_file [OF ms(1)] ms(2) by simp
  then show ?thesis
    using start_server_views(4) [OF assms(1)] ms by (auto simp: journaled_def split: if_splits)
qed

end
