(* ===== verification/Server_Framing.thy ===== *)
theory Server_Framing
  imports Server_Invariants
begin

text \<open>
  The framing of the byte stream of a session: however the network cuts the stream into chunks, the
  messages in it are handled one by one in their order.
\<close>

fun handle_messages ::
    "(OrderId list \<Rightarrow> OrderId list) \<Rightarrow> int \<Rightarrow> (MessageHeader \<times> u8 list) list \<Rightarrow> TradeBuffer \<Rightarrow> ExchangeServer \<Rightarrow> handled" where
  "handle_messages hash_order socket [] trades sv = (Inr (), trades, sv)"
| "handle_messages hash_order socket ((header, body) # ms) trades sv =
     (case handle_message hash_order socket header body trades sv of
        (Inl e, trades, sv) \<Rightarrow> (Inl e, trades, sv)
      | (Inr _, trades, sv) \<Rightarrow> handle_messages hash_order socket ms trades sv)"

definition wire_message :: "MessageHeader \<times> u8 list \<Rightarrow> bool" where
  "wire_message m \<longleftrightarrow> header_valid (fst m) \<and> unat (hdr_body_size (fst m)) = length (snd m) \<and>
     length (snd m) \<le> maximum_body_size"

definition wire_bytes :: "MessageHeader \<times> u8 list \<Rightarrow> u8 list" where
  "wire_bytes m = encode_header (fst m) @ snd m"

text \<open>The beginning of a message that is still incomplete.\<close>

definition incomplete :: "u8 list \<Rightarrow> bool" where
  "incomplete bytes \<longleftrightarrow> (\<exists>m n. wire_message m \<and> n < length (wire_bytes m) \<and> bytes = take n (wire_bytes m))"

lemma wire_header_length [simp]: "wire_message m \<Longrightarrow> length (encode_header (fst m)) = header_size"
  by (simp add: wire_message_def header.enc_size)

lemma incomplete_Nil [simp]: "incomplete []"
proof -
  have "wire_message (\<lparr>hdr_magic = protocol_magic, hdr_version = protocol_version, hdr_type = MT_NewOrder,
      hdr_body_size = 0, hdr_sequence_number = 0\<rparr>, [])" (is "wire_message ?m")
    by (simp add: wire_message_def header_valid_def named_types_def)
  then show ?thesis
    using wire_header_length [of ?m] unfolding incomplete_def
    by (intro exI [of _ ?m] exI [of _ 0]) (auto simp: wire_bytes_def header_size_def simp del: wire_header_length)
qed

lemma process_incomplete:
  assumes "incomplete bytes"
  shows "process_receive_buffer h socket bytes trades sv = (Inr (), bytes, trades, sv)"
proof -
  obtain m n where m: "wire_message m" "n < length (wire_bytes m)" "bytes = take n (wire_bytes m)"
    using assms by (auto simp: incomplete_def)
  show ?thesis
  proof (cases "length bytes < header_size")
    case True
    then show ?thesis by (subst process_receive_buffer.simps) simp
  next
    case False
    then have n: "header_size \<le> n" using m by simp
    have "take header_size bytes = encode_header (fst m)" using m n by (simp add: wire_bytes_def)
    moreover have "decode_header (encode_header (fst m)) = Some (fst m)"
      using m(1) by (simp add: wire_message_def header.dec_enc)
    moreover have "length bytes < header_size + unat (hdr_body_size (fst m))"
      using m by (simp add: wire_bytes_def wire_message_def)
    ultimately show ?thesis
      using False m(1) by (subst process_receive_buffer.simps) (simp add: wire_message_def Let_def)
  qed
qed

lemma process_message:
  assumes m: "wire_message m"
  shows "process_receive_buffer h socket (wire_bytes m @ rest) trades sv =
    (case handle_message h socket (fst m) (snd m) trades sv of
       (Inl e, trades, sv) \<Rightarrow> (Inl e, wire_bytes m @ rest, trades, sv)
     | (Inr _, trades, sv) \<Rightarrow> process_receive_buffer h socket rest trades sv)"
proof -
  define input where "input = wire_bytes m @ rest"
  have header: "decode_header (encode_header (fst m)) = Some (fst m)" "length (encode_header (fst m)) = header_size"
    and body: "unat (hdr_body_size (fst m)) = length (snd m)" "length (snd m) \<le> maximum_body_size"
    using m by (simp_all add: wire_message_def header.dec_enc header.enc_size)
  have parts: "take header_size input = encode_header (fst m)" "drop (header_size + length (snd m)) input = rest"
    "take (length (snd m)) (drop header_size input) = snd m"
    "\<not> length input < header_size" "\<not> length input < header_size + length (snd m)"
    using header(2) by (simp_all add: input_def wire_bytes_def)
  show ?thesis
    unfolding input_def [symmetric]
    by (subst process_receive_buffer.simps) (use body(2) in \<open>auto simp: parts header body(1) Let_def split: sum.split prod.split\<close>)
qed

lemma process_messages:
  assumes "\<forall>m\<in>set ms. wire_message m" "incomplete rest"
  shows "case handle_messages h socket ms trades sv of
      (Inl e, t, s) \<Rightarrow> \<exists>left. process_receive_buffer h socket (concat (map wire_bytes ms) @ rest) trades sv = (Inl e, left, t, s)
    | (Inr _, t, s) \<Rightarrow> process_receive_buffer h socket (concat (map wire_bytes ms) @ rest) trades sv = (Inr (), rest, t, s)"
  using assms
proof (induction ms arbitrary: trades sv)
  case Nil
  then show ?case by (simp add: process_incomplete)
next
  case (Cons m ms)
  let ?input = "concat (map wire_bytes ms) @ rest"
  obtain r t s where step: "handle_message h socket (fst m) (snd m) trades sv = (r, t, s)" by (metis prod_cases3)
  obtain r2 t2 s2 where later: "handle_messages h socket ms t s = (r2, t2, s2)" by (metis prod_cases3)
  have m: "wire_message m" using Cons.prems by simp
  have eq: "handle_messages h socket (m # ms) trades sv =
      (case r of Inl e \<Rightarrow> (Inl e, t, s) | Inr _ \<Rightarrow> (r2, t2, s2))"
    using step later by (cases m) (simp split: sum.split)
  have run: "process_receive_buffer h socket (wire_bytes m @ ?input) trades sv =
      (case r of Inl e \<Rightarrow> (Inl e, wire_bytes m @ ?input, t, s) | Inr _ \<Rightarrow> process_receive_buffer h socket ?input t s)"
    using process_message [OF m, of h socket ?input trades sv] step by (simp split: sum.split)
  have "case r2 of Inl e \<Rightarrow> \<exists>left. process_receive_buffer h socket ?input t s = (Inl e, left, t2, s2)
    | Inr _ \<Rightarrow> process_receive_buffer h socket ?input t s = (Inr (), rest, t2, s2)"
    using Cons.IH [of t s] Cons.prems later by (cases r2) simp_all
  then show ?case using run eq by (cases r; cases r2) simp_all
qed

text \<open>Any prefix of a stream is some messages and the beginning of the next.\<close>

lemma stream_prefix:
  assumes "\<forall>m\<in>set ms. wire_message m" "incomplete tail" "bytes @ later = concat (map wire_bytes ms) @ tail"
  shows "\<exists>ms1 ms2 rest. ms = ms1 @ ms2 \<and> bytes = concat (map wire_bytes ms1) @ rest \<and> incomplete rest \<and>
    rest @ later = concat (map wire_bytes ms2) @ tail"
  using assms
proof (induction ms arbitrary: bytes)
  case Nil
  obtain m n where m: "wire_message m" "n < length (wire_bytes m)" "tail = take n (wire_bytes m)"
    using Nil.prems(2) by (auto simp: incomplete_def)
  have "bytes = take (length bytes) tail" using Nil.prems(3) by (metis append_eq_conv_conj concat.simps(1) list.map(1) append_Nil)
  then have "bytes = take (min (length bytes) n) (wire_bytes m)" using m(3) by (simp add: min_def)
  then have "incomplete bytes" using m unfolding incomplete_def
    by (intro exI [of _ m] exI [of _ "min (length bytes) n"]) simp
  then show ?case using Nil.prems(3) by simp
next
  case (Cons m ms)
  have m: "wire_message m" using Cons.prems(1) by simp
  show ?case
  proof (cases "length bytes < length (wire_bytes m)")
    case True
    have "bytes @ later = wire_bytes m @ concat (map wire_bytes ms) @ tail" using Cons.prems(3) by simp
    then have "bytes = take (length bytes) (wire_bytes m)"
      using True by (metis append_eq_conv_conj order_less_imp_le take_all_iff take_append diff_is_0_eq take0 append_Nil2)
    then have "incomplete bytes" using m True unfolding incomplete_def by blast
    then show ?thesis using Cons.prems(3)
      by (intro exI [of _ "[]"] exI [of _ "m # ms"] exI [of _ bytes]) simp
  next
    case False
    define bytes' where "bytes' = drop (length (wire_bytes m)) bytes"
    have eq: "bytes @ later = wire_bytes m @ concat (map wire_bytes ms) @ tail" using Cons.prems(3) by simp
    then have "take (length (wire_bytes m)) bytes = wire_bytes m"
      using False by (metis append_eq_conv_conj linorder_not_less take_all_iff take_append diff_is_0_eq' take0 append_Nil2)
    then have bytes: "bytes = wire_bytes m @ bytes'" using bytes'_def by (metis append_take_drop_id)
    have "bytes' @ later = concat (map wire_bytes ms) @ tail" using eq bytes by simp
    moreover have "\<forall>m\<in>set ms. wire_message m" using Cons.prems(1) by simp
    ultimately obtain ms1 ms2 rest where "ms = ms1 @ ms2" "bytes' = concat (map wire_bytes ms1) @ rest"
      "incomplete rest" "rest @ later = concat (map wire_bytes ms2) @ tail"
      using Cons.IH [OF _ Cons.prems(2)] by blast
    then show ?thesis using bytes
      by (intro exI [of _ "m # ms1"] exI [of _ ms2] exI [of _ rest]) simp
  qed
qed
lemma incomplete_no_message:
  assumes "incomplete (wire_bytes m @ others)" "wire_message m"
  shows False
proof -
  obtain m0 n where m0: "wire_message m0" "n < length (wire_bytes m0)" "wire_bytes m @ others = take n (wire_bytes m0)"
    using assms(1) by (auto simp: incomplete_def)
  then have n: "length (wire_bytes m) + length others = n"
    by (metis length_append length_take min.strict_order_iff min.commute)
  then have "header_size \<le> n" using wire_header_length [OF assms(2)] by (simp add: wire_bytes_def)
  then have "take header_size (take n (wire_bytes m0)) = encode_header (fst m0)"
    using m0(1) by (simp add: wire_bytes_def min_def)
  moreover have "take header_size (wire_bytes m @ others) = encode_header (fst m)"
    using assms(2) by (simp add: wire_bytes_def)
  ultimately have "encode_header (fst m) = encode_header (fst m0)" using m0(3) by simp
  then have "fst m = fst m0"
    using assms(2) m0(1) header.dec_enc by (metis option.inject wire_message_def)
  then have "length (wire_bytes m) = length (wire_bytes m0)"
    using assms(2) m0(1) wire_header_length by (simp add: wire_bytes_def wire_message_def)
  then show False using n m0(2) by simp
qed

lemma handle_message_running:
  assumes "handle_message h socket header body trades sv = (r, t, s)"
  shows "sv_running s = sv_running sv"
proof -
  have new: "sv_running s = sv_running sv" if "handle_new_order h socket header body trades sv = (r, t, s)" for r t s
    using that by (cases rule: handle_new_order_cases) (simp_all add: undisturbed_def)
  have replace: "sv_running s = sv_running sv" if "handle_replace_order h socket header body trades sv = (r, t, s)" for r t s
    using that by (cases rule: handle_replace_order_cases) (simp_all add: undisturbed_def)
  have cancel: "sv_running s = sv_running sv" if "handle_cancel_order socket header body sv = (r, s)" for r s
    using that by (cases rule: handle_cancel_order_cases) (simp_all add: undisturbed_def)
  show ?thesis
    using assms new replace cancel by (auto simp: handle_message_def split: MessageType.splits prod.splits)
qed

lemma handle_messages_running:
  "handle_messages h socket ms trades sv = (r, t, s) \<Longrightarrow> sv_running s = sv_running sv"
proof (induction ms arbitrary: trades sv)
  case (Cons m ms)
  obtain r1 t1 s1 where step: "handle_message h socket (fst m) (snd m) trades sv = (r1, t1, s1)" by (metis prod_cases3)
  then have "sv_running s1 = sv_running sv" by (rule handle_message_running)
  then show ?case using Cons step by (cases m; cases r1) auto
qed simp

lemma handle_messages_append:
  "handle_messages h socket (ms1 @ ms2) trades sv =
     (case handle_messages h socket ms1 trades sv of
        (Inl e, t, s) \<Rightarrow> (Inl e, t, s)
      | (Inr _, t, s) \<Rightarrow> handle_messages h socket ms2 t s)"
proof (induction ms1 arbitrary: trades sv)
  case (Cons m ms1)
  obtain r1 t1 s1 where "handle_message h socket (fst m) (snd m) trades sv = (r1, t1, s1)" by (metis prod_cases3)
  then show ?case using Cons.IH by (cases m; cases r1) auto
qed simp

lemma receive_loop_messages:
  assumes "\<forall>m\<in>set ms. wire_message m" "incomplete buffer" "incomplete tail" "[] \<notin> set chunks" "sv_running sv"
    and "buffer @ concat chunks = concat (map wire_bytes ms) @ tail"
  shows "case handle_messages h socket ms trades sv of
      (Inl e, t, s) \<Rightarrow> \<exists>left. receive_loop h socket chunks buffer trades sv = (Inl e, left, t, s)
    | (Inr _, t, s) \<Rightarrow> receive_loop h socket chunks buffer trades sv = (Inr (), tail, t, s)"
  using assms
proof (induction chunks arbitrary: ms buffer trades sv)
  case Nil
  have "ms = []"
  proof (cases ms)
    case (Cons m ms')
    then show ?thesis using Nil.prems incomplete_no_message [of m "concat (map wire_bytes ms') @ tail"] by simp
  qed simp
  then show ?case using Nil.prems(6) by simp
next
  case (Cons bytes chunks)
  have "(buffer @ bytes) @ concat chunks = concat (map wire_bytes ms) @ tail" using Cons.prems(6) by simp
  from stream_prefix [OF Cons.prems(1,3) this] obtain ms1 ms2 rest where split: "ms = ms1 @ ms2"
    "buffer @ bytes = concat (map wire_bytes ms1) @ rest" "incomplete rest"
    "rest @ concat chunks = concat (map wire_bytes ms2) @ tail"
    by blast
  obtain r1 t1 s1 where first: "handle_messages h socket ms1 trades sv = (r1, t1, s1)" by (metis prod_cases3)
  have ms1: "\<forall>m\<in>set ms1. wire_message m" and ms2: "\<forall>m\<in>set ms2. wire_message m" using Cons.prems(1) split(1) by auto
  have nonempty: "bytes \<noteq> []" "[] \<notin> set chunks" using Cons.prems(4) by auto
  have running: "sv_running s1" using handle_messages_running [OF first] Cons.prems(5) by simp
  note processed = process_messages [OF ms1 split(3), of h socket trades sv, folded split(2), unfolded first prod.case]
  show ?case
  proof (cases r1)
    case (Inl e)
    then obtain left where "process_receive_buffer h socket (buffer @ bytes) trades sv = (Inl e, left, t1, s1)"
      using processed by auto
    then show ?thesis using Inl first nonempty Cons.prems(5) by (simp add: split(1) handle_messages_append)
  next
    case (Inr u)
    then have "process_receive_buffer h socket (buffer @ bytes) trades sv = (Inr (), rest, t1, s1)"
      using processed by simp
    then have loop: "receive_loop h socket (bytes # chunks) buffer trades sv = receive_loop h socket chunks rest t1 s1"
      using nonempty Cons.prems(5) by simp
    have msgs: "handle_messages h socket ms trades sv = handle_messages h socket ms2 t1 s1"
      using first Inr by (simp add: split(1) handle_messages_append)
    show ?thesis
      unfolding loop msgs by (rule Cons.IH [OF ms2 split(3) Cons.prems(3) nonempty(2) running split(4)])
  qed
qed


end
