(* ===== verification/Server_Properties.thy ===== *)
theory Server_Properties
  imports Server_Recovery Server_Framing
begin

text \<open>
  The properties of the exchange server: restart rebuilds the books from the journal, the risk
  ledger is exact against the books, requests on foreign orders and requests under the kill switch
  change nothing, handlers fail only for stated causes, and the framing of a session is
  independent of how the network cuts the stream.
\<close>

section \<open>A sample server\<close>

definition sample_env :: StartEnvironment where
  "sample_env = \<lparr>se_file = Contents [], se_journal_opens = True, se_multicast_configured = False,
     se_multicast_starts = False, se_listens = True\<rparr>"

text \<open>The argument of the sample servers says what happens to the coming journal writes.\<close>

definition sample_started :: "(nat option \<times> nat option) list \<Rightarrow> ExchangeServer" where
  "sample_started faults = snd (start_server sample_env (fresh_server default_limits faults))"

abbreviation sample_server :: ExchangeServer where
  "sample_server \<equiv> sample_started []"

lemma sample_started_ok:
  "start_server sample_env (fresh_server default_limits faults) = (True, sample_started faults)"
proof -
  have "fst (start_server sample_env (fresh_server default_limits faults))" by code_simp
  then show ?thesis unfolding sample_started_def by (metis prod.collapse)
qed

lemmas sample_server_started = sample_started_ok [of "[]"]

lemma sample_started_fields:
  "sv_faults (sample_started faults) = faults" "sv_running (sample_started faults)"
  "sv_next_risk_client_id (sample_started faults) = 1"
  by code_simp+

lemma sample_complete: "complete_journal (file_contents (se_file sample_env))"
  by (auto simp: sample_env_def complete_journal_def intro!: exI [of _ "[]"])

text \<open>Session 7 connects and enters a buy order, which rests.\<close>

definition sample_connected :: "(nat option \<times> nat option) list \<Rightarrow> ExchangeServer" where
  "sample_connected faults = snd (register_client 7 (sample_started faults))"

abbreviation sample_session :: ExchangeServer where
  "sample_session \<equiv> sample_connected []"

definition sample_buy :: NewOrderRequest where
  "sample_buy = \<lparr>nor_order_id = 1, nor_timestamp = 1, nor_price = 100, nor_quantity = 5,
     nor_side = PBuy, nor_order_type = PLimit, nor_time_in_force = PGoodTillCancel, nor_symbol = default_symbol\<rparr>"

definition sample_header :: MessageHeader where
  "sample_header = header_for MT_NewOrder new_order_body_size 1"

lemma sample_buy_valid: "new_order_valid sample_buy"
  by (simp add: sample_buy_def new_order_valid_def is_int64_def)

lemma sample_symbol: "symbol_to_string default_symbol = ''TEST''"
  by code_simp

lemma sample_connected_run: "server_run (sample_started faults) (sample_connected faults)"
  unfolding sample_connected_def by (rule run_connect [OF run_start]) (rule prod.collapse [symmetric])

lemmas sample_session_run = sample_connected_run [of "[]"]

lemma sample_connected_views:
  "live_book (sample_connected faults) = (\<lambda>_. new_book)" "owner_of (sample_connected faults) = (\<lambda>_. Map.empty)"
  "sv_risk_engine (sample_connected faults) = new_risk_engine default_limits"
  "sv_journal (sample_connected faults) = Some \<lparr>jr_open = True, jr_failed = False, jr_file = []\<rparr>"
  "risk_client_id_for_socket (sample_connected faults) 7 = 1" "sv_faults (sample_connected faults) = faults"
proof -
  note start = start_server_views [OF sample_started_ok]
  have "book_at (books_of (snd (replay (Some []) new_replayer))) = (\<lambda>_. new_book)"
    using replay_complete_file [of "[]"] by (simp add: replay_messages_from_scratch_def book_at_def fun_eq_iff)
  then have live: "live_book (sample_started faults) = (\<lambda>_. new_book)" using start(1) by (simp add: sample_env_def)
  have session: "register_client 7 (sample_started faults) =
      (fst (register_client 7 (sample_started faults)), sample_connected faults)"
    by (simp add: sample_connected_def)
  note same = session_steps_undisturbed(1) [OF session]
  show "live_book (sample_connected faults) = (\<lambda>_. new_book)" "owner_of (sample_connected faults) = (\<lambda>_. Map.empty)"
    "sv_risk_engine (sample_connected faults) = new_risk_engine default_limits"
    "sv_journal (sample_connected faults) = Some \<lparr>jr_open = True, jr_failed = False, jr_file = []\<rparr>"
    using same live start [of faults] by (simp_all add: sample_env_def)
  show "sv_faults (sample_connected faults) = faults" "risk_client_id_for_socket (sample_connected faults) 7 = 1"
    using sample_started_fields
    by (simp_all add: sample_connected_def register_client_def risk_client_id_for_socket_def Let_def)
qed

lemmas sample_session_views = sample_connected_views [of "[]"]

lemma sample_healthy: "journal_healthy (sample_connected faults) \<longleftrightarrow> faults = []"
  by (auto simp: journal_healthy_def sample_connected_views)

lemma sample_buy_admitted:
  assumes "live_book sv = (\<lambda>_. new_book)" "owner_of sv = (\<lambda>_. Map.empty)"
    and "sv_risk_engine sv = new_risk_engine default_limits" "risk_client_id_for_socket sv 7 = 1"
  shows "new_order_admitted sv 7 sample_header (encode_new_order sample_buy) sample_buy"
proof -
  have "unat (hdr_body_size sample_header) = new_order_body_size" by code_simp
  moreover have "nor_quantity sample_buy \<le> maximum_quantity" by code_simp
  moreover have "symbol_to_string (nor_symbol sample_buy) = ''TEST''" by code_simp
  moreover have "reference_price_of sv sample_buy = Inr None"
    by (simp add: reference_price_of_def server_order_def sample_buy_def)
  moreover have "accepted (check_new_order (new_risk_engine default_limits) (risk_request_of sv 7 sample_buy None))"
    unfolding risk_request_of_def assms(4) by code_simp
  ultimately show ?thesis
    using new_order.dec_enc [OF sample_buy_valid] by (simp add: new_order_admitted_def assms)
qed

lemma sample_admitted:
  "new_order_admitted (sample_connected faults) 7 sample_header (encode_new_order sample_buy) sample_buy"
  by (rule sample_buy_admitted) (rule sample_connected_views)+

lemma sample_session_inv: "server_inv sample_session"
  using server_run_inv [OF sample_session_run] start_server_inv [OF sample_server_started] .

lemma append_journal_record_no_faults:
  "append_journal_record header body sv = (r, sv') \<Longrightarrow> sv_faults sv = [] \<Longrightarrow> sv_faults sv' = []"
  by (auto simp: append_journal_record_def Let_def split: option.splits prod.splits)

lemma enter_new_order_no_faults:
  assumes "enter_new_order h socket header body request trades sv = (r, t, sv')" "sv_faults sv = []"
  shows "sv_faults sv' = []"
proof -
  obtain inst sv1 where i: "instrument_for (symbol_to_string (nor_symbol request)) sv = (inst, sv1)" by (metis surj_pair)
  obtain rj sv2 where j: "append_journal_record header body sv1 = (rj, sv2)" by (metis surj_pair)
  have "sv_faults sv1 = []" "sv_faults sv2 = []"
    using instrument_for_eq [OF i] append_journal_record_no_faults [OF j] assms(2) by auto
  then show ?thesis
    using assms(1) i j by (auto simp: enter_new_order_def Let_def split: if_splits sum.splits prod.splits)
qed

lemma sample_entered:
  obtains t sv where
    "handle_message id 7 sample_header (encode_new_order sample_buy) default_trade_buffer sample_session = (Inr (), t, sv)"
    "find_order (live_book sv ''TEST'') 1 \<noteq> None"
    "owner_of sv ''TEST'' 1 = Some \<lparr>ow_socket = 7, ow_risk_client_id = 1\<rparr>"
    "journal_healthy sv" "book_exact (live_book sv ''TEST'')"
proof -
  obtain r t sv where res: "handle_new_order id 7 sample_header (encode_new_order sample_buy)
      default_trade_buffer sample_session = (r, t, sv)"
    by (metis prod_cases3)
  have msg: "handle_message id 7 sample_header (encode_new_order sample_buy) default_trade_buffer sample_session = (r, t, sv)"
    using res by (simp add: handle_message_def sample_header_def header_for_def)
  from res show thesis
  proof (cases rule: handle_new_order_cases)
    case rejected
    then show thesis using sample_admitted by blast
  next
    case (no_reference_price side y e)
    then show thesis using market_reference_price_ok [of side] by (metis Inl_Inr_False)
  next
    case (journal_failed e request)
    then show thesis using sample_healthy by blast
  next
    case (entered request book res)
    have request: "request = sample_buy" using entered(2) new_order.dec_enc [OF sample_buy_valid] by simp
    have sym: "symbol_to_string (nor_symbol sample_buy) = ''TEST''" by code_simp
    have "fst (process_order_into new_book (server_order sample_buy) default_trade_buffer) = Inr ()"
      "find_order (fst (snd (process_order_into new_book (server_order sample_buy) default_trade_buffer))) 1 \<noteq> None"
      by code_simp+
    then have run: "res = Inr ()" "find_order book 1 \<noteq> None"
      using entered(8) by (auto simp: sample_session_views request)
    have "r = Inr ()" using entered(13) run(1) capture_book_snapshot_ok [of "nor_symbol request" book] by auto
    moreover have "find_order (live_book sv ''TEST'') 1 \<noteq> None"
      using entered(9) run(2) by (simp add: request sym)
    moreover have "owner_of sv ''TEST'' 1 = Some \<lparr>ow_socket = 7, ow_risk_client_id = 1\<rparr>"
      using entered(12) [OF run(1)] run(2)
      by (auto simp: request sym sample_symbol sample_session_views Let_def settle_fills_def sample_buy_def)
    moreover have "book_exact (live_book sv ''TEST'')"
    proof -
      have "asks (fst (snd (process_order_into new_book (server_order sample_buy) default_trade_buffer))) = []"
        "map (\<lambda>e. open_quantity (level_orders (snd e)))
          (bids (fst (snd (process_order_into new_book (server_order sample_buy) default_trade_buffer)))) = [5]"
        by code_simp+
      then have "book_exact (fst (snd (process_order_into new_book (server_order sample_buy) default_trade_buffer)))"
        by (auto simp: book_exact_def level_exact_def)
      then show ?thesis using entered(8,9) by (simp add: sample_session_views request sym)
    qed
    moreover have "journal_healthy sv"
    proof -
      have "\<not> maximum_quantity < nor_quantity request" using entered(3) by (simp add: not_less)
      then have "enter_new_order id 7 sample_header (encode_new_order sample_buy) request
          default_trade_buffer sample_session = (r, t, sv)"
        using res entered(1,2,4) by (simp add: handle_new_order_def)
      then have "sv_faults sv = []" by (rule enter_new_order_no_faults) (rule sample_session_views(6))
      then show ?thesis
        using entered(7) journal_append_ok by (fastforce simp: journal_step_def journal_healthy_def sample_session_views)
    qed
    ultimately show thesis using that msg by blast
  qed
qed

lemma sample_resting_run:
  obtains sv where "server_run sample_server sv" "find_order (live_book sv ''TEST'') 1 \<noteq> None"
    "owner_of sv ''TEST'' 1 = Some \<lparr>ow_socket = 7, ow_risk_client_id = 1\<rparr>" "sv_journal sv \<noteq> None"
    "journal_healthy sv" "book_exact (live_book sv ''TEST'')"
    "risk_client_id_for_socket sv 7 = 1"
proof -
  obtain t sv where res:
    "handle_message id 7 sample_header (encode_new_order sample_buy) default_trade_buffer sample_session = (Inr (), t, sv)"
    "find_order (live_book sv ''TEST'') 1 \<noteq> None"
    "owner_of sv ''TEST'' 1 = Some \<lparr>ow_socket = 7, ow_risk_client_id = 1\<rparr>"
    "journal_healthy sv" "book_exact (live_book sv ''TEST'')"
    by (rule sample_entered)
  have header: "decode_header (encode_header sample_header) = Some sample_header"
    using encode_valid_header(1) [of MT_NewOrder] by (simp add: sample_header_def named_types_def)
  have "unat (hdr_body_size sample_header) = new_order_body_size" by code_simp
  then have len: "length (encode_new_order sample_buy) = unat (hdr_body_size sample_header)"
    using new_order.enc_size [OF sample_buy_valid] by simp
  have run: "server_run sample_server sv"
    by (rule run_message [OF sample_session_run header len _ res(1)]) simp
  have new: "handle_new_order id 7 sample_header (encode_new_order sample_buy) default_trade_buffer sample_session =
      (Inr (), t, sv)"
    using res(1) by (simp add: handle_message_def sample_header_def header_for_def)
  have "sv_journal sv \<noteq> None"
    using new sample_session_views(4)
    by (cases rule: handle_new_order_cases) (auto simp: journal_step_def)
  moreover have "sv_client_risk_ids sv = sv_client_risk_ids sample_session"
    using new by (cases rule: handle_new_order_cases) (simp_all add: undisturbed_def)
  then have "risk_client_id_for_socket sv 7 = 1"
    using sample_session_views(5) by (simp add: risk_client_id_for_socket_def)
  ultimately show thesis using that run res by blast
qed

section \<open>Restart\<close>

text \<open>
  C3. A restart loses no order. Start a server on a journal of complete records, let it run with the journal open through
  any sessions and messages whose handlers return (a handler that throws ends the process), and start another server on
  the journal file it leaves: recovery succeeds and every symbol has exactly the book of the live server, whatever the
  risk limits of the new server are. (C22 and C37 state what a record torn by a crash does.)
\<close>

theorem restart_rebuilds_books:
  assumes "start_server env (fresh_server limits faults) = (True, sv0)"
    and "complete_journal (file_contents (se_file env))"
    and "server_run sv0 sv" "sv_journal sv = Some j"
  shows "\<exists>sv'. recover_from_journal (Contents (jr_file j)) (fresh_server limits' faults') = (True, sv') \<and>
    live_book sv' = live_book sv"
proof -
  have "journaled sv"
    using server_run_journaled [OF assms(3) start_server_inv [OF assms(1)] start_server_journaled [OF assms(1,2)]] .
  then obtain ms where ms: "\<forall>m\<in>set ms. message_size_ok m" "jr_file j = concat (map frame ms)"
    "book_at (books_of (replay_messages_from_scratch ms)) = live_book sv"
    using assms(4) by (auto simp: journaled_def)
  have rp: "replay (Some (jr_file j)) new_replayer = (True, count_symbols (replay_messages_from_scratch ms))"
    using replay_complete_file [OF ms(1)] ms(2) by simp
  have "fst (recover_from_journal (Contents (jr_file j)) (fresh_server limits' faults'))"
    using rp by (auto simp: recover_from_journal_def Let_def split: prod.split)
  then obtain sv' where "recover_from_journal (Contents (jr_file j)) (fresh_server limits' faults') = (True, sv')"
    by (metis prod.collapse)
  then show ?thesis
    using recover_from_journal_views(1) rp ms(3) by fastforce
qed

theorem restart_rebuilds_books_witness:
  "\<exists>sv j sv'. sv_journal sv = Some j \<and> find_order (live_book sv ''TEST'') 1 \<noteq> None \<and>
    recover_from_journal (Contents (jr_file j)) (fresh_server default_limits []) = (True, sv') \<and>
    live_book sv' = live_book sv"
proof -
  obtain sv where sv: "server_run sample_server sv" "find_order (live_book sv ''TEST'') 1 \<noteq> None"
    "sv_journal sv \<noteq> None"
    by (rule sample_resting_run)
  then obtain j where j: "sv_journal sv = Some j" by auto
  show ?thesis
    using restart_rebuilds_books [OF sample_server_started sample_complete sv(1) j, of default_limits "[]"] sv(2) j
    by blast
qed

section \<open>The ledger\<close>

text \<open>
  C4. The risk engine's ledger is the book. In every state of a run a working order of client
  \<open>c\<close> is in the risk engine exactly when an order of that symbol and id rests in the book
  and its owner has that client id, and it then has the side, the price and the remaining quantity
  of the resting order. So the open quantities and order counts the limits are checked against are those of the
  orders that really rest.
\<close>

theorem ledger_mirrors_books:
  assumes "start_server env (fresh_server limits faults) = (True, sv0)" "server_run sv0 sv"
  shows "re_working_orders (sv_risk_engine sv) \<lparr>wk_client_id = c, wk_symbol = y, wk_order_id = i\<rparr> = Some w \<longleftrightarrow>
    c \<noteq> invalid_risk_client_id \<and>
    (\<exists>x socket. find_order (live_book sv y) i = Some x \<and>
      owner_of sv y i = Some \<lparr>ow_socket = socket, ow_risk_client_id = c\<rparr> \<and>
      w = \<lparr>wo_side = ord_side x, wo_price = ord_price x, wo_remaining_quantity = ord_remaining x\<rparr>)"
proof -
  have "server_inv sv" using server_run_inv [OF assms(2) start_server_inv [OF assms(1)]] .
  from mirrorsD [OF server_invD(4) [OF this], of c y i] show ?thesis
    by (auto simp: mirror_def working_of_def split: option.splits) (metis OrderOwner.surjective unit.exhaust)
qed

theorem ledger_mirrors_books_witness:
  "\<exists>sv x. find_order (live_book sv ''TEST'') 1 = Some x \<and>
    re_working_orders (sv_risk_engine sv) \<lparr>wk_client_id = 1, wk_symbol = ''TEST'', wk_order_id = 1\<rparr> =
      Some \<lparr>wo_side = ord_side x, wo_price = ord_price x, wo_remaining_quantity = ord_remaining x\<rparr>"
proof -
  obtain sv where sv: "server_run sample_server sv" "find_order (live_book sv ''TEST'') 1 \<noteq> None"
    "owner_of sv ''TEST'' 1 = Some \<lparr>ow_socket = 7, ow_risk_client_id = 1\<rparr>"
    by (rule sample_resting_run)
  then obtain x where "find_order (live_book sv ''TEST'') 1 = Some x" by auto
  then show ?thesis
    using ledger_mirrors_books [OF sample_server_started sv(1), of 1 "''TEST''" 1] sv(3)
    by (auto simp: invalid_risk_client_id_def)
qed

section \<open>Admission\<close>

text \<open>
  C5. New orders are admitted exactly. In every state that a started server reaches through sessions and messages whose
  handlers returned, a new-order message ends in one of three ways. When it does not decode, exceeds the 32-bit quantity,
  names no symbol, uses an id that is taken or fails the risk checks, one rejection is sent, nothing else, and books,
  owners, risk state and journal stay as they are. Otherwise it is processed by the matching engine and confirmed
  first; or, only when the journal cannot be written, the handler throws, with nothing sent and nothing changed.
\<close>

theorem new_order_admission:
  assumes "start_server env (fresh_server limits faults) = (True, sv0)" "server_run sv0 sv"
    and "hdr_type header = MT_NewOrder" "tb_wf trades"
    and "handle_message hash_order socket header body trades sv = (r, trades', sv')"
  shows "if \<exists>request. new_order_admitted sv socket header body request
    then
      (r = Inr () \<and> (\<exists>request. new_order_admitted sv socket header body request \<and>
         confirms MT_OrderAccepted (nor_order_id request) socket sv sv' \<and>
         live_book sv' = (live_book sv)(symbol_to_string (nor_symbol request) :=
           snd (process_order (live_book sv (symbol_to_string (nor_symbol request))) (server_order request)))) \<or>
       (\<exists>e. r = Inl e) \<and> \<not> journal_healthy sv \<and> undisturbed sv sv' \<and> sv_sent sv' = sv_sent sv)
    else r = Inr () \<and> undisturbed sv sv' \<and> sv_journal sv' = sv_journal sv \<and> rejects socket sv sv'"
proof -
  have inv: "server_inv sv" using server_run_inv [OF assms(2) start_server_inv [OF assms(1)]] .
  have "handle_new_order hash_order socket header body trades sv = (r, trades', sv')"
    using assms(3,5) by (simp add: handle_message_def)
  then show ?thesis
  proof (cases rule: handle_new_order_cases)
    case rejected
    then show ?thesis by auto
  next
    case (no_reference_price side y e)
    then show ?thesis using market_reference_price_ok [of side "live_book sv y"] by simp
  next
    case (journal_failed e request)
    then show ?thesis by auto
  next
    case (entered request book res)
    let ?y = "symbol_to_string (nor_symbol request)"
    have "ord_remaining (server_order request) \<noteq> 0"
      using entered(2,3) new_order.dec_valid [of body request]
      by (simp add: ucast_quantity_nonzero new_order_valid_def)
    then have "res = Inr ()"
      using process_order_into_fills [OF server_invD(2) [OF inv, of ?y] assms(4), of "server_order request"] entered(5,8)
      by auto
    then have r: "r = Inr ()"
      using entered(13) capture_book_snapshot_ok [of "nor_symbol request" book] by auto
    have "snd (process_order (live_book sv ?y) (server_order request)) = book"
      using process_order_into_process_order(1) [OF assms(4) entered(8)] by simp
    then show ?thesis using r entered(9,14,15) by auto
  qed
qed

theorem new_order_admission_witness:
  "\<exists>t sv. handle_message id 7 sample_header (encode_new_order sample_buy) default_trade_buffer sample_session =
     (Inr (), t, sv) \<and> confirms MT_OrderAccepted 1 7 sample_session sv"
proof -
  obtain r t sv where res:
    "handle_message id 7 sample_header (encode_new_order sample_buy) default_trade_buffer sample_session = (r, t, sv)"
    by (metis prod_cases3)
  have type: "hdr_type sample_header = MT_NewOrder" by (simp add: sample_header_def header_for_def)
  have only: "new_order_admitted sample_session 7 sample_header (encode_new_order sample_buy) q \<Longrightarrow> q = sample_buy" for q
    using sample_admitted by (simp add: new_order_admitted_def)
  note answer = new_order_admission
    [OF sample_server_started sample_session_run type tb_wf_default res]
  then obtain q where q: "new_order_admitted sample_session 7 sample_header (encode_new_order sample_buy) q"
    "confirms MT_OrderAccepted (nor_order_id q) 7 sample_session sv"
    using sample_admitted sample_healthy [THEN iffD2, OF refl] by (auto split: if_splits)
  moreover have "nor_order_id q = 1" using only [OF q(1)] by (simp add: sample_buy_def)
  ultimately show ?thesis
    using answer res sample_admitted sample_healthy [THEN iffD2, OF refl] by (auto split: if_splits)
qed
section \<open>Failures\<close>

text \<open>
  C15. A handler fails only for a stated cause. In every state of a run a message either is handled to the end, or the journal
  write failed and books, owners and risk state are as before, or it was a cancel or a replace that met
  a price level whose 32-bit total had wrapped; then too the books are as before.
\<close>

theorem handler_failures:
  assumes "start_server env (fresh_server limits faults) = (True, sv0)" "server_run sv0 sv" "tb_wf trades"
    and "handle_message hash_order socket header body trades sv = (Inl e, trades', sv')"
  shows "(\<not> journal_healthy sv \<and> undisturbed sv sv') \<or>
    (e = Logic_Error ''Price level quantity is inconsistent'' \<and>
      hdr_type header \<in> {MT_CancelOrder, MT_ReplaceOrder} \<and> (\<exists>y. \<not> book_exact (live_book sv y)) \<and>
      live_book sv' = live_book sv)"
proof -
  have "server_inv sv" using server_run_inv [OF assms(2) start_server_inv [OF assms(1)]] .
  from handle_message_inv [OF this assms(3,4)] show ?thesis by (auto simp: handler_end_def)
qed

lemma admitted_journal_fails:
  assumes "new_order_admitted sv socket header body request"
    and "instrument_for (symbol_to_string (nor_symbol request)) sv = (inst, sv1)"
    and "append_journal_record header body sv1 = (Inl e, sv2)"
  shows "handle_new_order hash_order socket header body trades sv = (Inl e, trades, sv2)"
proof -
  note views = instrument_for_views(1) [OF assms(2)] and eq = instrument_for_eq [OF assms(2)]
  obtain price where price: "reference_price_of sv request = Inr price"
    "accepted (check_new_order (sv_risk_engine sv) (risk_request_of sv socket request price))"
    using assms(1) by (auto simp: new_order_admitted_def)
  note adm = assms(1) [unfolded new_order_admitted_def]
  have risk1: "sv_risk_engine sv1 = sv_risk_engine sv" using eq by blast
  have "enter_new_order hash_order socket header body request trades sv = (Inl e, trades, sv2)"
    unfolding enter_new_order_def Let_def assms(2) prod.case views InstrumentState.select_convs
      reference_price_of_def [symmetric] risk1 price(1) sum.case risk_request_of_def [symmetric]
    using adm price(2) assms(3) by simp
  moreover have "\<not> maximum_quantity < nor_quantity request" using adm by (simp add: not_less)
  ultimately show ?thesis using adm by (simp add: handle_new_order_def)
qed

theorem handler_failures_witness:
  "\<exists>e t sv. handle_message id 7 sample_header (encode_new_order sample_buy) default_trade_buffer
      (sample_connected [(Some 0, None)]) = (Inl e, t, sv) \<and> undisturbed (sample_connected [(Some 0, None)]) sv"
proof -
  let ?sv = "sample_connected [(Some 0, None)]"
  obtain inst sv1 where i: "instrument_for ''TEST'' ?sv = (inst, sv1)" by (metis surj_pair)
  have "length (encode_new_order sample_buy) = 43"
    using new_order.enc_size [OF sample_buy_valid] by (simp add: new_order_body_size_def)
  then have "length (encode_header sample_header @ encode_new_order sample_buy) = 63"
    by (simp add: length_encode_header header_size_def)
  then have "journal_append (encode_header sample_header @ encode_new_order sample_buy) (Some 0) None
      \<lparr>jr_open = True, jr_failed = False, jr_file = []\<rparr> =
      (Inl (Runtime_Error ''Failed to write and flush journal record''),
       \<lparr>jr_open = True, jr_failed = True, jr_file = []\<rparr>)"
    by (auto simp: journal_append_def stream_write_def Let_def)
  then obtain sv2 where app: "append_journal_record sample_header (encode_new_order sample_buy) sv1 =
      (Inl (Runtime_Error ''Failed to write and flush journal record''), sv2)"
    using instrument_for_eq [OF i] by (auto simp: append_journal_record_def sample_connected_views)
  have "symbol_to_string (nor_symbol sample_buy) = ''TEST''" by code_simp
  then have "handle_message id 7 sample_header (encode_new_order sample_buy) default_trade_buffer ?sv =
      (Inl (Runtime_Error ''Failed to write and flush journal record''), default_trade_buffer, sv2)"
    using admitted_journal_fails [OF sample_admitted _ app] i
    by (simp add: handle_message_def) (simp add: sample_header_def header_for_def)
  moreover have "hdr_type sample_header \<notin> {MT_CancelOrder, MT_ReplaceOrder}"
    by (simp add: sample_header_def header_for_def)
  ultimately show ?thesis
    using handler_failures [OF sample_started_ok sample_connected_run tb_wf_default] by blast
qed

section \<open>Foreign orders and the kill switch\<close>

definition request_target :: "MessageHeader \<Rightarrow> u8 list \<Rightarrow> (string \<times> OrderId) option" where
  "request_target header body =
     (case hdr_type header of
        MT_CancelOrder \<Rightarrow> map_option (\<lambda>c. (symbol_to_string (cor_symbol c), cor_order_id c)) (decode_cancel_order body)
      | MT_ReplaceOrder \<Rightarrow> map_option (\<lambda>c. (symbol_to_string (ror_symbol c), ror_order_id c)) (decode_replace_order body)
      | _ \<Rightarrow> None)"

text \<open>
  C6. Nobody touches a foreign order. A cancel or replace request whose target does not belong to the session
  that sends it, with both its socket and its risk session, gets one rejection; no book, owner,
  working order or journal record changes. In particular this holds for orders recovered from the
  journal, which have no owner.
\<close>

theorem foreign_requests_change_nothing:
  assumes "hdr_type header \<in> {MT_CancelOrder, MT_ReplaceOrder}"
    and "\<And>y i. request_target header body = Some (y, i) \<Longrightarrow>
      owner_of sv y i \<noteq> Some \<lparr>ow_socket = socket, ow_risk_client_id = risk_client_id_for_socket sv socket\<rparr>"
    and "handle_message hash_order socket header body trades sv = (r, trades', sv')"
  shows "r = Inr () \<and> undisturbed sv sv' \<and> sv_journal sv' = sv_journal sv \<and> rejects socket sv sv'"
proof (cases "hdr_type header = MT_CancelOrder")
  case True
  have no: "\<not> cancel_admitted sv socket header body request" for request
    using assms(2) True by (auto simp: cancel_admitted_def request_target_def)
  have "handle_cancel_order socket header body sv = (r, sv')"
    using assms(3) True by (auto simp: handle_message_def split: prod.splits)
  then show ?thesis
  proof (cases rule: handle_cancel_order_cases)
    case (entered request book res)
    then show ?thesis using no [of request] by (simp add: cancel_admitted_def)
  qed (use no in blast)+
next
  case False
  then have type: "hdr_type header = MT_ReplaceOrder" using assms(1) by simp
  have no: "\<not> replace_admitted sv socket header body request" for request
    using assms(2) type by (auto simp: replace_admitted_def request_target_def)
  have "handle_replace_order hash_order socket header body trades sv = (r, trades', sv')"
    using assms(3) type by (simp add: handle_message_def)
  then show ?thesis
  proof (cases rule: handle_replace_order_cases)
    case (entered request existing book res)
    then show ?thesis using no [of request] by (simp add: replace_admitted_def)
  qed (use no in blast)+
qed

definition sample_cancel :: CancelOrderRequest where
  "sample_cancel = \<lparr>cor_order_id = 1, cor_timestamp = 2, cor_symbol = default_symbol\<rparr>"

definition cancel_header :: MessageHeader where
  "cancel_header = header_for MT_CancelOrder cancel_order_body_size 2"

lemma sample_cancel_valid: "cancel_order_valid sample_cancel"
  by (simp add: sample_cancel_def cancel_order_valid_def)

lemma sample_cancel_target: "request_target cancel_header (encode_cancel_order sample_cancel) = Some (''TEST'', 1)"
  using cancel_order.dec_enc [OF sample_cancel_valid]
  by (simp add: request_target_def cancel_header_def header_for_def sample_cancel_def sample_symbol)

text \<open>Session 8 tries to cancel the order of session 7.\<close>

theorem foreign_requests_change_nothing_witness:
  "\<exists>sv t sv'. find_order (live_book sv ''TEST'') 1 \<noteq> None \<and>
    handle_message id 8 cancel_header (encode_cancel_order sample_cancel) default_trade_buffer sv = (Inr (), t, sv') \<and>
    rejects 8 sv sv' \<and> live_book sv' = live_book sv"
proof -
  obtain sv where sv: "server_run sample_server sv" "find_order (live_book sv ''TEST'') 1 \<noteq> None"
    "owner_of sv ''TEST'' 1 = Some \<lparr>ow_socket = 7, ow_risk_client_id = 1\<rparr>"
    by (rule sample_resting_run)
  obtain r t sv' where res:
    "handle_message id 8 cancel_header (encode_cancel_order sample_cancel) default_trade_buffer sv = (r, t, sv')"
    by (metis prod_cases3)
  have "hdr_type cancel_header \<in> {MT_CancelOrder, MT_ReplaceOrder}" by (simp add: cancel_header_def header_for_def)
  from foreign_requests_change_nothing [OF this _ res]
  have "r = Inr () \<and> undisturbed sv sv' \<and> rejects 8 sv sv'"
    using sv(3) by (simp add: sample_cancel_target)
  then show ?thesis using res sv(2) by (auto simp: undisturbed_def)
qed
section \<open>The kill switch and cancellation\<close>

text \<open>
  The global kill switch stops order entry. While it is set, every new-order and every replace
  message gets one rejection; no book, owner, working order or journal record changes.
\<close>

theorem kill_switch_stops_entry:
  assumes "re_global_kill_switch (sv_risk_engine sv)" "hdr_type header \<in> {MT_NewOrder, MT_ReplaceOrder}"
    and "handle_message hash_order socket header body trades sv = (r, trades', sv')"
  shows "r = Inr () \<and> undisturbed sv sv' \<and> sv_journal sv' = sv_journal sv \<and> rejects socket sv sv'"
proof -
  have no: "\<not> new_order_admitted sv socket header body q" "\<not> replace_admitted sv socket header body p" for q p
    using assms(1)
    by (simp_all add: new_order_admitted_def replace_admitted_def check_new_order_def check_replace_def reject_def)
  show ?thesis
  proof (cases "hdr_type header = MT_NewOrder")
    case True
    then have "handle_new_order hash_order socket header body trades sv = (r, trades', sv')"
      using assms(3) by (simp add: handle_message_def)
    then show ?thesis
    proof (cases rule: handle_new_order_cases)
      case (no_reference_price side y e)
      then show ?thesis using market_reference_price_ok [of side "live_book sv y"] by simp
    qed (use no in blast)+
  next
    case False
    then have "handle_replace_order hash_order socket header body trades sv = (r, trades', sv')"
      using assms(2,3) by (simp add: handle_message_def)
    then show ?thesis
    proof (cases rule: handle_replace_order_cases)
      case (entered request existing book res)
      then show ?thesis using no(2) [of request] by (simp add: replace_admitted_def)
    qed (use no in blast)+
  qed
qed

theorem kill_switch_stops_entry_witness:
  "\<exists>t sv. handle_message id 7 sample_header (encode_new_order sample_buy) default_trade_buffer
      (server_set_global_kill_switch True sample_session) = (Inr (), t, sv) \<and>
    rejects 7 (server_set_global_kill_switch True sample_session) sv"
proof -
  let ?sv = "server_set_global_kill_switch True sample_session"
  obtain r t sv where res:
    "handle_message id 7 sample_header (encode_new_order sample_buy) default_trade_buffer ?sv = (r, t, sv)"
    by (metis prod_cases3)
  have "re_global_kill_switch (sv_risk_engine ?sv)"
    by (simp add: server_set_global_kill_switch_def set_global_kill_switch_def)
  moreover have "hdr_type sample_header \<in> {MT_NewOrder, MT_ReplaceOrder}"
    by (simp add: sample_header_def header_for_def)
  ultimately show ?thesis using kill_switch_stops_entry [OF _ _ res] res by blast
qed

text \<open>
  C20. An owner can cancel, kill switch or not. In every state that a started server reaches through sessions and messages
  whose handlers returned, a well-formed cancel message of the session that owns a resting order is confirmed to the
  session: the order leaves the book and loses its owner, and every other order stays. There are only two ways to fail,
  both exceptions that leave all books as they are: the journal cannot be written, and then nothing is sent or changed; or
  the 32-bit total of a price level of that book has wrapped.
\<close>

theorem owner_can_cancel:
  assumes "start_server env (fresh_server limits faults) = (True, sv0)" "server_run sv0 sv"
    and "hdr_type header = MT_CancelOrder" "cancel_admitted sv socket header body request"
    and "handle_message hash_order socket header body trades sv = (r, trades', sv')"
  defines "y \<equiv> symbol_to_string (cor_symbol request)" and "i \<equiv> cor_order_id request"
  shows "(r = Inr () \<and> confirms MT_OrderCancelled i socket sv sv' \<and> owner_of sv' y i = None \<and>
      find_order (live_book sv' y) = (find_order (live_book sv y))(i := None) \<and>
      (\<forall>y'. y' \<noteq> y \<longrightarrow> live_book sv' y' = live_book sv y')) \<or>
    (\<exists>e. r = Inl e) \<and> \<not> journal_healthy sv \<and> undisturbed sv sv' \<and> sv_sent sv' = sv_sent sv \<or>
    r = Inl (Logic_Error ''Price level quantity is inconsistent'') \<and> \<not> book_exact (live_book sv y) \<and>
      live_book sv' = live_book sv"
proof -
  have inv: "server_inv sv" using server_run_inv [OF assms(2) start_server_inv [OF assms(1)]] .
  have "handle_cancel_order socket header body sv = (r, sv')"
    using assms(3,5) by (auto simp: handle_message_def split: prod.splits)
  then show ?thesis
  proof (cases rule: handle_cancel_order_cases)
    case (journal_failed e request')
    then show ?thesis by auto
  next
    case (entered q book res)
    have q: "q = request" using entered(2) assms(4) by (simp add: cancel_admitted_def)
    obtain x where x: "find_order (live_book sv y) i = Some x"
      using entered(4) q by (auto simp: y_def i_def)
    have cancel: "engine_cancel_order (live_book sv y) i = (res, book)"
      using entered(6) q by (simp add: y_def i_def)
    from engine_cancel_lookup [OF server_invD(2) [OF inv] x cancel] show ?thesis
    proof (elim disjE conjE)
      assume "res = Inl (Logic_Error ''Price level quantity is inconsistent'')" "book = live_book sv y"
        "\<not> book_exact (live_book sv y)"
      then show ?thesis using entered(7,11) q by (simp add: y_def)
    next
      assume done_book: "res = Inr True" "find_order book = (find_order (live_book sv y))(i := None)"
      then have "r = Inr ()" using entered(10) capture_book_snapshot_ok [of "cor_symbol q" book] by auto
      then show ?thesis using entered(7,10) done_book q by (simp add: y_def i_def)
    qed
  qed (use assms(4) in blast)
qed

text \<open>Session 7 cancels its order while the kill switch is set.\<close>

theorem owner_can_cancel_witness:
  "\<exists>sv t sv'. re_global_kill_switch (sv_risk_engine sv) \<and> find_order (live_book sv ''TEST'') 1 \<noteq> None \<and>
    handle_message id 7 cancel_header (encode_cancel_order sample_cancel) default_trade_buffer sv = (Inr (), t, sv') \<and>
    confirms MT_OrderCancelled 1 7 sv sv' \<and> find_order (live_book sv' ''TEST'') 1 = None"
proof -
  obtain sv where sv: "server_run sample_server sv" "find_order (live_book sv ''TEST'') 1 \<noteq> None"
    "owner_of sv ''TEST'' 1 = Some \<lparr>ow_socket = 7, ow_risk_client_id = 1\<rparr>" "sv_journal sv \<noteq> None"
    "journal_healthy sv" "book_exact (live_book sv ''TEST'')" "risk_client_id_for_socket sv 7 = 1"
    by (rule sample_resting_run)
  let ?sv = "server_set_global_kill_switch True sv"
  note same = session_steps_undisturbed(6,7)
  obtain r t sv' where res:
    "handle_message id 7 cancel_header (encode_cancel_order sample_cancel) default_trade_buffer ?sv = (r, t, sv')"
    by (metis prod_cases3)
  have run: "server_run sample_server ?sv" by (rule run_kill_switch [OF sv(1)])
  have type: "hdr_type cancel_header = MT_CancelOrder" by (simp add: cancel_header_def header_for_def)
  have size: "unat (hdr_body_size cancel_header) = cancel_order_body_size" by code_simp
  have fields: "symbol_to_string (cor_symbol sample_cancel) = ''TEST''" "cor_order_id sample_cancel = 1"
    by (simp_all add: sample_cancel_def sample_symbol)
  have "risk_client_id_for_socket ?sv 7 = 1" "journal_healthy ?sv" "re_global_kill_switch (sv_risk_engine ?sv)"
    using sv(5,7) by (simp_all add: risk_client_id_for_socket_def server_set_global_kill_switch_def
      set_global_kill_switch_def journal_healthy_def)
  note state = this
  have "cancel_admitted ?sv 7 cancel_header (encode_cancel_order sample_cancel) sample_cancel"
    using size sv(2,3) state(1) cancel_order.dec_enc [OF sample_cancel_valid]
    by (simp add: cancel_admitted_def fields same)
  note answer = owner_can_cancel [OF sample_server_started run type this res, unfolded fields same]
  show ?thesis using answer sv(6) state(2) res state(3) sv(2) by (intro exI [of _ ?sv] exI [of _ t] exI [of _ sv']) (simp add: same)
qed

section \<open>Framing\<close>

text \<open>
  C14. The framing of a session does not depend on how the network cuts the stream. For a
  stream that is a sequence of well-formed messages and perhaps the beginning of one more, cut into
  non-empty chunks in any way, the receive loop handles exactly these messages one by one in
  their order, fails when and as the handlers fail, and keeps the unfinished rest in its buffer.
\<close>

theorem stream_framing:
  assumes "\<forall>m\<in>set ms. wire_message m" "incomplete tail" "[] \<notin> set chunks" "sv_running sv"
    and "concat chunks = concat (map wire_bytes ms) @ tail"
  shows "case handle_messages hash_order socket ms trades sv of
      (Inl e, trades', sv') \<Rightarrow>
        \<exists>left. receive_loop hash_order socket chunks [] trades sv = (Inl e, left, trades', sv')
    | (Inr _, trades', sv') \<Rightarrow> receive_loop hash_order socket chunks [] trades sv = (Inr (), tail, trades', sv')"
  using receive_loop_messages [of ms "[]" tail chunks sv] assms by simp

text \<open>The message of session 7 arrives in two pieces, the first not even a complete header.\<close>

theorem stream_framing_witness:
  "\<exists>left t sv. receive_loop id 7
      [take 10 (wire_bytes (sample_header, encode_new_order sample_buy)),
       drop 10 (wire_bytes (sample_header, encode_new_order sample_buy))] [] default_trade_buffer sample_session =
      (Inr (), left, t, sv) \<and> left = [] \<and> find_order (live_book sv ''TEST'') 1 \<noteq> None"
proof -
  let ?m = "(sample_header, encode_new_order sample_buy)"
  have size: "unat (hdr_body_size sample_header) = new_order_body_size" by code_simp
  have "header_valid sample_header"
    using encode_valid_header(1) [of MT_NewOrder]
    by (metis header.dec_valid named_types_def sample_header_def list.set_intros(1))
  then have wire: "\<forall>m\<in>set [?m]. wire_message m"
    using size new_order.enc_size [OF sample_buy_valid]
    by (simp add: wire_message_def new_order_body_size_def maximum_body_size_def)
  then have len: "length (wire_bytes ?m) = header_size + new_order_body_size"
    using new_order.enc_size [OF sample_buy_valid] by (simp add: wire_bytes_def wire_header_length [of ?m, simplified])
  then have chunks: "[] \<notin> set [take 10 (wire_bytes ?m), drop 10 (wire_bytes ?m)]"
    by (auto simp: header_size_def)
  have running: "sv_running sample_session"
    using sample_started_fields by (simp add: sample_connected_def register_client_def Let_def)
  obtain t sv where res: "handle_message id 7 sample_header (encode_new_order sample_buy) default_trade_buffer
      sample_session = (Inr (), t, sv)" "find_order (live_book sv ''TEST'') 1 \<noteq> None"
    by (rule sample_entered)
  from stream_framing [OF wire incomplete_Nil chunks running, of id 7 default_trade_buffer] show ?thesis
    using res by simp
qed

section \<open>A torn record length\<close>

lemma short_record_length:
  assumes "length m < 256"
  obtains w where "encode_record_length (word_of_nat (length m)) = [w, 0, 0, 0]" "unat w = length m"
proof -
  let ?w = "word_of_nat (length m) :: u8"
  have bits: "take_bit 32 (length m) = length m" "take_bit 8 (length m) = length m"
    using assms by (simp_all add: take_bit_nat_eq_self_iff)
  have "(word_of_nat (length m) :: u32) = ucast ?w"
    using assms by (simp add: word_unat_eq_iff unat_of_nat unsigned_ucast_eq take_bit_eq_mod)
  moreover have mask: "bit (255 :: int) k \<longleftrightarrow> k < 8" "bit (255 :: u32) k \<longleftrightarrow> k < 8" "bit (255 :: u8) k \<longleftrightarrow> k < 8" for k
    using bit_mask_iff [where 'a = int, of 8 k] bit_mask_255 [where 'a = 32, of k] bit_mask_255 [where 'a = 8, of k]
    by (auto simp: mask_eq_exp_minus_1)
  moreover have "encode_record_length (ucast w) = [w, 0, 0, 0]" for w :: u8
    unfolding encode_record_length_def record_length_size_def
    by (simp add: upt_rec) (auto simp: bit_eq_iff bit_simps mask dest: bit_imp_le_length)
  moreover have "unat ?w = length m" using assms by (simp add: unat_of_nat take_bit_nat_eq_self_iff)
  ultimately show thesis using that by metis
qed

text \<open>Two or three left-over bytes of a length shift the next length out of its range.\<close>

lemma shifted_length:
  assumes "header_size \<le> unat (b :: u8)"
  shows "maximum_record_size < unat (decode_record_length [a, 0, b, 0])"
    "maximum_record_size < unat (decode_record_length [a, 0, 0, b])"
proof -
  have "int header_size \<le> int (unat b)" using assms by (simp only: of_nat_le_iff)
  then have b: "20 \<le> uint b" by (simp add: header_size_def)
  have large: "maximum_record_size < unat (v :: u32)" if "uint (push_bit n (ucast b) :: u32) \<le> uint v" "n = 16 \<or> n = 24" for n v
  proof -
    have "uint (push_bit n (ucast b) :: u32) = uint b * 2 ^ n"
      using that(2) uint_lt2p [of b]
      by (auto simp del: push_bit_numeral_minus_1
          simp: unsigned_push_bit_eq [where 'b = 32] unsigned_ucast_eq push_bit_eq_mult [where 'a = int] take_bit_eq_mod)
    then have "1048576 < uint v" using b that by auto
    then have "int maximum_record_size < int (unat v)" by (simp add: maximum_record_size_def)
    then show ?thesis by (simp only: of_nat_less_iff)
  qed
  have or_le: "uint (y :: u32) \<le> uint (x OR y)" for x y
    by (simp add: uint_or) (metis or.commute or_greater_eq uint_ge_0)
  show "maximum_record_size < unat (decode_record_length [a, 0, b, 0])"
    "maximum_record_size < unat (decode_record_length [a, 0, 0, b])"
    by (rule large [of 16], simp_all add: decode_record_length_def or_le)
      (rule large [of 24], simp_all add: decode_record_length_def or_le)
qed

text \<open>
  C37. A crash in the middle of a record length can make the journal unreadable for ever. Take
  a journal of complete records whose last write stopped after two or three bytes of the record
  length. Recovery accepts this file and the server starts; but the first record
  it then appends, any record shorter than 256 bytes, which covers every request of the protocol,
  lands behind the torn bytes, and the next recovery from the file fails.
\<close>

theorem torn_length_blocks_restart:
  assumes "\<forall>m\<in>set ms. message_size_ok m" "length torn < 256" "n \<in> {2, 3}"
    and "message_size_ok m" "length m < 256"
    and "file = concat (map frame ms) @ take n (frame torn)"
    and "journal_append m None None \<lparr>jr_open = True, jr_failed = False, jr_file = file\<rparr> = (r, j)"
  shows "fst (recover_from_journal (Contents file) (fresh_server limits faults)) \<and> r = Inr () \<and>
    \<not> fst (recover_from_journal (Contents (jr_file j)) (fresh_server limits' faults'))"
proof -
  let ?rp = "replay_messages_from_scratch ms"
  obtain w where w: "frame torn = [w, 0, 0, 0] @ torn"
    using short_record_length [OF assms(2)] by (metis frame_def)
  obtain b where b: "frame m = [b, 0, 0, 0] @ m" "unat b = length m"
    using short_record_length [OF assms(5)] by (metis frame_def)
  have loop: "replay (Some (concat (map frame ms) @ rest)) new_replayer = replay_loop rest ?rp" for rest
    using replay_loop_frames [OF assms(1), of rest "replay_reset new_replayer"]
    by (simp add: replay_def replay_messages_from_scratch_def)
  have "replay (Some file) new_replayer = (True, count_symbols ?rp)"
    using replay_loop_torn [of torn n ?rp] assms(2,3) loop by (auto simp: assms(6))
  moreover have j: "r = Inr ()" "jr_file j = file @ frame m"
    using assms(5,7) by (auto simp: journal_append_def stream_write_def frame_def Let_def split: if_splits)
  moreover have "fst (replay (Some (file @ frame m)) new_replayer) = False"
  proof -
    have "maximum_record_size < unat (decode_record_length (take 4 (take n (frame torn) @ frame m)))"
      using assms(3,4) shifted_length [of b w] b(2) by (auto simp: w b(1) message_size_ok_def)
    then have "fst (replay_loop (take n (frame torn) @ frame m) ?rp) = False"
      by (subst replay_loop.simps) (simp add: record_length_size_def Let_def)
    then show ?thesis using loop by (simp add: assms(6))
  qed
  moreover have "file \<noteq> []" "jr_file j \<noteq> []" using assms(3) j by (auto simp: assms(6) w)
  ultimately show ?thesis by (auto simp: recover_from_journal_def Let_def split: prod.split)
qed

theorem torn_length_blocks_restart_witness:
  "\<exists>file j. journal_append (encode_header sample_header @ encode_new_order sample_buy) None None
      \<lparr>jr_open = True, jr_failed = False, jr_file = file\<rparr> = (Inr (), j) \<and>
    fst (recover_from_journal (Contents file) (fresh_server default_limits [])) \<and>
    \<not> fst (recover_from_journal (Contents (jr_file j)) (fresh_server default_limits []))"
proof -
  let ?m = "encode_header sample_header @ encode_new_order sample_buy"
  have len: "length ?m = 63"
    using new_order.enc_size [OF sample_buy_valid]
    by (simp add: length_encode_header header_size_def new_order_body_size_def)
  let ?file = "concat (map frame [?m]) @ take 2 (frame ?m)"
  obtain r j where app: "journal_append ?m None None \<lparr>jr_open = True, jr_failed = False, jr_file = ?file\<rparr> = (r, j)"
    by (metis surj_pair)
  have ok: "message_size_ok ?m" using len by (simp add: message_size_ok_def header_size_def maximum_record_size_def)
  from torn_length_blocks_restart [OF _ _ _ ok _ refl app, of default_limits "[]" default_limits "[]"]
  have "fst (recover_from_journal (Contents ?file) (fresh_server default_limits [])) \<and> r = Inr () \<and>
      \<not> fst (recover_from_journal (Contents (jr_file j)) (fresh_server default_limits []))"
    using ok len by simp
  then show ?thesis using app by blast
qed


end
