(* ===== verification/Decimal.thy ===== *)
theory Decimal
  imports Wire
begin

text \<open>
  Decimal text, as \<^verbatim>\<open>std::to_string\<close> prints it and \<^verbatim>\<open>std::from_chars\<close> reads it: the reader takes the
  longest run of digits, a minus sign only for a signed type and no plus sign or space at all, and fails on
  an empty run and on a value the type cannot hold.
\<close>

section \<open>Digits\<close>

definition digit :: "nat \<Rightarrow> char" where
  "digit d = char_of (48 + d)"

definition is_digit :: "char \<Rightarrow> bool" where
  "is_digit c \<longleftrightarrow> 48 \<le> (of_char c :: nat) \<and> (of_char c :: nat) \<le> 57"

definition digit_value :: "char \<Rightarrow> nat" where
  "digit_value c = of_char c - 48"

definition digits_value :: "string \<Rightarrow> nat" where
  "digits_value ds = foldl (\<lambda>v c. v * 10 + digit_value c) 0 ds"

lemma digit_simps [simp]:
  "d < 10 \<Longrightarrow> is_digit (digit d)" "d < 10 \<Longrightarrow> digit_value (digit d) = d"
  by (simp_all add: is_digit_def digit_def digit_value_def)

lemma digits_value_simps [simp]:
  "digits_value [] = 0" "digits_value (ds @ [c]) = digits_value ds * 10 + digit_value c"
  by (simp_all add: digits_value_def)

section \<open>Printing\<close>

fun decimal :: "nat \<Rightarrow> string" where
  "decimal n = (if n < 10 then [digit n] else decimal (n div 10) @ [digit (n mod 10)])"

declare decimal.simps [simp del]

definition decimal_int :: "int \<Rightarrow> string" where
  "decimal_int i = (if i < 0 then CHR ''-'' # decimal (nat (- i)) else decimal (nat i))"

lemma decimal_digits: "\<forall>c\<in>set (decimal n). is_digit c"
  by (induction n rule: decimal.induct) (subst decimal.simps, auto)

lemma decimal_not_empty [simp]: "decimal n \<noteq> []"
  by (subst decimal.simps) simp

lemma decimal_value [simp]: "digits_value (decimal n) = n"
proof (induction n rule: decimal.induct)
  case (1 n)
  then show ?case
    using digits_value_simps(2) [of "[]" "digit n"] by (subst decimal.simps) auto
qed

section \<open>Reading\<close>

definition from_chars_unsigned :: "nat \<Rightarrow> string \<Rightarrow> (nat \<times> string) option" where
  "from_chars_unsigned maximum txt =
     (let ds = takeWhile is_digit txt
      in if ds = [] \<or> digits_value ds > maximum then None
         else Some (digits_value ds, dropWhile is_digit txt))"

definition from_chars_signed :: "nat \<Rightarrow> string \<Rightarrow> (int \<times> string) option" where
  "from_chars_signed width txt =
     (let negative = (txt \<noteq> [] \<and> hd txt = CHR ''-'');
          digits = (if negative then tl txt else txt); ds = takeWhile is_digit digits;
          value = (if negative then - int (digits_value ds) else int (digits_value ds))
      in if ds = [] \<or> value < - (2 ^ (width - 1)) \<or> value \<ge> 2 ^ (width - 1) then None
         else Some (value, dropWhile is_digit digits))"

lemma from_chars_unsigned_decimal:
  assumes "n \<le> maximum" "\<forall>c rest. after = c # rest \<longrightarrow> \<not> is_digit c"
  shows "from_chars_unsigned maximum (decimal n @ after) = Some (n, after)"
proof -
  have "takeWhile is_digit (decimal n @ after) = decimal n" "dropWhile is_digit (decimal n @ after) = after"
    using decimal_digits [of n] assms(2) by (cases after; simp)+
  then show ?thesis using assms(1) by (simp add: from_chars_unsigned_def)
qed

lemma hd_decimal [simp]: "hd (decimal n) \<noteq> CHR ''-''"
proof -
  have "is_digit (hd (decimal n))" using decimal_digits [of n] by (meson decimal_not_empty list.set_sel(1))
  then show ?thesis by (auto simp: is_digit_def)
qed

lemma from_chars_signed_decimal:
  assumes "- (2 ^ (width - 1)) \<le> i" "i < 2 ^ (width - 1)"
  shows "from_chars_signed width (decimal_int i) = Some (i, [])"
proof -
  have run: "takeWhile is_digit (decimal n) = decimal n" "dropWhile is_digit (decimal n) = []" for n
    using decimal_digits [of n] by auto
  show ?thesis using assms by (auto simp: from_chars_signed_def decimal_int_def run Let_def decimal_digits [rule_format])
qed

end
