(* ===== verification/Fix.thy ===== *)
theory Fix
  imports Decimal "HOL-Library.Sublist"
begin

text \<open>
  The FIX 4.4 codec, \<^verbatim>\<open>include/exchange/fix.hpp\<close> and \<^verbatim>\<open>src/fix.cpp\<close>: messages as lists of fields,
  the encoder with its length and checksum, the parser with all its error texts, and the function
  that takes one message out of a receive buffer. A \<^verbatim>\<open>std::size_t\<close> is a \<open>nat\<close> below 2^64; the only size the
  peer chooses is the body length, and every use of it is guarded as in the code. The
  timestamp is read from the clock and is an argument where it is used.
\<close>

section \<open>Messages\<close>

record Field =
  fld_tag :: int
  fld_value :: string

record Message =
  msg_fields :: "Field list"

definition new_message :: Message where
  "new_message = \<lparr>msg_fields = []\<rparr>"

definition message_add :: "int \<Rightarrow> string \<Rightarrow> Message \<Rightarrow> Message" where
  "message_add t v m = m\<lparr>msg_fields := msg_fields m @ [\<lparr>fld_tag = t, fld_value = v\<rparr>]\<rparr>"

fun set_field :: "int \<Rightarrow> string \<Rightarrow> Field list \<Rightarrow> Field list option" where
  "set_field t v [] = None"
| "set_field t v (f # fs) =
     (if fld_tag f = t then Some (f\<lparr>fld_value := v\<rparr> # fs)
      else map_option ((#) f) (set_field t v fs))"

definition message_set :: "int \<Rightarrow> string \<Rightarrow> Message \<Rightarrow> Message" where
  "message_set t v m =
     (case set_field t v (msg_fields m) of
        Some fs \<Rightarrow> m\<lparr>msg_fields := fs\<rparr>
      | None \<Rightarrow> message_add t v m)"

definition message_get :: "int \<Rightarrow> Message \<Rightarrow> string option" where
  "message_get t m = map_option fld_value (find (\<lambda>f. fld_tag f = t) (msg_fields m))"

definition message_contains :: "int \<Rightarrow> Message \<Rightarrow> bool" where
  "message_contains t m \<longleftrightarrow> message_get t m \<noteq> None"

section \<open>Texts and numbers\<close>

definition soh :: char where "soh = CHR 0x01"

definition begin_string :: string where "begin_string = ''FIX.4.4''"

definition fix44_prefix :: string where "fix44_prefix = ''8=FIX.4.4'' @ [soh]"

abbreviation size_max :: nat where "size_max \<equiv> 2 ^ 64 - 1"

text \<open>The whole text must be used up.\<close>

definition parse_size :: "string \<Rightarrow> nat option" where
  "parse_size txt =
     (case from_chars_unsigned size_max txt of
        None \<Rightarrow> None
      | Some (value, rest) \<Rightarrow> if rest \<noteq> [] then None else Some value)"

definition parse_tag :: "string \<Rightarrow> int option" where
  "parse_tag txt =
     (case from_chars_signed 32 txt of
        None \<Rightarrow> None
      | Some (value, rest) \<Rightarrow> if rest \<noteq> [] \<or> value \<le> 0 then None else Some value)"

definition parse_u64 :: "string \<Rightarrow> u64 option" where
  "parse_u64 txt =
     (if txt = [] then None
      else case from_chars_unsigned (2 ^ 64 - 1) txt of
        None \<Rightarrow> None
      | Some (value, rest) \<Rightarrow> if rest \<noteq> [] then None else Some (word_of_nat value))"

definition parse_i64 :: "string \<Rightarrow> int option" where
  "parse_i64 txt =
     (if txt = [] then None
      else case from_chars_signed 64 txt of
        None \<Rightarrow> None
      | Some (value, rest) \<Rightarrow> if rest \<noteq> [] then None else Some value)"

definition starts_with_fix44 :: "string \<Rightarrow> bool" where
  "starts_with_fix44 wire \<longleftrightarrow> prefix fix44_prefix wire"

definition checksum_before :: "string \<Rightarrow> nat \<Rightarrow> u32" where
  "checksum_before wire checksum_offset =
     fold (\<lambda>c sum. sum + word_of_nat (of_char c)) (take checksum_offset wire) 0 mod 256"

definition three_digit_checksum :: "u32 \<Rightarrow> string" where
  "three_digit_checksum value =
     [digit (unat ((value div 100) mod 10)), digit (unat ((value div 10) mod 10)), digit (unat (value mod 10))]"

text \<open>\<^verbatim>\<open>string::find\<close> from a position, \<^verbatim>\<open>substr\<close> and the search for a text.\<close>

definition find_from :: "char \<Rightarrow> nat \<Rightarrow> string \<Rightarrow> nat option" where
  "find_from c pos s =
     (let skipped = takeWhile (\<lambda>x. x \<noteq> c) (drop pos s)
      in if pos + length skipped < length s then Some (pos + length skipped) else None)"

definition substr :: "nat \<Rightarrow> nat \<Rightarrow> string \<Rightarrow> string" where
  "substr pos count s = take count (drop pos s)"

fun find_text :: "string \<Rightarrow> string \<Rightarrow> nat option" where
  "find_text pat [] = (if pat = [] then Some 0 else None)"
| "find_text pat (c # s) = (if prefix pat (c # s) then Some 0 else map_option Suc (find_text pat s))"

section \<open>Encoding\<close>

definition fix_field :: "Field \<Rightarrow> string" where
  "fix_field f =
     (if fld_tag f = 8 \<or> fld_tag f = 9 \<or> fld_tag f = 10 then []
      else decimal_int (fld_tag f) @ ''='' @ fld_value f @ [soh])"

definition fix_fields :: "Field list \<Rightarrow> string" where
  "fix_fields fs = concat (map fix_field fs)"

definition fix_encode :: "Message \<Rightarrow> string" where
  "fix_encode m =
     (let body = fix_fields (msg_fields m);
          wire = ''8=FIX.4.4'' @ [soh] @ ''9='' @ decimal (length body) @ [soh] @ body;
          checksum = checksum_before wire (length wire)
      in wire @ ''10='' @ three_digit_checksum checksum @ [soh])"

section \<open>Parsing\<close>

text \<open>The loop over the fields of the body; \<open>Inl\<close> is the error text.\<close>

function parse_fields :: "string \<Rightarrow> nat \<Rightarrow> nat \<Rightarrow> Message \<Rightarrow> string + Message" where
  "parse_fields wire cursor checksum_offset parsed =
     (if cursor < checksum_offset then
        (case find_from soh cursor wire of
           None \<Rightarrow> Inl ''truncated FIX field''
         | Some field_end \<Rightarrow>
             if field_end \<ge> checksum_offset then Inl ''truncated FIX field''
             else
               let field = substr cursor (field_end - cursor) wire
               in (case find_from (CHR ''='') 0 field of
                     None \<Rightarrow> Inl ''invalid FIX field''
                   | Some equals \<Rightarrow>
                       if equals = 0 then Inl ''invalid FIX field''
                       else
                         (case parse_tag (take equals field) of
                            None \<Rightarrow> Inl ''invalid FIX tag''
                          | Some t \<Rightarrow>
                              parse_fields wire (field_end + 1) checksum_offset
                                (message_add t (drop (equals + 1) field) parsed))))
      else Inr parsed)"
  by pat_completeness auto
termination
  by (relation "measure (\<lambda>(wire, cursor, checksum_offset, parsed). checksum_offset - cursor)")
    (auto simp: find_from_def Let_def split: if_splits)

declare parse_fields.simps [simp del]

definition parse_body :: "string \<Rightarrow> nat \<Rightarrow> nat \<Rightarrow> string + Message" where
  "parse_body wire body_start checksum_offset =
     (case parse_fields wire body_start checksum_offset new_message of
        Inl e \<Rightarrow> Inl e
      | Inr parsed \<Rightarrow>
          (case message_get 35 parsed of
             None \<Rightarrow> Inl ''MsgType (35) is required''
           | Some msg_type \<Rightarrow>
               if msg_type = [] then Inl ''MsgType (35) is required'' else Inr parsed))"

definition parse_trailer :: "string \<Rightarrow> nat \<Rightarrow> nat \<Rightarrow> string + Message" where
  "parse_trailer wire body_start checksum_offset =
     (if checksum_offset + 7 \<noteq> length wire \<or> \<not> prefix ''10='' (drop checksum_offset wire) \<or> last wire \<noteq> soh
      then Inl ''BodyLength does not end at CheckSum''
      else
        (case parse_size (substr (checksum_offset + 3) 3 wire) of
           None \<Rightarrow> Inl ''invalid CheckSum field''
         | Some checksum_value \<Rightarrow>
             if checksum_value > 255 \<or> wire ! (checksum_offset + 6) \<noteq> soh then Inl ''invalid CheckSum field''
             else if unat (checksum_before wire checksum_offset) \<noteq> checksum_value then Inl ''CheckSum mismatch''
             else parse_body wire body_start checksum_offset))"

definition fix_parse :: "string \<Rightarrow> string + Message" where
  "fix_parse wire =
     (if \<not> starts_with_fix44 wire then Inl ''BeginString must be FIX.4.4''
      else
        (case find_from soh 0 wire of
           None \<Rightarrow> Inl ''truncated BeginString''
         | Some begin_end \<Rightarrow>
             let body_length_start = begin_end + 1
             in if \<not> prefix ''9='' (drop body_length_start wire) then
                  Inl ''BodyLength must be the second field''
                else
                  (case find_from soh body_length_start wire of
                     None \<Rightarrow> Inl ''truncated BodyLength''
                   | Some body_length_end \<Rightarrow>
                       (case parse_size (substr (body_length_start + 2)
                            (body_length_end - (body_length_start + 2)) wire) of
                          None \<Rightarrow> Inl ''invalid BodyLength''
                        | Some body_length \<Rightarrow>
                            let body_start = body_length_end + 1
                            in if body_length > length wire - body_start then
                                 Inl ''BodyLength exceeds message size''
                               else parse_trailer wire body_start (body_start + body_length)))))"

section \<open>Taking a message out of the receive buffer\<close>

datatype ExtractStatus = NeedMoreData | MessageReady | InvalidData

record ExtractResult =
  ex_status :: ExtractStatus
  ex_wire_message :: string
  ex_error :: string

definition need_more_data :: ExtractResult where
  "need_more_data = \<lparr>ex_status = NeedMoreData, ex_wire_message = [], ex_error = []\<rparr>"

definition invalid_data :: "string \<Rightarrow> ExtractResult" where
  "invalid_data e = \<lparr>ex_status = InvalidData, ex_wire_message = [], ex_error = e\<rparr>"

text \<open>The part of \<^verbatim>\<open>extract_one\<close> behind the resynchronisation: the buffer begins with the prefix.\<close>

definition extract_aligned :: "string \<Rightarrow> ExtractResult \<times> string" where
  "extract_aligned buffer =
     (case find_from soh 0 buffer of
        None \<Rightarrow> (need_more_data, buffer)
      | Some begin_end \<Rightarrow>
          let body_length_start = begin_end + 1
          in if length buffer < body_length_start + 2 then (need_more_data, buffer)
             else if substr body_length_start 2 buffer \<noteq> ''9='' then
               (invalid_data ''BodyLength must be the second field'', buffer)
             else
               (case find_from soh body_length_start buffer of
                  None \<Rightarrow> (need_more_data, buffer)
                | Some body_length_end \<Rightarrow>
                    (case parse_size (substr (body_length_start + 2)
                         (body_length_end - (body_length_start + 2)) buffer) of
                       None \<Rightarrow> (invalid_data ''invalid BodyLength'', buffer)
                     | Some body_length \<Rightarrow>
                         let body_start = body_length_end + 1
                         in if body_length > size_max - body_start - 7 then
                              (invalid_data ''BodyLength overflow'', buffer)
                            else
                              let total_size = body_start + body_length + 7;
                                  checksum_offset = body_start + body_length
                              in if length buffer < total_size then (need_more_data, buffer)
                                 else if substr checksum_offset 3 buffer \<noteq> ''10='' then
                                   (invalid_data ''BodyLength does not point to CheckSum'', buffer)
                                 else
                                   (\<lparr>ex_status = MessageReady, ex_wire_message = substr 0 total_size buffer,
                                     ex_error = []\<rparr>, drop total_size buffer))))"

definition extract_one :: "string \<Rightarrow> ExtractResult \<times> string" where
  "extract_one buffer =
     (if buffer = [] then (need_more_data, buffer)
      else if \<not> prefix fix44_prefix buffer then
        (case find_text fix44_prefix buffer of
           None \<Rightarrow>
             (if length buffer > length fix44_prefix
              then (invalid_data ''stream does not begin with FIX.4.4'', buffer)
              else (need_more_data, buffer))
         | Some next_start \<Rightarrow> extract_aligned (drop next_start buffer))
      else extract_aligned buffer)"

text \<open>The clock as \<^verbatim>\<open>gmtime_r\<close> splits it, and its text: each part with its leading zeros.\<close>

record UtcTime =
  utc_year :: nat
  utc_month :: nat
  utc_day :: nat
  utc_hour :: nat
  utc_minute :: nat
  utc_second :: nat
  utc_millisecond :: nat

definition padded :: "nat \<Rightarrow> nat \<Rightarrow> string" where
  "padded width n = replicate (width - length (decimal n)) (CHR ''0'') @ decimal n"

definition utc_timestamp :: "UtcTime \<Rightarrow> string" where
  "utc_timestamp t =
     decimal (utc_year t) @ padded 2 (utc_month t) @ padded 2 (utc_day t) @ ''-'' @ padded 2 (utc_hour t) @
     '':'' @ padded 2 (utc_minute t) @ '':'' @ padded 2 (utc_second t) @ ''.'' @ padded 3 (utc_millisecond t)"

text \<open>Rendering for terminals.\<close>

definition printable :: "string \<Rightarrow> string" where
  "printable wire = map (\<lambda>c. if c = soh then CHR ''|'' else c) wire"

end
