(* ===== verification/Fix_Properties.thy ===== *)
theory Fix_Properties
  imports Fix
begin

text \<open>
  The FIX codec: what the encoder prints the parser reads back, the parser returns only well-formed
  messages, and the function on the receive buffer cuts a stream of messages exactly at their ends.
\<close>

section \<open>Well-formed messages\<close>

definition field_ok :: "Field \<Rightarrow> bool" where
  "field_ok f \<longleftrightarrow> 0 < fld_tag f \<and> fld_tag f < 2 ^ 31 \<and> soh \<notin> set (fld_value f)"

definition reserved :: "Field \<Rightarrow> bool" where
  "reserved f \<longleftrightarrow> fld_tag f \<in> {8, 9, 10}"

definition has_type :: "Message \<Rightarrow> bool" where
  "has_type m \<longleftrightarrow> (\<exists>v. message_get 35 m = Some v \<and> v \<noteq> [])"

definition message_ok :: "Message \<Rightarrow> bool" where
  "message_ok m \<longleftrightarrow> (\<forall>f\<in>set (msg_fields m). field_ok f \<and> \<not> reserved f) \<and> has_type m \<and>
     length (fix_encode m) < 2 ^ 64"

section \<open>Searching\<close>

lemma takeWhile_until: "c \<notin> set a \<Longrightarrow> takeWhile (\<lambda>x. x \<noteq> c) (a @ c # b) = a"
  by (induction a) auto

lemma find_from_first:
  assumes "c \<notin> set a"
  shows "find_from c (length p) (p @ a @ c # b) = Some (length p + length a)"
  using takeWhile_until [OF assms, of b] by (simp add: find_from_def Let_def)

lemma find_from_start: "c \<notin> set a \<Longrightarrow> find_from c 0 (a @ c # b) = Some (length a)"
  using find_from_first [of c a "[]" b] by simp

lemma find_from_SomeD:
  assumes "find_from c pos s = Some i"
  shows "pos \<le> i" "i < length s" "s ! i = c" "c \<notin> set (take (i - pos) (drop pos s))"
proof -
  let ?a = "takeWhile (\<lambda>x. x \<noteq> c) (drop pos s)"
  have i: "i = pos + length ?a" "i < length s"
    using assms unfolding find_from_def Let_def by (metis option.inject option.distinct(1))+
  then show "pos \<le> i" "i < length s" by simp_all
  have "length ?a < length (drop pos s)" using i(2) unfolding i(1) length_drop by linarith
  from nth_length_takeWhile [OF this] have "drop pos s ! length ?a = c" by simp
  then show "s ! i = c" using i(2) unfolding i(1) by simp
  have "take (i - pos) (drop pos s) = ?a" unfolding i(1) by (metis add_diff_cancel_left' takeWhile_eq_take)
  then show "c \<notin> set (take (i - pos) (drop pos s))" by (auto dest: set_takeWhileD)
qed

lemma not_digit: "\<not> is_digit soh" "\<not> is_digit (CHR ''='')" "soh \<noteq> CHR ''-''" "soh \<noteq> CHR ''=''"
  by (simp_all add: is_digit_def soh_def)

lemma decimal_avoids [simp]: "\<not> is_digit c \<Longrightarrow> c \<notin> set (decimal n)"
  using decimal_digits by blast

lemma decimal_int_avoids:
  "soh \<notin> set (decimal_int i)" "CHR ''='' \<notin> set (decimal_int i)" "decimal_int i \<noteq> []"
  by (auto simp: decimal_int_def not_digit)

lemma parse_tag_decimal: "0 < t \<Longrightarrow> t < 2 ^ 31 \<Longrightarrow> parse_tag (decimal_int t) = Some t"
  using from_chars_signed_decimal [of 32 t] by (simp add: parse_tag_def)

lemma parse_size_decimal: "n < 2 ^ 64 \<Longrightarrow> parse_size (decimal n) = Some n"
  using from_chars_unsigned_decimal [of n size_max "[]"] by (simp add: parse_size_def)

section \<open>Reading the fields\<close>

lemma fix_field_ok:
  "\<not> reserved f \<Longrightarrow> fix_field f = decimal_int (fld_tag f) @ CHR ''='' # fld_value f @ [soh]"
  by (auto simp: fix_field_def reserved_def)

lemma parse_fields_step:
  assumes "field_ok f" "\<not> reserved f" "length (p @ fix_field f) \<le> off"
  shows "parse_fields (p @ fix_field f @ rest) (length p) off m =
    parse_fields (p @ fix_field f @ rest) (length (p @ fix_field f)) off (message_add (fld_tag f) (fld_value f) m)"
proof -
  let ?t = "decimal_int (fld_tag f)"
  let ?field = "?t @ CHR ''='' # fld_value f"
  have soh: "soh \<notin> set ?field"
    using assms(1) decimal_int_avoids(1) not_digit by (auto simp: field_ok_def)
  have wire: "p @ fix_field f @ rest = p @ ?field @ soh # rest" using fix_field_ok [OF assms(2)] by simp
  have len: "length (p @ fix_field f) = length p + length ?field + 1"
    using fix_field_ok [OF assms(2)] by simp
  have t: "parse_tag ?t = Some (fld_tag f)" using assms(1) by (intro parse_tag_decimal) (auto simp: field_ok_def)
  have eq: "find_from (CHR ''='') 0 ?field = Some (length ?t)" "length ?t \<noteq> 0"
    using find_from_start [OF decimal_int_avoids(2)] decimal_int_avoids(3) by auto
  have field: "substr (length p) (length ?field) (p @ ?field @ soh # rest) = ?field"
    by (simp add: substr_def)
  show ?thesis
    unfolding wire len using assms(3) [unfolded len] find_from_first [OF soh, of p rest] eq t field
    by (subst parse_fields.simps) (simp add: Let_def)
qed

lemma parse_fields_encoded:
  assumes "\<forall>f\<in>set fs. field_ok f \<and> \<not> reserved f"
  shows "parse_fields (p @ fix_fields fs @ rest) (length p) (length (p @ fix_fields fs)) \<lparr>msg_fields = acc\<rparr> =
    Inr \<lparr>msg_fields = acc @ fs\<rparr>"
  using assms
proof (induction fs arbitrary: p acc)
  case Nil
  then show ?case by (subst parse_fields.simps) (simp add: fix_fields_def)
next
  case (Cons f fs)
  have split: "fix_fields (f # fs) = fix_field f @ fix_fields fs" by (simp add: fix_fields_def)
  have "parse_fields (p @ fix_field f @ fix_fields fs @ rest) (length p)
      (length (p @ fix_field f @ fix_fields fs)) \<lparr>msg_fields = acc\<rparr> =
    parse_fields (p @ fix_field f @ fix_fields fs @ rest) (length (p @ fix_field f))
      (length (p @ fix_field f @ fix_fields fs)) (message_add (fld_tag f) (fld_value f) \<lparr>msg_fields = acc\<rparr>)"
    using Cons.prems parse_fields_step [of f p _ "fix_fields fs @ rest"] by simp
  moreover have "\<lparr>fld_tag = fld_tag f, fld_value = fld_value f\<rparr> = f" by simp
  ultimately show ?case using Cons.IH [of "p @ fix_field f" "acc @ [f]"] Cons.prems
    by (simp add: split message_add_def del: Field.surjective)
qed
section \<open>Length and checksum\<close>

lemma checksum_less: "unat (checksum_before w n) < 256"
  by (simp add: checksum_before_def unat_mod) 

lemma checksum_append: "checksum_before (w @ w') (length w) = checksum_before w (length w)"
  by (simp add: checksum_before_def)

lemma three_digit_sum:
  assumes "(v :: nat) < 256"
  shows "(v div 100 mod 10 * 10 + v div 10 mod 10) * 10 + v mod 10 = v"
proof -
  have "v div 100 = v div 10 div 10" "v div 10 div 10 < 10" using assms by (auto simp: div_mult2_eq [symmetric])
  then have "v div 100 mod 10 * 10 + v div 10 mod 10 = v div 10" by simp
  then show ?thesis by (simp only: div_mult_mod_eq)
qed

lemma three_digits:
  assumes "unat v < 256"
  shows "parse_size (three_digit_checksum v) = Some (unat v)" "length (three_digit_checksum v) = 3"
    "soh \<notin> set (three_digit_checksum v)"
proof -
  define a b c where "a = unat v div 100 mod 10" and "b = unat v div 10 mod 10" and "c = unat v mod 10"
  have digits: "three_digit_checksum v = [digit a, digit b, digit c]"
    by (simp add: three_digit_checksum_def a_def b_def c_def unat_mod unat_div)
  have less: "a < 10" "b < 10" "c < 10" by (simp_all add: a_def b_def c_def)
  have "digits_value [digit a, digit b, digit c] = unat v"
    using assms less three_digit_sum by (simp add: digits_value_def) (simp add: a_def b_def c_def)
  then show "parse_size (three_digit_checksum v) = Some (unat v)"
    unfolding digits using less assms by (simp add: parse_size_def from_chars_unsigned_def)
  show "length (three_digit_checksum v) = 3" by (simp add: digits)
  have "is_digit x" if "x \<in> set (three_digit_checksum v)" for x using that less by (auto simp: digits)
  then show "soh \<notin> set (three_digit_checksum v)" using not_digit(1) by blast
qed

section \<open>Shape of an encoded message\<close>

definition fix_head :: "nat \<Rightarrow> string" where
  "fix_head n = ''8=FIX.4.4'' @ [soh] @ ''9='' @ decimal n @ [soh]"

definition fix_trailer :: "string \<Rightarrow> string" where
  "fix_trailer wire = ''10='' @ three_digit_checksum (checksum_before wire (length wire)) @ [soh]"

lemma fix_encode_shape:
  "fix_encode m = fix_head (length (fix_fields (msg_fields m))) @ fix_fields (msg_fields m) @
     fix_trailer (fix_head (length (fix_fields (msg_fields m))) @ fix_fields (msg_fields m))"
  by (simp add: fix_encode_def fix_head_def fix_trailer_def Let_def)

lemma length_fix_head: "length (fix_head n) = length (decimal n) + 13"
  by (simp add: fix_head_def)

lemma length_fix_trailer [simp]: "length (fix_trailer w) = 7"
  using three_digits(2) [OF checksum_less] by (simp add: fix_trailer_def)

lemma fix_head_search:
  "find_from soh 0 (fix_head n @ rest) = Some 9"
  "find_from soh 10 (fix_head n @ rest) = Some (length (fix_head n) - 1)"
  "substr 12 (length (fix_head n) - 13) (fix_head n @ rest) = decimal n"
  "take 2 (drop 10 (fix_head n @ rest)) = ''9=''" "prefix fix44_prefix (fix_head n @ rest)"
proof -
  have "soh \<notin> set ''8=FIX.4.4''" by (simp add: soh_def)
  from find_from_start [OF this, of "''9='' @ decimal n @ [soh] @ rest"]
  show "find_from soh 0 (fix_head n @ rest) = Some 9" by (simp add: fix_head_def)
  have "soh \<notin> set (''9='' @ decimal n)" using not_digit(1) by (simp add: soh_def)
  from find_from_first [OF this, of "''8=FIX.4.4'' @ [soh]" rest]
  show "find_from soh 10 (fix_head n @ rest) = Some (length (fix_head n) - 1)"
    by (simp add: fix_head_def eval_nat_numeral)
  show "substr 12 (length (fix_head n) - 13) (fix_head n @ rest) = decimal n"
    by (simp add: substr_def fix_head_def)
  show "take 2 (drop 10 (fix_head n @ rest)) = ''9=''" "prefix fix44_prefix (fix_head n @ rest)"
    by (simp_all add: fix_head_def fix44_prefix_def)
qed
lemma parse_trailer_encoded:
  assumes "wire = w @ fix_trailer w"
  shows "parse_trailer wire body_start (length w) = parse_body wire body_start (length w)"
proof -
  let ?ds = "three_digit_checksum (checksum_before w (length w))"
  note ds = three_digits [OF checksum_less [of w "length w"]]
  have wire: "wire = w @ ''10='' @ ?ds @ [soh]" using assms by (simp add: fix_trailer_def)
  have "length wire = length w + 7" "prefix ''10='' (drop (length w) wire)" "last wire = soh"
    using ds(2) by (simp_all add: wire)
  moreover have "substr (length w + 3) 3 wire = ?ds" using ds(2) by (simp add: wire substr_def)
  moreover have "wire ! (length w + 6) = soh" using ds(2) by (simp add: wire nth_append)
  moreover have "checksum_before wire (length w) = checksum_before w (length w)"
    unfolding assms by (rule checksum_append)
  ultimately show ?thesis
    using ds(1) checksum_less [of w "length w"] by (simp add: parse_trailer_def)
qed

lemma parse_header_encoded:
  assumes "length body < 2 ^ 64"
  shows "fix_parse (fix_head (length body) @ body @ trailer) =
    parse_trailer (fix_head (length body) @ body @ trailer) (length (fix_head (length body)))
      (length (fix_head (length body) @ body))"
proof -
  let ?wire = "fix_head (length body) @ body @ trailer"
  note search = fix_head_search [of "length body" "body @ trailer"]
  have "starts_with_fix44 ?wire" using search(5) by (simp add: starts_with_fix44_def)
  moreover have "prefix ''9='' (drop 10 ?wire)" using search(4) take_is_prefix by metis
  moreover have "Suc (length (fix_head n) - Suc 0) = length (fix_head n)"
    "Suc (length (fix_head n) + k - Suc 0) = length (fix_head n) + k" for n k
    by (simp_all add: length_fix_head)
  ultimately show ?thesis
    using search(1,2,3) parse_size_decimal [OF assms] by (simp add: fix_parse_def Let_def)
qed

section \<open>Round trip\<close>

lemma message_ok_length: "message_ok m \<Longrightarrow> length (fix_fields (msg_fields m)) < 2 ^ 64"
  unfolding message_ok_def fix_encode_shape by simp

lemma fix_parse_encode:
  assumes "message_ok m"
  shows "fix_parse (fix_encode m) = Inr m"
proof -
  let ?body = "fix_fields (msg_fields m)"
  let ?head = "fix_head (length ?body)"
  let ?wire = "?head @ ?body @ fix_trailer (?head @ ?body)"
  have "parse_fields ?wire (length ?head) (length (?head @ ?body)) new_message = Inr m"
    using parse_fields_encoded [of "msg_fields m" ?head "fix_trailer (?head @ ?body)" "[]"] assms
    by (simp add: message_ok_def new_message_def)
  moreover obtain v where "message_get 35 m = Some v" "v \<noteq> []"
    using assms by (auto simp: message_ok_def has_type_def)
  ultimately have "parse_body ?wire (length ?head) (length (?head @ ?body)) = Inr m"
    by (simp add: parse_body_def)
  then show ?thesis
    unfolding fix_encode_shape parse_header_encoded [OF message_ok_length [OF assms]]
    using parse_trailer_encoded [of ?wire "?head @ ?body"] by simp
qed
text \<open>What the parser accepts.\<close>

lemma parse_fields_sound:
  "parse_fields wire cursor off m = Inr m' \<Longrightarrow> \<forall>f\<in>set (msg_fields m). field_ok f \<Longrightarrow>
   \<forall>f\<in>set (msg_fields m'). field_ok f"
proof (induction wire cursor off m rule: parse_fields.induct)
  case (1 wire cursor off m)
  show ?case
  proof (cases "cursor < off")
    case True
    then obtain e q t where step: "find_from soh cursor wire = Some e" "e < off"
      "find_from (CHR ''='') 0 (substr cursor (e - cursor) wire) = Some q" "q \<noteq> 0"
      "parse_tag (take q (substr cursor (e - cursor) wire)) = Some t"
      "parse_fields wire (e + 1) off (message_add t (drop (q + 1) (substr cursor (e - cursor) wire)) m) = Inr m'"
      using 1(2) by (subst (asm) parse_fields.simps) (auto simp: Let_def split: option.splits if_splits)
    have "0 < t \<and> t < 2 ^ 31"
      using step(5) by (auto simp: parse_tag_def from_chars_signed_def Let_def split: option.splits if_splits)
    moreover have "soh \<notin> set (substr cursor (e - cursor) wire)"
      using find_from_SomeD(4) [OF step(1)] by (simp add: substr_def)
    then have "soh \<notin> set (drop (q + 1) (substr cursor (e - cursor) wire))" by (meson in_set_dropD)
    ultimately have "\<forall>f\<in>set (msg_fields (message_add t (drop (q + 1) (substr cursor (e - cursor) wire)) m)). field_ok f"
      using 1(3) by (auto simp: message_add_def field_ok_def)
    note hyp = this
    have "\<not> off \<le> e" using step(2) by simp
    show ?thesis by (rule 1(1) [OF True step(1) \<open>\<not> off \<le> e\<close> refl step(3,4,5,6) hyp])
  next
    case False
    then show ?thesis using 1(2,3) by (subst (asm) parse_fields.simps) simp
  qed
qed

lemma fix_parse_sound:
  assumes "fix_parse wire = Inr m"
  shows "\<forall>f\<in>set (msg_fields m). field_ok f" "has_type m"
proof -
  obtain body_start off where "parse_trailer wire body_start off = Inr m"
    using assms unfolding fix_parse_def Let_def by (simp split: if_split_asm option.split_asm)
  then have body: "parse_body wire body_start off = Inr m"
    unfolding parse_trailer_def by (simp split: if_split_asm option.split_asm)
  then have "parse_fields wire body_start off new_message = Inr m"
    by (auto simp: parse_body_def split: sum.splits option.splits if_splits)
  from parse_fields_sound [OF this] show "\<forall>f\<in>set (msg_fields m). field_ok f" by (simp add: new_message_def)
  show "has_type m" using body by (auto simp: parse_body_def has_type_def split: sum.splits option.splits if_splits)
qed

section \<open>The receive buffer\<close>

lemma find_text_length: "find_text pat s = Some i \<Longrightarrow> length pat \<le> length s - i"
  by (induction s arbitrary: i) (auto split: if_splits dest: prefix_length_le)

lemma extract_head:
  assumes "n < 2 ^ 64 - length (fix_head n) - 7"
  shows "extract_aligned (fix_head n @ rest) =
    (if length rest < n + 7 then (need_more_data, fix_head n @ rest)
     else if substr n 3 rest \<noteq> ''10='' then (invalid_data ''BodyLength does not point to CheckSum'', fix_head n @ rest)
     else (\<lparr>ex_status = MessageReady, ex_wire_message = fix_head n @ take (n + 7) rest, ex_error = []\<rparr>,
       drop (n + 7) rest))"
proof -
  note search = fix_head_search [of n rest]
  have len: "Suc (length (fix_head n) - Suc 0) = length (fix_head n)"
    "Suc (length (fix_head n) + k - Suc 0) = length (fix_head n) + k" "12 \<le> length (fix_head n)" for k
    by (simp_all add: length_fix_head)
  have "\<not> length (fix_head n @ rest) < 12" using len(3) by simp
  moreover have "substr 10 2 (fix_head n @ rest) = ''9=''" using search(4) by (simp add: substr_def)
  moreover have "\<not> n > size_max - length (fix_head n) - 7" using assms by linarith
  moreover have "substr (length (fix_head n) + n) 3 (fix_head n @ rest) = substr n 3 rest"
    "substr 0 (length (fix_head n) + n + 7) (fix_head n @ rest) = fix_head n @ take (n + 7) rest"
    "drop (length (fix_head n) + n + 7) (fix_head n @ rest) = drop (n + 7) rest"
    by (simp_all add: substr_def add.assoc)
  moreover have "parse_size (decimal n) = Some n" using assms by (intro parse_size_decimal) simp
  ultimately show ?thesis
    using search(1,2,3) len(1,2) by (simp add: extract_aligned_def Let_def)
qed
lemma find_from_none: "c \<notin> set (drop pos s) \<Longrightarrow> find_from c pos s = None"
proof -
  assume "c \<notin> set (drop pos s)"
  then have "takeWhile (\<lambda>x. x \<noteq> c) (drop pos s) = drop pos s" by (auto simp: takeWhile_eq_all_conv)
  then have "length (takeWhile (\<lambda>x. x \<noteq> c) (drop pos s)) = length s - pos" by (metis length_drop)
  then have "\<not> pos + length (takeWhile (\<lambda>x. x \<noteq> c) (drop pos s)) < length s" by linarith
  then show ?thesis unfolding find_from_def Let_def by (simp only: if_False)
qed

lemma extract_one_encoded:
  assumes "message_ok m"
  shows "extract_one (fix_encode m @ rest) =
    (\<lparr>ex_status = MessageReady, ex_wire_message = fix_encode m, ex_error = []\<rparr>, rest)"
proof -
  let ?body = "fix_fields (msg_fields m)"
  let ?head = "fix_head (length ?body)"
  let ?after = "?body @ fix_trailer (?head @ ?body) @ rest"
  have wire: "fix_encode m @ rest = ?head @ ?after" by (simp add: fix_encode_shape)
  have "length ?body < 2 ^ 64 - length ?head - 7"
    using assms unfolding message_ok_def fix_encode_shape by (simp add: less_diff_conv)
  note aligned = extract_head [OF this, of ?after]
  have "substr (length ?body) 3 ?after = ''10=''" by (simp add: substr_def fix_trailer_def)
  moreover have "take (length ?body + 7) ?after = ?body @ fix_trailer (?head @ ?body)"
    "drop (length ?body + 7) ?after = rest"
    by simp_all
  ultimately have "extract_aligned (?head @ ?after) =
      (\<lparr>ex_status = MessageReady, ex_wire_message = fix_encode m, ex_error = []\<rparr>, rest)"
    using aligned by (simp add: fix_encode_shape)
  then show ?thesis
    using fix_head_search(5) [of "length ?body" ?after] unfolding wire
    by (simp add: extract_one_def) (auto simp: fix_head_def)
qed

lemma extract_one_short:
  assumes "length s \<le> 10" "prefix s (fix_head n)"
  shows "extract_one s = (need_more_data, s)"
proof -
  have head: "fix_head n = fix44_prefix @ ''9='' @ decimal n @ [soh]" "length fix44_prefix = 10"
    by (simp_all add: fix_head_def fix44_prefix_def)
  have s: "prefix s fix44_prefix" using assms head by (metis prefixI prefix_length_prefix)
  show ?thesis
  proof (cases "length s = 10")
    case True
    then have "s = fix44_prefix" using s head(2) unfolding prefix_def by (metis append_eq_append_conv append_Nil2)
    then have "find_from soh 0 s = Some 9" "length s = 10"
      using find_from_start [of soh "''8=FIX.4.4''" "[]"] by (simp_all add: fix44_prefix_def soh_def)
    then have "extract_aligned s = (need_more_data, s)" by (simp add: extract_aligned_def)
    then show ?thesis using \<open>s = fix44_prefix\<close> by (simp add: extract_one_def)
  next
    case False
    then have "length s < 10" using assms(1) by simp
    have "\<not> prefix fix44_prefix s" using \<open>length s < 10\<close> head(2) prefix_length_le [of fix44_prefix s] by linarith
    moreover have "find_text fix44_prefix s = None"
      using \<open>length s < 10\<close> head(2) find_text_length [of fix44_prefix s] by (cases "find_text fix44_prefix s") auto
    ultimately show ?thesis using \<open>length s < 10\<close> head(2) by (simp add: extract_one_def)
  qed
qed

lemma soh_not_in_length: "soh \<notin> set (''9='' @ decimal n)"
  using not_digit(1) by (simp add: soh_def)

lemma extract_one_torn:
  assumes "message_ok m" "k < length (fix_encode m)"
  shows "extract_one (take k (fix_encode m)) = (need_more_data, take k (fix_encode m))"
proof -
  let ?n = "length (fix_fields (msg_fields m))"
  let ?s = "take k (fix_encode m)"
  define after where "after = fix_fields (msg_fields m) @ fix_trailer (fix_head ?n @ fix_fields (msg_fields m))"
  have wire: "fix_encode m = fix_head ?n @ after" "length after = ?n + 7"
    by (simp_all add: fix_encode_shape after_def)
  consider "k \<le> 10" | "10 < k" "k < length (fix_head ?n)" | "length (fix_head ?n) \<le> k" by linarith
  then show ?thesis
  proof cases
    case 1
    have "13 \<le> length (fix_head ?n)" by (simp add: length_fix_head)
    then have "?s = take k (fix_head ?n)" using 1 wire(1) by simp
    then show ?thesis using 1 extract_one_short [of ?s ?n] by (simp add: take_is_prefix)
  next
    case 2
    then obtain i where i: "k = 10 + i" "i < length (decimal ?n) + 3" by (auto simp: length_fix_head less_iff_Suc_add)
    have s: "?s = fix44_prefix @ take i (''9='' @ decimal ?n)"
    proof -
      have "fix_encode m = fix44_prefix @ (''9='' @ decimal ?n) @ soh # after"
        using wire(1) by (simp add: fix_head_def fix44_prefix_def)
      then have "?s = fix44_prefix @ take i ((''9='' @ decimal ?n) @ soh # after)"
        by (simp only: i(1) take_append) (simp add: fix44_prefix_def)
      moreover have "i \<le> length (''9='' @ decimal ?n)" using i(2) by simp
      ultimately show ?thesis by (simp only: take_append) simp
    qed
    have "soh \<notin> set (take i (''9='' @ decimal ?n))"
      using not_digit(1) by (meson in_set_takeD soh_not_in_length)
    then have "find_from soh 10 ?s = None" by (intro find_from_none) (simp add: s fix44_prefix_def)
    moreover have "find_from soh 0 ?s = Some 9"
      using find_from_start [of soh "''8=FIX.4.4''" "take i (''9='' @ decimal ?n)"]
      unfolding s by (simp add: fix44_prefix_def soh_def)
    moreover have "prefix fix44_prefix ?s" "?s \<noteq> []" by (simp_all add: s fix44_prefix_def)
    moreover have "length ?s < 12 \<or> substr 10 2 ?s = ''9=''"
    proof (cases "i < 2")
      case False
      then obtain j where "i = Suc (Suc j)" by (metis Suc_1 add_2_eq_Suc le_iff_add not_less)
      then have "?s = fix44_prefix @ ''9='' @ take j (decimal ?n)" unfolding s by simp
      then show ?thesis by (simp add: substr_def fix44_prefix_def)
    qed (simp add: s fix44_prefix_def)
    ultimately show ?thesis by (auto simp: extract_one_def extract_aligned_def Let_def)
  next
    case 3
    have s: "?s = fix_head ?n @ take (k - length (fix_head ?n)) after" using 3 wire(1) by simp
    have "?n < 2 ^ 64 - length (fix_head ?n) - 7"
      using assms(1) unfolding message_ok_def fix_encode_shape by (simp add: less_diff_conv)
    from extract_head [OF this, of "take (k - length (fix_head ?n)) after"]
    moreover have "length (take (k - length (fix_head ?n)) after) < ?n + 7" using 3 assms(2) wire by simp
    ultimately have "extract_aligned ?s = (need_more_data, ?s)" unfolding s by simp
    moreover have "prefix fix44_prefix ?s" unfolding s by (rule fix_head_search(5))
    moreover have "?s \<noteq> []" unfolding s by (simp add: fix_head_def)
    ultimately show ?thesis by (simp add: extract_one_def)
  qed
qed
section \<open>Properties\<close>

definition sample_message :: Message where
  "sample_message = message_add 11 ''A1'' (message_add 35 ''D'' new_message)"

lemma sample_message_ok: "message_ok sample_message"
proof -
  have "length (fix_encode sample_message) = 33" by code_simp
  moreover have "message_get 35 sample_message = Some ''D''" by code_simp
  ultimately show ?thesis
    by (auto simp: message_ok_def has_type_def)
      (auto simp: sample_message_def message_add_def new_message_def field_ok_def reserved_def soh_def)
qed

text \<open>
  C34. What the FIX encoder prints the FIX parser reads back: a message with a message type, with
  tags of a positive \<^verbatim>\<open>int\<close> other than 8, 9 and 10, which the encoder writes itself, and with values
  free of the separator is recovered field for field from its wire text. And from any text whatever the parser
  accepts only a message with a type, with positive tags and with values free of the separator.
\<close>

theorem fix_roundtrip:
  "(message_ok m \<longrightarrow> fix_parse (fix_encode m) = Inr m) \<and>
   (fix_parse wire = Inr m' \<longrightarrow> has_type m' \<and> (\<forall>f\<in>set (msg_fields m'). field_ok f))"
  using fix_parse_encode fix_parse_sound by blast

theorem fix_roundtrip_witness:
  "fix_parse (fix_encode sample_message) = Inr sample_message \<and> has_type sample_message"
  using fix_roundtrip [of sample_message "fix_encode sample_message" sample_message] sample_message_ok by blast

text \<open>
  The receive buffer of a FIX session is cut exactly at the ends of the messages: from a buffer that
  begins with an encoded message precisely this message is taken and what follows stays; as long as the
  message is incomplete, after any number of its bytes, nothing is taken and no error is reported.
\<close>

theorem fix_stream_cut:
  assumes "message_ok m"
  shows "extract_one (fix_encode m @ rest) =
      (\<lparr>ex_status = MessageReady, ex_wire_message = fix_encode m, ex_error = []\<rparr>, rest) \<and>
    (\<forall>k. k < length (fix_encode m) \<longrightarrow>
      extract_one (take k (fix_encode m)) = (need_more_data, take k (fix_encode m)))"
  using extract_one_encoded [OF assms] extract_one_torn [OF assms] by blast

theorem fix_stream_cut_witness:
  "extract_one (fix_encode sample_message @ ''8=F'') =
      (\<lparr>ex_status = MessageReady, ex_wire_message = fix_encode sample_message, ex_error = []\<rparr>, ''8=F'') \<and>
    extract_one (take 12 (fix_encode sample_message)) = (need_more_data, take 12 (fix_encode sample_message))"
proof -
  have "12 < length (fix_encode sample_message)" by code_simp
  then show ?thesis using fix_stream_cut [OF sample_message_ok, of "''8=F''"] by blast
qed


end
