(* ===== verification/Fix_Gateway.thy ===== *)
theory Fix_Gateway
  imports Fix Protocol
begin

text \<open>
  The FIX gateway, \<^verbatim>\<open>include/exchange/fix_gateway.hpp\<close> and \<^verbatim>\<open>src/fix_gateway.cpp\<close>: the translation of FIX requests
  to the binary protocol, the state of a session with its orders and the requests the core has not
  answered yet, the handlers of both directions and the loop of a session.

  What the code takes from outside is in the environment: the clocks, whether a send succeeds and
  whether the core can be reached, each as a function of the sequence number of the message it is
  for, the order in which a hash set is walked, and the operations on \<^verbatim>\<open>long double\<close>, whose precision the language leaves open. The two
  counters that the sessions of a gateway share are part of the state a handler is given and returns.
\<close>

section \<open>State\<close>

record FixGatewayConfig =
  cfg_listen_port :: u16
  cfg_exchange_host :: string
  cfg_exchange_port :: u16
  cfg_sender_comp_id :: string
  cfg_default_heartbeat_seconds :: u32

definition default_gateway_config :: FixGatewayConfig where
  "default_gateway_config = \<lparr>cfg_listen_port = 9878, cfg_exchange_host = ''127.0.0.1'',
     cfg_exchange_port = 9000, cfg_sender_comp_id = ''EXCHANGELAB'', cfg_default_heartbeat_seconds = 30\<rparr>"

record CoreMessage =
  cm_header :: MessageHeader
  cm_body :: "u8 list"

datatype PendingKind = Pending_New | Pending_Cancel | Pending_Replace

record PendingRequest =
  pr_kind :: PendingKind
  pr_cl_ord_id :: string
  pr_orig_cl_ord_id :: string
  pr_replacement_total_quantity :: u64
  pr_replacement_working_quantity :: u64
  pr_replacement_price :: int

record 'n OrderState =
  os_numeric_order_id :: u64
  os_symbol :: Symbol
  os_side :: PSide
  os_order_type :: POrderType
  os_time_in_force :: PTimeInForce
  os_current_cl_ord_id :: string
  os_order_quantity :: u64
  os_cumulative_quantity :: u64
  os_leaves_quantity :: u64
  os_cumulative_notional :: 'n
  os_price :: int
  os_ord_status :: char

text \<open>
  \<open>sc_fix_sent\<close> and \<open>sc_core_sent\<close> are what the session has written to its two sockets; the orders that wait for
  the end of their execution are a set in the code, here a list without duplicates.
\<close>

record 'n SessionContext =
  sc_core_connected :: bool
  sc_logged_on :: bool
  sc_closing :: bool
  sc_client_comp_id :: string
  sc_heartbeat_seconds :: u32
  sc_expected_inbound_sequence :: u64
  sc_next_outbound_sequence :: u64
  sc_next_core_sequence :: u64
  sc_fix_receive_buffer :: string
  sc_core_receive_buffer :: "u8 list"
  sc_orders :: "u64 \<rightharpoonup> 'n OrderState"
  sc_clord_to_order :: "string \<rightharpoonup> u64"
  sc_used_clord_ids :: "string set"
  sc_pending :: "u64 \<rightharpoonup> PendingRequest list"
  sc_non_resting_awaiting_boundary :: "u64 list"
  sc_last_self_trade_key :: string
  sc_self_trade_duplicate_messages_to_ignore :: u32
  sc_last_fix_receive :: nat
  sc_last_fix_send :: nat
  sc_next_numeric_order_id :: u64
  sc_next_exec_id :: u64
  sc_fix_sent :: "string list"
  sc_core_sent :: "u8 list list"

record 'n LongDouble =
  ld_zero :: 'n
  ld_add_product :: "'n \<Rightarrow> int \<Rightarrow> u64 \<Rightarrow> 'n"
  ld_divide :: "'n \<Rightarrow> u64 \<Rightarrow> 'n"
  ld_truncate :: "'n \<Rightarrow> int"
  ld_of_int :: "int \<Rightarrow> 'n"
  ld_to_text :: "'n \<Rightarrow> string"

record 'n GatewayEnvironment =
  ge_utc :: "u64 \<Rightarrow> UtcTime"
  ge_steady_clock :: "u64 \<Rightarrow> nat"
  ge_client_send :: "u64 \<Rightarrow> bool"
  ge_now_nanoseconds :: "u64 \<Rightarrow> u64"
  ge_core_send :: "u64 \<Rightarrow> bool"
  ge_core_connects :: bool
  ge_hash_order :: "u64 list \<Rightarrow> u64 list"
  ge_long_double :: "'n LongDouble"

definition new_session :: "FixGatewayConfig \<Rightarrow> nat \<Rightarrow> u64 \<Rightarrow> u64 \<Rightarrow> 'n SessionContext" where
  "new_session config now next_numeric_order_id next_exec_id =
     \<lparr>sc_core_connected = False, sc_logged_on = False, sc_closing = False, sc_client_comp_id = [],
      sc_heartbeat_seconds = cfg_default_heartbeat_seconds config, sc_expected_inbound_sequence = 1,
      sc_next_outbound_sequence = 1, sc_next_core_sequence = 1, sc_fix_receive_buffer = [],
      sc_core_receive_buffer = [], sc_orders = Map.empty, sc_clord_to_order = Map.empty,
      sc_used_clord_ids = {}, sc_pending = Map.empty, sc_non_resting_awaiting_boundary = [],
      sc_last_self_trade_key = [], sc_self_trade_duplicate_messages_to_ignore = 0,
      sc_last_fix_receive = now, sc_last_fix_send = now, sc_next_numeric_order_id = next_numeric_order_id,
      sc_next_exec_id = next_exec_id, sc_fix_sent = [], sc_core_sent = []\<rparr>"

definition first_numeric_order_id :: u64 where "first_numeric_order_id = push_bit 62 1"

section \<open>Sending to the client\<close>

definition u64_text :: "u64 \<Rightarrow> string" where "u64_text v = decimal (unat v)"

definition fields_of :: "(int \<times> string) list \<Rightarrow> Field list" where
  "fields_of = map (\<lambda>(t, v). \<lparr>fld_tag = t, fld_value = v\<rparr>)"

definition session_message ::
    "'n GatewayEnvironment \<Rightarrow> FixGatewayConfig \<Rightarrow> string \<Rightarrow> (int \<times> string) list \<Rightarrow>
      'n SessionContext \<Rightarrow> Message" where
  "session_message env config message_type extra s =
     \<lparr>msg_fields = fields_of ([(35, message_type), (34, u64_text (sc_next_outbound_sequence s)),
        (49, cfg_sender_comp_id config),
        (56, if sc_client_comp_id s = [] then ''UNKNOWN'' else sc_client_comp_id s),
        (52, utc_timestamp (ge_utc env (sc_next_outbound_sequence s)))] @ extra)\<rparr>"

definition send_session_message ::
    "'n GatewayEnvironment \<Rightarrow> FixGatewayConfig \<Rightarrow> string \<Rightarrow> (int \<times> string) list \<Rightarrow>
      'n SessionContext \<Rightarrow> bool \<times> 'n SessionContext" where
  "send_session_message env config message_type extra s =
     (let sequence = sc_next_outbound_sequence s;
          wire = fix_encode (session_message env config message_type extra s);
          s = s\<lparr>sc_next_outbound_sequence := sequence + 1\<rparr>
      in if ge_client_send env sequence then
           (True, s\<lparr>sc_fix_sent := sc_fix_sent s @ [wire], sc_last_fix_send := ge_steady_clock env sequence\<rparr>)
         else (False, s))"

definition required_field :: "Message \<Rightarrow> int \<Rightarrow> string \<Rightarrow> string option \<times> string" where
  "required_field message t error =
     (case message_get t message of
        None \<Rightarrow> (None, ''required FIX tag '' @ decimal_int t @ '' is missing'')
      | Some value \<Rightarrow>
          if value = [] then (None, ''required FIX tag '' @ decimal_int t @ '' is missing'')
          else (Some value, error))"

definition side_text :: "PSide \<Rightarrow> string" where
  "side_text side = (if side = PBuy then ''1'' else ''2'')"

definition ord_type_text :: "POrderType \<Rightarrow> string" where
  "ord_type_text t = (if t = PLimit then ''2'' else ''1'')"

fun tif_text :: "PTimeInForce \<Rightarrow> string" where
  "tif_text PGoodTillCancel = ''1''"
| "tif_text PImmediateOrCancel = ''3''"
| "tif_text PFillOrKill = ''4''"

definition strip_zeros :: "string \<Rightarrow> string" where
  "strip_zeros value =
     (let stripped = rev (dropWhile (\<lambda>c. c = CHR ''0'') (rev value))
      in if stripped = [] then take 1 value else stripped)"

definition average_price_text :: "'n LongDouble \<Rightarrow> 'n OrderState \<Rightarrow> string" where
  "average_price_text ld order =
     (if os_cumulative_quantity order = 0 then ''0''
      else
        let average = ld_divide ld (os_cumulative_notional order) (os_cumulative_quantity order);
            rounded = ld_truncate ld average
        in if average = ld_of_int ld rounded then decimal_int rounded
           else
             let value = strip_zeros (ld_to_text ld average)
             in if value \<noteq> [] \<and> last value = CHR ''.'' then butlast value else value)"

definition optional_field :: "int \<Rightarrow> string option \<Rightarrow> (int \<times> string) list" where
  "optional_field t value = (case value of None \<Rightarrow> [] | Some v \<Rightarrow> [(t, v)])"

definition send_execution_report ::
    "'n GatewayEnvironment \<Rightarrow> FixGatewayConfig \<Rightarrow> 'n OrderState \<Rightarrow> string \<Rightarrow> string \<Rightarrow> char \<Rightarrow>
      string option \<Rightarrow> u64 option \<Rightarrow> int option \<Rightarrow> string option \<Rightarrow>
      'n SessionContext \<Rightarrow> bool \<times> 'n SessionContext" where
  "send_execution_report env config order cl_ord_id exec_type ord_status orig_cl_ord_id last_quantity
     last_price txt s =
     (let exec_id = sc_next_exec_id s; s = s\<lparr>sc_next_exec_id := exec_id + 1\<rparr>;
          extra = [(37, u64_text (os_numeric_order_id order)), (11, cl_ord_id)] @
            optional_field 41 orig_cl_ord_id @
            [(17, u64_text exec_id), (150, exec_type), (39, [ord_status]),
             (55, symbol_to_string (os_symbol order)), (54, side_text (os_side order)),
             (38, u64_text (os_order_quantity order)), (40, ord_type_text (os_order_type order))] @
            (if os_order_type order = PLimit then [(44, decimal_int (os_price order))] else []) @
            [(59, tif_text (os_time_in_force order)), (14, u64_text (os_cumulative_quantity order)),
             (151, u64_text (os_leaves_quantity order)),
             (6, average_price_text (ge_long_double env) order)] @
            optional_field 32 (map_option u64_text last_quantity) @
            optional_field 31 (map_option decimal_int last_price) @ optional_field 58 txt
      in send_session_message env config ''8'' extra s)"

definition send_new_reject ::
    "'n GatewayEnvironment \<Rightarrow> FixGatewayConfig \<Rightarrow> string \<Rightarrow> string \<Rightarrow> string \<Rightarrow> string \<Rightarrow> string \<Rightarrow>
      'n SessionContext \<Rightarrow> bool \<times> 'n SessionContext" where
  "send_new_reject env config cl_ord_id symb side quantity reason s =
     (let exec_id = sc_next_exec_id s; s = s\<lparr>sc_next_exec_id := exec_id + 1\<rparr>
      in send_session_message env config ''8''
           [(37, ''NONE''), (11, cl_ord_id), (17, u64_text exec_id), (150, ''8''), (39, ''8''), (55, symb),
            (54, side), (38, quantity), (14, ''0''), (151, ''0''), (6, ''0''), (58, reason)] s)"

definition send_cancel_reject ::
    "'n GatewayEnvironment \<Rightarrow> FixGatewayConfig \<Rightarrow> 'n OrderState option \<Rightarrow> string \<Rightarrow> string \<Rightarrow>
      PendingKind \<Rightarrow> string \<Rightarrow> 'n SessionContext \<Rightarrow> bool \<times> 'n SessionContext" where
  "send_cancel_reject env config order cl_ord_id orig_cl_ord_id kind reason =
     send_session_message env config ''9''
       [(37, case order of Some x \<Rightarrow> u64_text (os_numeric_order_id x) | None \<Rightarrow> ''NONE''), (11, cl_ord_id),
        (41, orig_cl_ord_id), (39, case order of Some x \<Rightarrow> [os_ord_status x] | None \<Rightarrow> ''8''),
        (434, if kind = Pending_Cancel then ''1'' else ''2''), (102, ''99''), (58, reason)]"

definition send_session_reject ::
    "'n GatewayEnvironment \<Rightarrow> FixGatewayConfig \<Rightarrow> u64 \<Rightarrow> string \<Rightarrow> string option \<Rightarrow>
      'n SessionContext \<Rightarrow> bool \<times> 'n SessionContext" where
  "send_session_reject env config reference_sequence reason reference_message_type =
     send_session_message env config ''3''
       ([(45, u64_text reference_sequence), (373, ''99''), (58, reason)] @
        optional_field 372 reference_message_type)"

section \<open>The connection to the core\<close>

definition send_core_request ::
    "'n GatewayEnvironment \<Rightarrow> MessageType \<Rightarrow> u8 list \<Rightarrow> 'n SessionContext \<Rightarrow> bool \<times> 'n SessionContext" where
  "send_core_request env t body s =
     (let sequence = sc_next_core_sequence s;
          header = \<lparr>hdr_magic = protocol_magic, hdr_version = protocol_version, hdr_type = t,
            hdr_body_size = word_of_nat (length body), hdr_sequence_number = sequence\<rparr>;
          wire = encode_header header @ body; s = s\<lparr>sc_next_core_sequence := sequence + 1\<rparr>
      in if ge_core_send env sequence then (True, s\<lparr>sc_core_sent := sc_core_sent s @ [wire]\<rparr>) else (False, s))"

definition extract_core_message :: "u8 list \<Rightarrow> CoreMessage option \<times> u8 list" where
  "extract_core_message buffer =
     (if length buffer < header_size then (None, buffer)
      else
        (case decode_header (take header_size buffer) of
           None \<Rightarrow> (None, [])
         | Some header \<Rightarrow>
             let body_size = unat (hdr_body_size header)
             in if body_size > size_max - header_size then (None, [])
                else
                  let total_size = header_size + body_size
                  in if length buffer < total_size then (None, buffer)
                     else (Some \<lparr>cm_header = header, cm_body = take body_size (drop header_size buffer)\<rparr>,
                           drop total_size buffer)))"

section \<open>Checks\<close>

definition sequence_number :: "Message \<Rightarrow> u64 option" where
  "sequence_number message = (case message_get 34 message of None \<Rightarrow> None | Some value \<Rightarrow> parse_u64 value)"

text \<open>\<open>Some\<close> is the error text.\<close>

definition validate_comp_ids ::
    "Message \<Rightarrow> 'n SessionContext \<Rightarrow> FixGatewayConfig \<Rightarrow> string option" where
  "validate_comp_ids message s config =
     (case (message_get 49 message, message_get 56 message) of
        (Some sender, Some target) \<Rightarrow>
          (if target \<noteq> cfg_sender_comp_id config then Some ''TargetCompID does not match gateway''
           else if sc_logged_on s \<and> sender \<noteq> sc_client_comp_id s then
             Some ''SenderCompID changed during session''
           else None)
      | _ \<Rightarrow> Some ''SenderCompID (49) and TargetCompID (56) are required'')"

definition ensure_unique_clordid :: "string \<Rightarrow> 'n SessionContext \<Rightarrow> bool \<times> 'n SessionContext" where
  "ensure_unique_clordid cl_ord_id s =
     (cl_ord_id \<notin> sc_used_clord_ids s, s\<lparr>sc_used_clord_ids := insert cl_ord_id (sc_used_clord_ids s)\<rparr>)"

section \<open>Translation of a new order\<close>

record NewOrderTranslation =
  not_request :: NewOrderRequest
  not_cl_ord_id :: string

definition translate_side :: "string \<Rightarrow> PSide option" where
  "translate_side v = (if v = ''1'' then Some PBuy else if v = ''2'' then Some PSell else None)"

definition translate_order_type :: "string \<Rightarrow> POrderType option" where
  "translate_order_type v = (if v = ''1'' then Some PMarket else if v = ''2'' then Some PLimit else None)"

definition translate_time_in_force :: "string \<Rightarrow> PTimeInForce option" where
  "translate_time_in_force v =
     (if v = ''1'' then Some PGoodTillCancel else if v = ''3'' then Some PImmediateOrCancel
      else if v = ''4'' then Some PFillOrKill else None)"

definition translate_price :: "Message \<Rightarrow> POrderType \<Rightarrow> string + int" where
  "translate_price message order_type =
     (if order_type = PLimit then
        (case required_field message 44 [] of
           (None, error) \<Rightarrow> Inl error
         | (Some price_text, _) \<Rightarrow>
             (case parse_i64 price_text of
                None \<Rightarrow> Inl ''Price must be a positive integer tick value''
              | Some parsed_price \<Rightarrow>
                  if parsed_price \<le> 0 then Inl ''Price must be a positive integer tick value''
                  else Inr parsed_price))
      else Inr 0)"

definition translate_tif :: "Message \<Rightarrow> POrderType \<Rightarrow> string + PTimeInForce" where
  "translate_tif message order_type =
     (let standard = (if order_type = PMarket then PImmediateOrCancel else PGoodTillCancel);
          chosen = (case message_get 59 message of
             None \<Rightarrow> Inr standard
           | Some tif \<Rightarrow>
               (case translate_time_in_force tif of
                  None \<Rightarrow> Inl ''unsupported TimeInForce; use 59=1 (GTC), 3 (IOC), or 4 (FOK)''
                | Some translated_tif \<Rightarrow> Inr translated_tif))
      in (case chosen of
            Inl error \<Rightarrow> Inl error
          | Inr time_in_force \<Rightarrow>
              Inr (if order_type = PMarket \<and> time_in_force = PGoodTillCancel then PImmediateOrCancel
                   else time_in_force)))"

text \<open>\<open>Inl\<close> is the error text; of several missing fields the last one is named.\<close>

definition translate_new_order_single :: "Message \<Rightarrow> u64 \<Rightarrow> u64 \<Rightarrow> string + NewOrderTranslation" where
  "translate_new_order_single message numeric_order_id timestamp =
     (let (cl_ord_id, error) = required_field message 11 [];
          (symbol_text, error) = required_field message 55 error;
          (side_value, error) = required_field message 54 error;
          (quantity_text, error) = required_field message 38 error;
          (order_type_text, error) = required_field message 40 error
      in if cl_ord_id = None \<or> symbol_text = None \<or> side_value = None \<or> quantity_text = None \<or>
            order_type_text = None then Inl error
         else
           let symb = make_symbol (the symbol_text)
           in if \<not> is_valid_symbol symb then
                Inl ''invalid Symbol; use 1-8 uppercase A-Z/0-9/./- characters''
              else
                (case translate_side (the side_value) of
                   None \<Rightarrow> Inl ''unsupported Side; use 54=1 (Buy) or 54=2 (Sell)''
                 | Some side \<Rightarrow>
                     (case translate_order_type (the order_type_text) of
                        None \<Rightarrow> Inl ''unsupported OrdType; use 40=1 (Market) or 40=2 (Limit)''
                      | Some order_type \<Rightarrow>
                          (case parse_u64 (the quantity_text) of
                             None \<Rightarrow> Inl ''invalid OrderQty''
                           | Some quantity \<Rightarrow>
                               if quantity = 0 \<or> quantity > 0xFFFFFFFF then Inl ''invalid OrderQty''
                               else
                                 (case translate_price message order_type of
                                    Inl error \<Rightarrow> Inl error
                                  | Inr price \<Rightarrow>
                                      (case translate_tif message order_type of
                                         Inl error \<Rightarrow> Inl error
                                       | Inr time_in_force \<Rightarrow>
                                           Inr \<lparr>not_request = \<lparr>nor_order_id = numeric_order_id,
                                               nor_timestamp = timestamp, nor_price = price,
                                               nor_quantity = quantity, nor_side = side,
                                               nor_order_type = order_type,
                                               nor_time_in_force = time_in_force, nor_symbol = symb\<rparr>,
                                             not_cl_ord_id = the cl_ord_id\<rparr>))))))"

end
