(* ===== verification/Fix_Handlers.thy ===== *)
theory Fix_Handlers
  imports Fix_Gateway
begin

text \<open>
  The handlers of a FIX session, \<^verbatim>\<open>src/fix_gateway.cpp\<close>: the requests of the client, the
  answers and trades of the core, and the loop that reads both sockets. A handler returns whether
  the session is still healthy, as in the code, and the new state.
\<close>

section \<open>Orders and pending requests\<close>

definition set_order :: "u64 \<Rightarrow> 'n OrderState \<Rightarrow> 'n SessionContext \<Rightarrow> 'n SessionContext" where
  "set_order i order s = s\<lparr>sc_orders := (sc_orders s)(i \<mapsto> order)\<rparr>"

text \<open>\<^verbatim>\<open>emplace\<close> keeps an entry that is there.\<close>

definition emplace :: "'k \<Rightarrow> 'v \<Rightarrow> ('k \<rightharpoonup> 'v) \<Rightarrow> ('k \<rightharpoonup> 'v)" where
  "emplace k v m = (case m k of None \<Rightarrow> m(k \<mapsto> v) | Some _ \<Rightarrow> m)"

definition pending_of :: "'n SessionContext \<Rightarrow> u64 \<Rightarrow> PendingRequest list" where
  "pending_of s i = (case sc_pending s i of None \<Rightarrow> [] | Some q \<Rightarrow> q)"

definition push_pending :: "u64 \<Rightarrow> PendingRequest \<Rightarrow> 'n SessionContext \<Rightarrow> 'n SessionContext" where
  "push_pending i request s = s\<lparr>sc_pending := (sc_pending s)(i \<mapsto> pending_of s i @ [request])\<rparr>"

definition drop_last_pending :: "u64 \<Rightarrow> 'n SessionContext \<Rightarrow> 'n SessionContext" where
  "drop_last_pending i s = s\<lparr>sc_pending := (sc_pending s)(i \<mapsto> butlast (pending_of s i))\<rparr>"

definition plain_request :: "PendingKind \<Rightarrow> string \<Rightarrow> string \<Rightarrow> PendingRequest" where
  "plain_request kind cl_ord_id orig_cl_ord_id =
     \<lparr>pr_kind = kind, pr_cl_ord_id = cl_ord_id, pr_orig_cl_ord_id = orig_cl_ord_id,
      pr_replacement_total_quantity = 0, pr_replacement_working_quantity = 0, pr_replacement_price = 0\<rparr>"

section \<open>Requests of the client\<close>

definition text_or :: "int \<Rightarrow> string \<Rightarrow> Message \<Rightarrow> string" where
  "text_or t standard message = (case message_get t message of None \<Rightarrow> standard | Some v \<Rightarrow> v)"

definition enter_translated_order ::
    "'n GatewayEnvironment \<Rightarrow> FixGatewayConfig \<Rightarrow> NewOrderTranslation \<Rightarrow> 'n SessionContext \<Rightarrow>
      bool \<times> 'n SessionContext" where
  "enter_translated_order env config translated s =
     (let request = not_request translated; numeric_order_id = nor_order_id request;
          cl_ord_id = not_cl_ord_id translated;
          order = \<lparr>os_numeric_order_id = numeric_order_id, os_symbol = nor_symbol request,
            os_side = nor_side request, os_order_type = nor_order_type request,
            os_time_in_force = nor_time_in_force request, os_current_cl_ord_id = cl_ord_id,
            os_order_quantity = nor_quantity request, os_cumulative_quantity = 0,
            os_leaves_quantity = nor_quantity request,
            os_cumulative_notional = ld_zero (ge_long_double env), os_price = nor_price request,
            os_ord_status = CHR ''0''\<rparr>;
          s = s\<lparr>sc_orders := emplace numeric_order_id order (sc_orders s),
            sc_clord_to_order := emplace cl_ord_id numeric_order_id (sc_clord_to_order s)\<rparr>;
          s = push_pending numeric_order_id (plain_request Pending_New cl_ord_id []) s
      in case send_core_request env MT_NewOrder (encode_new_order request) s of
           (True, s) \<Rightarrow> (True, s)
         | (False, s) \<Rightarrow>
             let s = drop_last_pending numeric_order_id s;
                 s = s\<lparr>sc_clord_to_order := (sc_clord_to_order s)(cl_ord_id := None),
                   sc_orders := (sc_orders s)(numeric_order_id := None)\<rparr>
             in send_new_reject env config cl_ord_id (symbol_to_string (nor_symbol request))
                  (side_text (nor_side request)) (u64_text (nor_quantity request))
                  ''core exchange connection failed'' s)"

definition gateway_new_order ::
    "'n GatewayEnvironment \<Rightarrow> FixGatewayConfig \<Rightarrow> Message \<Rightarrow> 'n SessionContext \<Rightarrow>
      bool \<times> 'n SessionContext" where
  "gateway_new_order env config message s =
     (let cl_ord_id = text_or 11 ''MISSING'' message; symb = text_or 55 ''UNKNOWN'' message;
          side = text_or 54 ''?'' message; quantity = text_or 38 ''0'' message;
          (unique, s) = (case message_get 11 message of
             None \<Rightarrow> (True, s) | Some v \<Rightarrow> ensure_unique_clordid v s)
      in if \<not> unique then send_new_reject env config cl_ord_id symb side quantity ''duplicate ClOrdID'' s
         else
           let numeric_order_id = sc_next_numeric_order_id s;
               s = s\<lparr>sc_next_numeric_order_id := numeric_order_id + 1\<rparr>
           in (case translate_new_order_single message numeric_order_id
                  (ge_now_nanoseconds env (sc_next_core_sequence s)) of
                 Inl error \<Rightarrow> send_new_reject env config cl_ord_id symb side quantity error s
               | Inr translated \<Rightarrow> enter_translated_order env config translated s))"

text \<open>
  The checks that cancellation and replacement share: the two identifiers, that the first is new,
  and that the second names an order that still works. They end with a rejection or with the order.
\<close>

definition find_working_order ::
    "'n GatewayEnvironment \<Rightarrow> FixGatewayConfig \<Rightarrow> PendingKind \<Rightarrow> Message \<Rightarrow> 'n SessionContext \<Rightarrow>
      (bool \<times> 'n SessionContext) + (string \<times> string \<times> u64 \<times> 'n OrderState \<times> 'n SessionContext)" where
  "find_working_order env config kind message s =
     (let (cl_ord_id, error) = required_field message 11 [];
          (orig_cl_ord_id, error) = required_field message 41 error
      in case (cl_ord_id, orig_cl_ord_id) of
           (Some cl_ord_id, Some orig_cl_ord_id) \<Rightarrow>
             (let reject = (\<lambda>order reason s. Inl (send_cancel_reject env config order cl_ord_id orig_cl_ord_id kind reason s));
                  (unique, s) = ensure_unique_clordid cl_ord_id s
              in if \<not> unique then reject None ''duplicate ClOrdID'' s
                 else
                   (case sc_clord_to_order s orig_cl_ord_id of
                      None \<Rightarrow> reject None ''unknown OrigClOrdID'' s
                    | Some numeric_order_id \<Rightarrow>
                        (case sc_orders s numeric_order_id of
                           None \<Rightarrow> reject None ''order is no longer working'' s
                         | Some order \<Rightarrow>
                             if os_leaves_quantity order = 0 then
                               reject (Some order) ''order is no longer working'' s
                             else Inr (cl_ord_id, orig_cl_ord_id, numeric_order_id, order, s))))
         | _ \<Rightarrow>
             Inl (send_cancel_reject env config None
               (case cl_ord_id of None \<Rightarrow> ''MISSING'' | Some v \<Rightarrow> v)
               (case orig_cl_ord_id of None \<Rightarrow> ''MISSING'' | Some v \<Rightarrow> v) kind error s))"

text \<open>A request is queued, sent, and taken back when the core cannot be reached.\<close>

definition forward_request ::
    "'n GatewayEnvironment \<Rightarrow> FixGatewayConfig \<Rightarrow> 'n OrderState \<Rightarrow> u64 \<Rightarrow> PendingRequest \<Rightarrow> MessageType \<Rightarrow>
      u8 list \<Rightarrow> 'n SessionContext \<Rightarrow> bool \<times> 'n SessionContext" where
  "forward_request env config order i request t body s =
     (case send_core_request env t body (push_pending i request s) of
        (True, s) \<Rightarrow> (True, s)
      | (False, s) \<Rightarrow>
          send_cancel_reject env config (Some order) (pr_cl_ord_id request) (pr_orig_cl_ord_id request)
            (pr_kind request) ''core exchange connection failed'' (drop_last_pending i s))"

definition handle_cancel ::
    "'n GatewayEnvironment \<Rightarrow> FixGatewayConfig \<Rightarrow> Message \<Rightarrow> 'n SessionContext \<Rightarrow>
      bool \<times> 'n SessionContext" where
  "handle_cancel env config message s =
     (case find_working_order env config Pending_Cancel message s of
        Inl rejected \<Rightarrow> rejected
      | Inr (cl_ord_id, orig_cl_ord_id, numeric_order_id, order, s) \<Rightarrow>
          forward_request env config order numeric_order_id
            (plain_request Pending_Cancel cl_ord_id orig_cl_ord_id) MT_CancelOrder
            (encode_cancel_order \<lparr>cor_order_id = numeric_order_id,
               cor_timestamp = ge_now_nanoseconds env (sc_next_core_sequence s), cor_symbol = os_symbol order\<rparr>) s)"

text \<open>What a replacement asks for, or the text of the first check it fails.\<close>

definition translate_replacement :: "Message \<Rightarrow> 'n OrderState \<Rightarrow> string + (u64 \<times> int)" where
  "translate_replacement message order =
     (let (symb, error) = required_field message 55 [];
          (quantity_text, error) = required_field message 38 error;
          (price_text, error) = required_field message 44 error
      in if symb = None \<or> quantity_text = None \<or> price_text = None then Inl error
         else if the symb \<noteq> symbol_to_string (os_symbol order) then Inl ''Symbol cannot change on replace''
         else if os_order_type order \<noteq> PLimit then Inl ''only working limit orders can be replaced''
         else
           (case parse_u64 (the quantity_text) of
              None \<Rightarrow> Inl ''invalid OrderQty''
            | Some total_quantity \<Rightarrow>
                if total_quantity = 0 \<or> total_quantity > 0xFFFFFFFF then Inl ''invalid OrderQty''
                else
                  (case parse_i64 (the price_text) of
                     None \<Rightarrow> Inl ''invalid Price''
                   | Some new_price \<Rightarrow>
                       if new_price \<le> 0 then Inl ''invalid Price''
                       else if total_quantity \<le> os_cumulative_quantity order then
                         Inl ''replacement OrderQty must exceed CumQty''
                       else
                         (case message_get 54 message of
                            None \<Rightarrow> Inr (total_quantity, new_price)
                          | Some side \<Rightarrow>
                              if translate_side side \<noteq> Some (os_side order) then
                                Inl ''Side cannot change on replace''
                              else Inr (total_quantity, new_price)))))"

definition handle_replace ::
    "'n GatewayEnvironment \<Rightarrow> FixGatewayConfig \<Rightarrow> Message \<Rightarrow> 'n SessionContext \<Rightarrow>
      bool \<times> 'n SessionContext" where
  "handle_replace env config message s =
     (case find_working_order env config Pending_Replace message s of
        Inl rejected \<Rightarrow> rejected
      | Inr (cl_ord_id, orig_cl_ord_id, numeric_order_id, order, s) \<Rightarrow>
          (case translate_replacement message order of
             Inl error \<Rightarrow>
               send_cancel_reject env config (Some order) cl_ord_id orig_cl_ord_id Pending_Replace error s
           | Inr (total_quantity, new_price) \<Rightarrow>
               let working_quantity = total_quantity - os_cumulative_quantity order;
                   i = os_numeric_order_id order
               in forward_request env config order i
                    \<lparr>pr_kind = Pending_Replace, pr_cl_ord_id = cl_ord_id,
                     pr_orig_cl_ord_id = orig_cl_ord_id, pr_replacement_total_quantity = total_quantity,
                     pr_replacement_working_quantity = working_quantity, pr_replacement_price = new_price\<rparr>
                    MT_ReplaceOrder
                    (encode_replace_order \<lparr>ror_order_id = i,
                       ror_timestamp = ge_now_nanoseconds env (sc_next_core_sequence s),
                       ror_new_price = new_price, ror_new_quantity = working_quantity,
                       ror_symbol = os_symbol order\<rparr>) s))"

section \<open>Answers of the core\<close>

definition answer_new ::
    "'n GatewayEnvironment \<Rightarrow> FixGatewayConfig \<Rightarrow> PendingRequest \<Rightarrow> bool \<Rightarrow> u64 \<Rightarrow> 'n OrderState \<Rightarrow>
      'n SessionContext \<Rightarrow> bool \<times> 'n SessionContext" where
  "answer_new env config pending success i order s =
     (if success then
        let order = order\<lparr>os_ord_status := CHR ''0''\<rparr>; s = set_order i order s;
            s = (if os_order_type order = PMarket \<or> os_time_in_force order \<noteq> PGoodTillCancel
                 then s\<lparr>sc_non_resting_awaiting_boundary :=
                   List.insert (os_numeric_order_id order) (sc_non_resting_awaiting_boundary s)\<rparr>
                 else s)
        in send_execution_report env config order (pr_cl_ord_id pending) ''0'' (os_ord_status order)
             None None None None s
      else
        let order = order\<lparr>os_leaves_quantity := 0, os_ord_status := CHR ''8''\<rparr>;
            (sent, s) = send_execution_report env config order (pr_cl_ord_id pending) ''8'' (CHR ''8'')
              None None None (Some ''rejected by ExchangeLab core or risk engine'') (set_order i order s)
        in (sent, s\<lparr>sc_clord_to_order := (sc_clord_to_order s)(os_current_cl_ord_id order := None),
              sc_orders := (sc_orders s)(i := None)\<rparr>))"

definition answer_cancel ::
    "'n GatewayEnvironment \<Rightarrow> FixGatewayConfig \<Rightarrow> PendingRequest \<Rightarrow> bool \<Rightarrow> u64 \<Rightarrow> 'n OrderState \<Rightarrow>
      'n SessionContext \<Rightarrow> bool \<times> 'n SessionContext" where
  "answer_cancel env config pending success i order s =
     (if \<not> success then
        send_cancel_reject env config (Some order) (pr_cl_ord_id pending) (pr_orig_cl_ord_id pending)
          Pending_Cancel ''cancel rejected by ExchangeLab core'' s
      else
        let order = order\<lparr>os_leaves_quantity := 0, os_ord_status := CHR ''4''\<rparr>
        in send_execution_report env config order (pr_cl_ord_id pending) ''4'' (CHR ''4'')
             (Some (pr_orig_cl_ord_id pending)) None None None (set_order i order s))"

definition answer_replace ::
    "'n GatewayEnvironment \<Rightarrow> FixGatewayConfig \<Rightarrow> PendingRequest \<Rightarrow> bool \<Rightarrow> u64 \<Rightarrow> 'n OrderState \<Rightarrow>
      'n SessionContext \<Rightarrow> bool \<times> 'n SessionContext" where
  "answer_replace env config pending success i order s =
     (if \<not> success then
        send_cancel_reject env config (Some order) (pr_cl_ord_id pending) (pr_orig_cl_ord_id pending)
          Pending_Replace ''replace rejected by ExchangeLab core or risk engine'' s
      else
        let order = order\<lparr>os_current_cl_ord_id := pr_cl_ord_id pending,
              os_order_quantity := pr_replacement_total_quantity pending,
              os_leaves_quantity := pr_replacement_working_quantity pending,
              os_price := pr_replacement_price pending,
              os_ord_status := (if os_cumulative_quantity order = 0 then CHR ''0'' else CHR ''1'')\<rparr>;
            s = set_order i order s;
            s = s\<lparr>sc_clord_to_order :=
              emplace (pr_cl_ord_id pending) (os_numeric_order_id order) (sc_clord_to_order s)\<rparr>
        in send_execution_report env config order (pr_cl_ord_id pending) ''5'' (os_ord_status order)
             (Some (pr_orig_cl_ord_id pending)) None None None s)"

definition handle_core_order_response ::
    "'n GatewayEnvironment \<Rightarrow> FixGatewayConfig \<Rightarrow> CoreMessage \<Rightarrow> 'n SessionContext \<Rightarrow>
      bool \<times> 'n SessionContext" where
  "handle_core_order_response env config message s =
     (case decode_order_response (cm_body message) of
        None \<Rightarrow> (True, s)
      | Some response \<Rightarrow>
          let i = rsp_order_id response
          in (case pending_of s i of
                [] \<Rightarrow> (True, s)
              | pending # others \<Rightarrow>
                  let s = s\<lparr>sc_pending := (sc_pending s)(i := if others = [] then None else Some others)\<rparr>
                  in (case sc_orders s i of
                        None \<Rightarrow> (True, s)
                      | Some order \<Rightarrow>
                          let success = (rsp_success response \<noteq> 0 \<and> hdr_type (cm_header message) \<noteq> MT_OrderRejected)
                          in (case pr_kind pending of
                                Pending_New \<Rightarrow> answer_new env config pending success i order s
                              | Pending_Cancel \<Rightarrow> answer_cancel env config pending success i order s
                              | Pending_Replace \<Rightarrow> answer_replace env config pending success i order s))))"

section \<open>Trades\<close>

definition self_trade_key :: "TradeExecution \<Rightarrow> string" where
  "self_trade_key execution =
     u64_text (tex_buy_order_id execution) @ '':'' @ u64_text (tex_sell_order_id execution) @ '':'' @
     decimal_int (tex_price execution) @ '':'' @ u64_text (tex_quantity execution)"

definition apply_trade :: "'n GatewayEnvironment \<Rightarrow> TradeExecution \<Rightarrow> 'n OrderState \<Rightarrow> u64 \<times> 'n OrderState" where
  "apply_trade env execution order =
     (let quantity = min (os_leaves_quantity order) (tex_quantity execution);
          order = order\<lparr>os_cumulative_quantity := os_cumulative_quantity order + quantity,
            os_leaves_quantity := os_leaves_quantity order - quantity,
            os_cumulative_notional := ld_add_product (ge_long_double env) (os_cumulative_notional order)
              (tex_price execution) quantity\<rparr>
      in (quantity, order\<lparr>os_ord_status := (if os_leaves_quantity order = 0 then CHR ''2'' else CHR ''1'')\<rparr>))"

definition apply_trade_to_order ::
    "'n GatewayEnvironment \<Rightarrow> FixGatewayConfig \<Rightarrow> u64 \<Rightarrow> TradeExecution \<Rightarrow> 'n SessionContext \<Rightarrow>
      bool \<times> 'n SessionContext" where
  "apply_trade_to_order env config i execution s =
     (case sc_orders s i of
        None \<Rightarrow> (True, s)
      | Some order \<Rightarrow>
          let (quantity, order) = apply_trade env execution order
          in send_execution_report env config order (os_current_cl_ord_id order) ''F'' (os_ord_status order)
               None (Some quantity) (Some (tex_price execution)) None (set_order i order s))"

definition handle_core_trade ::
    "'n GatewayEnvironment \<Rightarrow> FixGatewayConfig \<Rightarrow> CoreMessage \<Rightarrow> 'n SessionContext \<Rightarrow>
      bool \<times> 'n SessionContext" where
  "handle_core_trade env config message s =
     (case decode_trade_execution (cm_body message) of
        None \<Rightarrow> (True, s)
      | Some execution \<Rightarrow>
          let owns_buy = (sc_orders s (tex_buy_order_id execution) \<noteq> None);
              owns_sell = (sc_orders s (tex_sell_order_id execution) \<noteq> None)
          in if \<not> owns_buy \<and> \<not> owns_sell then (True, s)
             else if owns_buy \<and> owns_sell then
               let key = self_trade_key execution
               in if sc_self_trade_duplicate_messages_to_ignore s > 0 \<and> key = sc_last_self_trade_key s then
                    (True, s\<lparr>sc_self_trade_duplicate_messages_to_ignore :=
                       sc_self_trade_duplicate_messages_to_ignore s - 1\<rparr>)
                  else
                    (case apply_trade_to_order env config (tex_buy_order_id execution) execution s of
                       (False, s) \<Rightarrow> (False, s)
                     | (True, s) \<Rightarrow>
                         (case apply_trade_to_order env config (tex_sell_order_id execution) execution s of
                            (False, s) \<Rightarrow> (False, s)
                          | (True, s) \<Rightarrow>
                              (True, s\<lparr>sc_last_self_trade_key := key,
                                 sc_self_trade_duplicate_messages_to_ignore := 1\<rparr>)))
             else
               apply_trade_to_order env config
                 (if owns_buy then tex_buy_order_id execution else tex_sell_order_id execution) execution s)"

section \<open>The end of an execution\<close>

text \<open>
  The loop over the waiting orders. The first list collects the orders that are done; when a report
  cannot be sent the code returns at once and takes none of them off the set.
\<close>

fun finalize_loop ::
    "'n GatewayEnvironment \<Rightarrow> FixGatewayConfig \<Rightarrow> Symbol \<Rightarrow> u64 list \<Rightarrow> u64 list \<Rightarrow> 'n SessionContext \<Rightarrow>
      (u64 list) option \<times> 'n SessionContext" where
  "finalize_loop env config symb completed [] s = (Some completed, s)"
| "finalize_loop env config symb completed (order_id # order_ids) s =
     (case sc_orders s order_id of
        None \<Rightarrow> finalize_loop env config symb (completed @ [order_id]) order_ids s
      | Some order \<Rightarrow>
          if os_symbol order \<noteq> symb then finalize_loop env config symb completed order_ids s
          else if os_leaves_quantity order > 0 then
            let order = order\<lparr>os_leaves_quantity := 0, os_ord_status := CHR ''4''\<rparr>
            in (case send_execution_report env config order (os_current_cl_ord_id order) ''4'' (CHR ''4'')
                   None None None (Some ''non-resting remainder canceled'') (set_order order_id order s) of
                  (False, s) \<Rightarrow> (None, s)
                | (True, s) \<Rightarrow> finalize_loop env config symb (completed @ [order_id]) order_ids s)
          else finalize_loop env config symb (completed @ [order_id]) order_ids s)"

definition finalize_non_resting_orders ::
    "'n GatewayEnvironment \<Rightarrow> FixGatewayConfig \<Rightarrow> CoreMessage \<Rightarrow> 'n SessionContext \<Rightarrow>
      bool \<times> 'n SessionContext" where
  "finalize_non_resting_orders env config message s =
     (case decode_book_update (cm_body message) of
        None \<Rightarrow> (True, s)
      | Some update \<Rightarrow>
          (case finalize_loop env config (bku_symbol update) []
               (ge_hash_order env (sc_non_resting_awaiting_boundary s)) s of
             (None, s) \<Rightarrow> (False, s)
           | (Some completed, s) \<Rightarrow>
               (True, s\<lparr>sc_non_resting_awaiting_boundary :=
                 filter (\<lambda>i. i \<notin> set completed) (sc_non_resting_awaiting_boundary s)\<rparr>)))"

definition process_core_message ::
    "'n GatewayEnvironment \<Rightarrow> FixGatewayConfig \<Rightarrow> CoreMessage \<Rightarrow> 'n SessionContext \<Rightarrow>
      bool \<times> 'n SessionContext" where
  "process_core_message env config message s =
     (let t = hdr_type (cm_header message) in
      if t \<in> {MT_OrderAccepted, MT_OrderRejected, MT_OrderCancelled, MT_OrderReplaced} then
        handle_core_order_response env config message s
      else if t = MT_TradeExecution then handle_core_trade env config message s
      else if t = MT_BookUpdate then finalize_non_resting_orders env config message s
      else (True, s))"

section \<open>Messages of the client\<close>

definition handle_logon ::
    "'n GatewayEnvironment \<Rightarrow> FixGatewayConfig \<Rightarrow> u64 \<Rightarrow> Message \<Rightarrow> 'n SessionContext \<Rightarrow>
      bool \<times> 'n SessionContext" where
  "handle_logon env config seq_num message s =
     (let reject = (\<lambda>reason. send_session_reject env config seq_num reason (Some ''A'') s) in
      if sc_logged_on s then reject ''duplicate Logon''
      else
        (case (message_get 49 message, message_get 98 message, message_get 108 message) of
           (Some sender, Some encrypt_method, Some heartbeat) \<Rightarrow>
             (if encrypt_method \<noteq> ''0'' then reject ''Logon requires 98=0 and HeartBtInt (108)''
              else
                (case parse_u64 heartbeat of
                   None \<Rightarrow> reject ''invalid HeartBtInt''
                 | Some heartbeat_seconds \<Rightarrow>
                     if heartbeat_seconds = 0 \<or> heartbeat_seconds > 3600 then reject ''invalid HeartBtInt''
                     else
                       let s = s\<lparr>sc_client_comp_id := sender, sc_heartbeat_seconds := ucast heartbeat_seconds\<rparr>
                       in if \<not> ge_core_connects env then
                            send_session_message env config ''5'' [(58, ''ExchangeLab core is unavailable'')]
                              (s\<lparr>sc_closing := True\<rparr>)
                          else
                            let s = s\<lparr>sc_core_connected := True, sc_logged_on := True\<rparr>
                            in send_session_message env config ''A''
                                 [(98, ''0''), (108, decimal (unat (sc_heartbeat_seconds s))), (141, ''N'')] s))
         | _ \<Rightarrow> reject ''Logon requires 98=0 and HeartBtInt (108)''))"

definition process_logged_on ::
    "'n GatewayEnvironment \<Rightarrow> FixGatewayConfig \<Rightarrow> string \<Rightarrow> u64 \<Rightarrow> Message \<Rightarrow> 'n SessionContext \<Rightarrow>
      bool \<times> 'n SessionContext" where
  "process_logged_on env config msg_type seq_num message s =
     (if msg_type = ''0'' then (True, s)
      else if msg_type = ''1'' then
        (case message_get 112 message of
           None \<Rightarrow> send_session_reject env config seq_num ''TestRequest requires tag 112'' (Some msg_type) s
         | Some test_request_id \<Rightarrow> send_session_message env config ''0'' [(112, test_request_id)] s)
      else if msg_type = ''5'' then send_session_message env config ''5'' [] (s\<lparr>sc_closing := True\<rparr>)
      else if msg_type = ''D'' then gateway_new_order env config message s
      else if msg_type = ''F'' then handle_cancel env config message s
      else if msg_type = ''G'' then handle_replace env config message s
      else send_session_reject env config seq_num ''unsupported MsgType'' (Some msg_type) s)"

definition process_fix_message ::
    "'n GatewayEnvironment \<Rightarrow> FixGatewayConfig \<Rightarrow> Message \<Rightarrow> 'n SessionContext \<Rightarrow>
      bool \<times> 'n SessionContext" where
  "process_fix_message env config message s =
     (case (message_get 35 message, sequence_number message) of
        (Some msg_type, Some seq_num) \<Rightarrow>
          (if seq_num \<noteq> sc_expected_inbound_sequence s then
             send_session_reject env config seq_num
               (''unexpected MsgSeqNum; expected '' @ u64_text (sc_expected_inbound_sequence s)) (Some msg_type) s
           else
             let s = s\<lparr>sc_expected_inbound_sequence := sc_expected_inbound_sequence s + 1\<rparr>
             in (case validate_comp_ids message s config of
                   Some comp_error \<Rightarrow> send_session_reject env config seq_num comp_error (Some msg_type) s
                 | None \<Rightarrow>
                     if msg_type = ''A'' then handle_logon env config seq_num message s
                     else if \<not> sc_logged_on s then
                       send_session_reject env config seq_num
                         ''Logon is required before application messages'' (Some msg_type) s
                     else process_logged_on env config msg_type seq_num message s))
      | _ \<Rightarrow>
          send_session_reject env config (sc_expected_inbound_sequence s)
            ''MsgType (35) and MsgSeqNum (34) are required'' None s)"

section \<open>The loop of a session\<close>

lemma extract_one_shrinks:
  assumes "extract_one buffer = (r, buffer')" "ex_status r = MessageReady"
  shows "length buffer' < length buffer"
proof -
  have aligned: "length b' < length b" if "extract_aligned b = (r, b')" for b b'
    using that assms(2) unfolding extract_aligned_def Let_def need_more_data_def invalid_data_def
    by (auto split: option.splits if_splits)
  show ?thesis
    using assms aligned [of _ buffer'] unfolding extract_one_def need_more_data_def invalid_data_def
    by (fastforce split: option.splits if_splits)
qed

text \<open>The messages in the receive buffer; the result is the health of the session and the rest.\<close>

function process_fix_buffer ::
    "'n GatewayEnvironment \<Rightarrow> FixGatewayConfig \<Rightarrow> string \<Rightarrow> 'n SessionContext \<Rightarrow>
      bool \<times> string \<times> 'n SessionContext" where
  "process_fix_buffer env config buffer s =
     (case extract_one buffer of
        (extracted, buffer') \<Rightarrow>
          (case ex_status extracted of
             NeedMoreData \<Rightarrow> (True, buffer', s)
           | InvalidData \<Rightarrow> (False, buffer', s)
           | MessageReady \<Rightarrow>
               (case fix_parse (ex_wire_message extracted) of
                  Inl error \<Rightarrow> (False, buffer', s)
                | Inr message \<Rightarrow>
                    (case process_fix_message env config message s of
                       (healthy, s) \<Rightarrow>
                         if sc_closing s \<or> \<not> healthy then (healthy, buffer', s)
                         else process_fix_buffer env config buffer' s))))"
  by pat_completeness auto
termination
  by (relation "measure (\<lambda>(env, config, buffer, s). length buffer)") (auto intro: extract_one_shrinks [OF sym])

declare process_fix_buffer.simps [simp del]

text \<open>
  The messages of the core. Whether the session is healthy is overwritten by each message, as in the
  code, also when the client's part of the round has found it unhealthy.
\<close>

lemma extract_core_message_shrinks:
  "extract_core_message buffer = (Some message, buffer') \<Longrightarrow> length buffer' < length buffer"
  by (auto simp: extract_core_message_def header_size_def Let_def split: if_splits option.splits)

function process_core_buffer ::
    "'n GatewayEnvironment \<Rightarrow> FixGatewayConfig \<Rightarrow> bool \<Rightarrow> u8 list \<Rightarrow> 'n SessionContext \<Rightarrow>
      bool \<times> u8 list \<times> 'n SessionContext" where
  "process_core_buffer env config healthy buffer s =
     (case extract_core_message buffer of
        (None, buffer') \<Rightarrow> (healthy, buffer', s)
      | (Some message, buffer') \<Rightarrow>
          (case process_core_message env config message s of
             (healthy, s) \<Rightarrow>
               if \<not> healthy then (False, buffer', s) else process_core_buffer env config True buffer' s))"
  by pat_completeness auto
termination
  by (relation "measure (\<lambda>(env, config, healthy, buffer, s). length buffer)") (auto intro: extract_core_message_shrinks [OF sym])

declare process_core_buffer.simps [simp del]

text \<open>
  One round of the loop: what \<^verbatim>\<open>poll\<close> says of the two sockets, with the bytes \<^verbatim>\<open>recv\<close> returns (none when it
  fails or the peer has closed), and the clock. The result says whether the loop goes on.
\<close>

datatype 'b Readiness = Silent | Broken | Readable "'b list"

record PollRound =
  po_failed :: bool
  po_client :: "char Readiness"
  po_core :: "u8 Readiness"
  po_received_at :: nat
  po_now :: nat

definition nanoseconds :: "u32 \<Rightarrow> nat" where "nanoseconds seconds = unat seconds * 1000000000"

definition heartbeat_step ::
    "'n GatewayEnvironment \<Rightarrow> FixGatewayConfig \<Rightarrow> nat \<Rightarrow> bool \<Rightarrow> 'n SessionContext \<Rightarrow>
      bool \<times> 'n SessionContext" where
  "heartbeat_step env config now healthy s =
     (if \<not> (sc_logged_on s \<and> healthy) then (healthy, s)
      else
        let heartbeat = nanoseconds (sc_heartbeat_seconds s);
            (healthy, s) = (if sc_last_fix_send s + heartbeat \<le> now
              then send_session_message env config ''0'' [] s else (True, s))
        in if sc_last_fix_receive s + heartbeat * 3 \<le> now then
             (False, snd (send_session_message env config ''5'' [(58, ''heartbeat timeout'')] s))
           else (healthy, s))"

definition core_step ::
    "'n GatewayEnvironment \<Rightarrow> FixGatewayConfig \<Rightarrow> bool \<Rightarrow> PollRound \<Rightarrow> bool \<Rightarrow> 'n SessionContext \<Rightarrow>
      bool \<times> 'n SessionContext" where
  "core_step env config polled round healthy s =
     (if \<not> polled then heartbeat_step env config (po_now round) healthy s
      else
        (case po_core round of
           Broken \<Rightarrow>
             (False, snd (send_session_message env config ''5'' [(58, ''ExchangeLab core connection closed'')] s))
         | Silent \<Rightarrow> heartbeat_step env config (po_now round) healthy s
         | Readable bytes \<Rightarrow>
             if bytes = [] then (False, s)
             else
               (case process_core_buffer env config healthy (sc_core_receive_buffer s @ bytes) s of
                  (healthy, buffer, s) \<Rightarrow>
                    heartbeat_step env config (po_now round) healthy
                      (s\<lparr>sc_core_receive_buffer := buffer\<rparr>))))"

definition session_round ::
    "'n GatewayEnvironment \<Rightarrow> FixGatewayConfig \<Rightarrow> PollRound \<Rightarrow> 'n SessionContext \<Rightarrow>
      bool \<times> 'n SessionContext" where
  "session_round env config round s =
     (let polled = sc_core_connected s in
      if po_failed round then (False, s)
      else
        (case po_client round of
           Broken \<Rightarrow> (False, s)
         | Silent \<Rightarrow> core_step env config polled round True s
         | Readable bytes \<Rightarrow>
             if bytes = [] then (False, s)
             else
               (case process_fix_buffer env config (sc_fix_receive_buffer s @ bytes)
                    (s\<lparr>sc_last_fix_receive := po_received_at round\<rparr>) of
                  (healthy, buffer, s) \<Rightarrow>
                    core_step env config polled round healthy (s\<lparr>sc_fix_receive_buffer := buffer\<rparr>))))"

text \<open>The session over a list of rounds, until it is unhealthy, closing, or the gateway stops.\<close>

fun session_loop ::
    "'n GatewayEnvironment \<Rightarrow> FixGatewayConfig \<Rightarrow> PollRound list \<Rightarrow> 'n SessionContext \<Rightarrow> 'n SessionContext" where
  "session_loop env config [] s = s"
| "session_loop env config (round # rounds) s =
     (if sc_closing s then s
      else
        (case session_round env config round s of
           (False, s) \<Rightarrow> s
         | (True, s) \<Rightarrow> session_loop env config rounds s))"

end
