(* ===== verification/Gateway_Properties.thy ===== *)
theory Gateway_Properties
  imports Fix_Handlers
begin

text \<open>
  The FIX gateway: a request of the client is either rejected with one message or forwarded with
  one; the quantities of every order stay consistent as long as no trade overtakes a
  replacement; and what happens when one does, or when the order of a pending request is rejected.
\<close>

section \<open>Sending\<close>

text \<open>\<open>one_message s s'\<close>: exactly one message was built, and nothing but the sending state changed.\<close>

definition one_message :: "'n SessionContext \<Rightarrow> 'n SessionContext \<Rightarrow> bool" where
  "one_message s s' \<longleftrightarrow> (\<exists>w t e. s' = s\<lparr>sc_next_outbound_sequence := sc_next_outbound_sequence s + 1,
     sc_fix_sent := w, sc_last_fix_send := t, sc_next_exec_id := e\<rparr>)"

lemma one_messageD:
  assumes "one_message s s'"
  shows "sc_orders s' = sc_orders s" "sc_pending s' = sc_pending s" "sc_core_sent s' = sc_core_sent s"
    "sc_clord_to_order s' = sc_clord_to_order s" "sc_used_clord_ids s' = sc_used_clord_ids s"
    "sc_next_outbound_sequence s' = sc_next_outbound_sequence s + 1"
    "sc_next_numeric_order_id s' = sc_next_numeric_order_id s"
    "sc_non_resting_awaiting_boundary s' = sc_non_resting_awaiting_boundary s"
    "pending_of s' = pending_of s"
  using assms by (auto simp: one_message_def pending_of_def fun_eq_iff)

lemma one_message_session: "one_message s (snd (send_session_message env config t extra s))"
  by (cases s) (auto simp: send_session_message_def one_message_def Let_def)

lemma one_message_exec: "one_message (s\<lparr>sc_next_exec_id := e\<rparr>) s' \<Longrightarrow> one_message s s'"
  by (auto simp: one_message_def)

lemma one_message_sends:
  "one_message s (snd (send_execution_report env config x c t st oc' q p tx s))"
  "one_message s (snd (send_new_reject env config c y sd qt rs s))"
  "one_message s (snd (send_cancel_reject env config x' c oc k rs s))"
  "one_message s (snd (send_session_reject env config n rs mt s))"
  unfolding send_execution_report_def send_new_reject_def send_cancel_reject_def send_session_reject_def Let_def
  by (rule one_message_session one_message_exec)+

lemmas one_message_results = one_message_session one_message_sends

lemma sends_cases:
  "send_execution_report env config x c t st oc' q p tx s = (h, s') \<Longrightarrow> one_message s s'"
  "send_new_reject env config c y sd qt rs s = (h, s') \<Longrightarrow> one_message s s'"
  "send_cancel_reject env config x' c oc k rs s = (h, s') \<Longrightarrow> one_message s s'"
  "send_session_reject env config n rs mt s = (h, s') \<Longrightarrow> one_message s s'"
  "send_session_message env config mt' extra s = (h, s') \<Longrightarrow> one_message s s'"
  using one_message_results by (metis snd_conv)+
section \<open>One answer or one request\<close>

text \<open>Rejected with one message, the core untouched; or forwarded, with one entry more in the queue of an order.\<close>

definition rejected_request :: "'n SessionContext \<Rightarrow> 'n SessionContext \<Rightarrow> bool" where
  "rejected_request s s' \<longleftrightarrow> sc_core_sent s' = sc_core_sent s \<and> pending_of s' = pending_of s \<and>
     sc_next_outbound_sequence s' = sc_next_outbound_sequence s + 1"

definition forwarded_request :: "Message \<Rightarrow> 'n SessionContext \<Rightarrow> 'n SessionContext \<Rightarrow> bool" where
  "forwarded_request message s s' \<longleftrightarrow>
     sc_next_outbound_sequence s' = sc_next_outbound_sequence s \<and> sc_fix_sent s' = sc_fix_sent s \<and>
     (\<exists>wire i request. sc_core_sent s' = sc_core_sent s @ [wire] \<and>
        pending_of s' = (pending_of s)(i := pending_of s i @ [request]) \<and>
        message_get 11 message = Some (pr_cl_ord_id request) \<and>
        pr_cl_ord_id request \<notin> sc_used_clord_ids s \<and> pr_cl_ord_id request \<in> sc_used_clord_ids s')"

lemma rejected_requestI:
  assumes "one_message s0 s'" "sc_core_sent s0 = sc_core_sent s" "pending_of s0 = pending_of s"
    "sc_next_outbound_sequence s0 = sc_next_outbound_sequence s"
  shows "rejected_request s s'"
  using one_messageD [OF assms(1)] assms(2-4) by (simp add: rejected_request_def)

lemma pending_of_simps [simp]:
  "pending_of (push_pending i r s) = (pending_of s)(i := pending_of s i @ [r])"
  "pending_of (drop_last_pending i s) = (pending_of s)(i := butlast (pending_of s i))"
  "pending_of (s\<lparr>sc_used_clord_ids := u\<rparr>) = pending_of s"
  "pending_of (s\<lparr>sc_next_numeric_order_id := n\<rparr>) = pending_of s"
  "pending_of (s\<lparr>sc_orders := os, sc_clord_to_order := cs\<rparr>) = pending_of s"
  "pending_of (s\<lparr>sc_clord_to_order := cs, sc_orders := os\<rparr>) = pending_of s"
  "pending_of (s\<lparr>sc_next_core_sequence := k\<rparr>) = pending_of s"
  "pending_of (s\<lparr>sc_core_sent := w\<rparr>) = pending_of s"
  "pending_of (set_order i x s) = pending_of s"
  by (auto simp: pending_of_def push_pending_def drop_last_pending_def set_order_def fun_eq_iff)

lemma push_fields [simp]:
  "sc_core_sent (push_pending i r s) = sc_core_sent s" "sc_core_sent (drop_last_pending i s) = sc_core_sent s"
  "sc_fix_sent (push_pending i r s) = sc_fix_sent s" "sc_orders (push_pending i r s) = sc_orders s"
  "sc_orders (drop_last_pending i s) = sc_orders s"
  "sc_next_outbound_sequence (push_pending i r s) = sc_next_outbound_sequence s"
  "sc_next_outbound_sequence (drop_last_pending i s) = sc_next_outbound_sequence s"
  "sc_used_clord_ids (push_pending i r s) = sc_used_clord_ids s"
  "sc_clord_to_order (push_pending i r s) = sc_clord_to_order s"
  "sc_clord_to_order (drop_last_pending i s) = sc_clord_to_order s"
  "sc_next_numeric_order_id (push_pending i r s) = sc_next_numeric_order_id s"
  "sc_next_numeric_order_id (drop_last_pending i s) = sc_next_numeric_order_id s"
  by (simp_all add: push_pending_def drop_last_pending_def)

lemma core_request_cases:
  assumes "send_core_request env t body s = (h, s')"
  shows "h \<and> (\<exists>wire. sc_core_sent s' = sc_core_sent s @ [wire]) \<or> \<not> h \<and> sc_core_sent s' = sc_core_sent s"
    "pending_of s' = pending_of s" "sc_next_outbound_sequence s' = sc_next_outbound_sequence s"
    "sc_fix_sent s' = sc_fix_sent s" "sc_used_clord_ids s' = sc_used_clord_ids s" "sc_orders s' = sc_orders s"
    "sc_clord_to_order s' = sc_clord_to_order s" "sc_next_numeric_order_id s' = sc_next_numeric_order_id s"
  using assms by (auto simp: send_core_request_def pending_of_def fun_eq_iff Let_def split: if_splits)

lemma unique_clordid_eq:
  "ensure_unique_clordid c s = (u, s1) \<Longrightarrow>
     u = (c \<notin> sc_used_clord_ids s) \<and> s1 = s\<lparr>sc_used_clord_ids := insert c (sc_used_clord_ids s)\<rparr>"
  by (simp add: ensure_unique_clordid_def)

lemma required_field_eq:
  "required_field m t e = (Some v, e') \<Longrightarrow> message_get t m = Some v \<and> v \<noteq> []"
  by (auto simp: required_field_def split: option.splits if_splits)

lemma forward_request_outcome:
  assumes "forward_request env config x i request t body s0 = (h, s')"
    and "message_get 11 message = Some (pr_cl_ord_id request)" "pr_cl_ord_id request \<notin> sc_used_clord_ids s"
    and "s0 = s\<lparr>sc_used_clord_ids := insert (pr_cl_ord_id request) (sc_used_clord_ids s)\<rparr>"
  shows "rejected_request s s' \<or> h \<and> forwarded_request message s s'"
proof -
  obtain c s1 where core: "send_core_request env t body (push_pending i request s0) = (c, s1)" by (metis surj_pair)
  note sent = core_request_cases [OF core]
  show ?thesis
  proof (cases c)
    case True
    then have "h" "s' = s1" using assms(1) core by (simp_all add: forward_request_def)
    then show ?thesis
      using sent True assms(2,3,4) by (auto simp: forwarded_request_def)
  next
    case False
    then have "one_message (drop_last_pending i s1) s'"
      using assms(1) core by (auto simp: forward_request_def dest: sends_cases)
    then have "rejected_request s s'"
      using sent False assms(4) by (auto dest!: rejected_requestI [where s = s])
    then show ?thesis ..
  qed
qed

lemma find_working_order_cases:
  assumes "find_working_order env config kind message s = r"
  shows "(\<exists>h s'. r = Inl (h, s') \<and> rejected_request s s') \<or>
    (\<exists>c oc i x. r = Inr (c, oc, i, x, s\<lparr>sc_used_clord_ids := insert c (sc_used_clord_ids s)\<rparr>) \<and>
       message_get 11 message = Some c \<and> c \<notin> sc_used_clord_ids s \<and> sc_clord_to_order s oc = Some i \<and>
       sc_orders s i = Some x \<and> os_leaves_quantity x \<noteq> 0)"
proof -
  let ?s = "\<lambda>c. s\<lparr>sc_used_clord_ids := insert c (sc_used_clord_ids s)\<rparr>"
  have rej: "\<exists>h s'. send_cancel_reject env config x c oc k rs s0 = (h, s') \<and> rejected_request s s'"
    if "s0 = s \<or> s0 = ?s c'" for x c oc k rs s0 c'
  proof -
    obtain h s' where e: "send_cancel_reject env config x c oc k rs s0 = (h, s')" by (metis surj_pair)
    have "rejected_request s s'" using that by (intro rejected_requestI [OF sends_cases(3) [OF e]]) auto
    then show ?thesis using e by blast
  qed
  obtain c e1 where c: "required_field message 11 [] = (c, e1)" by (metis surj_pair)
  obtain oc e2 where oc: "required_field message 41 e1 = (oc, e2)" by (metis surj_pair)
  show ?thesis
  proof (cases "c = None \<or> oc = None")
    case True
    then show ?thesis
      using assms c oc rej [of s] by (auto simp: find_working_order_def split: option.splits)
  next
    case False
    then obtain c' oc' where v: "c = Some c'" "oc = Some oc'" by auto
    have m: "message_get 11 message = Some c'" using required_field_eq c v by blast
    have eq: "find_working_order env config kind message s =
        (if c' \<in> sc_used_clord_ids s then
           Inl (send_cancel_reject env config None c' oc' kind ''duplicate ClOrdID'' (?s c'))
         else
           (case sc_clord_to_order s oc' of
              None \<Rightarrow> Inl (send_cancel_reject env config None c' oc' kind ''unknown OrigClOrdID'' (?s c'))
            | Some i \<Rightarrow>
                (case sc_orders s i of
                   None \<Rightarrow> Inl (send_cancel_reject env config None c' oc' kind ''order is no longer working'' (?s c'))
                 | Some x \<Rightarrow>
                     if os_leaves_quantity x = 0 then
                       Inl (send_cancel_reject env config (Some x) c' oc' kind ''order is no longer working'' (?s c'))
                     else Inr (c', oc', i, x, ?s c'))))"
      using c oc v by (simp add: find_working_order_def ensure_unique_clordid_def Let_def cong: option.case_cong)
    have r: "\<exists>h s'. send_cancel_reject env config x c' oc' kind rs (?s c') = (h, s') \<and> rejected_request s s'" for x rs
      by (rule rej [where c' = c']) simp
    have inl: "\<exists>h s'. Inl (send_cancel_reject env config x c' oc' kind rs (?s c')) = Inl (h, s') \<and>
        rejected_request s s'" for x rs
      using r [of x rs] by auto
    show ?thesis
      unfolding assms [symmetric] eq using inl m by (auto split: option.split)
  qed
qed

lemma enter_translated_outcome:
  assumes "enter_translated_order env config translated s0 = (h, s')"
    and "message_get 11 message = Some (not_cl_ord_id translated)" "not_cl_ord_id translated \<notin> sc_used_clord_ids s"
    and "s0 = s\<lparr>sc_used_clord_ids := insert (not_cl_ord_id translated) (sc_used_clord_ids s), sc_next_numeric_order_id := n\<rparr>"
  shows "rejected_request s s' \<or> h \<and> forwarded_request message s s'"
proof -
  define i c where "i = nor_order_id (not_request translated)" and "c = not_cl_ord_id translated"
  define request where "request = plain_request Pending_New c []"
  obtain os cs where s1: "enter_translated_order env config translated s0 =
      (case send_core_request env MT_NewOrder (encode_new_order (not_request translated))
          (push_pending i request (s0\<lparr>sc_orders := os, sc_clord_to_order := cs\<rparr>)) of
         (True, s) \<Rightarrow> (True, s)
       | (False, s) \<Rightarrow>
           send_new_reject env config c (symbol_to_string (nor_symbol (not_request translated)))
             (side_text (nor_side (not_request translated))) (u64_text (nor_quantity (not_request translated)))
             ''core exchange connection failed''
             (let s = drop_last_pending i s
              in s\<lparr>sc_clord_to_order := (sc_clord_to_order s)(c := None), sc_orders := (sc_orders s)(i := None)\<rparr>))"
    unfolding enter_translated_order_def Let_def i_def c_def request_def by blast
  obtain k s1 where core: "send_core_request env MT_NewOrder (encode_new_order (not_request translated))
      (push_pending i request (s0\<lparr>sc_orders := os, sc_clord_to_order := cs\<rparr>)) = (k, s1)"
    by (metis surj_pair)
  note sent = core_request_cases [OF core] and start = assms(4)
  have request: "pr_cl_ord_id request = c" by (simp add: request_def plain_request_def)
  show ?thesis
  proof (cases k)
    case True
    then have "h" "s' = s1" using assms(1) s1 core by simp_all
    then show ?thesis using sent True assms(2,3) start request
      by (auto simp: forwarded_request_def c_def [symmetric])
  next
    case False
    then have "one_message (let s = drop_last_pending i s1
        in s\<lparr>sc_clord_to_order := (sc_clord_to_order s)(c := None), sc_orders := (sc_orders s)(i := None)\<rparr>) s'"
      using assms(1) s1 core by (auto dest: sends_cases)
    then show ?thesis using sent False start by (auto simp: Let_def dest!: rejected_requestI [where s = s])
  qed
qed

lemma translation_cl_ord_id:
  "translate_new_order_single message n ts = Inr t \<Longrightarrow> message_get 11 message = Some (not_cl_ord_id t)"
  unfolding translate_new_order_single_def Let_def
  by (auto split: prod.splits option.splits if_splits sum.splits dest!: required_field_eq)

lemma gateway_new_order_outcome:
  assumes "gateway_new_order env config message s = (h, s')"
  shows "rejected_request s s' \<or> h \<and> forwarded_request message s s'"
proof -
  have reject: "rejected_request s s'" if "send_new_reject env config c y sd qt rs s0 = (h, s')"
    "sc_core_sent s0 = sc_core_sent s" "pending_of s0 = pending_of s"
    "sc_next_outbound_sequence s0 = sc_next_outbound_sequence s" for c y sd qt rs s0
    using sends_cases(2) [OF that(1)] that(2-4) by (rule rejected_requestI)
  define s1 where "s1 = (case message_get 11 message of None \<Rightarrow> s | Some v \<Rightarrow> snd (ensure_unique_clordid v s))"
  define s2 where "s2 = s1\<lparr>sc_next_numeric_order_id := sc_next_numeric_order_id s1 + 1\<rparr>"
  have same: "sc_core_sent s1 = sc_core_sent s" "pending_of s1 = pending_of s"
    "sc_next_outbound_sequence s1 = sc_next_outbound_sequence s"
    "sc_core_sent s2 = sc_core_sent s" "pending_of s2 = pending_of s"
    "sc_next_outbound_sequence s2 = sc_next_outbound_sequence s"
    by (auto simp: s1_def s2_def ensure_unique_clordid_def split: option.split)
  define unique where "unique = (case message_get 11 message of None \<Rightarrow> True | Some v \<Rightarrow> v \<notin> sc_used_clord_ids s)"
  have id: "(case message_get 11 message of None \<Rightarrow> (True, s) | Some v \<Rightarrow> ensure_unique_clordid v s) = (unique, s1)"
    by (auto simp: unique_def s1_def ensure_unique_clordid_def split: option.split)
  note run = assms [unfolded gateway_new_order_def Let_def id prod.case, folded s2_def]
  show ?thesis
  proof (cases "unique")
    case False
    then show ?thesis using run reject same by auto
  next
    case True
    then have taken: "unique = True" by simp
    note run = run [unfolded taken not_True_eq_False if_False]
    show ?thesis
    proof (cases "translate_new_order_single message (sc_next_numeric_order_id s1)
        (ge_now_nanoseconds env (sc_next_core_sequence s2))")
      case (Inl e)
      then show ?thesis using run reject [OF _ same(4,5,6)] by auto
    next
      case (Inr t)
      note m = translation_cl_ord_id [OF Inr]
      have "enter_translated_order env config t s2 = (h, s')" using run Inr by simp
      moreover have "not_cl_ord_id t \<notin> sc_used_clord_ids s" using True m by (simp add: unique_def)
      moreover have "s2 = s\<lparr>sc_used_clord_ids := insert (not_cl_ord_id t) (sc_used_clord_ids s),
          sc_next_numeric_order_id := sc_next_numeric_order_id s + 1\<rparr>"
        by (simp add: s2_def s1_def m ensure_unique_clordid_def)
      ultimately show ?thesis using enter_translated_outcome m by blast
    qed
  qed
qed

lemma handle_cancel_outcome:
  assumes "handle_cancel env config message s = (h, s')"
  shows "rejected_request s s' \<or> h \<and> forwarded_request message s s'"
  using find_working_order_cases [OF refl, of env config Pending_Cancel message s]
proof (elim disjE exE conjE)
  fix c oc i x
  assume found: "find_working_order env config Pending_Cancel message s =
      Inr (c, oc, i, x, s\<lparr>sc_used_clord_ids := insert c (sc_used_clord_ids s)\<rparr>)"
    "message_get 11 message = Some c" "c \<notin> sc_used_clord_ids s"
  note run = assms [unfolded handle_cancel_def found(1) sum.case prod.case]
  show ?thesis
    by (rule forward_request_outcome [OF run]) (use found in \<open>simp_all add: plain_request_def\<close>)
qed (use assms in \<open>simp add: handle_cancel_def\<close>)

lemma handle_replace_outcome:
  assumes "handle_replace env config message s = (h, s')"
  shows "rejected_request s s' \<or> h \<and> forwarded_request message s s'"
  using find_working_order_cases [OF refl, of env config Pending_Replace message s]
proof (elim disjE exE conjE)
  fix c oc i x
  assume found: "find_working_order env config Pending_Replace message s =
      Inr (c, oc, i, x, s\<lparr>sc_used_clord_ids := insert c (sc_used_clord_ids s)\<rparr>)"
    "message_get 11 message = Some c" "c \<notin> sc_used_clord_ids s"
  note run = assms [unfolded handle_replace_def found(1) sum.case prod.case Let_def]
  show ?thesis
  proof (cases "translate_replacement message x")
    case (Inl e)
    then have "one_message (s\<lparr>sc_used_clord_ids := insert c (sc_used_clord_ids s)\<rparr>) s'"
      using run sends_cases(3) by fastforce
    from rejected_requestI [OF this] show ?thesis by simp
  next
    case (Inr p)
    obtain total price where p: "p = (total, price)" by (cases p)
    note run = run [unfolded Inr p sum.case prod.case]
    show ?thesis by (rule forward_request_outcome [OF run]) (use found in simp_all)
  qed
qed (use assms in \<open>simp add: handle_replace_def\<close>)

text \<open>
  C16. Every order request of a FIX client has exactly one immediate outcome. A new order, a cancel or a
  replace request either is rejected with exactly one message to the client while nothing is sent to
  the core, or it is forwarded with exactly one message to the core and one entry in the queue of
  the requests that wait for an answer, and nothing is sent to the client; it is forwarded only under a client order id
  that the session has never used before.
\<close>

theorem request_rejected_or_forwarded:
  assumes "msg_type \<in> {''D'', ''F'', ''G''}"
    and "process_logged_on env config msg_type seq_num message s = (healthy, s')"
  shows "rejected_request s s' \<or> healthy \<and> forwarded_request message s s'"
  using assms
  by (auto simp: process_logged_on_def
      dest: gateway_new_order_outcome handle_cancel_outcome handle_replace_outcome)
section \<open>Quantities\<close>

text \<open>The identity of FIX: while an order works, OrderQty is CumQty plus LeavesQty.\<close>

definition order_consistent :: "'n OrderState \<Rightarrow> bool" where
  "order_consistent x \<longleftrightarrow>
     unat (os_cumulative_quantity x) + unat (os_leaves_quantity x) \<le> unat (os_order_quantity x) \<and>
     (os_leaves_quantity x \<noteq> 0 \<longrightarrow>
        unat (os_cumulative_quantity x) + unat (os_leaves_quantity x) = unat (os_order_quantity x))"

definition replaces_consistent :: "'n OrderState \<Rightarrow> PendingRequest list \<Rightarrow> bool" where
  "replaces_consistent x queue \<longleftrightarrow>
     (\<forall>r\<in>set queue. pr_kind r = Pending_Replace \<longrightarrow>
        unat (os_cumulative_quantity x) + unat (pr_replacement_working_quantity r) =
          unat (pr_replacement_total_quantity r))"

definition gateway_inv :: "'n SessionContext \<Rightarrow> bool" where
  "gateway_inv s \<longleftrightarrow>
     (\<forall>i x. sc_orders s i = Some x \<longrightarrow>
        os_numeric_order_id x = i \<and> order_consistent x \<and> replaces_consistent x (pending_of s i)) \<and>
     (\<forall>i. unat (sc_next_numeric_order_id s) \<le> unat i \<longrightarrow> sc_orders s i = None \<and> pending_of s i = [])"

lemma gateway_invD:
  assumes "gateway_inv s" "sc_orders s i = Some x"
  shows "os_numeric_order_id x = i" "order_consistent x" "replaces_consistent x (pending_of s i)"
    "unat i < unat (sc_next_numeric_order_id s)"
  using assms by (auto simp: gateway_inv_def not_le [symmetric])

lemma gateway_inv_fresh:
  assumes "gateway_inv s" "unat (sc_next_numeric_order_id s) \<le> unat i"
  shows "sc_orders s i = None" "pending_of s i = []"
  using assms by (auto simp: gateway_inv_def)

lemma gateway_inv_cong:
  assumes "gateway_inv s" "sc_orders s' = sc_orders s" "pending_of s' = pending_of s"
    "unat (sc_next_numeric_order_id s) \<le> unat (sc_next_numeric_order_id s')"
  shows "gateway_inv s'"
  using assms by (auto simp: gateway_inv_def)

lemma gateway_inv_message:
  assumes "gateway_inv s" "one_message s s'"
  shows "gateway_inv s'"
  using one_messageD [OF assms(2)] by (intro gateway_inv_cong [OF assms(1)]) simp_all

lemma set_order_fields [simp]:
  "sc_orders (set_order i x s) = (sc_orders s)(i \<mapsto> x)"
  "sc_next_numeric_order_id (set_order i x s) = sc_next_numeric_order_id s"
  by (simp_all add: set_order_def)

lemma gateway_inv_set_order:
  assumes inv: "gateway_inv s" "sc_orders s i = Some x"
    and x': "os_numeric_order_id x' = i" "order_consistent x'" "replaces_consistent x' (pending_of s i)"
  shows "gateway_inv (set_order i x' s)"
  using gateway_invD(4) [OF inv] inv(1) x' by (auto simp: gateway_inv_def)

lemma gateway_inv_push:
  assumes inv: "gateway_inv s" "sc_orders s i = Some x"
    and r: "pr_kind r = Pending_Replace \<Longrightarrow> unat (os_cumulative_quantity x) + unat (pr_replacement_working_quantity r) =
      unat (pr_replacement_total_quantity r)"
  shows "gateway_inv (push_pending i r s)"
  using gateway_invD(3,4) [OF inv] inv r by (auto simp: gateway_inv_def replaces_consistent_def)

lemma gateway_inv_core:
  assumes "gateway_inv s" "send_core_request env t body s = (h, s')"
  shows "gateway_inv s'"
  using core_request_cases [OF assms(2)] by (intro gateway_inv_cong [OF assms(1)]) simp_all

lemma gateway_inv_drop_last: "gateway_inv s \<Longrightarrow> gateway_inv (drop_last_pending i s)"
  by (auto simp: gateway_inv_def replaces_consistent_def dest: in_set_butlastD)

lemma forward_request_inv:
  assumes inv: "gateway_inv s" "sc_orders s i = Some x"
    and r: "pr_kind r = Pending_Replace \<Longrightarrow> unat (os_cumulative_quantity x) + unat (pr_replacement_working_quantity r) =
      unat (pr_replacement_total_quantity r)"
    and res: "forward_request env config x i r t body s = (h, s')"
  shows "gateway_inv s'"
proof -
  obtain c s1 where core: "send_core_request env t body (push_pending i r s) = (c, s1)" by (metis surj_pair)
  have s1: "gateway_inv s1" by (rule gateway_inv_core [OF gateway_inv_push [OF inv r] core])
  show ?thesis
  proof (cases c)
    case True
    then show ?thesis using res core s1 by (simp add: forward_request_def)
  next
    case False
    then have "one_message (drop_last_pending i s1) s'"
      using res core by (auto simp: forward_request_def dest: sends_cases)
    then show ?thesis by (rule gateway_inv_message [OF gateway_inv_drop_last [OF s1]])
  qed
qed

text \<open>What the common checks of cancel and replace leave.\<close>

lemma find_working_order_inv:
  assumes inv: "gateway_inv s"
  shows "case find_working_order env config kind message s of
      Inl (h, s') \<Rightarrow> gateway_inv s'
    | Inr (c, oc, i, x, s') \<Rightarrow> gateway_inv s' \<and> sc_orders s' i = Some x"
proof -
  have rej: "gateway_inv s'" if "send_cancel_reject env config x c oc k rs s0 = (h, s')" "gateway_inv s0"
    for x c oc k rs s0 h s'
    using gateway_inv_message [OF that(2) sends_cases(3) [OF that(1)]] .
  have used: "gateway_inv (s\<lparr>sc_used_clord_ids := u\<rparr>)" for u by (rule gateway_inv_cong [OF inv]) simp_all
  show ?thesis
    unfolding find_working_order_def ensure_unique_clordid_def Let_def
    using rej inv used by (auto split: option.split prod.split sum.split)
qed

lemma handle_cancel_inv:
  assumes "gateway_inv s" "handle_cancel env config message s = (h, s')"
  shows "gateway_inv s'"
  using assms(2) find_working_order_inv [OF assms(1), of env config Pending_Cancel message]
  by (auto simp: handle_cancel_def plain_request_def split: sum.splits elim: forward_request_inv [rotated -1])

lemma translate_replacement_total:
  assumes "translate_replacement message x = Inr (quantity, price)"
  shows "os_cumulative_quantity x < quantity"
  using assms unfolding translate_replacement_def Let_def
  by (auto split: prod.splits option.splits if_splits)

lemma handle_replace_inv:
  assumes "gateway_inv s" "handle_replace env config message s = (h, s')"
  shows "gateway_inv s'"
proof (cases "find_working_order env config Pending_Replace message s")
  case (Inl p)
  then show ?thesis
    using assms(2) find_working_order_inv [OF assms(1), of env config Pending_Replace message]
    by (auto simp: handle_replace_def)
next
  case (Inr p)
  obtain c oc i x s1 where p: "p = (c, oc, i, x, s1)" by (metis surj_pair)
  have s1: "gateway_inv s1" "sc_orders s1 i = Some x"
    using find_working_order_inv [OF assms(1), of env config Pending_Replace message] Inr p by simp_all
  note run = assms(2) [unfolded handle_replace_def Inr p sum.case prod.case Let_def]
  show ?thesis
  proof (cases "translate_replacement message x")
    case (Inl e)
    then have "one_message s1 s'" using run by (auto dest: sends_cases)
    then show ?thesis by (rule gateway_inv_message [OF s1(1)])
  next
    case (Inr q)
    obtain quantity price where q: "q = (quantity, price)" by (cases q)
    have "unat (os_cumulative_quantity x) + unat (quantity - os_cumulative_quantity x) = unat quantity"
      using translate_replacement_total [OF Inr [unfolded q]] by (simp add: unat_sub_if' word_less_nat_alt)
    moreover note run = run [unfolded Inr q sum.case prod.case gateway_invD(1) [OF s1]]
    ultimately show ?thesis by (intro forward_request_inv [OF s1 _ run]) simp
  qed
qed

lemma gateway_inv_used:
  "gateway_inv s \<Longrightarrow> gateway_inv (s\<lparr>sc_used_clord_ids := u\<rparr>)"
  by (erule gateway_inv_cong) simp_all

lemma enter_translated_order_inv:
  assumes s: "gateway_inv s" and next_id: "unat i < unat (sc_next_numeric_order_id s)"
    and fresh: "sc_orders s i = None" "pending_of s i = []"
    and t: "nor_order_id (not_request t) = i"
    and res: "enter_translated_order env config t s = (h, s')"
  shows "gateway_inv s'"
proof -
  define c where "c = not_cl_ord_id t"
  define x where "x = \<lparr>os_numeric_order_id = i, os_symbol = nor_symbol (not_request t),
    os_side = nor_side (not_request t), os_order_type = nor_order_type (not_request t),
    os_time_in_force = nor_time_in_force (not_request t), os_current_cl_ord_id = c,
    os_order_quantity = nor_quantity (not_request t), os_cumulative_quantity = 0,
    os_leaves_quantity = nor_quantity (not_request t),
    os_cumulative_notional = ld_zero (ge_long_double env), os_price = nor_price (not_request t),
    os_ord_status = CHR ''0''\<rparr>"
  define s3 where "s3 = s\<lparr>sc_orders := (sc_orders s)(i \<mapsto> x),
    sc_clord_to_order := emplace c i (sc_clord_to_order s)\<rparr>"
  have x: "os_numeric_order_id x = i" "order_consistent x" by (simp_all add: x_def order_consistent_def)
  have s3: "gateway_inv s3"
    using s fresh x next_id by (auto simp: gateway_inv_def s3_def replaces_consistent_def)
  obtain k s4 where core: "send_core_request env MT_NewOrder (encode_new_order (not_request t))
      (push_pending i (plain_request Pending_New c []) s3) = (k, s4)"
    by (metis surj_pair)
  have "sc_orders s3 i = Some x" by (simp add: s3_def)
  then have s4: "gateway_inv s4"
    by (intro gateway_inv_core [OF gateway_inv_push [OF s3] core]) (simp_all add: plain_request_def)
  have emplaced: "emplace i x (sc_orders s) = (sc_orders s)(i \<mapsto> x)" using fresh by (simp add: emplace_def)
  note enter = res [unfolded enter_translated_order_def Let_def t, folded c_def, folded x_def,
      unfolded emplaced, folded s3_def, unfolded core prod.case]
  show ?thesis
  proof (cases k)
    case False
    define s5 where "s5 = drop_last_pending i s4"
    have "gateway_inv (s5\<lparr>sc_clord_to_order := (sc_clord_to_order s5)(c := None),
        sc_orders := (sc_orders s5)(i := None)\<rparr>)"
      using gateway_inv_drop_last [OF s4, of i] unfolding s5_def [symmetric] by (auto simp: gateway_inv_def)
    then show ?thesis
      using enter False gateway_inv_message sends_cases(2) by (fastforce simp: s5_def [symmetric])
  qed (use enter s4 in simp)
qed

lemma gateway_new_order_inv:
  assumes inv: "gateway_inv s" "sc_next_numeric_order_id s + 1 \<noteq> 0"
    and res: "gateway_new_order env config message s = (h, s')"
  shows "gateway_inv s'"
proof -
  define s1 where "s1 = (case message_get 11 message of None \<Rightarrow> s | Some v \<Rightarrow> snd (ensure_unique_clordid v s))"
  define unique where "unique = (case message_get 11 message of None \<Rightarrow> True | Some v \<Rightarrow> v \<notin> sc_used_clord_ids s)"
  define i where "i = sc_next_numeric_order_id s"
  define s2 where "s2 = s1\<lparr>sc_next_numeric_order_id := i + 1\<rparr>"
  have s1: "gateway_inv s1" "sc_next_numeric_order_id s1 = i" "pending_of s1 = pending_of s" "sc_orders s1 = sc_orders s"
    using inv(1) gateway_inv_used by (auto simp: s1_def i_def ensure_unique_clordid_def split: option.split)
  have next_id: "unat (i + 1) = Suc (unat i)"
    using inv(2) unatSuc [of i] by (simp add: i_def add.commute)
  have s2: "gateway_inv s2" using next_id s1 by (intro gateway_inv_cong [OF s1(1)]) (simp_all add: s2_def)
  have fresh: "sc_orders s2 i = None" "pending_of s2 i = []"
    using gateway_inv_fresh [OF inv(1), of i] s1 by (simp_all add: s2_def i_def)
  have id: "(case message_get 11 message of None \<Rightarrow> (True, s) | Some v \<Rightarrow> ensure_unique_clordid v s) = (unique, s1)"
    by (auto simp: unique_def s1_def ensure_unique_clordid_def split: option.split)
  note run = res [unfolded gateway_new_order_def Let_def id prod.case s1(2), folded s2_def]
  consider (dup) "\<not> unique" | (bad) e where "unique"
      "translate_new_order_single message i (ge_now_nanoseconds env (sc_next_core_sequence s2)) = Inl e"
    | (good) t where "unique"
      "translate_new_order_single message i (ge_now_nanoseconds env (sc_next_core_sequence s2)) = Inr t"
    by (cases "translate_new_order_single message i (ge_now_nanoseconds env (sc_next_core_sequence s2))") auto
  then show ?thesis
  proof cases
    case dup
    then show ?thesis using run gateway_inv_message [OF s1(1)] sends_cases(2) by fastforce
  next
    case bad
    then show ?thesis using run gateway_inv_message [OF s2] sends_cases(2) by fastforce
  next
    case (good t)
    have t: "nor_order_id (not_request t) = i"
      using good(2) unfolding translate_new_order_single_def Let_def
      by (auto split: prod.splits option.splits if_splits sum.splits)
    have "enter_translated_order env config t s2 = (h, s')" using run good by simp
    then show ?thesis
      using enter_translated_order_inv [OF s2 _ fresh t] next_id by (simp add: s2_def)
  qed
qed

lemma process_fix_message_inv:
  assumes inv: "gateway_inv s" "sc_next_numeric_order_id s + 1 \<noteq> 0"
    and res: "process_fix_message env config message s = (h, s')"
  shows "gateway_inv s'"
proof -
  have cong: "gateway_inv t" if "sc_orders t = sc_orders s" "pending_of t = pending_of s"
    "sc_next_numeric_order_id t = sc_next_numeric_order_id s" for t
    using that by (intro gateway_inv_cong [OF inv(1)]) simp_all
  have pend: "pending_of t = pending_of s" if "sc_pending t = sc_pending s" for t
    using that by (simp add: pending_of_def fun_eq_iff)
  have sent: "gateway_inv s'" if "one_message t s'" "sc_orders t = sc_orders s" "sc_pending t = sc_pending s"
    "sc_next_numeric_order_id t = sc_next_numeric_order_id s" for t
    using gateway_inv_message [OF cong that(1)] that pend by blast
  define s1 where "s1 = s\<lparr>sc_expected_inbound_sequence := sc_expected_inbound_sequence s + 1\<rparr>"
  have s1: "gateway_inv s1" "sc_next_numeric_order_id s1 + 1 \<noteq> 0" "sc_orders s1 = sc_orders s"
    "sc_pending s1 = sc_pending s" "sc_next_numeric_order_id s1 = sc_next_numeric_order_id s"
  proof -
    show "gateway_inv s1" by (rule cong) (simp_all add: s1_def pending_of_def fun_eq_iff)
  qed (use inv(2) in \<open>simp_all add: s1_def\<close>)
  have logon: "gateway_inv s'" if "handle_logon env config n message s1 = (h, s')" for n
    using that unfolding handle_logon_def Let_def
    by (auto split: if_splits option.splits dest!: sends_cases intro!: sent simp: s1)
  have logged: "gateway_inv s'" if "process_logged_on env config t n message s1 = (h, s')" for t n
    using that s1 unfolding process_logged_on_def
    by (auto split: if_splits option.splits dest!: sends_cases intro: sent
        gateway_new_order_inv handle_cancel_inv handle_replace_inv)
  show ?thesis
    using res logon logged unfolding process_fix_message_def s1_def [symmetric] Let_def
    by (auto split: if_splits option.splits dest!: sends_cases intro: sent simp: s1)
qed

section \<open>Messages of the core\<close>

lemma gateway_inv_remove:
  assumes "gateway_inv s"
  shows "gateway_inv (s\<lparr>sc_clord_to_order := cs, sc_orders := (sc_orders s)(i := None)\<rparr>)"
  using assms by (auto simp: gateway_inv_def)

lemma gateway_inv_pop:
  assumes "gateway_inv s" "pending_of s i = r # queue"
  shows "gateway_inv (s\<lparr>sc_pending := (sc_pending s)(i := if queue = [] then None else Some queue)\<rparr>)"
    "pending_of (s\<lparr>sc_pending := (sc_pending s)(i := if queue = [] then None else Some queue)\<rparr>) =
      (pending_of s)(i := queue)"
proof -
  show p: "pending_of (s\<lparr>sc_pending := (sc_pending s)(i := if queue = [] then None else Some queue)\<rparr>) =
      (pending_of s)(i := queue)"
    by (auto simp: pending_of_def fun_eq_iff)
  have "replaces_consistent x queue" if "sc_orders s i = Some x" for x
    using gateway_invD(3) [OF assms(1) that] assms(2) by (simp add: replaces_consistent_def)
  moreover have "queue = []" if "unat (sc_next_numeric_order_id s) \<le> unat i"
    using gateway_inv_fresh(2) [OF assms(1) that] assms(2) by simp
  ultimately show "gateway_inv (s\<lparr>sc_pending := (sc_pending s)(i := if queue = [] then None else Some queue)\<rparr>)"
    using assms(1) unfolding gateway_inv_def p by auto
qed

lemma gateway_inv_index:
  assumes "gateway_inv s"
  shows "gateway_inv (s\<lparr>sc_non_resting_awaiting_boundary := l\<rparr>)" "gateway_inv (s\<lparr>sc_clord_to_order := cs\<rparr>)"
  by (rule gateway_inv_cong [OF assms]; simp add: pending_of_def fun_eq_iff)+

lemma order_consistent_closed:
  assumes "order_consistent x"
  shows "order_consistent (x\<lparr>os_ord_status := st\<rparr>)" "order_consistent (x\<lparr>os_leaves_quantity := 0, os_ord_status := st\<rparr>)"
  using assms by (auto simp: order_consistent_def)

lemma replaces_consistent_closed:
  assumes "replaces_consistent x queue"
  shows "replaces_consistent (x\<lparr>os_ord_status := st\<rparr>) queue"
    "replaces_consistent (x\<lparr>os_leaves_quantity := l, os_ord_status := st\<rparr>) queue"
  using assms by (auto simp: replaces_consistent_def)

lemma sent_inv:
  assumes "one_message s s'" "gateway_inv s"
  shows "gateway_inv s'"
  using assms by (metis gateway_inv_message)

text \<open>The answers of the core to the three requests, for an order that the session knows.\<close>

lemma answer_new_inv:
  assumes inv: "gateway_inv s" and order: "sc_orders s i = Some x"
    and res: "answer_new env config r success i x s = (h, s')"
  shows "gateway_inv s'"
proof (cases success)
  case True
  then show ?thesis
    using res gateway_inv_set_order [OF inv order] gateway_invD [OF inv order]
    by (auto simp: answer_new_def Let_def order_consistent_closed replaces_consistent_closed
        split: if_splits dest!: sends_cases intro!: sent_inv [where s' = s'] gateway_inv_index)
next
  case False
  define x' where "x' = x\<lparr>os_leaves_quantity := 0, os_ord_status := CHR ''8''\<rparr>"
  obtain k t where report: "send_execution_report env config x' (pr_cl_ord_id r) ''8'' (CHR ''8'')
      None None None (Some ''rejected by ExchangeLab core or risk engine'') (set_order i x' s) = (k, t)"
    by (metis surj_pair)
  have "gateway_inv (set_order i x' s)"
    using gateway_inv_set_order [OF inv order] gateway_invD [OF inv order] by (simp add: x'_def order_consistent_closed replaces_consistent_closed)
  then have "gateway_inv t" using gateway_inv_message sends_cases(1) [OF report] by blast
  then show ?thesis
    using res False report gateway_inv_remove [of t] by (simp add: answer_new_def Let_def x'_def [symmetric]) blast
qed

lemma answer_cancel_inv:
  assumes inv: "gateway_inv s" and order: "sc_orders s i = Some x"
    and res: "answer_cancel env config r success i x s = (h, s')"
  shows "gateway_inv s'"
  using res gateway_inv_set_order [OF inv order] gateway_invD [OF inv order] inv
  by (auto simp: answer_cancel_def Let_def order_consistent_closed replaces_consistent_closed
      split: if_splits dest!: sends_cases intro!: sent_inv [where s' = s'])

lemma answer_replace_inv:
  assumes inv: "gateway_inv s" and order: "sc_orders s i = Some x"
    and res: "answer_replace env config r success i x s = (h, s')"
    and consistent: "unat (os_cumulative_quantity x) + unat (pr_replacement_working_quantity r) =
      unat (pr_replacement_total_quantity r)"
  shows "gateway_inv s'"
proof -
  have "order_consistent (x\<lparr>os_current_cl_ord_id := c, os_order_quantity := pr_replacement_total_quantity r,
      os_leaves_quantity := pr_replacement_working_quantity r, os_price := p, os_ord_status := st\<rparr>)"
    "replaces_consistent (x\<lparr>os_current_cl_ord_id := c, os_order_quantity := pr_replacement_total_quantity r,
      os_leaves_quantity := pr_replacement_working_quantity r, os_price := p, os_ord_status := st\<rparr>) (pending_of s i)"
    for c p st
    using consistent gateway_invD(3) [OF inv order] by (auto simp: order_consistent_def replaces_consistent_def)
  then show ?thesis
    using res gateway_inv_set_order [OF inv order] gateway_invD(1) [OF inv order] inv
    by (auto simp: answer_replace_def Let_def split: if_splits dest!: sends_cases intro!: sent_inv [where s' = s'] gateway_inv_index)
qed

lemma handle_core_order_response_inv:
  assumes inv: "gateway_inv s" and res: "handle_core_order_response env config message s = (h, s')"
  shows "gateway_inv s'"
proof (cases "decode_order_response (cm_body message)")
  case None
  then show ?thesis using assms by (simp add: handle_core_order_response_def)
next
  case (Some response)
  let ?i = "rsp_order_id response"
  show ?thesis
  proof (cases "pending_of s ?i")
    case Nil
    then show ?thesis using assms Some by (simp add: handle_core_order_response_def)
  next
    case (Cons r queue)
    define s1 where "s1 = s\<lparr>sc_pending := (sc_pending s)(?i := if queue = [] then None else Some queue)\<rparr>"
    have s1: "gateway_inv s1" "sc_orders s1 = sc_orders s"
      using gateway_inv_pop [OF inv Cons] by (simp_all add: s1_def)
    note run = res [unfolded handle_core_order_response_def Some option.case Let_def Cons list.case s1_def [symmetric]]
    show ?thesis
    proof (cases "sc_orders s ?i")
      case None
      then show ?thesis using run s1 by simp
    next
      case order: (Some x)
      then have o1: "sc_orders s1 ?i = Some x" using s1 by simp
      have "unat (os_cumulative_quantity x) + unat (pr_replacement_working_quantity r) =
          unat (pr_replacement_total_quantity r)" if "pr_kind r = Pending_Replace"
        using gateway_invD(3) [OF inv order] Cons that by (simp add: replaces_consistent_def)
      then show ?thesis
        using run answer_new_inv [OF s1(1) o1] answer_cancel_inv [OF s1(1) o1] answer_replace_inv [OF s1(1) o1]
        by (cases "pr_kind r") (simp_all add: o1)
    qed
  qed
qed

definition no_replace_pending :: "'n SessionContext \<Rightarrow> u64 \<Rightarrow> bool" where
  "no_replace_pending s i \<longleftrightarrow> (\<forall>r\<in>set (pending_of s i). pr_kind r \<noteq> Pending_Replace)"

lemma apply_trade_consistent:
  assumes "order_consistent x" "apply_trade env execution x = (q, x')"
  shows "order_consistent x'" "os_numeric_order_id x' = os_numeric_order_id x"
    "unat (os_cumulative_quantity x') = unat (os_cumulative_quantity x) + unat q" "unat q \<le> unat (os_leaves_quantity x)"
proof -
  have q: "q = min (os_leaves_quantity x) (tex_quantity execution)" "q \<le> os_leaves_quantity x"
    using assms(2) by (auto simp: apply_trade_def Let_def)
  then have le: "unat q \<le> unat (os_leaves_quantity x)" by (simp add: word_le_nat_alt)
  have "unat (os_cumulative_quantity x) + unat q < 2 ^ 64"
    using assms(1) le unsigned_less [where 'b = 64 and 'a = nat, of "os_order_quantity x"]
    by (simp add: order_consistent_def)
  then have cum: "unat (os_cumulative_quantity x + q) = unat (os_cumulative_quantity x) + unat q"
    by (simp add: unat_word_ariths)
  have leaves: "unat (os_leaves_quantity x - q) = unat (os_leaves_quantity x) - unat q"
    using q(2) by (simp add: unat_sub)
  have x': "os_cumulative_quantity x' = os_cumulative_quantity x + q" "os_leaves_quantity x' = os_leaves_quantity x - q"
    "os_order_quantity x' = os_order_quantity x" "os_numeric_order_id x' = os_numeric_order_id x"
    using assms(2) q by (auto simp: apply_trade_def Let_def)
  show "unat q \<le> unat (os_leaves_quantity x)" by (rule le)
  show "os_numeric_order_id x' = os_numeric_order_id x"
    "unat (os_cumulative_quantity x') = unat (os_cumulative_quantity x) + unat q"
    using x' cum by simp_all
  have zero: "os_leaves_quantity x = 0 \<Longrightarrow> os_leaves_quantity x - q = 0" using q(2) by simp
  show "order_consistent x'"
    using assms(1) cum leaves le zero by (auto simp: order_consistent_def x')
qed

lemma apply_trade_to_order_inv:
  assumes inv: "gateway_inv s" "no_replace_pending s i" and res: "apply_trade_to_order env config i execution s = (h, s')"
  shows "gateway_inv s' \<and> pending_of s' = pending_of s"
proof (cases "sc_orders s i")
  case None
  then show ?thesis using res inv by (simp add: apply_trade_to_order_def)
next
  case (Some x)
  obtain q x' where t: "apply_trade env execution x = (q, x')" by (metis surj_pair)
  have "one_message (set_order i x' s) s'"
    using res Some t by (auto simp: apply_trade_to_order_def dest: sends_cases)
  moreover have "gateway_inv (set_order i x' s)"
    using apply_trade_consistent [OF gateway_invD(2) [OF inv(1) Some] t] gateway_invD(1) [OF inv(1) Some] inv(2)
    by (intro gateway_inv_set_order [OF inv(1) Some]) (auto simp: replaces_consistent_def no_replace_pending_def)
  ultimately show ?thesis using gateway_inv_message one_messageD(9) by fastforce
qed

lemma handle_core_trade_inv:
  assumes inv: "gateway_inv s" and res: "handle_core_trade env config message s = (h, s')"
    and quiet: "\<And>ex. decode_trade_execution (cm_body message) = Some ex \<Longrightarrow>
      no_replace_pending s (tex_buy_order_id ex) \<and> no_replace_pending s (tex_sell_order_id ex)"
  shows "gateway_inv s'"
proof (cases "decode_trade_execution (cm_body message)")
  case None
  then show ?thesis using assms by (simp add: handle_core_trade_def)
next
  case (Some ex)
  note q = quiet [OF Some]
  have cong: "gateway_inv (t\<lparr>sc_last_self_trade_key := k, sc_self_trade_duplicate_messages_to_ignore := n\<rparr>)"
    "gateway_inv (t\<lparr>sc_self_trade_duplicate_messages_to_ignore := n\<rparr>)" if "gateway_inv t" for t k n
    by (rule gateway_inv_cong [OF that]; simp add: pending_of_def fun_eq_iff)+
  obtain h1 s1 where buy: "apply_trade_to_order env config (tex_buy_order_id ex) ex s = (h1, s1)" by (metis surj_pair)
  obtain h2 s2 where sell: "apply_trade_to_order env config (tex_sell_order_id ex) ex s1 = (h2, s2)" by (metis surj_pair)
  have s1: "gateway_inv s1 \<and> pending_of s1 = pending_of s" using apply_trade_to_order_inv [OF inv _ buy] q by blast
  then have "no_replace_pending s1 (tex_sell_order_id ex)" using q by (simp add: no_replace_pending_def)
  then have s2: "gateway_inv s2" using apply_trade_to_order_inv [OF _ _ sell] s1 by blast
  have single: "gateway_inv s'" if "apply_trade_to_order env config i ex s = (h, s')"
    "i = tex_buy_order_id ex \<or> i = tex_sell_order_id ex" for i
    using apply_trade_to_order_inv [OF inv _ that(1)] that(2) q by blast
  show ?thesis
    using res Some buy sell s1 s2 inv single unfolding handle_core_trade_def Let_def
    by (auto split: if_splits bool.splits simp: cong)
qed

lemma finalize_loop_inv:
  "gateway_inv s \<Longrightarrow> finalize_loop env config y completed ids s = (r, s') \<Longrightarrow> gateway_inv s'"
proof (induction ids arbitrary: completed s)
  case (Cons i ids)
  show ?case
  proof (cases "sc_orders s i")
    case None
    then show ?thesis using Cons by simp
  next
    case (Some x)
    define x' where "x' = x\<lparr>os_leaves_quantity := 0, os_ord_status := CHR ''4''\<rparr>"
    have "gateway_inv (set_order i x' s)"
      using gateway_invD [OF Cons.prems(1) Some]
      by (intro gateway_inv_set_order [OF Cons.prems(1) Some])
        (auto simp: x'_def order_consistent_def replaces_consistent_def)
    moreover obtain k t where report: "send_execution_report env config x' (os_current_cl_ord_id x') ''4'' (CHR ''4'')
        None None None (Some ''non-resting remainder canceled'') (set_order i x' s) = (k, t)"
      by (metis surj_pair)
    ultimately have "gateway_inv t" using gateway_inv_message sends_cases(1) [OF report] by blast
    then show ?thesis
      using Cons Some report by (auto simp: x'_def [symmetric] Let_def split: if_splits bool.splits)
  qed
qed simp

lemma finalize_non_resting_orders_inv:
  assumes "gateway_inv s" "finalize_non_resting_orders env config message s = (h, s')"
  shows "gateway_inv s'"
proof -
  have cong: "gateway_inv (t\<lparr>sc_non_resting_awaiting_boundary := l\<rparr>)" if "gateway_inv t" for t l
    by (rule gateway_inv_cong [OF that]; simp add: pending_of_def fun_eq_iff)
  show ?thesis
    using assms finalize_loop_inv [OF assms(1)]
    by (auto simp: finalize_non_resting_orders_def cong split: option.splits prod.splits)
qed

section \<open>Runs of a session\<close>

text \<open>A trade that overtakes a replacement: it is for an order with a replace request that the core has not answered.\<close>

definition overtakes :: "CoreMessage \<Rightarrow> 'n SessionContext \<Rightarrow> bool" where
  "overtakes message s \<longleftrightarrow> hdr_type (cm_header message) = MT_TradeExecution \<and>
     (\<exists>ex. decode_trade_execution (cm_body message) = Some ex \<and>
        (\<not> no_replace_pending s (tex_buy_order_id ex) \<or> \<not> no_replace_pending s (tex_sell_order_id ex)))"

text \<open>
  Messages of both sides in any order, heartbeats, and the other sessions of the gateway, which
  advance the two shared counters. The counter of order ids starts at 2^62 and does not wrap.
\<close>

inductive gateway_run ::
    "'n GatewayEnvironment \<Rightarrow> FixGatewayConfig \<Rightarrow> 'n SessionContext \<Rightarrow> 'n SessionContext \<Rightarrow> bool"
  for env config start where
  gateway_start: "gateway_run env config start start"
| gateway_client: "gateway_run env config start s \<Longrightarrow> sc_next_numeric_order_id s + 1 \<noteq> 0 \<Longrightarrow>
    process_fix_message env config message s = (h, s') \<Longrightarrow> gateway_run env config start s'"
| gateway_core: "gateway_run env config start s \<Longrightarrow> \<not> overtakes m s \<Longrightarrow>
    process_core_message env config m s = (h, s') \<Longrightarrow> gateway_run env config start s'"
| gateway_heartbeat: "gateway_run env config start s \<Longrightarrow>
    send_session_message env config t extra s = (h, s') \<Longrightarrow> gateway_run env config start s'"
| gateway_others: "gateway_run env config start s \<Longrightarrow> unat (sc_next_numeric_order_id s) \<le> unat n \<Longrightarrow>
    gateway_run env config start (s\<lparr>sc_next_numeric_order_id := n, sc_next_exec_id := e\<rparr>)"

lemma gateway_run_inv:
  assumes "gateway_run env config start s" "gateway_inv start"
  shows "gateway_inv s"
  using assms(1)
proof induction
  case gateway_start
  show ?case by (rule assms(2))
next
  case (gateway_client s message h s')
  then show ?case using process_fix_message_inv by blast
next
  case (gateway_core s m h s')
  note inv = gateway_core.IH
  consider "handle_core_order_response env config m s = (h, s')"
    | "hdr_type (cm_header m) = MT_TradeExecution" "handle_core_trade env config m s = (h, s')"
    | "finalize_non_resting_orders env config m s = (h, s')" | "s' = s"
    using gateway_core.hyps(3) unfolding process_core_message_def Let_def by (metis Pair_inject)
  then show ?case
  proof cases
    case 1
    then show ?thesis by (rule handle_core_order_response_inv [OF inv])
  next
    case 2
    show ?thesis
      by (rule handle_core_trade_inv [OF inv 2(2)]) (use gateway_core.hyps(2) 2(1) in \<open>auto simp: overtakes_def\<close>)
  next
    case 3
    then show ?thesis by (rule finalize_non_resting_orders_inv [OF inv])
  qed (simp add: inv)
next
  case (gateway_heartbeat s t extra h s')
  then show ?case using gateway_inv_message sends_cases(5) by blast
next
  case (gateway_others s n e)
  show ?case
    by (rule gateway_inv_cong [OF gateway_others.IH])
      (use gateway_others.hyps in \<open>simp_all add: pending_of_def fun_eq_iff\<close>)
qed

lemma new_session_inv: "gateway_inv (new_session config now n e)"
  by (simp add: new_session_def gateway_inv_def pending_of_def)
section \<open>A sample session\<close>

definition sample_long_double :: "int LongDouble" where
  "sample_long_double = \<lparr>ld_zero = 0, ld_add_product = (\<lambda>n p q. n + p * uint q), ld_divide = (\<lambda>n q. n div uint q),
     ld_truncate = id, ld_of_int = id, ld_to_text = decimal_int\<rparr>"

definition sample_environment :: "int GatewayEnvironment" where
  "sample_environment = \<lparr>ge_utc = (\<lambda>_. \<lparr>utc_year = 2025, utc_month = 1, utc_day = 2, utc_hour = 3, utc_minute = 4,
     utc_second = 5, utc_millisecond = 6\<rparr>), ge_steady_clock = (\<lambda>_. 0), ge_client_send = (\<lambda>_. True),
     ge_now_nanoseconds = (\<lambda>_. 7), ge_core_send = (\<lambda>_. True), ge_core_connects = True, ge_hash_order = id,
     ge_long_double = sample_long_double\<rparr>"

definition client_message :: "string \<Rightarrow> nat \<Rightarrow> (int \<times> string) list \<Rightarrow> Message" where
  "client_message t seq extra = \<lparr>msg_fields = fields_of ([(35, t), (34, decimal seq), (49, ''CLIENT''), (56, ''EXCHANGELAB'')] @ extra)\<rparr>"

definition sample_logon :: Message where
  "sample_logon = client_message ''A'' 1 [(98, ''0''), (108, ''30'')]"

definition sample_new_order :: Message where
  "sample_new_order = client_message ''D'' 2 [(11, ''A1''), (55, ''TEST''), (54, ''1''), (38, ''10''), (40, ''2''), (44, ''100'')]"

definition sample_start :: "int SessionContext" where
  "sample_start = new_session default_gateway_config 0 first_numeric_order_id 1"

definition sample_logged_on :: "int SessionContext" where
  "sample_logged_on = snd (process_fix_message sample_environment default_gateway_config sample_logon sample_start)"

definition sample_order_run :: "int SessionContext" where
  "sample_order_run = snd (process_fix_message sample_environment default_gateway_config sample_new_order sample_logged_on)"

lemmas message_simps = client_message_def fields_of_def message_get_def sequence_number_def parse_u64_def parse_i64_def
  from_chars_unsigned_def from_chars_signed_def is_digit_def digits_value_def digit_value_def decimal.simps digit_def

lemma sample_logon_fields:
  "message_get 35 sample_logon = Some ''A''" "sequence_number sample_logon = Some 1"
  "message_get 49 sample_logon = Some ''CLIENT''" "message_get 56 sample_logon = Some ''EXCHANGELAB''"
  "message_get 98 sample_logon = Some ''0''" "message_get 108 sample_logon = Some ''30''" "parse_u64 ''30'' = Some 30"
  by (simp_all add: sample_logon_def message_simps)

lemma sample_new_order_fields:
  "message_get 35 sample_new_order = Some ''D''" "sequence_number sample_new_order = Some 2"
  "message_get 49 sample_new_order = Some ''CLIENT''" "message_get 56 sample_new_order = Some ''EXCHANGELAB''"
  "message_get 11 sample_new_order = Some ''A1''"
  "translate_new_order_single sample_new_order i now = Inr \<lparr>not_request = \<lparr>nor_order_id = i, nor_timestamp = now,
     nor_price = 100, nor_quantity = 10, nor_side = PBuy, nor_order_type = PLimit, nor_time_in_force = PGoodTillCancel,
     nor_symbol = default_symbol\<rparr>, not_cl_ord_id = ''A1''\<rparr>"
proof -
  have symb: "make_symbol ''TEST'' = default_symbol" "is_valid_symbol default_symbol" by code_simp+
  show "message_get 35 sample_new_order = Some ''D''" "sequence_number sample_new_order = Some 2"
    "message_get 49 sample_new_order = Some ''CLIENT''" "message_get 56 sample_new_order = Some ''EXCHANGELAB''"
    "message_get 11 sample_new_order = Some ''A1''"
    by (simp_all add: sample_new_order_def message_simps)
  show "translate_new_order_single sample_new_order i now = Inr \<lparr>not_request = \<lparr>nor_order_id = i, nor_timestamp = now,
     nor_price = 100, nor_quantity = 10, nor_side = PBuy, nor_order_type = PLimit, nor_time_in_force = PGoodTillCancel,
     nor_symbol = default_symbol\<rparr>, not_cl_ord_id = ''A1''\<rparr>"
    by (simp add: sample_new_order_def message_simps translate_new_order_single_def required_field_def symb
        translate_side_def translate_order_type_def translate_price_def translate_tif_def)
qed
lemma sample_order_run:
  obtains s x where "gateway_run sample_environment default_gateway_config sample_start s"
    "sc_orders s first_numeric_order_id = Some x" "os_leaves_quantity x = 10" "os_order_quantity x = 10"
    "os_cumulative_quantity x = 0" "pending_of s first_numeric_order_id = [plain_request Pending_New ''A1'' []]"
    "sc_logged_on s"
proof -
  let ?env = sample_environment and ?config = default_gateway_config
  note plain = new_session_def process_fix_message_def validate_comp_ids_def
  obtain h1 s1 where logon: "process_fix_message ?env ?config sample_logon sample_start = (h1, s1)" by (metis surj_pair)
  have "one_message (sample_start\<lparr>sc_expected_inbound_sequence := 2, sc_client_comp_id := ''CLIENT'',
      sc_heartbeat_seconds := 30, sc_core_connected := True, sc_logged_on := True\<rparr>) s1"
    using logon
    by (auto simp: sample_start_def plain sample_logon_fields handle_logon_def sample_environment_def
        default_gateway_config_def Let_def dest!: sends_cases)
  then obtain w t e where s1: "s1 = (sample_start\<lparr>sc_expected_inbound_sequence := 2, sc_client_comp_id := ''CLIENT'',
      sc_heartbeat_seconds := 30, sc_core_connected := True, sc_logged_on := True\<rparr>)\<lparr>sc_next_outbound_sequence := 2,
        sc_fix_sent := w, sc_last_fix_send := t, sc_next_exec_id := e\<rparr>"
    by (auto simp: one_message_def sample_start_def new_session_def)
  obtain h2 s2 where order: "process_fix_message ?env ?config sample_new_order s1 = (h2, s2)" by (metis surj_pair)
  have wrap: "first_numeric_order_id + 1 \<noteq> 0" by code_simp
  have "gateway_run ?env ?config sample_start s1"
    by (rule gateway_client [OF gateway_start _ logon]) (use wrap in \<open>simp add: sample_start_def new_session_def\<close>)
  then have run: "gateway_run ?env ?config sample_start s2"
    by (rule gateway_client [OF _ _ order]) (use wrap in \<open>simp add: s1 sample_start_def new_session_def\<close>)
  have "\<exists>x. sc_orders s2 first_numeric_order_id = Some x \<and> os_leaves_quantity x = 10 \<and> os_order_quantity x = 10 \<and>
      os_cumulative_quantity x = 0 \<and>
      pending_of s2 first_numeric_order_id = [plain_request Pending_New ''A1'' []] \<and> sc_logged_on s2"
    using order
    by (auto simp: s1 sample_start_def plain sample_new_order_fields process_logged_on_def gateway_new_order_def
        ensure_unique_clordid_def enter_translated_order_def send_core_request_def sample_environment_def
        default_gateway_config_def emplace_def push_pending_def pending_of_def Let_def)
  then show thesis using run that by blast
qed

section \<open>Properties of orders\<close>

text \<open>
  C17. The quantities the gateway reports add up. In every run of a session in which no trade
  overtakes a replace request of the order it fills, with any messages of the client and of the core, the
  executed and the open quantity of an order are together never more than its order
  quantity, and exactly as much while it works. No 64-bit quantity wraps.
\<close>

theorem order_quantities_add_up:
  assumes "gateway_run env config (new_session config now n e) s" "sc_orders s i = Some x"
  shows "unat (os_cumulative_quantity x) + unat (os_leaves_quantity x) \<le> unat (os_order_quantity x) \<and>
    (os_leaves_quantity x \<noteq> 0 \<longrightarrow>
       unat (os_cumulative_quantity x) + unat (os_leaves_quantity x) = unat (os_order_quantity x))"
  using gateway_invD(2) [OF gateway_run_inv [OF assms(1) new_session_inv] assms(2)]
  by (simp add: order_consistent_def)

theorem order_quantities_add_up_witness:
  "\<exists>s x. sc_orders (s :: int SessionContext) first_numeric_order_id = Some x \<and> os_leaves_quantity x = 10 \<and>
    unat (os_cumulative_quantity x) + unat (os_leaves_quantity x) = unat (os_order_quantity x)"
proof -
  obtain s x where run: "gateway_run sample_environment default_gateway_config sample_start s"
    "sc_orders s first_numeric_order_id = Some x" "os_leaves_quantity x = 10"
    by (rule sample_order_run)
  have "os_leaves_quantity x \<noteq> 0" using run(3) by simp
  with order_quantities_add_up [OF run(1) [unfolded sample_start_def] run(2)] show ?thesis using run(2,3) by blast
qed

theorem request_rejected_or_forwarded_witness:
  "\<exists>s healthy s'. process_logged_on sample_environment default_gateway_config ''D'' 9 sample_new_order
      (s :: int SessionContext) = (healthy, s') \<and>
    (rejected_request s s' \<or> healthy \<and> forwarded_request sample_new_order s s')"
proof -
  obtain healthy s' where res: "process_logged_on sample_environment default_gateway_config ''D'' 9 sample_new_order
      sample_start = (healthy, s')"
    by (metis surj_pair)
  have "''D'' \<in> {''D'', ''F'', ''G''}" by simp
  from request_rejected_or_forwarded [OF this res] show ?thesis using res by blast
qed

section \<open>Answers and trades out of step\<close>

lemma core_response_eq:
  assumes "hdr_type (cm_header m) \<in> {MT_OrderAccepted, MT_OrderRejected, MT_OrderCancelled, MT_OrderReplaced}"
  shows "process_core_message env config m s = handle_core_order_response env config m s"
  using assms by (auto simp: process_core_message_def)

text \<open>
  C38. A trade that overtakes a replacement breaks the sum. An order of the client works and its
  only open request is a replacement; the order is bought by a trade before the core answers, and
  then the core confirms the replacement. The gateway has computed the open quantity it asks for from
  the executed quantity of before the trade, so after the confirmation executed and open quantity
  together are more than the new order quantity, by the quantity of the trade.
\<close>

theorem overtaken_replace_overfills:
  assumes "sc_orders s i = Some x" "order_consistent x" "pending_of s i = [r]" "pr_kind r = Pending_Replace"
    and "unat (os_cumulative_quantity x) + unat (pr_replacement_working_quantity r) =
      unat (pr_replacement_total_quantity r)"
    and "hdr_type (cm_header trade) = MT_TradeExecution" "decode_trade_execution (cm_body trade) = Some ex"
    and "tex_buy_order_id ex = i" "sc_orders s (tex_sell_order_id ex) = None"
    and "hdr_type (cm_header answer) = MT_OrderReplaced" "decode_order_response (cm_body answer) = Some rsp"
    and "rsp_order_id rsp = i" "rsp_success rsp \<noteq> 0"
    and "process_core_message env config trade s = (h1, s1)" "process_core_message env config answer s1 = (h2, s2)"
  shows "\<exists>x'. sc_orders s2 i = Some x' \<and> os_order_quantity x' = pr_replacement_total_quantity r \<and>
    unat (os_cumulative_quantity x') + unat (os_leaves_quantity x') =
      unat (os_order_quantity x') + min (unat (os_leaves_quantity x)) (unat (tex_quantity ex))"
proof -
  obtain q x1 where t: "apply_trade env ex x = (q, x1)" by (metis surj_pair)
  have q: "unat q = min (unat (os_leaves_quantity x)) (unat (tex_quantity ex))"
    using t by (auto simp: apply_trade_def Let_def min_def word_le_nat_alt)
  have "one_message (set_order i x1 s) s1"
    using assms(1,6-9,14) t
    by (auto simp: process_core_message_def handle_core_trade_def apply_trade_to_order_def dest: sends_cases)
  note s1 = one_messageD [OF this]
  have o1: "sc_orders s1 i = Some x1" "pending_of s1 i = [r]" using s1 assms(3) by simp_all
  have "handle_core_order_response env config answer s1 = (h2, s2)"
    using assms(10,15) by (simp add: core_response_eq)
  then obtain s' x2 where s': "one_message s' s2" "sc_orders s' i = Some x2"
    "os_order_quantity x2 = pr_replacement_total_quantity r" "os_cumulative_quantity x2 = os_cumulative_quantity x1"
    "os_leaves_quantity x2 = pr_replacement_working_quantity r"
    using assms(4,10-13) o1
    by (auto simp: handle_core_order_response_def answer_replace_def Let_def dest!: sends_cases)
  then show ?thesis
    using one_messageD(1) [OF s'(1)] apply_trade_consistent(3) [OF assms(2) t] assms(5) q by auto
qed

text \<open>
  Requests on an order that the core rejects are never answered. When the client sends a new
  order and a request on it before the core has answered, and the core rejects both, the client is told
  of the first only: for two requests one message is built, and the queue is empty afterwards.
\<close>

theorem rejected_order_loses_request:
  assumes "sc_orders s i = Some x" "pending_of s i = [r1, r2]" "pr_kind r1 = Pending_New"
    and "hdr_type (cm_header m1) = MT_OrderRejected" "decode_order_response (cm_body m1) = Some rsp1" "rsp_order_id rsp1 = i"
    and "hdr_type (cm_header m2) = MT_OrderRejected" "decode_order_response (cm_body m2) = Some rsp2" "rsp_order_id rsp2 = i"
    and "process_core_message env config m1 s = (h1, s1)" "process_core_message env config m2 s1 = (h2, s2)"
  shows "sc_next_outbound_sequence s2 = sc_next_outbound_sequence s + 1 \<and> pending_of s2 i = [] \<and>
    sc_orders s2 i = None \<and> h2"
proof -
  define s0 where "s0 = s\<lparr>sc_pending := (sc_pending s)(i \<mapsto> [r2])\<rparr>"
  define x' where "x' = x\<lparr>os_leaves_quantity := 0, os_ord_status := CHR ''8''\<rparr>"
  obtain k t where report: "send_execution_report env config x' (pr_cl_ord_id r1) ''8'' (CHR ''8'') None None None
      (Some ''rejected by ExchangeLab core or risk engine'') (set_order i x' s0) = (k, t)"
    by (metis surj_pair)
  note sent = one_messageD [OF sends_cases(1) [OF report]]
  have "handle_core_order_response env config m1 s = (h1, s1)"
    using assms(4,10) by (simp add: core_response_eq)
  then have s1: "s1 = t\<lparr>sc_clord_to_order := (sc_clord_to_order t)(os_current_cl_ord_id x' := None),
      sc_orders := (sc_orders t)(i := None)\<rparr>"
    using assms(1-6) report
    by (simp add: handle_core_order_response_def answer_new_def Let_def s0_def [symmetric] x'_def [symmetric])
  have pending: "pending_of s1 i = [r2]" "sc_orders s1 i = None"
    using sent(9) by (simp_all add: s1 s0_def pending_of_def)
  have out: "sc_next_outbound_sequence s1 = sc_next_outbound_sequence s + 1"
    using sent(6) by (simp add: s1 s0_def set_order_def)
  have "handle_core_order_response env config m2 s1 = (h2, s2)"
    using assms(7,11) by (simp add: core_response_eq)
  then have "h2 \<and> s2 = s1\<lparr>sc_pending := (sc_pending s1)(i := None)\<rparr>"
    using assms(8,9) pending by (simp add: handle_core_order_response_def Let_def)
  then show ?thesis using out pending by (simp add: pending_of_def)
qed

section \<open>Samples of the two races\<close>

definition core_message :: "MessageType \<Rightarrow> u8 list \<Rightarrow> CoreMessage" where
  "core_message t body = \<lparr>cm_header = \<lparr>hdr_magic = protocol_magic, hdr_version = protocol_version, hdr_type = t,
     hdr_body_size = word_of_nat (length body), hdr_sequence_number = 1\<rparr>, cm_body = body\<rparr>"

definition sample_response :: "u8 \<Rightarrow> OrderResponse" where
  "sample_response ok = \<lparr>rsp_order_id = first_numeric_order_id, rsp_sequence_number = 1, rsp_success = ok\<rparr>"

definition sample_execution :: TradeExecution where
  "sample_execution = \<lparr>tex_buy_order_id = first_numeric_order_id, tex_sell_order_id = 1, tex_price = 100,
     tex_quantity = 3, tex_sequence_number = 1, tex_symbol = default_symbol\<rparr>"

lemma sample_response_decodes:
  "ok = 0 \<or> ok = 1 \<Longrightarrow> decode_order_response (encode_order_response (sample_response ok)) = Some (sample_response ok)"
  by (rule order_response.dec_enc) (auto simp: sample_response_def order_response_valid_def)

lemma sample_execution_decodes: "decode_trade_execution (encode_trade_execution sample_execution) = Some sample_execution"
proof -
  have "length default_symbol = symbol_size" "is_valid_symbol default_symbol" by code_simp+
  then show ?thesis
    by (intro trade_execution.dec_enc) (simp add: sample_execution_def trade_execution_valid_def is_int64_def)
qed

definition sample_replace :: PendingRequest where
  "sample_replace = \<lparr>pr_kind = Pending_Replace, pr_cl_ord_id = ''A2'', pr_orig_cl_ord_id = ''A1'',
     pr_replacement_total_quantity = 20, pr_replacement_working_quantity = 20, pr_replacement_price = 100\<rparr>"

text \<open>Order A1 of 10 has been accepted and is being replaced by 20 when 3 of it trade: 23 instead of 20.\<close>

theorem overtaken_replace_overfills_witness:
  "\<exists>s2 x'. sc_orders (s2 :: int SessionContext) first_numeric_order_id = Some x' \<and> os_order_quantity x' = 20 \<and>
    unat (os_cumulative_quantity x') + unat (os_leaves_quantity x') = 23"
proof -
  obtain s x where s: "sc_orders (s :: int SessionContext) first_numeric_order_id = Some (x :: int OrderState)"
    "os_leaves_quantity x = 10" "os_order_quantity x = 10" "os_cumulative_quantity x = 0"
    by (rule sample_order_run) blast
  define s0 where "s0 = s\<lparr>sc_orders := [first_numeric_order_id \<mapsto> x], sc_pending := [first_numeric_order_id \<mapsto> [sample_replace]]\<rparr>"
  have s0: "sc_orders s0 first_numeric_order_id = Some x" "pending_of s0 first_numeric_order_id = [sample_replace]"
    by (simp_all add: s0_def pending_of_def)
  have "(1 :: u64) \<noteq> first_numeric_order_id" by code_simp
  then have other: "sc_orders s0 (tex_sell_order_id sample_execution) = None"
    by (simp add: s0_def sample_execution_def)
  obtain h1 s1 where m1: "process_core_message sample_environment default_gateway_config
      (core_message MT_TradeExecution (encode_trade_execution sample_execution)) s0 = (h1, s1)"
    by (metis surj_pair)
  obtain h2 s2 where m2: "process_core_message sample_environment default_gateway_config
      (core_message MT_OrderReplaced (encode_order_response (sample_response 1))) s1 = (h2, s2)"
    by (metis surj_pair)
  have "order_consistent x" using s by (simp add: order_consistent_def)
  from overtaken_replace_overfills [OF s0(1) this s0(2) _ _ _ _ _ other _ _ _ _ m1 m2]
  have "\<exists>x'. sc_orders s2 first_numeric_order_id = Some x' \<and> os_order_quantity x' = 20 \<and>
      unat (os_cumulative_quantity x') + unat (os_leaves_quantity x') =
        unat (os_order_quantity x') + min (unat (os_leaves_quantity x)) (unat (tex_quantity sample_execution))"
    using s sample_response_decodes [of 1] sample_execution_decodes
    by (simp add: sample_replace_def core_message_def) (simp add: sample_response_def sample_execution_def)
  then obtain x' where "sc_orders s2 first_numeric_order_id = Some x'" "os_order_quantity x' = 20"
    "unat (os_cumulative_quantity x') + unat (os_leaves_quantity x') = 23"
    using s(2) by (auto simp: sample_execution_def)
  then show ?thesis by blast
qed

text \<open>A cancel request follows order A1 before the core has answered.\<close>

theorem rejected_order_loses_request_witness:
  "\<exists>(s :: int SessionContext) (s2 :: int SessionContext).
    pending_of s first_numeric_order_id = [plain_request Pending_New ''A1'' [], plain_request Pending_Cancel ''A2'' ''A1''] \<and>
    sc_next_outbound_sequence s2 = sc_next_outbound_sequence s + 1 \<and> pending_of s2 first_numeric_order_id = []"
proof -
  let ?m = "core_message MT_OrderRejected (encode_order_response (sample_response 0))"
  obtain s x where s: "sc_orders (s :: int SessionContext) first_numeric_order_id = Some (x :: int OrderState)"
    "pending_of s first_numeric_order_id = [plain_request Pending_New ''A1'' []]"
    by (rule sample_order_run) blast
  define s0 where "s0 = push_pending first_numeric_order_id (plain_request Pending_Cancel ''A2'' ''A1'') s"
  have s0: "sc_orders s0 first_numeric_order_id = Some x" "pending_of s0 first_numeric_order_id =
      [plain_request Pending_New ''A1'' [], plain_request Pending_Cancel ''A2'' ''A1'']"
    using s by (simp_all add: s0_def)
  obtain h1 s1 where m1: "process_core_message sample_environment default_gateway_config ?m s0 = (h1, s1)"
    by (metis surj_pair)
  obtain h2 s2 where m2: "process_core_message sample_environment default_gateway_config ?m s1 = (h2, s2)"
    by (metis surj_pair)
  have "decode_order_response (cm_body ?m) = Some (sample_response 0)" "hdr_type (cm_header ?m) = MT_OrderRejected"
    "rsp_order_id (sample_response 0) = first_numeric_order_id"
    using sample_response_decodes [of 0] by (simp_all add: core_message_def sample_response_def)
  note m = this
  have "pr_kind (plain_request Pending_New ''A1'' []) = Pending_New" by (simp add: plain_request_def)
  from rejected_order_loses_request [OF s0 this m(2,1,3) m(2,1,3) m1 m2] show ?thesis using s0(2) by blast
qed


end
