(* ===== verification/Metrics.thy ===== *)
theory Metrics
  imports Decimal "HOL-Library.Multiset"
begin

text \<open>
  The performance counters of \<^verbatim>\<open>include/exchange/performance_metrics.hpp\<close> and
  \<^verbatim>\<open>src/performance_metrics.cpp\<close>: the atomic counters, the latency histogram of 64 power-of-two buckets with
  the percentiles read off it, and the snapshot of both.

  Every method is given twice: as a function on the counters (\<open>record_new_order\<close>, ...), and as the list of
  the atomic operations it performs (\<open>call_ops\<close>), which threads interleave (\<open>metric_step\<close>). The code orders
  these operations relaxed, so the theory relies on nothing but the single modification order of each
  counter: the operations on different counters commute.

  The doubles of a snapshot (a mean, two rates) are values of a type \<open>'d\<close>; the quotient of two counters is
  a parameter.
\<close>

section \<open>The counters\<close>

record PerformanceMetrics =
  pm_new_order_requests :: u64
  pm_accepted_orders :: u64
  pm_rejected_orders :: u64
  pm_risk_rejections :: u64
  pm_cancel_requests :: u64
  pm_successful_cancels :: u64
  pm_replace_requests :: u64
  pm_successful_replaces :: u64
  pm_trades :: u64
  pm_traded_quantity :: u64
  pm_latency_histogram :: "u64 list"
  pm_latency_samples :: u64
  pm_latency_sum_ns :: u64
  pm_latency_max_ns :: u64

definition latency_bucket_count :: nat where
  "latency_bucket_count = 64"

definition new_metrics :: PerformanceMetrics where
  "new_metrics = \<lparr>pm_new_order_requests = 0, pm_accepted_orders = 0, pm_rejected_orders = 0,
     pm_risk_rejections = 0, pm_cancel_requests = 0, pm_successful_cancels = 0, pm_replace_requests = 0,
     pm_successful_replaces = 0, pm_trades = 0, pm_traded_quantity = 0,
     pm_latency_histogram = replicate latency_bucket_count 0, pm_latency_samples = 0,
     pm_latency_sum_ns = 0, pm_latency_max_ns = 0\<rparr>"

definition record_new_order :: "bool \<Rightarrow> bool \<Rightarrow> PerformanceMetrics \<Rightarrow> PerformanceMetrics" where
  "record_new_order accepted risk_rejected m =
     (let m = m\<lparr>pm_new_order_requests := pm_new_order_requests m + 1\<rparr> in
      if accepted then m\<lparr>pm_accepted_orders := pm_accepted_orders m + 1\<rparr>
      else let m = m\<lparr>pm_rejected_orders := pm_rejected_orders m + 1\<rparr> in
        if risk_rejected then m\<lparr>pm_risk_rejections := pm_risk_rejections m + 1\<rparr> else m)"

definition record_cancel :: "bool \<Rightarrow> PerformanceMetrics \<Rightarrow> PerformanceMetrics" where
  "record_cancel successful m =
     (let m = m\<lparr>pm_cancel_requests := pm_cancel_requests m + 1\<rparr> in
      if successful then m\<lparr>pm_successful_cancels := pm_successful_cancels m + 1\<rparr> else m)"

definition record_replace :: "bool \<Rightarrow> bool \<Rightarrow> PerformanceMetrics \<Rightarrow> PerformanceMetrics" where
  "record_replace successful risk_rejected m =
     (let m = m\<lparr>pm_replace_requests := pm_replace_requests m + 1\<rparr> in
      if successful then m\<lparr>pm_successful_replaces := pm_successful_replaces m + 1\<rparr>
      else if risk_rejected then m\<lparr>pm_risk_rejections := pm_risk_rejections m + 1\<rparr> else m)"

definition record_trades :: "u64 \<Rightarrow> u64 \<Rightarrow> PerformanceMetrics \<Rightarrow> PerformanceMetrics" where
  "record_trades trade_count quantity m =
     m\<lparr>pm_trades := pm_trades m + trade_count, pm_traded_quantity := pm_traded_quantity m + quantity\<rparr>"

section \<open>The latency histogram\<close>

fun bit_width :: "nat \<Rightarrow> nat" where
  "bit_width n = (if n = 0 then 0 else Suc (bit_width (n div 2)))"

declare bit_width.simps [simp del]

definition latency_bucket :: "u64 \<Rightarrow> nat" where
  "latency_bucket nanoseconds =
     (if nanoseconds = 0 then 0
      else let width = bit_width (unat nanoseconds); bucket = width - 1
        in min bucket (latency_bucket_count - 1))"

definition record_matching_latency :: "u64 \<Rightarrow> PerformanceMetrics \<Rightarrow> PerformanceMetrics" where
  "record_matching_latency nanoseconds m =
     (let bucket = latency_bucket nanoseconds; histogram = pm_latency_histogram m in
      m\<lparr>pm_latency_histogram := histogram[bucket := histogram ! bucket + 1],
        pm_latency_samples := pm_latency_samples m + 1,
        pm_latency_sum_ns := pm_latency_sum_ns m + nanoseconds,
        pm_latency_max_ns := max (pm_latency_max_ns m) nanoseconds\<rparr>)"

definition bucket_upper_bound :: "nat \<Rightarrow> u64" where
  "bucket_upper_bound bucket = (if bucket \<ge> 63 then -1 else push_bit (bucket + 1) 1 - 1)"

fun percentile_scan :: "u64 \<Rightarrow> u64 \<Rightarrow> nat \<Rightarrow> u64 \<Rightarrow> u64 list \<Rightarrow> u64" where
  "percentile_scan target observed_max bucket cumulative [] = observed_max"
| "percentile_scan target observed_max bucket cumulative (c # histogram) =
     (let cumulative = cumulative + c in
      if cumulative \<ge> target then min (bucket_upper_bound bucket) observed_max
      else percentile_scan target observed_max (bucket + 1) cumulative histogram)"

definition percentile :: "u64 list \<Rightarrow> u64 \<Rightarrow> u64 \<Rightarrow> u64 \<Rightarrow> u64 \<Rightarrow> u64" where
  "percentile histogram samples numerator denominator observed_max =
     (if samples = 0 \<or> denominator = 0 then 0
      else let target = max 1 ((samples * numerator + denominator - 1) div denominator)
        in percentile_scan target observed_max 0 0 histogram)"

section \<open>Snapshots\<close>

record 'd MatchingLatencySnapshot =
  ls_samples :: u64
  ls_mean_ns :: 'd
  ls_p50_ns :: u64
  ls_p95_ns :: u64
  ls_p99_ns :: u64
  ls_max_ns :: u64

record 'd PerformanceCounterSnapshot =
  cs_new_order_requests :: u64
  cs_accepted_orders :: u64
  cs_rejected_orders :: u64
  cs_risk_rejections :: u64
  cs_cancel_requests :: u64
  cs_successful_cancels :: u64
  cs_replace_requests :: u64
  cs_successful_replaces :: u64
  cs_trades :: u64
  cs_traded_quantity :: u64
  cs_matching_latency :: "'d MatchingLatencySnapshot"

definition latency_snapshot :: "(u64 \<Rightarrow> u64 \<Rightarrow> 'd) \<Rightarrow> PerformanceMetrics \<Rightarrow> 'd::zero MatchingLatencySnapshot" where
  "latency_snapshot ratio m =
     (let histogram = pm_latency_histogram m; samples = pm_latency_samples m;
          sum = pm_latency_sum_ns m; maximum = pm_latency_max_ns m
      in \<lparr>ls_samples = samples, ls_mean_ns = if samples = 0 then 0 else ratio sum samples,
          ls_p50_ns = percentile histogram samples 50 100 maximum,
          ls_p95_ns = percentile histogram samples 95 100 maximum,
          ls_p99_ns = percentile histogram samples 99 100 maximum, ls_max_ns = maximum\<rparr>)"

definition metrics_snapshot :: "(u64 \<Rightarrow> u64 \<Rightarrow> 'd) \<Rightarrow> PerformanceMetrics \<Rightarrow> 'd::zero PerformanceCounterSnapshot" where
  "metrics_snapshot ratio m =
     \<lparr>cs_new_order_requests = pm_new_order_requests m, cs_accepted_orders = pm_accepted_orders m,
      cs_rejected_orders = pm_rejected_orders m, cs_risk_rejections = pm_risk_rejections m,
      cs_cancel_requests = pm_cancel_requests m, cs_successful_cancels = pm_successful_cancels m,
      cs_replace_requests = pm_replace_requests m, cs_successful_replaces = pm_successful_replaces m,
      cs_trades = pm_trades m, cs_traded_quantity = pm_traded_quantity m,
      cs_matching_latency = latency_snapshot ratio m\<rparr>"

section \<open>The methods as atomic operations\<close>

datatype metric_counter =
    New_Order_Requests | Accepted_Orders | Rejected_Orders | Risk_Rejections | Cancel_Requests
  | Successful_Cancels | Replace_Requests | Successful_Replaces | Trades | Traded_Quantity
  | Latency_Samples | Latency_Sum_Ns

text \<open>
  \<open>Load_Max\<close> is the load before the loop of \<^verbatim>\<open>record_matching_latency\<close>, \<open>Exchange_Max\<close> one round of its
  \<^verbatim>\<open>compare_exchange_weak\<close>, with the value observed last.
\<close>

datatype metric_op =
    Fetch_Add metric_counter u64
  | Bucket_Add nat
  | Load_Max u64
  | Exchange_Max (observed: u64) (proposed: u64)

datatype metric_call =
    Record_New_Order bool bool
  | Record_Cancel bool
  | Record_Replace bool bool
  | Record_Trades u64 u64
  | Record_Matching_Latency u64

fun fetch_add :: "metric_counter \<Rightarrow> u64 \<Rightarrow> PerformanceMetrics \<Rightarrow> PerformanceMetrics" where
  "fetch_add New_Order_Requests n m = m\<lparr>pm_new_order_requests := pm_new_order_requests m + n\<rparr>"
| "fetch_add Accepted_Orders n m = m\<lparr>pm_accepted_orders := pm_accepted_orders m + n\<rparr>"
| "fetch_add Rejected_Orders n m = m\<lparr>pm_rejected_orders := pm_rejected_orders m + n\<rparr>"
| "fetch_add Risk_Rejections n m = m\<lparr>pm_risk_rejections := pm_risk_rejections m + n\<rparr>"
| "fetch_add Cancel_Requests n m = m\<lparr>pm_cancel_requests := pm_cancel_requests m + n\<rparr>"
| "fetch_add Successful_Cancels n m = m\<lparr>pm_successful_cancels := pm_successful_cancels m + n\<rparr>"
| "fetch_add Replace_Requests n m = m\<lparr>pm_replace_requests := pm_replace_requests m + n\<rparr>"
| "fetch_add Successful_Replaces n m = m\<lparr>pm_successful_replaces := pm_successful_replaces m + n\<rparr>"
| "fetch_add Trades n m = m\<lparr>pm_trades := pm_trades m + n\<rparr>"
| "fetch_add Traded_Quantity n m = m\<lparr>pm_traded_quantity := pm_traded_quantity m + n\<rparr>"
| "fetch_add Latency_Samples n m = m\<lparr>pm_latency_samples := pm_latency_samples m + n\<rparr>"
| "fetch_add Latency_Sum_Ns n m = m\<lparr>pm_latency_sum_ns := pm_latency_sum_ns m + n\<rparr>"

definition bucket_add :: "nat \<Rightarrow> PerformanceMetrics \<Rightarrow> PerformanceMetrics" where
  "bucket_add b m =
     m\<lparr>pm_latency_histogram := (pm_latency_histogram m)[b := pm_latency_histogram m ! b + 1]\<rparr>"

fun call_ops :: "metric_call \<Rightarrow> metric_op list" where
  "call_ops (Record_New_Order accepted risk_rejected) = Fetch_Add New_Order_Requests 1 #
     (if accepted then [Fetch_Add Accepted_Orders 1]
      else Fetch_Add Rejected_Orders 1 # (if risk_rejected then [Fetch_Add Risk_Rejections 1] else []))"
| "call_ops (Record_Cancel successful) = Fetch_Add Cancel_Requests 1 #
     (if successful then [Fetch_Add Successful_Cancels 1] else [])"
| "call_ops (Record_Replace successful risk_rejected) = Fetch_Add Replace_Requests 1 #
     (if successful then [Fetch_Add Successful_Replaces 1]
      else if risk_rejected then [Fetch_Add Risk_Rejections 1] else [])"
| "call_ops (Record_Trades trade_count quantity) =
     [Fetch_Add Trades trade_count, Fetch_Add Traded_Quantity quantity]"
| "call_ops (Record_Matching_Latency nanoseconds) =
     [Bucket_Add (latency_bucket nanoseconds), Fetch_Add Latency_Samples 1,
      Fetch_Add Latency_Sum_Ns nanoseconds, Load_Max nanoseconds]"

fun record_call :: "metric_call \<Rightarrow> PerformanceMetrics \<Rightarrow> PerformanceMetrics" where
  "record_call (Record_New_Order accepted risk_rejected) = record_new_order accepted risk_rejected"
| "record_call (Record_Cancel successful) = record_cancel successful"
| "record_call (Record_Replace successful risk_rejected) = record_replace successful risk_rejected"
| "record_call (Record_Trades trade_count quantity) = record_trades trade_count quantity"
| "record_call (Record_Matching_Latency nanoseconds) = record_matching_latency nanoseconds"

text \<open>
  A state is the counters with what every thread still has to do. A \<^verbatim>\<open>compare_exchange_weak\<close> may fail
  although the counter holds the observed value; either failure reloads it.
\<close>

definition retry_max :: "u64 \<Rightarrow> PerformanceMetrics \<Rightarrow> metric_op list" where
  "retry_max v m = (if pm_latency_max_ns m < v then [Exchange_Max (pm_latency_max_ns m) v] else [])"

inductive metric_step ::
  "PerformanceMetrics \<times> metric_op list list \<Rightarrow> PerformanceMetrics \<times> metric_op list list \<Rightarrow> bool" where
  add: "metric_step (m, before @ (Fetch_Add c n # rest) # after) (fetch_add c n m, before @ rest # after)"
| bucket: "metric_step (m, before @ (Bucket_Add b # rest) # after) (bucket_add b m, before @ rest # after)"
| load: "metric_step (m, before @ (Load_Max v # rest) # after) (m, before @ (retry_max v m @ rest) # after)"
| exchange: "pm_latency_max_ns m = seen \<Longrightarrow>
    metric_step (m, before @ (Exchange_Max seen v # rest) # after) (m\<lparr>pm_latency_max_ns := v\<rparr>, before @ rest # after)"
| retry: "metric_step (m, before @ (Exchange_Max seen v # rest) # after)
    (m, before @ (retry_max v m @ rest) # after)"

definition thread_ops :: "metric_call list \<Rightarrow> metric_op list" where
  "thread_ops calls = concat (map call_ops calls)"

end
