(* ===== verification/Metrics_Properties.thy ===== *)
theory Metrics_Properties
  imports Metrics
begin

text \<open>
  What the performance counters promise: the percentiles of a snapshot bracket the exact nearest-rank
  percentiles of the recorded latencies, and threads that record at the same time lose nothing.
\<close>

section \<open>Buckets\<close>

lemma bit_width_bounds: "0 < n \<Longrightarrow> 0 < bit_width n \<and> 2 ^ (bit_width n - 1) \<le> n \<and> n < 2 ^ bit_width n"
proof (induction n rule: bit_width.induct)
  case (1 n)
  show ?case
  proof (cases "n div 2 = 0")
    case True
    then have "n = 1" using 1(2) by simp
    then show ?thesis by (simp add: bit_width.simps [of "Suc 0"] bit_width.simps [of 0])
  next
    case False
    then have IH: "0 < bit_width (n div 2)" "2 ^ (bit_width (n div 2) - 1) \<le> n div 2"
      "n div 2 < 2 ^ bit_width (n div 2)" using 1 by simp_all
    obtain k where k: "bit_width (n div 2) = Suc k" using IH(1) gr0_implies_Suc by blast
    have w: "bit_width n = Suc (Suc k)" using 1(2) k by (simp add: bit_width.simps [of n])
    show ?thesis using IH(2,3) unfolding k w by simp linarith
  qed
qed

lemma latency_bucket_less [simp]: "latency_bucket x < 64"
  by (simp add: latency_bucket_def latency_bucket_count_def Let_def min_def)

lemma latency_bucket_bounds:
  assumes "x \<noteq> 0"
  shows "2 ^ latency_bucket x \<le> unat x" "unat x < 2 ^ (latency_bucket x + 1)"
proof -
  have x: "0 < unat x" using assms by (simp add: unat_gt_0)
  note b = bit_width_bounds [OF x]
  have "unat x < 2 ^ 64" using unsigned_less [of x, where 'a = nat] by simp
  then have "(2 :: nat) ^ (bit_width (unat x) - 1) < 2 ^ 64" using b by linarith
  then have "bit_width (unat x) - 1 < 64" by (rule power_less_imp_less_exp [rotated]) simp
  then have "latency_bucket x = bit_width (unat x) - 1"
    using assms by (simp add: latency_bucket_def latency_bucket_count_def Let_def)
  then show "2 ^ latency_bucket x \<le> unat x" "unat x < 2 ^ (latency_bucket x + 1)" using b by simp_all
qed

lemma bucket_upper_bound_unat:
  assumes "b < 64"
  shows "unat (bucket_upper_bound b) = 2 ^ (b + 1) - 1"
proof (cases "b = 63")
  case True
  then show ?thesis by (simp add: bucket_upper_bound_def unsigned_minus_1_eq_mask mask_eq_exp_minus_1)
next
  case False
  then have b: "b < 63" using assms by simp
  have small: "(2 :: nat) ^ (b + 1) < 2 ^ 64" using b by (intro power_strict_increasing) simp_all
  have "(push_bit (b + 1) 1 - 1 :: u64) = word_of_nat (2 ^ (b + 1) - 1)"
    by (simp add: of_nat_diff push_bit_of_1)
  then have "unat (push_bit (b + 1) 1 - 1 :: u64) = 2 ^ (b + 1) - 1"
    using small by (simp only: unat_of_nat take_bit_nat_eq_self_iff) simp
  then show ?thesis using b by (simp add: bucket_upper_bound_def)
qed

text \<open>A value lies below the upper bound of its bucket and above those of the earlier buckets.\<close>

lemma bucket_le_iff:
  assumes "b < 64"
  shows "latency_bucket x \<le> b \<longleftrightarrow> x \<le> bucket_upper_bound b"
proof (cases "x = 0")
  case True
  then show ?thesis by (simp add: latency_bucket_def)
next
  case False
  note bounds = latency_bucket_bounds [OF False]
  have ub: "unat (bucket_upper_bound b) + 1 = 2 ^ (b + 1)" by (simp add: bucket_upper_bound_unat assms)
  show ?thesis
  proof
    assume "latency_bucket x \<le> b"
    then have "(2 :: nat) ^ (latency_bucket x + 1) \<le> 2 ^ (b + 1)" by (intro power_increasing) simp_all
    then show "x \<le> bucket_upper_bound b" using bounds(2) ub unfolding word_le_nat_alt by linarith
  next
    assume "x \<le> bucket_upper_bound b"
    then have "unat x < 2 ^ (b + 1)" using ub by (simp add: word_le_nat_alt)
    then have "(2 :: nat) ^ latency_bucket x < 2 ^ (b + 1)" using bounds(1) by linarith
    then have "latency_bucket x < b + 1" by (rule power_less_imp_less_exp [rotated]) simp
    then show "latency_bucket x \<le> b" by simp
  qed
qed

lemma latency_bucket_mono: "x \<le> y \<Longrightarrow> latency_bucket x \<le> latency_bucket y"
  using bucket_le_iff [of "latency_bucket y" x] bucket_le_iff [of "latency_bucket y" y] by (simp add: order_trans)

lemma bucket_upper_bound_close: "unat (bucket_upper_bound (latency_bucket x)) < 2 * max 1 (unat x)"
proof (cases "x = 0")
  case True
  then show ?thesis by (simp add: latency_bucket_def bucket_upper_bound_def push_bit_eq_mult)
next
  case False
  then show ?thesis using latency_bucket_bounds(1) [OF False] bucket_upper_bound_unat [of "latency_bucket x"] by simp
qed

section \<open>What the histogram holds\<close>

abbreviation record_latencies :: "u64 list \<Rightarrow> PerformanceMetrics \<Rightarrow> PerformanceMetrics" where
  "record_latencies xs m \<equiv> fold record_matching_latency xs m"

definition in_bucket :: "u64 list \<Rightarrow> nat \<Rightarrow> nat" where
  "in_bucket xs b = length (filter (\<lambda>x. latency_bucket x = b) xs)"

definition up_to_bucket :: "u64 list \<Rightarrow> nat \<Rightarrow> nat" where
  "up_to_bucket xs b = length (filter (\<lambda>x. latency_bucket x < b) xs)"

lemma up_to_bucket_Suc: "up_to_bucket xs (Suc b) = up_to_bucket xs b + in_bucket xs b"
  by (induction xs) (auto simp: up_to_bucket_def in_bucket_def)

lemma up_to_bucket_0 [simp]: "up_to_bucket xs 0 = 0"
  by (simp add: up_to_bucket_def)

lemma up_to_bucket_64 [simp]: "up_to_bucket xs 64 = length xs"
  by (simp add: up_to_bucket_def)

lemma up_to_bucket_le: "up_to_bucket xs b \<le> length xs"
  by (simp add: up_to_bucket_def)

lemma up_to_bucket_mono: "b \<le> c \<Longrightarrow> up_to_bucket xs b \<le> up_to_bucket xs c"
  by (induction xs) (auto simp: up_to_bucket_def)

definition latency_rep :: "u64 list \<Rightarrow> PerformanceMetrics \<Rightarrow> bool" where
  "latency_rep xs m \<longleftrightarrow>
     pm_latency_histogram m = map (\<lambda>b. word_of_nat (in_bucket xs b)) [0..<latency_bucket_count] \<and>
     pm_latency_samples m = word_of_nat (length xs) \<and> pm_latency_sum_ns m = sum_list xs \<and>
     pm_latency_max_ns m = fold max xs 0"

lemma latency_rep_new [simp]: "latency_rep [] new_metrics"
  by (simp add: latency_rep_def new_metrics_def in_bucket_def map_replicate_const)

lemma latency_rep_record:
  assumes "latency_rep xs m"
  shows "latency_rep (xs @ [x]) (record_matching_latency x m)"
proof -
  have "(map (\<lambda>b. word_of_nat (in_bucket xs b)) [0..<64])
          [latency_bucket x := map (\<lambda>b. word_of_nat (in_bucket xs b)) [0..<64] ! latency_bucket x + (1 :: u64)]
        = map (\<lambda>b. word_of_nat (in_bucket (xs @ [x]) b)) [0..<64]"
    by (rule nth_equalityI) (auto simp: nth_list_update in_bucket_def nth_append simp del: upt_rec_numeral)
  then show ?thesis
    using assms by (simp add: latency_rep_def record_matching_latency_def latency_bucket_count_def Let_def
        max.commute del: upt_rec_numeral)
qed

lemma latency_rep_fold: "latency_rep ys m \<Longrightarrow> latency_rep (ys @ xs) (record_latencies xs m)"
proof (induction xs arbitrary: ys m)
  case (Cons x xs)
  show ?case using Cons.IH [OF latency_rep_record [OF Cons.prems, of x]] by simp
qed simp

lemma fold_max_bound:
  fixes xs :: "'a::linorder list"
  shows "x \<in> set xs \<Longrightarrow> x \<le> fold max xs a" "a \<le> fold max xs a" "fold max xs a \<in> insert a (set xs)"
  using Max_in [of "insert a (set xs)"] by (simp_all add: Max.set_eq_fold [symmetric] del: Max_in)

section \<open>Percentiles\<close>

lemma u64_of_nat_le:
  assumes "a < 2 ^ 64" "b < 2 ^ 64"
  shows "(word_of_nat a :: u64) \<le> word_of_nat b \<longleftrightarrow> a \<le> b"
  using assms by (simp add: word_le_nat_alt unat_of_nat take_bit_nat_eq_self)

lemma percentile_scan_bucket:
  assumes "b \<le> k" "k < 64" "length xs < 2 ^ 64"
    and "\<forall>c. b \<le> c \<and> c < k \<longrightarrow> up_to_bucket xs (Suc c) < target" "target \<le> up_to_bucket xs (Suc k)"
  shows "percentile_scan (word_of_nat target) m b (word_of_nat (up_to_bucket xs b))
           (map (\<lambda>c. word_of_nat (in_bucket xs c)) [b..<64]) = min (bucket_upper_bound k) m"
  using assms
proof (induction "k - b" arbitrary: b)
  case 0
  then have "b = k" by simp
  have "up_to_bucket xs (Suc k) < 2 ^ 64" using up_to_bucket_le [of xs "Suc k"] assms(3) by linarith
  then have "(word_of_nat target :: u64) \<le> word_of_nat (up_to_bucket xs (Suc k))"
    using assms(5) by (subst u64_of_nat_le) simp_all
  then show ?case
    using \<open>b = k\<close> assms(2) by (simp add: upt_conv_Cons up_to_bucket_Suc Let_def)
next
  case (Suc n)
  then have b: "b < k" "b < 64" by simp_all
  have less: "up_to_bucket xs (Suc b) < target" using Suc.prems(4) b(1) by simp
  have "target \<le> length xs" using Suc.prems(5) up_to_bucket_le [of xs "Suc k"] by linarith
  then have "\<not> (word_of_nat target :: u64) \<le> word_of_nat (up_to_bucket xs (Suc b))"
    using less Suc.prems(3) by (subst u64_of_nat_le) simp_all
  then have step: "\<not> (word_of_nat (up_to_bucket xs b) + word_of_nat (in_bucket xs b) :: u64) \<ge> word_of_nat target"
    by (simp add: up_to_bucket_Suc)
  have "percentile_scan (word_of_nat target) m (Suc b) (word_of_nat (up_to_bucket xs (Suc b)))
           (map (\<lambda>c. word_of_nat (in_bucket xs c)) [Suc b..<64]) = min (bucket_upper_bound k) m"
    using Suc.prems b by (intro Suc.hyps(1)) (use Suc.hyps(2) in auto)
  then show ?case using step b(2) by (simp add: upt_conv_Cons up_to_bucket_Suc Let_def)
qed


text \<open>The nearest-rank percentile of a list: the smallest value with at least \<open>q\<close> percent at or below it.\<close>

definition percentile_rank :: "nat \<Rightarrow> nat \<Rightarrow> nat" where
  "percentile_rank q n = (n * q + 99) div 100"

definition nearest_rank :: "nat \<Rightarrow> u64 list \<Rightarrow> u64" where
  "nearest_rank q xs = sort xs ! (percentile_rank q (length xs) - 1)"

lemma percentile_rank_bounds:
  assumes "0 < n" "0 < q" "q \<le> 100"
  shows "0 < percentile_rank q n" "percentile_rank q n \<le> n"
proof -
  have "1 * 1 \<le> n * q" using assms by (intro mult_le_mono) simp_all
  then have "100 div 100 \<le> percentile_rank q n" unfolding percentile_rank_def by (intro div_le_mono) simp
  then show "0 < percentile_rank q n" by simp
  have "n * q \<le> n * 100" using assms(3) by (rule mult_le_mono2)
  then have "percentile_rank q n \<le> (n * 100 + 99) div 100" unfolding percentile_rank_def by (intro div_le_mono) simp
  then show "percentile_rank q n \<le> n" by simp
qed

lemma percentile_rank_mono: "q \<le> r \<Longrightarrow> percentile_rank q n \<le> percentile_rank r n"
  unfolding percentile_rank_def by (intro div_le_mono add_le_mono1 mult_le_mono2)

lemma up_to_bucket_sorted: "up_to_bucket xs b = card {i. i < length xs \<and> latency_bucket (sort xs ! i) < b}"
proof -
  have "mset (filter (\<lambda>x. latency_bucket x < b) (sort xs)) = mset (filter (\<lambda>x. latency_bucket x < b) xs)" by simp
  from mset_eq_length [OF this] show ?thesis by (simp add: up_to_bucket_def length_filter_conv_card)
qed

lemma up_to_bucket_rank:
  assumes "r < length xs"
  shows "c \<le> latency_bucket (sort xs ! r) \<Longrightarrow> up_to_bucket xs c \<le> r"
    and "Suc r \<le> up_to_bucket xs (Suc (latency_bucket (sort xs ! r)))"
proof -
  let ?b = "\<lambda>i. latency_bucket (sort xs ! i)"
  have mono: "?b i \<le> ?b j" if "i \<le> j" "j < length xs" for i j
    using that by (intro latency_bucket_mono sorted_nth_mono) simp_all
  show "up_to_bucket xs c \<le> r" if "c \<le> ?b r"
  proof -
    have "{i. i < length xs \<and> ?b i < c} \<subseteq> {..<r}"
    proof (rule subsetI)
      fix i
      assume "i \<in> {i. i < length xs \<and> ?b i < c}"
      then have "\<not> r \<le> i" using mono [of r i] that by auto
      then show "i \<in> {..<r}" by simp
    qed
    then have "card {i. i < length xs \<and> ?b i < c} \<le> card {..<r}" by (intro card_mono) simp_all
    then show ?thesis by (simp add: up_to_bucket_sorted)
  qed
  have "{..r} \<subseteq> {i. i < length xs \<and> ?b i < Suc (?b r)}" using mono [of _ r] assms by (auto simp: less_Suc_eq_le)
  then have "card {..r} \<le> card {i. i < length xs \<and> ?b i < Suc (?b r)}" by (intro card_mono) simp_all
  then show "Suc r \<le> up_to_bucket xs (Suc (?b r))" by (simp add: up_to_bucket_sorted)
qed

lemma percentile_nearest_rank:
  assumes rep: "latency_rep xs m" and len: "0 < length xs" "length xs * 100 + 100 < 2 ^ 64"
    and q: "0 < q" "q \<le> 100"
  shows "percentile (pm_latency_histogram m) (pm_latency_samples m) (word_of_nat q) 100 (pm_latency_max_ns m) =
           min (bucket_upper_bound (latency_bucket (nearest_rank q xs))) (fold max xs 0)"
proof -
  let ?n = "length xs" and ?t = "percentile_rank q (length xs)"
  note t = percentile_rank_bounds [OF len(1) q]
  have small: "?n * q + 99 < 2 ^ 64" using len(2) mult_le_mono2 [OF q(2), of ?n] by linarith
  have target: "max 1 ((word_of_nat ?n * word_of_nat q + 100 - 1) div 100) = (word_of_nat ?t :: u64)"
  proof -
    have "(word_of_nat ?n * word_of_nat q + 100 - 1 :: u64) = word_of_nat (?n * q + 99)" by simp
    moreover have "(word_of_nat (?n * q + 99) div word_of_nat 100 :: u64) = word_of_nat ?t"
      unfolding percentile_rank_def word_arith_nat_div using small
      by (simp only: unat_of_nat take_bit_nat_eq_self_iff [THEN iffD2] of_nat_numeral)
        (simp add: take_bit_nat_eq_self)
    moreover have "(1 :: u64) \<le> word_of_nat ?t" 
      using u64_of_nat_le [of 1 ?t] t len(2) by simp
    ultimately show ?thesis by (simp only: of_nat_numeral max_absorb2)
  qed
  have rank: "?t - 1 < ?n" "Suc (?t - 1) = ?t" using t len(1) by simp_all
  note bucket = up_to_bucket_rank [OF rank(1), folded nearest_rank_def, unfolded rank(2)]
  let ?k = "latency_bucket (nearest_rank q xs)"
  have below: "up_to_bucket xs (Suc c) < ?t" if "c < ?k" for c
    using bucket(1) [of "Suc c"] that t(1) by linarith
  have "percentile_scan (word_of_nat ?t) (fold max xs 0) 0 (word_of_nat (up_to_bucket xs 0))
          (map (\<lambda>b. word_of_nat (in_bucket xs b)) [0..<64]) = min (bucket_upper_bound ?k) (fold max xs 0)"
    using below bucket(2) len(2) by (intro percentile_scan_bucket) simp_all
  moreover have "(word_of_nat ?n :: u64) \<noteq> 0"
    using u64_of_nat_le [of 1 ?n] len by auto
  ultimately show ?thesis
    using rep target by (simp add: percentile_def latency_rep_def latency_bucket_count_def del: upt_rec_numeral)
qed


text \<open>The upper end of the bucket of a nearest rank, as the code reports it.\<close>

definition rank_bound :: "nat \<Rightarrow> u64 list \<Rightarrow> u64" where
  "rank_bound q xs = min (bucket_upper_bound (latency_bucket (nearest_rank q xs))) (fold max xs 0)"

lemma fold_max_word:
  fixes xs :: "u64 list"
  assumes "xs \<noteq> []"
  shows "fold max xs 0 = Max (set xs)"
proof -
  have "Max (insert 0 (set xs)) = max 0 (Max (set xs))" using assms by simp
  then show ?thesis using Max.set_eq_fold [of 0 xs] by simp
qed

lemma rank_bound_close:
  assumes n: "xs \<noteq> []" and q: "0 < q" "q \<le> 100"
  shows "nearest_rank q xs \<le> rank_bound q xs \<and> unat (rank_bound q xs) < 2 * max 1 (unat (nearest_rank q xs))"
proof -
  have "0 < length xs" using n by simp
  then have "percentile_rank q (length xs) - 1 < length (sort xs)"
    using percentile_rank_bounds [of "length xs" q] q by simp
  then have "nearest_rank q xs \<in> set (sort xs)" unfolding nearest_rank_def by (rule nth_mem)
  then have "nearest_rank q xs \<le> fold max xs 0" by (simp add: fold_max_word [OF n])
  moreover have "nearest_rank q xs \<le> bucket_upper_bound (latency_bucket (nearest_rank q xs))"
    using bucket_le_iff [of "latency_bucket (nearest_rank q xs)" "nearest_rank q xs"] by simp
  moreover have "rank_bound q xs \<le> bucket_upper_bound (latency_bucket (nearest_rank q xs))"
    by (simp add: rank_bound_def)
  then have "unat (rank_bound q xs) \<le> unat (bucket_upper_bound (latency_bucket (nearest_rank q xs)))"
    by (simp only: word_le_nat_alt)
  moreover note bucket_upper_bound_close [of "nearest_rank q xs"]
  ultimately show ?thesis by (simp add: rank_bound_def)
qed

lemma rank_bound_mono:
  assumes n: "xs \<noteq> []" and q: "0 < q" "q \<le> r" "r \<le> 100"
  shows "rank_bound q xs \<le> rank_bound r xs"
proof -
  have "0 < length xs" using n by simp
  then have "nearest_rank q xs \<le> nearest_rank r xs"
    unfolding nearest_rank_def using percentile_rank_mono [OF q(2)] percentile_rank_bounds [of "length xs" r] q
    by (intro sorted_nth_mono) (simp_all add: diff_le_mono)
  then have "latency_bucket (nearest_rank q xs) \<le> latency_bucket (nearest_rank r xs)" by (rule latency_bucket_mono)
  then have "bucket_upper_bound (latency_bucket (nearest_rank q xs)) \<le> bucket_upper_bound (latency_bucket (nearest_rank r xs))"
    by (simp add: word_le_nat_alt bucket_upper_bound_unat diff_le_mono power_increasing)
  then show ?thesis unfolding rank_bound_def by (rule min.mono) simp
qed

text \<open>
  C30. After recording a sequence of at least one latency, short enough for the rank computation not to wrap (its
  length times 100 plus 100 stays below 2^64), each reported percentile is at least the exact nearest-rank percentile
  and less than twice it, where an exact percentile of 0 counts as 1 (so 0 is reported as 0 or 1); the three
  percentiles and the maximum are ordered, and the maximum is exact.
\<close>

theorem percentiles_bracket:
  fixes ratio :: "u64 \<Rightarrow> u64 \<Rightarrow> 'd::zero"
  assumes "xs \<noteq> []" "length xs * 100 + 100 < 2 ^ 64"
  shows "let s = latency_snapshot ratio (fold record_matching_latency xs new_metrics);
             near = (\<lambda>q p. nearest_rank q xs \<le> p \<and> unat p < 2 * max 1 (unat (nearest_rank q xs)))
         in near 50 (ls_p50_ns s) \<and> near 95 (ls_p95_ns s) \<and> near 99 (ls_p99_ns s) \<and>
            ls_p50_ns s \<le> ls_p95_ns s \<and> ls_p95_ns s \<le> ls_p99_ns s \<and> ls_p99_ns s \<le> ls_max_ns s \<and>
            ls_max_ns s = Max (set xs)"
proof -
  define m where "m = fold record_matching_latency xs new_metrics"
  have rep: "latency_rep xs m" using latency_rep_fold [OF latency_rep_new, of xs] by (simp add: m_def)
  have n: "0 < length xs" using assms(1) by simp
  have "ls_p50_ns (latency_snapshot ratio m) = rank_bound 50 xs" "ls_p95_ns (latency_snapshot ratio m) = rank_bound 95 xs"
    "ls_p99_ns (latency_snapshot ratio m) = rank_bound 99 xs" "ls_max_ns (latency_snapshot ratio m) = fold max xs 0"
    using percentile_nearest_rank [OF rep n assms(2), of 50] percentile_nearest_rank [OF rep n assms(2), of 95]
      percentile_nearest_rank [OF rep n assms(2), of 99] rep
    by (simp_all add: latency_snapshot_def Let_def rank_bound_def latency_rep_def)
  moreover have "rank_bound 99 xs \<le> fold max xs 0" by (simp add: rank_bound_def)
  ultimately show ?thesis
    using rank_bound_close [OF assms(1), of 50] rank_bound_close [OF assms(1), of 95] rank_bound_close [OF assms(1), of 99]
      rank_bound_mono [OF assms(1), of 50 95] rank_bound_mono [OF assms(1), of 95 99] fold_max_word [OF assms(1)]
    unfolding Let_def m_def [symmetric] by simp
qed

lemma percentiles_bracket_witness:
  "let s = latency_snapshot (\<lambda>a b. a div b) (fold record_matching_latency [900, 5, 17] new_metrics)
   in ls_p50_ns s \<le> ls_p95_ns s \<and> nearest_rank 50 [900, 5, 17] = 17 \<and> 17 \<le> ls_p50_ns s"
  using percentiles_bracket [of "[900, 5, 17]" "\<lambda>a b. a div b"]
  by (simp add: Let_def nearest_rank_def percentile_rank_def)

section \<open>Concurrent recording\<close>

text \<open>
  What an operation does in the end, whatever happens in between: the pending operations applied to the
  counters are the same before and after every step.
\<close>

definition raise_max :: "u64 \<Rightarrow> PerformanceMetrics \<Rightarrow> PerformanceMetrics" where
  "raise_max v m = m\<lparr>pm_latency_max_ns := max (pm_latency_max_ns m) v\<rparr>"

fun settle :: "metric_op \<Rightarrow> PerformanceMetrics \<Rightarrow> PerformanceMetrics" where
  "settle (Fetch_Add c n) = fetch_add c n"
| "settle (Bucket_Add b) = bucket_add b"
| "settle (Load_Max v) = raise_max v"
| "settle (Exchange_Max seen v) = raise_max v"

lemma fetch_add_commutes: "fetch_add c n (fetch_add d k m) = fetch_add d k (fetch_add c n m)"
  by (cases c; cases d; simp)

lemma fetch_add_bucket: "fetch_add c n (bucket_add b m) = bucket_add b (fetch_add c n m)"
  by (cases c; simp add: bucket_add_def)

lemma fetch_add_max: "fetch_add c n (raise_max v m) = raise_max v (fetch_add c n m)"
  by (cases c; simp add: raise_max_def)

lemma bucket_add_commutes: "bucket_add b (bucket_add c m) = bucket_add c (bucket_add b m)"
proof (cases "b = c")
  case False
  then show ?thesis by (simp add: bucket_add_def list_update_swap)
qed simp

lemma bucket_add_max: "bucket_add b (raise_max v m) = raise_max v (bucket_add b m)"
  by (simp add: bucket_add_def raise_max_def)

lemma raise_max_commutes: "raise_max v (raise_max w m) = raise_max w (raise_max v m)"
  by (simp add: raise_max_def max.left_commute max.commute)

lemmas settle_commutes = fetch_add_commutes fetch_add_bucket fetch_add_max bucket_add_commutes
  bucket_add_max raise_max_commutes

lemma settle_swap: "settle x \<circ> settle y = settle y \<circ> settle x"
  by (cases x; cases y) (simp_all add: fun_eq_iff settle_commutes)

lemma settle_front: "fold settle (xs @ op # ys) m = fold settle (xs @ ys) (settle op m)"
proof -
  have "fold settle (xs @ op # ys) = fold settle (op # xs @ ys)"
    by (rule fold_multiset_equiv) (simp_all add: settle_swap)
  then show ?thesis by simp
qed

lemma settle_retry: "fold settle (xs @ retry_max v m @ ys) m = fold settle (xs @ ys) (raise_max v m)"
proof (cases "pm_latency_max_ns m < v")
  case True
  then show ?thesis using settle_front [of xs "Exchange_Max (pm_latency_max_ns m) v" ys m] by (simp add: retry_max_def)
next
  case False
  then have "raise_max v m = m" by (simp add: raise_max_def max_absorb1)
  then show ?thesis using False by (simp add: retry_max_def)
qed

text \<open>The observed value never exceeds the proposed one, so that a successful exchange raises the maximum.\<close>

definition exchanges_raise :: "metric_op list list \<Rightarrow> bool" where
  "exchanges_raise ts \<longleftrightarrow> (\<forall>seen v. Exchange_Max seen v \<in> set (concat ts) \<longrightarrow> seen < v)"

lemma metric_step_settles:
  assumes "metric_step s s'" "exchanges_raise (snd s)"
  shows "fold settle (concat (snd s')) (fst s') = fold settle (concat (snd s)) (fst s) \<and> exchanges_raise (snd s')"
  using assms
proof cases
  case (exchange m seen before v rest after)
  then have "seen < v" using assms(2) by (simp add: exchanges_raise_def)
  then have "m\<lparr>pm_latency_max_ns := v\<rparr> = raise_max v m" using exchange(3) by (simp add: raise_max_def max_absorb2)
  then show ?thesis
    using exchange assms(2) settle_front [of "concat before" "Exchange_Max seen v" "rest @ concat after" m]
    by (auto simp: exchanges_raise_def)
next
  case (load m before v rest after)
  then show ?thesis
    using assms(2) settle_front [of "concat before" "Load_Max v" "rest @ concat after" m]
      settle_retry [of "concat before" v m "rest @ concat after"]
    by (auto simp: exchanges_raise_def) (auto simp: retry_max_def split: if_splits)
next
  case (retry m before seen v rest after)
  then show ?thesis
    using assms(2) settle_front [of "concat before" "Exchange_Max seen v" "rest @ concat after" m]
      settle_retry [of "concat before" v m "rest @ concat after"]
    by (auto simp: exchanges_raise_def) (auto simp: retry_max_def split: if_splits)
next
  case (add m before c n rest after)
  then show ?thesis
    using assms(2) settle_front [of "concat before" "Fetch_Add c n" "rest @ concat after" m]
    by (auto simp: exchanges_raise_def)
next
  case (bucket m before b rest after)
  then show ?thesis
    using assms(2) settle_front [of "concat before" "Bucket_Add b" "rest @ concat after" m]
    by (auto simp: exchanges_raise_def)
qed

lemma metric_steps_settle:
  assumes "metric_step\<^sup>*\<^sup>* s s'" "exchanges_raise (snd s)"
  shows "fold settle (concat (snd s')) (fst s') = fold settle (concat (snd s)) (fst s) \<and> exchanges_raise (snd s')"
  using assms by (induction rule: rtranclp_induct) (auto dest: metric_step_settles)

lemma settle_call: "fold settle (call_ops c) m = record_call c m"
  by (cases c) (simp_all add: record_new_order_def record_cancel_def record_replace_def record_trades_def
      record_matching_latency_def bucket_add_def raise_max_def Let_def)

lemma settle_thread: "fold settle (thread_ops calls) m = fold record_call calls m"
  by (induction calls arbitrary: m) (simp_all add: thread_ops_def settle_call)

lemma settle_threads: "fold settle (concat (map thread_ops threads)) m = fold record_call (concat threads) m"
  by (induction threads arbitrary: m) (simp_all add: settle_thread)

lemma no_exchange_pending: "exchanges_raise (map thread_ops threads)"
proof -
  have "Exchange_Max seen v \<notin> set (call_ops c)" for seen v c by (cases c) simp_all
  then show ?thesis by (auto simp: exchanges_raise_def thread_ops_def)
qed

text \<open>
  C29. However threads interleave the atomic operations of their recording calls, spurious failures of the
  compare-and-exchange loop included, when all have finished the counters, the histogram and the maximum
  are those of running all the calls one after the other.
\<close>

theorem concurrent_recording_exact:
  assumes "metric_step\<^sup>*\<^sup>* (m, map thread_ops threads) (m', idle)" "\<forall>t\<in>set idle. t = []"
  shows "m' = fold record_call (concat threads) m"
proof -
  have idle: "concat idle = []" using assms(2) by simp
  show ?thesis
    using metric_steps_settle [OF assms(1)] unfolding snd_conv fst_conv idle
    by (simp add: no_exchange_pending settle_threads)
qed

lemma concurrent_recording_exact_witness:
  "\<exists>m'. metric_step\<^sup>*\<^sup>* (new_metrics, map thread_ops [[Record_Trades 2 30], [Record_Trades 1 5]]) (m', [[], []]) \<and>
     m' = new_metrics\<lparr>pm_trades := 3, pm_traded_quantity := 35\<rparr>"
proof -
  let ?final = "fetch_add Traded_Quantity 30 (fetch_add Traded_Quantity 5 (fetch_add Trades 2 (fetch_add Trades 1 new_metrics)))"
  have "metric_step\<^sup>*\<^sup>* (new_metrics, map thread_ops [[Record_Trades 2 30], [Record_Trades 1 5]]) (?final, [[], []])"
    apply (simp only: thread_ops_def list.map concat.simps append_Nil2 call_ops.simps)
    apply (rule converse_rtranclp_into_rtranclp, rule metric_step.add [of _ "[_]" _ _ _ "[]", simplified])
    apply (rule converse_rtranclp_into_rtranclp, rule metric_step.add [of _ "[]", simplified])
    apply (rule converse_rtranclp_into_rtranclp, rule metric_step.add [of _ "[_]" _ _ _ "[]", simplified])
    apply (rule converse_rtranclp_into_rtranclp, rule metric_step.add [of _ "[]", simplified])
    apply (rule rtranclp.rtrancl_refl)
    done
  moreover from this have "?final = fold record_call (concat [[Record_Trades 2 30], [Record_Trades 1 5]]) new_metrics"
    by (rule concurrent_recording_exact) simp
  ultimately show ?thesis by (intro exI [of _ ?final]) (simp add: record_trades_def new_metrics_def)
qed

end
