(* ===== verification/Multicast.thy ===== *)
theory Multicast
  imports Spsc_Ring
begin

text \<open>
  The market data publisher of \<^verbatim>\<open>include/exchange/multicast_publisher.hpp\<close> and
  \<^verbatim>\<open>src/multicast_publisher.cpp\<close>: up to 256 threads queue datagrams in a ring of their own, one publisher thread
  drains the rings round robin into the multicast socket, and a flag puts it to sleep when there is no work.

  Every shared variable is a field of \<open>MulticastPublisher\<close>. A thread inside \<open>send\<close> is a program location
  (\<open>sender\<close>), the publisher thread another (\<open>publisher_pc\<close>), the thread that calls \<open>stop\<close> a third
  (\<open>stopper\<close>); \<open>send_step\<close>, \<open>publisher_step\<close> and \<open>stop_step\<close> are one atomic action of each, in the order of the
  code, and \<open>mc_step\<close> interleaves them. An operation on a ring is one action, which the theory of the ring
  justifies: under any interleaving of its parts it is a first-in first-out queue. The actions of \<open>mc_step\<close> take effect
  in one order for all threads, as if every access were sequentially consistent. The code asks for less: it orders a
  store before a later load of another variable nowhere. \<open>tso_step\<close> is the same program with the one reordering
  that decides about the wake flag: the publisher thread's clear of the flag may wait in its store buffer.

  A slot of a ring stands for its first \<^verbatim>\<open>size\<close> bytes. Whether a \<^verbatim>\<open>sendto\<close> transmits the whole datagram is
  an argument of the step. The last five fields of \<open>mc_world\<close> record history (how many registrations were made,
  the datagrams each shard took, each thread had queued and \<open>send\<close> reported as queued, and what was handed to \<^verbatim>\<open>sendto\<close>); no
  step reads them.
\<close>

section \<open>State\<close>

type_synonym datagram = "u8 list"

record ProducerShard =
  sh_queue :: "datagram SpscRing"
  sh_active_sender :: bool
  sh_enqueued :: u64
  sh_dropped :: u64
  sh_max_depth :: u64

record MulticastPublisher =
  mp_socket :: int
  mp_destination :: bool
  mp_shards :: "ProducerShard list"
  mp_running :: bool
  mp_generation :: u64
  mp_next_producer_shard :: u64
  mp_wake_requested :: bool
  mp_sent :: u64
  mp_send_errors :: u64
  mp_administrative_dropped :: u64
  mp_producer_registration_failures :: u64

definition producer_shard_count :: nat where
  "producer_shard_count = 256"

definition queue_capacity_per_producer :: nat where
  "queue_capacity_per_producer = 32"

definition maximum_datagram_size :: nat where
  "maximum_datagram_size = 512"

definition new_shard :: ProducerShard where
  "new_shard = \<lparr>sh_queue = new_ring queue_capacity_per_producer [], sh_active_sender = False,
     sh_enqueued = 0, sh_dropped = 0, sh_max_depth = 0\<rparr>"

definition new_publisher :: MulticastPublisher where
  "new_publisher = \<lparr>mp_socket = -1, mp_destination = False,
     mp_shards = replicate producer_shard_count new_shard, mp_running = False, mp_generation = 0,
     mp_next_producer_shard = 0, mp_wake_requested = False, mp_sent = 0, mp_send_errors = 0,
     mp_administrative_dropped = 0, mp_producer_registration_failures = 0\<rparr>"

definition shard_at :: "nat \<Rightarrow> MulticastPublisher \<Rightarrow> ProducerShard" where
  "shard_at i p = mp_shards p ! i"

definition update_shard :: "nat \<Rightarrow> (ProducerShard \<Rightarrow> ProducerShard) \<Rightarrow> MulticastPublisher \<Rightarrow> MulticastPublisher" where
  "update_shard i f p = p\<lparr>mp_shards := (mp_shards p)[i := f (mp_shards p ! i)]\<rparr>"

section \<open>Starting and reading the counters\<close>

definition reset_shard :: "ProducerShard \<Rightarrow> ProducerShard" where
  "reset_shard s = \<lparr>sh_queue = ring_reset (sh_queue s), sh_active_sender = False, sh_enqueued = 0,
     sh_dropped = 0, sh_max_depth = 0\<rparr>"

text \<open>
  The system calls of \<open>start\<close> are arguments: the socket, the two socket options, the conversion of the
  group address, and the creation of the thread. The global generation counter is passed through.
\<close>

record start_calls =
  sc_socket :: int
  sc_ttl :: bool
  sc_loop :: bool
  sc_group :: bool
  sc_thread :: bool

definition start_publisher ::
  "start_calls \<Rightarrow> u64 \<Rightarrow> MulticastPublisher \<Rightarrow> bool \<times> u64 \<times> MulticastPublisher" where
  "start_publisher calls next_generation p =
     (if mp_running p then (True, next_generation, p)
      else if sc_socket calls < 0 then (False, next_generation, p\<lparr>mp_socket := sc_socket calls\<rparr>)
      else if \<not> sc_ttl calls \<or> \<not> sc_loop calls \<or> \<not> sc_group calls
        then (False, next_generation, p\<lparr>mp_socket := -1\<rparr>)
      else
        let p = p\<lparr>mp_socket := sc_socket calls, mp_destination := True,
              mp_shards := map reset_shard (mp_shards p), mp_next_producer_shard := 0, mp_sent := 0,
              mp_send_errors := 0, mp_administrative_dropped := 0, mp_producer_registration_failures := 0,
              mp_wake_requested := False, mp_generation := next_generation, mp_running := True\<rparr>
        in if sc_thread calls then (True, next_generation + 1, p)
           else (False, next_generation + 1, p\<lparr>mp_running := False, mp_destination := False, mp_socket := -1\<rparr>))"

definition publisher_is_open :: "MulticastPublisher \<Rightarrow> bool" where
  "publisher_is_open p \<longleftrightarrow> mp_running p \<and> mp_socket p \<ge> 0 \<and> mp_destination p"

definition aggregate_queue_depth :: "MulticastPublisher \<Rightarrow> u64" where
  "aggregate_queue_depth p = sum_list (map (\<lambda>s. ring_size_approx (sh_queue s)) (mp_shards p))"

record MulticastPublisherStats =
  ps_enqueued :: u64
  ps_sent :: u64
  ps_dropped :: u64
  ps_send_errors :: u64
  ps_queue_depth :: u64
  ps_max_queue_depth :: u64
  ps_producer_shards_used :: u64
  ps_producer_registration_failures :: u64

definition publisher_stats :: "MulticastPublisher \<Rightarrow> MulticastPublisherStats" where
  "publisher_stats p =
     \<lparr>ps_enqueued = sum_list (map sh_enqueued (mp_shards p)), ps_sent = mp_sent p,
      ps_dropped = mp_administrative_dropped p + sum_list (map sh_dropped (mp_shards p)),
      ps_send_errors = mp_send_errors p, ps_queue_depth = aggregate_queue_depth p,
      ps_max_queue_depth = sum_list (map sh_max_depth (mp_shards p)),
      ps_producer_shards_used = min (mp_next_producer_shard p) (word_of_nat producer_shard_count),
      ps_producer_registration_failures = mp_producer_registration_failures p\<rparr>"

section \<open>The threads\<close>

datatype sender =
    S_Idle
  | S_Register datagram
  | S_Mark datagram nat
  | S_Recheck datagram nat
  | S_Withdraw datagram nat
  | S_Push datagram nat
  | S_Unmark datagram nat bool
  | S_Account datagram nat bool
  | S_Depth datagram nat
  | S_Test datagram nat
  | S_Set datagram nat
  | S_Notify datagram nat

datatype publisher_pc =
    C_Scan nat nat
  | C_Deliver nat datagram
  | C_Free nat
  | C_Running nat
  | C_Empty nat nat
  | C_Active nat nat
  | C_Clear nat
  | C_Rescan nat nat
  | C_Rerunning nat
  | C_Wait nat
  | C_Blocked nat
  | C_Done

datatype stopper = K_Running | K_Set | K_Notify | K_Join | K_Stopped

record mc_world =
  mw_publisher :: MulticastPublisher
  mw_registration :: "nat \<Rightarrow> (u64 \<times> nat) option"
  mw_sender :: "nat \<Rightarrow> sender"
  mw_pc :: publisher_pc
  mw_stopper :: stopper
  mw_registrations :: nat
  mw_log :: "nat \<Rightarrow> datagram list"
  mw_accepted :: "nat \<Rightarrow> datagram list"
  mw_returned :: "nat \<Rightarrow> datagram list"
  mw_network :: "(nat \<times> datagram \<times> bool) list"

definition count_administrative_drop :: "MulticastPublisher \<Rightarrow> MulticastPublisher" where
  "count_administrative_drop p = p\<lparr>mp_administrative_dropped := mp_administrative_dropped p + 1\<rparr>"

definition at_sender :: "nat \<Rightarrow> sender \<Rightarrow> mc_world \<Rightarrow> mc_world" where
  "at_sender t s w = w\<lparr>mw_sender := (mw_sender w)(t := s)\<rparr>"

definition with_publisher :: "(MulticastPublisher \<Rightarrow> MulticastPublisher) \<Rightarrow> mc_world \<Rightarrow> mc_world" where
  "with_publisher f w = w\<lparr>mw_publisher := f (mw_publisher w)\<rparr>"

definition send_returns_true :: "nat \<Rightarrow> datagram \<Rightarrow> mc_world \<Rightarrow> mc_world" where
  "send_returns_true t d w =
     (at_sender t S_Idle w)\<lparr>mw_returned := (mw_returned w)(t := mw_returned w t @ [d])\<rparr>"

text \<open>A notified publisher thread looks at the flag again.\<close>

definition notify_publisher :: "mc_world \<Rightarrow> mc_world" where
  "notify_publisher w = (case mw_pc w of C_Blocked cursor \<Rightarrow> w\<lparr>mw_pc := C_Wait cursor\<rparr> | _ \<Rightarrow> w)"

section \<open>Sending\<close>

definition send_call :: "nat \<Rightarrow> datagram \<Rightarrow> mc_world \<Rightarrow> mc_world" where
  "send_call t d w =
     (if \<not> mp_running (mw_publisher w) \<or> d = [] \<or> length d > maximum_datagram_size
      then with_publisher count_administrative_drop w
      else at_sender t (S_Register d) w)"

definition register_shard :: "nat \<Rightarrow> u64 \<Rightarrow> mc_world \<Rightarrow> nat \<times> mc_world" where
  "register_shard t generation w =
     (let p = mw_publisher w; shard = unat (mp_next_producer_shard p);
          w = w\<lparr>mw_publisher := p\<lparr>mp_next_producer_shard := mp_next_producer_shard p + 1\<rparr>,
                mw_registrations := mw_registrations w + 1\<rparr>
      in if shard \<ge> producer_shard_count then
           (producer_shard_count, with_publisher
              (\<lambda>p. p\<lparr>mp_producer_registration_failures := mp_producer_registration_failures p + 1\<rparr>) w)
         else (shard, w\<lparr>mw_registration := (mw_registration w)(t \<mapsto> (generation, shard))\<rparr>))"

definition producer_shard_for_current_thread :: "nat \<Rightarrow> mc_world \<Rightarrow> nat \<times> mc_world" where
  "producer_shard_for_current_thread t w =
     (let p = mw_publisher w; generation = mp_generation p in
      case mw_registration w t of
        Some (g, s) \<Rightarrow> if g = generation \<and> s < producer_shard_count then (s, w) else register_shard t generation w
      | None \<Rightarrow> register_shard t generation w)"

definition push_datagram :: "nat \<Rightarrow> nat \<Rightarrow> datagram \<Rightarrow> mc_world \<Rightarrow> bool \<times> mc_world" where
  "push_datagram t i d w =
     (let (queued, queue) = ring_try_push d (sh_queue (shard_at i (mw_publisher w)));
          w = with_publisher (update_shard i (\<lambda>s. s\<lparr>sh_queue := queue\<rparr>)) w
      in (queued, if queued then w\<lparr>mw_log := (mw_log w)(i := mw_log w i @ [d]),
                          mw_accepted := (mw_accepted w)(t := mw_accepted w t @ [d])\<rparr> else w))"

fun send_step :: "nat \<Rightarrow> mc_world \<Rightarrow> mc_world" where
  "send_step t w =
     (case mw_sender w t of
        S_Idle \<Rightarrow> w
      | S_Register d \<Rightarrow>
          (let (i, w) = producer_shard_for_current_thread t w in
           if i = producer_shard_count then at_sender t S_Idle (with_publisher count_administrative_drop w)
           else at_sender t (S_Mark d i) w)
      | S_Mark d i \<Rightarrow>
          at_sender t (S_Recheck d i) (with_publisher (update_shard i (\<lambda>s. s\<lparr>sh_active_sender := True\<rparr>)) w)
      | S_Recheck d i \<Rightarrow> at_sender t (if mp_running (mw_publisher w) then S_Push d i else S_Withdraw d i) w
      | S_Withdraw d i \<Rightarrow>
          at_sender t S_Idle (with_publisher (count_administrative_drop \<circ>
            update_shard i (\<lambda>s. s\<lparr>sh_active_sender := False\<rparr>)) w)
      | S_Push d i \<Rightarrow> (let (queued, w) = push_datagram t i d w in at_sender t (S_Unmark d i queued) w)
      | S_Unmark d i queued \<Rightarrow>
          at_sender t (S_Account d i queued) (with_publisher (update_shard i (\<lambda>s. s\<lparr>sh_active_sender := False\<rparr>)) w)
      | S_Account d i queued \<Rightarrow>
          (if queued then
             at_sender t (S_Depth d i) (with_publisher (update_shard i (\<lambda>s. s\<lparr>sh_enqueued := sh_enqueued s + 1\<rparr>)) w)
           else at_sender t S_Idle (with_publisher (update_shard i (\<lambda>s. s\<lparr>sh_dropped := sh_dropped s + 1\<rparr>)) w))
      | S_Depth d i \<Rightarrow>
          at_sender t (S_Test d i) (with_publisher (update_shard i
            (\<lambda>s. s\<lparr>sh_max_depth := max (sh_max_depth s) (ring_size_approx (sh_queue s))\<rparr>)) w)
      | S_Test d i \<Rightarrow>
          (if mp_wake_requested (mw_publisher w) then send_returns_true t d w else at_sender t (S_Set d i) w)
      | S_Set d i \<Rightarrow>
          (let w' = with_publisher (\<lambda>p. p\<lparr>mp_wake_requested := True\<rparr>) w in
           if mp_wake_requested (mw_publisher w) then send_returns_true t d w' else at_sender t (S_Notify d i) w')
      | S_Notify d i \<Rightarrow> send_returns_true t d (notify_publisher w))"

declare send_step.simps [simp del]

section \<open>Publishing\<close>

definition ring_front :: "'a SpscRing \<Rightarrow> 'a option \<times> 'a SpscRing" where
  "ring_front r =
     (let read = rg_read_position r in
      if read = rg_cached_write_position r then
        let r = ring_reload_write r in
        if read = rg_cached_write_position r then (None, r) else (Some (ring_slot read r), r)
      else (Some (ring_slot read r), r))"

definition send_datagram :: "bool \<Rightarrow> datagram \<Rightarrow> MulticastPublisher \<Rightarrow> bool" where
  "send_datagram transmitted d p \<longleftrightarrow> \<not> (mp_socket p < 0 \<or> \<not> mp_destination p \<or> d = []) \<and> transmitted"

definition deliver_datagram :: "bool \<Rightarrow> nat \<Rightarrow> datagram \<Rightarrow> mc_world \<Rightarrow> mc_world" where
  "deliver_datagram transmitted i d w =
     (let ok = send_datagram transmitted d (mw_publisher w) in
      (with_publisher (\<lambda>p. if ok then p\<lparr>mp_sent := mp_sent p + 1\<rparr>
          else p\<lparr>mp_send_errors := mp_send_errors p + 1\<rparr>) w)\<lparr>mw_network := mw_network w @ [(i, d, ok)]\<rparr>)"

definition queue_empty_at :: "nat \<Rightarrow> mc_world \<Rightarrow> bool" where
  "queue_empty_at i w \<longleftrightarrow> ring_empty_approx (sh_queue (shard_at i (mw_publisher w)))"

fun publisher_step :: "bool \<Rightarrow> mc_world \<Rightarrow> mc_world" where
  "publisher_step transmitted w =
     (let p = mw_publisher w in
      case mw_pc w of
        C_Scan cursor offset \<Rightarrow>
          (if offset < producer_shard_count then
             let i = (cursor + offset) mod producer_shard_count;
                 (front, queue) = ring_front (sh_queue (shard_at i p));
                 w = with_publisher (update_shard i (\<lambda>s. s\<lparr>sh_queue := queue\<rparr>)) w
             in w\<lparr>mw_pc := case front of Some d \<Rightarrow> C_Deliver i d | None \<Rightarrow> C_Scan cursor (offset + 1)\<rparr>
           else w\<lparr>mw_pc := C_Running cursor\<rparr>)
      | C_Deliver i d \<Rightarrow> (deliver_datagram transmitted i d w)\<lparr>mw_pc := C_Free i\<rparr>
      | C_Free i \<Rightarrow>
          (with_publisher (update_shard i (\<lambda>s. s\<lparr>sh_queue := ring_release (rg_read_position (sh_queue s)) (sh_queue s)\<rparr>)) w)
            \<lparr>mw_pc := C_Scan ((i + 1) mod producer_shard_count) 0\<rparr>
      | C_Running cursor \<Rightarrow> w\<lparr>mw_pc := if mp_running p then C_Clear cursor else C_Empty cursor 0\<rparr>
      | C_Empty cursor i \<Rightarrow>
          w\<lparr>mw_pc := if i < producer_shard_count
             then if queue_empty_at i w then C_Empty cursor (i + 1) else C_Scan cursor 0
             else C_Active cursor 0\<rparr>
      | C_Active cursor i \<Rightarrow>
          w\<lparr>mw_pc := if i < producer_shard_count
             then if sh_active_sender (shard_at i p) then C_Scan cursor 0 else C_Active cursor (i + 1)
             else C_Done\<rparr>
      | C_Clear cursor \<Rightarrow> (with_publisher (\<lambda>p. p\<lparr>mp_wake_requested := False\<rparr>) w)\<lparr>mw_pc := C_Rescan cursor 0\<rparr>
      | C_Rescan cursor i \<Rightarrow>
          w\<lparr>mw_pc := if i < producer_shard_count
             then if queue_empty_at i w then C_Rescan cursor (i + 1) else C_Scan cursor 0
             else C_Rerunning cursor\<rparr>
      | C_Rerunning cursor \<Rightarrow> w\<lparr>mw_pc := if mp_running p then C_Wait cursor else C_Scan cursor 0\<rparr>
      | C_Wait cursor \<Rightarrow> w\<lparr>mw_pc := if mp_wake_requested p then C_Scan cursor 0 else C_Blocked cursor\<rparr>
      | C_Blocked cursor \<Rightarrow> w
      | C_Done \<Rightarrow> w)"

declare publisher_step.simps [simp del]

section \<open>Stopping\<close>

definition stop_step :: "mc_world \<Rightarrow> mc_world" where
  "stop_step w =
     (case mw_stopper w of
        K_Running \<Rightarrow> (with_publisher (\<lambda>p. p\<lparr>mp_running := False\<rparr>) w)\<lparr>mw_stopper := K_Set\<rparr>
      | K_Set \<Rightarrow> (with_publisher (\<lambda>p. p\<lparr>mp_wake_requested := True\<rparr>) w)\<lparr>mw_stopper := K_Notify\<rparr>
      | K_Notify \<Rightarrow> (notify_publisher w)\<lparr>mw_stopper := K_Join\<rparr>
      | K_Join \<Rightarrow>
          (if mw_pc w = C_Done then
             (with_publisher (\<lambda>p. p\<lparr>mp_socket := -1, mp_destination := False\<rparr>) w)\<lparr>mw_stopper := K_Stopped\<rparr>
           else w)
      | K_Stopped \<Rightarrow> w)"

section \<open>Runs\<close>

inductive mc_step :: "mc_world \<Rightarrow> mc_world \<Rightarrow> bool" where
  call: "mw_sender w t = S_Idle \<Longrightarrow> mc_step w (send_call t d w)"
| send: "mw_sender w t \<noteq> S_Idle \<Longrightarrow> mc_step w (send_step t w)"
| publish: "mc_step w (publisher_step transmitted w)"
| stop: "mc_step w (stop_step w)"

definition mc_start :: "u64 \<Rightarrow> int \<Rightarrow> mc_world" where
  "mc_start generation socket =
     \<lparr>mw_publisher = snd (snd (start_publisher \<lparr>sc_socket = socket, sc_ttl = True, sc_loop = True, sc_group = True,
        sc_thread = True\<rparr> generation new_publisher)),
      mw_registration = (\<lambda>_. None), mw_sender = (\<lambda>_. S_Idle), mw_pc = C_Scan 0 0, mw_stopper = K_Running,
      mw_registrations = 0, mw_log = (\<lambda>_. []), mw_accepted = (\<lambda>_. []), mw_returned = (\<lambda>_. []), mw_network = []\<rparr>"

definition mc_reachable :: "mc_world \<Rightarrow> bool" where
  "mc_reachable w \<longleftrightarrow> (\<exists>generation socket. 0 \<le> socket \<and> mc_step\<^sup>*\<^sup>* (mc_start generation socket) w)"

section \<open>A store buffer for the wake flag\<close>

text \<open>
  The clear of \<^verbatim>\<open>wake_requested_\<close> is a release store, and the loads of the rescan after it are acquire loads: nothing
  keeps it before them, in C++ or on a machine with store buffers. The second component says that the clear has
  left the program but not the store buffer: other threads still read the old flag, the publisher thread reads its own
  clear, and the steps of the thread that store to shared variables come after it. All other accesses are as in
  \<open>mc_step\<close>, so every run is one that the code's memory orders allow.
\<close>

fun past_buffer :: "bool \<Rightarrow> publisher_pc \<Rightarrow> bool" where
  "past_buffer buffered (C_Clear cursor) \<longleftrightarrow> False"
| "past_buffer buffered (C_Wait cursor) \<longleftrightarrow> \<not> buffered"
| "past_buffer buffered (C_Deliver i d) \<longleftrightarrow> \<not> buffered"
| "past_buffer buffered (C_Free i) \<longleftrightarrow> \<not> buffered"
| "past_buffer buffered _ \<longleftrightarrow> True"

inductive tso_step :: "mc_world \<times> bool \<Rightarrow> mc_world \<times> bool \<Rightarrow> bool" where
  call: "mw_sender w t = S_Idle \<Longrightarrow> tso_step (w, b) (send_call t d w, b)"
| send: "mw_sender w t \<noteq> S_Idle \<Longrightarrow> tso_step (w, b) (send_step t w, b)"
| publish: "past_buffer b (mw_pc w) \<Longrightarrow> tso_step (w, b) (publisher_step transmitted w, b)"
| clear: "mw_pc w = C_Clear cursor \<Longrightarrow> tso_step (w, b) (w\<lparr>mw_pc := C_Rescan cursor 0\<rparr>, True)"
| wait: "mw_pc w = C_Wait cursor \<Longrightarrow> tso_step (w, True) (w\<lparr>mw_pc := C_Blocked cursor\<rparr>, True)"
| flush: "tso_step (w, True) (with_publisher (\<lambda>p. p\<lparr>mp_wake_requested := False\<rparr>) w, False)"
| stop: "tso_step (w, b) (stop_step w, b)"

definition tso_reachable :: "mc_world \<times> bool \<Rightarrow> bool" where
  "tso_reachable s \<longleftrightarrow> (\<exists>generation socket. 0 \<le> socket \<and> tso_step\<^sup>*\<^sup>* (mc_start generation socket, False) s)"

end
