(* ===== verification/Multicast_Invariants.thy ===== *)
theory Multicast_Invariants
  imports Multicast
begin

text \<open>
  The invariants of the publisher: who owns a shard, which locations of the code a stop request allows, what
  the rings hold, and why the publisher thread never sleeps while there is work.
\<close>

section \<open>Views of a state\<close>

abbreviation shard_of :: "mc_world \<Rightarrow> nat \<Rightarrow> ProducerShard" where
  "shard_of w i \<equiv> mp_shards (mw_publisher w) ! i"

abbreviation queue_of :: "mc_world \<Rightarrow> nat \<Rightarrow> datagram SpscRing" where
  "queue_of w i \<equiv> sh_queue (shard_of w i)"

lemma with_publisher_simps [simp]:
  "mw_publisher (with_publisher f w) = f (mw_publisher w)"
  "mw_registration (with_publisher f w) = mw_registration w"
  "mw_sender (with_publisher f w) = mw_sender w"
  "mw_pc (with_publisher f w) = mw_pc w"
  "mw_stopper (with_publisher f w) = mw_stopper w"
  "mw_registrations (with_publisher f w) = mw_registrations w"
  "mw_log (with_publisher f w) = mw_log w"
  "mw_accepted (with_publisher f w) = mw_accepted w"
  "mw_returned (with_publisher f w) = mw_returned w"
  "mw_network (with_publisher f w) = mw_network w"
  by (simp_all add: with_publisher_def)

lemma at_sender_simps [simp]:
  "mw_publisher (at_sender t s w) = mw_publisher w"
  "mw_registration (at_sender t s w) = mw_registration w"
  "mw_sender (at_sender t s w) = (mw_sender w)(t := s)"
  "mw_pc (at_sender t s w) = mw_pc w"
  "mw_stopper (at_sender t s w) = mw_stopper w"
  "mw_registrations (at_sender t s w) = mw_registrations w"
  "mw_log (at_sender t s w) = mw_log w"
  "mw_accepted (at_sender t s w) = mw_accepted w"
  "mw_returned (at_sender t s w) = mw_returned w"
  "mw_network (at_sender t s w) = mw_network w"
  by (simp_all add: at_sender_def)

lemma send_returns_true_simps [simp]:
  "mw_publisher (send_returns_true t d w) = mw_publisher w"
  "mw_registration (send_returns_true t d w) = mw_registration w"
  "mw_sender (send_returns_true t d w) = (mw_sender w)(t := S_Idle)"
  "mw_pc (send_returns_true t d w) = mw_pc w"
  "mw_stopper (send_returns_true t d w) = mw_stopper w"
  "mw_registrations (send_returns_true t d w) = mw_registrations w"
  "mw_log (send_returns_true t d w) = mw_log w"
  "mw_accepted (send_returns_true t d w) = mw_accepted w"
  "mw_returned (send_returns_true t d w) = (mw_returned w)(t := mw_returned w t @ [d])"
  "mw_network (send_returns_true t d w) = mw_network w"
  by (simp_all add: send_returns_true_def)

lemma notify_publisher_simps [simp]:
  "mw_publisher (notify_publisher w) = mw_publisher w"
  "mw_registration (notify_publisher w) = mw_registration w"
  "mw_sender (notify_publisher w) = mw_sender w"
  "mw_stopper (notify_publisher w) = mw_stopper w"
  "mw_registrations (notify_publisher w) = mw_registrations w"
  "mw_log (notify_publisher w) = mw_log w"
  "mw_accepted (notify_publisher w) = mw_accepted w"
  "mw_returned (notify_publisher w) = mw_returned w"
  "mw_network (notify_publisher w) = mw_network w"
  "mw_pc (notify_publisher w) = (case mw_pc w of C_Blocked c \<Rightarrow> C_Wait c | _ \<Rightarrow> mw_pc w)"
  by (cases "mw_pc w"; simp add: notify_publisher_def)+

lemma update_shard_simps [simp]:
  "mp_shards (update_shard i f p) = (mp_shards p)[i := f (mp_shards p ! i)]"
  "mp_running (update_shard i f p) = mp_running p"
  "mp_generation (update_shard i f p) = mp_generation p"
  "mp_next_producer_shard (update_shard i f p) = mp_next_producer_shard p"
  "mp_wake_requested (update_shard i f p) = mp_wake_requested p"
  "mp_socket (update_shard i f p) = mp_socket p"
  "mp_destination (update_shard i f p) = mp_destination p"
  "mp_sent (update_shard i f p) = mp_sent p"
  "mp_send_errors (update_shard i f p) = mp_send_errors p"
  by (simp_all add: update_shard_def)

lemma count_administrative_drop_simps [simp]:
  "mp_shards (count_administrative_drop p) = mp_shards p"
  "mp_running (count_administrative_drop p) = mp_running p"
  "mp_generation (count_administrative_drop p) = mp_generation p"
  "mp_next_producer_shard (count_administrative_drop p) = mp_next_producer_shard p"
  "mp_wake_requested (count_administrative_drop p) = mp_wake_requested p"
  "mp_socket (count_administrative_drop p) = mp_socket p"
  "mp_destination (count_administrative_drop p) = mp_destination p"
  "mp_sent (count_administrative_drop p) = mp_sent p"
  "mp_send_errors (count_administrative_drop p) = mp_send_errors p"
  by (simp_all add: count_administrative_drop_def)

lemma shard_at_view [simp]: "shard_at i p = mp_shards p ! i"
  by (simp add: shard_at_def)

text \<open>The location of a sender after registration names its shard.\<close>

fun sender_shard :: "sender \<Rightarrow> nat option" where
  "sender_shard S_Idle = None"
| "sender_shard (S_Register d) = None"
| "sender_shard (S_Mark d i) = Some i"
| "sender_shard (S_Recheck d i) = Some i"
| "sender_shard (S_Withdraw d i) = Some i"
| "sender_shard (S_Push d i) = Some i"
| "sender_shard (S_Unmark d i q) = Some i"
| "sender_shard (S_Account d i q) = Some i"
| "sender_shard (S_Depth d i) = Some i"
| "sender_shard (S_Test d i) = Some i"
| "sender_shard (S_Set d i) = Some i"
| "sender_shard (S_Notify d i) = Some i"

section \<open>Ownership of shards\<close>

definition owns :: "mc_world \<Rightarrow> nat \<Rightarrow> nat \<Rightarrow> bool" where
  "owns w t i \<longleftrightarrow> mw_registration w t = Some (mp_generation (mw_publisher w), i)"

definition ownership :: "mc_world \<Rightarrow> bool" where
  "ownership w \<longleftrightarrow> length (mp_shards (mw_publisher w)) = producer_shard_count \<and>
     (mw_registrations w < 2 ^ 64 \<longrightarrow>
       mp_next_producer_shard (mw_publisher w) = word_of_nat (mw_registrations w) \<and>
       (\<forall>t g i. mw_registration w t = Some (g, i) \<longrightarrow>
          g = mp_generation (mw_publisher w) \<and> i < producer_shard_count \<and> i < mw_registrations w) \<and>
       (\<forall>t u i. owns w t i \<and> owns w u i \<longrightarrow> t = u) \<and>
       (\<forall>t i. sender_shard (mw_sender w t) = Some i \<longrightarrow> owns w t i))"
lemma ownership_length: "ownership w \<Longrightarrow> length (mp_shards (mw_publisher w)) = producer_shard_count"
  by (simp add: ownership_def)

lemma ownershipD:
  assumes "ownership w" "mw_registrations w < 2 ^ 64"
  shows "mp_next_producer_shard (mw_publisher w) = word_of_nat (mw_registrations w)"
    and "mw_registration w t = Some (g, i) \<Longrightarrow>
      g = mp_generation (mw_publisher w) \<and> i < producer_shard_count \<and> i < mw_registrations w"
    and "owns w t i \<Longrightarrow> owns w u i \<Longrightarrow> t = u"
    and "sender_shard (mw_sender w t) = Some i \<Longrightarrow> owns w t i"
  using assms unfolding ownership_def by blast+

lemma ownershipI:
  assumes "length (mp_shards (mw_publisher w)) = producer_shard_count"
    and "mw_registrations w < 2 ^ 64 \<Longrightarrow>
      mp_next_producer_shard (mw_publisher w) = word_of_nat (mw_registrations w)"
    and "\<And>t g i. mw_registrations w < 2 ^ 64 \<Longrightarrow> mw_registration w t = Some (g, i) \<Longrightarrow>
      g = mp_generation (mw_publisher w) \<and> i < producer_shard_count \<and> i < mw_registrations w"
    and "\<And>t u i. mw_registrations w < 2 ^ 64 \<Longrightarrow> owns w t i \<Longrightarrow> owns w u i \<Longrightarrow> t = u"
    and "\<And>t i. mw_registrations w < 2 ^ 64 \<Longrightarrow> sender_shard (mw_sender w t) = Some i \<Longrightarrow> owns w t i"
  shows "ownership w"
  using assms unfolding ownership_def by blast

lemma ownership_frame:
  assumes inv: "ownership w"
    and same: "mw_registration w' = mw_registration w" "mw_registrations w' = mw_registrations w"
      "mp_next_producer_shard (mw_publisher w') = mp_next_producer_shard (mw_publisher w)"
      "mp_generation (mw_publisher w') = mp_generation (mw_publisher w)"
      "length (mp_shards (mw_publisher w')) = length (mp_shards (mw_publisher w))"
    and sender: "\<And>t i. sender_shard (mw_sender w' t) = Some i \<Longrightarrow> sender_shard (mw_sender w t) = Some i"
  shows "ownership w'"
proof -
  have "owns w' = owns w" using same by (simp add: owns_def fun_eq_iff)
  then show ?thesis
    using inv sender unfolding ownership_def same by metis
qed

subsection \<open>What the steps leave alone\<close>

lemma publisher_step_frame [simp]:
  "mw_registration (publisher_step b w) = mw_registration w"
  "mw_sender (publisher_step b w) = mw_sender w"
  "mw_stopper (publisher_step b w) = mw_stopper w"
  "mw_registrations (publisher_step b w) = mw_registrations w"
  "mw_log (publisher_step b w) = mw_log w"
  "mw_accepted (publisher_step b w) = mw_accepted w"
  "mw_returned (publisher_step b w) = mw_returned w"
  "mp_generation (mw_publisher (publisher_step b w)) = mp_generation (mw_publisher w)"
  "mp_running (mw_publisher (publisher_step b w)) = mp_running (mw_publisher w)"
  "mp_next_producer_shard (mw_publisher (publisher_step b w)) = mp_next_producer_shard (mw_publisher w)"
  "mp_socket (mw_publisher (publisher_step b w)) = mp_socket (mw_publisher w)"
  "mp_destination (mw_publisher (publisher_step b w)) = mp_destination (mw_publisher w)"
  "length (mp_shards (mw_publisher (publisher_step b w))) = length (mp_shards (mw_publisher w))"
  by (cases "mw_pc w"; simp add: publisher_step.simps Let_def split_beta deliver_datagram_def)+

lemma stop_step_frame [simp]:
  "mw_registration (stop_step w) = mw_registration w"
  "mw_sender (stop_step w) = mw_sender w"
  "mw_registrations (stop_step w) = mw_registrations w"
  "mw_log (stop_step w) = mw_log w"
  "mw_accepted (stop_step w) = mw_accepted w"
  "mw_returned (stop_step w) = mw_returned w"
  "mw_network (stop_step w) = mw_network w"
  "mp_generation (mw_publisher (stop_step w)) = mp_generation (mw_publisher w)"
  "mp_next_producer_shard (mw_publisher (stop_step w)) = mp_next_producer_shard (mw_publisher w)"
  "mp_shards (mw_publisher (stop_step w)) = mp_shards (mw_publisher w)"
  by (cases "mw_stopper w"; simp add: stop_step_def)+

lemma send_call_frame [simp]:
  "mw_registration (send_call t d w) = mw_registration w"
  "mw_pc (send_call t d w) = mw_pc w"
  "mw_stopper (send_call t d w) = mw_stopper w"
  "mw_registrations (send_call t d w) = mw_registrations w"
  "mw_log (send_call t d w) = mw_log w"
  "mw_accepted (send_call t d w) = mw_accepted w"
  "mw_returned (send_call t d w) = mw_returned w"
  "mw_network (send_call t d w) = mw_network w"
  "mp_generation (mw_publisher (send_call t d w)) = mp_generation (mw_publisher w)"
  "mp_running (mw_publisher (send_call t d w)) = mp_running (mw_publisher w)"
  "mp_next_producer_shard (mw_publisher (send_call t d w)) = mp_next_producer_shard (mw_publisher w)"
  "mp_shards (mw_publisher (send_call t d w)) = mp_shards (mw_publisher w)"
  "mp_wake_requested (mw_publisher (send_call t d w)) = mp_wake_requested (mw_publisher w)"
  "mp_sent (mw_publisher (send_call t d w)) = mp_sent (mw_publisher w)"
  "mp_send_errors (mw_publisher (send_call t d w)) = mp_send_errors (mw_publisher w)"
  "mp_socket (mw_publisher (send_call t d w)) = mp_socket (mw_publisher w)"
  "mp_destination (mw_publisher (send_call t d w)) = mp_destination (mw_publisher w)"
  by (simp_all add: send_call_def)

lemma register_shard_frame [simp]:
  "mw_sender (snd (register_shard t g w)) = mw_sender w"
  "mw_pc (snd (register_shard t g w)) = mw_pc w"
  "mw_stopper (snd (register_shard t g w)) = mw_stopper w"
  "mw_log (snd (register_shard t g w)) = mw_log w"
  "mw_accepted (snd (register_shard t g w)) = mw_accepted w"
  "mw_returned (snd (register_shard t g w)) = mw_returned w"
  "mw_network (snd (register_shard t g w)) = mw_network w"
  "mp_generation (mw_publisher (snd (register_shard t g w))) = mp_generation (mw_publisher w)"
  "mp_running (mw_publisher (snd (register_shard t g w))) = mp_running (mw_publisher w)"
  "mp_shards (mw_publisher (snd (register_shard t g w))) = mp_shards (mw_publisher w)"
  "mp_wake_requested (mw_publisher (snd (register_shard t g w))) = mp_wake_requested (mw_publisher w)"
  "mp_sent (mw_publisher (snd (register_shard t g w))) = mp_sent (mw_publisher w)"
  "mp_send_errors (mw_publisher (snd (register_shard t g w))) = mp_send_errors (mw_publisher w)"
  "mp_socket (mw_publisher (snd (register_shard t g w))) = mp_socket (mw_publisher w)"
  "mp_destination (mw_publisher (snd (register_shard t g w))) = mp_destination (mw_publisher w)"
  "mw_registrations (snd (register_shard t g w)) = mw_registrations w + 1"
  "mp_next_producer_shard (mw_publisher (snd (register_shard t g w))) = mp_next_producer_shard (mw_publisher w) + 1"
  by (simp_all add: register_shard_def Let_def)

lemma register_shard_registration:
  "mw_registration (snd (register_shard t g w)) =
     (if unat (mp_next_producer_shard (mw_publisher w)) \<ge> producer_shard_count then mw_registration w
      else (mw_registration w)(t \<mapsto> (g, unat (mp_next_producer_shard (mw_publisher w)))))"
  "fst (register_shard t g w) = min producer_shard_count (unat (mp_next_producer_shard (mw_publisher w)))"
  by (simp_all add: register_shard_def Let_def)

lemma shard_for_thread_cases:
  obtains (known) i where "mw_registration w t = Some (mp_generation (mw_publisher w), i)" "i < producer_shard_count"
      "producer_shard_for_current_thread t w = (i, w)"
  | (new) "producer_shard_for_current_thread t w = register_shard t (mp_generation (mw_publisher w)) w"
      "\<forall>g i. mw_registration w t = Some (g, i) \<longrightarrow> \<not> (g = mp_generation (mw_publisher w) \<and> i < producer_shard_count)"
proof (cases "\<exists>i. mw_registration w t = Some (mp_generation (mw_publisher w), i) \<and> i < producer_shard_count")
  case True
  then show thesis using known by (auto simp: producer_shard_for_current_thread_def Let_def)
next
  case False
  then have "producer_shard_for_current_thread t w = register_shard t (mp_generation (mw_publisher w)) w"
    by (auto simp: producer_shard_for_current_thread_def Let_def split: option.split)
  then show thesis using new False by blast
qed

lemma push_datagram_frame [simp]:
  "mw_registration (snd (push_datagram t i d w)) = mw_registration w"
  "mw_sender (snd (push_datagram t i d w)) = mw_sender w"
  "mw_pc (snd (push_datagram t i d w)) = mw_pc w"
  "mw_stopper (snd (push_datagram t i d w)) = mw_stopper w"
  "mw_registrations (snd (push_datagram t i d w)) = mw_registrations w"
  "mw_returned (snd (push_datagram t i d w)) = mw_returned w"
  "mw_network (snd (push_datagram t i d w)) = mw_network w"
  "mp_generation (mw_publisher (snd (push_datagram t i d w))) = mp_generation (mw_publisher w)"
  "mp_running (mw_publisher (snd (push_datagram t i d w))) = mp_running (mw_publisher w)"
  "mp_next_producer_shard (mw_publisher (snd (push_datagram t i d w))) = mp_next_producer_shard (mw_publisher w)"
  "mp_wake_requested (mw_publisher (snd (push_datagram t i d w))) = mp_wake_requested (mw_publisher w)"
  "mp_sent (mw_publisher (snd (push_datagram t i d w))) = mp_sent (mw_publisher w)"
  "mp_send_errors (mw_publisher (snd (push_datagram t i d w))) = mp_send_errors (mw_publisher w)"
  "mp_socket (mw_publisher (snd (push_datagram t i d w))) = mp_socket (mw_publisher w)"
  "mp_destination (mw_publisher (snd (push_datagram t i d w))) = mp_destination (mw_publisher w)"
  "mp_shards (mw_publisher (snd (push_datagram t i d w))) =
     (mp_shards (mw_publisher w))[i := (shard_of w i)\<lparr>sh_queue := snd (ring_try_push d (queue_of w i))\<rparr>]"
  "mw_log (snd (push_datagram t i d w)) =
     (if fst (push_datagram t i d w) then (mw_log w)(i := mw_log w i @ [d]) else mw_log w)"
  "mw_accepted (snd (push_datagram t i d w)) =
     (if fst (push_datagram t i d w) then (mw_accepted w)(t := mw_accepted w t @ [d]) else mw_accepted w)"
  "fst (push_datagram t i d w) = fst (ring_try_push d (queue_of w i))"
  by (simp_all add: push_datagram_def Let_def split_beta)

subsection \<open>Ownership is invariant\<close>

lemma ownership_start: "ownership (mc_start g s)" if "0 \<le> s"
  using that by (simp add: ownership_def mc_start_def start_publisher_def new_publisher_def producer_shard_count_def owns_def)

lemma ownership_register:
  assumes inv: "ownership w" and t: "mw_sender w t = S_Register d"
    and new: "\<forall>g i. mw_registration w t = Some (g, i) \<longrightarrow> \<not> (g = mp_generation (mw_publisher w) \<and> i < producer_shard_count)"
  defines "r \<equiv> register_shard t (mp_generation (mw_publisher w)) w"
  shows "ownership (if fst r = producer_shard_count
           then at_sender t S_Idle (with_publisher count_administrative_drop (snd r))
           else at_sender t (S_Mark d (fst r)) (snd r))" (is "ownership ?w")
proof -
  let ?n = "mw_registrations w" and ?g = "mp_generation (mw_publisher w)"
  have regs: "mw_registrations ?w = ?n + 1" and gen: "mp_generation (mw_publisher ?w) = ?g" by (simp_all add: r_def)
  show ?thesis
  proof (cases "?n + 1 < 2 ^ 64")
    case True
    then have n: "?n < 2 ^ 64" by simp
    note inv' = ownershipD [OF inv n]
    have next_shard: "unat (mp_next_producer_shard (mw_publisher w)) = ?n"
      using n by (simp add: inv'(1) unat_of_nat take_bit_nat_eq_self)
    have reg: "mw_registration ?w =
        (if ?n < producer_shard_count then (mw_registration w)(t \<mapsto> (?g, ?n)) else mw_registration w)"
      by (simp add: r_def register_shard_registration next_shard not_less)
    have sender: "mw_sender ?w = (mw_sender w)(t := if ?n < producer_shard_count then S_Mark d ?n else S_Idle)"
      by (simp add: r_def register_shard_registration next_shard)
    have owns: "owns ?w u i \<longleftrightarrow> (if u = t \<and> ?n < producer_shard_count then i = ?n else owns w u i)" for u i
      unfolding owns_def reg gen by auto
    have fresh: "\<not> owns w u ?n" for u using inv'(2) [of u ?g ?n] by (auto simp: owns_def)
    show ?thesis
    proof (rule ownershipI)
      show "length (mp_shards (mw_publisher ?w)) = producer_shard_count" using ownership_length [OF inv] by (simp add: r_def)
      show "mp_next_producer_shard (mw_publisher ?w) = word_of_nat (mw_registrations ?w)"
        unfolding regs by (simp add: r_def inv'(1) add.commute)
    next
      fix u g i
      assume "mw_registration ?w u = Some (g, i)"
      then show "g = mp_generation (mw_publisher ?w) \<and> i < producer_shard_count \<and> i < mw_registrations ?w"
        unfolding gen regs reg using inv'(2) [of u g i] by (cases "u = t") (auto split: if_splits)
    next
      fix u v i
      assume "owns ?w u i" "owns ?w v i"
      then show "u = v" unfolding owns using inv'(3) fresh by (auto split: if_splits)
    next
      fix u i
      assume "sender_shard (mw_sender ?w u) = Some i"
      then show "owns ?w u i" unfolding owns sender using inv'(4) by (auto split: if_splits)
    qed
  next
    case False
    then show ?thesis
      by (intro ownershipI) (use ownership_length [OF inv] regs in \<open>simp_all add: r_def\<close>)
  qed
qed

lemma send_step_at:
  "mw_sender w t = S_Mark d i \<Longrightarrow> send_step t w =
     at_sender t (S_Recheck d i) (with_publisher (update_shard i (\<lambda>s. s\<lparr>sh_active_sender := True\<rparr>)) w)"
  "mw_sender w t = S_Recheck d i \<Longrightarrow> send_step t w =
     at_sender t (if mp_running (mw_publisher w) then S_Push d i else S_Withdraw d i) w"
  "mw_sender w t = S_Withdraw d i \<Longrightarrow> send_step t w =
     at_sender t S_Idle (with_publisher (count_administrative_drop \<circ>
       update_shard i (\<lambda>s. s\<lparr>sh_active_sender := False\<rparr>)) w)"
  "mw_sender w t = S_Push d i \<Longrightarrow> send_step t w =
     at_sender t (S_Unmark d i (fst (push_datagram t i d w))) (snd (push_datagram t i d w))"
  "mw_sender w t = S_Unmark d i queued \<Longrightarrow> send_step t w =
     at_sender t (S_Account d i queued) (with_publisher (update_shard i (\<lambda>s. s\<lparr>sh_active_sender := False\<rparr>)) w)"
  "mw_sender w t = S_Account d i True \<Longrightarrow> send_step t w =
     at_sender t (S_Depth d i) (with_publisher (update_shard i (\<lambda>s. s\<lparr>sh_enqueued := sh_enqueued s + 1\<rparr>)) w)"
  "mw_sender w t = S_Account d i False \<Longrightarrow> send_step t w =
     at_sender t S_Idle (with_publisher (update_shard i (\<lambda>s. s\<lparr>sh_dropped := sh_dropped s + 1\<rparr>)) w)"
  "mw_sender w t = S_Depth d i \<Longrightarrow> send_step t w =
     at_sender t (S_Test d i) (with_publisher (update_shard i
       (\<lambda>s. s\<lparr>sh_max_depth := max (sh_max_depth s) (ring_size_approx (sh_queue s))\<rparr>)) w)"
  "mw_sender w t = S_Test d i \<Longrightarrow> send_step t w =
     (if mp_wake_requested (mw_publisher w) then send_returns_true t d w else at_sender t (S_Set d i) w)"
  "mw_sender w t = S_Set d i \<Longrightarrow> send_step t w =
     (if mp_wake_requested (mw_publisher w)
      then send_returns_true t d (with_publisher (\<lambda>p. p\<lparr>mp_wake_requested := True\<rparr>) w)
      else at_sender t (S_Notify d i) (with_publisher (\<lambda>p. p\<lparr>mp_wake_requested := True\<rparr>) w))"
  "mw_sender w t = S_Notify d i \<Longrightarrow> send_step t w = send_returns_true t d (notify_publisher w)"
  by (simp_all add: send_step.simps Let_def split_beta)

text \<open>The cases of a step of a thread that is past its registration.\<close>

lemma sender_at_cases [consumes 2, case_names mark recheck withdraw push unmark queued dropped depth test set notify]:
  assumes "mw_sender w t \<noteq> S_Idle" "\<nexists>d. mw_sender w t = S_Register d"
  obtains (mark) d i where "mw_sender w t = S_Mark d i"
  | (recheck) d i where "mw_sender w t = S_Recheck d i"
  | (withdraw) d i where "mw_sender w t = S_Withdraw d i"
  | (push) d i where "mw_sender w t = S_Push d i"
  | (unmark) d i queued where "mw_sender w t = S_Unmark d i queued"
  | (queued) d i where "mw_sender w t = S_Account d i True"
  | (dropped) d i where "mw_sender w t = S_Account d i False"
  | (depth) d i where "mw_sender w t = S_Depth d i"
  | (test) d i where "mw_sender w t = S_Test d i"
  | (set) d i where "mw_sender w t = S_Set d i"
  | (notify) d i where "mw_sender w t = S_Notify d i"
  using assms by (cases "mw_sender w t") (metis (full_types))+

lemma send_step_frame:
  assumes "mw_sender w t \<noteq> S_Idle" "\<nexists>d. mw_sender w t = S_Register d"
  shows "mw_registration (send_step t w) = mw_registration w"
    and "mw_registrations (send_step t w) = mw_registrations w"
    and "mp_next_producer_shard (mw_publisher (send_step t w)) = mp_next_producer_shard (mw_publisher w)"
    and "mp_generation (mw_publisher (send_step t w)) = mp_generation (mw_publisher w)"
    and "length (mp_shards (mw_publisher (send_step t w))) = length (mp_shards (mw_publisher w))"
    and "u \<noteq> t \<Longrightarrow> mw_sender (send_step t w) u = mw_sender w u"
    and "sender_shard (mw_sender (send_step t w) t) = None \<or>
      sender_shard (mw_sender (send_step t w) t) = sender_shard (mw_sender w t)"
        apply (cases rule: sender_at_cases [OF assms]; simp add: send_step_at)
       apply (cases rule: sender_at_cases [OF assms]; simp add: send_step_at)
      apply (cases rule: sender_at_cases [OF assms]; simp add: send_step_at)
     apply (cases rule: sender_at_cases [OF assms]; simp add: send_step_at)
    apply (cases rule: sender_at_cases [OF assms]; simp add: send_step_at)
   apply (cases rule: sender_at_cases [OF assms]; simp add: send_step_at)
  apply (cases rule: sender_at_cases [OF assms]; simp add: send_step_at)
  done

lemma ownership_step:
  assumes "mc_step w w'" "ownership w"
  shows "ownership w'"
  using assms(1)
proof cases
  case (call t d)
  then show ?thesis
    using assms(2) by (intro ownership_frame [of w w']) (auto simp: send_call_def split: if_splits)
next
  case (send t)
  show ?thesis
  proof (cases "\<exists>d. mw_sender w t = S_Register d")
    case True
    then obtain d where t: "mw_sender w t = S_Register d" by blast
    show ?thesis
    proof (cases rule: shard_for_thread_cases [of w t])
      case (known i)
      then have step: "w' = at_sender t (S_Mark d i) w" using t send(1) by (simp add: send_step.simps)
      show ?thesis
      proof (rule ownershipI)
        note inv' = ownershipD [OF assms(2)]
        show "length (mp_shards (mw_publisher w')) = producer_shard_count"
          using ownership_length [OF assms(2)] step by simp
        assume n: "mw_registrations w' < 2 ^ 64"
        then have small: "mw_registrations w < 2 ^ 64" using step by simp
        have owns: "owns w' = owns w" using step by (simp add: owns_def fun_eq_iff)
        show "mp_next_producer_shard (mw_publisher w') = word_of_nat (mw_registrations w')"
          using inv'(1) [OF small] step by simp
        show "g = mp_generation (mw_publisher w') \<and> i < producer_shard_count \<and> i < mw_registrations w'"
          if "mw_registration w' u = Some (g, i)" for u g i
          using inv'(2) [OF small, of u g i] that step by simp
        show "u = v" if "owns w' u i" "owns w' v i" for u v i using inv'(3) [OF small] that owns by simp
        show "owns w' u j" if "sender_shard (mw_sender w' u) = Some j" for u j
          using inv'(4) [OF small, of u j] that known step owns by (cases "u = t") (auto simp: owns_def)
      qed
    next
      case new
      then show ?thesis
        using ownership_register [OF assms(2) t] t send(1) by (simp add: send_step.simps Let_def split_beta)
    qed
  next
    case False
    note frame = send_step_frame [OF send(2) False]
    have "sender_shard (mw_sender (send_step t w) u) = Some i \<Longrightarrow> sender_shard (mw_sender w u) = Some i" for u i
      using frame(6) [of u] frame(7) by (cases "u = t") auto
    then show ?thesis using frame unfolding send(1) by (intro ownership_frame [OF assms(2)]) simp_all
  qed
next
  case publish
  then show ?thesis by (intro ownership_frame [OF assms(2)]) simp_all
next
  case stop
  then show ?thesis by (intro ownership_frame [OF assms(2)]) simp_all
qed

end
