(* ===== verification/Multicast_Queues.thy ===== *)
theory Multicast_Queues
  imports Multicast_Invariants
begin

text \<open>
  What the rings of the publisher hold: every shard's ring is the part of its history that the publisher
  thread has not taken yet, in every reachable state.
\<close>

section \<open>The front of a ring\<close>

lemma ring_front_positions:
  assumes rep: "ring_rep k cr cw nr p r"
  shows "fst (ring_front r) = (if nr < length p then Some (p ! nr) else None)"
    and "\<exists>cw'. ring_rep k cr cw' nr p (snd (ring_front r)) \<and> (nr < length p \<longrightarrow> nr < cw')"
proof -
  note le = ring_rep_bounds [OF rep] and rep' = ring_rep_reload_write [OF rep]
  have same: "rg_read_position r = rg_cached_write_position r \<longleftrightarrow> nr = cw"
    "rg_read_position r = rg_cached_write_position (ring_reload_write r) \<longleftrightarrow> nr = length p"
    using ring_empty_iff [OF rep] ring_empty_iff [OF rep'] by simp_all
  consider "nr < cw" "nr < length p" | "nr = cw" "nr < length p" | "nr = length p" "nr = cw" using le by linarith
  then have "fst (ring_front r) = (if nr < length p then Some (p ! nr) else None) \<and>
    (\<exists>cw'. ring_rep k cr cw' nr p (snd (ring_front r)) \<and> (nr < length p \<longrightarrow> nr < cw'))"
  proof cases
    case 1
    then show ?thesis using rep same ring_rep_slot [OF rep] by (auto simp: ring_front_def Let_def)
  next
    case 2
    then show ?thesis using rep' same ring_rep_slot [OF rep'] by (auto simp: ring_front_def Let_def)
  next
    case 3
    then show ?thesis using rep' same by (auto simp: ring_front_def Let_def)
  qed
  then show "fst (ring_front r) = (if nr < length p then Some (p ! nr) else None)"
    "\<exists>cw'. ring_rep k cr cw' nr p (snd (ring_front r)) \<and> (nr < length p \<longrightarrow> nr < cw')" by blast+
qed

section \<open>The invariant\<close>

text \<open>
  The datagrams of a shard that the publisher thread has handed to \<^verbatim>\<open>sendto\<close>, in order; those that \<^verbatim>\<open>sendto\<close> did
  not transmit (counted in \<^verbatim>\<open>send_errors_\<close>) are among them.
\<close>

definition handed_over :: "mc_world \<Rightarrow> nat \<Rightarrow> datagram list" where
  "handed_over w i = map (\<lambda>x. fst (snd x)) (filter (\<lambda>x. fst x = i) (mw_network w))"

text \<open>A datagram that is being sent still occupies its slot.\<close>

definition freed :: "mc_world \<Rightarrow> nat \<Rightarrow> nat" where
  "freed w i = length (handed_over w i) - (if mw_pc w = C_Free i then 1 else 0)"

definition queue_ok :: "mc_world \<Rightarrow> nat \<Rightarrow> bool" where
  "queue_ok w i \<longleftrightarrow> (\<exists>cr cw. ring_rep 5 cr cw (freed w i) (mw_log w i) (queue_of w i) \<and>
       (mw_pc w = C_Free i \<longrightarrow> freed w i < cw \<and> handed_over w i \<noteq> []) \<and>
       (\<forall>d. mw_pc w = C_Deliver i d \<longrightarrow> freed w i < cw \<and> d = mw_log w i ! freed w i)) \<and>
     handed_over w i = take (length (handed_over w i)) (mw_log w i)"

lemma queue_okI:
  assumes "ring_rep 5 cr cw (freed w i) (mw_log w i) (queue_of w i)"
    and "mw_pc w = C_Free i \<Longrightarrow> freed w i < cw \<and> handed_over w i \<noteq> []"
    and "\<And>d. mw_pc w = C_Deliver i d \<Longrightarrow> freed w i < cw \<and> d = mw_log w i ! freed w i"
    and "handed_over w i = take (length (handed_over w i)) (mw_log w i)"
  shows "queue_ok w i"
  unfolding queue_ok_def using assms by blast

lemma queue_okE:
  assumes "queue_ok w i"
  obtains cr cw where "ring_rep 5 cr cw (freed w i) (mw_log w i) (queue_of w i)"
    and "mw_pc w = C_Free i \<longrightarrow> freed w i < cw \<and> handed_over w i \<noteq> []"
    and "\<forall>d. mw_pc w = C_Deliver i d \<longrightarrow> freed w i < cw \<and> d = mw_log w i ! freed w i"
    and "handed_over w i = take (length (handed_over w i)) (mw_log w i)"
  using assms unfolding queue_ok_def by blast

definition queues_ok :: "mc_world \<Rightarrow> bool" where
  "queues_ok w \<longleftrightarrow> length (mp_shards (mw_publisher w)) = producer_shard_count \<and>
     (\<forall>i<producer_shard_count. queue_ok w i) \<and>
     (\<forall>i d. mw_pc w = C_Deliver i d \<longrightarrow> i < producer_shard_count) \<and>
     (\<forall>i. mw_pc w = C_Free i \<longrightarrow> i < producer_shard_count)"

lemma queues_okD:
  assumes "queues_ok w"
  shows "length (mp_shards (mw_publisher w)) = producer_shard_count"
    and "i < producer_shard_count \<Longrightarrow> queue_ok w i"
    and "mw_pc w = C_Deliver i d \<Longrightarrow> i < producer_shard_count"
    and "mw_pc w = C_Free i \<Longrightarrow> i < producer_shard_count"
  using assms by (auto simp: queues_ok_def)

text \<open>A queue whose ring, history and reader do not change stays as it is.\<close>

lemma queue_ok_frame:
  assumes "queue_ok w i" "queue_of w' i = queue_of w i" "mw_log w' i = mw_log w i" "handed_over w' i = handed_over w i"
    and "mw_pc w' = C_Free i \<longleftrightarrow> mw_pc w = C_Free i" "\<And>d. mw_pc w' = C_Deliver i d \<longleftrightarrow> mw_pc w = C_Deliver i d"
  shows "queue_ok w' i"
proof -
  have "freed w' i = freed w i" using assms(4,5) by (simp add: freed_def)
  then show ?thesis using assms by (simp add: queue_ok_def)
qed

lemma queues_ok_frame:
  assumes inv: "queues_ok w"
    and same: "length (mp_shards (mw_publisher w')) = length (mp_shards (mw_publisher w))"
      "\<And>i. queue_of w' i = queue_of w i" "mw_log w' = mw_log w" "mw_network w' = mw_network w"
    and pc: "\<And>i. mw_pc w' = C_Free i \<longleftrightarrow> mw_pc w = C_Free i" "\<And>i d. mw_pc w' = C_Deliver i d \<longleftrightarrow> mw_pc w = C_Deliver i d"
  shows "queues_ok w'"
  unfolding queues_ok_def
proof (intro conjI allI impI)
  fix i
  assume i: "i < producer_shard_count"
  show "queue_ok w' i"
    using queues_okD(2) [OF inv i] by (rule queue_ok_frame) (simp_all add: same pc handed_over_def)
qed (use queues_okD [OF inv] same(1) pc in auto)

lemma update_keeps_queue:
  assumes "\<And>s. sh_queue (f s) = sh_queue s"
  shows "sh_queue ((xs[i := f (xs ! i)]) ! j) = sh_queue (xs ! j)"
  using assms by (cases "i < length xs") (auto simp: nth_list_update list_update_beyond not_less)

section \<open>The steps of a sender\<close>

lemma queues_ok_push:
  assumes inv: "queues_ok w" and i: "i < producer_shard_count"
  shows "queues_ok (at_sender t s (snd (push_datagram t i d w)))" (is "queues_ok ?w")
proof -
  note len = queues_okD(1) [OF inv]
  have queue: "queue_of ?w j = (if j = i then snd (ring_try_push d (queue_of w i)) else queue_of w j)" for j
    using i len by (simp add: nth_list_update)
  have same: "handed_over ?w = handed_over w" "freed ?w = freed w" by (simp_all add: handed_over_def freed_def fun_eq_iff)
  have "queue_ok ?w j" if j: "j < producer_shard_count" for j
  proof (cases "j = i")
    case False
    then show ?thesis
      using queues_okD(2) [OF inv j] queue [of j] by (intro queue_ok_frame [of w j ?w]) (simp_all add: same)
  next
    case True
    from queues_okD(2) [OF inv i] obtain cr cw
      where rep: "ring_rep 5 cr cw (freed w i) (mw_log w i) (queue_of w i)"
        and free: "mw_pc w = C_Free i \<longrightarrow> freed w i < cw \<and> handed_over w i \<noteq> []"
        and deliver: "\<forall>d. mw_pc w = C_Deliver i d \<longrightarrow> freed w i < cw \<and> d = mw_log w i ! freed w i"
        and prefix: "handed_over w i = take (length (handed_over w i)) (mw_log w i)"
      by (rule queue_okE)
    have log: "mw_log ?w i = (if length (mw_log w i) < freed w i + 2 ^ 5 then mw_log w i @ [d] else mw_log w i)"
      using ring_try_push_positions(1) [OF rep, of d] by simp
    obtain cr' where rep': "ring_rep 5 cr' cw (freed w i) (mw_log ?w i) (queue_of ?w i)"
      using ring_try_push_positions(2) [OF rep, of d] queue [of i] unfolding log by auto
    have pc: "mw_pc ?w = mw_pc w" by simp
    have cw: "cw \<le> length (mw_log w i)" using ring_rep_bounds [OF rep] by simp
    have "length (handed_over w i) \<le> length (mw_log w i)" using prefix by (metis length_take min.cobounded1)
    then have "handed_over ?w i = take (length (handed_over ?w i)) (mw_log ?w i)"
      using prefix unfolding same log by simp
    moreover have "e = mw_log ?w i ! freed w i" if "mw_pc w = C_Deliver i e" for e
      using deliver that cw unfolding log by (auto simp: nth_append)
    ultimately show ?thesis
      unfolding True using rep' free deliver by (intro queue_okI [of cr' cw]) (auto simp only: same pc)
  qed
  then show ?thesis using queues_okD [OF inv] by (auto simp: queues_ok_def)
qed
definition senders_in_range :: "mc_world \<Rightarrow> bool" where
  "senders_in_range w \<longleftrightarrow> (\<forall>t i. sender_shard (mw_sender w t) = Some i \<longrightarrow> i < producer_shard_count)"

text \<open>The registration step: either the thread is known, or it takes the next shard, or there is none left.\<close>

lemma send_step_register:
  assumes "mw_sender w t = S_Register d"
  obtains w1 s where "send_step t w = at_sender t s w1" "s = S_Idle \<or> (\<exists>i<producer_shard_count. s = S_Mark d i)"
    "mw_sender w1 = mw_sender w" "mw_pc w1 = mw_pc w" "mw_stopper w1 = mw_stopper w" "mw_log w1 = mw_log w"
    "mw_accepted w1 = mw_accepted w" "mw_returned w1 = mw_returned w" "mw_network w1 = mw_network w"
    "mp_shards (mw_publisher w1) = mp_shards (mw_publisher w)"
    "mp_running (mw_publisher w1) = mp_running (mw_publisher w)"
    "mp_wake_requested (mw_publisher w1) = mp_wake_requested (mw_publisher w)"
    "mp_sent (mw_publisher w1) = mp_sent (mw_publisher w)"
    "mp_send_errors (mw_publisher w1) = mp_send_errors (mw_publisher w)"
    "mp_socket (mw_publisher w1) = mp_socket (mw_publisher w)"
    "mp_destination (mw_publisher w1) = mp_destination (mw_publisher w)"
proof (cases rule: shard_for_thread_cases [of w t])
  case (known i)
  show thesis
    by (rule that [of "S_Mark d i" w]) (use known assms in \<open>auto simp: send_step.simps\<close>)
next
  case new
  let ?r = "register_shard t (mp_generation (mw_publisher w)) w"
  show thesis
  proof (cases "fst ?r = producer_shard_count")
    case True
    show thesis
      by (rule that [of S_Idle "with_publisher count_administrative_drop (snd ?r)"])
        (use True new assms in \<open>simp_all add: send_step.simps split_beta\<close>)
  next
    case False
    then have less: "fst ?r < producer_shard_count" by (simp add: register_shard_registration)
    show thesis
      by (rule that [of "S_Mark d (fst ?r)" "snd ?r"])
        (use False less new assms in \<open>simp_all add: send_step.simps split_beta\<close>)
  qed
qed

lemma senders_in_range_step:
  assumes "mc_step w w'" "senders_in_range w"
  shows "senders_in_range w'"
  using assms(1)
proof cases
  case (call t d)
  then show ?thesis using assms(2) by (auto simp: senders_in_range_def send_call_def)
next
  case (send t)
  show ?thesis
  proof (cases "\<exists>d. mw_sender w t = S_Register d")
    case True
    then obtain d where "mw_sender w t = S_Register d" by blast
    then show ?thesis
      by (rule send_step_register) (use send(1) assms(2) in \<open>auto simp: senders_in_range_def split: if_splits\<close>)
  next
    case False
    note frame = send_step_frame [OF send(2) False]
    show ?thesis unfolding senders_in_range_def
    proof (intro allI impI)
      fix u i
      assume "sender_shard (mw_sender w' u) = Some i"
      then have "sender_shard (mw_sender w u) = Some i"
        using frame(6) [of u] frame(7) send(1) by (cases "u = t") auto
      then show "i < producer_shard_count" using assms(2) by (simp add: senders_in_range_def)
    qed
  qed
qed (use assms(2) in \<open>simp_all add: senders_in_range_def\<close>)

lemma queues_ok_send:
  assumes inv: "queues_ok w" and range: "senders_in_range w" and t: "mw_sender w t \<noteq> S_Idle"
  shows "queues_ok (send_step t w)"
proof (cases "\<exists>d. mw_sender w t = S_Register d")
  case True
  then obtain d where "mw_sender w t = S_Register d" by blast
  then show ?thesis by (rule send_step_register) (use inv in \<open>auto intro!: queues_ok_frame [OF inv]\<close>)
next
  case False
  from t False show ?thesis
  proof (cases rule: sender_at_cases)
    case (push d i)
    then have "i < producer_shard_count" using range by (auto simp: senders_in_range_def dest: spec [of _ t])
    then show ?thesis using push queues_ok_push [OF inv] by (simp add: send_step_at)
  next
    case (notify d i)
    then show ?thesis
      by (intro queues_ok_frame [OF inv]) (cases "mw_pc w"; simp add: send_step_at)+
  qed (simp_all add: send_step_at queues_ok_frame [OF inv] update_keeps_queue)
qed

section \<open>The steps of the publisher thread\<close>

lemma handed_over_append:
  "handed_over (w\<lparr>mw_network := mw_network w @ [(i, d, ok)]\<rparr>) j = handed_over w j @ (if j = i then [d] else [])"
  by (simp add: handed_over_def)

lemma queues_ok_scan:
  assumes inv: "queues_ok w" and pc: "mw_pc w = C_Scan cursor offset" "offset < producer_shard_count"
  shows "queues_ok (publisher_step b w)"
proof -
  define i where "i = (cursor + offset) mod producer_shard_count"
  have i: "i < producer_shard_count" by (simp add: i_def producer_shard_count_def)
  note len = queues_okD(1) [OF inv]
  let ?w = "publisher_step b w" and ?f = "ring_front (queue_of w i)"
  have step: "?w = (with_publisher (update_shard i (\<lambda>s. s\<lparr>sh_queue := snd ?f\<rparr>)) w)
      \<lparr>mw_pc := case fst ?f of Some d \<Rightarrow> C_Deliver i d | None \<Rightarrow> C_Scan cursor (offset + 1)\<rparr>"
    using pc unfolding i_def by (simp add: publisher_step.simps Let_def split_beta)
  have queue: "queue_of ?w j = (if j = i then snd ?f else queue_of w j)" for j
    using i len by (simp add: step nth_list_update)
  have keep: "mw_log ?w = mw_log w" "handed_over ?w = handed_over w" "mw_pc ?w \<noteq> C_Free j" for j
    by (simp_all add: step handed_over_def fun_eq_iff split: option.split)
  have freed: "freed ?w = freed w" using keep(3) pc by (simp add: freed_def keep(2) fun_eq_iff)
  have "queue_ok ?w j" if j: "j < producer_shard_count" for j
  proof (cases "j = i")
    case False
    show ?thesis
      using queues_okD(2) [OF inv j] False queue [of j] pc keep
      by (intro queue_ok_frame [of w j ?w]) (auto simp: step split: option.split)
  next
    case True
    obtain cr cw where rep: "ring_rep 5 cr cw (freed w i) (mw_log w i) (queue_of w i)"
      and prefix: "handed_over w i = take (length (handed_over w i)) (mw_log w i)"
      using queues_okD(2) [OF inv i] by (rule queue_okE)
    obtain cw' where rep': "ring_rep 5 cr cw' (freed w i) (mw_log w i) (snd ?f)"
      and more: "freed w i < length (mw_log w i) \<longrightarrow> freed w i < cw'" using ring_front_positions(2) [OF rep] by blast
    have "freed w i < cw' \<and> d = mw_log w i ! freed w i" if "mw_pc ?w = C_Deliver i d" for d
      using that more ring_front_positions(1) [OF rep] by (auto simp: step split: option.splits if_splits)
    then show ?thesis
      unfolding True using rep' prefix queue [of i] keep(3) [of i]
      by (intro queue_okI [of cr cw']) (simp_all add: keep(1,2) freed)
  qed
  moreover have "j < producer_shard_count" if "mw_pc ?w = C_Deliver j d" for j d
    using that i by (auto simp: step split: option.splits)
  ultimately show ?thesis using len keep(3) by (auto simp: queues_ok_def)
qed

lemma queues_ok_deliver:
  assumes inv: "queues_ok w" and pc: "mw_pc w = C_Deliver i d"
  shows "queues_ok (publisher_step b w)"
proof -
  let ?w = "publisher_step b w"
  have i: "i < producer_shard_count" using queues_okD(3) [OF inv pc] .
  have pc': "mw_pc ?w = C_Free i" and queue: "queue_of ?w j = queue_of w j" and log: "mw_log ?w = mw_log w"
    and deliv: "handed_over ?w j = handed_over w j @ (if j = i then [d] else [])" for j
    using pc by (simp_all add: publisher_step.simps deliver_datagram_def Let_def handed_over_def)
  have "queue_ok ?w j" if j: "j < producer_shard_count" for j
  proof (cases "j = i")
    case False
    then show ?thesis
      using queues_okD(2) [OF inv j] pc pc' queue log deliv by (intro queue_ok_frame [of w j ?w]) auto
  next
    case True
    obtain cr cw where rep: "ring_rep 5 cr cw (freed w i) (mw_log w i) (queue_of w i)"
      and deliver: "\<forall>d. mw_pc w = C_Deliver i d \<longrightarrow> freed w i < cw \<and> d = mw_log w i ! freed w i"
      and prefix: "handed_over w i = take (length (handed_over w i)) (mw_log w i)"
      using queues_okD(2) [OF inv i] by (rule queue_okE)
    have n: "freed w i = length (handed_over w i)" "freed ?w i = length (handed_over w i)"
      using pc pc' deliv [of i] by (simp_all add: freed_def)
    have lt: "freed w i < cw" and d: "d = mw_log w i ! freed w i" using deliver pc by simp_all
    have "freed w i < length (mw_log w i)" using lt ring_rep_bounds [OF rep] by simp
    then have prefix': "handed_over ?w i = take (length (handed_over ?w i)) (mw_log ?w i)"
      using prefix d deliv [of i] n(1) log by (simp add: take_Suc_conv_app_nth)
    show ?thesis unfolding True
    proof (rule queue_okI [OF _ _ _ prefix'])
      show "ring_rep 5 cr cw (freed ?w i) (mw_log ?w i) (queue_of ?w i)" using rep n queue log by simp
    qed (use lt n pc' deliv [of i] in simp_all)
  qed
  then show ?thesis using pc' i queues_okD(1) [OF inv] by (auto simp: queues_ok_def)
qed

lemma queues_ok_free:
  assumes inv: "queues_ok w" and pc: "mw_pc w = C_Free i"
  shows "queues_ok (publisher_step b w)"
proof -
  let ?w = "publisher_step b w"
  have i: "i < producer_shard_count" using queues_okD(4) [OF inv pc] .
  have pc': "mw_pc ?w = C_Scan ((i + 1) mod producer_shard_count) 0" and log: "mw_log ?w = mw_log w"
    and deliv: "handed_over ?w = handed_over w"
    and queue: "queue_of ?w j =
      (if j = i then ring_release (rg_read_position (queue_of w i)) (queue_of w i) else queue_of w j)" for j
    using pc i queues_okD(1) [OF inv]
    by (simp_all add: publisher_step.simps handed_over_def fun_eq_iff nth_list_update)
  have "queue_ok ?w j" if j: "j < producer_shard_count" for j
  proof (cases "j = i")
    case False
    then show ?thesis
      using queues_okD(2) [OF inv j] pc pc' queue [of j] log deliv by (intro queue_ok_frame [of w j ?w]) auto
  next
    case True
    obtain cr cw where rep: "ring_rep 5 cr cw (freed w i) (mw_log w i) (queue_of w i)"
      and free: "mw_pc w = C_Free i \<longrightarrow> freed w i < cw \<and> handed_over w i \<noteq> []"
      and prefix: "handed_over w i = take (length (handed_over w i)) (mw_log w i)"
      using queues_okD(2) [OF inv i] by (rule queue_okE)
    have lt: "freed w i < cw" and n: "freed ?w i = Suc (freed w i)"
      using free pc pc' deliv by (auto simp: freed_def)
    show ?thesis
      unfolding True using ring_rep_release [OF rep lt] queue [of i] log n pc' prefix deliv
      by (intro queue_okI [of cr cw]) simp_all
  qed
  then show ?thesis using pc' queues_okD(1) [OF inv] by (auto simp: queues_ok_def)
qed

lemma queues_ok_publisher:
  assumes inv: "queues_ok w"
  shows "queues_ok (publisher_step b w)"
proof (cases "mw_pc w")
  case (C_Scan cursor offset)
  show ?thesis
  proof (cases "offset < producer_shard_count")
    case True
    show ?thesis by (rule queues_ok_scan [OF inv C_Scan True])
  next
    case False
    then show ?thesis using C_Scan by (intro queues_ok_frame [OF inv]) (simp_all add: publisher_step.simps)
  qed
next
  case (C_Deliver i d)
  show ?thesis by (rule queues_ok_deliver [OF inv C_Deliver])
next
  case (C_Free i)
  show ?thesis by (rule queues_ok_free [OF inv C_Free])
qed (intro queues_ok_frame [OF inv]; simp add: publisher_step.simps)+

lemma queues_ok_start: "queues_ok (mc_start g s)" if "0 \<le> s"
proof -
  have "ring_rep 5 0 0 0 [] (ring_reset (new_ring 32 ([] :: datagram)))"
    using ring_rep_reset [OF ring_rep_new [of 5 "[] :: datagram"]] by simp
  then show ?thesis
    using that by (auto simp: queues_ok_def queue_ok_def freed_def handed_over_def mc_start_def start_publisher_def
        new_publisher_def new_shard_def reset_shard_def producer_shard_count_def queue_capacity_per_producer_def)
qed

lemma queues_ok_step:
  assumes "mc_step w w'" "queues_ok w" "senders_in_range w"
  shows "queues_ok w'"
  using assms(1)
proof cases
  case (call t d)
  then show ?thesis by (intro queues_ok_frame [OF assms(2)]) simp_all
next
  case (send t)
  then show ?thesis using queues_ok_send [OF assms(2,3)] by simp
next
  case (publish b)
  then show ?thesis using queues_ok_publisher [OF assms(2)] by simp
next
  case stop
  then show ?thesis
    by (intro queues_ok_frame [OF assms(2)]) (cases "mw_stopper w"; cases "mw_pc w"; simp add: stop_step_def)+
qed


end
