(* ===== verification/Multicast_Histories.thy ===== *)
theory Multicast_Histories
  imports Multicast_Queues
begin

text \<open>
  The histories of the senders: what a thread had queued is what its shard took, what \<open>send\<close> reported is what
  it had queued, and the counters count it.
\<close>

section \<open>What threads had queued\<close>

text \<open>The datagram that a call of \<open>send\<close> has queued and not yet reported, and whether it is not yet counted.\<close>

fun pending :: "sender \<Rightarrow> datagram list" where
  "pending (S_Unmark d i queued) = (if queued then [d] else [])"
| "pending (S_Account d i queued) = (if queued then [d] else [])"
| "pending (S_Depth d i) = [d]"
| "pending (S_Test d i) = [d]"
| "pending (S_Set d i) = [d]"
| "pending (S_Notify d i) = [d]"
| "pending _ = []"

fun uncounted :: "sender \<Rightarrow> u64" where
  "uncounted (S_Unmark d i queued) = (if queued then 1 else 0)"
| "uncounted (S_Account d i queued) = (if queued then 1 else 0)"
| "uncounted _ = 0"

definition reports_ok :: "mc_world \<Rightarrow> bool" where
  "reports_ok w \<longleftrightarrow> (\<forall>t. mw_accepted w t = mw_returned w t @ pending (mw_sender w t))"

definition logs_ok :: "mc_world \<Rightarrow> bool" where
  "logs_ok w \<longleftrightarrow> (mw_registrations w < 2 ^ 64 \<longrightarrow>
     (\<forall>t i. owns w t i \<longrightarrow> mw_accepted w t = mw_log w i \<and>
        sh_enqueued (shard_of w i) + uncounted (mw_sender w t) = word_of_nat (length (mw_log w i))) \<and>
     (\<forall>t. (\<nexists>i. owns w t i) \<longrightarrow> mw_accepted w t = []) \<and>
     (\<forall>i<producer_shard_count. (\<nexists>t. owns w t i) \<longrightarrow> mw_log w i = [] \<and> sh_enqueued (shard_of w i) = 0))"

lemma reports_ok_step:
  assumes "mc_step w w'" "reports_ok w"
  shows "reports_ok w'"
  using assms(1)
proof cases
  case (call t d)
  then show ?thesis using assms(2) by (auto simp: reports_ok_def send_call_def)
next
  case (send t)
  have t: "mw_accepted w t = mw_returned w t @ pending (mw_sender w t)" using assms(2) by (simp add: reports_ok_def)
  show ?thesis
  proof (cases "\<exists>d. mw_sender w t = S_Register d")
    case True
    then obtain d where d: "mw_sender w t = S_Register d" by blast
    then show ?thesis
      by (rule send_step_register) (use send(1) assms(2) t d in \<open>auto simp: reports_ok_def\<close>)
  next
    case False
    have other: "mw_accepted w' u = mw_returned w' u @ pending (mw_sender w' u)" if "u \<noteq> t" for u
    proof -
      have "mw_accepted w' u = mw_accepted w u" "mw_returned w' u = mw_returned w u" "mw_sender w' u = mw_sender w u"
        using send(2) False that unfolding send(1) by (cases rule: sender_at_cases; simp add: send_step_at)+
      then show ?thesis using assms(2) by (simp add: reports_ok_def)
    qed
    have "mw_accepted w' t = mw_returned w' t @ pending (mw_sender w' t)"
      using send(2) False t unfolding send(1) by (cases rule: sender_at_cases) (simp_all add: send_step_at)
    then show ?thesis using other unfolding reports_ok_def by metis
  qed
qed (use assms(2) in \<open>simp_all add: reports_ok_def\<close>)

section \<open>What shards took\<close>

lemma logs_okD:
  assumes "logs_ok w" "mw_registrations w < 2 ^ 64"
  shows "owns w t i \<Longrightarrow> mw_accepted w t = mw_log w i"
    and "owns w t i \<Longrightarrow> sh_enqueued (shard_of w i) + uncounted (mw_sender w t) = word_of_nat (length (mw_log w i))"
    and "(\<And>i. \<not> owns w t i) \<Longrightarrow> mw_accepted w t = []"
    and "i < producer_shard_count \<Longrightarrow> (\<And>t. \<not> owns w t i) \<Longrightarrow> mw_log w i = [] \<and> sh_enqueued (shard_of w i) = 0"
  using assms unfolding logs_ok_def by blast+

lemma logs_okI:
  assumes "\<And>t i. mw_registrations w < 2 ^ 64 \<Longrightarrow> owns w t i \<Longrightarrow> mw_accepted w t = mw_log w i \<and>
      sh_enqueued (shard_of w i) + uncounted (mw_sender w t) = word_of_nat (length (mw_log w i))"
    and "\<And>t. mw_registrations w < 2 ^ 64 \<Longrightarrow> (\<And>i. \<not> owns w t i) \<Longrightarrow> mw_accepted w t = []"
    and "\<And>i. mw_registrations w < 2 ^ 64 \<Longrightarrow> i < producer_shard_count \<Longrightarrow> (\<And>t. \<not> owns w t i) \<Longrightarrow>
      mw_log w i = [] \<and> sh_enqueued (shard_of w i) = 0"
  shows "logs_ok w"
  using assms unfolding logs_ok_def by blast

lemma logs_ok_frame:
  assumes inv: "logs_ok w"
    and same: "mw_registrations w' = mw_registrations w" "owns w' = owns w" "mw_log w' = mw_log w"
      "mw_accepted w' = mw_accepted w" "\<And>i. sh_enqueued (shard_of w' i) = sh_enqueued (shard_of w i)"
      "\<And>t. uncounted (mw_sender w' t) = uncounted (mw_sender w t)"
  shows "logs_ok w'"
  using inv unfolding logs_ok_def same .

text \<open>A step of the owner of a shard that changes its history, its counter and its own location only.\<close>

lemma logs_ok_owner:
  assumes inv: "logs_ok w" and ownership: "ownership w" and t: "mw_registrations w < 2 ^ 64 \<Longrightarrow> owns w t i"
    and same: "mw_registrations w' = mw_registrations w" "owns w' = owns w"
      "\<And>j. j \<noteq> i \<Longrightarrow> mw_log w' j = mw_log w j" "\<And>u. u \<noteq> t \<Longrightarrow> mw_accepted w' u = mw_accepted w u"
      "\<And>j. j \<noteq> i \<Longrightarrow> sh_enqueued (shard_of w' j) = sh_enqueued (shard_of w j)"
      "\<And>u. u \<noteq> t \<Longrightarrow> uncounted (mw_sender w' u) = uncounted (mw_sender w u)"
    and changed: "mw_accepted w t = mw_log w i \<Longrightarrow>
      sh_enqueued (shard_of w i) + uncounted (mw_sender w t) = word_of_nat (length (mw_log w i)) \<Longrightarrow>
      mw_accepted w' t = mw_log w' i \<and>
      sh_enqueued (shard_of w' i) + uncounted (mw_sender w' t) = word_of_nat (length (mw_log w' i))"
  shows "logs_ok w'"
proof (rule logs_okI)
  assume "mw_registrations w' < 2 ^ 64"
  then have n: "mw_registrations w < 2 ^ 64" using same by simp
  note inv' = logs_okD [OF inv n] and own = ownershipD [OF ownership n]
  have only: "u = t \<longleftrightarrow> j = i" if "owns w u j" for u j
  proof
    assume "u = t"
    then show "j = i" using that t [OF n] by (simp add: owns_def)
  next
    assume "j = i"
    then show "u = t" using that t [OF n] own(3) by blast
  qed
  show "mw_accepted w' u = mw_log w' j \<and>
      sh_enqueued (shard_of w' j) + uncounted (mw_sender w' u) = word_of_nat (length (mw_log w' j))"
    if "owns w' u j" for u j
  proof (cases "u = t")
    case True
    then show ?thesis using changed inv'(1,2) [OF t [OF n]] only that same(2) by auto
  next
    case False
    then show ?thesis using inv'(1,2) [of u j] only that same by auto
  qed
  show "mw_accepted w' u = []" if "\<And>j. \<not> owns w' u j" for u
    using inv'(3) [of u] that t [OF n] same by metis
  show "mw_log w' j = [] \<and> sh_enqueued (shard_of w' j) = 0"
    if "j < producer_shard_count" "\<And>u. \<not> owns w' u j" for j
    using inv'(4) [of j] that t [OF n] same by metis
qed

lemma update_keeps_enqueued:
  assumes "\<And>s. sh_enqueued (f s) = sh_enqueued s"
  shows "sh_enqueued ((xs[i := f (xs ! i)]) ! j) = sh_enqueued (xs ! j)"
  using assms by (cases "i < length xs") (auto simp: nth_list_update list_update_beyond not_less)

lemma owns_frame:
  assumes "mw_registration w' = mw_registration w" "mp_generation (mw_publisher w') = mp_generation (mw_publisher w)"
  shows "owns w' = owns w"
  using assms by (simp add: owns_def fun_eq_iff)
lemma register_owns:
  fixes t :: nat
  assumes inv: "ownership w" and n: "mw_registrations w < 2 ^ 64"
  defines "r \<equiv> register_shard t (mp_generation (mw_publisher w)) w"
  shows "fst r = min producer_shard_count (mw_registrations w)"
    and "owns (snd r) u i \<longleftrightarrow>
      (if u = t \<and> mw_registrations w < producer_shard_count then i = mw_registrations w else owns w u i)"
    and "\<not> owns w u (mw_registrations w)"
proof -
  have next_shard: "unat (mp_next_producer_shard (mw_publisher w)) = mw_registrations w"
    using n by (simp add: ownershipD(1) [OF inv n] unat_of_nat take_bit_nat_eq_self)
  then show "fst r = min producer_shard_count (mw_registrations w)" by (simp add: r_def register_shard_registration)
  show "owns (snd r) u i \<longleftrightarrow>
      (if u = t \<and> mw_registrations w < producer_shard_count then i = mw_registrations w else owns w u i)"
    by (auto simp: r_def owns_def register_shard_registration next_shard)
  show "\<not> owns w u (mw_registrations w)"
    using ownershipD(2) [OF inv n, of u "mp_generation (mw_publisher w)" "mw_registrations w"] by (auto simp: owns_def)
qed

lemma logs_ok_register:
  assumes inv: "logs_ok w" and ownership: "ownership w" and t: "mw_sender w t = S_Register d"
    and new: "\<forall>g i. mw_registration w t = Some (g, i) \<longrightarrow> \<not> (g = mp_generation (mw_publisher w) \<and> i < producer_shard_count)"
    and w1: "w1 = snd (register_shard t (mp_generation (mw_publisher w)) w)"
    and w': "mw_registration w' = mw_registration w1" "mw_registrations w' = mw_registrations w1"
      "mp_generation (mw_publisher w') = mp_generation (mw_publisher w1)"
      "mp_shards (mw_publisher w') = mp_shards (mw_publisher w1)"
      "mw_log w' = mw_log w1" "mw_accepted w' = mw_accepted w1"
      "\<And>u. uncounted (mw_sender w' u) = uncounted (mw_sender w u)"
  shows "logs_ok w'"
proof (rule logs_okI)
  assume "mw_registrations w' < 2 ^ 64"
  then have n: "mw_registrations w < 2 ^ 64" using w'(2) w1 by simp
  let ?n = "mw_registrations w"
  note inv' = logs_okD [OF inv n] and reg = register_owns [OF ownership n, of t, folded w1]
  have owns: "owns w' u i \<longleftrightarrow> (if u = t \<and> ?n < producer_shard_count then i = ?n else owns w u i)" for u i
    using reg(2) owns_frame [OF w'(1,3)] by simp
  have unknown: "\<not> owns w t i" for i
    using new ownershipD(2) [OF ownership n, of t "mp_generation (mw_publisher w)" i] by (auto simp: owns_def)
  have same: "mw_log w' = mw_log w" "mw_accepted w' = mw_accepted w"
    "\<And>i. shard_of w' i = shard_of w i" using w' w1 by simp_all
  show "mw_accepted w' u = mw_log w' i \<and>
      sh_enqueued (shard_of w' i) + uncounted (mw_sender w' u) = word_of_nat (length (mw_log w' i))"
    if o: "owns w' u i" for u i
  proof (cases "u = t")
    case True
    then have i: "i = ?n" "?n < producer_shard_count" using o owns unknown by (auto split: if_splits)
    then have "mw_log w i = [] \<and> sh_enqueued (shard_of w i) = 0" using inv'(4) [of ?n] register_owns(3) [OF ownership n] by blast
    moreover have "mw_accepted w t = []" using inv'(3) unknown by blast
    ultimately show ?thesis using True t by (simp add: same w'(7))
  next
    case False
    then show ?thesis using o owns inv'(1,2) [of u i] by (simp add: same w'(7))
  qed
  show "mw_accepted w' u = []" if no: "\<And>i. \<not> owns w' u i" for u
  proof (cases "u = t")
    case True
    then show ?thesis using inv'(3) [of t] unknown by (simp add: same)
  next
    case False
    then have "\<And>i. \<not> owns w u i" using no owns by simp
    then show ?thesis using inv'(3) [of u] by (simp add: same)
  qed
  show "mw_log w' i = [] \<and> sh_enqueued (shard_of w' i) = 0"
    if i: "i < producer_shard_count" and no: "\<And>u. \<not> owns w' u i" for i
  proof -
    have "\<not> owns w u i" for u using no [of u] owns [of u i] unknown by (cases "u = t") auto
    then show ?thesis using inv'(4) [OF i] by (simp add: same)
  qed
qed

lemma send_step_owns:
  assumes "mw_sender w t \<noteq> S_Idle" "\<nexists>d. mw_sender w t = S_Register d"
  shows "owns (send_step t w) = owns w"
  using send_step_frame [OF assms] by (intro owns_frame) simp_all

lemma logs_ok_send:
  assumes inv: "logs_ok w" and own: "ownership w" and t: "mw_sender w t \<noteq> S_Idle"
  shows "logs_ok (send_step t w)"
proof (cases "\<exists>d. mw_sender w t = S_Register d")
  case True
  then obtain d where d: "mw_sender w t = S_Register d" by blast
  show ?thesis
  proof (cases rule: shard_for_thread_cases [of w t])
    case (known i)
    then show ?thesis
      using d by (intro logs_ok_frame [OF inv]) (auto simp: send_step.simps owns_def fun_eq_iff)
  next
    case new
    then show ?thesis
      using d by (intro logs_ok_register [OF inv own d new(2) refl]) (auto simp: send_step.simps Let_def split_beta)
  qed
next
  case False
  note frame = send_step_frame [OF t False] and len = ownership_length [OF own]
  have owner: "owns w t i" "i < producer_shard_count"
    if "mw_registrations w < 2 ^ 64" "sender_shard (mw_sender w t) = Some i" for i
    using ownershipD(4) [OF own that] ownershipD(2) [OF own that(1), of t] by (auto simp: owns_def)
  show ?thesis
    using t False
  proof (cases rule: sender_at_cases)
    case (push d i)
    show ?thesis
    proof (cases "mw_registrations w < 2 ^ 64")
      case True
      with owner push have i: "owns w t i" "i < producer_shard_count" by simp_all
      show ?thesis
        by (rule logs_ok_owner [OF inv own i(1)])
          (use push i len send_step_owns [OF t False] in \<open>simp_all add: send_step_at nth_list_update\<close>)
    next
      case False
      then show ?thesis using frame(2) by (simp add: logs_ok_def)
    qed
  next
    case (queued d i)
    show ?thesis
    proof (cases "mw_registrations w < 2 ^ 64")
      case True
      with owner queued have i: "owns w t i" "i < producer_shard_count" by simp_all
      show ?thesis
        by (rule logs_ok_owner [OF inv own i(1)])
          (use queued i len send_step_owns [OF t False] in \<open>simp_all add: send_step_at nth_list_update add.commute\<close>)
    next
      case False
      then show ?thesis using frame(2) by (simp add: logs_ok_def)
    qed
  qed (rule logs_ok_frame [OF inv frame(2) send_step_owns [OF t False]]; simp add: send_step_at update_keeps_enqueued)+
qed

lemma logs_ok_step:
  assumes "mc_step w w'" "logs_ok w" "ownership w"
  shows "logs_ok w'"
  using assms(1)
proof cases
  case (call t d)
  then show ?thesis by (intro logs_ok_frame [OF assms(2)] owns_frame) (auto simp: send_call_def)
next
  case (send t)
  then show ?thesis using logs_ok_send [OF assms(2,3)] by simp
next
  case (publish b)
  then show ?thesis
    by (intro logs_ok_frame [OF assms(2)] owns_frame)
      (cases "mw_pc w"; simp add: publisher_step.simps Let_def split_beta deliver_datagram_def update_keeps_enqueued)+
next
  case stop
  then show ?thesis by (intro logs_ok_frame [OF assms(2)] owns_frame) simp_all
qed

lemma histories_start: "logs_ok (mc_start g s) \<and> reports_ok (mc_start g s)" if "0 \<le> s"
  using that by (auto simp: logs_ok_def reports_ok_def owns_def mc_start_def start_publisher_def new_publisher_def
      new_shard_def reset_shard_def)

section \<open>What was sent\<close>

definition network_ok :: "mc_world \<Rightarrow> bool" where
  "network_ok w \<longleftrightarrow> mp_sent (mw_publisher w) = word_of_nat (length (filter (\<lambda>x. snd (snd x)) (mw_network w))) \<and>
     mp_send_errors (mw_publisher w) = word_of_nat (length (filter (\<lambda>x. \<not> snd (snd x)) (mw_network w))) \<and>
     (\<forall>x\<in>set (mw_network w). fst x < producer_shard_count)"

lemma network_ok_frame:
  assumes "network_ok w" "mw_network w' = mw_network w" "mp_sent (mw_publisher w') = mp_sent (mw_publisher w)"
    "mp_send_errors (mw_publisher w') = mp_send_errors (mw_publisher w)"
  shows "network_ok w'"
  using assms by (simp add: network_ok_def)

lemma network_ok_step:
  assumes "mc_step w w'" "network_ok w" "queues_ok w"
  shows "network_ok w'"
  using assms(1)
proof cases
  case (call t d)
  then show ?thesis by (intro network_ok_frame [OF assms(2)]) simp_all
next
  case (send t)
  show ?thesis
  proof (cases "\<exists>d. mw_sender w t = S_Register d")
    case True
    then obtain d where "mw_sender w t = S_Register d" by blast
    then show ?thesis
      by (rule send_step_register) (use send(1) in \<open>auto intro!: network_ok_frame [OF assms(2)]\<close>)
  next
    case False
    from send(2) False show ?thesis unfolding send(1)
      by (cases rule: sender_at_cases; intro network_ok_frame [OF assms(2)]; simp add: send_step_at)
  qed
next
  case (publish b)
  show ?thesis
  proof (cases "\<exists>i d. mw_pc w = C_Deliver i d")
    case True
    then obtain i d where "mw_pc w = C_Deliver i d" by blast
    then show ?thesis
      using assms(2) queues_okD(3) [OF assms(3)] unfolding publish
      by (auto simp: network_ok_def publisher_step.simps deliver_datagram_def Let_def)
  next
    case False
    then show ?thesis unfolding publish
      by (intro network_ok_frame [OF assms(2)]) (cases "mw_pc w"; simp add: publisher_step.simps Let_def split_beta)+
  qed
next
  case stop
  then show ?thesis
    by (intro network_ok_frame [OF assms(2)]) (cases "mw_stopper w"; simp add: stop_step_def)+
qed


end
