(* ===== verification/Multicast_Wakeup.thy ===== *)
theory Multicast_Wakeup
  imports Multicast_Histories
begin

text \<open>
  Sleeping and stopping: why the publisher thread never sleeps through work, and what it leaves behind when it
  ends.
\<close>

section \<open>Phases of a stop\<close>

fun leaving :: "publisher_pc \<Rightarrow> bool" where
  "leaving (C_Empty cursor i) = True"
| "leaving (C_Active cursor i) = True"
| "leaving C_Done = True"
| "leaving _ = False"

definition phases_ok :: "mc_world \<Rightarrow> bool" where
  "phases_ok w \<longleftrightarrow> (mp_running (mw_publisher w) \<longleftrightarrow> mw_stopper w = K_Running) \<and>
     (leaving (mw_pc w) \<longrightarrow> \<not> mp_running (mw_publisher w))"

lemma leaving_notify [simp]: "leaving (case pc of C_Blocked c \<Rightarrow> C_Wait c | _ \<Rightarrow> pc) = leaving pc"
  by (cases pc) simp_all

lemma send_step_running:
  assumes "mw_sender w t \<noteq> S_Idle"
  shows "mp_running (mw_publisher (send_step t w)) = mp_running (mw_publisher w) \<and>
    mw_stopper (send_step t w) = mw_stopper w \<and> leaving (mw_pc (send_step t w)) = leaving (mw_pc w)"
proof (cases "\<exists>d. mw_sender w t = S_Register d")
  case True
  then obtain d where "mw_sender w t = S_Register d" by blast
  then show ?thesis by (rule send_step_register) simp
next
  case False
  with assms show ?thesis by (cases rule: sender_at_cases) (simp_all add: send_step_at)
qed

lemma phases_ok_step:
  assumes "mc_step w w'" "phases_ok w"
  shows "phases_ok w'"
  using assms(1)
proof cases
  case (call t d)
  then show ?thesis using assms(2) by (auto simp: phases_ok_def)
next
  case (send t)
  then show ?thesis using assms(2) send_step_running [OF send(2)] by (auto simp: phases_ok_def)
next
  case (publish b)
  then show ?thesis
    using assms(2)
    by (cases "mw_pc w") (auto simp: phases_ok_def publisher_step.simps deliver_datagram_def Let_def split_beta
        split: option.split)
next
  case stop
  then show ?thesis
    using assms(2) by (cases "mw_stopper w") (auto simp: phases_ok_def stop_step_def)
qed

section \<open>Emptiness of the queues\<close>

lemma queue_empty_at_iff:
  assumes "queue_ok w i"
  shows "queue_empty_at i w \<longleftrightarrow> freed w i = length (mw_log w i)"
proof -
  obtain cr cw where "ring_rep 5 cr cw (freed w i) (mw_log w i) (queue_of w i)" using assms by (rule queue_okE)
  from ring_empty_approx_rep [OF this] show ?thesis by (simp add: queue_empty_at_def)
qed

lemma push_keeps_emptiness:
  "\<not> fst (ring_try_push d r) \<Longrightarrow> ring_empty_approx (snd (ring_try_push d r)) = ring_empty_approx r"
  by (auto simp: ring_try_push_def Let_def ring_empty_approx_def ring_size_approx_def ring_capacity_def split: if_splits)

text \<open>Only a push that succeeds makes a queue non-empty, and its thread then goes on to signal.\<close>

fun signalling :: "sender \<Rightarrow> nat \<Rightarrow> bool" where
  "signalling (S_Unmark d i queued) j = (queued \<and> j = i)"
| "signalling (S_Account d i queued) j = (queued \<and> j = i)"
| "signalling (S_Depth d i) j = (j = i)"
| "signalling (S_Test d i) j = (j = i)"
| "signalling (S_Set d i) j = (j = i)"
| "signalling _ j = False"

lemma send_step_emptiness:
  assumes t: "mw_sender w t \<noteq> S_Idle" and ne: "\<not> queue_empty_at i (send_step t w)"
    and len: "length (mp_shards (mw_publisher w)) = producer_shard_count"
  shows "\<not> queue_empty_at i w \<or> signalling (mw_sender (send_step t w) t) i"
proof (cases "\<exists>d. mw_sender w t = S_Register d")
  case True
  then obtain d where "mw_sender w t = S_Register d" by blast
  then show ?thesis by (rule send_step_register) (use ne in \<open>simp add: queue_empty_at_def\<close>)
next
  case False
  with t show ?thesis
  proof (cases rule: sender_at_cases)
    case (push d j)
    show ?thesis
    proof (cases "i = j \<and> j < producer_shard_count")
      case True
      then show ?thesis
        using push ne len push_keeps_emptiness [of d "queue_of w j"]
        by (auto simp: send_step_at queue_empty_at_def nth_list_update)
    next
      case False
      then show ?thesis
        using push ne len
        by (auto simp: send_step_at queue_empty_at_def nth_list_update list_update_beyond not_less split: if_splits)
    qed
  qed (use ne in \<open>simp_all add: send_step_at queue_empty_at_def update_keeps_queue split: if_splits\<close>)
qed

section \<open>Sleeping\<close>

text \<open>The shards whose queues the publisher has found empty since it cleared the flag.\<close>

fun rescanned :: "publisher_pc \<Rightarrow> nat" where
  "rescanned (C_Rescan cursor i) = i"
| "rescanned (C_Rerunning cursor) = producer_shard_count"
| "rescanned (C_Wait cursor) = producer_shard_count"
| "rescanned (C_Blocked cursor) = producer_shard_count"
| "rescanned _ = 0"

fun sleeping :: "publisher_pc \<Rightarrow> bool" where
  "sleeping (C_Wait cursor) = True"
| "sleeping (C_Blocked cursor) = True"
| "sleeping _ = False"

fun blocked :: "publisher_pc \<Rightarrow> bool" where
  "blocked (C_Blocked cursor) = True"
| "blocked _ = False"

fun notifying :: "sender \<Rightarrow> bool" where
  "notifying (S_Notify d i) = True"
| "notifying _ = False"

definition awake_ok :: "mc_world \<Rightarrow> bool" where
  "awake_ok w \<longleftrightarrow>
     (\<not> mp_wake_requested (mw_publisher w) \<longrightarrow> (\<forall>i<rescanned (mw_pc w). i < producer_shard_count \<longrightarrow>
        \<not> queue_empty_at i w \<longrightarrow> (\<exists>t. signalling (mw_sender w t) i))) \<and>
     (blocked (mw_pc w) \<and> mp_wake_requested (mw_publisher w) \<longrightarrow>
        (\<exists>t. notifying (mw_sender w t)) \<or> mw_stopper w = K_Notify) \<and>
     (sleeping (mw_pc w) \<longrightarrow> mp_running (mw_publisher w) \<or> mw_stopper w = K_Set \<or> mp_wake_requested (mw_publisher w))"

lemma awake_okD:
  assumes "awake_ok w"
  shows "\<not> mp_wake_requested (mw_publisher w) \<Longrightarrow> i < rescanned (mw_pc w) \<Longrightarrow> i < producer_shard_count \<Longrightarrow>
      \<not> queue_empty_at i w \<Longrightarrow> \<exists>t. signalling (mw_sender w t) i"
    and "blocked (mw_pc w) \<Longrightarrow> mp_wake_requested (mw_publisher w) \<Longrightarrow>
      (\<exists>t. notifying (mw_sender w t)) \<or> mw_stopper w = K_Notify"
    and "sleeping (mw_pc w) \<Longrightarrow>
      mp_running (mw_publisher w) \<or> mw_stopper w = K_Set \<or> mp_wake_requested (mw_publisher w)"
  using assms unfolding awake_ok_def by blast+

lemma awake_okI:
  assumes "\<And>i. \<not> mp_wake_requested (mw_publisher w) \<Longrightarrow> i < rescanned (mw_pc w) \<Longrightarrow> i < producer_shard_count \<Longrightarrow>
      \<not> queue_empty_at i w \<Longrightarrow> \<exists>t. signalling (mw_sender w t) i"
    and "blocked (mw_pc w) \<Longrightarrow> mp_wake_requested (mw_publisher w) \<Longrightarrow>
      (\<exists>t. notifying (mw_sender w t)) \<or> mw_stopper w = K_Notify"
    and "sleeping (mw_pc w) \<Longrightarrow>
      mp_running (mw_publisher w) \<or> mw_stopper w = K_Set \<or> mp_wake_requested (mw_publisher w)"
  shows "awake_ok w"
  using assms unfolding awake_ok_def by blast

lemma notified_pc [simp]:
  "rescanned (case pc of C_Blocked c \<Rightarrow> C_Wait c | _ \<Rightarrow> pc) = rescanned pc"
  "sleeping (case pc of C_Blocked c \<Rightarrow> C_Wait c | _ \<Rightarrow> pc) = sleeping pc"
  "\<not> blocked (case pc of C_Blocked c \<Rightarrow> C_Wait c | _ \<Rightarrow> pc)"
  by (cases pc; simp)+

text \<open>What a step of a sender does to the flag and to the publisher's location.\<close>

lemma send_step_wake:
  assumes "mw_sender w t \<noteq> S_Idle"
  shows "mp_wake_requested (mw_publisher w) \<Longrightarrow> mp_wake_requested (mw_publisher (send_step t w))"
    and "rescanned (mw_pc (send_step t w)) = rescanned (mw_pc w)"
    and "sleeping (mw_pc (send_step t w)) = sleeping (mw_pc w)"
    and "blocked (mw_pc (send_step t w)) \<Longrightarrow> blocked (mw_pc w) \<and> \<not> notifying (mw_sender w t)"
    and "mp_wake_requested (mw_publisher (send_step t w)) \<Longrightarrow> \<not> mp_wake_requested (mw_publisher w) \<Longrightarrow>
      notifying (mw_sender (send_step t w) t)"
    and "signalling (mw_sender w t) i \<Longrightarrow> \<not> mp_wake_requested (mw_publisher (send_step t w)) \<Longrightarrow>
      signalling (mw_sender (send_step t w) t) i"
    and "u \<noteq> t \<Longrightarrow> mw_sender (send_step t w) u = mw_sender w u"
proof -
  let ?w = "send_step t w"
  have "(mp_wake_requested (mw_publisher w) \<longrightarrow> mp_wake_requested (mw_publisher ?w)) \<and>
    rescanned (mw_pc ?w) = rescanned (mw_pc w) \<and> sleeping (mw_pc ?w) = sleeping (mw_pc w) \<and>
    (blocked (mw_pc ?w) \<longrightarrow> blocked (mw_pc w) \<and> \<not> notifying (mw_sender w t)) \<and>
    (mp_wake_requested (mw_publisher ?w) \<longrightarrow> \<not> mp_wake_requested (mw_publisher w) \<longrightarrow> notifying (mw_sender ?w t)) \<and>
    (signalling (mw_sender w t) i \<longrightarrow> \<not> mp_wake_requested (mw_publisher ?w) \<longrightarrow> signalling (mw_sender ?w t) i) \<and>
    (u \<noteq> t \<longrightarrow> mw_sender ?w u = mw_sender w u)"
  proof (cases "\<exists>d. mw_sender w t = S_Register d")
    case True
    then obtain d where d: "mw_sender w t = S_Register d" by blast
    then show ?thesis by (rule send_step_register) (use d in auto)
  next
    case False
    with assms show ?thesis by (cases rule: sender_at_cases) (simp_all add: send_step_at)
  qed
  then show "mp_wake_requested (mw_publisher w) \<Longrightarrow> mp_wake_requested (mw_publisher ?w)"
    "rescanned (mw_pc ?w) = rescanned (mw_pc w)" "sleeping (mw_pc ?w) = sleeping (mw_pc w)"
    "blocked (mw_pc ?w) \<Longrightarrow> blocked (mw_pc w) \<and> \<not> notifying (mw_sender w t)"
    "mp_wake_requested (mw_publisher ?w) \<Longrightarrow> \<not> mp_wake_requested (mw_publisher w) \<Longrightarrow> notifying (mw_sender ?w t)"
    "signalling (mw_sender w t) i \<Longrightarrow> \<not> mp_wake_requested (mw_publisher ?w) \<Longrightarrow> signalling (mw_sender ?w t) i"
    "u \<noteq> t \<Longrightarrow> mw_sender ?w u = mw_sender w u" by blast+
qed

lemma awake_ok_send:
  assumes inv: "awake_ok w" and t: "mw_sender w t \<noteq> S_Idle"
    and len: "length (mp_shards (mw_publisher w)) = producer_shard_count"
  shows "awake_ok (send_step t w)"
proof (rule awake_okI)
  let ?w = "send_step t w"
  note wake = send_step_wake [OF t] and running = send_step_running [OF t]
  show "\<exists>u. signalling (mw_sender ?w u) i"
    if quiet: "\<not> mp_wake_requested (mw_publisher ?w)" and i: "i < rescanned (mw_pc ?w)" "i < producer_shard_count"
      and ne: "\<not> queue_empty_at i ?w" for i
  proof (cases "queue_empty_at i w")
    case True
    then show ?thesis using send_step_emptiness [OF t ne len] by blast
  next
    case False
    then obtain u where u: "signalling (mw_sender w u) i"
      using awake_okD(1) [OF inv _ _ i(2)] quiet i(1) wake(1,2) by auto
    show ?thesis
    proof (cases "u = t")
      case True
      then show ?thesis using wake(6) [of i] u quiet by blast
    next
      case False
      then show ?thesis using wake(7) [of u] u by (intro exI [of _ u]) simp
    qed
  qed
  show "(\<exists>u. notifying (mw_sender ?w u)) \<or> mw_stopper ?w = K_Notify"
    if b: "blocked (mw_pc ?w)" and flag: "mp_wake_requested (mw_publisher ?w)"
  proof (cases "mp_wake_requested (mw_publisher w)")
    case True
    then have "(\<exists>u. notifying (mw_sender w u)) \<or> mw_stopper w = K_Notify" using awake_okD(2) [OF inv] wake(4) b by blast
    then show ?thesis using wake(4) [OF b] wake(7) running by metis
  next
    case False
    then show ?thesis using wake(5) flag by blast
  qed
  show "mp_running (mw_publisher ?w) \<or> mw_stopper ?w = K_Set \<or> mp_wake_requested (mw_publisher ?w)"
    if "sleeping (mw_pc ?w)"
    using awake_okD(3) [OF inv] that wake(1,3) running by metis
qed
lemma queue_empty_at_frame:
  assumes "\<And>i. queue_of w' i = queue_of w i"
  shows "queue_empty_at i w' = queue_empty_at i w"
  using assms by (simp add: queue_empty_at_def)

lemma awake_ok_publisher:
  assumes inv: "awake_ok w"
  shows "awake_ok (publisher_step b w)"
proof (cases "mw_pc w")
  case (C_Rescan cursor i)
  show ?thesis
  proof (rule awake_okI)
    fix j
    assume "\<not> mp_wake_requested (mw_publisher (publisher_step b w))" "j < rescanned (mw_pc (publisher_step b w))"
      "j < producer_shard_count" "\<not> queue_empty_at j (publisher_step b w)"
    then show "\<exists>t. signalling (mw_sender (publisher_step b w) t) j"
      using C_Rescan awake_okD(1) [OF inv, of j]
      by (auto simp: publisher_step.simps queue_empty_at_def less_Suc_eq split: if_splits)
  qed (use C_Rescan in \<open>auto simp: publisher_step.simps split: if_splits\<close>)
next
  case (C_Rerunning cursor)
  then show ?thesis
    using inv by (auto simp: awake_ok_def publisher_step.simps queue_empty_at_def)
next
  case (C_Wait cursor)
  then show ?thesis
    using inv by (auto simp: awake_ok_def publisher_step.simps queue_empty_at_def)
next
  case (C_Blocked cursor)
  then show ?thesis using inv by (simp add: publisher_step.simps)
qed (auto simp: awake_ok_def publisher_step.simps Let_def split_beta split: option.splits)

lemma awake_ok_stop:
  assumes inv: "awake_ok w"
  shows "awake_ok (stop_step w)"
proof (cases "mw_stopper w")
  case K_Running
  then show ?thesis
    using inv by (auto simp: awake_ok_def stop_step_def queue_empty_at_def)
next
  case K_Set
  then show ?thesis by (auto simp: awake_ok_def stop_step_def)
next
  case K_Notify
  then show ?thesis
    using inv by (auto simp: awake_ok_def stop_step_def queue_empty_at_def)
next
  case K_Join
  then show ?thesis
    using inv by (auto simp: awake_ok_def stop_step_def queue_empty_at_def)
next
  case K_Stopped
  then show ?thesis using inv by (simp add: stop_step_def)
qed

lemma awake_ok_call:
  assumes inv: "awake_ok w" and t: "mw_sender w t = S_Idle"
  shows "awake_ok (send_call t d w)"
proof -
  have "signalling (mw_sender (send_call t d w) u) i = signalling (mw_sender w u) i"
    "notifying (mw_sender (send_call t d w) u) = notifying (mw_sender w u)" for u i
    using t by (simp_all add: send_call_def)
  then show ?thesis using inv by (simp add: awake_ok_def queue_empty_at_def)
qed

lemma awake_ok_step:
  assumes "mc_step w w'" "awake_ok w" "queues_ok w"
  shows "awake_ok w'"
  using assms(1)
  by cases (simp_all add: assms(2) awake_ok_call awake_ok_send awake_ok_publisher awake_ok_stop queues_okD(1) [OF assms(3)])

section \<open>Every reachable state\<close>

definition mc_inv :: "mc_world \<Rightarrow> bool" where
  "mc_inv w \<longleftrightarrow> ownership w \<and> senders_in_range w \<and> queues_ok w \<and> reports_ok w \<and> logs_ok w \<and> network_ok w \<and>
     phases_ok w \<and> awake_ok w"

lemma mc_inv_start:
  assumes "0 \<le> s"
  shows "mc_inv (mc_start g s)"
proof -
  have "senders_in_range (mc_start g s)" "network_ok (mc_start g s)" "phases_ok (mc_start g s)" "awake_ok (mc_start g s)"
    using assms by (simp_all add: senders_in_range_def network_ok_def phases_ok_def awake_ok_def mc_start_def
        start_publisher_def new_publisher_def)
  then show ?thesis
    using assms by (simp add: mc_inv_def ownership_start queues_ok_start histories_start)
qed

lemma mc_inv_step:
  assumes "mc_step w w'" "mc_inv w"
  shows "mc_inv w'"
  using assms ownership_step [OF assms(1)] senders_in_range_step [OF assms(1)] queues_ok_step [OF assms(1)]
    reports_ok_step [OF assms(1)] logs_ok_step [OF assms(1)] network_ok_step [OF assms(1)]
    phases_ok_step [OF assms(1)] awake_ok_step [OF assms(1)]
  unfolding mc_inv_def by blast

lemma mc_inv_steps: "mc_step\<^sup>*\<^sup>* w w' \<Longrightarrow> mc_inv w \<Longrightarrow> mc_inv w'"
  by (induction rule: rtranclp_induct) (auto intro: mc_inv_step)

lemma mc_reachable_inv: "mc_reachable w \<Longrightarrow> mc_inv w"
  by (auto simp: mc_reachable_def intro: mc_inv_steps mc_inv_start)

lemma mc_invD:
  assumes "mc_inv w"
  shows "ownership w" "senders_in_range w" "queues_ok w" "reports_ok w" "logs_ok w" "network_ok w" "phases_ok w" "awake_ok w"
  using assms by (simp_all add: mc_inv_def)

section \<open>A quiet stop\<close>

text \<open>No thread is inside \<open>send\<close> when the stop begins: what the publisher thread has found empty stays empty.\<close>

fun found_empty :: "publisher_pc \<Rightarrow> nat" where
  "found_empty (C_Empty cursor i) = i"
| "found_empty (C_Active cursor i) = producer_shard_count"
| "found_empty C_Done = producer_shard_count"
| "found_empty _ = 0"

definition quiet_stop :: "mc_world \<Rightarrow> bool" where
  "quiet_stop w \<longleftrightarrow> \<not> mp_running (mw_publisher w) \<and> (\<forall>t. mw_sender w t = S_Idle) \<and>
     (\<forall>i<producer_shard_count. i < found_empty (mw_pc w) \<longrightarrow> queue_empty_at i w)"

lemma quiet_stop_step:
  assumes "mc_step w w'" "quiet_stop w" "mw_stopper w \<noteq> K_Running"
  shows "quiet_stop w' \<and> mw_stopper w' \<noteq> K_Running"
  using assms(1)
proof cases
  case (call t d)
  then show ?thesis using assms(2,3) by (simp add: quiet_stop_def send_call_def queue_empty_at_def)
next
  case (send t)
  then show ?thesis using assms(2) by (simp add: quiet_stop_def)
next
  case (publish b)
  then show ?thesis
    using assms(2,3)
    by (cases "mw_pc w") (auto simp: quiet_stop_def publisher_step.simps deliver_datagram_def queue_empty_at_def less_Suc_eq
        Let_def split_beta split: option.splits)
next
  case stop
  have "found_empty (case pc of C_Blocked c \<Rightarrow> C_Wait c | _ \<Rightarrow> pc) = found_empty pc" for pc by (cases pc) simp_all
  then show ?thesis
    using stop assms(2,3) by (cases "mw_stopper w") (auto simp: quiet_stop_def stop_step_def queue_empty_at_def)
qed

lemma quiet_stop_steps:
  assumes "mc_step\<^sup>*\<^sup>* w w'" "quiet_stop w" "mw_stopper w \<noteq> K_Running"
  shows "quiet_stop w' \<and> mw_stopper w' \<noteq> K_Running"
  using assms by (induction rule: rtranclp_induct) (auto dest: quiet_stop_step)


end
