(* ===== verification/Multicast_Runs.thy ===== *)
theory Multicast_Runs
  imports Multicast_Wakeup
begin

text \<open>Concrete runs of the publisher: sweeps of the publisher thread over empty queues, and complete calls of \<open>send\<close>.\<close>

section \<open>Sweeps\<close>

lemma run_step: "mc_step w w' \<Longrightarrow> mc_step\<^sup>*\<^sup>* w' w'' \<Longrightarrow> mc_step\<^sup>*\<^sup>* w w''"
  by (rule converse_rtranclp_into_rtranclp)

lemma same_queue [simp]: "with_publisher (update_shard i (\<lambda>s. s\<lparr>sh_queue := queue_of w i\<rparr>)) w = w"
  by (simp add: with_publisher_def update_shard_def)

lemma scan_sweep:
  assumes "\<forall>i<producer_shard_count. ring_front (queue_of w i) = (None, queue_of w i)" "k \<le> producer_shard_count"
  shows "mc_step\<^sup>*\<^sup>* (w\<lparr>mw_pc := C_Scan c k\<rparr>) (w\<lparr>mw_pc := C_Running c\<rparr>)"
  using assms(2)
proof (induction "producer_shard_count - k" arbitrary: k)
  case 0
  then have "publisher_step True (w\<lparr>mw_pc := C_Scan c k\<rparr>) = w\<lparr>mw_pc := C_Running c\<rparr>" by (simp add: publisher_step.simps)
  then show ?case using mc_step.publish by (metis r_into_rtranclp)
next
  case (Suc n)
  then have k: "k < producer_shard_count" by simp
  have "(c + k) mod producer_shard_count < producer_shard_count" by (simp add: producer_shard_count_def)
  then have "publisher_step True (w\<lparr>mw_pc := C_Scan c k\<rparr>) = w\<lparr>mw_pc := C_Scan c (Suc k)\<rparr>"
    using assms(1) k same_queue [of "(c + k) mod producer_shard_count" "w\<lparr>mw_pc := C_Scan c k\<rparr>"]
    by (simp add: publisher_step.simps Let_def)
  then have "mc_step (w\<lparr>mw_pc := C_Scan c k\<rparr>) (w\<lparr>mw_pc := C_Scan c (Suc k)\<rparr>)" using mc_step.publish by metis
  moreover have "mc_step\<^sup>*\<^sup>* (w\<lparr>mw_pc := C_Scan c (Suc k)\<rparr>) (w\<lparr>mw_pc := C_Running c\<rparr>)"
    using Suc k by (intro Suc.hyps(1)) simp_all
  ultimately show ?case by (rule run_step)
qed

lemma counting_sweep:
  assumes step: "\<And>k. k < producer_shard_count \<Longrightarrow> publisher_step True (w\<lparr>mw_pc := at k\<rparr>) = w\<lparr>mw_pc := at (Suc k)\<rparr>"
    and last: "publisher_step True (w\<lparr>mw_pc := at producer_shard_count\<rparr>) = w\<lparr>mw_pc := after\<rparr>"
    and k: "k \<le> producer_shard_count"
  shows "mc_step\<^sup>*\<^sup>* (w\<lparr>mw_pc := at k\<rparr>) (w\<lparr>mw_pc := after\<rparr>)"
  using k
proof (induction "producer_shard_count - k" arbitrary: k)
  case 0
  then have "k = producer_shard_count" by simp
  then show ?case using last mc_step.publish by (metis r_into_rtranclp)
next
  case (Suc n)
  then have "k < producer_shard_count" by simp
  then have "mc_step (w\<lparr>mw_pc := at k\<rparr>) (w\<lparr>mw_pc := at (Suc k)\<rparr>)" using step mc_step.publish by metis
  moreover have "mc_step\<^sup>*\<^sup>* (w\<lparr>mw_pc := at (Suc k)\<rparr>) (w\<lparr>mw_pc := after\<rparr>)" using Suc by (intro Suc.hyps(1)) simp_all
  ultimately show ?case by (rule run_step)
qed

lemma empty_sweep:
  assumes "\<forall>i<producer_shard_count. queue_empty_at i w"
  shows "mc_step\<^sup>*\<^sup>* (w\<lparr>mw_pc := C_Empty c 0\<rparr>) (w\<lparr>mw_pc := C_Active c 0\<rparr>)"
    and "mc_step\<^sup>*\<^sup>* (w\<lparr>mw_pc := C_Rescan c 0\<rparr>) (w\<lparr>mw_pc := C_Rerunning c\<rparr>)"
  using assms by (intro counting_sweep; simp add: publisher_step.simps queue_empty_at_def)+

lemma active_sweep:
  assumes "\<forall>i<producer_shard_count. \<not> sh_active_sender (shard_of w i)"
  shows "mc_step\<^sup>*\<^sup>* (w\<lparr>mw_pc := C_Active c 0\<rparr>) (w\<lparr>mw_pc := C_Done\<rparr>)"
  using assms by (intro counting_sweep; simp add: publisher_step.simps)

section \<open>The start\<close>

definition example_start :: mc_world where
  "example_start = mc_start 1 3"

lemma example_start_simps [simp]:
  "mw_sender example_start = (\<lambda>_. S_Idle)" "mw_registration example_start = (\<lambda>_. None)"
  "mw_pc example_start = C_Scan 0 0" "mw_stopper example_start = K_Running" "mw_registrations example_start = 0"
  "mw_log example_start = (\<lambda>_. [])" "mw_accepted example_start = (\<lambda>_. [])" "mw_returned example_start = (\<lambda>_. [])"
  "mw_network example_start = []" "mp_running (mw_publisher example_start)"
  "mp_generation (mw_publisher example_start) = 1" "mp_next_producer_shard (mw_publisher example_start) = 0"
  "\<not> mp_wake_requested (mw_publisher example_start)" "mp_socket (mw_publisher example_start) = 3"
  "mp_destination (mw_publisher example_start)"
  "mp_shards (mw_publisher example_start) = replicate producer_shard_count (reset_shard new_shard)"
  by (simp_all add: example_start_def mc_start_def start_publisher_def new_publisher_def)

lemma example_reachable: "mc_step\<^sup>*\<^sup>* example_start w \<Longrightarrow> mc_reachable w"
  unfolding mc_reachable_def example_start_def by (intro exI [of _ 1] exI [of _ 3]) simp

lemma fresh_queue:
  "sh_queue (reset_shard new_shard) = new_ring 32 []" "\<not> sh_active_sender (reset_shard new_shard)"
  by (simp_all add: reset_shard_def new_shard_def ring_reset_def new_ring_def queue_capacity_per_producer_def)

lemma fresh_ring:
  "ring_front (new_ring n x) = (None, new_ring n x)" "ring_empty_approx (new_ring n x)"
  by (simp_all add: ring_front_def new_ring_def ring_reload_write_def ring_empty_approx_def ring_size_approx_def Let_def)

lemma reload_fresh: "ring_try_push x (new_ring 32 y) =
  (True, ring_publish 0 (ring_fill 0 x (new_ring 32 y)))"
  by (simp add: ring_try_push_def ring_full_def new_ring_def ring_capacity_def Let_def)

section \<open>A call of send up to its push\<close>

definition registered :: "datagram \<Rightarrow> mc_world" where
  "registered d = send_step 0 (send_call 0 d example_start)"

definition before_push :: "datagram \<Rightarrow> mc_world" where
  "before_push d = send_step 0 (send_step 0 (registered d))"

lemma registered_view:
  assumes "d \<noteq> []" "length d \<le> maximum_datagram_size"
  shows "mc_step\<^sup>*\<^sup>* example_start (registered d)"
    and "mw_sender (registered d) = (\<lambda>_. S_Idle)(0 := S_Mark d 0)"
    and "mw_registration (registered d) = [0 \<mapsto> (1, 0)]" "mw_registrations (registered d) = 1"
    and "mw_pc (registered d) = C_Scan 0 0" "mw_stopper (registered d) = K_Running"
    and "mw_network (registered d) = []" "mw_log (registered d) = (\<lambda>_. [])"
    and "mw_accepted (registered d) = (\<lambda>_. [])" "mw_returned (registered d) = (\<lambda>_. [])"
    and "mp_running (mw_publisher (registered d))" "\<not> mp_wake_requested (mw_publisher (registered d))"
    and "mp_generation (mw_publisher (registered d)) = 1"
    and "mp_socket (mw_publisher (registered d)) = 3" "mp_destination (mw_publisher (registered d))"
    and "mp_shards (mw_publisher (registered d)) = replicate producer_shard_count (reset_shard new_shard)"
proof -
  let ?c = "send_call 0 d example_start"
  have call: "?c = at_sender 0 (S_Register d) example_start" using assms by (simp add: send_call_def)
  have "mc_step example_start ?c" by (rule mc_step.call) simp
  moreover have "mc_step ?c (registered d)"
    unfolding registered_def by (rule mc_step.send) (simp add: call)
  ultimately show "mc_step\<^sup>*\<^sup>* example_start (registered d)" by (meson run_step rtranclp.rtrancl_refl)
  have reg: "fst (register_shard 0 1 ?c) = 0" by (simp add: register_shard_registration call)
  have step: "registered d = at_sender 0 (S_Mark d 0) (snd (register_shard 0 1 ?c))"
    unfolding registered_def
    by (subst send_step.simps) (simp add: call producer_shard_for_current_thread_def reg [unfolded call]
        producer_shard_count_def split_beta)
  show "mw_sender (registered d) = (\<lambda>_. S_Idle)(0 := S_Mark d 0)"
    "mw_registration (registered d) = [0 \<mapsto> (1, 0)]" "mw_registrations (registered d) = 1"
    "mw_pc (registered d) = C_Scan 0 0" "mw_stopper (registered d) = K_Running"
    "mw_network (registered d) = []" "mw_log (registered d) = (\<lambda>_. [])"
    "mw_accepted (registered d) = (\<lambda>_. [])" "mw_returned (registered d) = (\<lambda>_. [])"
    "mp_running (mw_publisher (registered d))" "\<not> mp_wake_requested (mw_publisher (registered d))"
    "mp_generation (mw_publisher (registered d)) = 1"
    "mp_socket (mw_publisher (registered d)) = 3" "mp_destination (mw_publisher (registered d))"
    "mp_shards (mw_publisher (registered d)) = replicate producer_shard_count (reset_shard new_shard)"
    unfolding step by (simp_all add: call register_shard_registration producer_shard_count_def)
qed

lemma before_push_view:
  assumes "d \<noteq> []" "length d \<le> maximum_datagram_size"
  shows "mc_step\<^sup>*\<^sup>* example_start (before_push d)"
    and "mw_sender (before_push d) = (\<lambda>_. S_Idle)(0 := S_Push d 0)"
    and "mw_registration (before_push d) = [0 \<mapsto> (1, 0)]" "mw_registrations (before_push d) = 1"
    and "mw_pc (before_push d) = C_Scan 0 0" "mw_stopper (before_push d) = K_Running"
    and "mw_network (before_push d) = []" "mw_log (before_push d) = (\<lambda>_. [])"
    and "mw_accepted (before_push d) = (\<lambda>_. [])" "mw_returned (before_push d) = (\<lambda>_. [])"
    and "mp_running (mw_publisher (before_push d))" "\<not> mp_wake_requested (mw_publisher (before_push d))"
    and "mp_generation (mw_publisher (before_push d)) = 1"
    and "mp_socket (mw_publisher (before_push d)) = 3" "mp_destination (mw_publisher (before_push d))"
    and "mp_shards (mw_publisher (before_push d)) =
      (replicate producer_shard_count (reset_shard new_shard))[0 := (reset_shard new_shard)\<lparr>sh_active_sender := True\<rparr>]"
proof -
  note r = registered_view [OF assms]
  have mark: "send_step 0 (registered d) = at_sender 0 (S_Recheck d 0)
      (with_publisher (update_shard 0 (\<lambda>s. s\<lparr>sh_active_sender := True\<rparr>)) (registered d))"
    by (rule send_step_at) (simp add: r)
  have push: "before_push d = at_sender 0 (S_Push d 0) (send_step 0 (registered d))"
    unfolding before_push_def by (subst send_step_at(2) [of _ 0 d 0]) (simp_all add: mark r)
  have "mc_step (registered d) (send_step 0 (registered d))" by (rule mc_step.send) (simp add: r)
  moreover have "mc_step (send_step 0 (registered d)) (before_push d)"
    unfolding before_push_def by (rule mc_step.send) (simp add: mark)
  ultimately show "mc_step\<^sup>*\<^sup>* example_start (before_push d)" using r(1) by (meson rtranclp.rtrancl_into_rtrancl)
  show "mw_sender (before_push d) = (\<lambda>_. S_Idle)(0 := S_Push d 0)"
    "mw_registration (before_push d) = [0 \<mapsto> (1, 0)]" "mw_registrations (before_push d) = 1"
    "mw_pc (before_push d) = C_Scan 0 0" "mw_stopper (before_push d) = K_Running"
    "mw_network (before_push d) = []" "mw_log (before_push d) = (\<lambda>_. [])"
    "mw_accepted (before_push d) = (\<lambda>_. [])" "mw_returned (before_push d) = (\<lambda>_. [])"
    "mp_running (mw_publisher (before_push d))" "\<not> mp_wake_requested (mw_publisher (before_push d))"
    "mp_generation (mw_publisher (before_push d)) = 1"
    "mp_socket (mw_publisher (before_push d)) = 3" "mp_destination (mw_publisher (before_push d))"
    "mp_shards (mw_publisher (before_push d)) =
      (replicate producer_shard_count (reset_shard new_shard))[0 := (reset_shard new_shard)\<lparr>sh_active_sender := True\<rparr>]"
    unfolding push mark by (simp_all add: r producer_shard_count_def)
qed
text \<open>The rest of a call whose push succeeds while the publisher thread does not sleep.\<close>

lemma finish_send:
  assumes at: "mw_sender w 0 = S_Push d 0" and queue: "queue_of w 0 = new_ring 32 []"
    and len: "length (mp_shards (mw_publisher w)) = producer_shard_count"
    and flag: "\<not> mp_wake_requested (mw_publisher w)" and pc: "\<not> blocked (mw_pc w)"
  obtains w' where "mc_step\<^sup>*\<^sup>* w w'" "mw_sender w' = (mw_sender w)(0 := S_Idle)" "mw_pc w' = mw_pc w"
    "mw_stopper w' = mw_stopper w" "mw_registration w' = mw_registration w" "mw_registrations w' = mw_registrations w"
    "mw_network w' = mw_network w" "mw_log w' = (mw_log w)(0 := mw_log w 0 @ [d])"
    "mw_accepted w' = (mw_accepted w)(0 := mw_accepted w 0 @ [d])"
    "mw_returned w' = (mw_returned w)(0 := mw_returned w 0 @ [d])"
    "mp_running (mw_publisher w') = mp_running (mw_publisher w)"
    "mp_generation (mw_publisher w') = mp_generation (mw_publisher w)"
    "mp_socket (mw_publisher w') = mp_socket (mw_publisher w)"
    "mp_destination (mw_publisher w') = mp_destination (mw_publisher w)"
    "\<forall>i. queue_of w' i = (if i = 0 then snd (ring_try_push d (new_ring 32 [])) else queue_of w i)"
    "\<forall>i. sh_active_sender (shard_of w' i) = (i \<noteq> 0 \<and> sh_active_sender (shard_of w i))"
    "mp_wake_requested (mw_publisher w')"
proof -
  define w1 where "w1 = at_sender 0 (S_Unmark d 0 True) (snd (push_datagram 0 0 d w))"
  define w2 where "w2 = at_sender 0 (S_Account d 0 True)
    (with_publisher (update_shard 0 (\<lambda>s. s\<lparr>sh_active_sender := False\<rparr>)) w1)"
  define w3 where "w3 = at_sender 0 (S_Depth d 0) (with_publisher (update_shard 0 (\<lambda>s. s\<lparr>sh_enqueued := sh_enqueued s + 1\<rparr>)) w2)"
  define w4 where "w4 = at_sender 0 (S_Test d 0) (with_publisher (update_shard 0
       (\<lambda>s. s\<lparr>sh_max_depth := max (sh_max_depth s) (ring_size_approx (sh_queue s))\<rparr>)) w3)"
  define w5 where "w5 = at_sender 0 (S_Set d 0) w4"
  define w6 where "w6 = at_sender 0 (S_Notify d 0) (with_publisher (\<lambda>p. p\<lparr>mp_wake_requested := True\<rparr>) w5)"
  define w7 where "w7 = send_returns_true 0 d (notify_publisher w6)"
  have pushed: "fst (push_datagram 0 0 d w)" by (simp add: queue reload_fresh)
  have zero: "0 < producer_shard_count" by (simp add: producer_shard_count_def)
  have steps: "w1 = send_step 0 w" "w2 = send_step 0 w1" "w3 = send_step 0 w2" "w4 = send_step 0 w3"
    "w5 = send_step 0 w4" "w6 = send_step 0 w5" "w7 = send_step 0 w6"
  proof -
    show "w1 = send_step 0 w" using pushed by (simp add: w1_def send_step_at(4) [OF at])
    show "w2 = send_step 0 w1" unfolding w2_def by (rule send_step_at(5) [symmetric]) (simp add: w1_def)
    show "w3 = send_step 0 w2" unfolding w3_def by (rule send_step_at(6) [symmetric]) (simp add: w2_def)
    show "w4 = send_step 0 w3" unfolding w4_def by (rule send_step_at(8) [symmetric]) (simp add: w3_def)
    have "\<not> mp_wake_requested (mw_publisher w4)" using flag by (simp add: w4_def w3_def w2_def w1_def)
    then show "w5 = send_step 0 w4"
      unfolding w5_def by (subst send_step_at(9) [of _ 0 d 0]) (simp_all add: w4_def)
    have "\<not> mp_wake_requested (mw_publisher w5)" using flag by (simp add: w5_def w4_def w3_def w2_def w1_def)
    then show "w6 = send_step 0 w5"
      unfolding w6_def by (subst send_step_at(10) [of _ 0 d 0]) (simp_all add: w5_def)
    show "w7 = send_step 0 w6" unfolding w7_def by (rule send_step_at(11) [symmetric]) (simp add: w6_def)
  qed
  have "mc_step w w1" unfolding steps(1) by (rule mc_step.send) (simp add: at)
  moreover have "mc_step w1 w2" unfolding steps(2) by (rule mc_step.send) (simp add: w1_def)
  moreover have "mc_step w2 w3" unfolding steps(3) by (rule mc_step.send) (simp add: w2_def)
  moreover have "mc_step w3 w4" unfolding steps(4) by (rule mc_step.send) (simp add: w3_def)
  moreover have "mc_step w4 w5" unfolding steps(5) by (rule mc_step.send) (simp add: w4_def)
  moreover have "mc_step w5 w6" unfolding steps(6) by (rule mc_step.send) (simp add: w5_def)
  moreover have "mc_step w6 w7" unfolding steps(7) by (rule mc_step.send) (simp add: w6_def)
  ultimately have run: "mc_step\<^sup>*\<^sup>* w w7" by (meson run_step rtranclp.rtrancl_refl)
  note defs = w7_def w6_def w5_def w4_def w3_def w2_def w1_def
  have pc7: "mw_pc w7 = mw_pc w" using pc by (cases "mw_pc w") (simp_all add: defs)
  show thesis
    by (rule that [OF run _ pc7])
      (use pushed queue zero len in \<open>simp_all add: defs nth_list_update\<close>)
qed
section \<open>A stop during a call\<close>

lemma pc_same: "mw_pc w = c \<Longrightarrow> w\<lparr>mw_pc := c\<rparr> = w"
  by (cases w) simp

lemma stop_to_end:
  assumes "mw_stopper w = K_Set" "mw_pc w = C_Done"
  shows "\<exists>w'. mc_step\<^sup>*\<^sup>* w w' \<and> mw_stopper w' = K_Stopped \<and> mw_pc w' = C_Done \<and> mw_sender w' = mw_sender w \<and>
    mw_registration w' = mw_registration w \<and> mw_registrations w' = mw_registrations w \<and>
    mw_network w' = mw_network w \<and> mw_accepted w' = mw_accepted w \<and> mw_returned w' = mw_returned w \<and>
    mp_generation (mw_publisher w') = mp_generation (mw_publisher w)"
proof -
  have "mc_step w (stop_step w)" "mc_step (stop_step w) (stop_step (stop_step w))"
    "mc_step (stop_step (stop_step w)) (stop_step (stop_step (stop_step w)))" by (rule mc_step.stop)+
  then have "mc_step\<^sup>*\<^sup>* w (stop_step (stop_step (stop_step w)))" by (meson run_step rtranclp.rtrancl_refl)
  then show ?thesis
    using assms by (intro exI [of _ "stop_step (stop_step (stop_step w))"] conjI) (simp_all add: stop_step_def)
qed

lemma lossy_stop_run:
  assumes "d \<noteq> []" "length d \<le> maximum_datagram_size"
  shows "\<exists>w. mc_reachable w \<and> mw_stopper w = K_Stopped \<and> mw_pc w = C_Done \<and> (\<forall>t. mw_sender w t = S_Idle) \<and>
    mw_accepted w 0 = [d] \<and> mw_returned w 0 = [d] \<and> mw_network w = [] \<and> mw_registrations w = 1 \<and> owns w 0 0"
proof -
  define a where "a = before_push d"
  note view = before_push_view [OF assms, folded a_def]
  have len: "length (mp_shards (mw_publisher a)) = producer_shard_count" by (simp add: view producer_shard_count_def)
  have queues: "queue_of a i = new_ring 32 []" if "i < producer_shard_count" for i
    using that by (simp add: view nth_list_update fresh_queue)
  define c where "c = (with_publisher (\<lambda>p. p\<lparr>mp_running := False\<rparr>) a)\<lparr>mw_stopper := K_Set\<rparr>"
  define e where "e = c\<lparr>mw_pc := C_Active 0 0\<rparr>"
  have "mc_step\<^sup>*\<^sup>* (a\<lparr>mw_pc := C_Scan 0 0\<rparr>) (a\<lparr>mw_pc := C_Running 0\<rparr>)"
    by (rule scan_sweep) (simp_all add: queues fresh_ring)
  then have "mc_step\<^sup>*\<^sup>* a (a\<lparr>mw_pc := C_Running 0\<rparr>)" using pc_same [OF view(5)] by simp
  moreover have "mc_step (a\<lparr>mw_pc := C_Running 0\<rparr>) (c\<lparr>mw_pc := C_Running 0\<rparr>)"
  proof -
    have "stop_step (a\<lparr>mw_pc := C_Running 0\<rparr>) = c\<lparr>mw_pc := C_Running 0\<rparr>"
      using view(6) by (cases a) (simp add: stop_step_def c_def with_publisher_def)
    then show ?thesis using mc_step.stop by metis
  qed
  moreover have "mc_step (c\<lparr>mw_pc := C_Running 0\<rparr>) (c\<lparr>mw_pc := C_Empty 0 0\<rparr>)"
    using mc_step.publish [of "c\<lparr>mw_pc := C_Running 0\<rparr>" True] by (simp add: publisher_step.simps c_def)
  moreover have "mc_step\<^sup>*\<^sup>* (c\<lparr>mw_pc := C_Empty 0 0\<rparr>) e"
    unfolding e_def by (rule empty_sweep) (simp add: queue_empty_at_def c_def queues fresh_ring)
  ultimately have run_e: "mc_step\<^sup>*\<^sup>* example_start e"
    using view(1) by (meson rtranclp_trans rtranclp.rtrancl_into_rtrancl)
  have e: "mw_sender e 0 = S_Push d 0" "queue_of e 0 = new_ring 32 []"
      "length (mp_shards (mw_publisher e)) = producer_shard_count" "\<not> mp_wake_requested (mw_publisher e)"
      "\<not> blocked (mw_pc e)"
    using view len queues [of 0] by (simp_all add: e_def c_def producer_shard_count_def)
  obtain f where f: "mc_step\<^sup>*\<^sup>* e f" "mw_sender f = (mw_sender e)(0 := S_Idle)" "mw_pc f = mw_pc e"
    "mw_stopper f = mw_stopper e" "mw_registration f = mw_registration e" "mw_registrations f = mw_registrations e"
    "mw_network f = mw_network e" "mw_accepted f = (mw_accepted e)(0 := mw_accepted e 0 @ [d])"
    "mw_returned f = (mw_returned e)(0 := mw_returned e 0 @ [d])"
    "mp_generation (mw_publisher f) = mp_generation (mw_publisher e)"
    "\<forall>i. sh_active_sender (shard_of f i) = (i \<noteq> 0 \<and> sh_active_sender (shard_of e i))"
    using finish_send [OF e] by metis
  have "mc_step\<^sup>*\<^sup>* (f\<lparr>mw_pc := C_Active 0 0\<rparr>) (f\<lparr>mw_pc := C_Done\<rparr>)"
    by (rule active_sweep) (simp add: f e_def c_def view nth_list_update fresh_queue)
  then have run_f: "mc_step\<^sup>*\<^sup>* f (f\<lparr>mw_pc := C_Done\<rparr>)" using pc_same [of f "C_Active 0 0"] f(3) by (simp add: e_def)
  obtain w where w: "mc_step\<^sup>*\<^sup>* (f\<lparr>mw_pc := C_Done\<rparr>) w" "mw_stopper w = K_Stopped" "mw_pc w = C_Done" "mw_sender w = mw_sender f"
    "mw_registration w = mw_registration f" "mw_registrations w = mw_registrations f" "mw_network w = mw_network f"
    "mw_accepted w = mw_accepted f" "mw_returned w = mw_returned f"
    "mp_generation (mw_publisher w) = mp_generation (mw_publisher f)"
    using stop_to_end [of "f\<lparr>mw_pc := C_Done\<rparr>"] f(4) by (auto simp: e_def c_def)
  have "mc_step\<^sup>*\<^sup>* example_start w" using run_e f(1) run_f w(1) by (meson rtranclp_trans)
  then show ?thesis
    by (intro exI [of _ w]) (simp add: example_reachable w f e_def c_def view owns_def)
qed

section \<open>Going to sleep\<close>

lemma sleep_run: "\<exists>w. mc_reachable w \<and> mw_pc w = C_Blocked 0 \<and> (\<forall>t. mw_sender w t = S_Idle) \<and>
  mw_stopper w = K_Running \<and> mw_registrations w = 0"
proof -
  let ?s = example_start and ?z = "with_publisher (\<lambda>p. p\<lparr>mp_wake_requested := False\<rparr>) example_start"
  have "mc_step\<^sup>*\<^sup>* (?s\<lparr>mw_pc := C_Scan 0 0\<rparr>) (?s\<lparr>mw_pc := C_Running 0\<rparr>)"
    by (rule scan_sweep) (simp_all add: fresh_queue fresh_ring)
  then have "mc_step\<^sup>*\<^sup>* ?s (?s\<lparr>mw_pc := C_Running 0\<rparr>)" using pc_same [of ?s "C_Scan 0 0"] by simp
  moreover have "mc_step (?s\<lparr>mw_pc := C_Running 0\<rparr>) (?s\<lparr>mw_pc := C_Clear 0\<rparr>)"
    using mc_step.publish [of "?s\<lparr>mw_pc := C_Running 0\<rparr>" True] by (simp add: publisher_step.simps)
  moreover have "mc_step (?s\<lparr>mw_pc := C_Clear 0\<rparr>) (?z\<lparr>mw_pc := C_Rescan 0 0\<rparr>)"
    using mc_step.publish [of "?s\<lparr>mw_pc := C_Clear 0\<rparr>" True] by (simp add: publisher_step.simps with_publisher_def)
  moreover have "mc_step\<^sup>*\<^sup>* (?z\<lparr>mw_pc := C_Rescan 0 0\<rparr>) (?z\<lparr>mw_pc := C_Rerunning 0\<rparr>)"
    by (rule empty_sweep) (simp add: queue_empty_at_def fresh_queue fresh_ring)
  moreover have "mc_step (?z\<lparr>mw_pc := C_Rerunning 0\<rparr>) (?z\<lparr>mw_pc := C_Wait 0\<rparr>)"
    using mc_step.publish [of "?z\<lparr>mw_pc := C_Rerunning 0\<rparr>" True] by (simp add: publisher_step.simps)
  moreover have "mc_step (?z\<lparr>mw_pc := C_Wait 0\<rparr>) (?z\<lparr>mw_pc := C_Blocked 0\<rparr>)"
    using mc_step.publish [of "?z\<lparr>mw_pc := C_Wait 0\<rparr>" True] by (simp add: publisher_step.simps)
  ultimately have "mc_step\<^sup>*\<^sup>* ?s (?z\<lparr>mw_pc := C_Blocked 0\<rparr>)"
    by (meson rtranclp_trans rtranclp.rtrancl_into_rtrancl)
  then show ?thesis by (intro exI [of _ "?z\<lparr>mw_pc := C_Blocked 0\<rparr>"]) (simp add: example_reachable)
qed
section \<open>A stop after the call\<close>

lemma one_datagram_ring:
  fixes d :: datagram
  defines "r1 \<equiv> snd (ring_try_push d (new_ring 32 ([] :: datagram)))"
  defines "r2 \<equiv> snd (ring_front r1)"
  defines "r3 \<equiv> ring_release (rg_read_position r2) r2"
  shows "fst (ring_front r1) = Some d" "ring_front r3 = (None, r3)" "ring_empty_approx r3"
proof -
  have rep0: "ring_rep 5 0 0 0 [] (new_ring 32 ([] :: datagram))" using ring_rep_new [of 5 "[] :: datagram"] by simp
  obtain cr where rep1: "ring_rep 5 cr 0 0 [d] r1" using ring_try_push_positions(2) [OF rep0, of d] by (auto simp: r1_def)
  show "fst (ring_front r1) = Some d" using ring_front_positions(1) [OF rep1] by simp
  obtain cw where rep2: "ring_rep 5 cr cw 0 [d] r2" and cw: "0 < cw"
    using ring_front_positions(2) [OF rep1] by (auto simp: r2_def)
  have rep3: "ring_rep 5 cr cw 1 [d] r3" using ring_rep_release [OF rep2 cw] by (simp add: r3_def)
  then show "ring_empty_approx r3" using ring_empty_approx_rep [OF rep3] by simp
  have "cw = 1" using ring_rep_bounds [OF rep2] cw by simp
  then have "rg_cached_write_position r3 = rg_write_position r3" using rep3 by (simp add: ring_rep_def)
  then have "ring_reload_write r3 = r3" by (simp add: ring_reload_write_def)
  then show "ring_front r3 = (None, r3)"
    using ring_empty_iff [OF rep3] \<open>cw = 1\<close> by (simp add: ring_front_def Let_def)
qed

lemma delivered_run:
  assumes "d \<noteq> []" "length d \<le> maximum_datagram_size"
  shows "\<exists>w. mc_reachable w \<and> mw_stopper w = K_Running \<and> (\<forall>t. mw_sender w t = S_Idle) \<and> mw_pc w = C_Scan 1 0 \<and>
    mw_accepted w 0 = [d] \<and> mw_registrations w = 1 \<and> owns w 0 0 \<and> mw_returned w 0 = [d] \<and> handed_over w 0 = [d] \<and>
    mp_running (mw_publisher w) \<and> mp_wake_requested (mw_publisher w) \<and>
    (\<forall>i<producer_shard_count. ring_front (queue_of w i) = (None, queue_of w i) \<and> queue_empty_at i w \<and>
       \<not> sh_active_sender (shard_of w i))"
proof -
  define a where "a = before_push d"
  note view = before_push_view [OF assms, folded a_def]
  have len: "length (mp_shards (mw_publisher a)) = producer_shard_count" by (simp add: view producer_shard_count_def)
  have queues: "queue_of a i = new_ring 32 []" if "i < producer_shard_count" for i
    using that by (simp add: view nth_list_update fresh_queue)
  have a: "mw_sender a 0 = S_Push d 0" "queue_of a 0 = new_ring 32 []" "\<not> mp_wake_requested (mw_publisher a)"
    "\<not> blocked (mw_pc a)" using view queues [of 0] by (simp_all add: producer_shard_count_def)
  obtain f where f: "mc_step\<^sup>*\<^sup>* a f" "mw_sender f = (mw_sender a)(0 := S_Idle)" "mw_pc f = mw_pc a"
    "mw_stopper f = mw_stopper a" "mw_registration f = mw_registration a" "mw_registrations f = mw_registrations a"
    "mw_accepted f = (mw_accepted a)(0 := mw_accepted a 0 @ [d])"
    "mp_generation (mw_publisher f) = mp_generation (mw_publisher a)"
    "mw_returned f = (mw_returned a)(0 := mw_returned a 0 @ [d])" "mw_network f = mw_network a"
    "mp_running (mw_publisher f) = mp_running (mw_publisher a)" "mp_wake_requested (mw_publisher f)"
    "\<forall>i. queue_of f i = (if i = 0 then snd (ring_try_push d (new_ring 32 [])) else queue_of a i)"
    "\<forall>i. sh_active_sender (shard_of f i) = (i \<noteq> 0 \<and> sh_active_sender (shard_of a i))"
    using finish_send [OF a(1,2) len a(3,4)] by metis
  have reach: "mc_reachable f" using view(1) f(1) by (meson example_reachable rtranclp_trans)
  have len_f: "length (mp_shards (mw_publisher f)) = producer_shard_count"
    using ownership_length mc_invD(1) [OF mc_reachable_inv [OF reach]] by blast
  note ring = one_datagram_ring [of d]
  have zero: "0 < producer_shard_count" "1 < producer_shard_count" by (simp_all add: producer_shard_count_def)
  define g where "g = publisher_step True f"
  define h where "h = publisher_step True g"
  define w where "w = publisher_step True h"
  have g: "g = (with_publisher (update_shard 0 (\<lambda>s. s\<lparr>sh_queue := snd (ring_front (queue_of f 0))\<rparr>)) f)\<lparr>mw_pc := C_Deliver 0 d\<rparr>"
    using f(3,13) view(5) zero ring(1) by (simp add: g_def publisher_step.simps Let_def split_beta)
  have h: "h = (deliver_datagram True 0 d g)\<lparr>mw_pc := C_Free 0\<rparr>" by (simp add: h_def publisher_step.simps g)
  have w: "w = (with_publisher (update_shard 0 (\<lambda>s. s\<lparr>sh_queue := ring_release (rg_read_position (sh_queue s)) (sh_queue s)\<rparr>)) h)
      \<lparr>mw_pc := C_Scan 1 0\<rparr>"
    using zero by (simp add: w_def publisher_step.simps h)
  have "mc_step f g" "mc_step g h" "mc_step h w" unfolding g_def h_def w_def by (rule mc_step.publish)+
  then have "mc_step\<^sup>*\<^sup>* example_start w" using view(1) f(1) by (meson rtranclp_trans rtranclp.rtrancl_into_rtrancl)
  moreover have queue: "queue_of w i = (let r = snd (ring_front (snd (ring_try_push d (new_ring 32 []))))
      in if i = 0 then ring_release (rg_read_position r) r else queue_of a i)" if "i < producer_shard_count" for i
    using that len_f f(13) zero by (simp add: w h g deliver_datagram_def Let_def nth_list_update)
  moreover have "sh_active_sender (shard_of w i) = (i \<noteq> 0 \<and> sh_active_sender (shard_of a i))"
    if "i < producer_shard_count" for i
    using that len_f f(14) zero by (simp add: w h g deliver_datagram_def Let_def nth_list_update)
  moreover have "\<not> sh_active_sender (shard_of a i)" if "i < producer_shard_count" "i \<noteq> 0" for i
    using that by (simp add: view nth_list_update fresh_queue)
  moreover have "ring_front (queue_of w i) = (None, queue_of w i) \<and> ring_empty_approx (queue_of w i)"
    if "i < producer_shard_count" for i
    using that queue [OF that] queues [OF that] ring(2,3) by (simp add: Let_def fresh_ring)
  ultimately show ?thesis
    by (intro exI [of _ w])
      (auto simp: example_reachable queue_empty_at_def w h g deliver_datagram_def Let_def f view owns_def handed_over_def)
qed

lemma quiet_stop_run:
  assumes "d \<noteq> []" "length d \<le> maximum_datagram_size"
  shows "\<exists>w w'. mc_reachable w \<and> mw_stopper w = K_Running \<and> (\<forall>t. mw_sender w t = S_Idle) \<and>
    mc_step\<^sup>*\<^sup>* (stop_step w) w' \<and> mw_pc w' = C_Done \<and> mw_registrations w' = 1 \<and> owns w' 0 0 \<and> mw_accepted w' 0 = [d]"
proof -
  obtain w where w: "mc_reachable w" "mw_stopper w = K_Running" "\<forall>t. mw_sender w t = S_Idle" "mw_pc w = C_Scan 1 0"
    "mw_accepted w 0 = [d]" "mw_registrations w = 1" "owns w 0 0"
    and shards: "\<forall>i<producer_shard_count. ring_front (queue_of w i) = (None, queue_of w i) \<and> queue_empty_at i w \<and>
       \<not> sh_active_sender (shard_of w i)"
    using delivered_run [OF assms] by blast
  define s where "s = stop_step w"
  have s: "s = (with_publisher (\<lambda>p. p\<lparr>mp_running := False\<rparr>) w)\<lparr>mw_stopper := K_Set\<rparr>" using w(2) by (simp add: s_def stop_step_def)
  have pc_s: "mw_pc s = C_Scan 1 0" using w(4) by (simp add: s)
  have "mc_step\<^sup>*\<^sup>* (s\<lparr>mw_pc := C_Scan 1 0\<rparr>) (s\<lparr>mw_pc := C_Running 1\<rparr>)"
    by (rule scan_sweep) (use shards in \<open>simp_all add: s\<close>)
  then have "mc_step\<^sup>*\<^sup>* s (s\<lparr>mw_pc := C_Running 1\<rparr>)" by (simp only: pc_same [OF pc_s])
  moreover have "mc_step (s\<lparr>mw_pc := C_Running 1\<rparr>) (s\<lparr>mw_pc := C_Empty 1 0\<rparr>)"
    using mc_step.publish [of "s\<lparr>mw_pc := C_Running 1\<rparr>" True] by (simp add: publisher_step.simps s)
  moreover have "mc_step\<^sup>*\<^sup>* (s\<lparr>mw_pc := C_Empty 1 0\<rparr>) (s\<lparr>mw_pc := C_Active 1 0\<rparr>)"
    by (rule empty_sweep) (use shards in \<open>simp add: queue_empty_at_def s\<close>)
  moreover have "mc_step\<^sup>*\<^sup>* (s\<lparr>mw_pc := C_Active 1 0\<rparr>) (s\<lparr>mw_pc := C_Done\<rparr>)"
    by (rule active_sweep) (use shards in \<open>simp add: s\<close>)
  ultimately have "mc_step\<^sup>*\<^sup>* s (s\<lparr>mw_pc := C_Done\<rparr>)" by (meson rtranclp_trans rtranclp.rtrancl_into_rtrancl)
  then show ?thesis
    using w by (intro exI [of _ w] exI [of _ "s\<lparr>mw_pc := C_Done\<rparr>"]) (simp add: s_def [symmetric] s owns_def)
qed


end
