(* ===== verification/Multicast_Store_Buffer.thy ===== *)
theory Multicast_Store_Buffer
  imports Multicast_Runs
begin

text \<open>
  The publisher with a store buffer for the wake flag: every sequentially consistent run is a run of it, and it has a
  run in which the publisher thread goes to sleep although a datagram is queued and nobody will wake it.
\<close>

lemma tso_cons: "tso_step s s' \<Longrightarrow> tso_step\<^sup>*\<^sup>* s' s'' \<Longrightarrow> tso_step\<^sup>*\<^sup>* s s''"
  by (rule converse_rtranclp_into_rtranclp)

text \<open>A clear that leaves the buffer at once is the clear of \<open>mc_step\<close>.\<close>

lemma tso_of_publish: "tso_step\<^sup>*\<^sup>* (w, False) (publisher_step transmitted w, False)"
proof (cases "\<exists>cursor. mw_pc w = C_Clear cursor")
  case True
  then obtain cursor where pc: "mw_pc w = C_Clear cursor" by blast
  have "publisher_step transmitted w = with_publisher (\<lambda>p. p\<lparr>mp_wake_requested := False\<rparr>) (w\<lparr>mw_pc := C_Rescan cursor 0\<rparr>)"
    using pc by (simp add: publisher_step.simps with_publisher_def)
  then show ?thesis using tso_step.clear [OF pc, of False] tso_step.flush by (metis tso_cons r_into_rtranclp)
next
  case False
  then have "past_buffer False (mw_pc w)" by (cases "mw_pc w") simp_all
  then show ?thesis using tso_step.publish by blast
qed

lemma tso_of_mc: "mc_step w w' \<Longrightarrow> tso_step\<^sup>*\<^sup>* (w, False) (w', False)"
  by (cases rule: mc_step.cases) (auto intro: tso_of_publish tso_step.intros)

lemma tso_of_run: "mc_step\<^sup>*\<^sup>* w w' \<Longrightarrow> tso_step\<^sup>*\<^sup>* (w, False) (w', False)"
  by (induction rule: rtranclp_induct) (auto dest: tso_of_mc)

lemma tso_of_reachable: "mc_reachable w \<Longrightarrow> tso_reachable (w, False)"
  unfolding mc_reachable_def tso_reachable_def using tso_of_run by blast

text \<open>A rescan of empty queues, whatever the buffer holds.\<close>

lemma tso_rescan:
  assumes "\<forall>i<producer_shard_count. queue_empty_at i w" "k \<le> producer_shard_count"
  shows "tso_step\<^sup>*\<^sup>* (w\<lparr>mw_pc := C_Rescan c k\<rparr>, b) (w\<lparr>mw_pc := C_Rerunning c\<rparr>, b)"
  using assms(2)
proof (induction "producer_shard_count - k" arbitrary: k)
  case 0
  then have "publisher_step True (w\<lparr>mw_pc := C_Rescan c k\<rparr>) = w\<lparr>mw_pc := C_Rerunning c\<rparr>" by (simp add: publisher_step.simps)
  then show ?case using tso_step.publish [of b "w\<lparr>mw_pc := C_Rescan c k\<rparr>" True] by simp
next
  case (Suc n)
  then have "publisher_step True (w\<lparr>mw_pc := C_Rescan c k\<rparr>) = w\<lparr>mw_pc := C_Rescan c (Suc k)\<rparr>"
    using assms(1) by (simp add: publisher_step.simps queue_empty_at_def)
  then have "tso_step (w\<lparr>mw_pc := C_Rescan c k\<rparr>, b) (w\<lparr>mw_pc := C_Rescan c (Suc k)\<rparr>, b)"
    using tso_step.publish [of b "w\<lparr>mw_pc := C_Rescan c k\<rparr>" True] by simp
  moreover have "tso_step\<^sup>*\<^sup>* (w\<lparr>mw_pc := C_Rescan c (Suc k)\<rparr>, b) (w\<lparr>mw_pc := C_Rerunning c\<rparr>, b)"
    using Suc by (intro Suc.hyps(1)) simp_all
  ultimately show ?case by (rule tso_cons)
qed

text \<open>A call of \<open>send\<close> by a registered thread that finds room in its ring and the flag set returns without a notification.\<close>

lemma quiet_send:
  assumes idle: "mw_sender w 0 = S_Idle" and d: "d \<noteq> []" "length d \<le> maximum_datagram_size"
    and running: "mp_running (mw_publisher w)" and owner: "owns w 0 0"
    and len: "length (mp_shards (mw_publisher w)) = producer_shard_count"
    and flag: "mp_wake_requested (mw_publisher w)" and room: "fst (ring_try_push d (queue_of w 0))"
  obtains w' where "tso_step\<^sup>*\<^sup>* (w, b) (w', b)" "mw_sender w' = (mw_sender w)(0 := S_Idle)" "mw_pc w' = mw_pc w"
    "mw_stopper w' = mw_stopper w" "mw_network w' = mw_network w"
    "mw_returned w' = (mw_returned w)(0 := mw_returned w 0 @ [d])"
    "queue_of w' 0 = snd (ring_try_push d (queue_of w 0))"
proof -
  define w1 where "w1 = send_call 0 d w"
  define w2 where "w2 = at_sender 0 (S_Mark d 0) w1"
  define w3 where "w3 = at_sender 0 (S_Recheck d 0)
    (with_publisher (update_shard 0 (\<lambda>s. s\<lparr>sh_active_sender := True\<rparr>)) w2)"
  define w4 where "w4 = at_sender 0 (S_Push d 0) w3"
  define w5 where "w5 = at_sender 0 (S_Unmark d 0 True) (snd (push_datagram 0 0 d w4))"
  define w6 where "w6 = at_sender 0 (S_Account d 0 True)
    (with_publisher (update_shard 0 (\<lambda>s. s\<lparr>sh_active_sender := False\<rparr>)) w5)"
  define w7 where "w7 = at_sender 0 (S_Depth d 0) (with_publisher (update_shard 0 (\<lambda>s. s\<lparr>sh_enqueued := sh_enqueued s + 1\<rparr>)) w6)"
  define w8 where "w8 = at_sender 0 (S_Test d 0) (with_publisher (update_shard 0
       (\<lambda>s. s\<lparr>sh_max_depth := max (sh_max_depth s) (ring_size_approx (sh_queue s))\<rparr>)) w7)"
  define w9 where "w9 = send_returns_true 0 d w8"
  have zero: "0 < producer_shard_count" by (simp add: producer_shard_count_def)
  have call: "w1 = at_sender 0 (S_Register d) w" using d running by (simp add: w1_def send_call_def)
  note defs = w9_def w8_def w7_def w6_def w5_def w4_def w3_def w2_def call
  have queue4: "queue_of w4 0 = queue_of w 0" using zero len by (simp add: w4_def w3_def w2_def call)
  have pushed: "fst (push_datagram 0 0 d w4)" using room by (simp add: queue4)
  have steps: "w2 = send_step 0 w1" "w3 = send_step 0 w2" "w4 = send_step 0 w3" "w5 = send_step 0 w4"
    "w6 = send_step 0 w5" "w7 = send_step 0 w6" "w8 = send_step 0 w7" "w9 = send_step 0 w8"
  proof -
    show "w2 = send_step 0 w1"
      using owner zero
      by (simp add: w2_def call send_step.simps producer_shard_for_current_thread_def owns_def Let_def)
    show "w3 = send_step 0 w2" unfolding w3_def by (rule send_step_at(1) [symmetric]) (simp add: w2_def)
    show "w4 = send_step 0 w3"
      unfolding w4_def by (subst send_step_at(2) [of _ 0 d 0]) (simp_all add: w3_def w2_def call running)
    show "w5 = send_step 0 w4"
      unfolding w5_def by (subst send_step_at(4) [of _ 0 d 0]) (use pushed in \<open>simp_all add: w4_def\<close>)
    show "w6 = send_step 0 w5" unfolding w6_def by (rule send_step_at(5) [symmetric]) (simp add: w5_def)
    show "w7 = send_step 0 w6" unfolding w7_def by (rule send_step_at(6) [symmetric]) (simp add: w6_def)
    show "w8 = send_step 0 w7" unfolding w8_def by (rule send_step_at(8) [symmetric]) (simp add: w7_def)
    have "mp_wake_requested (mw_publisher w8)" using flag by (simp add: w8_def w7_def w6_def w5_def w4_def w3_def w2_def call)
    then show "w9 = send_step 0 w8" unfolding w9_def by (subst send_step_at(9) [of _ 0 d 0]) (simp_all add: w8_def)
  qed
  have "tso_step (w1, b) (w2, b)" unfolding steps(1) by (rule tso_step.send) (simp add: call)
  moreover have "tso_step (w2, b) (w3, b)" unfolding steps(2) by (rule tso_step.send) (simp add: w2_def)
  moreover have "tso_step (w3, b) (w4, b)" unfolding steps(3) by (rule tso_step.send) (simp add: w3_def)
  moreover have "tso_step (w4, b) (w5, b)" unfolding steps(4) by (rule tso_step.send) (simp add: w4_def)
  moreover have "tso_step (w5, b) (w6, b)" unfolding steps(5) by (rule tso_step.send) (simp add: w5_def)
  moreover have "tso_step (w6, b) (w7, b)" unfolding steps(6) by (rule tso_step.send) (simp add: w6_def)
  moreover have "tso_step (w7, b) (w8, b)" unfolding steps(7) by (rule tso_step.send) (simp add: w7_def)
  moreover have "tso_step (w8, b) (w9, b)" unfolding steps(8) by (rule tso_step.send) (simp add: w8_def)
  moreover have "tso_step (w, b) (w1, b)" unfolding w1_def by (rule tso_step.call [OF idle])
  ultimately have run: "tso_step\<^sup>*\<^sup>* (w, b) (w9, b)" by (meson tso_cons rtranclp.rtrancl_refl)
  show thesis
    by (rule that [OF run]) (use pushed zero len queue4 in \<open>simp_all add: defs nth_list_update\<close>)
qed

text \<open>
  The missed wake-up: the flag is still set from the first call of \<open>send\<close> when the publisher thread, with nothing left
  to send, clears it; the clear waits in the store buffer, a second call queues its datagram, reads the old flag and
  returns, and the publisher thread, which had found its queues empty, reads its own clear and blocks.
\<close>

lemma stale_flag_sleeps:
  assumes d: "d \<noteq> []" "length d \<le> maximum_datagram_size" and d': "d' \<noteq> []" "length d' \<le> maximum_datagram_size"
  shows "\<exists>w. tso_reachable (w, False) \<and> mw_pc w = C_Blocked 1 \<and> \<not> queue_empty_at 0 w \<and>
    (\<forall>t. mw_sender w t = S_Idle) \<and> mw_stopper w = K_Running \<and>
    mw_returned w 0 = [d, d'] \<and> handed_over w 0 = [d]"
proof -
  obtain w where w: "mc_reachable w" "mw_stopper w = K_Running" "\<forall>t. mw_sender w t = S_Idle" "mw_pc w = C_Scan 1 0"
    "mw_accepted w 0 = [d]" "mw_registrations w = 1" "owns w 0 0" "mw_returned w 0 = [d]" "handed_over w 0 = [d]"
    "mp_running (mw_publisher w)" "mp_wake_requested (mw_publisher w)"
    and shards: "\<forall>i<producer_shard_count. ring_front (queue_of w i) = (None, queue_of w i) \<and> queue_empty_at i w \<and>
       \<not> sh_active_sender (shard_of w i)"
    using delivered_run [OF d] by blast
  note inv = mc_reachable_inv [OF w(1)]
  have len: "length (mp_shards (mw_publisher w)) = producer_shard_count"
    using ownership_length [OF mc_invD(1) [OF inv]] by blast
  have zero: "0 < producer_shard_count" by (simp add: producer_shard_count_def)
  have log: "mw_log w 0 = [d]" using logs_okD(1) [OF mc_invD(5) [OF inv] _ w(7)] w(5,6) by simp
  obtain cr cw where rep: "ring_rep 5 cr cw 1 [d] (queue_of w 0)"
    using queues_okD(2) [OF mc_invD(3) [OF inv] zero] w(4,9) log by (auto elim!: queue_okE simp: freed_def)
  note push = ring_try_push_positions [OF rep, of d']
  define u where "u = w\<lparr>mw_pc := C_Wait 1\<rparr>"
  have "mc_step\<^sup>*\<^sup>* (w\<lparr>mw_pc := C_Scan 1 0\<rparr>) (w\<lparr>mw_pc := C_Running 1\<rparr>)"
    by (rule scan_sweep) (use shards in simp_all)
  moreover have "mc_step (w\<lparr>mw_pc := C_Running 1\<rparr>) (w\<lparr>mw_pc := C_Clear 1\<rparr>)"
    using mc_step.publish [of "w\<lparr>mw_pc := C_Running 1\<rparr>" True] w(10) by (simp add: publisher_step.simps)
  ultimately have "mc_step\<^sup>*\<^sup>* w (w\<lparr>mw_pc := C_Clear 1\<rparr>)" using pc_same [OF w(4)] by simp
  then have "tso_step\<^sup>*\<^sup>* (w, False) (w\<lparr>mw_pc := C_Clear 1\<rparr>, False)" by (rule tso_of_run)
  also have "tso_step (w\<lparr>mw_pc := C_Clear 1\<rparr>, False) (w\<lparr>mw_pc := C_Rescan 1 0\<rparr>, True)"
    using tso_step.clear [of "w\<lparr>mw_pc := C_Clear 1\<rparr>" 1 False] by simp
  also have "tso_step\<^sup>*\<^sup>* (w\<lparr>mw_pc := C_Rescan 1 0\<rparr>, True) (w\<lparr>mw_pc := C_Rerunning 1\<rparr>, True)"
    by (rule tso_rescan) (use shards in simp_all)
  also have "tso_step (w\<lparr>mw_pc := C_Rerunning 1\<rparr>, True) (u, True)"
    using tso_step.publish [of True "w\<lparr>mw_pc := C_Rerunning 1\<rparr>" True] w(10) by (simp add: publisher_step.simps u_def)
  finally have run: "tso_step\<^sup>*\<^sup>* (w, False) (u, True)" .
  obtain v where v: "tso_step\<^sup>*\<^sup>* (u, True) (v, True)" "mw_sender v = (mw_sender u)(0 := S_Idle)" "mw_pc v = mw_pc u"
    "mw_stopper v = mw_stopper u" "mw_network v = mw_network u"
    "mw_returned v = (mw_returned u)(0 := mw_returned u 0 @ [d'])"
    "queue_of v 0 = snd (ring_try_push d' (queue_of u 0))"
    by (rule quiet_send [of u d' True]) (use d' w len push(1) in \<open>simp_all add: u_def owns_def\<close>)
  define x where "x = with_publisher (\<lambda>p. p\<lparr>mp_wake_requested := False\<rparr>) (v\<lparr>mw_pc := C_Blocked 1\<rparr>)"
  have "tso_step (v, True) (v\<lparr>mw_pc := C_Blocked 1\<rparr>, True)" by (rule tso_step.wait) (simp add: v u_def)
  moreover have "tso_step (v\<lparr>mw_pc := C_Blocked 1\<rparr>, True) (x, False)" unfolding x_def by (rule tso_step.flush)
  ultimately have "tso_step\<^sup>*\<^sup>* (w, False) (x, False)" using run v(1) by (meson rtranclp_trans rtranclp.rtrancl_into_rtrancl)
  then have "tso_reachable (x, False)"
    using tso_of_reachable [OF w(1)] unfolding tso_reachable_def by (meson rtranclp_trans)
  moreover obtain cr' where "ring_rep 5 cr' cw 1 [d, d'] (snd (ring_try_push d' (queue_of w 0)))" using push(2) by auto
  then have "\<not> queue_empty_at 0 x" by (simp add: ring_empty_approx_rep queue_empty_at_def x_def v u_def)
  ultimately show ?thesis
    using w by (intro exI [of _ x]) (simp add: x_def v u_def handed_over_def)
qed

end
