(* ===== verification/Multicast_Properties.thy ===== *)
theory Multicast_Properties
  imports Multicast_Store_Buffer
begin

text \<open>The properties of the market data publisher.\<close>

section \<open>Order and accounting\<close>

lemma owned_queue:
  assumes inv: "mc_inv w" and n: "mw_registrations w < 2 ^ 64" and own: "owns w t i"
  shows "i < producer_shard_count" "mw_accepted w t = mw_log w i"
    "handed_over w i = take (length (handed_over w i)) (mw_log w i)"
    "length (mw_log w i) \<le> freed w i + queue_capacity_per_producer"
proof -
  show i: "i < producer_shard_count"
    using ownershipD(2) [OF mc_invD(1) [OF inv] n, of t] own by (auto simp: owns_def)
  show "mw_accepted w t = mw_log w i" using logs_okD(1) [OF mc_invD(5) [OF inv] n own] .
  obtain cr cw where rep: "ring_rep 5 cr cw (freed w i) (mw_log w i) (queue_of w i)"
    and prefix: "handed_over w i = take (length (handed_over w i)) (mw_log w i)"
    using queues_okD(2) [OF mc_invD(3) [OF inv] i] by (rule queue_okE)
  show "handed_over w i = take (length (handed_over w i)) (mw_log w i)" by (fact prefix)
  show "length (mw_log w i) \<le> freed w i + queue_capacity_per_producer"
    using ring_rep_bounds [OF rep] by (simp add: queue_capacity_per_producer_def)
qed

lemma network_owned:
  assumes inv: "mc_inv w" and n: "mw_registrations w < 2 ^ 64" and x: "x \<in> set (mw_network w)"
  shows "\<exists>t. owns w t (fst x)"
proof (rule ccontr)
  assume none: "\<nexists>t. owns w t (fst x)"
  have i: "fst x < producer_shard_count" using mc_invD(6) [OF inv] x by (auto simp: network_ok_def)
  then have "mw_log w (fst x) = []" using logs_okD(4) [OF mc_invD(5) [OF inv] n i] none by blast
  moreover have "handed_over w (fst x) = take (length (handed_over w (fst x))) (mw_log w (fst x))"
    using queues_okD(2) [OF mc_invD(3) [OF inv] i] by (rule queue_okE)
  ultimately have "handed_over w (fst x) = []" by simp
  then show False using x by (auto simp: handed_over_def filter_empty_conv)
qed

text \<open>
  C19. In every sequentially consistent run of the publisher with less than 2^64 registrations, the datagrams that the
  publisher thread has handed to \<^verbatim>\<open>sendto\<close> from a thread's shard (those that \<^verbatim>\<open>sendto\<close> failed to transmit
  included) are the first datagrams the thread had queued, in order; at most a ring's capacity of them wait; what its
  calls of \<open>send\<close> reported as queued is what was queued, except for the call under way; and nothing is handed to
  \<^verbatim>\<open>sendto\<close> that no thread queued.
\<close>

theorem publisher_fifo:
  assumes "mc_reachable w" "mw_registrations w < 2 ^ 64" "owns w t i"
  shows "handed_over w i = take (length (handed_over w i)) (mw_accepted w t) \<and>
    length (mw_accepted w t) \<le> length (handed_over w i) + queue_capacity_per_producer \<and>
    mw_accepted w t = mw_returned w t @ pending (mw_sender w t) \<and>
    (\<forall>x\<in>set (mw_network w). \<exists>u. owns w u (fst x))"
proof -
  note inv = mc_reachable_inv [OF assms(1)]
  have "freed w i \<le> length (handed_over w i)" by (simp add: freed_def)
  then show ?thesis
    using owned_queue [OF inv assms(2,3)] network_owned [OF inv assms(2)] mc_invD(4) [OF inv]
    by (auto simp: reports_ok_def)
qed

theorem publisher_fifo_witness:
  "\<exists>w. mc_reachable w \<and> owns w 0 0 \<and> mw_accepted w 0 = [[7]] \<and> mw_network w = [] \<and>
     mw_accepted w 0 = mw_returned w 0 @ pending (mw_sender w 0)"
proof -
  obtain w where w: "mc_reachable w" "mw_accepted w 0 = [[7]]" "mw_network w = []" "mw_registrations w = 1" "owns w 0 0"
    using lossy_stop_run [of "[7]"] by (auto simp: maximum_datagram_size_def)
  then show ?thesis using publisher_fifo [OF w(1) _ w(5)] by auto
qed

lemma sum_list_nth: "sum_list (map f xs) = (\<Sum>i\<leftarrow>[0..<length xs]. f (xs ! i))"
proof -
  have "map f xs = map (\<lambda>i. f (xs ! i)) [0..<length xs]" by (rule nth_equalityI) simp_all
  then show ?thesis by simp
qed

lemma of_nat_sum_list_map: "of_nat (\<Sum>x\<leftarrow>xs. f x) = (\<Sum>x\<leftarrow>xs. of_nat (f x))"
  by (induction xs) simp_all

lemma delivered_total:
  assumes "\<forall>x\<in>set net. fst x < n"
  shows "(\<Sum>i\<leftarrow>[0..<n]. length (filter (\<lambda>x. fst x = i) net)) = length net"
  using assms
proof (induction net)
  case (Cons x net)
  have "(\<Sum>i\<leftarrow>[0..<n]. length (filter (\<lambda>y. fst y = i) (x # net))) =
      (\<Sum>i\<leftarrow>[0..<n]. (if fst x = i then 1 else 0) + length (filter (\<lambda>y. fst y = i) net))"
    by (intro arg_cong [of _ _ sum_list] map_cong) simp_all
  also have "\<dots> = (\<Sum>i\<leftarrow>[0..<n]. if fst x = i then 1 else 0) + length net"
    using Cons by (simp add: sum_list_addf)
  also have "(\<Sum>i\<leftarrow>[0..<n]. if fst x = i then 1 else (0 :: nat)) = 1"
    using Cons.prems by (simp add: interv_sum_list_conv_sum_set_nat)
  finally show ?case by simp
qed simp

text \<open>
  Between calls the statistics balance: when no thread is inside \<open>send\<close> and no datagram is being taken off
  its ring, the number of enqueued datagrams is the number sent plus the send errors plus the queue depth.
\<close>

theorem stats_balance:
  assumes "mc_reachable w" "mw_registrations w < 2 ^ 64" "\<forall>t. mw_sender w t = S_Idle" "\<forall>i. mw_pc w \<noteq> C_Free i"
  shows "let s = publisher_stats (mw_publisher w)
         in ps_enqueued s = ps_sent s + ps_send_errors s + ps_queue_depth s"
proof -
  note inv = mc_reachable_inv [OF assms(1)]
  note net = mc_invD(6) [OF inv, unfolded network_ok_def] and len = queues_okD(1) [OF mc_invD(3) [OF inv]]
  let ?p = "mw_publisher w"
  have shard: "sh_enqueued (shard_of w i) = ring_size_approx (queue_of w i) + word_of_nat (length (handed_over w i))"
    if i: "i < producer_shard_count" for i
  proof -
    obtain cr cw where rep: "ring_rep 5 cr cw (freed w i) (mw_log w i) (queue_of w i)"
      using queues_okD(2) [OF mc_invD(3) [OF inv] i] by (rule queue_okE)
    have freed: "freed w i = length (handed_over w i)" using assms(4) by (simp add: freed_def)
    have "sh_enqueued (shard_of w i) = word_of_nat (length (mw_log w i))"
    proof (cases "\<exists>t. owns w t i")
      case True
      then show ?thesis using logs_okD(2) [OF mc_invD(5) [OF inv] assms(2)] assms(3) by auto
    next
      case False
      then show ?thesis using logs_okD(4) [OF mc_invD(5) [OF inv] assms(2) i] by auto
    qed
    moreover have "ring_size_approx (queue_of w i) = word_of_nat (length (mw_log w i) - freed w i)"
      by (simp flip: ring_size_approx_rep [OF rep])
    moreover have "freed w i \<le> length (mw_log w i)" using ring_rep_bounds [OF rep] by simp
    ultimately show ?thesis by (simp add: freed of_nat_diff)
  qed
  have depth: "aggregate_queue_depth ?p = (\<Sum>i\<leftarrow>[0..<producer_shard_count]. ring_size_approx (queue_of w i))"
    unfolding aggregate_queue_depth_def by (subst sum_list_nth) (simp add: len)
  have "sum_list (map sh_enqueued (mp_shards ?p)) =
      (\<Sum>i\<leftarrow>[0..<producer_shard_count]. ring_size_approx (queue_of w i) + word_of_nat (length (handed_over w i)))"
    by (subst sum_list_nth) (auto simp: len shard intro!: arg_cong [of _ _ sum_list] map_cong)
  also have "\<dots> = aggregate_queue_depth ?p + word_of_nat (\<Sum>i\<leftarrow>[0..<producer_shard_count]. length (handed_over w i))"
    by (simp add: depth sum_list_addf of_nat_sum_list_map)
  also have "(\<Sum>i\<leftarrow>[0..<producer_shard_count]. length (handed_over w i)) = length (mw_network w)"
    using delivered_total [of "mw_network w" producer_shard_count] net by (simp add: handed_over_def)
  also have "length (mw_network w) = length (filter (\<lambda>x. snd (snd x)) (mw_network w)) +
      length (filter (\<lambda>x. \<not> snd (snd x)) (mw_network w))"
    by (rule sum_length_filter_compl [symmetric])
  also have "word_of_nat \<dots> = mp_sent ?p + mp_send_errors ?p" using net by simp
  finally show ?thesis by (simp add: publisher_stats_def Let_def add.commute)
qed

theorem stats_balance_witness:
  "\<exists>w. mc_reachable w \<and> mw_accepted w 0 = [[7]] \<and>
     (let s = publisher_stats (mw_publisher w) in ps_enqueued s = ps_sent s + ps_send_errors s + ps_queue_depth s)"
proof -
  obtain w where w: "mc_reachable w" "mw_accepted w 0 = [[7]]" "mw_pc w = C_Done" "\<forall>t. mw_sender w t = S_Idle"
      "mw_registrations w = 1"
    using lossy_stop_run [of "[7]"] by (auto simp: maximum_datagram_size_def)
  then show ?thesis using stats_balance [OF w(1)] by auto
qed

section \<open>Sleeping and stopping\<close>

text \<open>
  C18. When the atomic accesses of the publisher take effect in one order (sequential consistency, more than the code
  asks for), the publisher thread never sleeps through work: while it is blocked on the flag and some queue is not
  empty, a thread that has just queued a datagram is still on its way to set the flag or to notify, or the stop request
  is; while it is blocked after \<^verbatim>\<open>running_\<close> became false, the stop request or a notification is still to come; and when
  all calls have returned, no stop was requested and less than 2^64 registrations were made, everything reported as
  queued has been handed to \<^verbatim>\<open>sendto\<close>. With the memory orders of the code this fails: if the clear of the flag waits in
  the store buffer of the publisher thread, a run ends with the thread asleep, a datagram queued, every call returned
  and no stop requested.
\<close>

theorem no_missed_wakeup:
  assumes "mc_reachable w" "mw_pc w = C_Blocked cursor"
  shows "(\<forall>i<producer_shard_count. \<not> queue_empty_at i w \<longrightarrow>
       (\<exists>t. signalling (mw_sender w t) i \<or> notifying (mw_sender w t)) \<or> mw_stopper w = K_Notify) \<and>
    (\<not> mp_running (mw_publisher w) \<longrightarrow>
       mw_stopper w = K_Set \<or> mw_stopper w = K_Notify \<or> (\<exists>t. notifying (mw_sender w t))) \<and>
    (mw_registrations w < 2 ^ 64 \<and> (\<forall>t. mw_sender w t = S_Idle) \<and> mw_stopper w = K_Running \<longrightarrow>
       (\<forall>t i. owns w t i \<longrightarrow> mw_returned w t = handed_over w i)) \<and>
    (\<exists>w'. tso_reachable (w', False) \<and> blocked (mw_pc w') \<and> \<not> queue_empty_at 0 w' \<and>
       (\<forall>t. mw_sender w' t = S_Idle) \<and> mw_stopper w' = K_Running)"
proof -
  note inv = mc_reachable_inv [OF assms(1)]
  note awake = mc_invD(8) [OF inv, THEN awake_okD(1)] mc_invD(8) [OF inv, THEN awake_okD(2)]
    mc_invD(8) [OF inv, THEN awake_okD(3)]
  have work: "(\<exists>t. signalling (mw_sender w t) i \<or> notifying (mw_sender w t)) \<or> mw_stopper w = K_Notify"
    if "i < producer_shard_count" "\<not> queue_empty_at i w" for i
    using awake(1) [of i] awake(2) that assms(2) by (cases "mp_wake_requested (mw_publisher w)") auto
  moreover have "mw_stopper w = K_Set \<or> mw_stopper w = K_Notify \<or> (\<exists>t. notifying (mw_sender w t))"
    if "\<not> mp_running (mw_publisher w)"
    using awake(2,3) that assms(2) by auto
  moreover have "mw_returned w t = handed_over w i"
    if n: "mw_registrations w < 2 ^ 64" and idle: "\<forall>t. mw_sender w t = S_Idle" and "mw_stopper w = K_Running"
      and own: "owns w t i" for t i
  proof -
    note q = owned_queue [OF inv n own]
    have "queue_empty_at i w" using work [OF q(1)] idle that(3) by auto
    then have "freed w i = length (mw_log w i)" using queue_empty_at_iff [OF queues_okD(2) [OF mc_invD(3) [OF inv] q(1)]] by simp
    then have "handed_over w i = mw_log w i" using q(3) assms(2) by (simp add: freed_def)
    then show ?thesis using q(2) mc_invD(4) [OF inv] idle by (simp add: reports_ok_def)
  qed
  moreover have "\<exists>w'. tso_reachable (w', False) \<and> blocked (mw_pc w') \<and> \<not> queue_empty_at 0 w' \<and>
       (\<forall>t. mw_sender w' t = S_Idle) \<and> mw_stopper w' = K_Running"
  proof -
    obtain w' where "tso_reachable (w', False)" "mw_pc w' = C_Blocked 1" "\<not> queue_empty_at 0 w'"
      "\<forall>t. mw_sender w' t = S_Idle" "mw_stopper w' = K_Running"
      using stale_flag_sleeps [of "[1]" "[2]"] by (auto simp: maximum_datagram_size_def)
    then show ?thesis by (intro exI [of _ w']) simp
  qed
  ultimately show ?thesis by blast
qed

theorem no_missed_wakeup_witness:
  "\<exists>w. mc_reachable w \<and> mw_pc w = C_Blocked 0 \<and>
     (\<forall>i<producer_shard_count. \<not> queue_empty_at i w \<longrightarrow>
        (\<exists>t. signalling (mw_sender w t) i \<or> notifying (mw_sender w t)) \<or> mw_stopper w = K_Notify)"
proof -
  obtain w where w: "mc_reachable w" "mw_pc w = C_Blocked 0" using sleep_run by blast
  then show ?thesis using no_missed_wakeup [OF w] by blast
qed



text \<open>
  C39. A stop during a call of \<open>send\<close> can lose the datagram although the call reports success: the publisher thread
  finds the queue empty, the call queues its datagram and clears its active flag, and the thread then finds no
  active sender and ends. The two checks of the loop are in this order; the comment in \<open>send\<close> says that the
  active flag makes shutdown and draining safe.
\<close>

theorem stop_may_lose_datagram:
  assumes "d \<noteq> []" "length d \<le> maximum_datagram_size"
  shows "\<exists>w. mc_reachable w \<and> mw_stopper w = K_Stopped \<and> (\<forall>t. mw_sender w t = S_Idle) \<and>
    mw_returned w 0 = [d] \<and> mw_network w = []"
  using lossy_stop_run [OF assms] by blast

theorem stop_may_lose_datagram_witness:
  "\<exists>w. mc_reachable w \<and> mw_stopper w = K_Stopped \<and> mw_returned w 0 = [[7]] \<and> mw_network w = []"
  using stop_may_lose_datagram [of "[7]"] by (auto simp: maximum_datagram_size_def)

end
