(* ===== verification/Sha1.thy ===== *)
theory Sha1
  imports Wire
begin

unbundle bit_operations_syntax

text \<open>
  The digest and the text encoding of the WebSocket handshake, \<^verbatim>\<open>sha1\<close> and \<^verbatim>\<open>base64_encode\<close> of
  \<^verbatim>\<open>src/websocket_gateway.cpp\<close>, with the standard's description of the digest (RFC 3174) and a decoder of the
  text encoding to compare them with.
\<close>

section \<open>The digest\<close>

definition rotate_left :: "u32 \<Rightarrow> nat \<Rightarrow> u32" where
  "rotate_left value amount = push_bit amount value OR drop_bit (32 - amount) value"

function sha1_zeros :: "nat \<Rightarrow> u8 list" where
  "sha1_zeros n = (if n mod 64 \<noteq> 56 then 0 # sha1_zeros (n + 1) else [])"
  by pat_completeness auto
termination
proof (relation "measure (\<lambda>n. if n mod 64 \<le> 56 then 56 - n mod 64 else 120 - n mod 64)")
  fix n :: nat
  assume less: "n mod 64 \<noteq> 56"
  have r: "n mod 64 < 64" and step: "(n + 1) mod 64 = (if n mod 64 = 63 then 0 else n mod 64 + 1)"
    by (simp_all add: mod_Suc)
  show "(n + 1, n) \<in> measure (\<lambda>n. if n mod 64 \<le> 56 then 56 - n mod 64 else 120 - n mod 64)"
    unfolding in_measure step using less r by (cases "n mod 64 = 63"; cases "n mod 64 < 56") auto
qed simp

declare sha1_zeros.simps [simp del]

definition length_bytes :: "u64 \<Rightarrow> u8 list" where
  "length_bytes bit_length = map (\<lambda>shift. ucast (drop_bit shift bit_length AND 0xFF)) [56, 48, 40, 32, 24, 16, 8, 0]"

definition sha1_message :: "u8 list \<Rightarrow> u8 list" where
  "sha1_message input =
     (let bit_length = word_of_nat (length input) * 8; message = input @ [0x80]
      in message @ sha1_zeros (length message) @ length_bytes bit_length)"

type_synonym sha1_state = "u32 \<times> u32 \<times> u32 \<times> u32 \<times> u32"

definition sha1_word :: "u8 list \<Rightarrow> nat \<Rightarrow> u32" where
  "sha1_word message offset =
     push_bit 24 (ucast (message ! offset)) OR push_bit 16 (ucast (message ! (offset + 1))) OR
     push_bit 8 (ucast (message ! (offset + 2))) OR ucast (message ! (offset + 3))"

definition sha1_words :: "u8 list \<Rightarrow> nat \<Rightarrow> u32 list" where
  "sha1_words message chunk =
     fold (\<lambda>index words. words[index := rotate_left (words ! (index - 3) XOR words ! (index - 8) XOR
             words ! (index - 14) XOR words ! (index - 16)) 1]) [16..<80]
       (map (\<lambda>index. sha1_word message (chunk + index * 4)) [0..<16] @ replicate 64 0)"

definition sha1_function :: "nat \<Rightarrow> u32 \<Rightarrow> u32 \<Rightarrow> u32 \<Rightarrow> u32 \<times> u32" where
  "sha1_function index b c d =
     (if index < 20 then ((b AND c) OR (NOT b AND d), 0x5A827999)
      else if index < 40 then (b XOR c XOR d, 0x6ED9EBA1)
      else if index < 60 then ((b AND c) OR (b AND d) OR (c AND d), 0x8F1BBCDC)
      else (b XOR c XOR d, 0xCA62C1D6))"

fun sha1_round :: "u32 list \<Rightarrow> nat \<Rightarrow> sha1_state \<Rightarrow> sha1_state" where
  "sha1_round words index (a, b, c, d, e) =
     (let (f, constant) = sha1_function index b c d;
          temporary = rotate_left a 5 + f + e + constant + words ! index
      in (temporary, a, rotate_left b 30, c, d))"

fun sha1_add :: "sha1_state \<Rightarrow> sha1_state \<Rightarrow> sha1_state" where
  "sha1_add (h0, h1, h2, h3, h4) (a, b, c, d, e) = (h0 + a, h1 + b, h2 + c, h3 + d, h4 + e)"

definition sha1_chunk :: "u8 list \<Rightarrow> nat \<Rightarrow> sha1_state \<Rightarrow> sha1_state" where
  "sha1_chunk message chunk h = sha1_add h (fold (sha1_round (sha1_words message chunk)) [0..<80] h)"

definition sha1_initial :: sha1_state where
  "sha1_initial = (0x67452301, 0xEFCDAB89, 0x98BADCFE, 0x10325476, 0xC3D2E1F0)"

definition word_bytes :: "u32 \<Rightarrow> u8 list" where
  "word_bytes v = map (\<lambda>shift. ucast (drop_bit shift v AND 0xFF)) [24, 16, 8, 0]"

fun sha1_digest :: "sha1_state \<Rightarrow> u8 list" where
  "sha1_digest (h0, h1, h2, h3, h4) = concat (map word_bytes [h0, h1, h2, h3, h4])"

definition sha1 :: "u8 list \<Rightarrow> u8 list" where
  "sha1 input =
     (let message = sha1_message input
      in sha1_digest (fold (sha1_chunk message) (map (\<lambda>n. n * 64) [0..<length message div 64]) sha1_initial))"

section \<open>The text encoding\<close>

definition base64_alphabet :: string where
  "base64_alphabet = ''ABCDEFGHIJKLMNOPQRSTUVWXYZabcdefghijklmnopqrstuvwxyz0123456789+/''"

definition base64_char :: "u32 \<Rightarrow> nat \<Rightarrow> char" where
  "base64_char combined shift = base64_alphabet ! unat (drop_bit shift combined AND 0x3F)"

definition base64_group :: "u8 \<Rightarrow> u8 option \<Rightarrow> u8 option \<Rightarrow> string" where
  "base64_group first second third =
     (let byte = (\<lambda>b. case b of Some b \<Rightarrow> ucast b | None \<Rightarrow> 0);
          combined = push_bit 16 (ucast first) OR push_bit 8 (byte second) OR byte third
      in [base64_char combined 18, base64_char combined 12,
          if second \<noteq> None then base64_char combined 6 else CHR ''='',
          if third \<noteq> None then base64_char combined 0 else CHR ''='']) "

fun base64_encode :: "u8 list \<Rightarrow> string" where
  "base64_encode [] = []"
| "base64_encode [a] = base64_group a None None"
| "base64_encode [a, b] = base64_group a (Some b) None"
| "base64_encode (a # b # c # input) = base64_group a (Some b) (Some c) @ base64_encode input"

section \<open>The accept key\<close>

definition websocket_guid :: string where
  "websocket_guid = ''258EAFA5-E914-47DA-95CA-C5AB0DC85B11''"

definition websocket_accept_key :: "string \<Rightarrow> string" where
  "websocket_accept_key client_key =
     (let source = client_key @ websocket_guid in base64_encode (sha1 (map byte_of_char source)))"

end
