(* ===== verification/Rfc_Standards.thy ===== *)
theory Rfc_Standards
  imports "HOL-Library.Word"
begin

unbundle bit_operations_syntax

text \<open>
  The standards behind the opening handshake of a WebSocket, written down from their texts and apart from the program:
  the digest SHA-1 (RFC 3174), the text encoding base64 (RFC 4648) and the accept key with the answer of the
  server (RFC 6455). Nothing in this theory refers to the model of the program, which is compared with it in
  \<open>Sha1_Properties\<close> and \<open>Websocket_Properties\<close>.
\<close>

section \<open>RFC 3174: SHA-1\<close>

text \<open>Numbers are written in bytes with the most significant byte first.\<close>

definition big_endian :: "nat \<Rightarrow> nat \<Rightarrow> 8 word list" where
  "big_endian n v = map (\<lambda>i. word_of_nat (v div 256 ^ i)) (rev [0..<n])"

definition number_of_bytes :: "8 word list \<Rightarrow> nat" where
  "number_of_bytes bs = foldl (\<lambda>v b. 256 * v + unat b) 0 bs"

text \<open>Section 4: a one bit, zeros up to eight bytes before the end of a block of 64, and the length in bits.\<close>

definition rfc3174_pad :: "8 word list \<Rightarrow> 8 word list" where
  "rfc3174_pad input =
     input @ [0x80] @ replicate ((119 - length input mod 64) mod 64) 0 @ big_endian 8 (8 * length input)"

text \<open>Section 5: the functions and the constants of the eighty steps.\<close>

definition rfc3174_f :: "nat \<Rightarrow> 32 word \<Rightarrow> 32 word \<Rightarrow> 32 word \<Rightarrow> 32 word" where
  "rfc3174_f t b c d =
     (if t < 20 then (b AND c) OR (NOT b AND d)
      else if 40 \<le> t \<and> t < 60 then (b AND c) OR (b AND d) OR (c AND d)
      else b XOR c XOR d)"

definition rfc3174_k :: "nat \<Rightarrow> 32 word" where
  "rfc3174_k t = [0x5A827999, 0x6ED9EBA1, 0x8F1BBCDC, 0xCA62C1D6] ! (t div 20)"

text \<open>Section 6.1: the words of a block, the eighty steps, and the sum with the state before the block.\<close>

fun rfc3174_w :: "8 word list \<Rightarrow> nat \<Rightarrow> 32 word" where
  "rfc3174_w block t = (if t < 16 then word_of_nat (number_of_bytes (take 4 (drop (4 * t) block)))
     else word_rotl 1 (rfc3174_w block (t - 3) XOR rfc3174_w block (t - 8) XOR
       rfc3174_w block (t - 14) XOR rfc3174_w block (t - 16)))"

declare rfc3174_w.simps [simp del]

type_synonym rfc3174_state = "32 word \<times> 32 word \<times> 32 word \<times> 32 word \<times> 32 word"

fun rfc3174_steps :: "8 word list \<Rightarrow> nat \<Rightarrow> rfc3174_state \<Rightarrow> rfc3174_state" where
  "rfc3174_steps block 0 h = h"
| "rfc3174_steps block (Suc t) h =
     (case rfc3174_steps block t h of (a, b, c, d, e) \<Rightarrow>
        (word_rotl 5 a + rfc3174_f t b c d + e + rfc3174_w block t + rfc3174_k t, a, word_rotl 30 b, c, d))"

definition rfc3174_block :: "rfc3174_state \<Rightarrow> 8 word list \<Rightarrow> rfc3174_state" where
  "rfc3174_block h block =
     (case (h, rfc3174_steps block 80 h) of ((h0, h1, h2, h3, h4), (a, b, c, d, e)) \<Rightarrow>
        (h0 + a, h1 + b, h2 + c, h3 + d, h4 + e))"

fun rfc3174_blocks :: "nat \<Rightarrow> 8 word list \<Rightarrow> 8 word list list" where
  "rfc3174_blocks 0 message = []"
| "rfc3174_blocks (Suc n) message = take 64 message # rfc3174_blocks n (drop 64 message)"

definition rfc3174_sha1 :: "8 word list \<Rightarrow> 8 word list" where
  "rfc3174_sha1 input =
     (let message = rfc3174_pad input in
      case foldl rfc3174_block (0x67452301, 0xEFCDAB89, 0x98BADCFE, 0x10325476, 0xC3D2E1F0)
        (rfc3174_blocks (length message div 64) message) of
        (h0, h1, h2, h3, h4) \<Rightarrow> concat (map (\<lambda>h. big_endian 4 (unat h)) [h0, h1, h2, h3, h4]))"

section \<open>RFC 4648: base64\<close>

text \<open>
  The bits of the input, first bit first, in groups of six, the last one filled up with zeros; each group is a
  character; equal signs fill the text up to a multiple of four characters.
\<close>

definition bits_of_byte :: "8 word \<Rightarrow> bool list" where
  "bits_of_byte b = map (bit b) (rev [0..<8])"

definition number_of_bits :: "bool list \<Rightarrow> nat" where
  "number_of_bits bs = foldl (\<lambda>v x. 2 * v + of_bool x) 0 bs"

function sextets :: "bool list \<Rightarrow> nat list" where
  "sextets [] = []"
| "sextets (b # bs) =
     number_of_bits (take 6 (b # bs @ [False, False, False, False, False])) # sextets (drop 5 bs)"
  by pat_completeness auto
termination
  by (relation "measure length") auto

definition rfc4648_char :: "nat \<Rightarrow> char" where
  "rfc4648_char v =
     (if v < 26 then char_of (v + of_char (CHR ''A''))
      else if v < 52 then char_of (v - 26 + of_char (CHR ''a''))
      else if v < 62 then char_of (v - 52 + of_char (CHR ''0''))
      else if v = 62 then CHR ''+'' else CHR ''/'')"

definition rfc4648_base64 :: "8 word list \<Rightarrow> string" where
  "rfc4648_base64 input =
     (let text = map rfc4648_char (sextets (concat (map bits_of_byte input)))
      in text @ replicate ((4 - length text mod 4) mod 4) (CHR ''=''))"

section \<open>RFC 6455: the opening handshake\<close>

definition ascii :: "string \<Rightarrow> 8 word list" where
  "ascii s = map (\<lambda>c. word_of_nat (of_char c)) s"

definition rfc6455_accept :: "string \<Rightarrow> string" where
  "rfc6455_accept key = rfc4648_base64 (rfc3174_sha1 (ascii (key @ ''258EAFA5-E914-47DA-95CA-C5AB0DC85B11'')))"

definition rfc6455_response :: "string \<Rightarrow> string" where
  "rfc6455_response key = (let crlf = [CHR 0x0D, CHR 0x0A] in
     ''HTTP/1.1 101 Switching Protocols'' @ crlf @ ''Upgrade: websocket'' @ crlf @ ''Connection: Upgrade'' @ crlf @
     ''Sec-WebSocket-Accept: '' @ rfc6455_accept key @ crlf @ crlf)"

text \<open>
  A request: a start line, which begins with a method and a space, headers, each a name, a colon, spaces or tabs,
  and a value, and a blank line at the end.
\<close>

type_synonym http_header = "string \<times> string \<times> string"

definition header_line :: "http_header \<Rightarrow> string" where
  "header_line = (\<lambda>(name, space, content). name @ '':'' @ space @ content)"

definition http_text :: "string \<Rightarrow> http_header list \<Rightarrow> string" where
  "http_text start headers = (let crlf = [CHR 0x0D, CHR 0x0A] in
     start @ crlf @ concat (map (\<lambda>h. header_line h @ crlf) headers) @ crlf)"

definition one_line :: "string \<Rightarrow> bool" where
  "one_line s \<longleftrightarrow> CHR 0x0D \<notin> set s \<and> CHR 0x0A \<notin> set s"

definition start_line_ok :: "string \<Rightarrow> bool" where
  "start_line_ok start \<longleftrightarrow> one_line start \<and> CHR '' '' \<in> set (takeWhile (\<lambda>c. c \<noteq> CHR '':'') start)"

definition header_ok :: "http_header \<Rightarrow> bool" where
  "header_ok = (\<lambda>(name, space, content). one_line name \<and> one_line content \<and> CHR '':'' \<notin> set name \<and>
     set space \<subseteq> {CHR '' '', CHR 0x09} \<and> (content = [] \<or> hd content \<notin> {CHR '' '', CHR 0x09}))"

text \<open>The content of the first header with a name.\<close>

definition header_content :: "string \<Rightarrow> http_header list \<Rightarrow> string option" where
  "header_content name headers = map_of (map (\<lambda>(n, _, c). (n, c)) headers) name"

end
