(* ===== verification/Sha1_Properties.thy ===== *)
theory Sha1_Properties
  imports Sha1 Rfc_Standards
begin

unbundle bit_operations_syntax

text \<open>
  The accept key of the handshake against the standards, which \<open>Rfc_Standards\<close> writes down on their own: the digest is
  that of RFC 3174, the text that of RFC 4648.
\<close>

section \<open>The text encoding\<close>

lemma foldl_horner: "number_of_bits (rev bs) = horner_sum of_bool (2 :: nat) bs"
  by (induction bs) (simp_all add: number_of_bits_def)

lemma six_bits: "unat (drop_bit shift (c :: u32) AND 0x3F) =
  number_of_bits (map (\<lambda>i. bit c (shift + i)) [5, 4, 3, 2, 1, 0])"
proof -
  have "drop_bit shift c AND 0x3F = take_bit 6 (drop_bit shift c)" by (simp add: take_bit_eq_mask mask_eq_exp_minus_1)
  then have "unat (drop_bit shift c AND 0x3F) = take_bit 6 (unat (drop_bit shift c))" by (simp add: unsigned_take_bit_eq)
  also have "\<dots> = horner_sum of_bool 2 (map (bit (unat (drop_bit shift c))) [0..<6])" by (simp add: horner_sum_bit_eq_take_bit)
  also have "map (bit (unat (drop_bit shift c))) [0..<6] = rev (map (\<lambda>i. bit c (shift + i)) [5, 4, 3, 2, 1, 0])"
  proof -
    have "[0..<6] = [0, 1, 2, 3, 4, 5 :: nat]" by code_simp
    then show ?thesis by (simp add: bit_unsigned_iff bit_drop_bit_eq)
  qed
  finally show ?thesis using foldl_horner [of "rev (map (\<lambda>i. bit c (shift + i)) [5, 4, 3, 2, 1, 0])"] by simp
qed

lemma alphabet_standard: "v < 64 \<Longrightarrow> base64_alphabet ! v = rfc4648_char v"
proof -
  have "\<forall>v\<in>set [0..<64]. base64_alphabet ! v = rfc4648_char v" by code_simp
  then show "v < 64 \<Longrightarrow> base64_alphabet ! v = rfc4648_char v" by simp
qed

lemma bools_less_64: "number_of_bits [b5, b4, b3, b2, b1, b0] < 64"
  by (cases b5; cases b4; cases b3; cases b2; cases b1; cases b0) (simp_all add: number_of_bits_def)

lemma base64_char_bits:
  "base64_char c shift = rfc4648_char (number_of_bits (map (\<lambda>i. bit c (shift + i)) [5, 4, 3, 2, 1, 0]))"
  unfolding base64_char_def six_bits list.map by (rule alphabet_standard [OF bools_less_64])

lemma bits_of_byte_list: "bits_of_byte a = map (bit a) [7, 6, 5, 4, 3, 2, 1, 0]"
proof -
  have "rev [0..<8] = [7, 6, 5, 4, 3, 2, 1, 0 :: nat]" by code_simp
  then show ?thesis by (simp add: bits_of_byte_def)
qed

lemma u8_high: "8 \<le> k \<Longrightarrow> \<not> bit (a :: u8) k"
  using bit_u8_less [of a k] by auto

lemmas combined_bits = bit_or_iff bit_push_bit_iff bit_unsigned_iff u8_high

lemma sextets_byte:
  "sextets (bits_of_byte a) =
     [number_of_bits (map (bit a) [7, 6, 5, 4, 3, 2]),
      number_of_bits [bit a 1, bit a 0, False, False, False, False]]"
  by (simp add: bits_of_byte_list)

lemma sextets_two_bytes:
  "sextets (bits_of_byte a @ bits_of_byte b) =
     [number_of_bits (map (bit a) [7, 6, 5, 4, 3, 2]),
      number_of_bits [bit a 1, bit a 0, bit b 7, bit b 6, bit b 5, bit b 4],
      number_of_bits [bit b 3, bit b 2, bit b 1, bit b 0, False, False]]"
  by (simp add: bits_of_byte_list)

lemma sextets_three_bytes:
  "sextets (bits_of_byte a @ bits_of_byte b @ bits_of_byte c @ bs) =
     [number_of_bits (map (bit a) [7, 6, 5, 4, 3, 2]),
      number_of_bits [bit a 1, bit a 0, bit b 7, bit b 6, bit b 5, bit b 4],
      number_of_bits [bit b 3, bit b 2, bit b 1, bit b 0, bit c 7, bit c 6],
      number_of_bits (map (bit c) [5, 4, 3, 2, 1, 0])] @ sextets bs"
  by (simp add: bits_of_byte_list)

lemma base64_group_standard:
  "base64_group a None None = rfc4648_base64 [a]"
  "base64_group a (Some b) None = rfc4648_base64 [a, b]"
  "base64_group a (Some b) (Some c) = map rfc4648_char (sextets (concat (map bits_of_byte [a, b, c])))"
  using sextets_three_bytes [of a b c "[]"]
  by (simp_all add: rfc4648_base64_def sextets_byte sextets_two_bytes base64_group_def Let_def base64_char_bits combined_bits
      numeral_2_eq_2)

lemma base64_standard: "base64_encode input = rfc4648_base64 input"
proof (induction input rule: base64_encode.induct)
  case 1
  show ?case by (simp add: rfc4648_base64_def)
next
  case (4 a b c input)
  have "sextets (concat (map bits_of_byte (a # b # c # input))) =
      sextets (concat (map bits_of_byte [a, b, c])) @ sextets (concat (map bits_of_byte input))"
    using sextets_three_bytes [of a b c "concat (map bits_of_byte input)"] sextets_three_bytes [of a b c "[]"] by simp
  moreover have "length (sextets (concat (map bits_of_byte [a, b, c]))) = 4"
    using sextets_three_bytes [of a b c "[]"] by simp
  ultimately show ?case
    using 4 by (simp add: base64_group_standard rfc4648_base64_def Let_def del: list.map concat.simps)
qed (simp_all add: base64_group_standard)

lemma length_base64_encode: "length (base64_encode input) = (length input + 2) div 3 * 4"
proof (induction input rule: base64_encode.induct)
  case (4 a b c input)
  have "(length input + 5) div 3 = (length input + 2) div 3 + 1" by presburger
  then show ?case using 4 by (simp add: base64_group_def Let_def add.commute)
qed (simp_all add: base64_group_def Let_def)

section \<open>The digest\<close>

lemma rotate_left_rotl:
  assumes "0 < n" "n < 32"
  shows "rotate_left v n = word_rotl n v"
proof (rule bit_word_eqI)
  fix i
  assume "i < LENGTH(32)"
  then have i: "i < 32" by simp
  show "bit (rotate_left v n) i = bit (word_rotl n v) i"
  proof (cases "n \<le> i")
    case True
    have "(i + (32 - n)) mod 32 = (i - n + 32) mod 32" using True assms by simp
    then have "(i + (32 - n)) mod 32 = i - n" using i by simp
    moreover have "\<not> bit v (32 - n + i)" using True assms by (auto dest: bit_imp_le_length)
    ultimately show ?thesis
      using True assms i by (simp add: rotate_left_def bit_or_iff bit_push_bit_iff bit_drop_bit_eq bit_word_rotl_iff)
  next
    case False
    then have "(i + (32 - n)) mod 32 = 32 - n + i" using assms by simp
    then show ?thesis
      using False assms i by (simp add: rotate_left_def bit_or_iff bit_push_bit_iff bit_drop_bit_eq bit_word_rotl_iff)
  qed
qed
subsection \<open>The padding\<close>

lemma sha1_zeros_replicate: "sha1_zeros n = replicate (if n mod 64 \<le> 56 then 56 - n mod 64 else 120 - n mod 64) 0"
proof (induction n rule: sha1_zeros.induct)
  case (1 n)
  have r: "n mod 64 < 64" and step: "(n + 1) mod 64 = (if n mod 64 = 63 then 0 else n mod 64 + 1)"
    by (simp_all add: mod_Suc)
  show ?case
  proof (cases "n mod 64 = 56")
    case True
    then show ?thesis by (simp add: sha1_zeros.simps [of n])
  next
    case False
    let ?k = "\<lambda>n. if n mod 64 \<le> 56 then 56 - n mod 64 else 120 - n mod (64 :: nat)"
    have "?k n = Suc (?k (n + 1))"
      unfolding step using False r by (cases "n mod 64 = 63"; cases "n mod 64 < 56") auto
    moreover have "sha1_zeros n = 0 # replicate (?k (n + 1)) 0" using 1 [OF False] False by (simp add: sha1_zeros.simps [of n])
    ultimately show ?thesis by (simp only: replicate_Suc)
  qed
qed

lemma byte_of_word: "ucast (drop_bit (8 * i) (v :: 'a::len word) AND 0xFF) = (word_of_nat (unat v div 256 ^ i) :: u8)"
proof -
  have mask: "(0xFF :: 'a word) = mask 8" by (simp add: mask_eq_exp_minus_1)
  have "ucast (drop_bit (8 * i) v AND 0xFF) = (ucast (drop_bit (8 * i) v) :: u8)"
    unfolding mask by (rule bit_word_eqI) (auto simp: bit_simps dest: bit_imp_le_length)
  also have "\<dots> = word_of_nat (unat (drop_bit (8 * i) v))" by simp
  also have "unat (drop_bit (8 * i) v) = unat v div 256 ^ i"
    by (simp only: unsigned_drop_bit_eq drop_bit_eq_div [where 'a = nat] power_mult) (simp add: take_bit_nat_eq_self)
  finally show ?thesis .
qed

lemma eight: "rev [0..<8] = [7, 6, 5, 4, 3, 2, 1, 0 :: nat]" and four: "rev [0..<4] = [3, 2, 1, 0 :: nat]"
  by code_simp+

lemma length_bytes_big_endian: "length_bytes v = big_endian 8 (unat v)"
  using byte_of_word [of 7 v] byte_of_word [of 6 v] byte_of_word [of 5 v] byte_of_word [of 4 v]
    byte_of_word [of 3 v] byte_of_word [of 2 v] byte_of_word [of 1 v] byte_of_word [of 0 v]
  unfolding length_bytes_def big_endian_def by (simp add: eight)

lemma word_bytes_big_endian: "word_bytes v = big_endian 4 (unat v)"
  using byte_of_word [of 3 v] byte_of_word [of 2 v] byte_of_word [of 1 v] byte_of_word [of 0 v]
  unfolding word_bytes_def big_endian_def by (simp add: four)

text \<open>The length field of the standard and the 64-bit counter of the code agree, whatever the length.\<close>

lemma big_endian_mod: "big_endian n (v mod 256 ^ n) = big_endian n v"
proof -
  have "word_of_nat (v mod 256 ^ n div 256 ^ i) = (word_of_nat (v div 256 ^ i) :: 8 word)" if "i < n" for i
  proof -
    have "(256 :: nat) ^ n = 256 ^ i * 256 ^ (n - i)" using that by (simp flip: power_add)
    then have "v mod 256 ^ n div 256 ^ i = v div 256 ^ i mod 256 ^ (n - i)" by (simp add: mod_mult2_eq)
    moreover have "x mod 256 ^ (n - i) mod 256 = x mod 256" for x :: nat
      using that by (intro mod_mod_cancel) (simp add: le_imp_power_dvd dvd_power)
    ultimately show ?thesis by (simp add: word_unat_eq_iff unat_of_nat)
  qed
  then show ?thesis by (simp add: big_endian_def)
qed

lemma sha1_message_pad: "sha1_message input = rfc3174_pad input"
proof -
  let ?r = "length input mod 64"
  have r: "?r < 64" and step: "(length input + 1) mod 64 = (if ?r = 63 then 0 else ?r + 1)" by (simp_all add: mod_Suc)
  have "(if (length input + 1) mod 64 \<le> 56 then 56 - (length input + 1) mod 64 else 120 - (length input + 1) mod 64) =
      (119 - ?r) mod 64"
    unfolding step using r by (cases "?r = 63"; cases "?r \<le> 55") (simp_all add: le_mod_geq)
  then have "sha1_zeros (length (input @ [0x80])) = replicate ((119 - ?r) mod 64) 0"
    by (simp only: sha1_zeros_replicate length_append list.size One_nat_def add_0 add_Suc_right add_0_right)
  moreover have "length_bytes (word_of_nat (length input) * 8) = big_endian 8 (8 * length input)"
    using big_endian_mod [of 8 "8 * length input"]
    by (simp add: length_bytes_big_endian unat_word_ariths unat_of_nat mult.commute mod_mult_right_eq)
  ultimately show ?thesis by (simp add: sha1_message_def rfc3174_pad_def Let_def)
qed

subsection \<open>The schedule\<close>

lemma push_byte: "push_bit 8 x OR ucast (b :: u8) = (256 * x + ucast b :: u32)"
proof -
  have "push_bit 8 x AND ucast b = (0 :: u32)"
    by (rule bit_word_eqI) (auto simp: bit_simps dest: bit_u8_less)
  then show ?thesis by (simp add: push_bit_eq_mult mult.commute flip: disjunctive_add_eq_or)
qed

lemma push_bytes: "push_bit 24 (ucast a) OR push_bit 16 (ucast b) OR push_bit 8 (ucast c) OR (ucast d :: u32) =
  word_of_nat (number_of_bytes [a, b, c, d])" for a b c d :: u8
proof -
  have "push_bit 24 (ucast a) OR push_bit 16 (ucast b) OR push_bit 8 (ucast c) OR (ucast d :: u32) =
      push_bit 8 (push_bit 8 (push_bit 8 (ucast a) OR ucast b) OR ucast c) OR ucast d"
    by (simp add: or.assoc)
  also have "\<dots> = 256 * (256 * (256 * ucast a + ucast b) + ucast c) + ucast d" by (simp only: push_byte)
  finally show ?thesis by (simp add: number_of_bytes_def)
qed

lemma sha1_word_number:
  assumes "t < 16" "64 \<le> length block"
  shows "sha1_word block (4 * t) = word_of_nat (number_of_bytes (take 4 (drop (4 * t) block)))"
proof -
  have "take 4 (drop (4 * t) block) = map (\<lambda>i. block ! (4 * t + i)) [0..<4]"
    using assms by (intro nth_equalityI) simp_all
  moreover have "[0..<4] = [0, 1, 2, 3 :: nat]" by code_simp
  ultimately show ?thesis by (simp add: sha1_word_def push_bytes)
qed

lemma sha1_words_schedule:
  assumes "t < 80" "64 \<le> length (drop chunk message)"
  shows "sha1_words message chunk ! t = rfc3174_w (take 64 (drop chunk message)) t"
proof -
  define w where "w = rfc3174_w (take 64 (drop chunk message))"
  define step where "step = (\<lambda>index (words :: u32 list). words[index := rotate_left (words ! (index - 3) XOR
    words ! (index - 8) XOR words ! (index - 14) XOR words ! (index - 16)) 1])"
  define init where "init = map (\<lambda>index. sha1_word message (chunk + index * 4)) [0..<16] @ replicate 64 (0 :: u32)"
  have first: "w t = sha1_word message (chunk + t * 4)" if "t < 16" for t
  proof -
    have "sha1_word message (chunk + t * 4) = sha1_word (take 64 (drop chunk message)) (4 * t)"
      using that assms(2) by (simp add: sha1_word_def algebra_simps)
    then show ?thesis
      using that assms(2) sha1_word_number [OF that, of "take 64 (drop chunk message)"]
      by (simp add: w_def rfc3174_w.simps [of _ t] min_absorb2)
  qed
  have "length (fold step [16..<n] init) = 80 \<and> (\<forall>t<n. fold step [16..<n] init ! t = w t)"
    if "16 \<le> n" "n \<le> 80" for n
    using that
  proof (induction n rule: dec_induct)
    case base
    show ?case using first by (simp add: init_def nth_append del: upt_rec_numeral)
  next
    case (step n)
    let ?ws = "fold step [16..<n] init"
    have len: "length ?ws = 80" and IH: "\<And>t. t < n \<Longrightarrow> ?ws ! t = w t" using step by simp_all
    have "[16..<Suc n] = [16..<n] @ [n]" using step(1) by simp
    then have fold: "fold step [16..<Suc n] init = step n ?ws" by (simp only: fold_append) simp
    have "w n = rotate_left (w (n - 3) XOR w (n - 8) XOR w (n - 14) XOR w (n - 16)) 1"
      unfolding w_def using step(1) by (subst rfc3174_w.simps) (simp add: rotate_left_rotl)
    moreover have "step n ws = ws[n := rotate_left (ws ! (n - 3) XOR ws ! (n - 8) XOR ws ! (n - 14) XOR ws ! (n - 16)) 1]"
      for ws by (simp add: step_def)
    ultimately have "step n ?ws = ?ws[n := w n]" using step(1) by (simp add: IH)
    then show ?case unfolding fold using len step(2,4) by (auto simp: nth_list_update IH less_Suc_eq)
  qed
  from this [of 80] show ?thesis
    using assms by (simp add: sha1_words_def step_def init_def w_def del: upt_rec_numeral)
qed

subsection \<open>Steps and blocks\<close>

lemma sha1_function_standard: "t < 80 \<Longrightarrow> sha1_function t b c d = (rfc3174_f t b c d, rfc3174_k t)"
proof -
  assume "t < 80"
  then consider "t < 20" "t div 20 = 0" | "20 \<le> t" "t < 40" "t div 20 = 1" | "40 \<le> t" "t < 60" "t div 20 = 2"
    | "60 \<le> t" "t div 20 = 3" by linarith
  then show ?thesis by cases (simp_all add: sha1_function_def rfc3174_f_def rfc3174_k_def)
qed

lemma sha1_rounds_standard:
  assumes "\<And>t. t < 80 \<Longrightarrow> words ! t = rfc3174_w block t" "n \<le> 80"
  shows "fold (sha1_round words) [0..<n] h = rfc3174_steps block n h"
  using assms(2)
proof (induction n)
  case (Suc n)
  then show ?case
    using assms(1) [of n]
    by (cases "rfc3174_steps block n h")
      (simp add: Let_def sha1_function_standard rotate_left_rotl add.commute add.left_commute add.assoc)
qed simp

lemma sha1_chunk_standard:
  assumes "64 \<le> length (drop chunk message)"
  shows "sha1_chunk message chunk h = rfc3174_block h (take 64 (drop chunk message))"
  unfolding sha1_chunk_def
  by (subst sha1_rounds_standard [OF sha1_words_schedule [OF _ assms]])
    (simp_all add: rfc3174_block_def split: prod.split)

lemma sha1_blocks_standard:
  assumes "(start + k) * 64 \<le> length message"
  shows "fold (sha1_chunk message) (map (\<lambda>n. n * 64) [start..<start + k]) h =
    foldl rfc3174_block h (rfc3174_blocks k (drop (start * 64) message))"
  using assms
proof (induction k arbitrary: start h)
  case (Suc k)
  have "sha1_chunk message (start * 64) h = rfc3174_block h (take 64 (drop (start * 64) message))"
    using Suc.prems by (intro sha1_chunk_standard) simp
  moreover have "fold (sha1_chunk message) (map (\<lambda>n. n * 64) [Suc start..<Suc start + k]) h' =
      foldl rfc3174_block h' (rfc3174_blocks k (drop (Suc start * 64) message))" for h'
    using Suc.prems by (intro Suc.IH) simp
  moreover have "[start..<start + Suc k] = start # [Suc start..<Suc start + k]" by (simp add: upt_conv_Cons)
  ultimately show ?case by (simp add: add.commute del: upt_Suc)
qed simp

lemma sha1_digest_standard:
  "sha1_digest h = (case h of (h0, h1, h2, h3, h4) \<Rightarrow> concat (map (\<lambda>h. big_endian 4 (unat h)) [h0, h1, h2, h3, h4]))"
  by (cases h) (simp add: word_bytes_big_endian)

lemma sha1_standard: "sha1 input = rfc3174_sha1 input"
proof -
  have "0 + length (rfc3174_pad input) div 64 * 64 \<le> length (rfc3174_pad input)" by simp
  then show ?thesis
    using sha1_blocks_standard [of 0 "length (rfc3174_pad input) div 64" "rfc3174_pad input" sha1_initial]
    by (simp add: sha1_def rfc3174_sha1_def sha1_message_pad sha1_digest_standard sha1_initial_def Let_def)
qed

section \<open>The accept key\<close>

lemma accept_key_rfc: "websocket_accept_key key = rfc6455_accept key"
proof -
  have "ascii s = map byte_of_char s" for s by (simp add: ascii_def byte_of_char_def)
  then show ?thesis
    by (simp only: websocket_accept_key_def rfc6455_accept_def websocket_guid_def base64_standard sha1_standard Let_def)
qed

text \<open>
  C31. The accept key of the handshake is the one of RFC 6455, for every key of the client: the base64 text (RFC 4648)
  of the SHA-1 digest (RFC 3174) of the client's key followed by the protocol's constant. It has 28 characters.
  The standards are written down in \<open>Rfc_Standards\<close> on their own, with their own constants and operations.
\<close>

theorem accept_key_standard:
  "websocket_accept_key key = rfc6455_accept key \<and> length (websocket_accept_key key) = 28"
proof -
  have "length (sha1 input) = 20" for input
    by (cases "fold (sha1_chunk (sha1_message input)) (map (\<lambda>n. n * 64) [0..<length (sha1_message input) div 64]) sha1_initial")
      (simp add: sha1_def Let_def word_bytes_def)
  then have "length (websocket_accept_key key) = 28"
    by (simp add: websocket_accept_key_def length_base64_encode Let_def)
  then show ?thesis by (simp add: accept_key_rfc)
qed

end
