(* ===== verification/Websocket.thy ===== *)
theory Websocket
  imports Sha1 Protocol Fix
begin

unbundle bit_operations_syntax

text \<open>
  The WebSocket gateway of \<^verbatim>\<open>include/exchange/websocket_gateway.hpp\<close> and \<^verbatim>\<open>src/websocket_gateway.cpp\<close>: it answers
  the opening handshake of browsers, turns every market data datagram of the exchange into a JSON text, forwards
  the JSON of the performance telemetry, and broadcasts both as text frames.

  The results of the system calls are arguments: \<open>sends n m\<close> is what the \<open>n\<close>th \<^verbatim>\<open>send\<close> of a transmission returns
  when \<open>m\<close> bytes are left, a list of texts is what successive \<^verbatim>\<open>recv\<close> calls return (the empty text for an error
  or the end of the stream). What is written to a socket and which sockets are closed is recorded in the state.
\<close>

section \<open>The request of the handshake\<close>

function getlines :: "string \<Rightarrow> string list" where
  "getlines [] = []"
| "getlines (c # s) =
     takeWhile (\<lambda>c. c \<noteq> CHR 0x0A) (c # s) # getlines (drop 1 (dropWhile (\<lambda>c. c \<noteq> CHR 0x0A) (c # s)))"
  by pat_completeness auto
termination
proof (relation "measure length")
  fix c :: char and s
  have "length (dropWhile (\<lambda>c. c \<noteq> CHR 0x0A) (c # s)) \<le> length (c # s)" by (rule length_dropWhile_le)
  then show "(drop 1 (dropWhile (\<lambda>c. c \<noteq> CHR 0x0A) (c # s)), c # s) \<in> measure length"
    unfolding in_measure length_drop by (simp only: list.size)
qed simp

declare getlines.simps(2) [simp del]

definition strip_cr :: "string \<Rightarrow> string" where
  "strip_cr line = (if line \<noteq> [] \<and> last line = CHR 0x0D then butlast line else line)"

definition line_value :: "string \<Rightarrow> string \<Rightarrow> string option" where
  "line_value name line =
     (case find_from (CHR '':'') 0 line of
        None \<Rightarrow> None
      | Some colon \<Rightarrow>
          if take colon line \<noteq> name then None
          else Some (dropWhile (\<lambda>c. c = CHR '' '' \<or> c = CHR 0x09) (drop (colon + 1) line)))"

fun header_value_loop :: "string \<Rightarrow> string list \<Rightarrow> string option" where
  "header_value_loop name [] = None"
| "header_value_loop name (line # lines) =
     (case line_value name (strip_cr line) of None \<Rightarrow> header_value_loop name lines | Some v \<Rightarrow> Some v)"

definition header_value :: "string \<Rightarrow> string \<Rightarrow> string option" where
  "header_value request header_name = header_value_loop header_name (getlines request)"

definition crlf :: string where "crlf = [CHR 0x0D, CHR 0x0A]"

datatype http_request = Waiting | Refused | Complete string

fun read_request :: "string \<Rightarrow> string list \<Rightarrow> http_request" where
  "read_request request chunks =
     (if find_text (crlf @ crlf) request \<noteq> None then Complete request
      else (case chunks of
        [] \<Rightarrow> Waiting
      | chunk # chunks \<Rightarrow>
          if chunk = [] then Refused
          else let request = request @ chunk in
            if length request > 16 * 1024 then Refused else read_request request chunks))"

declare read_request.simps [simp del]

section \<open>Sending\<close>

function send_all :: "(nat \<Rightarrow> nat \<Rightarrow> int) \<Rightarrow> nat \<Rightarrow> u8 list \<Rightarrow> bool \<times> u8 list" where
  "send_all sends n bytes =
     (if bytes = [] then (True, [])
      else let sent = sends n (length bytes) in
        if sent \<le> 0 then (False, [])
        else let (ok, written) = send_all sends (n + 1) (drop (nat sent) bytes)
          in (ok, take (nat sent) bytes @ written))"
  by pat_completeness auto
termination
  by (relation "measure (\<lambda>(sends, n, bytes). length bytes)") auto

declare send_all.simps [simp del]

definition text_bytes :: "string \<Rightarrow> u8 list" where
  "text_bytes s = map byte_of_char s"

definition handshake_response :: "string \<Rightarrow> string" where
  "handshake_response accept_key =
     ''HTTP/1.1 101 Switching Protocols'' @ crlf @ ''Upgrade: websocket'' @ crlf @ ''Connection: Upgrade'' @ crlf @
     ''Sec-WebSocket-Accept: '' @ accept_key @ crlf @ crlf"

text \<open>The result is \<open>None\<close> while the request is incomplete.\<close>

definition perform_handshake :: "(nat \<Rightarrow> nat \<Rightarrow> int) \<Rightarrow> string list \<Rightarrow> bool option \<times> u8 list" where
  "perform_handshake sends chunks =
     (case read_request [] chunks of
        Waiting \<Rightarrow> (None, [])
      | Refused \<Rightarrow> (Some False, [])
      | Complete request \<Rightarrow>
          (case header_value request ''Sec-WebSocket-Key'' of
             None \<Rightarrow> (Some False, [])
           | Some key \<Rightarrow>
               let (ok, written) = send_all sends 0 (text_bytes (handshake_response (websocket_accept_key key)))
               in (Some ok, written)))"

definition websocket_text_frame :: "string \<Rightarrow> u8 list" where
  "websocket_text_frame text =
     0x81 #
     (if length text \<le> 125 then [word_of_nat (length text)]
      else if length text \<le> 65535 then
        [126, word_of_nat (drop_bit 8 (length text)), word_of_nat (length text)]
      else 127 # map (\<lambda>shift. ucast (drop_bit shift (word_of_nat (length text) :: u64) AND 0xFF))
             [56, 48, 40, 32, 24, 16, 8, 0]) @
     text_bytes text"

section \<open>JSON\<close>

datatype json = JStr string | JInt int | JBool bool | JText string | JObj "(string \<times> json) list"

definition quoted :: "string \<Rightarrow> string" where
  "quoted s = CHR 0x22 # s @ [CHR 0x22]"

fun comma_separated :: "string list \<Rightarrow> string" where
  "comma_separated [] = []"
| "comma_separated [s] = s"
| "comma_separated (s # t # ss) = s @ '','' @ comma_separated (t # ss)"

fun json_text :: "json \<Rightarrow> string" where
  "json_text (JStr s) = quoted s"
| "json_text (JInt i) = decimal_int i"
| "json_text (JBool b) = (if b then ''true'' else ''false'')"
| "json_text (JText s) = s"
| "json_text (JObj ms) = ''{'' @ comma_separated (map (\<lambda>(k, v). quoted k @ '':'' @ json_text v) ms) @ ''}''"

abbreviation JNum :: "'a::len word \<Rightarrow> json" where
  "JNum w \<equiv> JInt (int (unat w))"

definition book_json :: "BookUpdate \<Rightarrow> (string \<times> json) list" where
  "book_json u =
     [(''type'', JStr ''book''), (''symbol'', JStr (symbol_to_string (bku_symbol u))),
      (''sequence'', JNum (bku_sequence_number u)), (''hasBid'', JBool (bku_has_bid u \<noteq> 0)),
      (''bestBid'', JInt (bku_best_bid u)), (''bidQuantity'', JNum (bku_bid_quantity u)),
      (''hasAsk'', JBool (bku_has_ask u \<noteq> 0)), (''bestAsk'', JInt (bku_best_ask u)),
      (''askQuantity'', JNum (bku_ask_quantity u))]"

definition add_json :: "Level3AddOrder \<Rightarrow> (string \<times> json) list" where
  "add_json e =
     [(''type'', JStr ''add''), (''symbol'', JStr (symbol_to_string (l3a_symbol e))),
      (''sequence'', JNum (l3a_sequence_number e)), (''orderId'', JNum (l3a_order_id e)),
      (''timestamp'', JNum (l3a_timestamp e)), (''price'', JInt (l3a_price e)),
      (''quantity'', JNum (l3a_quantity e)),
      (''side'', JStr (if l3a_side e = PBuy then ''BUY'' else ''SELL''))]"

definition execute_json :: "Level3OrderExecuted \<Rightarrow> (string \<times> json) list" where
  "execute_json e =
     [(''type'', JStr ''execute''), (''symbol'', JStr (symbol_to_string (l3e_symbol e))),
      (''sequence'', JNum (l3e_sequence_number e)), (''buyOrderId'', JNum (l3e_buy_order_id e)),
      (''sellOrderId'', JNum (l3e_sell_order_id e)), (''price'', JInt (l3e_price e)),
      (''quantity'', JNum (l3e_quantity e))]"

definition delete_json :: "Level3OrderDeleted \<Rightarrow> (string \<times> json) list" where
  "delete_json e =
     [(''type'', JStr ''delete''), (''symbol'', JStr (symbol_to_string (l3d_symbol e))),
      (''sequence'', JNum (l3d_sequence_number e)), (''orderId'', JNum (l3d_order_id e))]"

definition market_data_to_json :: "u8 list \<Rightarrow> string" where
  "market_data_to_json datagram =
     (if length datagram < header_size then []
      else (case decode_header (take header_size datagram) of
        None \<Rightarrow> []
      | Some header \<Rightarrow>
          if length datagram \<noteq> header_size + unat (hdr_body_size header) then []
          else let body = take (unat (hdr_body_size header)) (drop header_size datagram);
              text = (\<lambda>event. case event of None \<Rightarrow> [] | Some members \<Rightarrow> json_text (JObj members))
            in (case hdr_type header of
                  MT_BookUpdate \<Rightarrow> text (map_option book_json (decode_book_update body))
                | MT_Level3AddOrder \<Rightarrow> text (map_option add_json (decode_level3_add_order body))
                | MT_Level3OrderExecuted \<Rightarrow> text (map_option execute_json (decode_level3_order_executed body))
                | MT_Level3OrderDeleted \<Rightarrow> text (map_option delete_json (decode_level3_order_deleted body))
                | _ \<Rightarrow> [])))"

section \<open>The gateway\<close>

record WebSocketGateway =
  wg_listen_socket :: int
  wg_multicast_socket :: int
  wg_performance_socket :: int
  wg_running :: bool
  wg_clients :: "int list"
  wg_written :: "(int \<times> u8 list) list"
  wg_closed :: "int list"

definition new_gateway :: WebSocketGateway where
  "new_gateway = \<lparr>wg_listen_socket = -1, wg_multicast_socket = -1, wg_performance_socket = -1, wg_running = False,
     wg_clients = [], wg_written = [], wg_closed = []\<rparr>"

definition close_socket :: "int \<Rightarrow> WebSocketGateway \<Rightarrow> WebSocketGateway" where
  "close_socket s g = g\<lparr>wg_closed := wg_closed g @ [s]\<rparr>"

text \<open>The system calls of the three listeners, in the order of the code.\<close>

record open_calls =
  oc_socket :: int
  oc_reuse :: bool
  oc_bind :: bool
  oc_listen :: bool
  oc_group :: bool
  oc_membership :: bool

definition open_websocket_listener :: "open_calls \<Rightarrow> WebSocketGateway \<Rightarrow> bool \<times> WebSocketGateway" where
  "open_websocket_listener calls g =
     (let g = g\<lparr>wg_listen_socket := oc_socket calls\<rparr> in
      if oc_socket calls < 0 then (False, g)
      else if \<not> oc_bind calls \<or> \<not> oc_listen calls
        then (False, (close_socket (oc_socket calls) g)\<lparr>wg_listen_socket := -1\<rparr>)
      else (True, g))"

definition open_multicast_receiver :: "open_calls \<Rightarrow> WebSocketGateway \<Rightarrow> bool \<times> WebSocketGateway" where
  "open_multicast_receiver calls g =
     (let g = g\<lparr>wg_multicast_socket := oc_socket calls\<rparr> in
      if oc_socket calls < 0 then (False, g)
      else if \<not> oc_reuse calls \<or> \<not> oc_bind calls \<or> \<not> oc_group calls \<or> \<not> oc_membership calls
        then (False, (close_socket (oc_socket calls) g)\<lparr>wg_multicast_socket := -1\<rparr>)
      else (True, g))"

definition open_performance_receiver :: "open_calls \<Rightarrow> WebSocketGateway \<Rightarrow> bool \<times> WebSocketGateway" where
  "open_performance_receiver calls g =
     (let g = g\<lparr>wg_performance_socket := oc_socket calls\<rparr> in
      if oc_socket calls < 0 then (False, g)
      else if \<not> oc_reuse calls \<or> \<not> oc_bind calls
        then (False, (close_socket (oc_socket calls) g)\<lparr>wg_performance_socket := -1\<rparr>)
      else (True, g))"

definition close_open :: "int \<Rightarrow> WebSocketGateway \<Rightarrow> WebSocketGateway" where
  "close_open s g = (if s \<ge> 0 then close_socket s g else g)"

definition stop_gateway :: "WebSocketGateway \<Rightarrow> WebSocketGateway" where
  "stop_gateway g =
     (let g = g\<lparr>wg_running := False\<rparr>;
          g = close_open (wg_listen_socket g) g;
          g = close_open (wg_multicast_socket g) g;
          g = close_open (wg_performance_socket g) g;
          open_or_closed = (\<lambda>s. if s \<ge> 0 then -1 else s)
      in g\<lparr>wg_listen_socket := open_or_closed (wg_listen_socket g),
           wg_multicast_socket := open_or_closed (wg_multicast_socket g),
           wg_performance_socket := open_or_closed (wg_performance_socket g),
           wg_closed := wg_closed g @ wg_clients g, wg_clients := []\<rparr>)"

definition start_gateway ::
  "open_calls \<Rightarrow> open_calls \<Rightarrow> open_calls \<Rightarrow> bool \<Rightarrow> WebSocketGateway \<Rightarrow> bool \<times> WebSocketGateway" where
  "start_gateway listener multicast performance threads g =
     (if wg_running g then (True, g)
      else case open_websocket_listener listener g of
        (False, g) \<Rightarrow> (False, g)
      | (True, g) \<Rightarrow>
          (case open_multicast_receiver multicast g of
             (False, g) \<Rightarrow> (False, (close_socket (wg_listen_socket g) g)\<lparr>wg_listen_socket := -1\<rparr>)
           | (True, g) \<Rightarrow>
               (case open_performance_receiver performance g of
                  (False, g) \<Rightarrow>
                    (False, (close_socket (wg_listen_socket g) (close_socket (wg_multicast_socket g) g))
                       \<lparr>wg_multicast_socket := -1, wg_listen_socket := -1\<rparr>)
                | (True, g) \<Rightarrow>
                    let g = g\<lparr>wg_running := True\<rparr>
                    in if threads then (True, g) else (False, stop_gateway g))))"

text \<open>One round of the accept loop, for a connection whose handshake has ended.\<close>

definition accept_client :: "int \<Rightarrow> (nat \<Rightarrow> nat \<Rightarrow> int) \<Rightarrow> string list \<Rightarrow> WebSocketGateway \<Rightarrow> WebSocketGateway" where
  "accept_client client sends chunks g =
     (let (result, written) = perform_handshake sends chunks; g = g\<lparr>wg_written := wg_written g @ [(client, written)]\<rparr>
      in case result of
           Some True \<Rightarrow> g\<lparr>wg_clients := wg_clients g @ [client]\<rparr>
         | Some False \<Rightarrow> close_socket client g
         | None \<Rightarrow> g)"

fun broadcast_loop ::
  "(int \<Rightarrow> nat \<Rightarrow> nat \<Rightarrow> int) \<Rightarrow> u8 list \<Rightarrow> int list \<Rightarrow> WebSocketGateway \<Rightarrow> WebSocketGateway" where
  "broadcast_loop sends frame [] g = g"
| "broadcast_loop sends frame (client # clients) g =
     (let (ok, written) = send_all (sends client) 0 frame;
          g = g\<lparr>wg_written := wg_written g @ [(client, written)]\<rparr>
      in broadcast_loop sends frame clients
           (if ok then g\<lparr>wg_clients := wg_clients g @ [client]\<rparr> else close_socket client g))"

definition broadcast_text :: "(int \<Rightarrow> nat \<Rightarrow> nat \<Rightarrow> int) \<Rightarrow> string \<Rightarrow> WebSocketGateway \<Rightarrow> WebSocketGateway" where
  "broadcast_text sends text g = broadcast_loop sends (websocket_text_frame text) (wg_clients g) (g\<lparr>wg_clients := []\<rparr>)"

text \<open>One datagram of the two receiving loops, cut off at the size of their buffers.\<close>

definition multicast_datagram :: "(int \<Rightarrow> nat \<Rightarrow> nat \<Rightarrow> int) \<Rightarrow> u8 list \<Rightarrow> WebSocketGateway \<Rightarrow> WebSocketGateway" where
  "multicast_datagram sends datagram g =
     (let text = market_data_to_json (take 2048 datagram) in if text \<noteq> [] then broadcast_text sends text g else g)"

definition performance_marker :: string where
  "performance_marker = quoted ''type'' @ '':'' @ quoted ''performance''"

definition performance_datagram :: "(int \<Rightarrow> nat \<Rightarrow> nat \<Rightarrow> int) \<Rightarrow> string \<Rightarrow> WebSocketGateway \<Rightarrow> WebSocketGateway" where
  "performance_datagram sends datagram g =
     (let text = take 8192 datagram in if find_text performance_marker text \<noteq> None then broadcast_text sends text g else g)"

section \<open>The loops\<close>

text \<open>
  The receiving loops, on the list of what successive \<^verbatim>\<open>recv\<close> calls return: the empty list stands for a result
  that is not positive, which is an error or a datagram without content. The \<open>k\<close>th argument of \<open>sends\<close> gives the
  results of the transmissions of the \<open>k\<close>th datagram.
\<close>

fun multicast_loop ::
  "(nat \<Rightarrow> int \<Rightarrow> nat \<Rightarrow> nat \<Rightarrow> int) \<Rightarrow> nat \<Rightarrow> u8 list list \<Rightarrow> WebSocketGateway \<Rightarrow> WebSocketGateway" where
  "multicast_loop sends k [] g = g"
| "multicast_loop sends k (datagram # datagrams) g =
     (if \<not> wg_running g \<or> datagram = [] then g
      else multicast_loop sends (k + 1) datagrams (multicast_datagram (sends k) datagram g))"

fun performance_loop ::
  "(nat \<Rightarrow> int \<Rightarrow> nat \<Rightarrow> nat \<Rightarrow> int) \<Rightarrow> nat \<Rightarrow> string list \<Rightarrow> WebSocketGateway \<Rightarrow> WebSocketGateway" where
  "performance_loop sends k [] g = g"
| "performance_loop sends k (datagram # datagrams) g =
     (if \<not> wg_running g \<or> datagram = [] then g
      else performance_loop sends (k + 1) datagrams (performance_datagram (sends k) datagram g))"

text \<open>
  The accept loop, on the connections that \<^verbatim>\<open>accept\<close> returns, each with the results of its \<^verbatim>\<open>send\<close> and \<^verbatim>\<open>recv\<close>
  calls. While the handshake of a connection waits for input, so does the loop.
\<close>

fun accept_loop :: "(int \<times> (nat \<Rightarrow> nat \<Rightarrow> int) \<times> string list) list \<Rightarrow> WebSocketGateway \<Rightarrow> WebSocketGateway" where
  "accept_loop [] g = g"
| "accept_loop ((client, sends, chunks) # connections) g =
     (if \<not> wg_running g \<or> client < 0 then g
      else if fst (perform_handshake sends chunks) = None then accept_client client sends chunks g
      else accept_loop connections (accept_client client sends chunks g))"

end
