(* ===== verification/Websocket_Properties.thy ===== *)
theory Websocket_Properties
  imports Sha1_Properties Websocket "HOL-Library.Monad_Syntax"
begin

text \<open>
  The properties of the WebSocket gateway: its text frames and JSON texts read back to what they were made from,
  the handshake depends on the request and not on how it arrives, and a broadcast reaches every client it keeps.
\<close>

section \<open>Transmissions\<close>

lemma send_all_written: "prefix (snd (send_all sends n bytes)) bytes \<and>
  (fst (send_all sends n bytes) \<longrightarrow> snd (send_all sends n bytes) = bytes)"
proof (induction sends n bytes rule: send_all.induct)
  case (1 sends n bytes)
  show ?case
  proof (cases "bytes = [] \<or> sends n (length bytes) \<le> 0")
    case True
    then show ?thesis by (auto simp: send_all.simps [of sends n bytes] Let_def)
  next
    case False
    let ?k = "nat (sends n (length bytes))"
    have step: "send_all sends n bytes =
        (fst (send_all sends (n + 1) (drop ?k bytes)), take ?k bytes @ snd (send_all sends (n + 1) (drop ?k bytes)))"
      using False by (subst send_all.simps) (simp add: Let_def split_beta)
    have IH: "prefix (snd (send_all sends (n + 1) (drop ?k bytes))) (drop ?k bytes) \<and>
      (fst (send_all sends (n + 1) (drop ?k bytes)) \<longrightarrow> snd (send_all sends (n + 1) (drop ?k bytes)) = drop ?k bytes)"
      using 1 False by simp
    have "prefix (take ?k bytes @ snd (send_all sends (n + 1) (drop ?k bytes))) (take ?k bytes @ drop ?k bytes)"
      using IH by (simp only: same_prefix_prefix)
    then show ?thesis using IH unfolding step by simp
  qed
qed

section \<open>Text frames\<close>

text \<open>A reader of unmasked text frames after RFC 6455, section 5.2; lengths are in network byte order.\<close>

definition read_frame :: "u8 list \<Rightarrow> (string \<times> u8 list) option" where
  "read_frame bytes =
     (case bytes of
        opcode # len # rest \<Rightarrow>
          let (n, payload) =
            (if len = 126 then (unat (bytes_int (rev (take 2 rest)) :: u16), drop 2 rest)
             else if len = 127 then (unat (bytes_int (rev (take 8 rest)) :: u64), drop 8 rest)
             else (unat len, rest))
          in if opcode \<noteq> 0x81 \<or> len \<ge> 128 \<or> length payload < n then None
             else Some (map char_of_byte (take n payload), drop n payload)
      | _ \<Rightarrow> None)"

lemma length_u64_bytes:
  "map (\<lambda>shift. ucast (drop_bit shift (v :: u64) AND 0xFF)) [56, 48, 40, 32, 24, 16, 8, 0] = rev (int_bytes v)"
  by (simp add: int_bytes_def upt_rec)

lemma bit_word_of_nat: "bit (word_of_nat n :: 'b::len word) m \<longleftrightarrow> m < LENGTH('b) \<and> bit n m"
  by transfer (simp add: bit_take_bit_iff bit_of_nat_iff_bit)

lemma length_u16_bytes: "[word_of_nat (drop_bit 8 n), word_of_nat n] = rev (int_bytes (word_of_nat n :: u16))"
proof -
  have low: "(word_of_nat n :: u8) = ucast ((word_of_nat n :: u16) AND 0xFF)"
    by (rule bit_word_eqI) (simp only: bit_unsigned_iff bit_and_iff bit_word_of_nat bit_mask_255; auto)
  have high: "(word_of_nat (drop_bit 8 n) :: u8) = ucast (drop_bit 8 (word_of_nat n :: u16) AND 0xFF)"
    by (rule bit_word_eqI) (simp only: bit_unsigned_iff bit_and_iff bit_word_of_nat bit_mask_255 bit_drop_bit_eq
        comp_apply; auto)
  show ?thesis by (simp add: int_bytes_def upt_rec low high)
qed

text \<open>
  C36. What a client reads from a text frame is the text that was broadcast, whatever its length and whatever
  follows on the stream.
\<close>

theorem text_frame_roundtrip:
  assumes "length text < 2 ^ 63"
  shows "read_frame (websocket_text_frame text @ rest) = Some (text, rest)"
proof -
  have payload: "map char_of_byte (text_bytes text) = text" "length (text_bytes text) = length text"
    by (simp_all add: text_bytes_def comp_def)
  consider "length text \<le> 125" | "125 < length text" "length text \<le> 65535" | "65535 < length text" by linarith
  then show ?thesis
  proof cases
    case 1
    have n: "unat (word_of_nat (length text) :: u8) = length text"
      using 1 by (simp add: unat_of_nat take_bit_nat_eq_self)
    then have "(word_of_nat (length text) :: u8) \<noteq> 126" "(word_of_nat (length text) :: u8) \<noteq> 127"
      "\<not> (word_of_nat (length text) :: u8) \<ge> 128" using 1 by (auto simp: word_le_nat_alt)
    then show ?thesis using 1 n payload by (simp add: read_frame_def websocket_text_frame_def)
  next
    case 2
    then have "unat (word_of_nat (length text) :: u16) = length text" by (simp add: unat_of_nat take_bit_nat_eq_self)
    moreover have "websocket_text_frame text = 0x81 # 126 # rev (int_bytes (word_of_nat (length text) :: u16)) @ text_bytes text"
      using 2 unfolding websocket_text_frame_def length_u16_bytes [symmetric] by simp
    ultimately show ?thesis using payload by (simp add: read_frame_def)
  next
    case 3
    then have "unat (word_of_nat (length text) :: u64) = length text"
      using assms by (simp add: unat_of_nat take_bit_nat_eq_self)
    moreover have "websocket_text_frame text = 0x81 # 127 # rev (int_bytes (word_of_nat (length text) :: u64)) @ text_bytes text"
      using 3 unfolding websocket_text_frame_def length_u64_bytes by simp
    ultimately show ?thesis using payload by (simp add: read_frame_def)
  qed
qed

theorem text_frame_roundtrip_witness: "read_frame (websocket_text_frame ''ok'' @ [7]) = Some (''ok'', [7])"
  by (rule text_frame_roundtrip) simp
section \<open>JSON texts\<close>

text \<open>A reader of flat JSON objects whose strings have no escapes.\<close>

definition read_quoted :: "string \<Rightarrow> (string \<times> string) option" where
  "read_quoted s =
     (case s of
        c # s \<Rightarrow>
          let t = takeWhile (\<lambda>c. c \<noteq> CHR 0x22) s; rest = dropWhile (\<lambda>c. c \<noteq> CHR 0x22) s
          in if c \<noteq> CHR 0x22 \<or> rest = [] then None else Some (t, tl rest)
      | [] \<Rightarrow> None)"

definition read_number :: "string \<Rightarrow> (int \<times> string) option" where
  "read_number s =
     (let negative = (s \<noteq> [] \<and> hd s = CHR ''-''); t = (if negative then tl s else s);
          ds = takeWhile is_digit t
      in if ds = [] then None
         else Some (if negative then - int (digits_value ds) else int (digits_value ds), dropWhile is_digit t))"

definition read_value :: "string \<Rightarrow> (json \<times> string) option" where
  "read_value s =
     (if s \<noteq> [] \<and> hd s = CHR 0x22 then map_option (\<lambda>(t, rest). (JStr t, rest)) (read_quoted s)
      else if prefix ''true'' s then Some (JBool True, drop 4 s)
      else if prefix ''false'' s then Some (JBool False, drop 5 s)
      else map_option (\<lambda>(i, rest). (JInt i, rest)) (read_number s))"

fun read_members :: "nat \<Rightarrow> string \<Rightarrow> ((string \<times> json) list \<times> string) option" where
  "read_members 0 s = None"
| "read_members (Suc n) s =
     (case read_quoted s of
        Some (k, c # s) \<Rightarrow>
          if c \<noteq> CHR '':'' then None
          else (case read_value s of
            Some (v, d # s) \<Rightarrow>
              if d = CHR ''}'' then Some ([(k, v)], s)
              else if d = CHR '','' then map_option (\<lambda>(ms, rest). ((k, v) # ms, rest)) (read_members n s)
              else None
          | _ \<Rightarrow> None)
      | _ \<Rightarrow> None)"

definition read_object :: "string \<Rightarrow> ((string \<times> json) list \<times> string) option" where
  "read_object s = (if s \<noteq> [] \<and> hd s = CHR ''{'' then read_members (length s) (tl s) else None)"

definition plain :: "string \<Rightarrow> bool" where
  "plain s \<longleftrightarrow> CHR 0x22 \<notin> set s"

fun flat :: "json \<Rightarrow> bool" where
  "flat (JStr s) = plain s"
| "flat (JInt i) = True"
| "flat (JBool b) = True"
| "flat _ = False"

lemma read_quoted_text: "plain s \<Longrightarrow> read_quoted (quoted s @ rest) = Some (s, rest)"
proof -
  assume "plain s"
  then have "\<forall>c\<in>set s. c \<noteq> CHR 0x22" by (auto simp: plain_def)
  then have "takeWhile (\<lambda>c. c \<noteq> CHR 0x22) (s @ CHR 0x22 # rest) = s"
    "dropWhile (\<lambda>c. c \<noteq> CHR 0x22) (s @ CHR 0x22 # rest) = CHR 0x22 # rest" by simp_all
  then show ?thesis by (simp add: read_quoted_def quoted_def)
qed

lemma read_number_text:
  assumes "\<forall>c t. rest = c # t \<longrightarrow> \<not> is_digit c"
  shows "read_number (decimal_int i @ rest) = Some (i, rest)"
proof -
  have run: "takeWhile is_digit (decimal n @ rest) = decimal n" "dropWhile is_digit (decimal n @ rest) = rest" for n
    using decimal_digits [of n] assms by (cases rest; simp)+
  have hd: "hd (decimal n @ rest) \<noteq> CHR ''-''" for n using hd_decimal [of n] by (simp add: hd_append)
  show ?thesis by (auto simp: read_number_def decimal_int_def run hd Let_def)
qed

lemma decimal_int_first:
  "hd (decimal_int i @ rest) \<noteq> CHR 0x22" "\<not> prefix ''true'' (decimal_int i @ rest)" "\<not> prefix ''false'' (decimal_int i @ rest)"
proof -
  obtain c t where c: "decimal_int i = c # t" "is_digit c \<or> c = CHR ''-''"
  proof (cases "i < 0")
    case True
    then show thesis using that [of "CHR ''-''"] by (simp add: decimal_int_def)
  next
    case False
    obtain c t where "decimal (nat i) = c # t" using decimal_not_empty by (cases "decimal (nat i)") auto
    then show thesis using that [of c t] False decimal_digits [of "nat i"] by (simp add: decimal_int_def)
  qed
  then show "hd (decimal_int i @ rest) \<noteq> CHR 0x22" "\<not> prefix ''true'' (decimal_int i @ rest)"
    "\<not> prefix ''false'' (decimal_int i @ rest)" by (auto simp: is_digit_def)
qed

lemma read_value_text:
  assumes "flat v" "\<forall>c t. rest = c # t \<longrightarrow> \<not> is_digit c"
  shows "read_value (json_text v @ rest) = Some (v, rest)"
proof (cases v)
  case (JStr s)
  then have "json_text v @ rest = quoted s @ rest" "plain s" using assms(1) by simp_all
  moreover have "hd (quoted s @ rest) = CHR 0x22" "quoted s @ rest \<noteq> []" by (simp_all add: quoted_def)
  ultimately show ?thesis using JStr read_quoted_text [of s rest] by (simp add: read_value_def)
next
  case (JInt i)
  then show ?thesis
    using decimal_int_first [of i rest] read_number_text [OF assms(2)] by (simp add: read_value_def)
next
  case (JBool b)
  then show ?thesis by (simp add: read_value_def)
qed (use assms(1) in simp_all)

abbreviation member_text :: "string \<times> json \<Rightarrow> string" where
  "member_text m \<equiv> (case m of (k, v) \<Rightarrow> quoted k @ '':'' @ json_text v)"

lemma read_members_text:
  assumes "ms \<noteq> []" "\<forall>(k, v)\<in>set ms. plain k \<and> flat v" "length ms \<le> n"
  shows "read_members n (comma_separated (map member_text ms) @ ''}'' @ rest) = Some (ms, rest)"
  using assms
proof (induction ms arbitrary: n)
  case (Cons m ms)
  obtain k v where m: "m = (k, v)" by (cases m)
  obtain n' where n: "n = Suc n'" using Cons.prems(3) by (cases n) simp_all
  have kv: "plain k" "flat v" using Cons.prems(2) m by simp_all
  note IH = Cons.IH and prems = Cons.prems
  have val: "read_value (json_text v @ CHR ''}'' # after) = Some (v, CHR ''}'' # after)"
    "read_value (json_text v @ CHR '','' # after) = Some (v, CHR '','' # after)" for after
    using kv(2) by (intro read_value_text; simp add: is_digit_def)+
  show ?case
  proof (cases ms)
    case Nil
    then show ?thesis using m n kv(1) val(1) by (simp add: read_quoted_text)
  next
    case (Cons m' ms')
    have "read_members n' (comma_separated (map member_text ms) @ ''}'' @ rest) = Some (ms, rest)"
      using IH [of n'] prems n Cons by simp
    then show ?thesis using m n kv(1) val(2) Cons by (simp add: read_quoted_text)
  qed
qed simp

lemma comma_separated_length: "length ms \<le> length (comma_separated (map member_text ms)) + 1"
proof (induction ms rule: induct_list012)
  case (3 m m' ms)
  then show ?case by (cases m) (simp add: quoted_def)
qed (auto simp: quoted_def)

lemma read_object_text:
  assumes "ms \<noteq> []" "\<forall>(k, v)\<in>set ms. plain k \<and> flat v"
  shows "read_object (json_text (JObj ms) @ rest) = Some (ms, rest)"
  using read_members_text [OF assms, of "length (json_text (JObj ms) @ rest)" rest] comma_separated_length [of ms]
  by (simp add: read_object_def)
section \<open>Market data as JSON\<close>

datatype market_event =
    Book_Event BookUpdate
  | Add_Event Level3AddOrder
  | Execute_Event Level3OrderExecuted
  | Delete_Event Level3OrderDeleted

fun event_valid :: "market_event \<Rightarrow> bool" where
  "event_valid (Book_Event u) = book_update_valid u"
| "event_valid (Add_Event a) = level3_add_order_valid a"
| "event_valid (Execute_Event x) = level3_order_executed_valid x"
| "event_valid (Delete_Event d) = level3_order_deleted_valid d"

fun event_type :: "market_event \<Rightarrow> MessageType" where
  "event_type (Book_Event u) = MT_BookUpdate"
| "event_type (Add_Event a) = MT_Level3AddOrder"
| "event_type (Execute_Event x) = MT_Level3OrderExecuted"
| "event_type (Delete_Event d) = MT_Level3OrderDeleted"

fun event_body :: "market_event \<Rightarrow> u8 list" where
  "event_body (Book_Event u) = encode_book_update u"
| "event_body (Add_Event a) = encode_level3_add_order a"
| "event_body (Execute_Event x) = encode_level3_order_executed x"
| "event_body (Delete_Event d) = encode_level3_order_deleted d"

fun event_json :: "market_event \<Rightarrow> (string \<times> json) list" where
  "event_json (Book_Event u) = book_json u"
| "event_json (Add_Event a) = add_json a"
| "event_json (Execute_Event x) = execute_json x"
| "event_json (Delete_Event d) = delete_json d"

definition event_header :: "u64 \<Rightarrow> market_event \<Rightarrow> MessageHeader" where
  "event_header n e = \<lparr>hdr_magic = protocol_magic, hdr_version = protocol_version, hdr_type = event_type e,
     hdr_body_size = word_of_nat (length (event_body e)), hdr_sequence_number = n\<rparr>"

lemma event_body_size: "event_valid e \<Longrightarrow> length (event_body e) < 2 ^ 32"
  using book_update.enc_size level3_add_order.enc_size level3_order_executed.enc_size level3_order_deleted.enc_size
  by (cases e) (simp_all add: book_update_body_size_def level3_add_order_body_size_def
      level3_order_executed_body_size_def level3_order_deleted_body_size_def)

lemma event_header_valid: "header_valid (event_header n e)"
  by (cases e) (simp_all add: header_valid_def event_header_def)

lemma market_data_to_json_event:
  assumes "event_valid e"
  shows "market_data_to_json (encode_header (event_header n e) @ event_body e) = json_text (JObj (event_json e))"
proof -
  have size: "unat (hdr_body_size (event_header n e)) = length (event_body e)"
    using event_body_size [OF assms] by (simp add: event_header_def unat_of_nat take_bit_nat_eq_self)
  have head: "length (encode_header (event_header n e)) = header_size"
    "decode_header (encode_header (event_header n e)) = Some (event_header n e)"
    using header.enc_size header.dec_enc event_header_valid by blast+
  show ?thesis
    using assms head size
    by (cases e) (simp_all add: market_data_to_json_def event_header_def book_update.dec_enc level3_add_order.dec_enc
        level3_order_executed.dec_enc level3_order_deleted.dec_enc)
qed

lemma market_data_to_json_only_events:
  assumes "market_data_to_json datagram \<noteq> []"
  shows "\<exists>n e. event_valid e \<and> datagram = encode_header (event_header n e) @ event_body e"
proof -
  obtain h where len: "length datagram \<ge> header_size" and h: "decode_header (take header_size datagram) = Some h"
    and size: "length datagram = header_size + unat (hdr_body_size h)"
    using assms by (auto simp: market_data_to_json_def split: if_splits option.splits)
  let ?body = "drop header_size datagram"
  have body: "take (unat (hdr_body_size h)) ?body = ?body" using size by simp
  have header: "header_valid h" "encode_header h = take header_size datagram" using h header.dec_iff by blast+
  have "\<exists>e. event_valid e \<and> event_type e = hdr_type h \<and> event_body e = ?body"
  proof (cases "hdr_type h")
    case MT_BookUpdate
    then obtain u where "decode_book_update ?body = Some u"
      using assms len h size body by (auto simp: market_data_to_json_def split: option.splits)
    then show ?thesis using MT_BookUpdate book_update.dec_iff by (intro exI [of _ "Book_Event u"]) simp
  next
    case MT_Level3AddOrder
    then obtain a where "decode_level3_add_order ?body = Some a"
      using assms len h size body by (auto simp: market_data_to_json_def split: option.splits)
    then show ?thesis using MT_Level3AddOrder level3_add_order.dec_iff by (intro exI [of _ "Add_Event a"]) simp
  next
    case MT_Level3OrderExecuted
    then obtain x where "decode_level3_order_executed ?body = Some x"
      using assms len h size body by (auto simp: market_data_to_json_def split: option.splits)
    then show ?thesis
      using MT_Level3OrderExecuted level3_order_executed.dec_iff by (intro exI [of _ "Execute_Event x"]) simp
  next
    case MT_Level3OrderDeleted
    then obtain d where "decode_level3_order_deleted ?body = Some d"
      using assms len h size body by (auto simp: market_data_to_json_def split: option.splits)
    then show ?thesis
      using MT_Level3OrderDeleted level3_order_deleted.dec_iff by (intro exI [of _ "Delete_Event d"]) simp
  qed (use assms len h size in \<open>simp_all add: market_data_to_json_def\<close>)
  then obtain e where e: "event_valid e" "event_type e = hdr_type h" "event_body e = ?body" by blast
  have "event_header (hdr_sequence_number h) e = h"
    using e header(1) size by (cases h) (simp add: event_header_def header_valid_def)
  then show ?thesis
    using e header(2) by (intro exI [of _ "hdr_sequence_number h"] exI [of _ e]) (simp add: append_take_drop_id)
qed

lemma plain_symbol: "is_valid_symbol s \<Longrightarrow> length s = symbol_size \<Longrightarrow> plain (symbol_to_string s)"
proof -
  assume "is_valid_symbol s" "length s = symbol_size"
  then have "symbol_text (symbol_to_string s)"
    using make_symbol_to_string [of s] is_valid_make_symbol [of "symbol_to_string s"] by simp
  then show ?thesis
    by (auto simp: symbol_text_def plain_def list_all_iff is_valid_symbol_character_def char_between_def)
qed

lemma event_json_flat:
  assumes "event_valid e"
  shows "event_json e \<noteq> [] \<and> (\<forall>(k, v)\<in>set (event_json e). plain k \<and> flat v)"
  using assms plain_symbol
  by (cases e) (auto simp: book_json_def add_json_def execute_json_def delete_json_def plain_def
      book_update_valid_def level3_add_order_valid_def level3_order_executed_valid_def level3_order_deleted_valid_def)

text \<open>
  The event a reader of the JSON members gets, by the names of the members that the dashboard
  (\<^verbatim>\<open>dashboard/src/App.tsx\<close>) reads.
\<close>

definition json_string :: "(string \<times> json) list \<Rightarrow> string \<Rightarrow> string option" where
  "json_string ms k = (case map_of ms k of Some (JStr s) \<Rightarrow> Some s | _ \<Rightarrow> None)"

definition json_int :: "(string \<times> json) list \<Rightarrow> string \<Rightarrow> int option" where
  "json_int ms k = (case map_of ms k of Some (JInt i) \<Rightarrow> Some i | _ \<Rightarrow> None)"

definition json_word :: "(string \<times> json) list \<Rightarrow> string \<Rightarrow> 'b::len word option" where
  "json_word ms k = map_option word_of_int (json_int ms k)"

definition json_flag :: "(string \<times> json) list \<Rightarrow> string \<Rightarrow> u8 option" where
  "json_flag ms k = (case map_of ms k of Some (JBool b) \<Rightarrow> Some (if b then 1 else 0) | _ \<Rightarrow> None)"

definition json_side :: "(string \<times> json) list \<Rightarrow> string \<Rightarrow> PSide option" where
  "json_side ms k = map_option (\<lambda>s. if s = ''BUY'' then PBuy else PSell) (json_string ms k)"

definition json_event :: "(string \<times> json) list \<Rightarrow> market_event option" where
  "json_event ms = do {
     kind \<leftarrow> json_string ms ''type'';
     symb \<leftarrow> map_option make_symbol (json_string ms ''symbol'');
     sequence \<leftarrow> json_word ms ''sequence'';
     (if kind = ''book'' then do {
        has_bid \<leftarrow> json_flag ms ''hasBid''; bid \<leftarrow> json_int ms ''bestBid''; bid_quantity \<leftarrow> json_word ms ''bidQuantity'';
        has_ask \<leftarrow> json_flag ms ''hasAsk''; ask \<leftarrow> json_int ms ''bestAsk''; ask_quantity \<leftarrow> json_word ms ''askQuantity'';
        Some (Book_Event \<lparr>bku_has_bid = has_bid, bku_best_bid = bid, bku_bid_quantity = bid_quantity,
          bku_has_ask = has_ask, bku_best_ask = ask, bku_ask_quantity = ask_quantity,
          bku_sequence_number = sequence, bku_symbol = symb\<rparr>) }
      else if kind = ''add'' then do {
        i \<leftarrow> json_word ms ''orderId''; time \<leftarrow> json_word ms ''timestamp''; price \<leftarrow> json_int ms ''price'';
        quantity \<leftarrow> json_word ms ''quantity''; side \<leftarrow> json_side ms ''side'';
        Some (Add_Event \<lparr>l3a_order_id = i, l3a_timestamp = time, l3a_price = price, l3a_quantity = quantity,
          l3a_side = side, l3a_sequence_number = sequence, l3a_symbol = symb\<rparr>) }
      else if kind = ''execute'' then do {
        buy \<leftarrow> json_word ms ''buyOrderId''; sell \<leftarrow> json_word ms ''sellOrderId''; price \<leftarrow> json_int ms ''price'';
        quantity \<leftarrow> json_word ms ''quantity'';
        Some (Execute_Event \<lparr>l3e_buy_order_id = buy, l3e_sell_order_id = sell, l3e_price = price,
          l3e_quantity = quantity, l3e_sequence_number = sequence, l3e_symbol = symb\<rparr>) }
      else if kind = ''delete'' then do {
        i \<leftarrow> json_word ms ''orderId'';
        Some (Delete_Event \<lparr>l3d_order_id = i, l3d_sequence_number = sequence, l3d_symbol = symb\<rparr>) }
      else None) }"

lemmas json_readers = json_string_def json_int_def json_word_def json_flag_def json_side_def

lemma json_event_reads:
  assumes "event_valid e"
  shows "json_event (event_json e) = Some e"
proof (cases e)
  case (Book_Event u)
  then show ?thesis
    using assms make_symbol_to_string [of "bku_symbol u"]
    by (cases u) (auto simp: json_event_def json_readers book_json_def book_update_valid_def)
next
  case (Add_Event a)
  then show ?thesis
    using assms make_symbol_to_string [of "l3a_symbol a"]
    by (cases a; cases "l3a_side a") (auto simp: json_event_def json_readers add_json_def level3_add_order_valid_def)
next
  case (Execute_Event x)
  then show ?thesis
    using assms make_symbol_to_string [of "l3e_symbol x"]
    by (cases x) (auto simp: json_event_def json_readers execute_json_def level3_order_executed_valid_def)
next
  case (Delete_Event d)
  then show ?thesis
    using assms make_symbol_to_string [of "l3d_symbol d"]
    by (cases d) (auto simp: json_event_def json_readers delete_json_def level3_order_deleted_valid_def)
qed

section \<open>The handshake\<close>

definition request_text :: "string list \<Rightarrow> string" where
  "request_text ls = concat (map (\<lambda>l. l @ crlf) ls) @ crlf"

definition request_line :: "string \<Rightarrow> bool" where
  "request_line l \<longleftrightarrow> l \<noteq> [] \<and> CHR 0x0D \<notin> set l \<and> CHR 0x0A \<notin> set l"

text \<open>The value of the first header with a given name.\<close>

fun first_header :: "string \<Rightarrow> string list \<Rightarrow> string option" where
  "first_header name [] = None"
| "first_header name (l # ls) = (case line_value name l of None \<Rightarrow> first_header name ls | Some v \<Rightarrow> Some v)"

lemma request_text_Cons: "request_text (l # ls) = l @ crlf @ request_text ls"
  by (simp add: request_text_def)

lemma getlines_line:
  assumes "CHR 0x0A \<notin> set l"
  shows "getlines (l @ crlf @ s) = (l @ [CHR 0x0D]) # getlines s"
proof -
  have "takeWhile (\<lambda>c. c \<noteq> CHR 0x0A) (l @ crlf @ s) = l @ [CHR 0x0D]"
    "dropWhile (\<lambda>c. c \<noteq> CHR 0x0A) (l @ crlf @ s) = CHR 0x0A # s"
    using assms by (auto simp: crlf_def takeWhile_append dropWhile_append)
  moreover obtain c t where "l @ crlf @ s = c # t" by (cases l) (auto simp: crlf_def)
  ultimately show ?thesis by (simp add: getlines.simps(2))
qed

lemma strip_cr_line [simp]: "strip_cr (l @ [CHR 0x0D]) = l"
  by (simp add: strip_cr_def)

lemma header_value_request:
  assumes "\<forall>l\<in>set ls. request_line l"
  shows "header_value (request_text ls) name = first_header name ls"
proof -
  have "header_value_loop name (getlines (request_text ls)) = first_header name ls"
    using assms
  proof (induction ls)
    case Nil
    have "getlines crlf = [[CHR 0x0D]]" using getlines_line [of "[]" "[]"] by simp
    moreover have "strip_cr [CHR 0x0D] = []" using strip_cr_line [of "[]"] by simp
    ultimately show ?case by (simp add: request_text_def line_value_def find_from_def)
  next
    case (Cons l ls)
    then show ?case
      using getlines_line [of l "request_text ls"] by (simp add: request_text_Cons request_line_def split: option.split)
  qed
  then show ?thesis by (simp add: header_value_def)
qed

lemma find_text_sublist: "find_text pat s \<noteq> None \<longleftrightarrow> sublist pat s"
  by (induction s) (auto simp: sublist_Cons_right)

lemma request_start_crlf:
  assumes "\<forall>l\<in>set ls. request_line l" "request_text ls = crlf @ after"
  shows "after = []"
proof (cases ls)
  case Nil
  then show ?thesis using assms(2) by (simp add: request_text_def)
next
  case (Cons m ms)
  then have "m \<noteq> []" "CHR 0x0D \<notin> set m" using assms(1) by (simp_all add: request_line_def)
  then show ?thesis using assms(2) Cons by (cases m) (auto simp: request_text_Cons crlf_def)
qed

text \<open>The blank line that ends a request occurs nowhere else in it.\<close>

lemma request_end_unique:
  assumes "\<forall>l\<in>set ls. request_line l" "request_text ls = before @ crlf @ crlf @ after"
  shows "after = []"
  using assms
proof (induction ls arbitrary: before)
  case Nil
  show ?case using arg_cong [OF Nil(2), of length] by (simp add: request_text_def crlf_def)
next
  case (Cons l ls)
  note IH = Cons.IH
  have l: "CHR 0x0D \<notin> set l" and ls: "\<forall>l\<in>set ls. request_line l"
    using Cons.prems(1) by (simp_all add: request_line_def)
  have eq: "l @ crlf @ request_text ls = before @ crlf @ crlf @ after" using Cons.prems(2) by (simp add: request_text_Cons)
  from eq [unfolded append_eq_append_conv2 [of l]]
  consider us where "l = before @ us" "us @ crlf @ request_text ls = crlf @ crlf @ after"
    | us where "l @ us = before" "crlf @ request_text ls = us @ crlf @ crlf @ after" by blast
  then show ?case
  proof cases
    case 1
    then have "us = []" using l by (cases us) (auto simp: crlf_def)
    then show ?thesis using 1 request_start_crlf [OF ls] by (simp add: crlf_def)
  next
    case 2
    show ?thesis
    proof (cases us)
      case Nil
      then show ?thesis using 2 request_start_crlf [OF ls] by (simp add: crlf_def)
    next
      case (Cons c us')
      then have "CHR 0x0A # request_text ls = us' @ crlf @ crlf @ after" using 2 by (simp add: crlf_def)
      then obtain us'' where "request_text ls = us'' @ crlf @ crlf @ after" by (cases us') (auto simp: crlf_def)
      then show ?thesis using IH ls by blast
    qed
  qed
qed

lemma read_request_chunks:
  assumes lines: "\<forall>l\<in>set ls. request_line l" "ls \<noteq> []" and short: "length (request_text ls) \<le> 16 * 1024"
    and "[] \<notin> set chunks" "acc @ concat chunks = request_text ls"
  shows "read_request acc chunks = Complete (request_text ls)"
  using assms(4,5)
proof (induction chunks arbitrary: acc)
  case Nil
  obtain ms m where "ls = ms @ [m]" using lines(2) by (cases ls rule: rev_cases) auto
  then have "request_text ls = (concat (map (\<lambda>l. l @ crlf) ms) @ m) @ (crlf @ crlf) @ []" by (simp add: request_text_def)
  then have "sublist (crlf @ crlf) (request_text ls)" unfolding sublist_def by blast
  then have "find_text (crlf @ crlf) (request_text ls) \<noteq> None" by (simp only: find_text_sublist)
  moreover have "acc = request_text ls" using Nil.prems(2) by simp
  ultimately show ?case by (subst read_request.simps) simp
next
  case (Cons chunk chunks)
  have none: "\<not> sublist (crlf @ crlf) acc"
  proof
    assume "sublist (crlf @ crlf) acc"
    then obtain before after where "acc = before @ (crlf @ crlf) @ after" by (auto simp: sublist_def)
    then have "request_text ls = before @ crlf @ crlf @ (after @ chunk @ concat chunks)" using Cons.prems(2) by simp
    from request_end_unique [OF lines(1) this] show False using Cons.prems(1) by simp
  qed
  have "length (acc @ chunk) \<le> 16 * 1024" using arg_cong [OF Cons.prems(2), of length] short by simp
  moreover have "find_text (crlf @ crlf) acc = None" using none find_text_sublist by blast
  ultimately show ?case using Cons by (subst read_request.simps) auto
qed

















text \<open>The name of the header is compared letter by letter: a request that spells it in lower case is refused.\<close>

lemma lower_case_key_refused:
  "perform_handshake sends [request_text [''GET / HTTP/1.1'', ''sec-websocket-key: abc'']] = (Some False, [])"
proof -
  let ?ls = "[''GET / HTTP/1.1'', ''sec-websocket-key: abc'']"
  have lines: "\<forall>l\<in>set ?ls. request_line l" by (simp add: request_line_def)
  have "read_request [] [request_text ?ls] = Complete (request_text ?ls)"
    by (rule read_request_chunks [OF lines]) (simp_all add: request_text_def crlf_def)
  moreover have "header_value (request_text ?ls) ''Sec-WebSocket-Key'' = None"
    unfolding header_value_request [OF lines] by (simp add: line_value_def find_from_def)
  ultimately show ?thesis by (simp add: perform_handshake_def)
qed

section \<open>Broadcasts\<close>

lemma broadcast_loop_result:
  fixes frame :: "u8 list" and sends :: "int \<Rightarrow> nat \<Rightarrow> nat \<Rightarrow> int"
  defines "ok \<equiv> \<lambda>c. fst (send_all (sends c) 0 frame)"
  shows "broadcast_loop sends frame clients g =
    g\<lparr>wg_clients := wg_clients g @ filter ok clients,
      wg_closed := wg_closed g @ filter (\<lambda>c. \<not> ok c) clients,
      wg_written := wg_written g @ map (\<lambda>c. (c, snd (send_all (sends c) 0 frame))) clients\<rparr>"
proof (induction clients arbitrary: g)
  case (Cons c clients)
  show ?case by (simp add: Cons split_beta Let_def ok_def close_socket_def)
qed simp

text \<open>
  A broadcast writes the text frame to every client in turn: the clients it keeps, in order, are exactly those
  that took the whole frame, each of the others took a part of it and is closed, and nothing else changes.
\<close>

theorem broadcast_reaches_clients:
  "broadcast_text sends text g =
     g\<lparr>wg_clients := filter (\<lambda>c. fst (send_all (sends c) 0 (websocket_text_frame text))) (wg_clients g),
       wg_closed := wg_closed g @ filter (\<lambda>c. \<not> fst (send_all (sends c) 0 (websocket_text_frame text))) (wg_clients g),
       wg_written := wg_written g @
         map (\<lambda>c. (c, if c \<in> set (wg_clients (broadcast_text sends text g)) then websocket_text_frame text
                     else snd (send_all (sends c) 0 (websocket_text_frame text)))) (wg_clients g)\<rparr> \<and>
   prefix (snd (send_all (sends c) 0 (websocket_text_frame text))) (websocket_text_frame text)"
proof -
  let ?f = "websocket_text_frame text"
  have result: "broadcast_text sends text g =
     g\<lparr>wg_clients := filter (\<lambda>c. fst (send_all (sends c) 0 ?f)) (wg_clients g),
       wg_closed := wg_closed g @ filter (\<lambda>c. \<not> fst (send_all (sends c) 0 ?f)) (wg_clients g),
       wg_written := wg_written g @ map (\<lambda>c. (c, snd (send_all (sends c) 0 ?f))) (wg_clients g)\<rparr>"
    by (simp add: broadcast_text_def broadcast_loop_result)
  then have kept: "c \<in> set (wg_clients (broadcast_text sends text g)) \<longleftrightarrow>
      c \<in> set (wg_clients g) \<and> fst (send_all (sends c) 0 ?f)" for c
    by auto
  have "map (\<lambda>c. (c, snd (send_all (sends c) 0 ?f))) (wg_clients g) =
      map (\<lambda>c. (c, if c \<in> set (wg_clients (broadcast_text sends text g)) then ?f else snd (send_all (sends c) 0 ?f)))
        (wg_clients g)"
    by (simp add: kept send_all_written)
  then show ?thesis using result send_all_written by simp
qed

section \<open>The loops\<close>

lemma broadcast_running [simp]: "wg_running (broadcast_text sends text g) = wg_running g"
  by (simp add: broadcast_text_def broadcast_loop_result)

lemma datagram_running [simp]:
  "wg_running (multicast_datagram sends d g) = wg_running g" "wg_running (performance_datagram sends t g) = wg_running g"
  by (simp_all add: multicast_datagram_def performance_datagram_def Let_def)

lemma multicast_loop_running [simp]: "wg_running (multicast_loop sends k ds g) = wg_running g"
  by (induction sends k ds g rule: multicast_loop.induct) simp_all

lemma performance_loop_running [simp]: "wg_running (performance_loop sends k ts g) = wg_running g"
  by (induction sends k ts g rule: performance_loop.induct) simp_all

text \<open>
  A datagram without content ends a feed for good: once one arrives, the gateway forwards nothing of what is
  published later, and it still counts as running.
\<close>

theorem empty_datagram_ends_feed:
  "multicast_loop sends k (before @ [] # after) g = multicast_loop sends k before g \<and>
   performance_loop sends k (texts @ [] # later) g = performance_loop sends k texts g \<and>
   wg_running (multicast_loop sends k (before @ [] # after) g) = wg_running g"
proof -
  have "multicast_loop sends k (before @ [] # after) g = multicast_loop sends k before g"
    by (induction before arbitrary: k g) simp_all
  moreover have "performance_loop sends k (texts @ [] # later) g = performance_loop sends k texts g"
    by (induction texts arbitrary: k g) simp_all
  ultimately show ?thesis by simp
qed

text \<open>A connection that never completes its request keeps every later client out.\<close>

lemma silent_client_blocks_accept:
  assumes "read_request [] chunks = Waiting"
  shows "wg_clients (accept_loop ((client, sends, chunks) # connections) g) = wg_clients g"
  using assms by (simp add: perform_handshake_def accept_client_def)

section \<open>Starting\<close>

lemma start_gateway_outcome:
  assumes "\<not> wg_running g"
  shows "case start_gateway listener multicast performance threads g of
    (True, g') \<Rightarrow> wg_running g' \<and> 0 \<le> wg_listen_socket g' \<and> 0 \<le> wg_multicast_socket g' \<and> 0 \<le> wg_performance_socket g'
  | (False, g') \<Rightarrow> \<not> wg_running g' \<and> wg_listen_socket g' < 0"
  using assms
  by (auto simp: start_gateway_def open_websocket_listener_def open_multicast_receiver_def open_performance_receiver_def
      stop_gateway_def close_open_def close_socket_def Let_def split: if_splits prod.splits bool.splits)

end
