(* ===== verification/Telemetry.thy ===== *)
theory Telemetry
  imports Metrics Multicast Websocket_Properties
begin

text \<open>
  The performance telemetry of \<^verbatim>\<open>src/performance_metrics.cpp\<close>: the JSON text of a snapshot and the publisher that
  sends it to the WebSocket gateway. The text of a double with two decimals is a parameter; the rates are values of
  the type of doubles.
\<close>

section \<open>The text of a snapshot\<close>

record 'd PerformanceTelemetrySnapshot =
  ts_timestamp_ms :: u64
  ts_uptime_ms :: u64
  ts_counters :: "'d PerformanceCounterSnapshot"
  ts_orders_per_second :: 'd
  ts_executions_per_second :: 'd
  ts_active_orders :: u64
  ts_instruments :: u64
  ts_connected_clients :: u64
  ts_market_data :: MulticastPublisherStats
  ts_market_data_queue_capacity :: u64

definition latency_json :: "('d \<Rightarrow> string) \<Rightarrow> 'd MatchingLatencySnapshot \<Rightarrow> (string \<times> json) list" where
  "latency_json fixed2 l =
     [(''samples'', JNum (ls_samples l)), (''mean'', JText (fixed2 (ls_mean_ns l))), (''p50'', JNum (ls_p50_ns l)),
      (''p95'', JNum (ls_p95_ns l)), (''p99'', JNum (ls_p99_ns l)), (''max'', JNum (ls_max_ns l))]"

definition market_data_json :: "MulticastPublisherStats \<Rightarrow> u64 \<Rightarrow> (string \<times> json) list" where
  "market_data_json m capacity =
     [(''enqueued'', JNum (ps_enqueued m)), (''sent'', JNum (ps_sent m)), (''dropped'', JNum (ps_dropped m)),
      (''sendErrors'', JNum (ps_send_errors m)), (''queueDepth'', JNum (ps_queue_depth m)),
      (''maxQueueDepth'', JNum (ps_max_queue_depth m)), (''queueCapacity'', JNum capacity),
      (''producerShardsUsed'', JNum (ps_producer_shards_used m)),
      (''producerRegistrationFailures'', JNum (ps_producer_registration_failures m))]"

definition performance_json :: "('d \<Rightarrow> string) \<Rightarrow> 'd PerformanceTelemetrySnapshot \<Rightarrow> (string \<times> json) list" where
  "performance_json fixed2 s =
     (let c = ts_counters s in
      [(''type'', JStr ''performance''), (''timestampMs'', JNum (ts_timestamp_ms s)),
       (''uptimeMs'', JNum (ts_uptime_ms s)), (''ordersTotal'', JNum (cs_new_order_requests c)),
       (''acceptedTotal'', JNum (cs_accepted_orders c)), (''rejectedTotal'', JNum (cs_rejected_orders c)),
       (''riskRejectedTotal'', JNum (cs_risk_rejections c)), (''cancelRequestsTotal'', JNum (cs_cancel_requests c)),
       (''successfulCancelsTotal'', JNum (cs_successful_cancels c)),
       (''replaceRequestsTotal'', JNum (cs_replace_requests c)),
       (''successfulReplacesTotal'', JNum (cs_successful_replaces c)), (''tradesTotal'', JNum (cs_trades c)),
       (''tradedQuantity'', JNum (cs_traded_quantity c)),
       (''ordersPerSecond'', JText (fixed2 (ts_orders_per_second s))),
       (''executionsPerSecond'', JText (fixed2 (ts_executions_per_second s))),
       (''activeOrders'', JNum (ts_active_orders s)), (''instruments'', JNum (ts_instruments s)),
       (''connectedClients'', JNum (ts_connected_clients s)),
       (''matchingLatencyNs'', JObj (latency_json fixed2 (cs_matching_latency c))),
       (''marketData'', JObj (market_data_json (ts_market_data s) (ts_market_data_queue_capacity s)))])"

definition performance_snapshot_to_json :: "('d \<Rightarrow> string) \<Rightarrow> 'd PerformanceTelemetrySnapshot \<Rightarrow> string" where
  "performance_snapshot_to_json fixed2 s = json_text (JObj (performance_json fixed2 s))"

section \<open>The publisher\<close>

record PerformanceTelemetryPublisher =
  tp_socket :: int
  tp_destination :: bool

definition telemetry_is_open :: "PerformanceTelemetryPublisher \<Rightarrow> bool" where
  "telemetry_is_open p \<longleftrightarrow> tp_socket p \<ge> 0 \<and> tp_destination p"

text \<open>The socket and the outcome of the conversion of the host address are arguments.\<close>

definition telemetry_start :: "int \<Rightarrow> bool \<Rightarrow> PerformanceTelemetryPublisher \<Rightarrow> bool \<times> PerformanceTelemetryPublisher" where
  "telemetry_start socket host p =
     (if telemetry_is_open p then (True, p)
      else if socket < 0 then (False, p\<lparr>tp_socket := socket\<rparr>)
      else if \<not> host then (False, p\<lparr>tp_socket := -1\<rparr>)
      else (True, p\<lparr>tp_socket := socket, tp_destination := True\<rparr>))"

definition telemetry_stop :: "PerformanceTelemetryPublisher \<Rightarrow> PerformanceTelemetryPublisher" where
  "telemetry_stop p = p\<lparr>tp_socket := if tp_socket p \<ge> 0 then -1 else tp_socket p, tp_destination := False\<rparr>"

text \<open>The result and the datagram that goes out, if the socket is open; \<open>sent\<close> is what \<^verbatim>\<open>sendto\<close> returns.\<close>

definition telemetry_send ::
  "('d \<Rightarrow> string) \<Rightarrow> int \<Rightarrow> 'd PerformanceTelemetrySnapshot \<Rightarrow> PerformanceTelemetryPublisher \<Rightarrow> bool \<times> string option" where
  "telemetry_send fixed2 sent s p =
     (if \<not> telemetry_is_open p then (False, None)
      else let json = performance_snapshot_to_json fixed2 s
        in (sent = int (length json), if sent < 0 then None else Some json))"

section \<open>From the exchange to the browser\<close>

lemma decimal_length: "n < 10 ^ k \<Longrightarrow> 0 < k \<Longrightarrow> length (decimal n) \<le> k"
proof (induction n arbitrary: k rule: decimal.induct)
  case (1 n)
  show ?case
  proof (cases "n < 10")
    case True
    then show ?thesis using 1(3) by (simp add: decimal.simps [of n])
  next
    case False
    then have "k \<noteq> 1" using 1(2) by auto
    then obtain j where j: "k = Suc j" "0 < j" using 1(3) by (cases k) auto
    have "n div 10 < 10 ^ j" using 1(2) j by (simp add: less_mult_imp_div_less mult.commute)
    then have "length (decimal (n div 10)) \<le> j" using 1(1) False j by simp
    then show ?thesis using False j by (simp add: decimal.simps [of n])
  qed
qed

lemma number_length: "length (decimal_int (uint (v :: u64))) \<le> 20"
proof -
  have "unat v < 10 ^ 20" using unsigned_less [of v, where 'a = nat] by simp
  then have "length (decimal (unat v)) \<le> 20" by (rule decimal_length) simp
  then have "length (decimal_int (int (unat v))) \<le> 20" by (simp add: decimal_int_def)
  then show ?thesis by simp
qed

lemma performance_json_first: "\<exists>rest. performance_snapshot_to_json fixed2 s = ''{'' @ performance_marker @ '','' @ rest"
proof -
  obtain m ms where ms: "performance_json fixed2 s = (''type'', JStr ''performance'') # m # ms"
    by (simp add: performance_json_def Let_def)
  show ?thesis
    by (cases m) (simp add: performance_snapshot_to_json_def ms performance_marker_def)
qed

lemma length_comma_separated:
  "length (comma_separated ss) = sum_list (map length ss) + (length ss - 1)"
  by (induction ss rule: comma_separated.induct) simp_all

lemma length_json_object:
  assumes "list_all2 (\<lambda>m b. length (fst m) + length (json_text (snd m)) \<le> b) ms bs"
  shows "length (json_text (JObj ms)) \<le> (\<Sum>b\<leftarrow>bs. b + 4) + 2"
proof -
  have member: "length (member_text m) + 1 = length (fst m) + length (json_text (snd m)) + 4" for m :: "string \<times> json"
    by (cases m) (simp add: quoted_def)
  have "sum_list (map length (map member_text ms)) + length ms \<le> (\<Sum>b\<leftarrow>bs. b + 4)"
    using assms
  proof (induction ms bs rule: list_all2_induct)
    case (Cons m ms b bs)
    then show ?case using member [of m] unfolding list.map sum_list.Cons list.size by linarith
  qed simp
  then show ?thesis by (simp add: length_comma_separated)
qed

lemma number_fits: "20 \<le> b \<Longrightarrow> length (decimal_int (uint (v :: u64))) \<le> b"
  using number_length le_trans by blast

lemma latency_json_length:
  assumes "\<forall>x. length (fixed2 x) \<le> 320"
  shows "length (json_text (JObj (latency_json fixed2 l))) \<le> 500"
proof -
  have "list_all2 (\<lambda>m b. length (fst m) + length (json_text (snd m)) \<le> b) (latency_json fixed2 l)
    [27, 324, 27, 27, 27, 27]"
    using assms by (simp add: latency_json_def number_fits)
  from length_json_object [OF this] show ?thesis by simp
qed

lemma market_data_json_length: "length (json_text (JObj (market_data_json m capacity))) \<le> 500"
proof -
  have "list_all2 (\<lambda>m b. length (fst m) + length (json_text (snd m)) \<le> b) (market_data_json m capacity)
    [48, 48, 48, 48, 48, 48, 48, 48, 48]"
    by (simp add: market_data_json_def number_fits)
  from length_json_object [OF this] show ?thesis by simp
qed

lemma performance_json_length:
  assumes "\<forall>x. length (fixed2 x) \<le> 320"
  shows "length (performance_snapshot_to_json fixed2 s) \<le> 8192"
proof -
  have "list_all2 (\<lambda>m b. length (fst m) + length (json_text (snd m)) \<le> b) (performance_json fixed2 s)
    [350, 350, 350, 350, 350, 350, 350, 350, 350, 350, 350, 350, 350, 350, 350, 350, 350, 350, 520, 520]"
    using assms [rule_format, of "ts_orders_per_second s"] assms [rule_format, of "ts_executions_per_second s"]
      latency_json_length [OF assms, of "cs_matching_latency (ts_counters s)"]
      market_data_json_length [of "ts_market_data s" "ts_market_data_queue_capacity s"]
    by (simp add: performance_json_def Let_def number_fits quoted_def del: json_text.simps(5))
  from length_json_object [OF this] show ?thesis
    by (simp add: performance_snapshot_to_json_def del: json_text.simps)
qed

text \<open>
  Telemetry reaches the browser: whatever the counters are, the JSON text of a snapshot fits the receive buffer
  of the WebSocket gateway (for texts of doubles of at most 320 characters, which is what two decimals of any double
  need), the datagram the publisher sends is exactly that text, and the gateway recognises it and broadcasts it
  unchanged to its clients.
\<close>

theorem telemetry_reaches_clients:
  assumes "\<forall>x. length (fixed2 x) \<le> 320" "telemetry_is_open p" "sent \<ge> 0"
  shows "snd (telemetry_send fixed2 sent s p) = Some (performance_snapshot_to_json fixed2 s) \<and>
    length (performance_snapshot_to_json fixed2 s) \<le> 8192 \<and>
    performance_datagram sends (performance_snapshot_to_json fixed2 s) g =
      broadcast_text sends (performance_snapshot_to_json fixed2 s) g"
proof -
  let ?text = "performance_snapshot_to_json fixed2 s"
  have length: "length ?text \<le> 8192" using performance_json_length [OF assms(1)] .
  obtain rest where "?text = ''{'' @ performance_marker @ '','' @ rest" using performance_json_first by blast
  then have "find_text performance_marker ?text \<noteq> None"
    unfolding find_text_sublist by (metis sublist_appendI)
  then show ?thesis
    using assms(2,3) length by (simp add: performance_datagram_def telemetry_send_def Let_def)
qed

definition sample_snapshot :: "nat PerformanceTelemetrySnapshot" where
  "sample_snapshot = \<lparr>ts_timestamp_ms = 1, ts_uptime_ms = 2,
     ts_counters = metrics_snapshot (\<lambda>a b. 0) new_metrics, ts_orders_per_second = 0, ts_executions_per_second = 0,
     ts_active_orders = 3, ts_instruments = 4, ts_connected_clients = 5,
     ts_market_data = publisher_stats new_publisher, ts_market_data_queue_capacity = 6\<rparr>"

theorem telemetry_reaches_clients_witness:
  "snd (telemetry_send (\<lambda>_. ''0.00'') 9 sample_snapshot \<lparr>tp_socket = 3, tp_destination = True\<rparr>) =
      Some (performance_snapshot_to_json (\<lambda>_. ''0.00'') sample_snapshot) \<and>
    length (performance_snapshot_to_json (\<lambda>_. ''0.00'') sample_snapshot) \<le> 8192 \<and>
    performance_datagram (\<lambda>client n m. int m) (performance_snapshot_to_json (\<lambda>_. ''0.00'') sample_snapshot) new_gateway =
      broadcast_text (\<lambda>client n m. int m) (performance_snapshot_to_json (\<lambda>_. ''0.00'') sample_snapshot) new_gateway"
  by (rule telemetry_reaches_clients) (simp_all add: telemetry_is_open_def)

end
