(* ===== verification/Server_Messages.thy ===== *)
theory Server_Messages
  imports Server_Properties Websocket_Properties
begin

text \<open>
  What leaves the server. Prices in the books are 64-bit integers after any run, so every message the handlers build
  is valid. The locale \<open>message_log\<close> is the contract of a property of the outgoing messages: kept by a response, by an
  execution report and by the broadcast of an event, it is kept by every handler and holds after every run.
\<close>

section \<open>Prices are 64-bit integers\<close>

definition int64_book :: "OrderBook \<Rightarrow> bool" where
  "int64_book b \<longleftrightarrow> (\<forall>s. \<forall>x\<in>set (resting s b). is_int64 (ord_price x))"

lemma int64_book_side:
  "int64_book b \<longleftrightarrow> (\<forall>x\<in>set (resting s b) \<union> set (resting (opposite s) b). is_int64 (ord_price x))"
  unfolding int64_book_def by (metis (full_types) Side.exhaust UnE UnI1 UnI2 opposite.simps)

lemma sweep_prices: "queue_sweep inc q = (fills, r, q') \<Longrightarrow> ord_price ` set q' \<subseteq> ord_price ` set q"
proof (induction inc q arbitrary: fills r q' rule: queue_sweep.induct)
  case (2 inc x q)
  then show ?case by (fastforce split: if_splits prod.splits)
qed simp

lemma if_eq_cases: "x = (if P then a else b) \<Longrightarrow> x = a \<or> x = b"
  by (simp split: if_splits)

lemma process_order_into_int64:
  assumes wf: "book_wf b" "tb_wf t" and prices: "int64_book b" "is_int64 (ord_price inc)"
    and res: "process_order_into b inc t = (r, b', t')"
  shows "int64_book b'"
proof (cases "ord_remaining inc = 0 \<or> ord_tif inc = FillOrKill \<and> executable_quantity b inc < ucast (ord_remaining inc)")
  case True
  then show ?thesis
    using res prices process_order_into_rejects [of inc b t] process_order_into_kills [of inc b t] by auto
next
  case False
  let ?s = "ord_side inc"
  obtain fills n q' where sweep: "queue_sweep inc (resting (opposite ?s) b) = (fills, n, q')" by (metis prod_cases3)
  have live: "ord_remaining inc \<noteq> 0" "\<not> (ord_tif inc = FillOrKill \<and> executable_quantity b inc < ucast (ord_remaining inc))"
    using False by simp_all
  obtain u b2 t2 where run: "process_order_into b inc t = (u, b2, t2)" "resting (opposite ?s) b2 = q'"
    "resting ?s b2 = queue_insert ?s (inc\<lparr>ord_remaining := n\<rparr>) (resting ?s b) \<or> resting ?s b2 = resting ?s b"
    using process_order_into_runs [OF wf live refl sweep] by (elim exE conjE) (rule that, assumption, assumption, erule if_eq_cases)
  have "b2 = b'" using res run(1) by simp
  then have same: "resting (opposite ?s) b' = q'" using run(2) by simp
  have own: "set (resting ?s b') \<subseteq> insert (inc\<lparr>ord_remaining := n\<rparr>) (set (resting ?s b))"
    using run(3) unfolding \<open>b2 = b'\<close> by (elim disjE) (simp_all add: subset_insertI)
  have "ord_price ` set (resting ?s b') \<subseteq> insert (ord_price inc) (ord_price ` set (resting ?s b))"
    using image_mono [OF own, of ord_price] by simp
  moreover have "ord_price ` set (resting (opposite ?s) b') \<subseteq> ord_price ` set (resting (opposite ?s) b)"
    unfolding same by (rule sweep_prices [OF sweep])
  ultimately show ?thesis using prices unfolding int64_book_side [of _ ?s] image_subset_iff by (metis UnE UnI1 UnI2 imageE insertE)
qed

lemma process_order_int64:
  assumes "book_wf b" "int64_book b" "is_int64 (ord_price inc)"
  shows "int64_book (snd (process_order b inc))"
  using assms process_order_into_int64 [of b default_trade_buffer inc]
  by (auto simp: process_order_def split: prod.split sum.split)

lemma extract_order_int64:
  assumes "book_wf b" "int64_book b" "extract_order i b = (e, b')"
  shows "int64_book b' \<and> book_wf b'"
  using assms(1,3)
proof (cases rule: extract_order_cases)
  case (removed x s)
  then show ?thesis using assms(2) by (auto simp: int64_book_side [of _ s] queue_remove_def)
qed (use assms in simp_all)

lemma engine_cancel_order_int64: "book_wf b \<Longrightarrow> int64_book b \<Longrightarrow> int64_book (snd (engine_cancel_order b i))"
  using extract_order_int64 [of b i]
  by (auto simp: engine_cancel_order_def book_cancel_order_def split: prod.splits sum.splits option.splits)

lemma replace_order_into_int64:
  assumes "book_wf b" "tb_wf t" "int64_book b" "is_int64 p" "replace_order_into b i p q time t = (r, b', t')"
  shows "int64_book b'"
proof -
  obtain e b1 where ext: "extract_order i b = (e, b1)" by (metis surj_pair)
  note b1 = extract_order_int64 [OF assms(1,3) ext]
  have step: "int64_book b2" if "process_order_into b1 x (tb_clear t) = (u, b2, t2)" "ord_price x = p" for x u b2 t2
    using process_order_into_int64 [OF _ buf.inv_clear [OF assms(2)] _ _ that(1)] b1 assms(4) that(2) by simp
  show ?thesis
    using assms(3,5) ext b1
    by (auto simp: replace_order_into_def Let_def intro: step split: if_splits sum.splits option.splits prod.splits)
qed

lemma replace_order_int64:
  assumes "book_wf b" "int64_book b" "is_int64 p"
  shows "int64_book (snd (replace_order b i p q time))"
proof -
  obtain r b' t' where into: "replace_order_into b i p q time default_trade_buffer = (r, b', t')" by (metis prod_cases3)
  have "tb_wf default_trade_buffer" by simp
  then show ?thesis
    using replace_order_into_replace_order(1) [OF _ into] replace_order_into_int64 [OF assms(1) _ assms(2,3) into] by simp
qed

section \<open>Recovered books\<close>

definition int64_books :: "(string \<rightharpoonup> OrderBook) \<Rightarrow> bool" where
  "int64_books B \<longleftrightarrow> (\<forall>y b. B y = Some b \<longrightarrow> int64_book b)"

lemma int64_new_book [simp]: "int64_book new_book"
  unfolding int64_book_side [of _ Buy] by (simp add: resting_def new_book_def ladder_orders_def ladder_nodes_def)

lemma apply_request_int64:
  assumes "books_reachable B" "int64_books B" "request_ok q"
  shows "int64_books (apply_request q B)"
proof -
  have upd: "int64_books (B(y \<mapsto> b))" if "int64_book b" for y b
    using assms(2) that by (simp add: int64_books_def)
  have known: "book_wf b \<and> int64_book b" if "B y = Some b" for y b
    using assms(1,2) that reachable_engine_inv [of b] by (auto simp: books_reachable_def int64_books_def engine_inv_def)
  have new: "book_wf (case B y of None \<Rightarrow> new_book | Some b \<Rightarrow> b) \<and> int64_book (case B y of None \<Rightarrow> new_book | Some b \<Rightarrow> b)"
    for y using known reachable_engine_inv [OF reach_new] by (auto simp: engine_inv_def split: option.split)
  show ?thesis
  proof (cases q)
    case (NewReq n)
    then have "is_int64 (ord_price (order_of_request n))"
      using assms(3) by (simp add: new_order_valid_def order_of_request_def Let_def)
    then show ?thesis using NewReq upd new process_order_int64 by (simp add: Let_def)
  next
    case (CancelReq c)
    then show ?thesis
      using assms(2) upd known engine_cancel_order_int64 by (auto simp: Let_def split: option.split)
  next
    case (ReplaceReq r)
    then have "is_int64 (ror_new_price r)" using assms(3) by (simp add: replace_order_valid_def)
    then show ?thesis
      using ReplaceReq assms(2) upd known replace_order_int64 by (auto simp: Let_def split: option.split)
  qed
qed

definition replay_int64 :: "ExchangeReplayer \<Rightarrow> bool" where
  "replay_int64 rp \<longleftrightarrow> replay_sound rp \<and> int64_books (books_of rp)"

lemma replay_int64_cong: "replay_sound rp' = replay_sound rp \<Longrightarrow> books_of rp' = books_of rp \<Longrightarrow> replay_int64 rp' = replay_int64 rp"
  by (simp add: replay_int64_def)

lemma replay_requests_int64:
  assumes "replay_int64 rp"
  shows "int64_books (books_of (replay_new_order body rp))" "int64_books (books_of (replay_cancel_order body rp))"
    "int64_books (books_of (replay_replace_order body rp))"
proof -
  have ok: "replayer_ok rp" "books_reachable (books_of rp)" "int64_books (books_of rp)"
    using assms by (simp_all add: replay_int64_def replay_sound_def)
  note run = apply_request_int64 [OF ok(2,3)]
  show "int64_books (books_of (replay_new_order body rp))"
    using replay_new_order_cases [OF ok(1), of body] ok(3) run [of "NewReq _"] new_order.dec_valid [of body]
    by (cases "decode_new_order body") (auto simp: not_less simp del: apply_request.simps)
  show "int64_books (books_of (replay_cancel_order body rp))"
    using replay_cancel_order_cases [OF ok(1), of body] ok(3) run [of "CancelReq _"] cancel_order.dec_valid [of body]
    by (cases "decode_cancel_order body") (auto simp del: apply_request.simps)
  show "int64_books (books_of (replay_replace_order body rp))"
    using replay_replace_order_cases [OF ok(1), of body] ok(3) run [of "ReplaceReq _"] replace_order.dec_valid [of body]
    by (cases "decode_replace_order body") (auto simp: not_less simp del: apply_request.simps)
qed
lemma replay_record_int64:
  assumes "replay_int64 rp"
  shows "replay_int64 (replay_record bytes rp)"
proof -
  have irrelevant: "replay_int64 (rp'\<lparr>rp_summary := s\<rparr>) = replay_int64 rp'" "replay_int64 (count_rejected rp') = replay_int64 rp'"
    for rp' s
    by (simp_all add: replay_int64_def replay_sound_def replayer_ok_def)
  have "int64_books (books_of (replay_record bytes rp))"
    using assms replay_requests_int64 [of "rp\<lparr>rp_summary := s\<rparr>" for s]
    by (auto simp: replay_record_def Let_def irrelevant replay_int64_def [of rp] split: option.split MessageType.split)
  then show ?thesis using assms replay_record_sound by (simp add: replay_int64_def)
qed

lemma replay_loop_int64: "replay_int64 rp \<Longrightarrow> replay_int64 (snd (replay_loop input rp))"
proof (induction input rp rule: replay_loop.induct)
  case (1 input rp)
  have irrelevant: "replay_int64 (count_rejected rp) = replay_int64 rp" "replay_int64 (count_symbols rp) = replay_int64 rp"
    by (simp_all add: replay_int64_def replay_sound_def replayer_ok_def)
  show ?case
    using 1 by (subst replay_loop.simps) (auto simp: Let_def irrelevant replay_record_int64)
qed

definition server_int64 :: "ExchangeServer \<Rightarrow> bool" where
  "server_int64 sv \<longleftrightarrow> (\<forall>y. int64_book (live_book sv y))"

lemma start_server_int64:
  assumes "start_server env (fresh_server limits faults) = (True, sv)"
  shows "server_int64 sv"
proof -
  have "replay_int64 (replay_reset new_replayer)"
    using replay_reset_sound [OF new_replayer_ok] by (simp add: replay_int64_def int64_books_def)
  then have "int64_books (books_of (snd (replay (Some (file_contents (se_file env))) new_replayer)))"
    using replay_loop_int64 by (simp add: replay_def Let_def replay_int64_def)
  then show ?thesis
    using start_server_views(1) [OF assms]
    by (auto simp: server_int64_def int64_books_def book_at_def split: option.split)
qed

section \<open>The messages of a settlement\<close>

definition wire_symbol_ok :: "Symbol \<Rightarrow> bool" where
  "wire_symbol_ok y \<longleftrightarrow> length y = symbol_size \<and> is_valid_symbol y"

text \<open>The trades of an order that entered a book, on orders with 64-bit prices.\<close>

definition trade_ok :: "Trade \<Rightarrow> bool" where
  "trade_ok t \<longleftrightarrow> is_int64 (tr_price t) \<and> tr_quantity t \<noteq> 0"

lemma report_fills_executions:
  "fr_executions (report_fills instrument y i socket client ts risk) =
     map (\<lambda>t. \<lparr>l3e_buy_order_id = tr_buy_order_id t, l3e_sell_order_id = tr_sell_order_id t, l3e_price = tr_price t,
       l3e_quantity = ucast (tr_quantity t), l3e_sequence_number = 0, l3e_symbol = y\<rparr>) ts"
proof -
  have "fr_executions (fold (report_trade instrument y i socket client) ts report) = fr_executions report @
     map (\<lambda>t. \<lparr>l3e_buy_order_id = tr_buy_order_id t, l3e_sell_order_id = tr_sell_order_id t, l3e_price = tr_price t,
       l3e_quantity = ucast (tr_quantity t), l3e_sequence_number = 0, l3e_symbol = y\<rparr>) ts" for report
    by (induction ts arbitrary: report) (simp_all add: report_trade_def Let_def)
  then show ?thesis by (simp add: report_fills_def)
qed

text \<open>A delivery goes to the sockets that the owner map names for the two orders.\<close>

definition delivery_of :: "InstrumentState \<Rightarrow> Symbol \<Rightarrow> OrderId \<Rightarrow> int \<Rightarrow> RiskClientId \<Rightarrow> Trade \<Rightarrow> ExecutionDelivery" where
  "delivery_of instrument y i socket client t =
     (let buyer = find_order_owner instrument (tr_buy_order_id t) i socket client;
          seller = find_order_owner instrument (tr_sell_order_id t) i socket client
      in \<lparr>dl_trade = t, dl_symbol = y, dl_buyer_socket = ow_socket buyer, dl_seller_socket = ow_socket seller,
          dl_buyer_risk_client_id = ow_risk_client_id buyer, dl_seller_risk_client_id = ow_risk_client_id seller\<rparr>)"

lemma report_fills_deliveries:
  "fr_deliveries (report_fills instrument y i socket client ts risk) = map (delivery_of instrument y i socket client) ts"
proof -
  have "fr_deliveries (fold (report_trade instrument y i socket client) ts report) =
      fr_deliveries report @ map (delivery_of instrument y i socket client) ts" for report
    by (induction ts arbitrary: report) (simp_all add: report_trade_def delivery_of_def Let_def)
  then show ?thesis by (simp add: report_fills_def)
qed

lemma settle_fills_deliveries:
  "fr_deliveries (st_report (settle_fills h y i socket client ts instrument risk)) =
     map (delivery_of instrument y i socket client) ts"
  by (simp add: settle_fills_def Let_def report_fills_deliveries split: option.split)

lemma ucast_quantity_positive: "(q :: Quantity) \<noteq> 0 \<Longrightarrow> (ucast q :: u64) \<noteq> 0"
proof
  assume "q \<noteq> 0" and "(ucast q :: u64) = 0"
  moreover have "unat (ucast q :: u64) = unat q"
    using unsigned_less [of q, where 'a = nat] by (simp add: unsigned_ucast_eq take_bit_nat_eq_self)
  ultimately show False by (simp add: unat_eq_zero)
qed

lemma settled_events_valid:
  assumes "wire_symbol_ok y" "\<forall>t\<in>set ts. trade_ok t" "book_wf b" "int64_book b"
    and "settlement = settle_fills h y i socket client ts (inst\<lparr>in_book := b\<rparr>) risk"
  shows "\<forall>x\<in>set (fr_executions (st_report settlement)). level3_order_executed_valid x"
    "\<forall>d\<in>set (st_deletions settlement). \<exists>j. d = level3_deleted_of y j"
    "st_add settlement = Some a \<Longrightarrow> level3_add_order_valid a"
    "\<forall>d\<in>set (fr_deliveries (st_report settlement)). dl_symbol d = y \<and> trade_ok (dl_trade d)"
proof -
  show "\<forall>x\<in>set (fr_executions (st_report settlement)). level3_order_executed_valid x"
    using assms(1,2)
    by (auto simp: assms(5) settle_fills_def Let_def report_fills_executions level3_order_executed_valid_def
        wire_symbol_ok_def trade_ok_def ucast_quantity_positive split: option.split)
  show "\<forall>d\<in>set (st_deletions settlement). \<exists>j. d = level3_deleted_of y j"
    by (auto simp: assms(5) settle_fills_def Let_def split: option.splits)
  show "\<forall>d\<in>set (fr_deliveries (st_report settlement)). dl_symbol d = y \<and> trade_ok (dl_trade d)"
    using assms(2) by (auto simp: assms(5) settle_fills_deliveries delivery_of_def Let_def)
  assume add: "st_add settlement = Some a"
  then obtain x where x: "find_order b i = Some x" "a = level3_add_of y x"
    by (auto simp: assms(5) settle_fills_def Let_def split: option.splits)
  then have "ord_remaining x \<noteq> 0 \<and> is_int64 (ord_price x)"
    using find_order_iff [OF assms(3)] resting_positive [OF assms(3)] assms(4) by (auto simp: int64_book_def)
  then show "level3_add_order_valid a"
    using assms(1) by (simp add: x(2) level3_add_of_def level3_add_order_valid_def wire_symbol_ok_def ucast_quantity_positive)
qed

lemma fills_trade_ok:
  assumes "filled_book b x fills b'" "book_wf b0" "int64_book b0"
    and "\<And>i z. find_order b i = Some z \<Longrightarrow> find_order b0 i = Some z"
  shows "\<forall>t\<in>set (map (fill_trade x) fills). trade_ok t"
proof -
  have "is_int64 (ord_price (fst f)) \<and> snd f \<noteq> 0" if "f \<in> set fills" for f
  proof -
    have "find_order b (ord_id (fst f)) = Some (fst f)" and "snd f \<noteq> 0"
      using assms(1) that unfolding filled_book_def by blast+
    moreover from this(1) have "find_order b0 (ord_id (fst f)) = Some (fst f)" by (rule assms(4))
    then have "fst f \<in> set (resting Buy b0) \<union> set (resting Sell b0)" using find_order_iff [OF assms(2)] by blast
    then have "is_int64 (ord_price (fst f))" using assms(3) by (auto simp: int64_book_def)
    ultimately show ?thesis by blast
  qed
  then show ?thesis by (auto simp: trade_ok_def fill_trade_def)
qed

lemma snapshot_valid:
  assumes "wire_symbol_ok y" "book_wf b" "int64_book b" "capture_book_snapshot y b = Inr snapshot"
  shows "bs_symbol snapshot = y" "bs_has_bid snapshot \<Longrightarrow> is_int64 (bs_best_bid snapshot)"
    "bs_has_ask snapshot \<Longrightarrow> is_int64 (bs_best_ask snapshot)"
proof -
  have prices: "best_bid b = Inr p \<Longrightarrow> is_int64 p" "best_ask b = Inr p \<Longrightarrow> is_int64 p" for p
    using assms(3) unfolding best_bid_resting [OF assms(2)] best_ask_resting [OF assms(2)] int64_book_def
    by (auto split: list.splits) (metis list.set_intros(1))+
  show "bs_symbol snapshot = y" "bs_has_bid snapshot \<Longrightarrow> is_int64 (bs_best_bid snapshot)"
    "bs_has_ask snapshot \<Longrightarrow> is_int64 (bs_best_ask snapshot)"
    using assms(4) prices by (auto simp: capture_book_snapshot_def Let_def split: if_splits sum.splits)
qed

section \<open>A property of the outgoing messages\<close>

definition same_log :: "ExchangeServer \<Rightarrow> ExchangeServer \<Rightarrow> bool" where
  "same_log sv sv' \<longleftrightarrow> sv_sent sv' = sv_sent sv \<and> sv_datagrams sv' = sv_datagrams sv \<and>
     sv_next_sequence_number sv' = sv_next_sequence_number sv"

lemma same_log_steps:
  "same_log sv (set_instrument y inst sv)" "same_log sv (sv\<lparr>sv_risk_engine := re\<rparr>)"
  "instrument_for y sv = (inst, sv') \<Longrightarrow> same_log sv sv'"
  "append_journal_record header body sv = (r, sv') \<Longrightarrow> same_log sv sv'"
  "register_client socket sv = (c, sv') \<Longrightarrow> same_log sv sv'" "same_log sv (unregister_client socket sv)"
  "same_log sv (server_set_global_kill_switch v sv)"
  by (auto simp: same_log_def set_instrument_def instrument_for_def append_journal_record_def register_client_def
      unregister_client_def server_set_global_kill_switch_def Let_def split: option.splits prod.splits)

locale message_log =
  fixes log_ok :: "ExchangeServer \<Rightarrow> bool"
  assumes log_same: "log_ok sv \<Longrightarrow> same_log sv sv' \<Longrightarrow> log_ok sv'"
    and log_response: "log_ok sv \<Longrightarrow> t \<in> {MT_OrderAccepted, MT_OrderRejected, MT_OrderCancelled, MT_OrderReplaced} \<Longrightarrow>
      log_ok (send_order_response socket i ok t sv)"
    and log_execution: "log_ok sv \<Longrightarrow> wire_symbol_ok y \<Longrightarrow> trade_ok x \<Longrightarrow> log_ok (send_trade_execution socket y x sv)"
    and log_event: "log_ok sv \<Longrightarrow> event_valid e \<Longrightarrow> fetch_sequence_number sv = (n, sv') \<Longrightarrow>
      log_ok (broadcast (outgoing_message (event_type e) n (event_body e)) sv')"
begin

lemma log_steps:
  "log_ok sv \<Longrightarrow> log_ok (set_instrument y inst sv)" "log_ok sv \<Longrightarrow> log_ok (sv\<lparr>sv_risk_engine := re\<rparr>)"
  by (erule log_same, rule same_log_steps)+

lemma log_deleted:
  assumes "log_ok sv" "wire_symbol_ok y"
  shows "log_ok (broadcast_level3_order_deleted (level3_deleted_of y i) sv)"
  using assms log_event [of sv "Delete_Event ((level3_deleted_of y i)\<lparr>l3d_sequence_number := fst (fetch_sequence_number sv)\<rparr>)"
      "fst (fetch_sequence_number sv)" "snd (fetch_sequence_number sv)"]
  by (simp add: broadcast_level3_order_deleted_def level3_deleted_of_def split_beta wire_symbol_ok_def
      level3_order_deleted_valid_def)

lemma log_executed:
  assumes "log_ok sv" "level3_order_executed_valid x"
  shows "log_ok (broadcast_level3_order_executed x sv)"
  using assms log_event [of sv "Execute_Event (x\<lparr>l3e_sequence_number := fst (fetch_sequence_number sv)\<rparr>)"
      "fst (fetch_sequence_number sv)" "snd (fetch_sequence_number sv)"]
  by (simp add: broadcast_level3_order_executed_def split_beta level3_order_executed_valid_def)

lemma log_add:
  assumes "log_ok sv" "level3_add_order_valid a"
  shows "log_ok (broadcast_level3_add_order a sv)"
  using assms log_event [of sv "Add_Event (a\<lparr>l3a_sequence_number := fst (fetch_sequence_number sv)\<rparr>)"
      "fst (fetch_sequence_number sv)" "snd (fetch_sequence_number sv)"]
  by (simp add: broadcast_level3_add_order_def split_beta level3_add_order_valid_def)

lemma log_book:
  assumes "log_ok sv" "wire_symbol_ok y" "book_wf b" "int64_book b" "capture_book_snapshot y b = Inr snapshot"
  shows "log_ok (broadcast_book_update snapshot sv)"
proof -
  note snapshot = snapshot_valid [OF assms(2-)]
  let ?n = "fst (fetch_sequence_number sv)"
  let ?u = "\<lparr>bku_has_bid = (if bs_has_bid snapshot then 1 else 0),
      bku_best_bid = (if bs_has_bid snapshot then bs_best_bid snapshot else 0),
      bku_bid_quantity = (if bs_has_bid snapshot then ucast (bs_bid_quantity snapshot) else 0),
      bku_has_ask = (if bs_has_ask snapshot then 1 else 0),
      bku_best_ask = (if bs_has_ask snapshot then bs_best_ask snapshot else 0),
      bku_ask_quantity = (if bs_has_ask snapshot then ucast (bs_ask_quantity snapshot) else 0),
      bku_sequence_number = ?n, bku_symbol = bs_symbol snapshot\<rparr>"
  have "book_update_valid ?u"
    using snapshot assms(2) by (auto simp: book_update_valid_def wire_symbol_ok_def is_int64_def)
  then show ?thesis
    using assms(1) log_event [of sv "Book_Event ?u" ?n "snd (fetch_sequence_number sv)"]
    by (simp add: broadcast_book_update_def split_beta Let_def)
qed

lemma log_fold:
  assumes "\<And>x sv. x \<in> set xs \<Longrightarrow> log_ok sv \<Longrightarrow> log_ok (f x sv)" "log_ok sv"
  shows "log_ok (fold f xs sv)"
  using assms by (induction xs arbitrary: sv) simp_all

lemma log_deliveries:
  assumes "log_ok sv" "wire_symbol_ok y" "\<forall>d\<in>set ds. dl_symbol d = y \<and> trade_ok (dl_trade d)"
  shows "log_ok (send_execution_deliveries ds sv)"
  unfolding send_execution_deliveries_def using assms by (intro log_fold log_execution) auto

lemma log_settled:
  assumes "log_ok sv" "wire_symbol_ok y" "\<forall>t\<in>set ts. trade_ok t" "book_wf b" "int64_book b"
    and "settlement = settle_fills h y i socket client ts (inst\<lparr>in_book := b\<rparr>) risk"
  shows "log_ok (broadcast_executions settlement sv)"
proof -
  note valid = settled_events_valid [OF assms(2-)]
  have "log_ok (fold broadcast_level3_order_executed (fr_executions (st_report settlement)) sv)"
    using valid(1) assms(1) by (intro log_fold) (auto intro: log_executed)
  then have "log_ok (fold broadcast_level3_order_deleted (st_deletions settlement)
      (fold broadcast_level3_order_executed (fr_executions (st_report settlement)) sv))"
    using valid(2) assms(2) by (intro log_fold [where f = broadcast_level3_order_deleted]) (auto intro: log_deleted)
  then show ?thesis
    using valid(3) by (auto simp: broadcast_executions_def Let_def intro: log_add split: option.split)
qed

text \<open>The end of the two handlers that enter an order.\<close>

lemma log_report:
  assumes "log_ok sv" "t \<in> {MT_OrderAccepted, MT_OrderRejected, MT_OrderCancelled, MT_OrderReplaced}"
    and "wire_symbol_ok y" "\<forall>t\<in>set ts. trade_ok t" "book_wf b" "int64_book b"
    and "settlement = settle_fills h y i socket client ts (inst\<lparr>in_book := b\<rparr>) risk"
    and "capture_book_snapshot y b = Inr snapshot"
  shows "log_ok (broadcast_executions settlement (broadcast_book_update snapshot
      (send_execution_deliveries (fr_deliveries (st_report settlement)) (send_order_response socket j ok t sv))))"
    (is ?new)
    and "log_ok (broadcast_executions settlement (broadcast_level3_order_deleted (level3_deleted_of y k)
       (broadcast_book_update snapshot
         (send_execution_deliveries (fr_deliveries (st_report settlement)) (send_order_response socket j ok t sv)))))"
    (is ?replaced)
proof -
  have "log_ok (send_execution_deliveries (fr_deliveries (st_report settlement)) (send_order_response socket j ok t sv))"
    using log_deliveries [OF log_response [OF assms(1,2)] assms(3) settled_events_valid(4) [OF assms(3-7)]] .
  note book = log_book [OF this assms(3,5,6,8)]
  show ?new by (rule log_settled [OF book assms(3-7)])
  show ?replaced by (rule log_settled [OF log_deleted [OF book assms(3)] assms(3-7)])
qed

section \<open>Handlers and runs\<close>

lemma log_rejected:
  assumes "log_ok sv" "rejects socket sv sv'"
  shows "log_ok sv'"
proof -
  obtain i where "same_log (send_order_response socket i False MT_OrderRejected sv) sv'"
    using assms(2) by (auto simp: rejects_def same_log_def send_order_response_sent)
  then show ?thesis using log_same log_response [OF assms(1), of MT_OrderRejected socket i False] by blast
qed

lemma log_enter_new_order:
  assumes log: "log_ok sv" and wire: "wire_symbol_ok (nor_symbol request)"
    and run: "process_order_into (live_book sv (symbol_to_string (nor_symbol request))) (server_order request) trades =
        (r, b, t)" "book_wf b" "int64_book b" "\<forall>x\<in>set (tb_to_vector t). trade_ok x"
    and res: "enter_new_order h socket header body request trades sv = (Inr (), trades', sv')"
  shows "log_ok sv'"
proof -
  let ?y = "symbol_to_string (nor_symbol request)"
  obtain inst sv1 where i: "instrument_for ?y sv = (inst, sv1)" by (metis surj_pair)
  obtain rj sv2 where j: "append_journal_record header body sv1 = (rj, sv2)" by (metis surj_pair)
  have sv1: "log_ok sv1" using log_same [OF log same_log_steps(3) [OF i]] .
  have sv2: "log_ok sv2" using log_same [OF sv1 same_log_steps(4) [OF j]] .
  have book: "in_book inst = live_book sv ?y"
    using i by (auto simp: instrument_for_def live_book_def new_instrument_def split: option.splits)
  note published = log_report(1) [OF _ _ wire _ run(2,3) refl]
  show ?thesis
    using res i j run(1) [folded book] run(4) sv1 sv2
    by (auto simp: enter_new_order_def Let_def intro!: published log_response log_steps split: if_splits sum.splits)
qed

lemma log_new_order:
  assumes inv: "server_inv sv" "server_int64 sv" and log: "log_ok sv" and t: "tb_wf trades"
    and res: "handle_new_order h socket header body trades sv = (Inr (), trades', sv')"
  shows "server_int64 sv' \<and> log_ok sv'"
  using res
proof (cases rule: handle_new_order_cases)
  case rejected
  then show ?thesis using inv log_rejected [OF log] by (simp add: undisturbed_def server_int64_def)
next
  case (entered request book res)
  let ?y = "symbol_to_string (nor_symbol request)" and ?x = "server_order request"
  have valid: "wire_symbol_ok (nor_symbol request)" "is_int64 (ord_price ?x)" "ord_remaining ?x \<noteq> 0"
    using new_order.dec_valid [of body request] entered(2,3) ucast_quantity_nonzero
    by (simp_all add: new_order_valid_def wire_symbol_ok_def server_order_def)
  have b: "book_wf (live_book sv ?y)" "int64_book (live_book sv ?y)"
    using server_invD(2) [OF inv(1)] inv(2) by (simp_all add: server_int64_def)
  have "find_order (live_book sv ?y) (ord_id ?x) = None" using entered(5) by simp
  from process_order_into_fills [OF b(1) t valid(3) this] obtain fills where
    fills: "book_wf book" "tb_to_vector trades' = map (fill_trade ?x) fills" "filled_book (live_book sv ?y) ?x fills book"
    using entered(8) by auto
  have int64: "int64_book book" by (rule process_order_into_int64 [OF b(1) t b(2) valid(2) entered(8)])
  have trades: "\<forall>x\<in>set (tb_to_vector trades'). trade_ok x" using fills_trade_ok [OF fills(3) b] fills(2) by simp
  have enter: "enter_new_order h socket header body request trades sv = (Inr (), trades', sv')"
    using res entered(1,2,3,4) by (auto simp: handle_new_order_def not_less [symmetric])
  have "log_ok sv'"
    by (rule log_enter_new_order [OF log valid(1) entered(8) fills(1) int64 trades enter])
  moreover have "server_int64 sv'" using entered(9) int64 inv(2) by (simp add: server_int64_def)
  ultimately show ?thesis by blast
qed simp_all

lemma log_cancel_resting_order:
  assumes log: "log_ok sv" and wire: "wire_symbol_ok (cor_symbol request)"
    and cancel: "engine_cancel_order (in_book inst) (cor_order_id request) = (rc, b)" "book_wf b" "int64_book b"
    and res: "cancel_resting_order socket header body request inst sv = (Inr (), sv')"
  shows "log_ok sv'"
proof -
  obtain rj sv2 where j: "append_journal_record header body sv = (rj, sv2)" by (metis surj_pair)
  have sv2: "log_ok sv2" using log_same [OF log same_log_steps(4) [OF j]] .
  have published: "log_ok (broadcast_level3_order_deleted (level3_deleted_of (cor_symbol request) i)
      (broadcast_book_update snapshot sv3))"
    if "log_ok sv3" "capture_book_snapshot (cor_symbol request) b = Inr snapshot" for i snapshot sv3
    using log_deleted [OF log_book [OF that(1) wire cancel(2,3) that(2)] wire] .
  show ?thesis
    using res j cancel(1) sv2
    by (auto simp: cancel_resting_order_def Let_def intro!: published log_response log_steps split: sum.splits if_splits)
qed

lemma log_cancel_order:
  assumes inv: "server_inv sv" "server_int64 sv" and log: "log_ok sv"
    and res: "handle_cancel_order socket header body sv = (Inr (), sv')"
  shows "server_int64 sv' \<and> log_ok sv'"
  using res
proof (cases rule: handle_cancel_order_cases)
  case rejected
  then show ?thesis using inv log_rejected [OF log] by (simp add: undisturbed_def server_int64_def)
next
  case (entered request book res)
  let ?y = "symbol_to_string (cor_symbol request)"
  have wire: "wire_symbol_ok (cor_symbol request)"
    using cancel_order.dec_valid [of body request] entered(2) by (simp add: cancel_order_valid_def wire_symbol_ok_def)
  have b: "book_wf (live_book sv ?y)" "int64_book (live_book sv ?y)"
    using server_invD(2) [OF inv(1)] inv(2) by (simp_all add: server_int64_def)
  have int64: "int64_book book" using engine_cancel_order_int64 [OF b, of "cor_order_id request"] entered(6) by simp
  obtain x where "find_order (live_book sv ?y) (cor_order_id request) = Some x" using entered(4) by auto
  from engine_cancel_lookup [OF b(1) this entered(6)] have wf: "book_wf book" using b(1) by auto
  obtain inst where inst: "find_instrument sv ?y = Some inst" "in_book inst = live_book sv ?y"
    using owned_instrument [of sv ?y] entered(3,4) by (metis find_instrument_views(1))
  have "cancel_resting_order socket header body request inst sv = (Inr (), sv')"
    using res entered(1,2,3,4) inst owns_resting_order_views [OF inst(1)] by (auto simp: handle_cancel_order_def)
  then have "log_ok sv'"
    using log_cancel_resting_order [OF log wire _ wf int64] entered(6) [folded inst(2)] by blast
  moreover have "server_int64 sv'" using entered(7) int64 inv(2) by (simp add: server_int64_def)
  ultimately show ?thesis by blast
qed simp_all

lemma log_replace_resting_order:
  assumes log: "log_ok sv" and wire: "wire_symbol_ok (ror_symbol request)"
    and run: "replace_order_into (in_book inst) (ror_order_id request) (ror_new_price request)
        (ucast (ror_new_quantity request)) (ror_timestamp request) trades = (r, b, t)"
      "book_wf b" "int64_book b" "r = Inr True \<Longrightarrow> \<forall>x\<in>set (tb_to_vector t). trade_ok x"
    and res: "replace_resting_order h socket header body request inst existing trades sv = (Inr (), trades', sv')"
  shows "log_ok sv'"
proof -
  obtain rj sv2 where j: "append_journal_record header body sv = (rj, sv2)" by (metis surj_pair)
  have sv2: "log_ok sv2" using log_same [OF log same_log_steps(4) [OF j]] .
  show ?thesis
  proof (cases "r = Inr True")
    case True
    note published = log_report(2) [OF _ _ wire _ run(2,3) refl]
    show ?thesis
      using res j run(1) [unfolded True] run(4) [OF True] log sv2
      by (auto simp: replace_resting_order_def Let_def intro!: published log_response log_steps
          split: if_splits sum.splits)
  next
    case False
    then show ?thesis
      using res j run(1) log sv2
      by (auto simp: replace_resting_order_def Let_def intro!: log_response log_steps split: if_splits sum.splits)
  qed
qed

lemma log_replace_order:
  assumes inv: "server_inv sv" "server_int64 sv" and log: "log_ok sv" and t: "tb_wf trades"
    and res: "handle_replace_order h socket header body trades sv = (Inr (), trades', sv')"
  shows "server_int64 sv' \<and> log_ok sv'"
  using res
proof (cases rule: handle_replace_order_cases)
  case rejected
  then show ?thesis using inv log_rejected [OF log] by (simp add: undisturbed_def server_int64_def)
next
  case (entered request existing book res)
  let ?y = "symbol_to_string (ror_symbol request)"
  have valid: "wire_symbol_ok (ror_symbol request)" "is_int64 (ror_new_price request)"
    "(ucast (ror_new_quantity request) :: Quantity) \<noteq> 0"
    using replace_order.dec_valid [of body request] entered(2,3) ucast_quantity_nonzero
    by (simp_all add: replace_order_valid_def wire_symbol_ok_def)
  have b: "book_wf (live_book sv ?y)" "int64_book (live_book sv ?y)"
    using server_invD(2) [OF inv(1)] inv(2) by (simp_all add: server_int64_def)
  have int64: "int64_book book" by (rule replace_order_into_int64 [OF b(1) t b(2) valid(2) entered(8)])
  note fills = replace_order_into_fills [OF b(1) t valid(3) entered(5,8)]
  have wf: "book_wf book" using fills b(1) by blast
  have trades: "\<forall>x\<in>set (tb_to_vector trades'). trade_ok x" if "res = Inr True"
  proof -
    obtain b1 x f where b1: "find_order b1 = (find_order (live_book sv ?y))(ror_order_id request := None)"
      "tb_to_vector trades' = map (fill_trade x) f" "filled_book b1 x f book"
      using fills \<open>res = Inr True\<close> by auto
    have "find_order (live_book sv ?y) i = Some z" if "find_order b1 i = Some z" for i z
      using that unfolding b1(1) by (simp split: if_splits)
    then show ?thesis using fills_trade_ok [OF b1(3) b] b1(2) by simp
  qed
  obtain inst where inst: "find_instrument sv ?y = Some inst" "in_book inst = live_book sv ?y"
    using owned_instrument [of sv ?y] entered(4,5) by (metis find_instrument_views(1) option.distinct(1))
  have "replace_resting_order h socket header body request inst existing trades sv = (Inr (), trades', sv')"
    using res entered(1,2,3,4,5) inst owns_resting_order_views [OF inst(1)]
    by (auto simp: handle_replace_order_def not_less [symmetric])
  then have "log_ok sv'"
    using log_replace_resting_order [OF log valid(1) entered(8) [folded inst(2)] wf int64 trades] by blast
  moreover have "server_int64 sv'" using entered(9) int64 inv(2) by (simp add: server_int64_def)
  ultimately show ?thesis by blast
qed simp_all

lemma log_message:
  assumes inv: "server_inv sv" "server_int64 sv" and log: "log_ok sv" and t: "tb_wf trades"
    and res: "handle_message h socket header body trades sv = (Inr (), trades', sv')"
  shows "server_int64 sv' \<and> log_ok sv'"
proof (cases "hdr_type header \<in> {MT_NewOrder, MT_CancelOrder, MT_ReplaceOrder}")
  case False
  then show ?thesis using inv log res by (cases "hdr_type header") (simp_all add: handle_message_def)
next
  case True
  then show ?thesis
    using res log_new_order [OF inv log t] log_replace_order [OF inv log t] log_cancel_order [OF inv log]
    by (auto simp: handle_message_def split: prod.splits)
qed

lemma log_run:
  assumes "server_run start sv" "server_inv start" "server_int64 start" "log_ok start"
  shows "server_int64 sv \<and> log_ok sv"
  using assms(1)
proof induction
  case run_start
  show ?case using assms(3,4) by blast
next
  case (run_connect sv socket c sv')
  then show ?case
    using session_steps_undisturbed(1) [OF run_connect(2)] log_same same_log_steps(5)
    by (auto simp: server_int64_def)
next
  case (run_disconnect sv socket)
  then show ?case using log_same same_log_steps(6) by (auto simp: server_int64_def session_steps_undisturbed)
next
  case (run_kill_switch sv v)
  then show ?case using log_same same_log_steps(7) by (auto simp: server_int64_def session_steps_undisturbed)
next
  case (run_message sv bytes header body trades hash_order socket trades' sv')
  then show ?case using log_message server_run_inv [OF run_message(1) assms(2)] by blast
qed

end

section \<open>A started server has sent nothing\<close>

lemma adopt_books_log: "same_log sv (snd (fold adopt_book books (n, sv)))"
proof (induction books arbitrary: n sv)
  case (Cons p books)
  have "same_log sv (snd (adopt_book p (n, sv)))"
    by (auto simp: same_log_def adopt_book_def set_instrument_def Let_def instrument_for_def swap_books_def
        split: prod.splits option.splits)
  then show ?case
    using Cons.IH [of "snd (adopt_book p (n, sv))" "fst (adopt_book p (n, sv))"] by (simp add: same_log_def)
qed (simp add: same_log_def)

lemma recover_log: "same_log sv (snd (recover_from_journal path sv))"
  using adopt_books_log
  by (cases path) (simp_all add: same_log_def recover_from_journal_def Let_def case_prod_beta del: fold_simps)

lemma start_server_log:
  assumes "start_server env (fresh_server limits faults) = (True, sv)"
  shows "same_log (fresh_server limits faults) sv"
proof -
  obtain ok s where rec: "recover_from_journal (se_file env) (fresh_server limits faults) = (ok, s)" by (metis surj_pair)
  have "same_log (fresh_server limits faults) s"
    using recover_log [of "fresh_server limits faults" "se_file env"] unfolding rec by simp
  moreover have "\<not> sv_recovery_completed (fresh_server limits faults)" by (simp add: fresh_server_def new_server_def)
  ultimately show ?thesis
    using assms
    by (auto simp: same_log_def start_server_def Let_def rec open_server_journal_def split: if_splits sum.splits prod.splits)
qed

lemma start_server_silent:
  assumes "start_server env (fresh_server limits faults) = (True, sv)"
  shows "sv_sent sv = []" "sv_datagrams sv = []" "sv_next_sequence_number sv = 1"
  using start_server_log [OF assms] by (simp_all add: same_log_def fresh_server_def new_server_def)

end
