(* ===== verification/Market_Data_Feed.thy ===== *)
theory Market_Data_Feed
  imports Server_Messages
begin

text \<open>
  From the exchange to the browser: every datagram the server publishes is a well-formed market data event, which the
  WebSocket gateway turns into a JSON text that reads back to the event and broadcasts to its clients.
\<close>

section \<open>Published events\<close>

definition event_datagram :: "u8 list \<Rightarrow> bool" where
  "event_datagram d \<longleftrightarrow> (\<exists>n e. event_valid e \<and> d = outgoing_message (event_type e) n (event_body e))"

definition feed_ok :: "ExchangeServer \<Rightarrow> bool" where
  "feed_ok sv \<longleftrightarrow> (\<forall>d\<in>set (sv_datagrams sv). event_datagram d)"

lemma send_to_all_datagrams [simp]: "sv_datagrams (fold (\<lambda>socket. send_to socket m) sockets sv) = sv_datagrams sv"
  by (induction sockets arbitrary: sv) (simp_all add: send_to_def)

lemma broadcast_datagrams: "sv_datagrams (broadcast m sv) = sv_datagrams sv @ (if sv_multicast sv then [m] else [])"
  by (simp add: broadcast_def Let_def)

interpretation feed: message_log feed_ok
proof unfold_locales
  fix sv sv' n e
  assume "feed_ok sv" "event_valid e" "fetch_sequence_number sv = (n, sv')"
  then show "feed_ok (broadcast (outgoing_message (event_type e) n (event_body e)) sv')"
    by (auto simp: feed_ok_def broadcast_datagrams event_datagram_def fetch_sequence_number_def)
qed (auto simp: feed_ok_def same_log_def send_order_response_sent send_trade_execution_def fetch_sequence_number_def
    send_to_def Let_def)

lemma outgoing_event: "outgoing_message (event_type e) n (event_body e) = encode_header (event_header n e) @ event_body e"
  by (simp add: outgoing_message_def event_header_def)

lemma event_datagram_size: "event_valid e \<Longrightarrow> length (outgoing_message (event_type e) n (event_body e)) \<le> 2048"
  using book_update.enc_size level3_add_order.enc_size level3_order_executed.enc_size level3_order_deleted.enc_size
    header.enc_size [OF event_header_valid, of n e]
  unfolding outgoing_event by (cases e) (simp_all add: header_size_def book_update_body_size_def level3_add_order_body_size_def
      level3_order_executed_body_size_def level3_order_deleted_body_size_def)

section \<open>End to end\<close>

text \<open>
  C7. What the exchange publishes leaves the gateway unchanged, for a reader with exact integers: start a server on any
  journal, let it run through any sessions and messages, and take any datagram it has published. It is the encoding of
  a valid book update or order event; the WebSocket gateway turns it into a JSON text and broadcasts exactly this text,
  and a reader of the text that takes the members by the names the dashboard uses and reads integers exactly gets the
  whole event back. (The dashboard itself reads JavaScript numbers, which round from 2^53 on.)
\<close>

theorem feed_reaches_browsers:
  assumes "start_server env (fresh_server limits faults) = (True, start)" "server_run start sv"
    and "d \<in> set (sv_datagrams sv)"
  shows "\<exists>n e. event_valid e \<and> d = outgoing_message (event_type e) n (event_body e) \<and>
    read_object (market_data_to_json d) = Some (event_json e, []) \<and> json_event (event_json e) = Some e \<and>
    multicast_datagram sends d g = broadcast_text sends (market_data_to_json d) g"
proof -
  have "feed_ok start" using start_server_silent(2) [OF assms(1)] by (simp add: feed_ok_def)
  then have "feed_ok sv"
    using feed.log_run [OF assms(2) start_server_inv [OF assms(1)] start_server_int64 [OF assms(1)]] by blast
  then obtain n e where e: "event_valid e" "d = outgoing_message (event_type e) n (event_body e)"
    using assms(3) by (auto simp: feed_ok_def event_datagram_def)
  have json: "market_data_to_json d = json_text (JObj (event_json e))"
    unfolding e(2) outgoing_event by (rule market_data_to_json_event [OF e(1)])
  have flat: "event_json e \<noteq> []" "\<forall>(k, v)\<in>set (event_json e). plain k \<and> flat v" using event_json_flat [OF e(1)] by auto
  have "read_object (market_data_to_json d) = Some (event_json e, [])"
    using read_object_text [OF flat, of "[]"] by (simp add: json del: json_text.simps)
  moreover have "multicast_datagram sends d g = broadcast_text sends (market_data_to_json d) g"
    using event_datagram_size [OF e(1), of n] json by (simp add: multicast_datagram_def Let_def e(2) [symmetric])
  ultimately show ?thesis using e json_event_reads [OF e(1)] by blast
qed

section \<open>A published order\<close>

lemma published_kept:
  assumes "quiet sv sv'" "sv_datagrams sv \<noteq> []"
  shows "sv_datagrams sv' \<noteq> []"
  using assms by (auto simp: quiet_def)

lemma book_update_published: "sv_multicast sv \<Longrightarrow> sv_datagrams (broadcast_book_update snapshot sv) \<noteq> []"
  by (simp add: broadcast_book_update_def Let_def fetch_sequence_number_def broadcast_datagrams)

lemma multicast_kept [simp]:
  "sv_multicast (send_order_response socket i ok ty sv) = sv_multicast sv"
  "sv_multicast (send_execution_deliveries ds sv) = sv_multicast sv"
  "sv_multicast (set_instrument y inst sv) = sv_multicast sv"
  using quiet_fields(8) [OF quiet_response] quiet_fields(8) [OF quiet_deliveries] by (simp_all add: set_instrument_def)

lemma admitted_order_published:
  assumes "new_order_admitted sv socket header body request" "sv_multicast sv" "sv_journal sv = None"
    and res: "handle_new_order h socket header body trades sv = (Inr (), t, sv')"
  shows "sv_datagrams sv' \<noteq> []"
proof -
  let ?y = "symbol_to_string (nor_symbol request)"
  obtain inst sv1 where i: "instrument_for ?y sv = (inst, sv1)" by (metis surj_pair)
  note views = instrument_for_views [OF i]
  have sv1: "sv_multicast sv1" "sv_journal sv1 = None" "sv_risk_engine sv1 = sv_risk_engine sv"
    "risk_client_id_for_socket sv1 = risk_client_id_for_socket sv"
    using i assms(2,3) by (auto simp: instrument_for_def set_instrument_def risk_client_id_for_socket_def fun_eq_iff split: option.splits)
  have j: "append_journal_record header body sv1 = (Inr (), sv1)" using sv1(2) by (simp add: append_journal_record_def)
  have enter: "enter_new_order h socket header body request trades sv = (Inr (), t, sv')"
    using res assms(1) by (auto simp: handle_new_order_def new_order_admitted_def not_less [symmetric])
  have published: "sv_datagrams (broadcast_executions settlement (broadcast_book_update snapshot sv3)) \<noteq> []"
    if "sv_multicast sv3" for settlement snapshot sv3
    by (rule published_kept [OF quiet_executions book_update_published [OF that]])
  obtain price where price: "reference_price_of sv request = Inr price"
    "accepted (check_new_order (sv_risk_engine sv) (risk_request_of sv socket request price))"
    using assms(1) by (auto simp: new_order_admitted_def)
  have guards: "find_order (in_book inst) (nor_order_id request) = None" "in_order_owners inst (nor_order_id request) = None"
    using assms(1) by (simp_all add: views(1) new_order_admitted_def)
  have reference: "(if ord_type (server_order request) = Market
      then market_reference_price (ord_side (server_order request)) (in_book inst) else Inr None) = Inr price"
    using price(1) by (simp only: reference_price_of_def views(1) InstrumentState.select_convs)
  show ?thesis
    using enter i j guards reference price(2) sv1
    by (auto simp: enter_new_order_def Let_def risk_request_of_def intro!: published split: sum.splits prod.splits)
qed

text \<open>A server with a multicast publisher and no journal, one client and one resting order.\<close>

definition feed_env :: StartEnvironment where
  "feed_env = \<lparr>se_file = Not_Configured, se_journal_opens = True, se_multicast_configured = True,
     se_multicast_starts = True, se_listens = True\<rparr>"

definition feed_started :: ExchangeServer where
  "feed_started = snd (start_server feed_env (fresh_server default_limits []))"

lemma feed_started_ok: "start_server feed_env (fresh_server default_limits []) = (True, feed_started)"
proof -
  have "fst (start_server feed_env (fresh_server default_limits []))" by code_simp
  then show ?thesis unfolding feed_started_def by (metis prod.collapse)
qed

lemma feed_started_fields: "sv_multicast feed_started" "sv_faults feed_started = []" "sv_next_risk_client_id feed_started = 1"
  by code_simp+

definition feed_session :: ExchangeServer where
  "feed_session = snd (register_client 7 feed_started)"

lemma feed_session_views:
  "live_book feed_session = (\<lambda>_. new_book)" "owner_of feed_session = (\<lambda>_. Map.empty)"
  "sv_risk_engine feed_session = new_risk_engine default_limits" "sv_journal feed_session = None"
  "risk_client_id_for_socket feed_session 7 = 1" "sv_faults feed_session = []" "sv_multicast feed_session"
proof -
  note start = start_server_views [OF feed_started_ok]
  have "book_at (books_of (snd (replay (Some []) new_replayer))) = (\<lambda>_. new_book)"
    using replay_complete_file [of "[]"] by (simp add: replay_messages_from_scratch_def book_at_def fun_eq_iff)
  then have live: "live_book feed_started = (\<lambda>_. new_book)" using start(1) by (simp add: feed_env_def)
  have "register_client 7 feed_started = (fst (register_client 7 feed_started), feed_session)" by (simp add: feed_session_def)
  note same = session_steps_undisturbed(1) [OF this]
  show "live_book feed_session = (\<lambda>_. new_book)" "owner_of feed_session = (\<lambda>_. Map.empty)"
    "sv_risk_engine feed_session = new_risk_engine default_limits" "sv_journal feed_session = None"
    using same live start by (simp_all add: feed_env_def)
  show "risk_client_id_for_socket feed_session 7 = 1" "sv_faults feed_session = []" "sv_multicast feed_session"
    using feed_started_fields
    by (simp_all add: feed_session_def register_client_def risk_client_id_for_socket_def Let_def)
qed

lemma feed_published:
  obtains sv where "server_run feed_started sv" "sv_datagrams sv \<noteq> []"
proof -
  let ?body = "encode_new_order sample_buy"
  note admitted = sample_buy_admitted [OF feed_session_views(1,2,3,5)]
  obtain r t sv where new: "handle_new_order id 7 sample_header ?body default_trade_buffer feed_session = (r, t, sv)"
    by (metis prod_cases3)
  have session: "server_run feed_started feed_session"
    unfolding feed_session_def by (rule run_connect [OF run_start]) (rule prod.collapse [symmetric])
  have inv: "server_inv feed_session" using server_run_inv [OF session start_server_inv [OF feed_started_ok]] .
  have "handler_end sample_header ?body feed_session r sv" using handle_new_order_inv [OF inv _ new] by simp
  moreover have "journal_healthy feed_session" by (simp add: journal_healthy_def feed_session_views)
  ultimately have r: "r = Inr ()" by (auto simp: handler_end_def sample_header_def header_for_def)
  have header: "decode_header (encode_header sample_header) = Some sample_header"
    using encode_valid_header(1) [of MT_NewOrder] by (simp add: sample_header_def named_types_def)
  have "unat (hdr_body_size sample_header) = new_order_body_size" by code_simp
  then have len: "length ?body = unat (hdr_body_size sample_header)" using new_order.enc_size [OF sample_buy_valid] by simp
  have "handle_message id 7 sample_header ?body default_trade_buffer feed_session = (Inr (), t, sv)"
    using new r by (simp add: handle_message_def sample_header_def header_for_def)
  then have "server_run feed_started sv" by (rule run_message [OF session header len, rotated]) simp
  moreover have "sv_datagrams sv \<noteq> []"
    using admitted_order_published [OF admitted feed_session_views(7,4)] new r by blast
  ultimately show thesis by (rule that)
qed

theorem feed_reaches_browsers_witness:
  "\<exists>sv d n e. server_run feed_started sv \<and> d \<in> set (sv_datagrams sv) \<and> event_valid e \<and>
    d = outgoing_message (event_type e) n (event_body e) \<and>
    read_object (market_data_to_json d) = Some (event_json e, []) \<and> json_event (event_json e) = Some e \<and>
    multicast_datagram (\<lambda>client n m. int m) d new_gateway =
      broadcast_text (\<lambda>client n m. int m) (market_data_to_json d) new_gateway"
proof -
  obtain sv where sv: "server_run feed_started sv" "sv_datagrams sv \<noteq> []" by (rule feed_published)
  then have d: "hd (sv_datagrams sv) \<in> set (sv_datagrams sv)" by simp
  show ?thesis using feed_reaches_browsers [OF feed_started_ok sv(1) d] sv(1) d by blast
qed

end
