(* ===== verification/Tcp_Server.thy ===== *)
theory Tcp_Server
  imports Wire
begin

text \<open>
  The socket wrapper of \<^verbatim>\<open>include/exchange/tcp_server.hpp\<close> and \<^verbatim>\<open>src/tcp_server.cpp\<close>: the listening socket, the
  original interface for one client and the interface for many, with the loops that resume interrupted calls.

  What the system answers is an argument: a list of results is what the successive calls of one loop return, and the
  list running out means that the call has not returned yet. The descriptors the object has opened and not closed are
  part of the state, as are those whose \<^verbatim>\<open>SO_NOSIGPIPE\<close> option is set.
\<close>

section \<open>State\<close>

record TcpServer =
  tcp_port :: "16 word"
  tcp_listen_socket :: int
  tcp_client_socket :: int
  tcp_open :: "int list"
  tcp_no_sigpipe :: "int list"

definition new_tcp_server :: "16 word \<Rightarrow> TcpServer" where
  "new_tcp_server port = \<lparr>tcp_port = port, tcp_listen_socket = - 1, tcp_client_socket = - 1, tcp_open = [],
     tcp_no_sigpipe = []\<rparr>"

definition open_descriptor :: "int \<Rightarrow> TcpServer \<Rightarrow> TcpServer" where
  "open_descriptor fd s = (if fd \<ge> 0 then s\<lparr>tcp_open := tcp_open s @ [fd]\<rparr> else s)"

definition close_descriptor :: "int \<Rightarrow> TcpServer \<Rightarrow> TcpServer" where
  "close_descriptor fd s =
     s\<lparr>tcp_open := filter (\<lambda>d. d \<noteq> fd) (tcp_open s), tcp_no_sigpipe := filter (\<lambda>d. d \<noteq> fd) (tcp_no_sigpipe s)\<rparr>"

section \<open>Sending and receiving\<close>

text \<open>A result of \<^verbatim>\<open>send\<close>: a count, an interruption, a connection closed by the peer, another error.\<close>

datatype send_result = Count nat | Send_Interrupted | Broken_Pipe | Send_Error

text \<open>
  The end of a transmission: it is still waiting, it returned a result, or the signal of a broken pipe ended the
  process, which happens unless the option of the socket suppresses it.
\<close>

datatype transmission = Waiting_To_Send | Transmitted bool | Killed

fun tcp_send_all :: "bool \<Rightarrow> send_result list \<Rightarrow> u8 list \<Rightarrow> transmission \<times> u8 list" where
  "tcp_send_all no_sigpipe results [] = (Transmitted True, [])"
| "tcp_send_all no_sigpipe [] (byte # data) = (Waiting_To_Send, [])"
| "tcp_send_all no_sigpipe (result # results) (byte # data) =
     (case result of
        Send_Interrupted \<Rightarrow> tcp_send_all no_sigpipe results (byte # data)
      | Broken_Pipe \<Rightarrow> (if no_sigpipe then Transmitted False else Killed, [])
      | Send_Error \<Rightarrow> (Transmitted False, [])
      | Count 0 \<Rightarrow> (Transmitted False, [])
      | Count (Suc n) \<Rightarrow>
          let (res, written) = tcp_send_all no_sigpipe results (drop (Suc n) (byte # data))
          in (res, take (Suc n) (byte # data) @ written))"

definition kBufferSize :: nat where "kBufferSize = 4096"

datatype recv_result = Received "u8 list" | Recv_Interrupted | Recv_Error

text \<open>The bytes of one call: none when the peer has closed the connection or an error occurred.\<close>

fun recv_loop :: "recv_result list \<Rightarrow> u8 list option" where
  "recv_loop [] = None"
| "recv_loop (result # results) =
     (case result of
        Recv_Interrupted \<Rightarrow> recv_loop results
      | Recv_Error \<Rightarrow> Some []
      | Received bytes \<Rightarrow> Some (take kBufferSize bytes))"

definition tcp_receive_from :: "int \<Rightarrow> recv_result list \<Rightarrow> u8 list option" where
  "tcp_receive_from client_socket results = (if client_socket < 0 then Some [] else recv_loop results)"

definition tcp_send_to :: "int \<Rightarrow> send_result list \<Rightarrow> u8 list \<Rightarrow> TcpServer \<Rightarrow> transmission \<times> u8 list" where
  "tcp_send_to client_socket results data s =
     (if client_socket < 0 then (Transmitted False, [])
      else tcp_send_all (client_socket \<in> set (tcp_no_sigpipe s)) results data)"

section \<open>Connections\<close>

text \<open>Whether the platform has the socket option is an argument; Linux does not have it.\<close>

definition configure_client_socket :: "bool \<Rightarrow> int \<Rightarrow> TcpServer \<Rightarrow> TcpServer" where
  "configure_client_socket has_option socket s =
     (if has_option then s\<lparr>tcp_no_sigpipe := tcp_no_sigpipe s @ [socket]\<rparr> else s)"

datatype accept_result = Accepted int | Accept_Interrupted | Accept_Error

fun accept_loop_result :: "accept_result list \<Rightarrow> int option" where
  "accept_loop_result [] = None"
| "accept_loop_result (result # results) =
     (case result of
        Accept_Interrupted \<Rightarrow> accept_loop_result results
      | Accept_Error \<Rightarrow> Some (- 1)
      | Accepted fd \<Rightarrow> Some fd)"

text \<open>The result is \<open>None\<close> while no client connects.\<close>

definition accept_connection :: "bool \<Rightarrow> accept_result list \<Rightarrow> TcpServer \<Rightarrow> int option \<times> TcpServer" where
  "accept_connection has_option results s =
     (if tcp_listen_socket s < 0 then (Some (- 1), s)
      else (case accept_loop_result results of
        None \<Rightarrow> (None, s)
      | Some fd \<Rightarrow>
          (Some fd, if fd \<ge> 0 then configure_client_socket has_option fd (open_descriptor fd s) else s)))"

definition tcp_accept_client :: "bool \<Rightarrow> accept_result list \<Rightarrow> TcpServer \<Rightarrow> bool option \<times> TcpServer" where
  "tcp_accept_client has_option results s =
     (case accept_connection has_option results s of
        (None, s) \<Rightarrow> (None, s)
      | (Some fd, s) \<Rightarrow> (Some (fd \<ge> 0), s\<lparr>tcp_client_socket := fd\<rparr>))"

definition tcp_receive :: "recv_result list \<Rightarrow> TcpServer \<Rightarrow> u8 list option" where
  "tcp_receive results s = tcp_receive_from (tcp_client_socket s) results"

definition tcp_send :: "send_result list \<Rightarrow> u8 list \<Rightarrow> TcpServer \<Rightarrow> transmission \<times> u8 list" where
  "tcp_send results data s = tcp_send_to (tcp_client_socket s) results data s"

definition close_connection :: "int \<Rightarrow> TcpServer \<Rightarrow> TcpServer" where
  "close_connection client_socket s = (if client_socket < 0 then s else close_descriptor client_socket s)"

section \<open>Start and stop\<close>

definition tcp_stop :: "TcpServer \<Rightarrow> TcpServer" where
  "tcp_stop s =
     (let s = (if tcp_client_socket s \<ge> 0
               then (close_descriptor (tcp_client_socket s) s)\<lparr>tcp_client_socket := - 1\<rparr> else s)
      in if tcp_listen_socket s \<ge> 0
         then (close_descriptor (tcp_listen_socket s) s)\<lparr>tcp_listen_socket := - 1\<rparr> else s)"

text \<open>What the system answers to \<^verbatim>\<open>socket\<close>, \<^verbatim>\<open>setsockopt\<close>, \<^verbatim>\<open>bind\<close> and \<^verbatim>\<open>listen\<close>.\<close>

record ListenAnswers =
  la_socket :: int
  la_reuse_address :: bool
  la_bind :: bool
  la_listen :: bool

definition tcp_start :: "ListenAnswers \<Rightarrow> TcpServer \<Rightarrow> bool \<times> TcpServer" where
  "tcp_start answers s =
     (if tcp_listen_socket s \<ge> 0 then (True, s)
      else
        let s = open_descriptor (la_socket answers) (s\<lparr>tcp_listen_socket := la_socket answers\<rparr>) in
        if la_socket answers < 0 then (False, s)
        else if \<not> la_reuse_address answers then (False, tcp_stop s)
        else if \<not> la_bind answers then (False, tcp_stop s)
        else if \<not> la_listen answers then (False, tcp_stop s)
        else (True, s))"

section \<open>What the loops do\<close>

text \<open>A transmission writes a beginning of the data, and all of it when it reports success.\<close>

lemma tcp_send_all_written:
  "tcp_send_all p results data = (res, written) \<Longrightarrow>
     written = take (length written) data \<and> (res = Transmitted True \<longrightarrow> written = data)"
proof (induction p results data arbitrary: res written rule: tcp_send_all.induct)
  case (3 p result results byte data)
  show ?case
  proof (cases result)
    case (Count n)
    show ?thesis
    proof (cases n)
      case (Suc m)
      obtain r w where rest: "tcp_send_all p results (drop (Suc m) (byte # data)) = (r, w)" by (metis surj_pair)
      have "w = take (length w) (drop (Suc m) (byte # data)) \<and> (r = Transmitted True \<longrightarrow> w = drop (Suc m) (byte # data))"
        using "3.IH"(1) [OF Count Suc rest] .
      moreover have "res = r" "written = take (Suc m) (byte # data) @ w"
        using "3.prems" Count Suc rest by simp_all
      ultimately show ?thesis by (metis append_eq_conv_conj append_take_drop_id append_assoc)
    qed (use "3.prems" Count in auto)
  qed (use 3 in \<open>auto split: if_splits\<close>)
qed simp_all

text \<open>It returns, or ends the process, once the system has answered as many calls as there are bytes, interruptions not counted.\<close>

lemma tcp_send_all_returns:
  "length data \<le> length (filter (\<lambda>r. r \<noteq> Send_Interrupted) results) \<Longrightarrow>
     fst (tcp_send_all p results data) \<noteq> Waiting_To_Send"
proof (induction p results data rule: tcp_send_all.induct)
  case (3 p result results byte data)
  then show ?case
    by (cases result) (auto simp: le_diff_conv trans_le_add1 split: nat.splits prod.splits)
qed simp_all

lemma tcp_send_all_not_killed:
  "no_sigpipe \<or> Broken_Pipe \<notin> set results \<Longrightarrow> fst (tcp_send_all no_sigpipe results data) \<noteq> Killed"
  by (induction no_sigpipe results data rule: tcp_send_all.induct)
    (auto split: send_result.splits nat.splits prod.splits)

text \<open>Without the option a connection that the peer has closed ends the process of the server.\<close>

lemma broken_pipe_kills:
  "data \<noteq> [] \<Longrightarrow> tcp_send_to socket (Broken_Pipe # results) data s =
     (if socket < 0 \<or> socket \<in> set (tcp_no_sigpipe s) then Transmitted False else Killed, [])"
  by (cases data) (simp_all add: tcp_send_to_def)

lemma recv_loop_returns:
  "filter (\<lambda>r. r \<noteq> Recv_Interrupted) results \<noteq> [] \<Longrightarrow> \<exists>bytes. recv_loop results = Some bytes \<and> length bytes \<le> kBufferSize"
  by (induction results) (auto split: recv_result.split)

section \<open>Descriptors\<close>

text \<open>
  The operations on one object, with the connections that its caller holds and, as history, those that the object has
  lost: \<^verbatim>\<open>accept_client\<close> overwrites the descriptor of the client before, if there is one. The system returns only
  descriptors that are not open, and the caller closes only connections it holds.
\<close>

inductive tcp_step :: "TcpServer \<times> int list \<times> int list \<Rightarrow> TcpServer \<times> int list \<times> int list \<Rightarrow> bool" where
  step_start: "la_socket answers \<notin> set (tcp_open s) \<Longrightarrow> tcp_start answers s = (ok, s') \<Longrightarrow>
    tcp_step (s, held, lost) (s', held, lost)"
| step_stop: "tcp_step (s, held, lost) (tcp_stop s, held, lost)"
| step_accept: "accept_connection opt results s = (Some fd, s') \<Longrightarrow> fd \<ge> 0 \<Longrightarrow> fd \<notin> set (tcp_open s) \<Longrightarrow>
    tcp_step (s, held, lost) (s', held @ [fd], lost)"
| step_close: "fd \<in> set held \<Longrightarrow>
    tcp_step (s, held, lost) (close_connection fd s, filter (\<lambda>d. d \<noteq> fd) held, lost)"
| step_accept_client: "tcp_accept_client opt results s = (Some ok, s') \<Longrightarrow>
    accept_loop_result results = Some fd \<Longrightarrow> fd \<notin> set (tcp_open s) \<Longrightarrow>
    tcp_step (s, held, lost) (s', held, if tcp_client_socket s \<ge> 0 then lost @ [tcp_client_socket s] else lost)"

definition own_sockets :: "TcpServer \<Rightarrow> int set" where
  "own_sockets s = {fd. fd \<ge> 0 \<and> (fd = tcp_listen_socket s \<or> fd = tcp_client_socket s)}"

definition descriptors_ok :: "TcpServer \<Rightarrow> int list \<Rightarrow> bool" where
  "descriptors_ok s held \<longleftrightarrow> distinct held \<and> (\<forall>fd\<in>set held. fd \<ge> 0) \<and> set (tcp_open s) = set held \<union> own_sockets s \<and>
     set held \<inter> own_sockets s = {} \<and> (tcp_listen_socket s \<ge> 0 \<longrightarrow> tcp_listen_socket s \<noteq> tcp_client_socket s)"

lemma open_close_simps [simp]:
  "set (tcp_open (close_descriptor fd s)) = set (tcp_open s) - {fd}"
  "tcp_listen_socket (close_descriptor fd s) = tcp_listen_socket s"
  "tcp_client_socket (close_descriptor fd s) = tcp_client_socket s"
  "set (tcp_open (open_descriptor fd s)) = set (tcp_open s) \<union> (if fd \<ge> 0 then {fd} else {})"
  "tcp_listen_socket (open_descriptor fd s) = tcp_listen_socket s"
  "tcp_client_socket (open_descriptor fd s) = tcp_client_socket s"
  "tcp_open (configure_client_socket opt fd s) = tcp_open s"
  "tcp_listen_socket (configure_client_socket opt fd s) = tcp_listen_socket s"
  "tcp_client_socket (configure_client_socket opt fd s) = tcp_client_socket s"
  by (auto simp: close_descriptor_def open_descriptor_def configure_client_socket_def)

lemma tcp_stop_fields:
  "set (tcp_open (tcp_stop s)) = set (tcp_open s) - own_sockets s"
  "tcp_listen_socket (tcp_stop s) < 0" "own_sockets (tcp_stop s) = {}"
  by (auto simp: tcp_stop_def own_sockets_def Let_def)

lemma stop_descriptors:
  assumes "descriptors_ok s held"
  shows "descriptors_ok (tcp_stop s) held" "set (tcp_open (tcp_stop s)) = set held"
proof -
  show "set (tcp_open (tcp_stop s)) = set held"
    unfolding tcp_stop_fields(1) using assms unfolding descriptors_ok_def by blast
  then show "descriptors_ok (tcp_stop s) held"
    using assms tcp_stop_fields(2,3) [of s] by (simp add: descriptors_ok_def)
qed

lemma accept_connection_descriptors:
  assumes "accept_connection opt results s = (Some fd, s')"
  shows "set (tcp_open s') = set (tcp_open s) \<union> (if fd \<ge> 0 then {fd} else {})"
    "tcp_listen_socket s' = tcp_listen_socket s" "tcp_client_socket s' = tcp_client_socket s"
    "tcp_listen_socket s < 0 \<or> accept_loop_result results = Some fd"
  using assms by (auto simp: accept_connection_def split: if_splits option.splits)

lemma start_descriptors:
  assumes "descriptors_ok s held" "la_socket answers \<notin> set (tcp_open s)" "tcp_start answers s = (ok, s')"
  shows "descriptors_ok s' held"
proof -
  let ?opened = "open_descriptor (la_socket answers) (s\<lparr>tcp_listen_socket := la_socket answers\<rparr>)"
  have "descriptors_ok ?opened held" if "tcp_listen_socket s < 0" using assms(1,2) that by (auto simp: descriptors_ok_def own_sockets_def)
  then show ?thesis
    using assms(1,3) stop_descriptors [of ?opened held] by (auto simp: tcp_start_def Let_def split: if_splits)
qed

lemma descriptors_ok_set: "descriptors_ok s xs \<Longrightarrow> set ys = set xs \<Longrightarrow> distinct ys \<Longrightarrow> descriptors_ok s ys"
  by (simp add: descriptors_ok_def)

lemma accept_client_descriptors:
  assumes "tcp_accept_client opt results s = (Some ok, s')" "accept_loop_result results = Some fd"
    and "fd \<notin> set (tcp_open s)" "descriptors_ok s xs"
  shows "descriptors_ok s' (if tcp_client_socket s \<ge> 0 then tcp_client_socket s # xs else xs)"
proof -
  obtain c s1 where c: "accept_connection opt results s = (Some c, s1)" "s' = s1\<lparr>tcp_client_socket := c\<rparr>"
    using assms(1) by (auto simp: tcp_accept_client_def split: prod.splits option.splits)
  note accepted = accept_connection_descriptors [OF c(1)]
  have "c = - 1 \<or> c = fd"
    using c(1) assms(2) by (auto simp: accept_connection_def split: if_splits option.splits)
  then have new: "c \<ge> 0 \<Longrightarrow> c \<notin> set xs \<union> own_sockets s"
    using assms(3,4) by (auto simp: descriptors_ok_def)
  have own: "own_sockets s' = {fd. fd \<ge> 0 \<and> (fd = tcp_listen_socket s \<or> fd = c)}"
    "own_sockets s = {fd. fd \<ge> 0 \<and> (fd = tcp_listen_socket s \<or> fd = tcp_client_socket s)}"
    using c(2) accepted(2) by (auto simp: own_sockets_def)
  show ?thesis
    using accepted c(2) assms(4) new unfolding descriptors_ok_def own by (cases "0 \<le> tcp_client_socket s") (auto split: if_splits)
qed

lemma tcp_step_descriptors:
  assumes "tcp_step (s, held, lost) (s', held', lost')" "descriptors_ok s (held @ lost)"
  shows "descriptors_ok s' (held' @ lost')"
  using assms(1)
proof (cases rule: tcp_step.cases)
  case (step_start answers ok)
  then show ?thesis using start_descriptors [OF assms(2)] by blast
next
  case step_stop
  then show ?thesis using stop_descriptors [OF assms(2)] by simp
next
  case (step_accept opt results fd)
  note accepted = accept_connection_descriptors [OF step_accept(3)]
  have "own_sockets s' = own_sockets s" using accepted by (simp add: own_sockets_def)
  moreover have "fd \<notin> set (held @ lost) \<union> own_sockets s" using step_accept(5) assms(2) by (simp add: descriptors_ok_def)
  ultimately show ?thesis using accepted step_accept(1,2,4) assms(2) by (simp add: descriptors_ok_def)
next
  case (step_close fd)
  then have fd: "0 \<le> fd" using assms(2) unfolding descriptors_ok_def set_append by blast
  have same: "own_sockets s' = own_sockets s" "tcp_listen_socket s' = tcp_listen_socket s"
    "tcp_client_socket s' = tcp_client_socket s" "set (tcp_open s') = set (tcp_open s) - {fd}"
    using fd step_close(1) by (simp_all add: own_sockets_def close_connection_def)
  have left: "set (held' @ lost') = set (held @ lost) - {fd}" "distinct (held' @ lost')"
    using step_close assms(2) by (auto simp: descriptors_ok_def)
  have "fd \<notin> own_sockets s" "set (tcp_open s) = set (held @ lost) \<union> own_sockets s"
    "set (held @ lost) \<inter> own_sockets s = {}" "\<forall>fd\<in>set (held @ lost). 0 \<le> fd"
    "0 \<le> tcp_listen_socket s \<longrightarrow> tcp_listen_socket s \<noteq> tcp_client_socket s"
    using step_close(4) assms(2) unfolding descriptors_ok_def set_append by blast+
  then show ?thesis using left(2) unfolding descriptors_ok_def same left(1) by blast
next
  case (step_accept_client opt results ok fd)
  then show ?thesis
    using accept_client_descriptors [OF step_accept_client(3-5) assms(2)]
    by (elim descriptors_ok_set) (use assms(2) in \<open>auto simp: descriptors_ok_def own_sockets_def\<close>)
qed

text \<open>
  C35. Which descriptors stay open. In every use of the object, with answers of the system of any kind, in which the caller
  closes only connections it holds, the open descriptors are exactly those the caller holds, those that
  \<^verbatim>\<open>accept_client\<close> has overwritten while their client was connected, and the object's own sockets, without overlap; stopping
  closes exactly the own sockets. So a caller of \<^verbatim>\<open>accept_connection\<close>, as the exchange server is, loses no descriptor, and a second
  call of \<^verbatim>\<open>accept_client\<close> loses that of the client before.
\<close>

theorem stop_closes_own_sockets:
  assumes "tcp_step\<^sup>*\<^sup>* (new_tcp_server port, [], []) (s, held, lost)"
  shows "distinct (held @ lost) \<and> set (tcp_open s) = set held \<union> set lost \<union> own_sockets s \<and> (set held \<union> set lost) \<inter> own_sockets s = {} \<and>
    set (tcp_open (tcp_stop s)) = set held \<union> set lost \<and> own_sockets (tcp_stop s) = {}"
proof -
  have "descriptors_ok s' (held' @ lost')" if "tcp_step\<^sup>*\<^sup>* (new_tcp_server port, [], []) (s', held', lost')" for s' held' lost'
    using that
  proof (induction "(s', held', lost')" arbitrary: s' held' lost' rule: rtranclp_induct)
    case base
    show ?case by (simp add: descriptors_ok_def own_sockets_def new_tcp_server_def)
  next
    case (step t)
    then show ?case using tcp_step_descriptors by (cases t) blast
  qed
  from this [OF assms] show ?thesis
    using stop_descriptors(2) [of s "held @ lost"] tcp_stop_fields(3) unfolding descriptors_ok_def by simp
qed

theorem stop_closes_own_sockets_witness:
  "\<exists>s. tcp_step\<^sup>*\<^sup>* (new_tcp_server 9000, [], []) (s, [4], [5]) \<and> own_sockets s = {3, 6} \<and>
     set (tcp_open s) = {3, 4, 5, 6} \<and> set (tcp_open (tcp_stop s)) = {4, 5}"
proof -
  let ?answers = "\<lparr>la_socket = 3, la_reuse_address = True, la_bind = True, la_listen = True\<rparr>"
  let ?s = "snd (tcp_start ?answers (new_tcp_server 9000))"
  let ?t = "snd (accept_connection False [Accept_Interrupted, Accepted 4] ?s)"
  let ?u = "snd (tcp_accept_client False [Accepted 5] ?t)" and ?v = "snd (tcp_accept_client False [Accepted 6]
    (snd (tcp_accept_client False [Accepted 5] ?t)))"
  note defs = new_tcp_server_def tcp_start_def open_descriptor_def accept_connection_def tcp_accept_client_def
    configure_client_socket_def Let_def
  have "tcp_step (new_tcp_server 9000, [], []) (?s, [], [])"
    by (rule step_start [of ?answers _ True]) (simp_all add: new_tcp_server_def tcp_start_def Let_def)
  moreover have "tcp_step (?s, [], []) (?t, [] @ [4], [])"
    by (rule step_accept [of False "[Accept_Interrupted, Accepted 4]" _ 4]) (simp_all add: defs)
  moreover have "tcp_step (?t, [4], []) (?u, [4], if tcp_client_socket ?t \<ge> 0 then [] @ [tcp_client_socket ?t] else [])"
    by (rule step_accept_client [of False "[Accepted 5]" _ True _ 5]) (simp_all add: defs)
  moreover have "tcp_step (?u, [4], []) (?v, [4], if tcp_client_socket ?u \<ge> 0 then [] @ [tcp_client_socket ?u] else [])"
    by (rule step_accept_client [of False "[Accepted 6]" _ True _ 6]) (simp_all add: defs)
  moreover have "tcp_client_socket ?t < 0" "tcp_client_socket ?u = 5" by (simp_all add: defs)
  ultimately have run: "tcp_step\<^sup>*\<^sup>* (new_tcp_server 9000, [], []) (?v, [4], [5])" by simp
  have "own_sockets ?v = {3, 6}" by (auto simp: own_sockets_def defs)
  then show ?thesis using stop_closes_own_sockets [OF run] run by (intro exI [of _ ?v]) auto
qed

text \<open>
  The loss on its own: \<^verbatim>\<open>accept_client\<close> overwrites the descriptor of a client that is still connected, which nobody
  closes afterwards.
\<close>

lemma second_client_leaks:
  assumes "tcp_listen_socket s \<ge> 0" "first \<ge> 0" "second \<ge> 0" "first \<noteq> second" "first \<noteq> tcp_listen_socket s"
    and "tcp_accept_client opt [Accepted first] s = (Some True, s1)"
    and "tcp_accept_client opt [Accepted second] s1 = (Some True, s2)"
  shows "first \<in> set (tcp_open (tcp_stop s2)) \<and> first \<notin> own_sockets s2"
  using assms unfolding tcp_stop_fields(1)
  by (auto simp: tcp_accept_client_def accept_connection_def own_sockets_def split: if_splits)

end
