(* ===== verification/Stream_Reader.thy ===== *)
theory Stream_Reader
  imports Prelude
begin

text \<open>
  Reading messages from a byte stream. A reader takes one message from its state, the pieces of the stream that have
  not been read and what it has buffered of them. The contract says that it returns the message the unread bytes begin
  with, however they are cut; then it returns all messages of a stream one after the other.
\<close>

fun read_messages :: "('s \<Rightarrow> 'm option \<times> 's) \<Rightarrow> nat \<Rightarrow> 's \<Rightarrow> 'm list \<times> 's" where
  "read_messages read_one 0 s = ([], s)"
| "read_messages read_one (Suc n) s =
     (case read_one s of
        (None, s) \<Rightarrow> ([], s)
      | (Some m, s) \<Rightarrow> let (ms, s) = read_messages read_one n s in (m # ms, s))"

locale stream_reader =
  fixes read_one :: "'s \<Rightarrow> 'm option \<times> 's"
    and encode :: "'m \<Rightarrow> 'b list"
    and valid :: "'m \<Rightarrow> bool"
    and unread :: "'s \<Rightarrow> 'b list"
    and ready :: "'s \<Rightarrow> bool"
  assumes reads_next: "valid m \<Longrightarrow> ready s \<Longrightarrow> unread s = encode m @ rest \<Longrightarrow>
    \<exists>s'. read_one s = (Some m, s') \<and> ready s' \<and> unread s' = rest"
begin

lemma reads_all:
  assumes "\<forall>m\<in>set ms. valid m" "ready s" "unread s = concat (map encode ms) @ rest"
  shows "\<exists>s'. read_messages read_one (length ms) s = (ms, s') \<and> ready s' \<and> unread s' = rest"
  using assms
proof (induction ms arbitrary: s)
  case (Cons m ms)
  obtain s1 where s1: "read_one s = (Some m, s1)" "ready s1" "unread s1 = concat (map encode ms) @ rest"
    using reads_next [of m s "concat (map encode ms) @ rest"] Cons.prems by auto
  then obtain s' where "read_messages read_one (length ms) s1 = (ms, s')" "ready s'" "unread s' = rest"
    using Cons.IH [OF _ s1(2,3)] Cons.prems(1) by auto
  then show ?case using s1(1) by simp
qed simp

end

text \<open>Non-empty pieces of which nothing is left are none.\<close>

lemma no_pieces: "concat pieces = [] \<Longrightarrow> [] \<notin> set pieces \<Longrightarrow> pieces = []"
  by (cases pieces) auto

end
