(* ===== verification/Exchange_Client.thy ===== *)
theory Exchange_Client
  imports Market_Data_Feed Tcp_Server Stream_Reader
begin

text \<open>
  The clients of the exchange: the demonstration client of \<^verbatim>\<open>tools/exchange_client.cpp\<close>, which reads the messages of
  its session from the TCP stream, and the listener of \<^verbatim>\<open>tools/exchange_market_data_listener.cpp\<close>, which reads the
  multicast datagrams. What they print is a list of lines.

  A list of byte lists is what the stream still delivers: a call of \<^verbatim>\<open>recv\<close> gets at most one piece of it, and an
  empty piece or the end of the list is a result that is not positive.
\<close>

section \<open>Reading the stream\<close>

definition recv_piece :: "nat \<Rightarrow> u8 list list \<Rightarrow> u8 list \<times> u8 list list" where
  "recv_piece n pieces =
     (case pieces of
        [] \<Rightarrow> ([], [])
      | piece # pieces \<Rightarrow>
          if length piece \<le> n then (piece, pieces) else (take n piece, drop n piece # pieces))"

lemma recv_piece_length: "length (fst (recv_piece n pieces)) \<le> n"
  by (auto simp: recv_piece_def split: list.split)

function receive_exact :: "nat \<Rightarrow> u8 list list \<Rightarrow> u8 list option \<times> u8 list list" where
  "receive_exact n pieces =
     (if n = 0 then (Some [], pieces)
      else
        let (received, pieces) = recv_piece n pieces in
        if received = [] then (None, pieces)
        else (case receive_exact (n - length received) pieces of
                (None, pieces) \<Rightarrow> (None, pieces)
              | (Some output, pieces) \<Rightarrow> (Some (received @ output), pieces)))"
  by pat_completeness auto
termination
  by (relation "measure fst") auto

declare receive_exact.simps [simp del]

record ReceivedMessage =
  rm_header :: MessageHeader
  rm_body :: "u8 list"

definition receive_message :: "u8 list list \<Rightarrow> ReceivedMessage option \<times> u8 list list" where
  "receive_message pieces =
     (case receive_exact header_size pieces of
        (None, pieces) \<Rightarrow> (None, pieces)
      | (Some header_bytes, pieces) \<Rightarrow>
          (case decode_header header_bytes of
             None \<Rightarrow> (None, pieces)
           | Some header \<Rightarrow>
               if unat (hdr_body_size header) = 0 then (Some \<lparr>rm_header = header, rm_body = []\<rparr>, pieces)
               else (case receive_exact (unat (hdr_body_size header)) pieces of
                       (None, pieces) \<Rightarrow> (None, pieces)
                     | (Some body, pieces) \<Rightarrow> (Some \<lparr>rm_header = header, rm_body = body\<rparr>, pieces))))"

section \<open>Printing\<close>

definition show_u64 :: "u64 \<Rightarrow> string" where
  "show_u64 v = decimal (unat v)"

definition show_side :: "PSide \<Rightarrow> string" where
  "show_side side = (if side = PBuy then ''BUY '' else ''SELL '')"

text \<open>The two sides of a book update, as both programs print them.\<close>

definition show_quotes :: "BookUpdate \<Rightarrow> string" where
  "show_quotes u =
     (if bku_has_bid u \<noteq> 0 then ''bid='' @ decimal_int (bku_best_bid u) @ '' x '' @ show_u64 (bku_bid_quantity u) @ '' ''
      else ''bid=none '') @
     (if bku_has_ask u \<noteq> 0 then ''ask='' @ decimal_int (bku_best_ask u) @ '' x '' @ show_u64 (bku_ask_quantity u)
      else ''ask=none'')"

definition show_add :: "Level3AddOrder \<Rightarrow> string" where
  "show_add a = ''id='' @ show_u64 (l3a_order_id a) @ '' '' @ show_side (l3a_side a) @ decimal_int (l3a_price a) @
     '' x '' @ show_u64 (l3a_quantity a)"

definition show_executed :: "Level3OrderExecuted \<Rightarrow> string" where
  "show_executed x = ''buy='' @ show_u64 (l3e_buy_order_id x) @ '' sell='' @ show_u64 (l3e_sell_order_id x) @
     '' price='' @ decimal_int (l3e_price x) @ '' quantity='' @ show_u64 (l3e_quantity x)"

definition show_response :: "MessageType \<Rightarrow> OrderResponse \<Rightarrow> string" where
  "show_response t r = ''ORDER RESPONSE type='' @ decimal (unat (message_type_code t)) @ '' id='' @
     show_u64 (rsp_order_id r) @ '' success='' @ decimal (unat (rsp_success r))"

definition client_line :: "ReceivedMessage \<Rightarrow> string" where
  "client_line m =
     (let t = hdr_type (rm_header m); body = rm_body m in
      if t \<in> {MT_OrderAccepted, MT_OrderRejected, MT_OrderCancelled, MT_OrderReplaced} then
        (case decode_order_response body of
           None \<Rightarrow> ''Invalid order response''
         | Some r \<Rightarrow> show_response t r)
      else if t = MT_BookUpdate then
        (case decode_book_update body of
           None \<Rightarrow> ''Invalid book update''
         | Some u \<Rightarrow> ''BOOK '' @ symbol_to_string (bku_symbol u) @ '' '' @ show_quotes u)
      else if t = MT_Level3AddOrder then
        (case decode_level3_add_order body of
           None \<Rightarrow> ''Invalid Level-3 add event''
         | Some a \<Rightarrow> ''L3 ADD '' @ symbol_to_string (l3a_symbol a) @ '' '' @ show_add a)
      else if t = MT_Level3OrderExecuted then
        (case decode_level3_order_executed body of
           None \<Rightarrow> ''Invalid Level-3 execution event''
         | Some x \<Rightarrow> ''L3 EXEC '' @ symbol_to_string (l3e_symbol x) @ '' '' @ show_executed x)
      else if t = MT_Level3OrderDeleted then
        (case decode_level3_order_deleted body of
           None \<Rightarrow> ''Invalid Level-3 delete event''
         | Some d \<Rightarrow> ''L3 DELETE '' @ symbol_to_string (l3d_symbol d) @ '' id='' @ show_u64 (l3d_order_id d))
      else ''Received message type '' @ decimal (unat (message_type_code t)))"

fun receive_and_print :: "nat \<Rightarrow> u8 list list \<Rightarrow> bool \<times> string list \<times> u8 list list" where
  "receive_and_print 0 pieces = (True, [], pieces)"
| "receive_and_print (Suc message_count) pieces =
     (case receive_message pieces of
        (None, pieces) \<Rightarrow> (False, [], pieces)
      | (Some message, pieces) \<Rightarrow>
          let (ok, lines, pieces) = receive_and_print message_count pieces
          in (ok, client_line message # lines, pieces))"

section \<open>The demonstration session\<close>

definition send_request :: "(nat \<Rightarrow> nat \<Rightarrow> int) \<Rightarrow> MessageType \<Rightarrow> u8 list \<Rightarrow> u64 \<Rightarrow> bool \<times> u8 list" where
  "send_request sends t body sequence_number =
     send_all sends 0 (encode_header \<lparr>hdr_magic = protocol_magic, hdr_version = protocol_version, hdr_type = t,
       hdr_body_size = word_of_nat (length body), hdr_sequence_number = sequence_number\<rparr> @ body)"

text \<open>A step of the session: the request, how many messages are read after it, and the text of its failure.\<close>

record ClientStep =
  cl_type :: MessageType
  cl_body :: "u8 list"
  cl_sequence_number :: u64
  cl_message_count :: nat
  cl_failure :: string

definition demo_new_order :: "u64 \<Rightarrow> u64 \<Rightarrow> int \<Rightarrow> u64 \<Rightarrow> PSide \<Rightarrow> string \<Rightarrow> NewOrderRequest" where
  "demo_new_order order_id timestamp price quantity side symb =
     \<lparr>nor_order_id = order_id, nor_timestamp = timestamp, nor_price = price, nor_quantity = quantity, nor_side = side,
      nor_order_type = PLimit, nor_time_in_force = PGoodTillCancel, nor_symbol = make_symbol symb\<rparr>"

definition demo_steps :: "ClientStep list" where
  "demo_steps =
     [\<lparr>cl_type = MT_NewOrder, cl_body = encode_new_order (demo_new_order 1 1 105 10 PSell ''AAPL''),
       cl_sequence_number = 1, cl_message_count = 3, cl_failure = ''AAPL new-order lifecycle failed''\<rparr>,
      \<lparr>cl_type = MT_NewOrder, cl_body = encode_new_order (demo_new_order 1 2 410 25 PBuy ''MSFT''),
       cl_sequence_number = 2, cl_message_count = 3, cl_failure = ''MSFT new-order lifecycle failed''\<rparr>,
      \<lparr>cl_type = MT_ReplaceOrder,
       cl_body = encode_replace_order \<lparr>ror_order_id = 1, ror_timestamp = 3, ror_new_price = 106, ror_new_quantity = 12,
         ror_symbol = make_symbol ''AAPL''\<rparr>,
       cl_sequence_number = 3, cl_message_count = 4, cl_failure = ''AAPL replace lifecycle failed''\<rparr>,
      \<lparr>cl_type = MT_CancelOrder,
       cl_body = encode_cancel_order \<lparr>cor_order_id = 1, cor_timestamp = 4, cor_symbol = make_symbol ''AAPL''\<rparr>,
       cl_sequence_number = 4, cl_message_count = 3, cl_failure = ''AAPL cancel lifecycle failed''\<rparr>]"

record ClientRun =
  cr_exit_code :: int
  cr_written :: "u8 list"
  cr_output :: "string list"
  cr_errors :: "string list"

fun client_steps :: "(u64 \<Rightarrow> nat \<Rightarrow> nat \<Rightarrow> int) \<Rightarrow> ClientStep list \<Rightarrow> u8 list list \<Rightarrow> ClientRun" where
  "client_steps sends [] pieces =
     \<lparr>cr_exit_code = 0, cr_written = [],
      cr_output = [''Multi-symbol demo complete: AAPL lifecycle finished; MSFT order remains resting.''], cr_errors = []\<rparr>"
| "client_steps sends (step # steps) pieces =
     (let (sent, written) = send_request (sends (cl_sequence_number step)) (cl_type step) (cl_body step)
            (cl_sequence_number step);
          (received, lines, pieces) = (if sent then receive_and_print (cl_message_count step) pieces
            else (False, [], pieces))
      in if \<not> received then
           \<lparr>cr_exit_code = 1, cr_written = written, cr_output = lines, cr_errors = [cl_failure step]\<rparr>
         else
           let rest = client_steps sends steps pieces
           in rest\<lparr>cr_written := written @ cr_written rest, cr_output := lines @ cr_output rest\<rparr>)"

text \<open>
  The socket, whether the address parses and whether the connection succeeds are answers of the system. The result is
  the connected socket and the descriptors that were closed.
\<close>

definition connect_to_server :: "int \<Rightarrow> bool \<Rightarrow> bool \<Rightarrow> int \<times> int list" where
  "connect_to_server socket parses connects =
     (if socket < 0 then (- 1, [])
      else if \<not> parses then (- 1, [socket])
      else if \<not> connects then (- 1, [socket])
      else (socket, []))"

definition client_main :: "int \<Rightarrow> (u64 \<Rightarrow> nat \<Rightarrow> nat \<Rightarrow> int) \<Rightarrow> u8 list list \<Rightarrow> ClientRun" where
  "client_main client_socket sends pieces =
     (if client_socket < 0 then
        \<lparr>cr_exit_code = 1, cr_written = [], cr_output = [],
         cr_errors = [''Could not connect to server on port 9000'']\<rparr>
      else client_steps sends demo_steps pieces)"

section \<open>The listener\<close>

definition listener_buffer_size :: nat where "listener_buffer_size = 65507"

definition sequenced :: "MessageHeader \<Rightarrow> string \<Rightarrow> string" where
  "sequenced header line = ''SEQ '' @ show_u64 (hdr_sequence_number header) @ '' '' @ line"

definition listener_line :: "MessageHeader \<Rightarrow> u8 list \<Rightarrow> string" where
  "listener_line header body =
     (case hdr_type header of
        MT_BookUpdate \<Rightarrow>
          (case decode_book_update body of
             None \<Rightarrow> ''Invalid BookUpdate''
           | Some u \<Rightarrow> sequenced header (symbol_to_string (bku_symbol u) @ '' BOOK '' @ show_quotes u))
      | MT_Level3AddOrder \<Rightarrow>
          (case decode_level3_add_order body of
             None \<Rightarrow> ''Invalid Level3AddOrder''
           | Some a \<Rightarrow> sequenced header (symbol_to_string (l3a_symbol a) @ '' L3 ADD '' @ show_add a))
      | MT_Level3OrderExecuted \<Rightarrow>
          (case decode_level3_order_executed body of
             None \<Rightarrow> ''Invalid Level3OrderExecuted''
           | Some x \<Rightarrow> sequenced header (symbol_to_string (l3e_symbol x) @ '' L3 EXEC '' @ show_executed x))
      | MT_Level3OrderDeleted \<Rightarrow>
          (case decode_level3_order_deleted body of
             None \<Rightarrow> ''Invalid Level3OrderDeleted''
           | Some d \<Rightarrow> sequenced header (symbol_to_string (l3d_symbol d) @ '' L3 DELETE id='' @ show_u64 (l3d_order_id d)))
      | t \<Rightarrow> sequenced header (''message type='' @ decimal (unat (message_type_code t))))"

definition listener_datagram :: "u8 list \<Rightarrow> string" where
  "listener_datagram datagram =
     (if length datagram < header_size then ''Truncated datagram''
      else (case decode_header (take header_size datagram) of
        None \<Rightarrow> ''Invalid protocol header''
      | Some header \<Rightarrow>
          if length datagram \<noteq> header_size + unat (hdr_body_size header) then ''Invalid datagram size''
          else listener_line header (drop header_size datagram)))"

text \<open>The loop on what successive \<^verbatim>\<open>recvfrom\<close> calls return; an empty result, also of an empty datagram, ends it.\<close>

fun listener_loop :: "u8 list list \<Rightarrow> string list" where
  "listener_loop [] = []"
| "listener_loop (datagram # datagrams) =
     (let received = take listener_buffer_size datagram in
      if received = [] then [] else listener_datagram received # listener_loop datagrams)"

text \<open>
  The program: the answers of the system to opening the socket, to the options, to binding, and to joining the group,
  whose text must be an address. The result is the exit code, the output and the errors.
\<close>

record ListenerAnswers =
  li_socket :: int
  li_reuse_address :: bool
  li_bind :: bool
  li_group_parses :: bool
  li_joins :: bool

definition listener_setup :: "ListenerAnswers \<Rightarrow> string option" where
  "listener_setup a =
     (if li_socket a < 0 then Some ''Could not create UDP socket''
      else if \<not> li_reuse_address a then Some ''Could not set SO_REUSEADDR''
      else if \<not> li_bind a then Some ''Could not bind UDP socket''
      else if \<not> li_group_parses a then Some ''Invalid multicast group''
      else if \<not> li_joins a then Some ''Could not join multicast group''
      else None)"

definition listener_main :: "string \<Rightarrow> 16 word \<Rightarrow> ListenerAnswers \<Rightarrow> u8 list list \<Rightarrow> int \<times> string list \<times> string list" where
  "listener_main multicast_group port answers datagrams =
     (case listener_setup answers of
        Some e \<Rightarrow> (1, [], [e])
      | None \<Rightarrow> (0, (''Listening for ExchangeLab market data on '' @ multicast_group @ '':'' @ decimal (unat port)) #
          listener_loop datagrams, [''Multicast receive failed'']))"

section \<open>Reading what was sent\<close>

lemma receive_exact_reads:
  "[] \<notin> set pieces \<Longrightarrow> n \<le> length (concat pieces) \<Longrightarrow>
     \<exists>rest. receive_exact n pieces = (Some (take n (concat pieces)), rest) \<and> concat rest = drop n (concat pieces) \<and>
       [] \<notin> set rest"
proof (induction n arbitrary: pieces rule: less_induct)
  case (less n)
  show ?case
  proof (cases "n = 0")
    case False
    then obtain piece later where pieces: "pieces = piece # later" "piece \<noteq> []" using less.prems by (cases pieces) auto
    show ?thesis
    proof (cases "length piece \<le> n")
      case True
      have "[] \<notin> set later" "n - length piece \<le> length (concat later)" "n - length piece < n"
        using less.prems pieces True False by auto
      from less.IH [OF this(3,1,2)] show ?thesis
        using pieces True False by (subst receive_exact.simps) (auto simp: recv_piece_def Let_def)
    next
      case False
      then show ?thesis
        using pieces less.prems \<open>n \<noteq> 0\<close>
        by (subst receive_exact.simps) (auto simp: recv_piece_def receive_exact.simps [of 0])
    qed
  qed (simp add: receive_exact.simps [of 0] less.prems)
qed

lemma receive_message_reads:
  assumes "[] \<notin> set pieces" "concat pieces = wire_bytes m @ later" "wire_message m"
  shows "\<exists>rest. receive_message pieces = (Some \<lparr>rm_header = fst m, rm_body = snd m\<rparr>, rest) \<and> concat rest = later \<and>
    [] \<notin> set rest"
proof -
  have bytes: "concat pieces = encode_header (fst m) @ snd m @ later" "length (encode_header (fst m)) = header_size"
    and header: "decode_header (encode_header (fst m)) = Some (fst m)" "unat (hdr_body_size (fst m)) = length (snd m)"
    using assms(2,3) by (simp_all add: wire_bytes_def wire_message_def header.dec_enc header.enc_size)
  obtain rest where rest: "receive_exact header_size pieces = (Some (encode_header (fst m)), rest)"
    "concat rest = snd m @ later" "[] \<notin> set rest"
    using receive_exact_reads [OF assms(1), of header_size] bytes by auto
  obtain rest' where rest': "receive_exact (length (snd m)) rest = (Some (snd m), rest')" "concat rest' = later" "[] \<notin> set rest'"
    using receive_exact_reads [OF rest(3), of "length (snd m)"] rest(2) by auto
  show ?thesis
    using rest rest' header by (auto simp: receive_message_def)
qed

interpretation session: stream_reader receive_message "\<lambda>m. wire_bytes (rm_header m, rm_body m)"
  "\<lambda>m. wire_message (rm_header m, rm_body m)" concat "\<lambda>pieces. [] \<notin> set pieces"
proof
  fix m :: ReceivedMessage and pieces later
  assume "wire_message (rm_header m, rm_body m)" "[] \<notin> set pieces"
    "concat pieces = wire_bytes (rm_header m, rm_body m) @ later"
  from receive_message_reads [OF this(2,3,1)]
  show "\<exists>s'. receive_message pieces = (Some m, s') \<and> [] \<notin> set s' \<and> concat s' = later" by auto
qed

lemma receive_and_print_messages:
  "receive_and_print n pieces = (let (ms, rest) = read_messages receive_message n pieces
     in (length ms = n, map client_line ms, rest))"
  by (induction n pieces rule: receive_and_print.induct) (auto simp: Let_def split: option.splits prod.splits)

end
