(* ===== verification/Client_Properties.thy ===== *)
theory Client_Properties
  imports Exchange_Client
begin

text \<open>
  A session from the server to the client: the messages the server sends to a socket are valid and numbered in order,
  and the client reads exactly these messages from the stream, however the network cuts it and however the system
  splits the writes.
\<close>

section \<open>The messages of a session\<close>













section \<open>The log of a server\<close>










section \<open>From the server to the client\<close>








section \<open>Without a journal\<close>

text \<open>
  A server without a journal takes no lock around a whole handler: what it sends after \<^verbatim>\<open>engine_mutex_\<close> is released, it
  sends message by message, each with \<^verbatim>\<open>next_sequence_number_.fetch_add\<close> first and then, under \<^verbatim>\<open>send_mutex_\<close>, the
  transmission. The state is the next number, what each thread has numbered but not yet sent, and the log of socket and
  number. The numbers of a log are all different, but one socket may get them out of order.
\<close>

type_synonym send_state = "nat \<times> (nat \<Rightarrow> (int \<times> nat) option) \<times> (int \<times> nat) list"

inductive numbered_send :: "send_state \<Rightarrow> send_state \<Rightarrow> bool" where
  take_number: "held t = None \<Longrightarrow> numbered_send (n, held, log) (Suc n, held(t \<mapsto> (socket, n)), log)"
| transmit: "held t = Some x \<Longrightarrow> numbered_send (n, held, log) (n, held(t := None), log @ [x])"

definition numbers_ok :: "send_state \<Rightarrow> bool" where
  "numbers_ok = (\<lambda>(n, held, log). distinct (map snd log) \<and> (\<forall>x\<in>set log. snd x < n) \<and>
     (\<forall>t x. held t = Some x \<longrightarrow> snd x < n \<and> snd x \<notin> snd ` set log \<and> (\<forall>u y. held u = Some y \<and> u \<noteq> t \<longrightarrow> snd y \<noteq> snd x)))"

lemma numbered_send_ok: "numbered_send s s' \<Longrightarrow> numbers_ok s \<Longrightarrow> numbers_ok s'"
proof (induction rule: numbered_send.induct)
  case (take_number held t n log socket)
  then show ?case by (fastforce simp: numbers_ok_def)
next
  case (transmit held t x n log)
  then have log: "distinct (map snd log)" "\<forall>y\<in>set log. snd y < n"
    and numbers: "\<forall>t x. held t = Some x \<longrightarrow> snd x < n \<and> snd x \<notin> snd ` set log \<and>
      (\<forall>u y. held u = Some y \<and> u \<noteq> t \<longrightarrow> snd y \<noteq> snd x)"
    unfolding numbers_ok_def prod.case by blast+
  from numbers transmit(1) have x: "snd x < n" "snd x \<notin> snd ` set log" by blast+
  have "snd y < n \<and> snd y \<notin> snd ` set (log @ [x]) \<and>
      (\<forall>v z. (held(t := None)) v = Some z \<and> v \<noteq> u \<longrightarrow> snd z \<noteq> snd y)" if "(held(t := None)) u = Some y" for u y
  proof -
    from that have u: "held u = Some y" "u \<noteq> t" by (auto split: if_splits)
    with numbers transmit(1) have "snd y \<noteq> snd x" by metis
    moreover from numbers u(1) have "snd y < n" "snd y \<notin> snd ` set log"
      "\<forall>v z. held v = Some z \<and> v \<noteq> u \<longrightarrow> snd z \<noteq> snd y" by blast+
    ultimately show ?thesis by (simp del: split_paired_All)
  qed
  moreover have "distinct (map snd (log @ [x]))" "\<forall>y\<in>set (log @ [x]). snd y < n" using log x by auto
  ultimately show ?case unfolding numbers_ok_def prod.case by blast
qed

lemma numbers_distinct:
  assumes "numbered_send\<^sup>*\<^sup>* (1, \<lambda>_. None, []) (n, held, log)"
  shows "distinct (map snd log)"
proof -
  have "numbers_ok (n, held, log)"
    using assms by (induction rule: rtranclp_induct) (simp add: numbers_ok_def, blast intro: numbered_send_ok)
  then show ?thesis by (simp add: numbers_ok_def)
qed

lemma numbers_overtake:
  "numbered_send\<^sup>*\<^sup>* (1, \<lambda>_. None, []) (3, \<lambda>_. None, [(7, 2), (7, 1)])"
proof -
  let ?none = "\<lambda>_ :: nat. None :: (int \<times> nat) option"
  let ?one = "?none(0 \<mapsto> (7, 1))" and ?two = "?none(0 \<mapsto> (7, 1), 1 \<mapsto> (7, 2))"
  have "numbered_send (1, ?none, []) (Suc 1, ?one, [])" by (rule take_number) simp
  moreover have "numbered_send (Suc 1, ?one, []) (Suc (Suc 1), ?two, [])"
    using take_number [of ?one 1 "Suc 1" "[]" 7] by (simp add: numeral_2_eq_2)
  moreover have "numbered_send (Suc (Suc 1), ?two, []) (Suc (Suc 1), ?two(1 := None), [] @ [(7, 2)])"
    by (rule transmit) simp
  moreover have "numbered_send (Suc (Suc 1), ?two(1 := None), [(7, 2)])
      (Suc (Suc 1), ?two(1 := None, 0 := None), [(7, 2)] @ [(7, 1)])"
    by (rule transmit) simp
  moreover have "?two(1 := None, 0 := None) = ?none" by (simp add: fun_eq_iff)
  ultimately show ?thesis by (simp add: numeral_3_eq_3 converse_rtranclp_into_rtranclp)
qed

text \<open>The listener prints every event that a server publishes, with its sequence number.\<close>

lemma listener_reads_events:
  assumes "start_server env (fresh_server limits faults) = (True, start)" "server_run start sv" "d \<in> set (sv_datagrams sv)"
  shows "\<exists>n e. event_valid e \<and> d = outgoing_message (event_type e) n (event_body e) \<and>
    listener_datagram d = listener_line (event_header n e) (event_body e) \<and>
    take 4 (listener_datagram d) = ''SEQ ''"
proof -
  have "feed_ok start" using start_server_silent(2) [OF assms(1)] by (simp add: feed_ok_def)
  then have "feed_ok sv"
    using feed.log_run [OF assms(2) start_server_inv [OF assms(1)] start_server_int64 [OF assms(1)]] by blast
  then obtain n e where e: "event_valid e" "d = outgoing_message (event_type e) n (event_body e)"
    using assms(3) by (auto simp: feed_ok_def event_datagram_def)
  have line: "listener_datagram d = listener_line (event_header n e) (event_body e)"
    using event_body_size [OF e(1)] header.enc_size [OF event_header_valid, of n e] header.dec_enc [OF event_header_valid, of n e]
    by (simp add: e(2) outgoing_event listener_datagram_def event_header_def unsigned_of_nat take_bit_nat_eq_self)
  have "take 4 (listener_line (event_header n e) (event_body e)) = ''SEQ ''"
    using e(1) book_update.dec_enc level3_add_order.dec_enc level3_order_executed.dec_enc level3_order_deleted.dec_enc
    by (cases e) (simp_all add: listener_line_def event_header_def sequenced_def)
  then show ?thesis using e line by auto
qed

end
