(* ===== verification/Execution_Reports.thy ===== *)
theory Execution_Reports
  imports Server_Messages
begin

text \<open>
  To whom the executions of an order are reported: to the sockets recorded with the two orders of a trade, whoever is
  connected there by now.
\<close>

section \<open>Deliveries\<close>

definition execution_message :: "u64 \<Rightarrow> Symbol \<Rightarrow> Trade \<Rightarrow> u8 list" where
  "execution_message n y t = outgoing_message MT_TradeExecution n (encode_trade_execution
     \<lparr>tex_buy_order_id = tr_buy_order_id t, tex_sell_order_id = tr_sell_order_id t, tex_price = tr_price t,
      tex_quantity = ucast (tr_quantity t), tex_sequence_number = n, tex_symbol = y\<rparr>)"

text \<open>What was sent between two states.\<close>

definition newly_sent :: "ExchangeServer \<Rightarrow> ExchangeServer \<Rightarrow> (int \<times> u8 list) list" where
  "newly_sent sv sv' = drop (length (sv_sent sv)) (sv_sent sv')"

lemma quiet_sent: "quiet sv sv' \<Longrightarrow> \<exists>s. sv_sent sv' = sv_sent sv @ s"
  by (auto simp: quiet_def)

lemma send_trade_execution_sent:
  "sv_sent (send_trade_execution socket y t sv) = sv_sent sv @
     (if socket < 0 then [] else [(socket, execution_message (sv_next_sequence_number sv) y t)])"
  by (simp add: send_trade_execution_def fetch_sequence_number_def send_to_def execution_message_def Let_def)

lemma deliveries_sent:
  assumes "d \<in> set ds" "socket = dl_buyer_socket d \<or> socket = dl_seller_socket d" "0 \<le> socket"
  shows "\<exists>n s. sv_sent (send_execution_deliveries ds sv) = sv_sent sv @ s \<and>
    (socket, execution_message n (dl_symbol d) (dl_trade d)) \<in> set s"
  using assms(1)
proof (induction ds arbitrary: sv)
  case (Cons x ds)
  let ?step = "\<lambda>x sv. send_trade_execution (dl_seller_socket x) (dl_symbol x) (dl_trade x)
      (send_trade_execution (dl_buyer_socket x) (dl_symbol x) (dl_trade x) sv)"
  have all: "send_execution_deliveries (x # ds) sv = send_execution_deliveries ds (?step x sv)"
    by (simp add: send_execution_deliveries_def)
  show ?case
  proof (cases "d = x")
    case True
    obtain s where "sv_sent (send_execution_deliveries ds (?step x sv)) = sv_sent (?step x sv) @ s"
      using quiet_sent [OF quiet_deliveries] by blast
    then show ?thesis using assms(2,3) unfolding all True by (auto simp: send_trade_execution_sent)
  next
    case False
    then obtain n s where "sv_sent (send_execution_deliveries ds (?step x sv)) = sv_sent (?step x sv) @ s"
      "(socket, execution_message n (dl_symbol d) (dl_trade d)) \<in> set s"
      using Cons by fastforce
    then show ?thesis unfolding all by (auto simp: send_trade_execution_sent)
  qed
qed simp

text \<open>The end of a confirmed new order.\<close>

definition confirm_and_report :: "int \<Rightarrow> OrderId \<Rightarrow> Settlement \<Rightarrow> BookSnapshot \<Rightarrow> ExchangeServer \<Rightarrow> ExchangeServer" where
  "confirm_and_report socket i settlement snapshot sv =
     broadcast_executions settlement (broadcast_book_update snapshot
       (send_execution_deliveries (fr_deliveries (st_report settlement))
         (send_order_response socket i True MT_OrderAccepted sv)))"

lemma confirm_and_report_delivers:
  assumes "d \<in> set (fr_deliveries (st_report settlement))" "s = dl_buyer_socket d \<or> s = dl_seller_socket d" "0 \<le> s"
  shows "\<exists>n new. sv_sent (confirm_and_report socket i settlement snapshot sv) = sv_sent sv @ new \<and>
    (s, execution_message n (dl_symbol d) (dl_trade d)) \<in> set new"
proof -
  let ?answered = "send_order_response socket i True MT_OrderAccepted sv"
  obtain n s1 where s1: "sv_sent (send_execution_deliveries (fr_deliveries (st_report settlement)) ?answered) =
      sv_sent ?answered @ s1" "(s, execution_message n (dl_symbol d) (dl_trade d)) \<in> set s1"
    using deliveries_sent [OF assms] by blast
  obtain s2 where "sv_sent (confirm_and_report socket i settlement snapshot sv) =
      sv_sent (send_execution_deliveries (fr_deliveries (st_report settlement)) ?answered) @ s2"
    unfolding confirm_and_report_def using quiet_sent [OF quiet_trans [OF quiet_book_update quiet_executions]] by blast
  then show ?thesis using s1 by (auto simp: send_order_response_sent)
qed

lemma enter_new_order_reports:
  assumes res: "enter_new_order h socket header body request trades sv = (Inr (), trades', sv')"
    and admitted: "new_order_admitted sv socket header body request"
    and i: "instrument_for (symbol_to_string (nor_symbol request)) sv = (inst, sv1)"
  shows "\<exists>b snapshot risk sv3. sv_sent sv3 = sv_sent sv \<and>
    sv' = confirm_and_report socket (nor_order_id request)
      (settle_fills h (nor_symbol request) (nor_order_id request) socket (risk_client_id_for_socket sv socket)
        (tb_to_vector trades') (inst\<lparr>in_book := b\<rparr>) risk) snapshot sv3"
proof -
  let ?y = "symbol_to_string (nor_symbol request)"
  obtain rj sv2 where j: "append_journal_record header body sv1 = (rj, sv2)" by (metis surj_pair)
  note views = instrument_for_views [OF i]
  have sent: "sv_sent sv1 = sv_sent sv" "sv_sent sv2 = sv_sent sv"
    using same_log_steps(3) [OF i] same_log_steps(4) [OF j] by (simp_all add: same_log_def)
  have risk1: "sv_risk_engine sv1 = sv_risk_engine sv" "risk_client_id_for_socket sv1 socket = risk_client_id_for_socket sv socket"
    using i by (auto simp: instrument_for_def set_instrument_def risk_client_id_for_socket_def split: option.splits)
  obtain price where price: "reference_price_of sv request = Inr price"
    "accepted (check_new_order (sv_risk_engine sv) (risk_request_of sv socket request price))"
    using admitted by (auto simp: new_order_admitted_def)
  have guards: "find_order (in_book inst) (nor_order_id request) = None" "in_order_owners inst (nor_order_id request) = None"
    using admitted by (simp_all add: views(1) new_order_admitted_def)
  have reference: "(if ord_type (server_order request) = Market
      then market_reference_price (ord_side (server_order request)) (in_book inst) else Inr None) = Inr price"
    using price(1) by (simp only: reference_price_of_def views(1) InstrumentState.select_convs)
  show ?thesis
    using res i j guards reference price(2) risk1
    by (auto simp: enter_new_order_def Let_def risk_request_of_def confirm_and_report_def split: sum.splits prod.splits)
      (intro exI, rule conjI [rotated], rule refl, simp add: sent)
qed

lemma new_order_reports:
  assumes res: "handle_new_order h socket header body trades sv = (Inr (), trades', sv')"
    and admitted: "new_order_admitted sv socket header body request"
    and t: "t \<in> set (tb_to_vector trades')" "i = tr_buy_order_id t \<or> i = tr_sell_order_id t" "i \<noteq> nor_order_id request"
    and owner: "owner_of sv (symbol_to_string (nor_symbol request)) i = Some \<lparr>ow_socket = s, ow_risk_client_id = c\<rparr>" "0 \<le> s"
  shows "\<exists>n. (s, execution_message n (nor_symbol request) t) \<in> set (newly_sent sv sv')"
proof -
  obtain inst sv1 where i: "instrument_for (symbol_to_string (nor_symbol request)) sv = (inst, sv1)" by (metis surj_pair)
  have enter: "enter_new_order h socket header body request trades sv = (Inr (), trades', sv')"
    using res admitted by (auto simp: handle_new_order_def new_order_admitted_def not_less [symmetric])
  obtain b snapshot risk sv3 settlement where shape: "sv_sent sv3 = sv_sent sv"
    "settlement = settle_fills h (nor_symbol request) (nor_order_id request) socket (risk_client_id_for_socket sv socket)
        (tb_to_vector trades') (inst\<lparr>in_book := b\<rparr>) risk"
    "sv' = confirm_and_report socket (nor_order_id request) settlement snapshot sv3"
    using enter_new_order_reports [OF enter admitted i] by blast
  let ?d = "delivery_of (inst\<lparr>in_book := b\<rparr>) (nor_symbol request) (nor_order_id request) socket
    (risk_client_id_for_socket sv socket) t"
  have d: "?d \<in> set (fr_deliveries (st_report settlement))" using t(1) by (simp add: shape(2) settle_fills_deliveries)
  have "s = dl_buyer_socket ?d \<or> s = dl_seller_socket ?d"
    using t(2,3) owner(1) instrument_for_views(1) [OF i] by (auto simp: delivery_of_def find_order_owner_def Let_def)
  from confirm_and_report_delivers [OF d this owner(2)] obtain n new where
    "sv_sent sv' = sv_sent sv @ new" "(s, execution_message n (dl_symbol ?d) (dl_trade ?d)) \<in> set new"
    unfolding shape(3) shape(1) [symmetric] by blast
  then show ?thesis by (auto simp: newly_sent_def delivery_of_def Let_def)
qed

section \<open>A descriptor that is used again\<close>

text \<open>
  C40. An execution is reported to the socket that was recorded when the order was entered, although another client may be
  connected there by now: the system gives the number of a closed socket to the next connection, an order stays in the
  book when its client disconnects, and the report is not checked against the session. Here the order \<open>i\<close> of client \<open>c\<close>
  is executed, the session on its socket has another client id, and that session gets the execution message.
\<close>

theorem execution_disclosed_to_stranger:
  assumes "handle_new_order h socket header body trades sv = (Inr (), trades', sv')"
    and "new_order_admitted sv socket header body request"
    and "t \<in> set (tb_to_vector trades')" "i = tr_buy_order_id t \<or> i = tr_sell_order_id t" "i \<noteq> nor_order_id request"
    and "owner_of sv (symbol_to_string (nor_symbol request)) i = Some \<lparr>ow_socket = s, ow_risk_client_id = c\<rparr>" "0 \<le> s"
    and "risk_client_id_for_socket sv s = c'" "c' \<noteq> c" "c' \<noteq> invalid_risk_client_id"
  shows "\<exists>n. (s, execution_message n (nor_symbol request) t) \<in> set (newly_sent sv sv')"
  by (rule new_order_reports) (fact assms)+

definition resting_sample :: OrderBook where
  "resting_sample = fst (snd (process_order_into new_book (server_order sample_buy) default_trade_buffer))"

definition risk_sample :: RiskEngine where
  "risk_sample = on_order_resting 1 ''TEST'' 1 Buy 100 5 (new_risk_engine default_limits)"

definition sample_sell :: NewOrderRequest where
  "sample_sell = sample_buy\<lparr>nor_order_id := 2, nor_side := PSell\<rparr>"

lemma next_client_kept:
  assumes "quiet sv sv'"
  shows "sv_next_risk_client_id sv' = sv_next_risk_client_id sv"
  using assms by (auto simp: quiet_def)

lemma enter_new_order_next_client:
  assumes "enter_new_order h socket header body request trades sv = (r, t, sv')"
  shows "sv_next_risk_client_id sv' = sv_next_risk_client_id sv"
proof -
  obtain inst sv1 where i: "instrument_for (symbol_to_string (nor_symbol request)) sv = (inst, sv1)" by (metis surj_pair)
  obtain rj sv2 where j: "append_journal_record header body sv1 = (rj, sv2)" by (metis surj_pair)
  have "sv_next_risk_client_id sv1 = sv_next_risk_client_id sv" "sv_next_risk_client_id sv2 = sv_next_risk_client_id sv1"
    using i j by (auto simp: instrument_for_def set_instrument_def append_journal_record_def Let_def
        split: option.splits prod.splits)
  moreover have "sv_next_risk_client_id (set_instrument y x s) = sv_next_risk_client_id s" for y x s
    by (simp add: set_instrument_def)
  ultimately show ?thesis
    using assms i j quiet_sends [THEN next_client_kept]
    by (auto simp: enter_new_order_def Let_def split: if_splits sum.splits prod.splits)
qed

lemma sample_entered_views:
  assumes "handle_new_order id 7 sample_header (encode_new_order sample_buy) default_trade_buffer sample_session = (Inr (), t, sv)"
  shows "live_book sv = (\<lambda>_. new_book)(''TEST'' := resting_sample) \<and>
    owner_of sv = (\<lambda>_. Map.empty)(''TEST'' := [1 \<mapsto> \<lparr>ow_socket = 7, ow_risk_client_id = 1\<rparr>]) \<and>
    sv_risk_engine sv = risk_sample \<and> sv_next_risk_client_id sv = 2"
  using assms
proof (cases rule: handle_new_order_cases)
  case rejected
  then show ?thesis
    using sample_admitted by blast
next
  case (entered request book res)
  have request: "request = sample_buy" using entered(2) new_order.dec_enc [OF sample_buy_valid] by simp
  have sym: "symbol_to_string (nor_symbol sample_buy) = ''TEST''" by code_simp
  have first: "process_order_into new_book (server_order sample_buy) default_trade_buffer = (res, book, t)"
    using entered(8) by (simp add: sample_session_views request sym)
  then have book: "book = resting_sample" by (simp add: resting_sample_def)
  have "fst (process_order_into new_book (server_order sample_buy) default_trade_buffer) = Inr ()"
    "tb_to_vector (snd (snd (process_order_into new_book (server_order sample_buy) default_trade_buffer))) = []"
    "map_option (\<lambda>x. (ord_id x, ord_side x, ord_price x, ord_remaining x)) (find_order resting_sample 1) = Some (1, Buy, 100, 5)"
    by code_simp+
  then have run: "res = Inr ()" "tb_to_vector t = []" and
    found: "\<exists>x. find_order resting_sample 1 = Some x \<and> ord_id x = 1 \<and> ord_side x = Buy \<and> ord_price x = 100 \<and> ord_remaining x = 5"
    using first by auto
  have "enter_new_order id 7 sample_header (encode_new_order sample_buy) sample_buy default_trade_buffer sample_session =
      (Inr (), t, sv)"
    using assms entered(1,2,3,4) by (auto simp: handle_new_order_def request not_less [symmetric])
  from enter_new_order_next_client [OF this] have "sv_next_risk_client_id sv = 2"
    using sample_started_fields(3) by (simp add: sample_connected_def register_client_def Let_def)
  then show ?thesis
    using entered(9) entered(12) [OF run(1)] found
    by (auto simp: sample_session_views request sym sample_symbol book Let_def settle_fills_def run(2) report_fills_def
        remove_filled_order_owners_def risk_sample_def) (auto simp: sample_buy_def sample_symbol)
qed simp_all

text \<open>The first client leaves, the second gets its descriptor, the third sends an order that matches.\<close>

definition reconnected :: "ExchangeServer \<Rightarrow> ExchangeServer" where
  "reconnected sv = snd (register_client 8 (snd (register_client 7 (unregister_client 7 sv))))"

lemma reconnected_run: "server_run start sv \<Longrightarrow> server_run start (reconnected sv)"
  unfolding reconnected_def by (rule run_connect [OF run_connect [OF run_disconnect]]) (assumption | rule prod.collapse [symmetric])+

lemma reconnected_views:
  "live_book (reconnected sv) = live_book sv" "owner_of (reconnected sv) = owner_of sv"
  "sv_risk_engine (reconnected sv) = sv_risk_engine sv" "journal_healthy (reconnected sv) = journal_healthy sv"
  "risk_client_id_for_socket (reconnected sv) 7 = sv_next_risk_client_id sv"
  "risk_client_id_for_socket (reconnected sv) 8 = sv_next_risk_client_id sv + 1"
  by (simp_all add: reconnected_def register_client_def unregister_client_def risk_client_id_for_socket_def
      journal_healthy_def live_book_def owner_of_def find_instrument_def fun_eq_iff Let_def)

lemma sample_sell_admitted:
  assumes "live_book sv = (\<lambda>_. new_book)(''TEST'' := resting_sample)"
    and "owner_of sv = (\<lambda>_. Map.empty)(''TEST'' := [1 \<mapsto> \<lparr>ow_socket = 7, ow_risk_client_id = 1\<rparr>])"
    and "sv_risk_engine sv = risk_sample" "risk_client_id_for_socket sv 8 = 3"
  shows "new_order_admitted sv 8 sample_header (encode_new_order sample_sell) sample_sell"
proof -
  have "unat (hdr_body_size sample_header) = new_order_body_size" "nor_quantity sample_sell \<le> maximum_quantity"
    "symbol_to_string (nor_symbol sample_sell) = ''TEST''" "find_order resting_sample 2 = None"
    by code_simp+
  moreover have "new_order_valid sample_sell" using sample_buy_valid by (simp add: sample_sell_def new_order_valid_def)
  moreover have "reference_price_of sv sample_sell = Inr None"
    by (simp add: reference_price_of_def server_order_def sample_sell_def sample_buy_def)
  moreover have "accepted (check_new_order risk_sample (risk_request_of sv 8 sample_sell None))"
    unfolding risk_request_of_def assms(4) by code_simp
  moreover have "nor_order_id sample_sell = 2" by (simp add: sample_sell_def)
  ultimately show ?thesis using new_order.dec_enc by (simp add: new_order_admitted_def assms)
qed

definition sample_trade :: Trade where
  "sample_trade = \<lparr>tr_buy_order_id = 1, tr_sell_order_id = 2, tr_price = 100, tr_quantity = 5, tr_timestamp = 1\<rparr>"

lemma sample_sell_trade:
  "tb_to_vector (snd (snd (process_order_into resting_sample (server_order sample_sell) default_trade_buffer))) = [sample_trade]"
  by code_simp

lemma reconnected_reached:
  obtains sv where "server_run sample_server sv" "live_book sv = (\<lambda>_. new_book)(''TEST'' := resting_sample)"
    "owner_of sv = (\<lambda>_. Map.empty)(''TEST'' := [1 \<mapsto> \<lparr>ow_socket = 7, ow_risk_client_id = 1\<rparr>])"
    "sv_risk_engine sv = risk_sample" "risk_client_id_for_socket sv 8 = 3" "risk_client_id_for_socket sv 7 = 2"
    "journal_healthy sv"
proof -
  obtain t0 sv0 where entered: "handle_message id 7 sample_header (encode_new_order sample_buy) default_trade_buffer
      sample_session = (Inr (), t0, sv0)" "journal_healthy sv0"
    by (rule sample_entered)
  have header: "decode_header (encode_header sample_header) = Some sample_header"
    using encode_valid_header(1) [of MT_NewOrder] by (simp add: sample_header_def named_types_def)
  have "unat (hdr_body_size sample_header) = new_order_body_size" by code_simp
  then have len: "length (encode_new_order sample_buy) = unat (hdr_body_size sample_header)"
    using new_order.enc_size [OF sample_buy_valid] by simp
  have "handle_new_order id 7 sample_header (encode_new_order sample_buy) default_trade_buffer sample_session = (Inr (), t0, sv0)"
    using entered(1) by (simp add: handle_message_def sample_header_def header_for_def)
  note views = sample_entered_views [OF this]
  have "server_run sample_server (reconnected sv0)"
    by (rule reconnected_run, rule run_message [OF sample_session_run header len _ entered(1)]) simp
  moreover note views entered(2)
  ultimately show thesis by (intro that [of "reconnected sv0"]) (simp_all add: reconnected_views)
qed

theorem execution_disclosed_to_stranger_witness:
  "\<exists>sv sv' t n. server_run sample_server sv \<and>
    handle_new_order id 8 sample_header (encode_new_order sample_sell) default_trade_buffer sv = (Inr (), t, sv') \<and>
    owner_of sv ''TEST'' 1 = Some \<lparr>ow_socket = 7, ow_risk_client_id = 1\<rparr> \<and> risk_client_id_for_socket sv 7 = 2 \<and>
    (7, execution_message n default_symbol sample_trade) \<in> set (newly_sent sv sv')"
proof -
  let ?body = "encode_new_order sample_sell"
  obtain sv where run: "server_run sample_server sv"
    and sv: "live_book sv = (\<lambda>_. new_book)(''TEST'' := resting_sample)"
    "owner_of sv = (\<lambda>_. Map.empty)(''TEST'' := [1 \<mapsto> \<lparr>ow_socket = 7, ow_risk_client_id = 1\<rparr>])"
    "sv_risk_engine sv = risk_sample" "risk_client_id_for_socket sv 8 = 3" "risk_client_id_for_socket sv 7 = 2"
    "journal_healthy sv"
    by (rule reconnected_reached)
  note admitted = sample_sell_admitted [OF sv(1-4)]
  obtain r t sv' where res: "handle_new_order id 8 sample_header ?body default_trade_buffer sv = (r, t, sv')"
    by (metis prod_cases3)
  have "handler_end sample_header ?body sv r sv'"
    using handle_new_order_inv [OF server_run_inv [OF run start_server_inv [OF sample_server_started]] _ res] by simp
  then have r: "r = Inr ()" using sv(6) by (auto simp: handler_end_def sample_header_def header_for_def)
  have sym: "symbol_to_string (nor_symbol sample_sell) = ''TEST''" "nor_symbol sample_sell = default_symbol"
    by (code_simp, simp add: sample_sell_def sample_buy_def)
  have trades: "tb_to_vector t = [sample_trade]"
    using res
  proof (cases rule: handle_new_order_cases)
    case rejected
    then show ?thesis using admitted by blast
  next
    case (entered request book res)
    have "request = sample_sell"
      using entered(2) admitted by (simp add: new_order_admitted_def)
    then show ?thesis using entered(8) sample_sell_trade by (simp add: sv(1) sym sample_symbol)
  qed (use r sv(6) in simp_all)
  obtain n where "(7, execution_message n default_symbol sample_trade) \<in> set (newly_sent sv sv')"
    using execution_disclosed_to_stranger [OF res [unfolded r] admitted, of sample_trade 1 7 1 2] sv trades sym
    by (auto simp: sample_trade_def sample_sell_def invalid_risk_client_id_def)
  moreover have "owner_of sv ''TEST'' 1 = Some \<lparr>ow_socket = 7, ow_risk_client_id = 1\<rparr>" using sv(2) by simp
  ultimately show ?thesis using run res [unfolded r] sv(5) by blast
qed

end
