(* ===== verification/Performance_Loop.thy ===== *)
theory Performance_Loop
  imports Telemetry Server_Messages
begin

text \<open>
  Two more loops of \<^verbatim>\<open>src/exchange_server.cpp\<close>: the performance loop, which publishes a telemetry snapshot every
  second, and the accept loop \<^verbatim>\<open>run\<close>, which registers a session for every connection.

  The clocks and the state of the server at the time of a snapshot are arguments. The quotient of a counter difference and
  an interval is a parameter, as the doubles of the snapshot are.
\<close>

section \<open>The performance loop\<close>

definition active_orders :: "ExchangeServer \<Rightarrow> u64" where
  "active_orders sv = fold (\<lambda>(symb, instrument) n. n + word_of_nat (order_count (in_book instrument))) (sv_instruments sv) 0"

text \<open>
  One pass of the loop after the wait: whether the server still runs, the length of the interval, the two times in
  milliseconds, the counters, the server, and the statistics of the multicast publisher with the capacity of its queues, if there is one.
\<close>

record 'd PerformanceTick =
  tk_running :: bool
  tk_interval_seconds :: 'd
  tk_timestamp_ms :: u64
  tk_uptime_ms :: u64
  tk_counters :: "'d PerformanceCounterSnapshot"
  tk_server :: ExchangeServer
  tk_market_data :: "(MulticastPublisherStats \<times> u64) option"

definition no_publisher_stats :: MulticastPublisherStats where
  "no_publisher_stats = \<lparr>ps_enqueued = 0, ps_sent = 0, ps_dropped = 0, ps_send_errors = 0, ps_queue_depth = 0,
     ps_max_queue_depth = 0, ps_producer_shards_used = 0, ps_producer_registration_failures = 0\<rparr>"

definition per_second :: "(u64 \<Rightarrow> 'd \<Rightarrow> 'd) \<Rightarrow> u64 \<Rightarrow> 'd \<Rightarrow> 'd::{zero, ord}" where
  "per_second rate_of difference interval_seconds =
     (if interval_seconds \<le> 0 then 0 else rate_of difference interval_seconds)"

definition telemetry_snapshot ::
  "(u64 \<Rightarrow> 'd \<Rightarrow> 'd) \<Rightarrow> 'd PerformanceCounterSnapshot \<Rightarrow> 'd PerformanceTick \<Rightarrow> 'd::{zero, ord} PerformanceTelemetrySnapshot" where
  "telemetry_snapshot rate_of previous tick =
     (let current = tk_counters tick; sv = tk_server tick;
          (market_data, queue_capacity) =
            (case tk_market_data tick of None \<Rightarrow> (no_publisher_stats, 0) | Some stats \<Rightarrow> stats)
      in \<lparr>ts_timestamp_ms = tk_timestamp_ms tick, ts_uptime_ms = tk_uptime_ms tick, ts_counters = current,
          ts_orders_per_second = per_second rate_of
            (cs_new_order_requests current - cs_new_order_requests previous) (tk_interval_seconds tick),
          ts_executions_per_second = per_second rate_of (cs_trades current - cs_trades previous) (tk_interval_seconds tick),
          ts_active_orders = active_orders sv, ts_instruments = word_of_nat (length (sv_instruments sv)),
          ts_connected_clients = word_of_nat (length (sv_client_sockets sv)),
          ts_market_data = market_data, ts_market_data_queue_capacity = queue_capacity\<rparr>)"

text \<open>The snapshots handed to the telemetry publisher.\<close>

fun server_performance_loop ::
  "(u64 \<Rightarrow> 'd \<Rightarrow> 'd) \<Rightarrow> 'd PerformanceCounterSnapshot \<Rightarrow> 'd PerformanceTick list \<Rightarrow>
    'd::{zero, ord} PerformanceTelemetrySnapshot list" where
  "server_performance_loop rate_of previous [] = []"
| "server_performance_loop rate_of previous (tick # ticks) =
     (if \<not> tk_running tick then []
      else telemetry_snapshot rate_of previous tick # server_performance_loop rate_of (tk_counters tick) ticks)"

section \<open>The accept loop\<close>

text \<open>
  On what the condition of the loop and \<^verbatim>\<open>accept_connection\<close> return in each pass; the result has the sockets for
  which session threads were started.
\<close>

fun run_loop :: "(bool \<times> int) list \<Rightarrow> ExchangeServer \<Rightarrow> int list \<times> ExchangeServer" where
  "run_loop [] sv = ([], sv)"
| "run_loop ((running, client_socket) # connections) sv =
     (if \<not> running \<or> client_socket < 0 then ([], sv)
      else
        let (risk_client_id, sv) = register_client client_socket sv;
            (threads, sv) = run_loop connections sv
        in (client_socket # threads, sv))"

section \<open>What they report\<close>

lemma active_orders_sum:
  "active_orders sv = word_of_nat (sum_list (map (\<lambda>(y, inst). order_count (in_book inst)) (sv_instruments sv)))"
proof -
  have "fold (\<lambda>(y, inst) n. n + word_of_nat (order_count (in_book inst))) xs n =
      n + word_of_nat (sum_list (map (\<lambda>(y, inst). order_count (in_book inst)) xs))"
    for n :: u64 and xs :: "(string \<times> InstrumentState) list"
    by (induction xs arbitrary: n) (auto simp: algebra_simps)
  then show ?thesis by (simp add: active_orders_def)
qed

text \<open>The differences the published rates are computed from add up to the change of the counter, also when it wraps.\<close>

fun counter_differences :: "u64 \<Rightarrow> 'd PerformanceTick list \<Rightarrow> u64 list" where
  "counter_differences n [] = []"
| "counter_differences n (tick # ticks) =
     (cs_new_order_requests (tk_counters tick) - n) # counter_differences (cs_new_order_requests (tk_counters tick)) ticks"

lemma rates_add_up:
  assumes "\<forall>tick\<in>set ticks. tk_running tick \<and> \<not> tk_interval_seconds tick \<le> 0"
  shows "map ts_orders_per_second (server_performance_loop rate_of previous ticks) =
      map2 rate_of (counter_differences (cs_new_order_requests previous) ticks) (map tk_interval_seconds ticks)"
    and "sum_list (counter_differences n ticks) =
      (if ticks = [] then 0 else cs_new_order_requests (tk_counters (last ticks)) - n)"
proof -
  show "map ts_orders_per_second (server_performance_loop rate_of previous ticks) =
      map2 rate_of (counter_differences (cs_new_order_requests previous) ticks) (map tk_interval_seconds ticks)"
    using assms by (induction ticks arbitrary: previous) (auto simp: telemetry_snapshot_def per_second_def Let_def split: prod.splits)
  show "sum_list (counter_differences n ticks) =
      (if ticks = [] then 0 else cs_new_order_requests (tk_counters (last ticks)) - n)"
    by (induction ticks arbitrary: n) auto
qed

text \<open>
  The accept loop gives every connection a client id of its own, counted from the next free one, as long as the counter does not wrap.
\<close>

lemma run_loop_sessions:
  "run_loop connections sv = (threads, sv') \<Longrightarrow>
     sv_client_sockets sv' = sv_client_sockets sv @ threads \<and>
     sv_next_risk_client_id sv' = sv_next_risk_client_id sv + word_of_nat (length threads) \<and>
     (distinct threads \<longrightarrow> (\<forall>k<length threads.
       risk_client_id_for_socket sv' (threads ! k) = sv_next_risk_client_id sv + word_of_nat k)) \<and>
     (\<forall>s. s \<notin> set threads \<longrightarrow> sv_client_risk_ids sv' s = sv_client_risk_ids sv s)"
proof (induction connections sv arbitrary: threads sv' rule: run_loop.induct)
  case (2 running client_socket connections sv)
  show ?case
  proof (cases "\<not> running \<or> client_socket < 0")
    case False
    obtain c sv1 where reg: "register_client client_socket sv = (c, sv1)" by (metis surj_pair)
    obtain ts where ts: "run_loop connections sv1 = (ts, sv')" "threads = client_socket # ts"
      using 2(2) False reg by (auto simp: Let_def split: prod.splits)
    have sv1: "sv_client_sockets sv1 = sv_client_sockets sv @ [client_socket]"
      "sv_next_risk_client_id sv1 = sv_next_risk_client_id sv + 1"
      "sv_client_risk_ids sv1 = (sv_client_risk_ids sv)(client_socket \<mapsto> sv_next_risk_client_id sv)"
      using reg by (auto simp: register_client_def Let_def)
    note IH = 2(1) [OF False reg [symmetric] refl ts(1)]
    have "risk_client_id_for_socket sv' (threads ! k) = sv_next_risk_client_id sv + word_of_nat k"
      if "distinct threads" "k < length threads" for k
      using IH sv1 ts(2) that
      by (cases k) (auto simp: risk_client_id_for_socket_def nth_Cons split: option.splits)
    then show ?thesis using IH sv1 ts(2) by (auto simp: algebra_simps)
  qed (use 2(2) in auto)
qed simp

end
