(* ===== verification/Memory_Pool.thy ===== *)
theory Memory_Pool
  imports Prelude
begin

text \<open>
  The counting memory resource of \<^verbatim>\<open>include/exchange/memory_pool.hpp\<close>, which counts the calls that reach the upstream
  allocator. The upstream allocator is the environment: an allocation gets the address it returns, or none when it
  throws \<^verbatim>\<open>std::bad_alloc\<close>, which passes through before anything is counted. The pool above the resource is the one of
  the standard library; which calls it makes is arbitrary here.
\<close>

section \<open>The resource\<close>

record MemoryPoolStats =
  ms_upstream_allocations :: u64
  ms_upstream_deallocations :: u64
  ms_upstream_bytes_allocated :: u64
  ms_upstream_bytes_deallocated :: u64

definition new_pool_stats :: MemoryPoolStats where
  "new_pool_stats = \<lparr>ms_upstream_allocations = 0, ms_upstream_deallocations = 0, ms_upstream_bytes_allocated = 0,
     ms_upstream_bytes_deallocated = 0\<rparr>"

text \<open>The blocks the upstream allocator has handed out, with their sizes.\<close>

record CountingMemoryResource =
  cm_stats :: MemoryPoolStats
  cm_upstream :: "nat \<rightharpoonup> u64"

definition new_memory_resource :: CountingMemoryResource where
  "new_memory_resource = \<lparr>cm_stats = new_pool_stats, cm_upstream = Map.empty\<rparr>"

definition do_allocate :: "nat option \<Rightarrow> u64 \<Rightarrow> CountingMemoryResource \<Rightarrow> nat option \<times> CountingMemoryResource" where
  "do_allocate upstream bytes r =
     (case upstream of
        None \<Rightarrow> (None, r)
      | Some memory \<Rightarrow>
          (Some memory, r\<lparr>cm_upstream := (cm_upstream r)(memory \<mapsto> bytes),
             cm_stats := (cm_stats r)\<lparr>ms_upstream_allocations := ms_upstream_allocations (cm_stats r) + 1,
               ms_upstream_bytes_allocated := ms_upstream_bytes_allocated (cm_stats r) + bytes\<rparr>\<rparr>))"

definition do_deallocate :: "nat \<Rightarrow> u64 \<Rightarrow> CountingMemoryResource \<Rightarrow> CountingMemoryResource" where
  "do_deallocate memory bytes r =
     r\<lparr>cm_upstream := (cm_upstream r)(memory := None),
       cm_stats := (cm_stats r)\<lparr>ms_upstream_deallocations := ms_upstream_deallocations (cm_stats r) + 1,
         ms_upstream_bytes_deallocated := ms_upstream_bytes_deallocated (cm_stats r) + bytes\<rparr>\<rparr>"

section \<open>The statistics\<close>

text \<open>
  Uses that keep the contract of a memory resource: the upstream allocator returns addresses that are free, and a block is
  given back once, with the size it was requested with.
\<close>

inductive resource_use :: "CountingMemoryResource \<Rightarrow> bool" where
  use_start: "resource_use new_memory_resource"
| use_allocate: "resource_use r \<Longrightarrow> (case upstream of None \<Rightarrow> True | Some memory \<Rightarrow> cm_upstream r memory = None) \<Longrightarrow>
    do_allocate upstream bytes r = (res, r') \<Longrightarrow> resource_use r'"
| use_deallocate: "resource_use r \<Longrightarrow> cm_upstream r memory = Some bytes \<Longrightarrow> resource_use (do_deallocate memory bytes r)"

text \<open>What the statistics say is outstanding is what is outstanding: the number of the blocks, and their bytes.\<close>

theorem outstanding_memory:
  assumes "resource_use r"
  shows "finite (dom (cm_upstream r)) \<and>
    ms_upstream_allocations (cm_stats r) - ms_upstream_deallocations (cm_stats r) = word_of_nat (card (dom (cm_upstream r))) \<and>
    ms_upstream_bytes_allocated (cm_stats r) - ms_upstream_bytes_deallocated (cm_stats r) =
      (\<Sum>memory\<in>dom (cm_upstream r). the (cm_upstream r memory))"
  using assms
proof induction
  case use_start
  show ?case by (simp add: new_memory_resource_def new_pool_stats_def)
next
  case (use_allocate r upstream bytes res r')
  show ?case
  proof (cases upstream)
    case (Some memory)
    then have fresh: "memory \<notin> dom (cm_upstream r)" and fin: "finite (dom (cm_upstream r))"
      using use_allocate by auto
    let ?live = "dom (cm_upstream r)" and ?new = "(cm_upstream r)(memory \<mapsto> bytes)"
    have "(\<Sum>m\<in>?live. the (?new m)) = (\<Sum>m\<in>?live. the (cm_upstream r m))"
      using fresh by (intro sum.cong) auto
    then have "(\<Sum>m\<in>insert memory ?live. the (?new m)) = bytes + (\<Sum>m\<in>?live. the (cm_upstream r m))"
      using fresh fin by (simp del: fun_upd_apply) (simp add: fun_upd_same)
    moreover have "card (insert memory ?live) = Suc (card ?live)" using fresh fin by simp
    moreover have "r' = r\<lparr>cm_upstream := ?new, cm_stats := (cm_stats r)
        \<lparr>ms_upstream_allocations := ms_upstream_allocations (cm_stats r) + 1,
         ms_upstream_bytes_allocated := ms_upstream_bytes_allocated (cm_stats r) + bytes\<rparr>\<rparr>"
      using use_allocate.hyps(3) Some by (simp add: do_allocate_def)
    ultimately show ?thesis
      using use_allocate.IH fin by (simp add: algebra_simps del: fun_upd_apply)
  qed (use use_allocate in \<open>simp add: do_allocate_def\<close>)
next
  case (use_deallocate r memory bytes)
  let ?rest = "dom (cm_upstream r) - {memory}"
  have member: "memory \<in> dom (cm_upstream r)" and fin: "finite (dom (cm_upstream r))" using use_deallocate by auto
  have dom: "dom ((cm_upstream r)(memory := None)) = ?rest" by auto
  have "(\<Sum>m\<in>?rest. the (((cm_upstream r)(memory := None)) m)) = (\<Sum>m\<in>?rest. the (cm_upstream r m))"
    by (intro sum.cong) auto
  moreover have "(\<Sum>m\<in>dom (cm_upstream r). the (cm_upstream r m)) = bytes + (\<Sum>m\<in>?rest. the (cm_upstream r m))"
    using sum.remove [OF fin member, of "\<lambda>m. the (cm_upstream r m)"] use_deallocate.hyps(2) by simp
  moreover have "card (dom (cm_upstream r)) = Suc (card ?rest)" using card.remove [OF fin member] by simp
  ultimately show ?case
    using use_deallocate.IH fin by (simp add: do_deallocate_def dom algebra_simps del: fun_upd_apply)
qed

end
