(* ===== verification/Fix_Client.thy ===== *)
theory Fix_Client
  imports Fix_Properties Stream_Reader Websocket_Properties
begin

text \<open>
  The FIX demonstration client of \<^verbatim>\<open>tools/exchange_fix_client.cpp\<close>: a session with the FIX gateway in which each
  request waits for one answer. The clock, the results of \<^verbatim>\<open>send\<close> and the texts that successive \<^verbatim>\<open>recv\<close> calls return are
  arguments.
\<close>

section \<open>Receiving\<close>

fun receive_one :: "string list \<Rightarrow> string \<Rightarrow> string option \<times> string list \<times> string" where
  "receive_one pieces buffer =
     (let (extracted, buffer) = extract_one buffer in
      if ex_status extracted = MessageReady then (Some (ex_wire_message extracted), pieces, buffer)
      else if ex_status extracted = InvalidData then (None, pieces, buffer)
      else (case pieces of
        [] \<Rightarrow> (None, [], buffer)
      | bytes # pieces \<Rightarrow> if bytes = [] then (None, pieces, buffer) else receive_one pieces (buffer @ bytes)))"

declare receive_one.simps [simp del]

section \<open>The session\<close>

definition base_message :: "string \<Rightarrow> nat \<Rightarrow> UtcTime \<Rightarrow> Message" where
  "base_message t sequence_number now =
     message_add 52 (utc_timestamp now) (message_add 56 ''EXCHANGELAB'' (message_add 49 ''FIXDEMO''
       (message_add 34 (decimal sequence_number) (message_add 35 t new_message))))"

definition add_fields :: "(int \<times> string) list \<Rightarrow> Message \<Rightarrow> Message" where
  "add_fields fs m = fold (\<lambda>(t, v). message_add t v) fs m"

text \<open>The requests, with the two readings of the clock for each.\<close>

definition demo_requests :: "(nat \<Rightarrow> UtcTime \<times> UtcTime) \<Rightarrow> Message list" where
  "demo_requests clock =
     [add_fields [(98, ''0''), (108, ''30'')] (base_message ''A'' 1 (fst (clock 1))),
      add_fields [(11, ''FIXDEMO-1''), (55, ''AAPL''), (54, ''1''), (38, ''10''), (40, ''2''), (44, ''100''),
        (59, ''1''), (60, utc_timestamp (snd (clock 2)))] (base_message ''D'' 2 (fst (clock 2))),
      add_fields [(11, ''FIXDEMO-2''), (41, ''FIXDEMO-1''), (55, ''AAPL''), (54, ''1''), (38, ''12''), (40, ''2''),
        (44, ''101''), (59, ''1''), (60, utc_timestamp (snd (clock 3)))] (base_message ''G'' 3 (fst (clock 3))),
      add_fields [(11, ''FIXDEMO-3''), (41, ''FIXDEMO-2''), (55, ''AAPL''), (54, ''1''),
        (60, utc_timestamp (snd (clock 4)))] (base_message ''F'' 4 (fst (clock 4))),
      add_fields [(11, ''FIXDEMO-RISK''), (55, ''MSFT''), (54, ''1''), (38, ''100001''), (40, ''2''), (44, ''410''),
        (59, ''1''), (60, utc_timestamp (snd (clock 5)))] (base_message ''D'' 5 (fst (clock 5))),
      base_message ''5'' 6 (fst (clock 6))]"

text \<open>The printed lines, and whether the exchange of the message succeeded.\<close>

definition send_and_receive ::
  "(nat \<Rightarrow> nat \<Rightarrow> int) \<Rightarrow> Message \<Rightarrow> string list \<times> string \<Rightarrow> bool \<times> string list \<times> string list \<times> string" where
  "send_and_receive sends message stream =
     (let wire = fix_encode message; (pieces, buffer) = stream in
      if \<not> fst (send_all sends 0 (text_bytes wire)) then (False, [], pieces, buffer)
      else
        let sent_line = ''C -> G  '' @ printable wire in
        (case receive_one pieces buffer of
           (None, pieces, buffer) \<Rightarrow> (False, [sent_line], pieces, buffer)
         | (Some response, pieces, buffer) \<Rightarrow> (True, [sent_line, ''G -> C  '' @ printable response, []], pieces, buffer)))"

fun fix_client_requests ::
  "(nat \<Rightarrow> nat \<Rightarrow> nat \<Rightarrow> int) \<Rightarrow> nat \<Rightarrow> Message list \<Rightarrow> string list \<times> string \<Rightarrow> int \<times> string list" where
  "fix_client_requests sends n [] stream = (0, [])"
| "fix_client_requests sends n (request # requests) stream =
     (let (ok, lines, stream) = send_and_receive (sends n) request stream in
      if \<not> ok then (1, lines)
      else let (code, later) = fix_client_requests sends (n + 1) requests stream in (code, lines @ later))"

definition fix_client_main :: "bool \<Rightarrow> (nat \<Rightarrow> nat \<Rightarrow> nat \<Rightarrow> int) \<Rightarrow> (nat \<Rightarrow> UtcTime \<times> UtcTime) \<Rightarrow> string list \<Rightarrow> int \<times> string list" where
  "fix_client_main connected sends clock pieces =
     (if \<not> connected then (1, []) else fix_client_requests sends 0 (demo_requests clock) (pieces, []))"

section \<open>What the client reads\<close>

lemma receive_one_reads:
  "message_ok m \<Longrightarrow> [] \<notin> set pieces \<Longrightarrow> buffer @ concat pieces = fix_encode m @ rest \<Longrightarrow>
     \<exists>pieces' buffer'. receive_one pieces buffer = (Some (fix_encode m), pieces', buffer') \<and>
       buffer' @ concat pieces' = rest \<and> [] \<notin> set pieces'"
proof (induction pieces arbitrary: buffer)
  case Nil
  then show ?case using extract_one_encoded [of m rest] by (simp add: receive_one.simps)
next
  case (Cons bytes pieces)
  show ?case
  proof (cases "length (fix_encode m) \<le> length buffer")
    case True
    then obtain more where more: "buffer = fix_encode m @ more" "rest = more @ concat (bytes # pieces)"
      using Cons.prems(3) by (metis append_eq_append_conv_if append_eq_conv_conj append_take_drop_id)
    then show ?thesis using extract_one_encoded [OF Cons.prems(1), of more] Cons.prems(2) by (simp add: receive_one.simps)
  next
    case False
    then have "buffer = take (length buffer) (fix_encode m)"
      using Cons.prems(3) by (metis append_eq_append_conv_if nat_le_linear take_all)
    then have "extract_one buffer = (need_more_data, buffer)"
      using extract_one_torn [OF Cons.prems(1), of "length buffer"] False by simp
    then have "receive_one (bytes # pieces) buffer = receive_one pieces (buffer @ bytes)"
      using Cons.prems(2) by (subst receive_one.simps) (auto simp: need_more_data_def)
    then show ?thesis using Cons.IH [of "buffer @ bytes"] Cons.prems by auto
  qed
qed

interpretation fix_session: stream_reader "\<lambda>(pieces, buffer). receive_one pieces buffer" "\<lambda>w. w"
  "\<lambda>w. \<exists>m. message_ok m \<and> w = fix_encode m" "\<lambda>(pieces, buffer). buffer @ concat pieces" "\<lambda>(pieces, buffer). [] \<notin> set pieces"
proof
  fix w rest :: string and s :: "string list \<times> string"
  assume valid: "\<exists>m. message_ok m \<and> w = fix_encode m" and "case s of (pieces, buffer) \<Rightarrow> [] \<notin> set pieces"
    and "(case s of (pieces, buffer) \<Rightarrow> buffer @ concat pieces) = w @ rest"
  then show "\<exists>s'. (case s of (pieces, buffer) \<Rightarrow> receive_one pieces buffer) = (Some w, s') \<and>
      (case s' of (pieces, buffer) \<Rightarrow> [] \<notin> set pieces) \<and> (case s' of (pieces, buffer) \<Rightarrow> buffer @ concat pieces) = rest"
    using receive_one_reads by (cases s) fastforce
qed

text \<open>
  The session against a gateway that answers every request with one message: however the answers are cut, the client
  sends all six requests, prints each with its answer, and exits with code 0.
\<close>

definition exchange_lines :: "Message \<Rightarrow> Message \<Rightarrow> string list" where
  "exchange_lines request answer =
     [''C -> G  '' @ printable (fix_encode request), ''G -> C  '' @ printable (fix_encode answer), []]"

lemma send_and_receive_answered:
  assumes "message_ok answer" "[] \<notin> set pieces" "buffer @ concat pieces = fix_encode answer @ rest"
    and "fst (send_all sends 0 (text_bytes (fix_encode request)))"
  shows "\<exists>pieces' buffer'. send_and_receive sends request (pieces, buffer) =
      (True, exchange_lines request answer, pieces', buffer') \<and> buffer' @ concat pieces' = rest \<and> [] \<notin> set pieces'"
  using receive_one_reads [OF assms(1-3)] assms(4) by (auto simp: send_and_receive_def exchange_lines_def)

lemma fix_client_requests_answered:
  assumes "list_all2 (\<lambda>request answer. message_ok answer) requests answers"
    and "\<And>n request. request \<in> set requests \<Longrightarrow> fst (send_all (sends n) 0 (text_bytes (fix_encode request)))"
    and "[] \<notin> set pieces" "buffer @ concat pieces = concat (map fix_encode answers)"
  shows "fix_client_requests sends n requests (pieces, buffer) = (0, concat (map2 exchange_lines requests answers))"
  using assms
proof (induction requests answers arbitrary: n pieces buffer rule: list_all2_induct)
  case (Cons request requests answer answers)
  obtain pieces' buffer' where step: "send_and_receive (sends n) request (pieces, buffer) =
      (True, exchange_lines request answer, pieces', buffer')"
    "buffer' @ concat pieces' = concat (map fix_encode answers)" "[] \<notin> set pieces'"
    using send_and_receive_answered [of answer pieces buffer "concat (map fix_encode answers)" "sends n" request] Cons
    by auto
  show ?case using Cons.IH [OF _ step(3,2)] Cons.prems(1) step(1) by (simp add: Let_def)
qed simp

end
