(* ===== verification/Tools.thy ===== *)
theory Tools
  imports Exchange_Client
begin

text \<open>
  Three of the programs around the library: the journal replay tool of \<^verbatim>\<open>tools/exchange_replay.cpp\<close>, the risk
  demonstration of \<^verbatim>\<open>tools/exchange_risk_demo.cpp\<close>, and the exchange program of \<^verbatim>\<open>src/main.cpp\<close>. What they print is a list of lines.
\<close>

section \<open>The replay tool\<close>

definition in_quotes :: "string \<Rightarrow> string" where
  "in_quotes s = CHR 0x22 # s @ [CHR 0x22]"

text \<open>A side is printed when it is not empty, so neither access throws.\<close>

definition best_line :: "string \<Rightarrow> bool \<Rightarrow> Price outcome \<Rightarrow> PriceLevel outcome \<Rightarrow> string" where
  "best_line label present price lvl =
     (if present then
        (case (price, lvl) of
           (Inr p, Inr l) \<Rightarrow> label @ decimal_int p @ '' x '' @ decimal (unat (lvl_total l))
         | _ \<Rightarrow> [])
      else label @ ''none'')"

definition book_lines :: "string \<Rightarrow> OrderBook \<Rightarrow> string list" where
  "book_lines symb book =
     [symb, replicate (length symb) (CHR ''-''), ''Remaining orders: '' @ decimal (order_count book),
      best_line ''Best bid: '' (has_bids book) (best_bid book) (best_bid_level book),
      best_line ''Best ask: '' (has_asks book) (best_ask book) (best_ask_level book), []]"

definition replay_lines :: "string \<Rightarrow> ReplaySummary \<Rightarrow> string list" where
  "replay_lines journal_path s =
     [''ExchangeLab Journal Replay'', ''=========================='', ''Journal: '' @ in_quotes journal_path,
      ''Records: '' @ show_u64 (sum_journal_records s), ''New orders: '' @ show_u64 (sum_new_orders s),
      ''Trades: '' @ show_u64 (sum_trades s), ''Rejected messages: '' @ show_u64 (sum_rejected_messages s),
      ''Unsupported messages: '' @ show_u64 (sum_unsupported_messages s), ''Symbols: '' @ show_u64 (sum_symbols s), []]"

text \<open>The arguments behind the name of the program, and the contents of the files; the exit code, the output and the errors.\<close>

definition replay_tool_main :: "string \<Rightarrow> string list \<Rightarrow> (string \<Rightarrow> u8 list option) \<Rightarrow> int \<times> string list \<times> string list" where
  "replay_tool_main program arguments files =
     (let journal_path = (case arguments of [] \<Rightarrow> ''exchange.log'' | path # _ \<Rightarrow> path) in
      if length arguments > 1 then (1, [], [''Usage: '' @ program @ '' [journal_path]''])
      else
        let (ok, replayer) = replay (files journal_path) new_replayer in
        if \<not> ok then (1, [], [''Failed to replay journal: '' @ in_quotes journal_path])
        else (0, replay_lines journal_path (rp_summary replayer) @
               concat (map (\<lambda>symb. book_lines symb (replayed_book replayer symb)) (replayed_symbols replayer)), []))"

section \<open>The risk demonstration\<close>

definition decision_line :: "string \<Rightarrow> RiskDecision \<Rightarrow> string" where
  "decision_line label decision =
     label @ '': '' @ (if accepted decision then ''ACCEPT'' else ''REJECT ('' @ reason_to_string (reason decision) @ '')'')"

definition snapshot_line :: "ClientRiskSnapshot \<Rightarrow> string" where
  "snapshot_line s =
     ''  position='' @ decimal_int (snap_position s) @ '' open_orders='' @ show_u64 (snap_open_orders s) @
     '' gross_open_quantity='' @ show_u64 (snap_gross_open_quantity s) @
     '' open_buy_quantity='' @ show_u64 (snap_open_buy_quantity s) @
     '' open_sell_quantity='' @ show_u64 (snap_open_sell_quantity s)"

definition demo_limits :: RiskLimits where
  "demo_limits = default_limits\<lparr>max_order_quantity := 100, max_order_notional := 50000, max_open_orders := 4,
     max_open_quantity := 200, max_position_per_symbol := 100\<rparr>"

definition demo_order :: RiskOrderRequest where
  "demo_order = \<lparr>rq_client_id = 1, rq_symbol = ''AAPL'', rq_order_id = 1, rq_side = Buy, rq_order_type = Limit,
     rq_time_in_force = GoodTillCancel, rq_price = 100, rq_quantity = 70, rq_reference_price = None\<rparr>"

definition risk_demo :: "string list" where
  "risk_demo =
     (let risk = new_risk_engine demo_limits;
          first = decision_line ''BUY 70 AAPL'' (check_new_order risk demo_order);
          risk = on_order_resting 1 ''AAPL'' 1 Buy 100 70 risk;
          resting_line = snapshot_line (risk_snapshot risk 1 ''AAPL'');
          second = decision_line ''BUY another 40 AAPL''
            (check_new_order risk (demo_order\<lparr>rq_order_id := 2, rq_price := 101, rq_quantity := 40\<rparr>));
          risk = on_trade ''AAPL'' 1 invalid_risk_client_id 1 9000 20 risk;
          traded_line = snapshot_line (risk_snapshot risk 1 ''AAPL'');
          risk = set_global_kill_switch True risk;
          third = decision_line ''BUY 10 MSFT with kill switch enabled''
            (check_new_order risk (demo_order\<lparr>rq_symbol := ''MSFT'', rq_order_id := 3, rq_quantity := 10\<rparr>));
          risk = on_order_cancelled 1 ''AAPL'' 1 risk;
          cancelled_line = snapshot_line (risk_snapshot risk 1 ''AAPL'')
      in [first, ''After resting order:'', resting_line, second, ''After buying 20 shares:'', traded_line, third,
          ''After cancelling remaining AAPL exposure:'', cancelled_line])"

lemma risk_demo_output:
  "risk_demo =
     [''BUY 70 AAPL: ACCEPT'',
      ''After resting order:'',
      ''  position=0 open_orders=1 gross_open_quantity=70 open_buy_quantity=70 open_sell_quantity=0'',
      ''BUY another 40 AAPL: REJECT (max position)'',
      ''After buying 20 shares:'',
      ''  position=20 open_orders=1 gross_open_quantity=50 open_buy_quantity=50 open_sell_quantity=0'',
      ''BUY 10 MSFT with kill switch enabled: REJECT (global kill switch)'',
      ''After cancelling remaining AAPL exposure:'',
      ''  position=20 open_orders=0 gross_open_quantity=0 open_buy_quantity=0 open_sell_quantity=0'']"
  by code_simp

section \<open>The exchange program\<close>

definition recovery_lines :: "RecoveryState \<Rightarrow> string list" where
  "recovery_lines r =
     (if rs_attempted r then
        [''Journal recovery complete'', ''  Records: '' @ show_u64 (rs_journal_records r),
         ''  New orders: '' @ show_u64 (rs_new_orders r), ''  Trades: '' @ show_u64 (rs_trades r),
         ''  Rejected records: '' @ show_u64 (rs_rejected_messages r),
         ''  Unsupported records: '' @ show_u64 (rs_unsupported_messages r),
         ''  Instruments: '' @ decimal (rs_instruments r), ''  Remaining orders: '' @ decimal (rs_remaining_orders r)]
      else [])"

definition banner_lines :: "RiskLimits \<Rightarrow> string list" where
  "banner_lines limits =
     [''ExchangeLab listening on port 9000'', ''Protocol version: '' @ decimal (unat protocol_version),
      ''Journal: '' @ in_quotes ''exchange.log'', ''Market data multicast: 239.255.0.1:9100'',
      ''Performance telemetry: 127.0.0.1:9200'', ''Risk limits:'',
      ''  Max order quantity: '' @ decimal (unat (max_order_quantity limits)),
      ''  Max order notional: '' @ show_u64 (max_order_notional limits),
      ''  Max open orders/session: '' @ show_u64 (max_open_orders limits),
      ''  Max open quantity/session: '' @ show_u64 (max_open_quantity limits),
      ''  Max position/symbol: +/-'' @ show_u64 (max_position_per_symbol limits)]"

text \<open>The program starts a new server with the default limits, prints what it recovered, and then runs its accept loop.\<close>

definition exchange_main :: "StartEnvironment \<Rightarrow> int \<times> string list \<times> string list" where
  "exchange_main env =
     (let (started, sv) = start_server env (new_server default_limits) in
      if \<not> started then (1, [], [''Failed to start ExchangeLab on port 9000''])
      else (0, recovery_lines (sv_recovery_state sv) @ banner_lines (re_limits (sv_risk_engine sv)), []))"

section \<open>The tool shows the books of the server\<close>

lemma printed_sides:
  "has_bids b \<Longrightarrow> \<exists>p l. best_bid b = Inr p \<and> best_bid_level b = Inr l"
  "has_asks b \<Longrightarrow> \<exists>p l. best_ask b = Inr p \<and> best_ask_level b = Inr l"
  by (auto simp: has_bids_def has_asks_def best_bid_def best_ask_def best_bid_level_def best_ask_level_def split: list.split)

text \<open>
  After any run of a server with a journal the tool, called with the path of the journal, reports the books of the live server.
\<close>

theorem replay_tool_shows_books:
  assumes "start_server env (fresh_server limits faults) = (True, start)" "complete_journal (file_contents (se_file env))"
    and "server_run start sv" "sv_journal sv = Some j" "files path = Some (jr_file j)"
  shows "\<exists>summary symbols. sorted symbols \<and> (\<forall>y. y \<in> set symbols \<or> live_book sv y = new_book) \<and>
    replay_tool_main program [path] files =
      (0, replay_lines path summary @ concat (map (\<lambda>y. book_lines y (live_book sv y)) symbols), [])"
proof -
  have "journaled sv"
    using server_run_journaled [OF assms(3) start_server_inv [OF assms(1)] start_server_journaled [OF assms(1,2)]] .
  then obtain ms where ms: "\<forall>m\<in>set ms. message_size_ok m" "jr_file j = concat (map frame ms)"
    "book_at (books_of (replay_messages_from_scratch ms)) = live_book sv"
    using assms(4) by (auto simp: journaled_def)
  define rp where "rp = count_symbols (replay_messages_from_scratch ms)"
  have replayed: "replay (Some (jr_file j)) new_replayer = (True, rp)"
    using replay_complete_file [OF ms(1)] ms(2) by (simp add: rp_def)
  have "replayed_book rp = live_book sv"
    unfolding ms(3) [symmetric] by (auto simp: rp_def replayed_book_def book_at_def books_of_def count_symbols_def fun_eq_iff)
  moreover from this have "y \<in> set (replayed_symbols rp) \<or> live_book sv y = new_book" for y
    by (auto simp: replayed_symbols_def replayed_book_def fun_eq_iff map_of_eq_None_iff split: option.splits)
  ultimately show ?thesis
    using replayed assms(5)
    by (intro exI [of _ "rp_summary rp"] exI [of _ "replayed_symbols rp"])
      (simp add: replay_tool_main_def replayed_symbols_def)
qed

theorem replay_tool_shows_books_witness:
  "\<exists>sv j summary symbols. server_run sample_server sv \<and> sv_journal sv = Some j \<and> ''TEST'' \<in> set symbols \<and>
    replay_tool_main ''exchange_replay'' [''exchange.log''] (\<lambda>_. Some (jr_file j)) =
      (0, replay_lines ''exchange.log'' summary @ concat (map (\<lambda>y. book_lines y (live_book sv y)) symbols), [])"
proof -
  obtain sv where sv: "server_run sample_server sv" "find_order (live_book sv ''TEST'') 1 \<noteq> None" "sv_journal sv \<noteq> None"
    by (rule sample_resting_run)
  then obtain j where j: "sv_journal sv = Some j" by auto
  obtain summary symbols where shown: "\<forall>y. y \<in> set symbols \<or> live_book sv y = new_book"
    "replay_tool_main ''exchange_replay'' [''exchange.log''] (\<lambda>_. Some (jr_file j)) =
      (0, replay_lines ''exchange.log'' summary @ concat (map (\<lambda>y. book_lines y (live_book sv y)) symbols), [])"
    using replay_tool_shows_books [OF sample_server_started sample_complete sv(1) j, of "\<lambda>_. Some (jr_file j)"] by blast
  have "''TEST'' \<in> set symbols" using shown(1) sv(2) by (metis find_order_new_book)
  then show ?thesis using sv(1) j shown(2) by blast
qed

end
