(* ===== verification/Gateway_Lifecycle.thy ===== *)
theory Gateway_Lifecycle
  imports Tcp_Server
begin

text \<open>
  The life of the FIX gateway around its sessions, in \<^verbatim>\<open>src/fix_gateway.cpp\<close>: start, accept loop and stop, and the
  connection to the exchange that a session opens. The answers of the system are arguments.
\<close>

section \<open>Start, run, stop\<close>

text \<open>The state of the object, with the sockets for which session threads run and the descriptors it has closed.\<close>

record GatewayObject =
  go_running :: bool
  go_listen_socket :: int
  go_threads :: "int list"
  go_closed :: "int list"

definition new_gateway_object :: GatewayObject where
  "new_gateway_object = \<lparr>go_running = False, go_listen_socket = - 1, go_threads = [], go_closed = []\<rparr>"

definition gateway_start :: "ListenAnswers \<Rightarrow> GatewayObject \<Rightarrow> bool \<times> GatewayObject" where
  "gateway_start answers g =
     (if go_running g then (True, g)
      else
        let g = g\<lparr>go_running := True, go_listen_socket := la_socket answers\<rparr> in
        if la_socket answers < 0 then (False, g\<lparr>go_running := False\<rparr>)
        else if \<not> la_bind answers \<or> \<not> la_listen answers then
          (False, g\<lparr>go_closed := go_closed g @ [la_socket answers], go_listen_socket := - 1, go_running := False\<rparr>)
        else (True, g))"

text \<open>
  The accept loop, on what it finds in each pass: the flag when the loop begins the pass, the result of \<^verbatim>\<open>accept\<close>, and
  the flag when the result is not a connection.
\<close>

fun gateway_accept_loop :: "(bool \<times> int \<times> bool) list \<Rightarrow> GatewayObject \<Rightarrow> GatewayObject" where
  "gateway_accept_loop [] g = g"
| "gateway_accept_loop ((running, client_socket, still_running) # passes) g =
     (if \<not> running then g
      else if client_socket < 0 then (if \<not> still_running then g else gateway_accept_loop passes g)
      else gateway_accept_loop passes (g\<lparr>go_threads := go_threads g @ [client_socket]\<rparr>))"

definition run_gateway_object :: "ListenAnswers \<Rightarrow> (bool \<times> int \<times> bool) list \<Rightarrow> GatewayObject \<Rightarrow> GatewayObject" where
  "run_gateway_object answers passes g =
     (if go_running g then gateway_accept_loop passes g
      else let (ok, g) = gateway_start answers g in if ok then gateway_accept_loop passes g else g)"

text \<open>Stopping waits for the session threads.\<close>

definition gateway_stop :: "GatewayObject \<Rightarrow> GatewayObject" where
  "gateway_stop g =
     (if \<not> go_running g then g
      else
        let g = g\<lparr>go_running := False\<rparr>;
            g = (if go_listen_socket g \<ge> 0
                 then g\<lparr>go_closed := go_closed g @ [go_listen_socket g], go_listen_socket := - 1\<rparr> else g)
        in g\<lparr>go_threads := []\<rparr>)"

section \<open>The connection to the exchange\<close>

text \<open>
  For each address of the host, the result of \<^verbatim>\<open>socket\<close> and whether \<^verbatim>\<open>connect\<close> succeeds. The result is the connected
  socket and the descriptors that were closed.
\<close>

fun connect_first :: "(int \<times> bool) list \<Rightarrow> int \<times> int list" where
  "connect_first [] = (- 1, [])"
| "connect_first ((socket, connects) # addresses) =
     (if socket < 0 then connect_first addresses
      else if connects then (socket, [])
      else let (connected, closed) = connect_first addresses in (connected, socket # closed))"

definition connect_to_exchange :: "(int \<times> bool) list option \<Rightarrow> int \<times> int list" where
  "connect_to_exchange addresses = (case addresses of None \<Rightarrow> (- 1, []) | Some addresses \<Rightarrow> connect_first addresses)"

section \<open>Sending\<close>

fun send_all_bytes :: "int list \<Rightarrow> u8 list \<Rightarrow> bool \<times> u8 list" where
  "send_all_bytes results [] = (True, [])"
| "send_all_bytes [] (byte # bytes) = (False, [])"
| "send_all_bytes (sent # results) (byte # bytes) =
     (if sent \<le> 0 then (False, [])
      else let (ok, written) = send_all_bytes results (drop (nat sent) (byte # bytes))
        in (ok, take (nat sent) (byte # bytes) @ written))"

section \<open>What they do\<close>

text \<open>The attempts that were made, up to the first that succeeds.\<close>

definition attempts :: "(int \<times> bool) list \<Rightarrow> (int \<times> bool) list" where
  "attempts addresses = takeWhile (\<lambda>(socket, connects). socket < 0 \<or> \<not> connects) addresses"

text \<open>The first address that connects is used, and every other socket opened on the way is closed.\<close>

lemma connect_first_result:
  "connect_first addresses =
     (case dropWhile (\<lambda>(socket, connects). socket < 0 \<or> \<not> connects) addresses of
        [] \<Rightarrow> - 1 | (socket, _) # _ \<Rightarrow> socket,
      map fst (filter (\<lambda>(socket, _). socket \<ge> 0) (attempts addresses)))"
  by (induction addresses rule: connect_first.induct) (auto simp: attempts_def Let_def split: list.splits)

lemma send_all_bytes_written:
  "send_all_bytes results bytes = (ok, written) \<Longrightarrow> written = take (length written) bytes \<and> (ok \<longrightarrow> written = bytes)"
proof (induction results bytes arbitrary: ok written rule: send_all_bytes.induct)
  case (3 sent results byte bytes)
  show ?case
  proof (cases "sent \<le> 0")
    case False
    obtain r w where rest: "send_all_bytes results (drop (nat sent) (byte # bytes)) = (r, w)" by (metis surj_pair)
    have "w = take (length w) (drop (nat sent) (byte # bytes)) \<and> (r \<longrightarrow> w = drop (nat sent) (byte # bytes))"
      using "3.IH" [OF False rest] .
    moreover have "ok = r" "written = take (nat sent) (byte # bytes) @ w" using "3.prems" False rest by simp_all
    ultimately show ?thesis by (metis append_eq_conv_conj append_take_drop_id append_assoc)
  qed (use 3 in simp)
qed simp_all

text \<open>
  A gateway object is consistent: it listens exactly while it runs. Starting, running and stopping keep this, and a
  stopped gateway has closed every socket it listened on.
\<close>

definition gateway_consistent :: "GatewayObject \<Rightarrow> bool" where
  "gateway_consistent g \<longleftrightarrow> (go_running g \<longleftrightarrow> go_listen_socket g \<ge> 0)"

lemma gateway_accept_loop_fields:
  "go_running (gateway_accept_loop passes g) = go_running g"
  "go_listen_socket (gateway_accept_loop passes g) = go_listen_socket g"
  "\<exists>more. go_threads (gateway_accept_loop passes g) = go_threads g @ more"
  by (induction passes g rule: gateway_accept_loop.induct) auto

lemma gateway_consistent_steps:
  assumes "gateway_consistent g"
  shows "gateway_consistent (snd (gateway_start answers g))" "gateway_consistent (run_gateway_object answers passes g)"
    "gateway_consistent (gateway_stop g)"
proof -
  show start: "gateway_consistent (snd (gateway_start answers g))"
    using assms by (auto simp: gateway_consistent_def gateway_start_def Let_def)
  show "gateway_consistent (run_gateway_object answers passes g)"
    using assms start gateway_accept_loop_fields
    by (auto simp: run_gateway_object_def gateway_consistent_def split: prod.splits)
  show "gateway_consistent (gateway_stop g)"
    using assms by (auto simp: gateway_consistent_def gateway_stop_def Let_def)
qed

end
