(* ===== verification/Spec2Isabelle.thy ===== *)
theory Spec2Isabelle
  imports Engine_Properties Risk_Properties Replay_Properties Spsc_Ring Server_Properties Fix_Properties Gateway_Properties
    Metrics_Properties Multicast_Properties Sha1_Properties Websocket_Properties Telemetry Market_Data_Feed
    Client_Properties Execution_Reports Performance_Loop Memory_Pool Fix_Client Tools Gateway_Lifecycle
begin

text \<open>
  Verification of ExchangeLab, an electronic exchange in C++20.

  \<^bold>\<open>The program.\<close> Clients send orders over TCP in a binary protocol
  (\<^verbatim>\<open>include/exchange/protocol.hpp\<close>), or in FIX 4.4 through a gateway that translates to that protocol
  (\<^verbatim>\<open>src/fix_gateway.cpp\<close>). The exchange server (\<^verbatim>\<open>src/exchange_server.cpp\<close>) checks every request against
  the limits of the risk engine (\<^verbatim>\<open>src/risk_engine.cpp\<close>), writes it to the journal
  (\<^verbatim>\<open>src/journal.cpp\<close>), has the matching engine execute it on the book of its symbol
  (\<^verbatim>\<open>matching_engine.hpp\<close>, \<^verbatim>\<open>order_book.hpp\<close>, \<^verbatim>\<open>price_level.hpp\<close>), and answers and broadcasts what
  happened. At start it replays the journal (\<^verbatim>\<open>src/replay.cpp\<close>) and adopts the books found there. Market data
  leaves through a publisher with a thread of its own (\<^verbatim>\<open>src/multicast_publisher.cpp\<close>), latencies and counts are
  collected by \<^verbatim>\<open>src/performance_metrics.cpp\<close> and published as telemetry, and the WebSocket gateway
  (\<^verbatim>\<open>src/websocket_gateway.cpp\<close>) turns both feeds into JSON texts for the browsers of the dashboard. Sockets are
  wrapped by \<^verbatim>\<open>src/tcp_server.cpp\<close>; \<^verbatim>\<open>tools\<close> has the clients, a listener and the replay tool.

  \<^bold>\<open>Theories and code.\<close> A C++ class is a record with the fields of the class, an enumeration a
  datatype, a member function a function on the record that returns the new one; a thrown exception
  is the left side of the sum type \<open>outcome\<close>, and the state that comes with it is the one
  the exception leaves. Unsigned integers are words of their width, so that arithmetic wraps as in the
  code; \<^verbatim>\<open>std::int64_t\<close> is \<open>int\<close> with the predicate \<open>is_int64\<close>.
  \<^item> \<open>Prelude\<close>, \<open>Std_Map\<close>: machine integers, exceptions, generic lemmas; the ordered map of the standard
    library as a sorted association list, for both orders of keys (locale \<open>map_order\<close>).
  \<^item> \<open>Order_Types\<close>, \<open>Price_Level\<close>, \<open>Order_Book\<close>: orders and trades; the FIFO of one price with the
    identities of its list nodes and its wrapping total; the two ladders, the order index, every operation with
    every exception. The abstract book is the pair of queues \<open>resting\<close> in execution order.
  \<^item> \<open>Trade_Buffer\<close>, \<open>Matching_Engine\<close>: the small-buffer vector of trades (locale \<open>trade_log\<close>) and
    order entry, the two matching loops as instances of one (locale \<open>matching_loop\<close>), cancellation, replacement.
  \<^item> \<open>Engine_Invariants\<close>, \<open>Engine_Properties\<close>, \<open>Buffer_Independence\<close>, \<open>Book_Lookup\<close>: reachable books, the
    refinement of the engine by the abstract price-time step, and the same operations as the other components see them.
  \<^item> \<open>Wire\<close>, \<open>Protocol\<close>: integer fields byte for byte, symbols, the header and the nine messages; the
    locale \<open>wire_format\<close> states the exact round trip once, and every message interprets it.
  \<^item> \<open>Risk_Engine\<close>, \<open>Risk_Accounting\<close>, \<open>Risk_Properties\<close>: limits and kill switches, the ledger of working
    orders with its counters (locale \<open>risk_counter\<close>), and the checks as exact statements in unbounded integers.
  \<^item> \<open>Journal\<close>, \<open>Replay\<close>, \<open>Replay_Properties\<close>: the file with its faults, reading it back.
  \<^item> \<open>Spsc_Ring\<close>: the lock-free ring, sequentially (locale \<open>bounded_queue\<close>) and as interleaved atomic steps.
  \<^item> \<open>Exchange_Server\<close>: instruments, the three request handlers, outgoing messages, the framing loop,
    recovery, start and stop. \<open>Server_Invariants\<close> gives each handler's possible ends as a case rule,
    \<open>Server_Ledger\<close> relates the risk ledger to the books, \<open>Server_Runs\<close> has the invariant and the runs, \<open>Server_Recovery\<close>
    recovery and start, \<open>Server_Framing\<close> the byte stream, \<open>Server_Properties\<close> the properties.
  \<^item> \<open>Decimal\<close>, \<open>Fix\<close>, \<open>Fix_Properties\<close>: number texts, and the FIX codec of \<^verbatim>\<open>src/fix.cpp\<close>.
  \<^item> \<open>Fix_Gateway\<close>, \<open>Fix_Handlers\<close>, \<open>Gateway_Properties\<close>: a session of the FIX gateway, from the
    translation of a request to the loop over both sockets; \<open>Gateway_Lifecycle\<close>: start, accept loop and stop around it.
  \<^item> \<open>Server_Messages\<close>: properties of everything the server sends (locale \<open>message_log\<close>, proved once over the handlers
    and the runs); interpreted by \<open>Market_Data_Feed\<close> for the datagrams and by \<open>Client_Properties\<close> for the session streams
    (there also: numbering and sending as two steps, \<open>numbered_send\<close>, as a server without a journal interleaves them).
    \<open>Execution_Reports\<close>: to whom executions are sent.
  \<^item> \<open>Metrics\<close>, \<open>Metrics_Properties\<close>, \<open>Telemetry\<close>, \<open>Performance_Loop\<close>: the histogram of latencies, the counters as
    atomic operations of concurrent threads, the snapshot and its JSON text, the loop that publishes it, and the accept
    loop of the server.
  \<^item> \<open>Multicast\<close> and the theories \<open>Multicast_Invariants\<close>, \<open>Multicast_Queues\<close>, \<open>Multicast_Histories\<close>, \<open>Multicast_Wakeup\<close>,
    \<open>Multicast_Runs\<close>, \<open>Multicast_Store_Buffer\<close>, \<open>Multicast_Properties\<close>: the publisher as a transition system, one step for
    each access to a shared variable: the senders with their shards, the publisher thread, the wake flag, stop;
    \<open>mc_step\<close> sequentially consistent, \<open>tso_step\<close> with a store buffer for the clear of the wake flag.
  \<^item> \<open>Rfc_Standards\<close>: RFC 3174, RFC 4648, RFC 6455 and the form of an HTTP request, written from the standards and
    sharing nothing with the model of the code. \<open>Sha1\<close>, \<open>Sha1_Properties\<close>: SHA-1 and base64 as the code computes them.
    \<open>Websocket\<close>, \<open>Websocket_Properties\<close>: the handshake, text frames, the JSON of the events, broadcast, the loops.
  \<^item> \<open>Tcp_Server\<close>: the descriptors of the socket wrapper, partial and interrupted sends and receives. \<open>Memory_Pool\<close>: the
    counting memory resource.
  \<^item> \<open>Stream_Reader\<close> (locale \<open>stream_reader\<close>), \<open>Exchange_Client\<close>, \<open>Fix_Client\<close>, \<open>Tools\<close>: reading messages from a stream
    that the network cuts anywhere, once for both protocols; the demonstration clients, the multicast listener, the
    replay tool, the risk demonstration and the program of the exchange, with the lines they print.

  \<^bold>\<open>What is shown.\<close> Properties are marked \<open>C1\<close>, \<open>C2\<close> and so on.
  The matching engine is the abstract price-time algorithm, conserves quantity, never throws on a
  positive order with a fresh id, and keeps the book sound; cancellation, replacement, immediate and
  fill-or-kill orders behave as specified, and where the 32-bit total of a level has wrapped the theorems state what
  happens instead. The decoders accept exactly the encodings of valid messages. The risk checks decide exactly by the
  stated limits, and the counters are the sums over the working orders. Replay rebuilds the books of the requests that
  are complete in the journal, also of a journal that was cut at any byte, and its result says which cuts it takes for an
  error. Across components: after any run of the server whose handlers return, a restart gives the same books; the risk
  ledger mirrors the books; a new order is admitted exactly under the stated conditions, and everything else is rejected
  with no effect; requests on foreign orders and entries under the kill switch change nothing; a cancel of the owner
  succeeds; and a handler fails only when the journal cannot be written or a level total has wrapped. The framing does
  not depend on how the stream is cut. A FIX request is either rejected or forwarded, never both, and the reported
  quantities add up as long as no trade overtakes a replacement. From end to end: every datagram of a run is a valid event
  that the gateway broadcasts as a JSON text from which it can be read back with exact integers; the client of a session
  of a server with a journal reads exactly the messages the server sent it, numbered in order; the replay tool prints
  the books of the live server. Under sequential consistency the publisher never sleeps through work (with a store buffer
  it can), keeps the order of each thread, and a stop in a quiet moment loses nothing. Percentiles bracket the exact ones
  and concurrent recording loses no count. The accept key is the one of the standards, and the handshake does not depend
  on how the request arrives. Which descriptors of the socket wrapper are open is stated exactly. Some theorems
  show where the code falls short: level totals that wrap, a torn record length that makes the journal
  unreadable, a replacement overtaken by a trade, a request that is never answered, a datagram that is lost at stop, a
  wake-up that is missed, an empty datagram that ends the feed, an execution that is reported to a stranger, sequence
  numbers that overtake each other, a second client that makes the wrapper lose the first, a write that ends the process.

  \<^bold>\<open>Bounds.\<close> Loops that consume their input are recursive functions with a termination proof; no
  fuel is used. The exact risk statements hold while the ledger holds fewer than 2^31 working orders, far
  below the point at which the 64-bit counters saturate. Journal records are at most 1 MiB, as the replayer demands;
  requests are below 1000 bytes. The ring's positions are 64-bit words that wrap; its capacity is a power of
  two. The gateway's order ids count from 2^62 and are taken not to wrap.

  \<^bold>\<open>What is assumed.\<close> A handler of the exchange server runs under \<^verbatim>\<open>engine_mutex_\<close> from its first look at
  the book to its last change, and with a journal as a whole under \<^verbatim>\<open>journal_processing_mutex_\<close>; so handlers are
  atomic steps and a run is a sequence of them. Without a journal this holds for what a handler does to the state, while
  the sends of two sessions may interleave; the properties about the order of messages are restricted to servers
  with a journal. A handler that throws ends the process, so a run has only handlers that return. Messages
  are logged in the order they are handed to the sockets. The handlers do not look at the result of a send, so the log holds what was handed over;
  \<open>Tcp_Server\<close> has what the system makes of it. Sends of the gateway may fail.
  The file system and the network are arguments: the outcome of each write, the contents of the file, the chunks that
  arrive. The order of iteration over hash tables, the clocks and the arithmetic of \<^verbatim>\<open>long double\<close> are
  parameters, as are the quotients of \<^verbatim>\<open>double\<close>s and their texts in the telemetry. The results of system calls are
  arguments of the definitions that make the call. Atomic operations of the ring, the publisher and the counters are
  interleaved as sequentially consistent steps, in any order; the one exception is \<open>tso_step\<close>.

  \<^bold>\<open>Not modelled.\<close> Memory orders weaker than sequential consistency, the buffered clear of the wake flag apart; a restart of a publisher whose senders are still
  under way; the interleaving of the threads of the gateways, whose loops are modelled one thread at a time; the pool
  allocators of the standard library; parsing of the listener's command line and of the environment, the small programs
  that build a configuration and run a gateway, the benchmarks (their results are times) and the tests.
\<close>

end
